(* ===== verification/Elbot_Prelude.thy ===== *)
theory Elbot_Prelude
  imports Main "HOL-Library.Multiset"
begin

text \<open>
  Shared vocabulary of the development: the collections of rewrite rules the component
  theories fill, the interface of a deterministic state machine (operations over a state,
  run over a list of calls, with an invariant), and the generic lemmas on lists and maps that
  several components use.
\<close>

named_theorems gostr_simps \<open>evaluation and algebra of the string functions\<close>
named_theorems op_defs \<open>definitions of the operations of a component\<close>
named_theorems inv_defs \<open>definitions of the invariants of a component\<close>

section \<open>Lists\<close>

lemma nth_tl_drop: "i < length xs \<Longrightarrow> drop i xs = xs ! i # drop (Suc i) xs"
  by (rule Cons_nth_drop_Suc [symmetric])

lemma take_append_le: "n \<le> length xs \<Longrightarrow> take n (xs @ ys) = take n xs"
  by simp

lemma drop_take_append: "a \<le> b \<Longrightarrow> b \<le> length s \<Longrightarrow> take a s @ drop a (take b s) = take b s"
  by (metis append_take_drop_id min.absorb1 take_take)

lemma find_Some_mem: "find P xs = Some x \<Longrightarrow> x \<in> set xs \<and> P x"
  by (induction xs) (auto split: if_splits)

lemma find_None_all: "find P xs = None \<Longrightarrow> x \<in> set xs \<Longrightarrow> \<not> P x"
  by (induction xs) (auto split: if_splits)

lemma distinct_filter_map: "distinct (map f xs) \<Longrightarrow> distinct (map f (filter P xs))"
  by (induction xs) auto

text \<open>A nest of conditionals avoids a value if each of its branches does.\<close>

lemma if_neqI: "x \<noteq> z \<Longrightarrow> y \<noteq> z \<Longrightarrow> (if b then x else y) \<noteq> z"
  by simp

section \<open>Stable sorting by a less function\<close>

text \<open>
  \<open>sort.SliceStable\<close> with a less function: insertion from the right, each element in
  front of the first one that is not less than it.
\<close>

fun insert_by :: "('a \<Rightarrow> 'a \<Rightarrow> bool) \<Rightarrow> 'a \<Rightarrow> 'a list \<Rightarrow> 'a list" where
  "insert_by lt x [] = [x]"
| "insert_by lt x (y # ys) = (if lt y x then y # insert_by lt x ys else x # y # ys)"

definition stable_sort :: "('a \<Rightarrow> 'a \<Rightarrow> bool) \<Rightarrow> 'a list \<Rightarrow> 'a list" where
  "stable_sort lt xs = foldr (insert_by lt) xs []"

lemma stable_sort_simps [simp]:
  "stable_sort lt [] = []"
  "stable_sort lt (x # xs) = insert_by lt x (stable_sort lt xs)"
  by (simp_all add: stable_sort_def)

lemma mset_insert_by [simp]: "mset (insert_by lt x ys) = add_mset x (mset ys)"
  by (induction ys) auto

lemma mset_stable_sort [simp]: "mset (stable_sort lt xs) = mset xs"
  by (induction xs) auto

lemma set_stable_sort [simp]: "set (stable_sort lt xs) = set xs"
  by (metis mset_eq_setD mset_stable_sort)

lemma length_stable_sort [simp]: "length (stable_sort lt xs) = length xs"
  by (metis mset_stable_sort size_mset)

lemma sorted_insert_by:
  assumes "\<And>a b c. a \<in> A \<Longrightarrow> b \<in> A \<Longrightarrow> c \<in> A \<Longrightarrow> \<not> lt b a \<Longrightarrow> \<not> lt c b \<Longrightarrow> \<not> lt c a"
    and "\<And>a b. a \<in> A \<Longrightarrow> b \<in> A \<Longrightarrow> lt a b \<Longrightarrow> \<not> lt b a"
    and "set ys \<subseteq> A" and "x \<in> A"
    and "sorted_wrt (\<lambda>a b. \<not> lt b a) ys"
  shows "sorted_wrt (\<lambda>a b. \<not> lt b a) (insert_by lt x ys)"
  using assms(3-5)
proof (induction ys)
  case (Cons y ys)
  have set_ins: "set (insert_by lt x ys) = insert x (set ys)"
    by (metis mset_insert_by set_mset_add_mset_insert set_mset_mset)
  show ?case
  proof (cases "lt y x")
    case True
    with Cons show ?thesis using assms(2) [of y x] by (auto simp: set_ins)
  next
    case False
    have "\<not> lt z x" if "z \<in> set ys" for z
      using that False Cons.prems assms(1) [of x y z] by auto
    with False Cons.prems show ?thesis by auto
  qed
qed simp

lemma sorted_stable_sort:
  assumes "\<And>a b c. a \<in> set xs \<Longrightarrow> b \<in> set xs \<Longrightarrow> c \<in> set xs \<Longrightarrow>
      \<not> lt b a \<Longrightarrow> \<not> lt c b \<Longrightarrow> \<not> lt c a"
    and "\<And>a b. a \<in> set xs \<Longrightarrow> b \<in> set xs \<Longrightarrow> lt a b \<Longrightarrow> \<not> lt b a"
  shows "sorted_wrt (\<lambda>a b. \<not> lt b a) (stable_sort lt xs)"
proof -
  have "set zs \<subseteq> set xs \<Longrightarrow> sorted_wrt (\<lambda>a b. \<not> lt b a) (stable_sort lt zs)" for zs
  proof (induction zs)
    case (Cons z zs)
    have "sorted_wrt (\<lambda>a b. \<not> lt b a) (insert_by lt z (stable_sort lt zs))"
      by (rule sorted_insert_by [OF assms]) (use Cons in auto)
    then show ?case by simp
  qed simp
  then show ?thesis by simp
qed

section \<open>Interface: a state machine with an invariant\<close>

text \<open>
  Several components are objects with a mutex: a state, one function per method call, and
  calls that arrive one at a time in any order. The client of such a component sees the
  states reachable by a list of calls; the provider promises that the initial state and every
  call keep the invariant.
\<close>

locale guarded_machine =
  fixes start :: "'s"
    and call :: "'s \<Rightarrow> 'c \<Rightarrow> 's"
    and inv :: "'s \<Rightarrow> bool"
  assumes start_inv: "inv start"
    and call_inv: "inv s \<Longrightarrow> inv (call s c)"
begin

lemma run_from_inv: "inv s \<Longrightarrow> inv (foldl call s cs)"
  by (induction cs arbitrary: s) (auto intro: call_inv)

lemma reachable_inv: "inv (foldl call start cs)"
  by (rule run_from_inv) (rule start_inv)

lemma reachable_prefix_inv: "inv (foldl call start (take n cs))"
  by (rule reachable_inv)

end

text \<open>
  A flag that can only be raised: once a state satisfies \<open>done\<close>, every later state does.
  Finished executions, invalidated bindings and closed queues are such flags.
\<close>

locale one_way_flag =
  fixes call :: "'s \<Rightarrow> 'c \<Rightarrow> 's"
    and raised :: "'s \<Rightarrow> bool"
  assumes call_raised: "raised s \<Longrightarrow> raised (call s c)"
begin

lemma run_raised: "raised s \<Longrightarrow> raised (foldl call s cs)"
  by (induction cs arbitrary: s) (auto intro: call_raised)

lemma raised_mono: "raised (foldl call s cs) \<Longrightarrow> raised (foldl call s (cs @ ds))"
  by (simp add: run_raised)

end

text \<open>
  The error values the components pass around: the two errors of the \<open>context\<close> package,
  other errors by their message, and wrapping (\<open>fmt.Errorf\<close> with \<open>%w\<close>), with
  \<open>errors.Is\<close> along the chain.
\<close>

datatype go_error = ErrCanceled | ErrDeadlineExceeded | ErrOther string | ErrWrap string go_error

fun errors_is :: "go_error \<Rightarrow> go_error \<Rightarrow> bool" where
  "errors_is (ErrWrap m e) target = (ErrWrap m e = target \<or> errors_is e target)"
| "errors_is e target = (e = target)"

lemma errors_is_refl [simp]: "errors_is e e"
  by (cases e) auto

lemma errors_is_wrap [simp]: "errors_is e target \<Longrightarrow> errors_is (ErrWrap m e) target"
  by simp

end
