(* ===== verification/Go_Strings.thy ===== *)
theory Go_Strings
  imports Elbot_Prelude
begin

text \<open>
  Go's strings and the functions of the \<open>strings\<close>, \<open>strconv\<close> and
  \<open>unicode/utf8\<close> packages that the modelled code calls. A Go string is a list of bytes:
  the model uses \<open>string\<close> (lists of 8-bit characters), so lengths and offsets count
  bytes as in the source. White space is \<open>unicode.IsSpace\<close> on the UTF-8 encoding.
  \<open>strings.Index\<close> and its kin return \<open>-1\<close> for absence; the model returns an option.
\<close>

section \<open>White space\<close>

definition ascii_space :: "char \<Rightarrow> bool" where
  "ascii_space c \<longleftrightarrow> c = CHR 0x20 \<or> c = CHR 0x09 \<or> c = CHR 0x0A \<or> c = CHR 0x0B \<or>
     c = CHR 0x0C \<or> c = CHR 0x0D"

text \<open>
  \<open>space2\<close> and \<open>space3\<close> recognise the two- and three-byte encodings of the other
  code points with the property White Space: U+0085, U+00A0, U+1680, U+2000 to U+200A,
  U+2028, U+2029, U+202F, U+205F and U+3000.
\<close>

definition space2 :: "char \<Rightarrow> char \<Rightarrow> bool" where
  "space2 a b \<longleftrightarrow> a = CHR 0xC2 \<and> (b = CHR 0x85 \<or> b = CHR 0xA0)"

definition space3 :: "char \<Rightarrow> char \<Rightarrow> char \<Rightarrow> bool" where
  "space3 a b c \<longleftrightarrow>
     a = CHR 0xE1 \<and> b = CHR 0x9A \<and> c = CHR 0x80 \<or>
     a = CHR 0xE2 \<and> b = CHR 0x80 \<and>
       (0x80 \<le> (of_char c :: nat) \<and> (of_char c :: nat) \<le> 0x8A \<or>
        c = CHR 0xA8 \<or> c = CHR 0xA9 \<or> c = CHR 0xAF) \<or>
     a = CHR 0xE2 \<and> b = CHR 0x81 \<and> c = CHR 0x9F \<or>
     a = CHR 0xE3 \<and> b = CHR 0x80 \<and> c = CHR 0x80"

fun lead_space :: "string \<Rightarrow> nat" where
  "lead_space [] = 0"
| "lead_space [a] = (if ascii_space a then 1 else 0)"
| "lead_space [a, b] = (if ascii_space a then 1 else if space2 a b then 2 else 0)"
| "lead_space (a # b # c # s) =
     (if ascii_space a then 1 else if space2 a b then 2 else if space3 a b c then 3 else 0)"

fun tail_space :: "string \<Rightarrow> nat" where
  "tail_space [] = 0"
| "tail_space [a] = (if ascii_space a then 1 else 0)"
| "tail_space [a, b] = (if ascii_space a then 1 else if space2 b a then 2 else 0)"
| "tail_space (a # b # c # s) =
     (if ascii_space a then 1 else if space2 b a then 2 else if space3 c b a then 3 else 0)"

lemma lead_space_le: "lead_space s \<le> length s"
  by (cases s rule: lead_space.cases) auto

lemma tail_space_le: "tail_space s \<le> length s"
  by (cases s rule: tail_space.cases) auto

lemma lead_space_pos: "0 < lead_space s \<Longrightarrow> s \<noteq> []"
  by auto

lemma tail_space_pos: "0 < tail_space s \<Longrightarrow> s \<noteq> []"
  by auto

function trim_left :: "string \<Rightarrow> string" where
  "trim_left s = (if lead_space s = 0 then s else trim_left (drop (lead_space s) s))"
  by pat_completeness auto
termination
  by (relation "measure length") (auto intro!: diff_less dest: lead_space_pos)

function trim_rev :: "string \<Rightarrow> string" where
  "trim_rev s = (if tail_space s = 0 then s else trim_rev (drop (tail_space s) s))"
  by pat_completeness auto
termination
  by (relation "measure length") (auto intro!: diff_less dest: tail_space_pos)

declare trim_left.simps [simp del] trim_rev.simps [simp del]

definition trim_right :: "string \<Rightarrow> string" where
  "trim_right s = rev (trim_rev (rev s))"

definition trim_space :: "string \<Rightarrow> string" where
  "trim_space s = trim_right (trim_left s)"

lemma trim_left_Nil [simp]: "trim_left [] = []"
  by (simp add: trim_left.simps)

lemma trim_rev_Nil [simp]: "trim_rev [] = []"
  by (simp add: trim_rev.simps)

lemma trim_space_Nil [simp]: "trim_space [] = []"
  by (simp add: trim_space_def trim_right_def)

lemma trim_left_lead: "lead_space (trim_left s) = 0"
proof (induction s rule: trim_left.induct)
  case (1 s)
  then show ?case by (cases "lead_space s = 0") (simp_all add: trim_left.simps [of s])
qed

lemma trim_rev_tail: "tail_space (trim_rev s) = 0"
proof (induction s rule: trim_rev.induct)
  case (1 s)
  then show ?case by (cases "tail_space s = 0") (simp_all add: trim_rev.simps [of s])
qed

lemma trim_rev_suffix: "\<exists>n. trim_rev s = drop n s"
proof (induction s rule: trim_rev.induct)
  case (1 s)
  show ?case
  proof (cases "tail_space s = 0")
    case True
    then have "trim_rev s = drop 0 s" by (simp add: trim_rev.simps [of s])
    then show ?thesis by blast
  next
    case False
    with "1" obtain n where "trim_rev (drop (tail_space s) s) = drop n (drop (tail_space s) s)"
      by blast
    with False have "trim_rev s = drop (n + tail_space s) s"
      by (simp add: trim_rev.simps [of s])
    then show ?thesis by blast
  qed
qed

lemma trim_right_prefix: "\<exists>n. trim_right s = take n s"
proof -
  obtain n where "trim_rev (rev s) = drop n (rev s)" using trim_rev_suffix by blast
  then have "trim_right s = take (length s - n) s"
    by (simp add: trim_right_def rev_drop)
  then show ?thesis by blast
qed

lemma trim_left_length: "length (trim_left s) \<le> length s"
proof (induction s rule: trim_left.induct)
  case (1 s)
  then show ?case by (cases "lead_space s = 0") (simp_all add: trim_left.simps [of s])
qed

lemma trim_space_length: "length (trim_space s) \<le> length s"
proof -
  obtain n where "trim_space s = take n (trim_left s)"
    using trim_right_prefix [of "trim_left s"] by (auto simp: trim_space_def)
  then show ?thesis using trim_left_length [of s] by simp
qed

text \<open>A prefix of a string with no leading space has none either.\<close>

lemma lead_space_take: "lead_space s = 0 \<Longrightarrow> lead_space (take n s) = 0"
  by (cases s rule: lead_space.cases; cases n; cases "n - 1"; cases "n - 2")
    (auto split: if_splits)

lemma trim_space_lead: "lead_space (trim_space s) = 0"
  using trim_right_prefix [of "trim_left s"] trim_left_lead lead_space_take
  by (metis trim_space_def)

lemma trim_space_tail: "tail_space (rev (trim_space s)) = 0"
  by (simp add: trim_space_def trim_right_def trim_rev_tail)

lemma trim_left_id: "lead_space s = 0 \<Longrightarrow> trim_left s = s"
  by (simp add: trim_left.simps)

lemma trim_rev_id: "tail_space s = 0 \<Longrightarrow> trim_rev s = s"
  by (simp add: trim_rev.simps)

lemma trim_space_id: "lead_space s = 0 \<Longrightarrow> tail_space (rev s) = 0 \<Longrightarrow> trim_space s = s"
  by (simp add: trim_space_def trim_right_def trim_left_id trim_rev_id)

lemma trim_space_idem [simp]: "trim_space (trim_space s) = trim_space s"
  by (rule trim_space_id) (simp_all add: trim_space_lead trim_space_tail)

section \<open>Prefixes, suffixes, searching\<close>

definition has_prefix :: "string \<Rightarrow> string \<Rightarrow> bool" where
  "has_prefix p s \<longleftrightarrow> take (length p) s = p"

definition has_suffix :: "string \<Rightarrow> string \<Rightarrow> bool" where
  "has_suffix p s \<longleftrightarrow> has_prefix (rev p) (rev s)"

definition trim_prefix :: "string \<Rightarrow> string \<Rightarrow> string" where
  "trim_prefix p s = (if has_prefix p s then drop (length p) s else s)"

definition trim_suffix :: "string \<Rightarrow> string \<Rightarrow> string" where
  "trim_suffix p s = (if has_suffix p s then take (length s - length p) s else s)"

fun index_of :: "string \<Rightarrow> string \<Rightarrow> nat option" where
  "index_of p [] = (if p = [] then Some 0 else None)"
| "index_of p (c # s) =
     (if has_prefix p (c # s) then Some 0 else map_option Suc (index_of p s))"

definition contains_str :: "string \<Rightarrow> string \<Rightarrow> bool" where
  "contains_str s p \<longleftrightarrow> index_of p s \<noteq> None"

definition contains_any :: "string \<Rightarrow> string \<Rightarrow> bool" where
  "contains_any s cs \<longleftrightarrow> list_ex (\<lambda>c. c \<in> set cs) s"

definition cut_str :: "string \<Rightarrow> string \<Rightarrow> string \<times> string \<times> bool" where
  "cut_str sep s = (case index_of sep s of
     Some i \<Rightarrow> (take i s, drop (i + length sep) s, True) | None \<Rightarrow> (s, [], False))"

lemma has_prefix_Nil [simp]: "has_prefix [] s"
  by (simp add: has_prefix_def)

lemma has_prefix_append [simp]: "has_prefix p (p @ s)"
  by (simp add: has_prefix_def)

lemma has_prefix_iff: "has_prefix p s \<longleftrightarrow> (\<exists>t. s = p @ t)"
  by (metis append_take_drop_id has_prefix_append has_prefix_def)

lemma has_prefix_Cons [simp]: "has_prefix (a # p) (b # s) \<longleftrightarrow> a = b \<and> has_prefix p s"
  by (auto simp: has_prefix_def)

lemma has_prefix_Cons_Nil [simp]: "\<not> has_prefix (a # p) []"
  by (simp add: has_prefix_def)

lemma has_suffix_iff: "has_suffix p s \<longleftrightarrow> (\<exists>t. s = t @ p)"
  by (metis has_prefix_iff has_suffix_def rev_append rev_rev_ident)

lemma has_suffix_single: "has_suffix [c] s \<longleftrightarrow> s \<noteq> [] \<and> last s = c"
  by (cases s rule: rev_cases) (auto simp: has_suffix_def)

lemma index_of_Some:
  "index_of p s = Some i \<Longrightarrow> i + length p \<le> length s \<and> take (length p) (drop i s) = p"
proof (induction p s arbitrary: i rule: index_of.induct)
  case (2 p c s)
  show ?case
  proof (cases "has_prefix p (c # s)")
    case True
    then have "take (length p) (c # s) = p" by (simp add: has_prefix_def)
    moreover from this have "length p \<le> length (c # s)"
      by (metis length_take min.cobounded1)
    ultimately show ?thesis using True 2 by simp
  next
    case False
    with 2 show ?thesis by auto
  qed
qed (auto split: if_splits)

lemma index_of_None: "index_of p s = None \<Longrightarrow> \<not> has_prefix p (drop i s)"
proof (induction p s arbitrary: i rule: index_of.induct)
  case (1 p)
  then show ?case by (cases p) (auto split: if_splits)
next
  case (2 p c s)
  then show ?case by (cases i) (auto split: if_splits)
qed

lemma index_of_first: "index_of p s = Some i \<Longrightarrow> j < i \<Longrightarrow> \<not> has_prefix p (drop j s)"
proof (induction p s arbitrary: i j rule: index_of.induct)
  case (1 p)
  then show ?case by (auto split: if_splits)
next
  case (2 p c s)
  then show ?case by (cases j) (auto split: if_splits)
qed

section \<open>Replacing, splitting, joining\<close>

text \<open>\<open>strings.ReplaceAll\<close> for a non-empty old string, scanning from the left.\<close>

fun replace_from :: "nat \<Rightarrow> string \<Rightarrow> string \<Rightarrow> string \<Rightarrow> string" where
  "replace_from k old new [] = []"
| "replace_from (Suc k) old new (c # s) = replace_from k old new s"
| "replace_from 0 old new (c # s) =
     (if has_prefix old (c # s) then new @ replace_from (length old - 1) old new s
      else c # replace_from 0 old new s)"

definition replace_all :: "string \<Rightarrow> string \<Rightarrow> string \<Rightarrow> string" where
  "replace_all old new s = replace_from 0 old new s"

fun split_char :: "char \<Rightarrow> string \<Rightarrow> string list" where
  "split_char c [] = [[]]"
| "split_char c (d # s) =
     (if d = c then [] # split_char c s
      else (case split_char c s of [] \<Rightarrow> [[d]] | w # ws \<Rightarrow> (d # w) # ws))"

fun join_str :: "string \<Rightarrow> string list \<Rightarrow> string" where
  "join_str sep [] = []"
| "join_str sep [w] = w"
| "join_str sep (w # v # ws) = w @ sep @ join_str sep (v # ws)"

text \<open>\<open>strings.Fields\<close>: the maximal runs without white space.\<close>

fun fields_from :: "nat \<Rightarrow> string \<Rightarrow> string \<Rightarrow> string list" where
  "fields_from k acc [] = (if acc = [] then [] else [rev acc])"
| "fields_from (Suc k) acc (c # s) = fields_from k acc s"
| "fields_from 0 acc (c # s) =
     (let n = lead_space (c # s)
      in if n = 0 then fields_from 0 (c # acc) s
         else if acc = [] then fields_from (n - 1) [] s
         else rev acc # fields_from (n - 1) [] s)"

definition fields :: "string \<Rightarrow> string list" where
  "fields s = fields_from 0 [] s"

definition count_char :: "char \<Rightarrow> string \<Rightarrow> nat" where
  "count_char c s = length (filter (\<lambda>d. d = c) s)"

lemma split_char_nonempty [simp]: "split_char c s \<noteq> []"
  by (induction s) (auto split: list.splits)

lemma join_split_char: "join_str [c] (split_char c s) = s"
proof (induction s)
  case (Cons d s)
  show ?case
  proof (cases "split_char c s")
    case Nil
    then show ?thesis by simp
  next
    case (Cons w ws)
    with Cons.IH show ?thesis by (cases ws) auto
  qed
qed simp

lemma split_char_no_sep: "w \<in> set (split_char c s) \<Longrightarrow> c \<notin> set w"
proof (induction s arbitrary: w)
  case (Cons d s)
  then show ?case by (cases "split_char c s") (auto split: if_splits)
qed simp

lemma length_split_char: "length (split_char c s) = Suc (count_char c s)"
  by (induction s) (auto simp: count_char_def split: list.splits)

lemma split_char_append_sep:
  "split_char c (s @ c # t) = split_char c s @ split_char c t"
proof (induction s)
  case (Cons d s)
  then show ?case by (cases "split_char c s") auto
qed simp

lemma split_char_no_occ: "c \<notin> set s \<Longrightarrow> split_char c s = [s]"
  by (induction s) auto

lemma split_join:
  assumes "ws \<noteq> []" and "\<forall>w \<in> set ws. c \<notin> set w"
  shows "split_char c (join_str [c] ws) = ws"
  using assms
proof (induction "[c]" ws rule: join_str.induct)
  case (3 w v ws)
  then have "split_char c (w @ c # join_str [c] (v # ws)) = split_char c w @ v # ws"
    by (simp add: split_char_append_sep)
  with 3 show ?case by (simp add: split_char_no_occ)
qed (auto simp: split_char_no_occ)

section \<open>Letter case\<close>

text \<open>
  \<open>strings.ToLower\<close>, as far as a comparison with an ASCII string can see it: the ASCII
  capitals, and the two code points outside ASCII whose lower case is an ASCII letter (U+0130
  and U+212A). Other code points keep their encoding here; they are never equal to an ASCII
  string on either side.
\<close>

definition lower_ascii :: "char \<Rightarrow> char" where
  "lower_ascii c = (if 65 \<le> (of_char c :: nat) \<and> (of_char c :: nat) \<le> 90
     then char_of ((of_char c :: nat) + 32) else c)"

fun to_lower :: "string \<Rightarrow> string" where
  "to_lower [] = []"
| "to_lower [a] = [lower_ascii a]"
| "to_lower [a, b] =
     (if a = CHR 0xC4 \<and> b = CHR 0xB0 then ''i'' else lower_ascii a # to_lower [b])"
| "to_lower (a # b # c # s) =
     (if a = CHR 0xC4 \<and> b = CHR 0xB0 then CHR ''i'' # to_lower (c # s)
      else if a = CHR 0xE2 \<and> b = CHR 0x84 \<and> c = CHR 0xAA then CHR ''k'' # to_lower s
      else lower_ascii a # to_lower (b # c # s))"

text \<open>\<open>strings.EqualFold\<close> against an ASCII word without \<open>k\<close> and \<open>s\<close>.\<close>

definition equal_fold_ascii :: "string \<Rightarrow> string \<Rightarrow> bool" where
  "equal_fold_ascii s t \<longleftrightarrow> map lower_ascii s = map lower_ascii t"

section \<open>Numbers\<close>

definition digit_char :: "nat \<Rightarrow> char" where
  "digit_char d = char_of (48 + d)"

function nat_str :: "nat \<Rightarrow> string" where
  "nat_str n = (if n < 10 then [digit_char n] else nat_str (n div 10) @ [digit_char (n mod 10)])"
  by pat_completeness auto
termination
  by (relation "measure id") auto

declare nat_str.simps [simp del]

definition int_str :: "int \<Rightarrow> string" where
  "int_str i = (if i < 0 then ''-'' @ nat_str (nat (- i)) else nat_str (nat i))"

definition is_digit :: "char \<Rightarrow> bool" where
  "is_digit c \<longleftrightarrow> 48 \<le> (of_char c :: nat) \<and> (of_char c :: nat) \<le> 57"

definition digit_val :: "char \<Rightarrow> nat" where
  "digit_val c = (of_char c :: nat) - 48"

definition digits_val :: "string \<Rightarrow> nat" where
  "digits_val s = foldl (\<lambda>n c. 10 * n + digit_val c) 0 s"

text \<open>\<open>strconv.Atoi\<close> on a 64-bit platform: an optional sign, decimal digits, in range.\<close>

definition atoi :: "string \<Rightarrow> int option" where
  "atoi s =
     (let neg = has_prefix ''-'' s;
          ds = (if neg \<or> has_prefix ''+'' s then tl s else s);
          v = (if neg then - int (digits_val ds) else int (digits_val ds))
      in if ds = [] \<or> \<not> list_all is_digit ds then None
         else if v < - (2 ^ 63) \<or> 2 ^ 63 \<le> v then None else Some v)"

section \<open>Runes\<close>

text \<open>
  \<open>utf8.DecodeRune\<close>: the code point at the start of a string and the number of bytes it
  takes. An invalid encoding is the replacement character U+FFFD of width one. \<open>range\<close>
  over a string visits its runes in this way.
\<close>

definition cont_byte :: "char \<Rightarrow> bool" where
  "cont_byte c \<longleftrightarrow> 0x80 \<le> (of_char c :: nat) \<and> (of_char c :: nat) \<le> 0xBF"

definition bad_rune :: "nat \<times> nat" where
  "bad_rune = (0xFFFD, 1)"

definition decode_rune :: "string \<Rightarrow> nat \<times> nat" where
  "decode_rune s = (case s of
     [] \<Rightarrow> (0xFFFD, 0)
   | a # r \<Rightarrow> (let x = (of_char a :: nat) in
       if x < 0x80 then (x, 1)
       else if 0xC2 \<le> x \<and> x \<le> 0xDF then
         (case r of b # _ \<Rightarrow>
            if cont_byte b then ((x - 0xC0) * 64 + (of_char b - 0x80), 2) else bad_rune
          | [] \<Rightarrow> bad_rune)
       else if 0xE0 \<le> x \<and> x \<le> 0xEF then
         (case r of b # c # _ \<Rightarrow>
            if cont_byte b \<and> cont_byte c \<and>
               (x = 0xE0 \<longrightarrow> 0xA0 \<le> (of_char b :: nat)) \<and>
               (x = 0xED \<longrightarrow> (of_char b :: nat) \<le> 0x9F)
            then ((x - 0xE0) * 4096 + (of_char b - 0x80) * 64 + (of_char c - 0x80), 3) else bad_rune
          | _ \<Rightarrow> bad_rune)
       else if 0xF0 \<le> x \<and> x \<le> 0xF4 then
         (case r of b # c # d # _ \<Rightarrow>
            if cont_byte b \<and> cont_byte c \<and> cont_byte d \<and>
               (x = 0xF0 \<longrightarrow> 0x90 \<le> (of_char b :: nat)) \<and>
               (x = 0xF4 \<longrightarrow> (of_char b :: nat) \<le> 0x8F)
            then ((x - 0xF0) * 262144 + (of_char b - 0x80) * 4096 +
                  (of_char c - 0x80) * 64 + (of_char d - 0x80), 4) else bad_rune
          | _ \<Rightarrow> bad_rune)
       else bad_rune))"

fun runes_from :: "nat \<Rightarrow> string \<Rightarrow> nat list" where
  "runes_from k [] = []"
| "runes_from (Suc k) (c # s) = runes_from k s"
| "runes_from 0 (c # s) =
     (case decode_rune (c # s) of (r, w) \<Rightarrow> r # runes_from (w - 1) s)"

definition runes :: "string \<Rightarrow> nat list" where
  "runes s = runes_from 0 s"

end
