(* ===== verification/File_Text.thy ===== *)
theory File_Text
  imports Go_Strings
begin

text \<open>
  Text handling of the file service (\<open>internal/fileops/text.go\<close>): line ends, read
  ranges, limits of the tool parameters and splitting into lines. Integers are \<open>int\<close>:
  every sum the code forms here is bounded by the number of lines plus a small constant, so the
  64-bit arithmetic of the source does not wrap.
\<close>

abbreviation CR :: char where "CR \<equiv> CHR 0x0D"
abbreviation LF :: char where "LF \<equiv> CHR 0x0A"

section \<open>Line numbers and ranges\<close>

record line_number =
  ln_value :: int
  ln_end :: bool

definition default_read_line_limit :: int where
  "default_read_line_limit = 200"

datatype range_error =
    StartExceedsTotal int int
  | EndBeforeStart
  | LineBelowOne
  | EndBelowLine
  | FileHasNoLines
  | RangeExceedsTotal int int int

definition normalize_read_range ::
  "int \<Rightarrow> int \<Rightarrow> line_number \<Rightarrow> range_error + int \<times> int \<times> bool" where
  "normalize_read_range tot start0 end_line =
     (if tot = 0 then Inr (1, 0, False)
      else let start = (if start0 \<le> 0 then 1 else start0) in
        if start > tot then Inl (StartExceedsTotal start tot)
        else let
          (e1, t1) =
            (if ln_end end_line then (tot, False)
             else if ln_value end_line \<le> 0
               then (start + default_read_line_limit - 1,
                     start + default_read_line_limit - 1 < tot)
             else (ln_value end_line, False));
          e2 = (if e1 > tot then tot else e1)
        in if e2 < start then Inl EndBeforeStart
           else if \<not> ln_end end_line \<and> e2 - start + 1 > default_read_line_limit
             then Inr (start, start + default_read_line_limit - 1, True)
           else Inr (start, e2, t1))"

definition validate_line_range :: "int \<Rightarrow> int \<Rightarrow> int \<Rightarrow> range_error option" where
  "validate_line_range tot start e =
     (if start \<le> 0 then Some LineBelowOne
      else if e < start then Some EndBelowLine
      else if tot = 0 then Some FileHasNoLines
      else if start > tot \<or> e > tot then Some (RangeExceedsTotal start e tot)
      else None)"

definition normalize_grep_context_lines :: "int \<Rightarrow> int" where
  "normalize_grep_context_lines v = (if v < 0 then 0 else if v = 0 then 2 else if v > 20 then 20 else v)"

definition normalize_max_matches :: "int \<Rightarrow> int" where
  "normalize_max_matches v = (if v \<le> 0 then 20 else if v > 100 then 100 else v)"

definition normalize_context_lines :: "int \<Rightarrow> int" where
  "normalize_context_lines v = (if v < 0 then 0 else if v = 0 then 3 else if v > 20 then 20 else v)"

section \<open>Line ends\<close>

definition normalize_edit_text :: "string \<Rightarrow> string" where
  "normalize_edit_text s = replace_all [CR] [LF] (replace_all [CR, LF] [LF] s)"

definition ensure_trailing_newline :: "string \<Rightarrow> string" where
  "ensure_trailing_newline s =
     (let t = normalize_edit_text s in if t = [] \<or> has_suffix [LF] t then t else t @ [LF])"

definition restore_line_endings :: "string \<Rightarrow> string \<Rightarrow> string" where
  "restore_line_endings s line_ending =
     (if line_ending = [] \<or> line_ending = [LF] then s else replace_all [LF] line_ending s)"

definition detect_line_ending :: "string \<Rightarrow> string" where
  "detect_line_ending s =
     (if contains_str s [CR, LF] then [CR, LF] else if contains_str s [CR] then [CR] else [LF])"

definition split_lines :: "string \<Rightarrow> string list" where
  "split_lines s =
     (let t = replace_all [CR] [LF] (replace_all [CR, LF] [LF] s) in
      if t = [] then []
      else let u = (if has_suffix [LF] t then trim_suffix [LF] t else t) in
        if u = [] then [[]] else split_char LF u)"

definition looks_binary_utf8 :: "string \<Rightarrow> bool" where
  "looks_binary_utf8 s = (CHR 0x00 \<in> set (take (min (length s) 4096) s))"

section \<open>Lemmas: one pass over the bytes\<close>

text \<open>The two replacements of \<open>NormalizeEditText\<close> as one pass, the reference of the proofs.\<close>

fun unify_ends :: "string \<Rightarrow> string" where
  "unify_ends [] = []"
| "unify_ends [a] = (if a = CR then [LF] else [a])"
| "unify_ends (a # b # s) =
     (if a = CR \<and> b = LF then LF # unify_ends s
      else (if a = CR then LF else a) # unify_ends (b # s))"

lemma replace_from_single:
  "replace_from 0 [c] w s = concat (map (\<lambda>d. if d = c then w else [d]) s)"
  by (induction s) auto

lemma replace_char_map: "replace_all [c] [d] s = map (\<lambda>x. if x = c then d else x) s"
  by (simp add: replace_all_def replace_from_single) (induction s, auto)

lemma normalize_eq_unify: "normalize_edit_text s = unify_ends s"
  unfolding normalize_edit_text_def replace_char_map replace_all_def
proof (induction s rule: unify_ends.induct)
  case (3 a b s)
  then show ?case by (cases "a = CR \<and> b = LF") auto
qed auto

lemma unify_ends_no_cr: "CR \<notin> set (unify_ends s)"
  by (induction s rule: unify_ends.induct) auto

lemma normalize_no_cr [simp]: "CR \<notin> set (normalize_edit_text s)"
  by (simp add: normalize_eq_unify unify_ends_no_cr)

lemma unify_ends_id: "CR \<notin> set s \<Longrightarrow> unify_ends s = s"
  by (induction s rule: unify_ends.induct) auto

lemma normalize_id: "CR \<notin> set s \<Longrightarrow> normalize_edit_text s = s"
  by (simp add: normalize_eq_unify unify_ends_id)

lemma normalize_idem [simp]: "normalize_edit_text (normalize_edit_text s) = normalize_edit_text s"
  by (simp add: normalize_id)

lemma unify_expand_crlf:
  "CR \<notin> set s \<Longrightarrow> unify_ends (concat (map (\<lambda>d. if d = LF then [CR, LF] else [d]) s)) = s"
proof (induction s)
  case (Cons a s)
  then show ?case
    by (cases "concat (map (\<lambda>d. if d = LF then [CR, LF] else [d]) s)") auto
qed simp

lemma unify_expand_cr:
  "CR \<notin> set s \<Longrightarrow> unify_ends (concat (map (\<lambda>d. if d = LF then [CR] else [d]) s)) = s"
proof (induction s)
  case (Cons a s)
  have "LF \<notin> set (concat (map (\<lambda>d. if d = LF then [CR] else [d]) s))"
    by (induction s) auto
  with Cons show ?case
    by (cases "concat (map (\<lambda>d. if d = LF then [CR] else [d]) s)") auto
qed simp

lemma normalize_restore:
  assumes "CR \<notin> set s" and "le \<in> {[], [LF], [CR, LF], [CR]}"
  shows "normalize_edit_text (restore_line_endings s le) = s"
  using assms
  by (auto simp: restore_line_endings_def normalize_id replace_all_def replace_from_single
      normalize_eq_unify unify_expand_crlf unify_expand_cr unify_ends_id)

lemma detect_line_ending_cases: "detect_line_ending s \<in> {[LF], [CR, LF], [CR]}"
  by (simp add: detect_line_ending_def)

lemma split_lines_normalize: "split_lines (normalize_edit_text s) = split_lines s"
  by (simp add: split_lines_def flip: normalize_edit_text_def)

lemma split_lines_no_lf: "l \<in> set (split_lines s) \<Longrightarrow> LF \<notin> set l"
  by (auto simp: split_lines_def Let_def split: if_splits dest: split_char_no_sep)

text \<open>Normalised text is its lines, each but perhaps the last ended by a line feed.\<close>

lemma split_lines_join:
  assumes "CR \<notin> set t" and "t \<noteq> []"
  shows "t = join_str [LF] (split_lines t) @ (if has_suffix [LF] t then [LF] else [])"
proof -
  have n: "replace_all [CR] [LF] (replace_all [CR, LF] [LF] t) = t"
    using normalize_id [OF assms(1)] by (simp add: normalize_edit_text_def)
  show ?thesis
  proof (cases "has_suffix [LF] t")
    case True
    then obtain u where u: "t = u @ [LF]" by (auto simp: has_suffix_iff)
    with True n show ?thesis by (simp add: split_lines_def trim_suffix_def join_split_char)
  next
    case False
    with n assms(2) show ?thesis by (simp add: split_lines_def join_split_char)
  qed
qed

end
