(* ===== verification/File_Match.thy ===== *)
theory File_Match
  imports File_Text
begin

text \<open>
  Locating body and lines for the edit operations (\<open>internal/fileops/match.go\<close> and
  \<open>scanEditLines\<close> of \<open>edit.go\<close>): the occurrences of a needle, the lines whose
  body starts with an anchor, and the choice among several matches.
\<close>

section \<open>Data\<close>

record source_line =
  sl_start :: nat
  sl_end :: nat
  sl_full_end :: nat
  sl_text :: string

record match_location =
  ml_byte_start :: nat
  ml_byte_end :: nat
  ml_start_line :: nat
  ml_end_line :: nat
  ml_preview :: string
  ml_line_index :: nat

datatype match_error =
    MatchNotFound string
  | IndexAndAllMatches
  | IndexOutOfRange int string nat
  | MatchAmbiguous string nat "string list" nat

section \<open>Lines of the body\<close>

function scan_lines_from :: "nat \<Rightarrow> string \<Rightarrow> source_line list" where
  "scan_lines_from start rest =
     (if rest = [] then []
      else case index_of [LF] rest of
          None \<Rightarrow> [\<lparr>sl_start = start, sl_end = start + length rest,
                    sl_full_end = start + length rest, sl_text = rest\<rparr>]
        | Some rel \<Rightarrow> \<lparr>sl_start = start, sl_end = start + rel, sl_full_end = start + rel + 1,
                        sl_text = take rel rest\<rparr> #
                      scan_lines_from (start + rel + 1) (drop (rel + 1) rest))"
  by pat_completeness auto
termination
  by (relation "measure (\<lambda>(s, r). length r)") auto

declare scan_lines_from.simps [simp del]

lemma scan_lines_none:
  "index_of [LF] rest = None \<Longrightarrow> scan_lines_from start rest =
     (if rest = [] then [] else [\<lparr>sl_start = start, sl_end = start + length rest,
        sl_full_end = start + length rest, sl_text = rest\<rparr>])"
  by (subst scan_lines_from.simps) simp

lemma scan_lines_some:
  "index_of [LF] rest = Some rel \<Longrightarrow> scan_lines_from start rest =
     \<lparr>sl_start = start, sl_end = start + rel, sl_full_end = start + rel + 1,
      sl_text = take rel rest\<rparr> # scan_lines_from (start + rel + 1) (drop (rel + 1) rest)"
  by (subst scan_lines_from.simps) auto

definition scan_edit_lines :: "string \<Rightarrow> source_line list" where
  "scan_edit_lines body = scan_lines_from 0 body"

section \<open>Previews\<close>

definition match_preview_limit :: nat where "match_preview_limit = 5"
definition match_preview_width :: nat where "match_preview_width = 40"

definition byte_offset_to_line :: "string \<Rightarrow> int \<Rightarrow> nat" where
  "byte_offset_to_line body offset =
     (let o1 = (if offset < 0 then 0 else offset);
          o2 = (if o1 > int (length body) then int (length body) else o1)
      in count_char LF (take (nat o2) body) + 1)"

definition truncate_line :: "string \<Rightarrow> string" where
  "truncate_line s = (let t = replace_all [LF] [CHR 0x5C, CHR ''n''] s in
     if length t > match_preview_width then take match_preview_width t @ ''...'' else t)"

fun line_start_before :: "string \<Rightarrow> nat \<Rightarrow> nat" where
  "line_start_before body 0 = 0"
| "line_start_before body (Suc n) = (if body ! n \<noteq> LF then line_start_before body n else Suc n)"

definition match_preview :: "string \<Rightarrow> nat \<Rightarrow> nat \<Rightarrow> string" where
  "match_preview body start e =
     (let ls = line_start_before body start in truncate_line (drop ls (take e body)))"

definition format_line_range :: "match_location \<Rightarrow> string" where
  "format_line_range loc =
     (if ml_start_line loc = ml_end_line loc then ''L'' @ nat_str (ml_start_line loc)
      else ''L'' @ nat_str (ml_start_line loc) @ ''-'' @ nat_str (ml_end_line loc))"

section \<open>Matches\<close>

definition content_location :: "string \<Rightarrow> nat \<Rightarrow> nat \<Rightarrow> match_location" where
  "content_location body start e =
     \<lparr>ml_byte_start = start, ml_byte_end = e,
      ml_start_line = byte_offset_to_line body (int start),
      ml_end_line = byte_offset_to_line body (int e - 1),
      ml_preview = match_preview body start e, ml_line_index = 0\<rparr>"

text \<open>The search loop of \<open>findContentMatches\<close> from a byte offset; the needle is not empty.\<close>

function content_matches_from :: "string \<Rightarrow> string \<Rightarrow> nat \<Rightarrow> match_location list" where
  "content_matches_from body needle offset =
     (if needle = [] then []
      else case index_of needle (drop offset body) of
          None \<Rightarrow> []
        | Some idx \<Rightarrow> content_location body (offset + idx) (offset + idx + length needle) #
            content_matches_from body needle (offset + idx + length needle))"
  by pat_completeness auto
termination
  by (relation "measure (\<lambda>(t, n, i). length t - i)")
    (auto dest!: index_of_Some simp flip: length_greater_0_conv)

declare content_matches_from.simps [simp del]

lemma content_matches_none:
  "needle = [] \<or> index_of needle (drop offset body) = None \<Longrightarrow>
     content_matches_from body needle offset = []"
  by (auto simp: content_matches_from.simps)

lemma content_matches_some:
  "needle \<noteq> [] \<Longrightarrow> index_of needle (drop offset body) = Some idx \<Longrightarrow>
     content_matches_from body needle offset =
       content_location body (offset + idx) (offset + idx + length needle) #
       content_matches_from body needle (offset + idx + length needle)"
  by (subst content_matches_from.simps) simp

definition find_content_matches :: "string \<Rightarrow> string \<Rightarrow> match_location list" where
  "find_content_matches body needle =
     (let n = normalize_edit_text needle in if n = [] then [] else content_matches_from body n 0)"

definition trim_left_blank :: "string \<Rightarrow> string" where
  "trim_left_blank s = dropWhile (\<lambda>c. c = CHR 0x20 \<or> c = CHR 0x09) s"

definition find_line_matches :: "source_line list \<Rightarrow> string \<Rightarrow> match_location list" where
  "find_line_matches lines needle =
     map (\<lambda>(i, l). \<lparr>ml_byte_start = sl_start l, ml_byte_end = sl_end l,
            ml_start_line = i + 1, ml_end_line = i + 1,
            ml_preview = truncate_line (trim_left_blank (sl_text l)), ml_line_index = i\<rparr>)
       (filter (\<lambda>(i, l). has_prefix needle (trim_left_blank (sl_text l)))
         (List.enumerate 0 lines))"

definition select_matches ::
  "match_location list \<Rightarrow> int option \<Rightarrow> bool \<Rightarrow> string \<Rightarrow> match_error + match_location list" where
  "select_matches locations index all_matches label =
     (let n = length locations in
      if n = 0 then Inl (MatchNotFound label)
      else if index \<noteq> None \<and> all_matches then Inl IndexAndAllMatches
      else if all_matches then Inr locations
      else case index of
          Some i \<Rightarrow>
            if i < 1 \<or> i > int n then Inl (IndexOutOfRange i label n)
            else Inr [locations ! nat (i - 1)]
        | None \<Rightarrow>
            if n > 1 then Inl (MatchAmbiguous label n
                (map format_line_range (take match_preview_limit locations))
                (n - match_preview_limit))
            else Inr locations)"

section \<open>Lemmas: lines\<close>

definition line_at :: "string \<Rightarrow> source_line \<Rightarrow> bool" where
  "line_at body l \<longleftrightarrow> sl_start l \<le> sl_end l \<and> sl_end l \<le> sl_full_end l \<and>
     sl_full_end l \<le> length body \<and> sl_start l < sl_full_end l \<and>
     sl_text l = drop (sl_start l) (take (sl_end l) body) \<and> LF \<notin> set (sl_text l) \<and>
     (sl_full_end l = sl_end l \<and> sl_end l = length body \<or>
      sl_full_end l = Suc (sl_end l) \<and> body ! sl_end l = LF)"

lemma index_of_char_None: "index_of [c] s = None \<longleftrightarrow> c \<notin> set s"
  by (induction s) auto

lemma index_of_char_Some:
  "index_of [c] s = Some i \<Longrightarrow> i < length s \<and> s ! i = c \<and> c \<notin> set (take i s)"
  by (induction s arbitrary: i) (auto split: if_splits)

lemma scan_lines_from_at:
  "l \<in> set (scan_lines_from (length pre) rest) \<Longrightarrow> line_at (pre @ rest) l"
proof (induction "length pre" rest arbitrary: pre rule: scan_lines_from.induct)
  case (1 rest)
  show ?case
  proof (cases "index_of [LF] rest")
    case None
    then have "LF \<notin> set rest" by (simp add: index_of_char_None)
    moreover from None "1.prems" have "rest \<noteq> []" and
        "l = \<lparr>sl_start = length pre, sl_end = length pre + length rest,
              sl_full_end = length pre + length rest, sl_text = rest\<rparr>"
      by (simp_all add: scan_lines_from.simps [of "length pre" rest] split: if_splits)
    ultimately show ?thesis by (simp add: line_at_def)
  next
    case (Some rel)
    note rel = index_of_char_Some [OF Some]
    let ?pre = "pre @ take (rel + 1) rest"
    from rel have len: "length ?pre = length pre + rel + 1" and ne: "rest \<noteq> []" by auto
    from "1.prems" Some ne consider
        (head) "l = \<lparr>sl_start = length pre, sl_end = length pre + rel,
                    sl_full_end = length pre + rel + 1, sl_text = take rel rest\<rparr>"
      | (tail) "l \<in> set (scan_lines_from (length pre + rel + 1) (drop (rel + 1) rest))"
      by (auto simp: scan_lines_from.simps [of "length pre" rest])
    then show ?thesis
    proof cases
      case head
      with rel show ?thesis by (auto simp: line_at_def nth_append)
    next
      case tail
      have "line_at (?pre @ drop (rel + 1) rest) l"
        by (rule "1.hyps" [OF ne Some]) (use len tail in auto)
      then show ?thesis by (metis append.assoc append_take_drop_id)
    qed
  qed
qed

lemma scan_edit_lines_at: "l \<in> set (scan_edit_lines body) \<Longrightarrow> line_at body l"
  using scan_lines_from_at [of l "[]" body] by (simp add: scan_edit_lines_def)

text \<open>Consecutive lines are adjacent; the first starts at 0 and the last ends the body.\<close>

lemma scan_lines_from_adjacent:
  "Suc i < length (scan_lines_from start rest) \<Longrightarrow>
     sl_start (scan_lines_from start rest ! Suc i) = sl_full_end (scan_lines_from start rest ! i)
     \<and> sl_full_end (scan_lines_from start rest ! i) = Suc (sl_end (scan_lines_from start rest ! i))"
proof (induction start rest arbitrary: i rule: scan_lines_from.induct)
  case (1 start rest)
  show ?case
  proof (cases "rest = [] \<or> index_of [LF] rest = None")
    case True
    with "1.prems" show ?thesis
      by (auto simp: scan_lines_from.simps [of start rest] split: if_splits)
  next
    case False
    then obtain rel where rel: "index_of [LF] rest = Some rel" and ne: "rest \<noteq> []" by auto
    let ?t = "scan_lines_from (start + rel + 1) (drop (rel + 1) rest)"
    have eq: "scan_lines_from start rest =
        \<lparr>sl_start = start, sl_end = start + rel, sl_full_end = start + rel + 1,
         sl_text = take rel rest\<rparr> # ?t"
      using rel ne by (simp add: scan_lines_from.simps [of start rest])
    have start: "?t \<noteq> [] \<Longrightarrow> sl_start (?t ! 0) = start + rel + 1"
      by (subst scan_lines_from.simps, subst (asm) scan_lines_from.simps)
        (auto split: option.splits if_splits)
    show ?thesis
    proof (cases i)
      case 0
      with "1.prems" start show ?thesis by (auto simp: eq)
    next
      case (Suc k)
      with "1.prems" "1.IH" [OF ne rel, of k] show ?thesis by (auto simp: eq)
    qed
  qed
qed

lemma scan_lines_from_concat:
  "concat (map (\<lambda>l. sl_text l @ (if sl_full_end l > sl_end l then [LF] else []))
     (scan_lines_from start rest)) = rest"
proof (induction start rest rule: scan_lines_from.induct)
  case (1 start rest)
  show ?case
  proof (cases "rest = [] \<or> index_of [LF] rest = None")
    case True
    then show ?thesis by (auto simp: scan_lines_from.simps [of start rest])
  next
    case False
    then obtain rel where rel: "index_of [LF] rest = Some rel" and ne: "rest \<noteq> []" by auto
    note r = index_of_char_Some [OF rel]
    have "take rel rest @ [LF] @ drop (rel + 1) rest = rest"
      using r id_take_nth_drop [of rel rest] by simp
    with "1.IH" [OF ne rel] rel ne show ?thesis
      by (simp add: scan_lines_from.simps [of start rest])
  qed
qed

section \<open>Lemmas: matches\<close>

definition occurs_at :: "string \<Rightarrow> string \<Rightarrow> nat \<Rightarrow> bool" where
  "occurs_at needle body i \<longleftrightarrow> has_prefix needle (drop i body)"

lemma content_location_sel [simp]:
  "ml_byte_start (content_location body a e) = a"
  "ml_byte_end (content_location body a e) = e"
  by (simp_all add: content_location_def)

lemma index_of_drop_span:
  assumes "index_of needle (drop offset body) = Some idx" and "needle \<noteq> []"
  shows "offset + idx + length needle \<le> length body"
    and "drop (offset + idx) (take (offset + idx + length needle) body) = needle"
proof -
  from index_of_Some [OF assms(1)]
  have i: "idx + length needle \<le> length body - offset"
    and t: "take (length needle) (drop (offset + idx) body) = needle"
    by (simp_all add: add.commute)
  from i assms(2) show "offset + idx + length needle \<le> length body"
    by (cases "offset \<le> length body") auto
  from t show "drop (offset + idx) (take (offset + idx + length needle) body) = needle"
    by (simp add: drop_take)
qed

lemma content_matches_span:
  assumes "loc \<in> set (content_matches_from body needle offset)"
  shows "needle \<noteq> [] \<and> offset \<le> ml_byte_start loc \<and>
    ml_byte_end loc = ml_byte_start loc + length needle \<and> ml_byte_end loc \<le> length body \<and>
    drop (ml_byte_start loc) (take (ml_byte_end loc) body) = needle"
  using assms
proof (induction body needle offset rule: content_matches_from.induct)
  case (1 body needle offset)
  show ?case
  proof (cases "needle = [] \<or> index_of needle (drop offset body) = None")
    case True
    with "1.prems" show ?thesis by (simp add: content_matches_none)
  next
    case False
    then obtain idx where idx: "index_of needle (drop offset body) = Some idx"
      and ne: "needle \<noteq> []" by auto
    note span = index_of_drop_span [OF idx ne]
    from "1.prems" consider
        (head) "loc = content_location body (offset + idx) (offset + idx + length needle)"
      | (tail) "loc \<in> set (content_matches_from body needle (offset + idx + length needle))"
      by (auto simp: content_matches_some [OF ne idx])
    then show ?thesis
    proof cases
      case head
      with span ne show ?thesis by simp
    next
      case tail
      have "offset + idx + length needle \<le> ml_byte_start loc \<Longrightarrow> offset \<le> ml_byte_start loc"
        by linarith
      with "1.IH" [OF ne idx tail] show ?thesis by blast
    qed
  qed
qed

lemma content_matches_sorted:
  "sorted_wrt (\<lambda>a b. ml_byte_end a \<le> ml_byte_start b) (content_matches_from body needle offset)"
proof (induction body needle offset rule: content_matches_from.induct)
  case (1 body needle offset)
  show ?case
  proof (cases "needle = [] \<or> index_of needle (drop offset body) = None")
    case True
    then show ?thesis by (simp add: content_matches_none)
  next
    case False
    then obtain idx where idx: "index_of needle (drop offset body) = Some idx"
      and ne: "needle \<noteq> []" by auto
    from "1.IH" [OF ne idx] show ?thesis
      using content_matches_span by (auto simp: content_matches_some [OF ne idx])
  qed
qed

lemma select_matches_subset:
  "select_matches locs index a label = Inr sel \<Longrightarrow> set sel \<subseteq> set locs \<and> sel \<noteq> []"
  by (auto simp: select_matches_def Let_def split: if_splits option.splits)

lemma select_matches_sorted:
  "select_matches locs index a label = Inr sel \<Longrightarrow> sorted_wrt R locs \<Longrightarrow> sorted_wrt R sel"
  by (auto simp: select_matches_def Let_def split: if_splits option.splits)

lemma find_line_matches_mem:
  "loc \<in> set (find_line_matches lines needle) \<Longrightarrow>
     ml_line_index loc < length lines \<and>
     has_prefix needle (trim_left_blank (sl_text (lines ! ml_line_index loc)))"
  by (auto simp: find_line_matches_def in_set_enumerate_eq)

end
