(* ===== verification/File_Edit.thy ===== *)
theory File_Edit
  imports File_Match
begin

text \<open>
  The edit engine (\<open>internal/fileops/edit.go\<close>): a batch of edit operations is resolved
  against the original text into byte ranges with replacement text, the ranges are checked for
  overlap, sorted from the end of the text to its start and spliced in one after the other.
  Slicing out of range, a panic in the source, is the error \<open>SliceOutOfRange\<close>; the
  theorems show that it never happens.
\<close>

section \<open>Data\<close>

record edit =
  ed_operation :: string
  ed_line :: int
  ed_end_line :: int
  ed_new_text :: "string option"
  ed_old_text :: string
  ed_anchor :: string
  ed_index :: "int option"
  ed_all_matches :: bool

record resolved_edit =
  re_start :: nat
  re_end :: nat
  re_text :: string
  re_order :: nat

datatype edit_error =
    EditsRequired
  | OverwriteNotAlone
  | OperationRequired
  | UnsupportedOperation string
  | IndexAndAllExclusive
  | NoLineFields string
  | NoMatchFields string
  | OldTextRequired
  | NewTextRequired
  | UsesOldText string
  | LineMustBePositive
  | OnlyUses string
  | AnchorRequired
  | AnchorNotSingleLine
  | UsesAnchor string
  | NoNewText string
  | BadRange range_error
  | BadMatch match_error
  | EmptyLineBlock
  | InsertOutOfRange int nat
  | EditsOverlap nat nat nat nat
  | InsertInsideEdit nat nat nat
  | SliceOutOfRange

section \<open>Field validation\<close>

definition reject_line_fields :: "edit \<Rightarrow> string \<Rightarrow> edit_error option" where
  "reject_line_fields e operation =
     (if ed_line e \<noteq> 0 \<or> ed_end_line e \<noteq> 0 then Some (NoLineFields operation) else None)"

definition reject_match_fields :: "edit \<Rightarrow> string \<Rightarrow> edit_error option" where
  "reject_match_fields e operation =
     (if ed_index e \<noteq> None \<or> ed_all_matches e then Some (NoMatchFields operation) else None)"

definition anchor_operation :: "string \<Rightarrow> bool" where
  "anchor_operation operation \<longleftrightarrow>
     operation = ''insert_before'' \<or> operation = ''insert_after'' \<or>
     operation = ''replace_line'' \<or> operation = ''delete_line''"

definition validate_edit_fields :: "edit \<Rightarrow> string \<Rightarrow> edit_error option" where
  "validate_edit_fields e operation =
     (if operation = [] then Some OperationRequired
      else if ed_index e \<noteq> None \<and> ed_all_matches e then Some IndexAndAllExclusive
      else if operation = ''replace_text'' then
        (if normalize_edit_text (ed_old_text e) = [] then Some OldTextRequired
         else if ed_new_text e = None then Some NewTextRequired
         else if trim_space (ed_anchor e) \<noteq> [] then Some (UsesOldText operation)
         else reject_line_fields e operation)
      else if operation = ''replace'' then
        (if ed_line e < 1 then Some LineMustBePositive
         else if ed_new_text e = None then Some NewTextRequired
         else if ed_old_text e \<noteq> [] \<or> ed_anchor e \<noteq> [] then Some (OnlyUses operation)
         else reject_match_fields e operation)
      else if operation = ''insert'' then
        (if ed_line e < 1 then Some LineMustBePositive
         else if ed_end_line e \<noteq> 0 \<or> ed_old_text e \<noteq> [] \<or> ed_anchor e \<noteq> []
           then Some (OnlyUses operation)
         else if ed_new_text e = None then Some NewTextRequired
         else reject_match_fields e operation)
      else if operation = ''delete'' then
        (if ed_line e < 1 then Some LineMustBePositive
         else if ed_new_text e \<noteq> None \<or> ed_old_text e \<noteq> [] \<or> ed_anchor e \<noteq> []
           then Some (OnlyUses operation)
         else reject_match_fields e operation)
      else if anchor_operation operation then
        (let anchor = normalize_edit_text (ed_anchor e) in
         if anchor = [] then Some AnchorRequired
         else if contains_str anchor [LF] then Some AnchorNotSingleLine
         else if ed_old_text e \<noteq> [] then Some (UsesAnchor operation)
         else case reject_line_fields e operation of
             Some err \<Rightarrow> Some err
           | None \<Rightarrow>
               if operation = ''delete_line'' then
                 (if ed_new_text e \<noteq> None then Some (NoNewText operation) else None)
               else if ed_new_text e = None then Some NewTextRequired
               else None)
      else if operation = ''overwrite'' then
        (if ed_new_text e = None then Some NewTextRequired
         else if ed_line e \<noteq> 0 \<or> ed_end_line e \<noteq> 0 \<or> ed_old_text e \<noteq> [] \<or>
             ed_anchor e \<noteq> [] \<or> ed_index e \<noteq> None \<or> ed_all_matches e
           then Some (OnlyUses operation)
         else None)
      else Some (UnsupportedOperation (ed_operation e)))"

definition edit_operation :: "edit \<Rightarrow> string" where
  "edit_operation e = to_lower (trim_space (ed_operation e))"

definition edits_require_revision :: "edit list \<Rightarrow> bool" where
  "edits_require_revision edits =
     list_ex (\<lambda>e. edit_operation e \<in> {''replace'', ''insert'', ''delete'', ''overwrite''}) edits"

section \<open>Resolving one edit\<close>

definition normalize_line_block :: "string \<Rightarrow> edit_error + string" where
  "normalize_line_block s =
     (let lines = split_lines (ensure_trailing_newline s)
      in if lines = [] then Inl EmptyLineBlock else Inr (join_str [LF] lines))"

definition resolve_line_insert ::
  "string \<Rightarrow> source_line list \<Rightarrow> int \<Rightarrow> string \<Rightarrow> edit_error + nat \<times> string" where
  "resolve_line_insert body lines line block =
     (let tot = length lines in
      if line < 1 \<or> line > int tot + 1 then Inl (InsertOutOfRange line (tot + 1))
      else if tot = 0 then Inr (0, block)
      else if line \<le> int tot then Inr (sl_start (lines ! nat (line - 1)), block @ [LF])
      else if has_suffix [LF] body then Inr (length body, block @ [LF])
      else Inr (length body, LF # block))"

text \<open>\<open>lineDeleteRange\<close> on a range that \<open>ValidateLineRange\<close> accepts.\<close>

definition line_delete_range :: "source_line list \<Rightarrow> nat \<Rightarrow> nat \<Rightarrow> nat \<times> nat" where
  "line_delete_range lines start_line end_line =
     (let start = sl_start (lines ! (start_line - 1));
          e = sl_full_end (lines ! (end_line - 1));
          lst = lines ! (end_line - 1);
          start' = (if end_line = length lines \<and> sl_full_end lst = sl_end lst \<and> start_line > 1
                    then sl_end (lines ! (start_line - 2)) else start)
      in (start', e))"

definition the_text :: "string option \<Rightarrow> string" where
  "the_text t = (case t of Some s \<Rightarrow> s | None \<Rightarrow> [])"

definition plain_edit :: "nat \<Rightarrow> nat \<Rightarrow> string \<Rightarrow> resolved_edit" where
  "plain_edit a b t = \<lparr>re_start = a, re_end = b, re_text = t, re_order = 0\<rparr>"

definition resolve_line_range ::
  "source_line list \<Rightarrow> edit \<Rightarrow> string \<Rightarrow> edit_error + resolved_edit list" where
  "resolve_line_range lines e t =
     (let end_line = (if ed_end_line e = 0 then ed_line e else ed_end_line e) in
      case validate_line_range (int (length lines)) (ed_line e) end_line of
        Some err \<Rightarrow> Inl (BadRange err)
      | None \<Rightarrow> (let (a, b) = line_delete_range lines (nat (ed_line e)) (nat end_line)
                  in Inr [plain_edit a b t]))"

text \<open>The loop over the matched lines of the four anchor operations.\<close>

definition resolve_anchor_match ::
  "source_line list \<Rightarrow> string \<Rightarrow> string \<Rightarrow> match_location \<Rightarrow> resolved_edit" where
  "resolve_anchor_match lines operation block loc =
     (let line = lines ! ml_line_index loc in
      if operation = ''insert_before'' then plain_edit (sl_start line) (sl_start line) (block @ [LF])
      else if operation = ''insert_after'' then
        (if sl_full_end line > sl_end line
         then plain_edit (sl_full_end line) (sl_full_end line) (block @ [LF])
         else plain_edit (sl_end line) (sl_end line) (LF # block))
      else if operation = ''replace_line'' then plain_edit (sl_start line) (sl_end line) block
      else (let (a, b) = line_delete_range lines (ml_line_index loc + 1) (ml_line_index loc + 1)
            in plain_edit a b []))"

definition resolve_edit ::
  "string \<Rightarrow> source_line list \<Rightarrow> edit \<Rightarrow> string \<Rightarrow> edit_error + resolved_edit list" where
  "resolve_edit body lines e operation =
     (case validate_edit_fields e operation of
        Some err \<Rightarrow> Inl err
      | None \<Rightarrow>
          if operation = ''replace_text'' then
            (let old = normalize_edit_text (ed_old_text e) in
             case select_matches (find_content_matches body old) (ed_index e)
                 (ed_all_matches e) ''old_text'' of
               Inl err \<Rightarrow> Inl (BadMatch err)
             | Inr locs \<Rightarrow> Inr (map (\<lambda>loc. plain_edit (ml_byte_start loc) (ml_byte_end loc)
                   (normalize_edit_text (the_text (ed_new_text e)))) locs))
          else if operation = ''replace'' then
            resolve_line_range lines e (normalize_edit_text (the_text (ed_new_text e)))
          else if operation = ''insert'' then
            (case normalize_line_block (the_text (ed_new_text e)) of
               Inl err \<Rightarrow> Inl err
             | Inr block \<Rightarrow>
                 (case resolve_line_insert body lines (ed_line e) block of
                    Inl err \<Rightarrow> Inl err
                  | Inr (start, inserted) \<Rightarrow> Inr [plain_edit start start inserted]))
          else if operation = ''delete'' then resolve_line_range lines e []
          else if anchor_operation operation then
            (case select_matches (find_line_matches lines (normalize_edit_text (ed_anchor e)))
                 (ed_index e) (ed_all_matches e) ''anchor'' of
               Inl err \<Rightarrow> Inl (BadMatch err)
             | Inr locs \<Rightarrow>
                 (case (if operation \<noteq> ''delete_line''
                        then normalize_line_block (the_text (ed_new_text e)) else Inr []) of
                    Inl err \<Rightarrow> Inl err
                  | Inr block \<Rightarrow> Inr (map (resolve_anchor_match lines operation block) locs)))
          else Inl (UnsupportedOperation (ed_operation e)))"

section \<open>The batch\<close>

definition is_insertion :: "resolved_edit \<Rightarrow> bool" where
  "is_insertion e \<longleftrightarrow> re_start e = re_end e"

definition edit_conflict :: "resolved_edit \<Rightarrow> resolved_edit \<Rightarrow> edit_error option" where
  "edit_conflict a b =
     (if \<not> is_insertion a \<and> \<not> is_insertion b \<and> re_start a < re_end b \<and> re_start b < re_end a
        then Some (EditsOverlap (re_start a) (re_end a) (re_start b) (re_end b))
      else if is_insertion a \<and> \<not> is_insertion b \<and> re_start a > re_start b \<and> re_start a < re_end b
        then Some (InsertInsideEdit (re_start a) (re_start b) (re_end b))
      else if is_insertion b \<and> \<not> is_insertion a \<and> re_start b > re_start a \<and> re_start b < re_end a
        then Some (InsertInsideEdit (re_start b) (re_start a) (re_end a))
      else None)"

fun first_conflict :: "resolved_edit \<Rightarrow> resolved_edit list \<Rightarrow> edit_error option" where
  "first_conflict a [] = None"
| "first_conflict a (b # bs) =
     (case edit_conflict a b of Some err \<Rightarrow> Some err | None \<Rightarrow> first_conflict a bs)"

fun validate_resolved_edits :: "resolved_edit list \<Rightarrow> edit_error option" where
  "validate_resolved_edits [] = None"
| "validate_resolved_edits (a # as) =
     (case first_conflict a as of Some err \<Rightarrow> Some err | None \<Rightarrow> validate_resolved_edits as)"

text \<open>The order of \<open>sort.SliceStable\<close>: later positions first, replacements before insertions.\<close>

definition applied_before :: "resolved_edit \<Rightarrow> resolved_edit \<Rightarrow> bool" where
  "applied_before a b =
     (if re_start a \<noteq> re_start b then re_start a > re_start b
      else if is_insertion a \<noteq> is_insertion b then \<not> is_insertion a
      else re_order a > re_order b)"

definition splice :: "string \<Rightarrow> resolved_edit \<Rightarrow> string option" where
  "splice out e =
     (if re_start e \<le> length out \<and> re_end e \<le> length out
      then Some (take (re_start e) out @ re_text e @ drop (re_end e) out) else None)"

fun splice_all :: "string \<Rightarrow> resolved_edit list \<Rightarrow> string option" where
  "splice_all out [] = Some out"
| "splice_all out (e # es) =
     (case splice out e of None \<Rightarrow> None | Some out' \<Rightarrow> splice_all out' es)"

fun number_from :: "nat \<Rightarrow> resolved_edit list \<Rightarrow> resolved_edit list" where
  "number_from n [] = []"
| "number_from n (e # es) = e\<lparr>re_order := n\<rparr> # number_from (Suc n) es"

text \<open>The resolving loop of \<open>ApplyEdits\<close>; each item gets its position as its order.\<close>

fun resolve_edits ::
  "string \<Rightarrow> source_line list \<Rightarrow> edit list \<Rightarrow> resolved_edit list \<Rightarrow> edit_error + resolved_edit list"
where
  "resolve_edits body lines [] acc = Inr acc"
| "resolve_edits body lines (e # es) acc =
     (let operation = edit_operation e in
      if operation = ''overwrite'' then Inl OverwriteNotAlone
      else case resolve_edit body lines e operation of
          Inl err \<Rightarrow> Inl err
        | Inr items \<Rightarrow> resolve_edits body lines es (acc @ number_from (length acc) items))"

definition splice_batch :: "string \<Rightarrow> resolved_edit list \<Rightarrow> edit_error + string" where
  "splice_batch body resolved =
     (case validate_resolved_edits resolved of
        Some err \<Rightarrow> Inl err
      | None \<Rightarrow>
          (case splice_all body (stable_sort applied_before resolved) of
             None \<Rightarrow> Inl SliceOutOfRange
           | Some out \<Rightarrow> Inr out))"

definition apply_edits :: "string \<Rightarrow> edit list \<Rightarrow> edit_error + string" where
  "apply_edits raw edits =
     (case edits of
        [] \<Rightarrow> Inl EditsRequired
      | e # es \<Rightarrow>
          (let body = normalize_edit_text raw in
           if equal_fold_ascii (trim_space (ed_operation e)) ''overwrite'' then
             (if es \<noteq> [] then Inl OverwriteNotAlone
              else case validate_edit_fields e ''overwrite'' of
                  Some err \<Rightarrow> Inl err
                | None \<Rightarrow> Inr (normalize_edit_text (the_text (ed_new_text e))))
           else case resolve_edits body (scan_edit_lines body) edits [] of
               Inl err \<Rightarrow> Inl err
             | Inr resolved \<Rightarrow> splice_batch body resolved))"

end
