(* ===== verification/File_Edit_Laws.thy ===== *)
theory File_Edit_Laws
  imports File_Edit
begin

text \<open>
  What the edit engine promises. The reference is \<open>weave\<close>: the original text read once
  from left to right with each replaced range exchanged for its text. The interface
  \<open>edit_resolver\<close> states what the splicing phase needs of the resolving phase (ranges
  inside the text, distinct orders); inside it the splicing loop is shown to equal
  \<open>weave\<close>, and \<open>resolve_edits\<close> is shown to be such a resolver.
\<close>

section \<open>Reference: one pass over the original text\<close>

fun weave :: "nat \<Rightarrow> string \<Rightarrow> resolved_edit list \<Rightarrow> string" where
  "weave pos body [] = drop pos body"
| "weave pos body (e # es) =
     drop pos (take (re_start e) body) @ re_text e @ weave (re_end e) body es"

lemma weave_snoc:
  assumes "\<forall>x \<in> set xs. re_start x \<le> re_start e"
  shows "weave pos body (xs @ [e]) =
    weave pos (take (re_start e) body) xs @ re_text e @ drop (re_end e) body"
  using assms by (induction xs arbitrary: pos) (auto simp: min_def)

section \<open>Sorting and compatibility\<close>

definition compatible :: "resolved_edit \<Rightarrow> resolved_edit \<Rightarrow> bool" where
  "compatible a b \<longleftrightarrow> edit_conflict a b = None"

lemma compatible_sym: "compatible a b = compatible b a"
  by (auto simp: compatible_def edit_conflict_def)

lemma first_conflict_None: "first_conflict a bs = None \<longleftrightarrow> (\<forall>b \<in> set bs. compatible a b)"
  by (induction bs) (auto simp: compatible_def split: option.splits)

lemma validate_None: "validate_resolved_edits es = None \<longleftrightarrow> sorted_wrt compatible es"
proof (induction es)
  case (Cons a es)
  then show ?case by (cases "first_conflict a es") (auto simp flip: first_conflict_None)
qed simp

lemma sorted_wrt_insert_by:
  assumes "\<And>a b. R a b = R b a"
  shows "sorted_wrt R (insert_by lt x ys) \<longleftrightarrow> (\<forall>y \<in> set ys. R x y) \<and> sorted_wrt R ys"
proof (induction ys)
  case (Cons y ys)
  have "set (insert_by lt x ys) = insert x (set ys)"
    by (metis mset_insert_by set_mset_add_mset_insert set_mset_mset)
  with Cons assms [of x y] show ?case by auto
qed simp

lemma sorted_wrt_stable_sort:
  assumes "\<And>a b. R a b = R b a"
  shows "sorted_wrt R (stable_sort lt xs) \<longleftrightarrow> sorted_wrt R xs"
  by (induction xs) (auto simp: sorted_wrt_insert_by [of R, OF assms])

lemma sorted_applied_before:
  "sorted_wrt (\<lambda>a b. \<not> applied_before b a) (stable_sort applied_before es)"
  by (rule sorted_stable_sort) (auto simp: applied_before_def split: if_splits)

definition in_text :: "string \<Rightarrow> resolved_edit \<Rightarrow> bool" where
  "in_text body e \<longleftrightarrow> re_start e \<le> re_end e \<and> re_end e \<le> length body"

lemma not_before_compatible:
  assumes "\<not> applied_before b a" and "compatible a b" and "in_text body a" and "in_text body b"
  shows "re_end b \<le> re_start a"
  using assms
  by (auto simp: applied_before_def compatible_def edit_conflict_def in_text_def is_insertion_def
      split: if_splits)

lemma sorted_stacked:
  assumes "validate_resolved_edits es = None" and "\<forall>e \<in> set es. in_text body e"
  shows "sorted_wrt (\<lambda>a b. re_end b \<le> re_start a) (stable_sort applied_before es)"
proof -
  let ?s = "stable_sort applied_before es"
  have "sorted_wrt compatible ?s"
    using assms(1) sorted_wrt_stable_sort [of compatible, OF compatible_sym]
    by (simp add: validate_None)
  moreover have "sorted_wrt (\<lambda>a b. \<not> applied_before b a) ?s"
    by (rule sorted_applied_before)
  ultimately have "sorted_wrt (\<lambda>a b. \<not> applied_before b a \<and> compatible a b) ?s"
    by (simp add: sorted_wrt_iff_nth_less)
  then show ?thesis
    by (rule sorted_wrt_mono_rel [rotated]) (use assms(2) in \<open>auto intro: not_before_compatible\<close>)
qed

section \<open>The splicing loop\<close>

lemma splice_all_weave:
  assumes "sorted_wrt (\<lambda>a b. re_end b \<le> re_start a) es"
    and "\<forall>e \<in> set es. re_start e \<le> re_end e \<and> re_end e \<le> n"
    and "n \<le> length body"
  shows "splice_all (take n body @ rest) es = Some (weave 0 (take n body) (rev es) @ rest)"
  using assms
proof (induction es arbitrary: n rest)
  case (Cons e es)
  have le: "re_start e \<le> n" "re_end e \<le> n" using Cons.prems by auto
  let ?rest = "re_text e @ drop (re_end e) (take n body) @ rest"
  have "splice (take n body @ rest) e = Some (take (re_start e) body @ ?rest)"
    using le Cons.prems(3) by (simp add: splice_def min_def)
  moreover have "splice_all (take (re_start e) body @ ?rest) es =
      Some (weave 0 (take (re_start e) body) (rev es) @ ?rest)"
    using Cons.prems le by (intro Cons.IH) auto
  moreover have "weave 0 (take n body) (rev es @ [e]) =
      weave 0 (take (re_start e) body) (rev es) @ re_text e @ drop (re_end e) (take n body)"
    using Cons.prems le by (subst weave_snoc) (fastforce simp: min_def)+
  ultimately show ?case by simp
qed simp

definition ascending :: "resolved_edit list \<Rightarrow> resolved_edit list" where
  "ascending plan = rev (stable_sort applied_before plan)"

section \<open>Interface: what the splicing phase needs of the resolving phase\<close>

locale edit_resolver =
  fixes resolve :: "string \<Rightarrow> edit list \<Rightarrow> edit_error + resolved_edit list"
  assumes resolve_in_text: "resolve body es = Inr plan \<Longrightarrow> e \<in> set plan \<Longrightarrow> in_text body e"
    and resolve_orders: "resolve body es = Inr plan \<Longrightarrow> distinct (map re_order plan)"
    and resolve_no_panic: "resolve body es \<noteq> Inl SliceOutOfRange"
begin

lemma batch_weave:
  assumes "resolve body es = Inr plan" and "validate_resolved_edits plan = None"
  shows "splice_batch body plan = Inr (weave 0 body (ascending plan))"
proof -
  have "\<forall>e \<in> set plan. in_text body e" using assms(1) resolve_in_text by blast
  then have "splice_all (take (length body) body @ []) (stable_sort applied_before plan) =
      Some (weave 0 (take (length body) body) (rev (stable_sort applied_before plan)) @ [])"
    using sorted_stacked [OF assms(2)] by (intro splice_all_weave) (auto simp: in_text_def)
  with assms(2) show ?thesis by (simp add: splice_batch_def ascending_def)
qed

lemma batch_no_panic:
  assumes "resolve body es = Inr plan"
  shows "splice_batch body plan \<noteq> Inl SliceOutOfRange"
proof (cases "validate_resolved_edits plan")
  case None
  with batch_weave [OF assms] show ?thesis by simp
next
  case (Some err)
  have "first_conflict a bs \<noteq> Some SliceOutOfRange" for a bs
    by (induction bs) (auto simp: edit_conflict_def split: option.splits if_splits)
  then have "validate_resolved_edits es \<noteq> Some SliceOutOfRange" for es
    by (induction es) (auto split: option.splits)
  with Some show ?thesis by (auto simp: splice_batch_def)
qed

lemma batch_ascending:
  assumes "resolve body es = Inr plan" and "validate_resolved_edits plan = None"
  shows "sorted_wrt (\<lambda>a b. re_end a \<le> re_start b) (ascending plan)"
  using sorted_stacked [OF assms(2)] resolve_in_text [OF assms(1)]
  by (auto simp: ascending_def sorted_wrt_rev)

end

section \<open>The line resolver meets the interface\<close>

lemma scan_edit_lines_adjacent:
  "Suc i < length (scan_edit_lines body) \<Longrightarrow>
     sl_start (scan_edit_lines body ! Suc i) = sl_full_end (scan_edit_lines body ! i) \<and>
     sl_full_end (scan_edit_lines body ! i) = Suc (sl_end (scan_edit_lines body ! i))"
  unfolding scan_edit_lines_def by (rule scan_lines_from_adjacent)

lemma scan_line_nth: "i < length (scan_edit_lines body) \<Longrightarrow> line_at body (scan_edit_lines body ! i)"
  by (simp add: scan_edit_lines_at)

lemma scan_line_bounds:
  assumes "i < length (scan_edit_lines body)"
  shows "sl_start (scan_edit_lines body ! i) \<le> length body"
    and "sl_end (scan_edit_lines body ! i) \<le> length body"
    and "sl_full_end (scan_edit_lines body ! i) \<le> length body"
  using scan_line_nth [OF assms] by (auto simp: line_at_def)

lemma scan_line_order:
  assumes "i \<le> j" and "j < length (scan_edit_lines body)"
  shows "sl_start (scan_edit_lines body ! i) < sl_full_end (scan_edit_lines body ! j)"
  using assms
proof (induction j)
  case 0
  then show ?case using scan_line_nth [of 0 body] by (simp add: line_at_def)
next
  case (Suc j)
  show ?case
  proof (cases "i = Suc j")
    case True
    with Suc.prems show ?thesis using scan_line_nth [of "Suc j" body] by (simp add: line_at_def)
  next
    case False
    with Suc have "sl_start (scan_edit_lines body ! i) < sl_full_end (scan_edit_lines body ! j)"
      by simp
    also have "\<dots> = sl_start (scan_edit_lines body ! Suc j)"
      using scan_edit_lines_adjacent [OF Suc.prems(2)] by simp
    also have "\<dots> \<le> sl_full_end (scan_edit_lines body ! Suc j)"
      using scan_line_nth [OF Suc.prems(2)] by (simp add: line_at_def)
    finally show ?thesis .
  qed
qed

lemma line_delete_range_in_text:
  assumes "line_delete_range (scan_edit_lines body) s e = (a, b)"
    and "1 \<le> s" and "s \<le> e" and "e \<le> length (scan_edit_lines body)"
  shows "a < b \<and> b \<le> length body"
proof -
  let ?ls = "scan_edit_lines body"
  have b: "b = sl_full_end (?ls ! (e - 1))"
    using assms(1) by (simp add: line_delete_range_def Let_def)
  have a: "a \<le> sl_start (?ls ! (s - 1))"
  proof (cases "s > 1")
    case True
    then have "Suc (s - 2) < length ?ls" "Suc (s - 2) = s - 1" using assms by auto
    with scan_edit_lines_adjacent [of "s - 2" body]
    have "sl_end (?ls ! (s - 2)) \<le> sl_start (?ls ! (s - 1))" by simp
    with assms(1) show ?thesis by (auto simp: line_delete_range_def Let_def split: if_splits)
  next
    case False
    with assms(1) show ?thesis by (auto simp: line_delete_range_def Let_def split: if_splits)
  qed
  have "sl_start (?ls ! (s - 1)) < sl_full_end (?ls ! (e - 1))"
    using assms by (intro scan_line_order) auto
  moreover have "sl_full_end (?ls ! (e - 1)) \<le> length body"
    using assms scan_line_nth [of "e - 1" body] by (simp add: line_at_def)
  ultimately show ?thesis using a b by simp
qed

lemma plain_edit_sel [simp]:
  "re_start (plain_edit a b t) = a" "re_end (plain_edit a b t) = b"
  "re_text (plain_edit a b t) = t"
  by (simp_all add: plain_edit_def)

lemma resolve_line_range_in_text:
  assumes "resolve_line_range (scan_edit_lines body) e t = Inr items" and "x \<in> set items"
  shows "in_text body x"
proof -
  let ?ls = "scan_edit_lines body"
  let ?stop = "if ed_end_line e = 0 then ed_line e else ed_end_line e"
  obtain a b where ab: "line_delete_range ?ls (nat (ed_line e)) (nat ?stop) = (a, b)"
    by (cases "line_delete_range ?ls (nat (ed_line e)) (nat ?stop)") auto
  from assms(1) have v: "validate_line_range (int (length ?ls)) (ed_line e) ?stop = None"
    by (auto simp: resolve_line_range_def Let_def split: option.splits)
  with assms ab have x: "x = plain_edit a b t"
    by (auto simp: resolve_line_range_def Let_def)
  from v have "1 \<le> nat (ed_line e)" "nat (ed_line e) \<le> nat ?stop" "nat ?stop \<le> length ?ls"
    by (auto simp: validate_line_range_def split: if_splits)
  with line_delete_range_in_text [OF ab] x show ?thesis by (simp add: in_text_def)
qed

lemma resolve_anchor_match_in_text:
  assumes "ml_line_index loc < length (scan_edit_lines body)"
  shows "in_text body (resolve_anchor_match (scan_edit_lines body) operation block loc)"
proof -
  let ?k = "ml_line_index loc"
  obtain a b where ab: "line_delete_range (scan_edit_lines body) (?k + 1) (?k + 1) = (a, b)"
    by (cases "line_delete_range (scan_edit_lines body) (?k + 1) (?k + 1)") auto
  from assms line_delete_range_in_text [OF ab] have "a < b \<and> b \<le> length body" by simp
  with ab scan_line_nth [OF assms] show ?thesis
    by (auto simp: resolve_anchor_match_def in_text_def line_at_def Let_def)
qed

text \<open>The branches of \<open>resolveEdit\<close>, in the order of its switch.\<close>

lemma resolve_edit_cases:
  obtains (invalid) err where "validate_edit_fields e operation = Some err"
      "resolve_edit body lines e operation = Inl err"
    | (content) "resolve_edit body lines e operation =
        (case select_matches (find_content_matches body (normalize_edit_text (ed_old_text e)))
            (ed_index e) (ed_all_matches e) ''old_text'' of
           Inl err \<Rightarrow> Inl (BadMatch err)
         | Inr locs \<Rightarrow> Inr (map (\<lambda>loc. plain_edit (ml_byte_start loc) (ml_byte_end loc)
               (normalize_edit_text (the_text (ed_new_text e)))) locs))"
    | (range) t where "resolve_edit body lines e operation = resolve_line_range lines e t"
    | (insertion) "resolve_edit body lines e operation =
        (case normalize_line_block (the_text (ed_new_text e)) of
           Inl err \<Rightarrow> Inl err
         | Inr block \<Rightarrow>
             (case resolve_line_insert body lines (ed_line e) block of
                Inl err \<Rightarrow> Inl err
              | Inr (start, inserted) \<Rightarrow> Inr [plain_edit start start inserted]))"
    | (anchor) "resolve_edit body lines e operation =
        (case select_matches (find_line_matches lines (normalize_edit_text (ed_anchor e)))
            (ed_index e) (ed_all_matches e) ''anchor'' of
           Inl err \<Rightarrow> Inl (BadMatch err)
         | Inr locs \<Rightarrow>
             (case (if operation \<noteq> ''delete_line''
                    then normalize_line_block (the_text (ed_new_text e)) else Inr []) of
                Inl err \<Rightarrow> Inl err
              | Inr block \<Rightarrow> Inr (map (resolve_anchor_match lines operation block) locs)))"
    | (unknown) "resolve_edit body lines e operation = Inl (UnsupportedOperation (ed_operation e))"
proof (cases "validate_edit_fields e operation")
  case (Some err)
  then show ?thesis by (intro invalid) (simp_all add: resolve_edit_def)
next
  case None
  note d = resolve_edit_def [of body lines e operation, unfolded None Let_def option.case]
  consider "operation = ''replace_text''" | "operation = ''replace''" | "operation = ''insert''"
    | "operation = ''delete''" | "anchor_operation operation \<and> operation \<notin>
        {''replace_text'', ''replace'', ''insert'', ''delete''}"
    | "\<not> anchor_operation operation \<and> operation \<notin>
        {''replace_text'', ''replace'', ''insert'', ''delete''}"
    by blast
  then show ?thesis
  proof cases
    case 1 then show ?thesis by (intro content, subst d) simp
  next
    case 2 then show ?thesis by (intro range, subst d) simp
  next
    case 3 then show ?thesis by (intro insertion, subst d) simp
  next
    case 4 then show ?thesis by (intro range, subst d) simp
  next
    case 5 then show ?thesis by (intro anchor, subst d) simp
  next
    case 6 then show ?thesis by (intro unknown, subst d) simp
  qed
qed

lemma content_match_in_text:
  "loc \<in> set (find_content_matches body n) \<Longrightarrow>
     in_text body (plain_edit (ml_byte_start loc) (ml_byte_end loc) t)"
  using content_matches_span
  by (fastforce simp: find_content_matches_def in_text_def Let_def split: if_splits)

lemma line_insert_in_text:
  assumes "resolve_line_insert body (scan_edit_lines body) line block = Inr (start, t')"
  shows "in_text body (plain_edit start start t)"
  using assms scan_line_bounds(1) [of "nat (line - 1)" body]
  by (auto simp: in_text_def resolve_line_insert_def Let_def split: if_splits)

lemma anchor_match_in_text:
  assumes "loc \<in> set (find_line_matches (scan_edit_lines body) n)"
  shows "in_text body (resolve_anchor_match (scan_edit_lines body) operation block loc)"
  by (rule resolve_anchor_match_in_text) (use find_line_matches_mem [OF assms] in simp)

lemma resolve_edit_in_text:
  assumes "resolve_edit body (scan_edit_lines body) e operation = Inr items" and "x \<in> set items"
  shows "in_text body x"
proof (cases rule: resolve_edit_cases [of e operation body "scan_edit_lines body"])
  case content
  with assms show ?thesis
    by (fastforce split: sum.splits dest!: select_matches_subset intro: content_match_in_text)
next
  case (range t)
  with assms show ?thesis by (auto intro: resolve_line_range_in_text)
next
  case insertion
  with assms show ?thesis by (auto split: sum.splits prod.splits intro: line_insert_in_text)
next
  case anchor
  with assms show ?thesis
    by (fastforce split: sum.splits if_splits dest!: select_matches_subset intro: anchor_match_in_text)
qed (use assms in simp_all)

lemma number_from_map:
  "map re_order (number_from n es) = [n..<n + length es]"
  "x \<in> set (number_from n es) \<Longrightarrow> \<exists>y \<in> set es. \<exists>k. x = y\<lparr>re_order := k\<rparr>"
  "length (number_from n es) = length es"
proof -
  show len: "length (number_from n es) = length es"
    by (induction es arbitrary: n) auto
  show "map re_order (number_from n es) = [n..<n + length es]"
    by (induction es arbitrary: n) (auto simp: upt_conv_Cons simp del: upt_Suc)
  show "x \<in> set (number_from n es) \<Longrightarrow> \<exists>y \<in> set es. \<exists>k. x = y\<lparr>re_order := k\<rparr>"
    by (induction es arbitrary: n) auto
qed

lemma in_text_order [simp]: "in_text body (y\<lparr>re_order := k\<rparr>) = in_text body y"
  by (simp add: in_text_def)

lemma resolve_edits_in_text:
  assumes "resolve_edits body (scan_edit_lines body) es acc = Inr plan"
    and "\<forall>x \<in> set acc. in_text body x" and "map re_order acc = [0..<length acc]"
  shows "(\<forall>x \<in> set plan. in_text body x) \<and> map re_order plan = [0..<length plan]"
  using assms
proof (induction es arbitrary: acc)
  case (Cons e es)
  from Cons.prems(1) obtain items where
      items: "resolve_edit body (scan_edit_lines body) e (edit_operation e) = Inr items" and
      rest: "resolve_edits body (scan_edit_lines body) es
        (acc @ number_from (length acc) items) = Inr plan"
    by (auto simp: Let_def split: if_splits sum.splits)
  have "\<forall>x \<in> set (acc @ number_from (length acc) items). in_text body x"
    using Cons.prems(2) resolve_edit_in_text [OF items] number_from_map(2) by fastforce
  moreover have "map re_order (acc @ number_from (length acc) items) =
      [0..<length (acc @ number_from (length acc) items)]"
    using Cons.prems(3) by (simp add: number_from_map upt_add_eq_append [of 0, simplified])
  ultimately show ?case by (rule Cons.IH [OF rest])
qed simp

text \<open>No resolving or validation step of one edit slices the text.\<close>

lemma validate_fields_no_panic: "validate_edit_fields e operation \<noteq> Some SliceOutOfRange"
  unfolding validate_edit_fields_def Let_def
  by (intro if_neqI)
    (simp_all add: reject_line_fields_def reject_match_fields_def split: option.split)

lemma resolve_line_range_no_panic: "resolve_line_range lines e t \<noteq> Inl SliceOutOfRange"
  by (auto simp: resolve_line_range_def Let_def split: option.splits prod.splits)

lemma line_block_no_panic: "normalize_line_block t \<noteq> Inl SliceOutOfRange"
  by (simp add: normalize_line_block_def Let_def)

lemma line_insert_no_panic: "resolve_line_insert body lines line block \<noteq> Inl SliceOutOfRange"
  by (simp add: resolve_line_insert_def Let_def)

lemma resolve_edit_no_panic: "resolve_edit body lines e operation \<noteq> Inl SliceOutOfRange"
proof (cases rule: resolve_edit_cases [of e operation body lines])
  case (invalid err)
  then show ?thesis using validate_fields_no_panic [of e operation] by auto
next
  case (range t)
  then show ?thesis by (simp add: resolve_line_range_no_panic)
next
  case insertion
  then show ?thesis
    using line_block_no_panic [of "the_text (ed_new_text e)"]
      line_insert_no_panic [of body lines "ed_line e"]
    by (auto split: sum.splits prod.splits)
next
  case anchor
  then show ?thesis
    using line_block_no_panic [of "the_text (ed_new_text e)"] by (auto split: sum.splits if_splits)
qed (auto split: sum.splits)

lemma resolve_edits_no_panic: "resolve_edits body lines es acc \<noteq> Inl SliceOutOfRange"
proof (induction es arbitrary: acc)
  case (Cons e es)
  then show ?case
    using resolve_edit_no_panic [of body lines e "edit_operation e"]
    by (cases "resolve_edit body lines e (edit_operation e)") (auto simp: Let_def)
qed simp

interpretation line_resolver: edit_resolver
  "\<lambda>body es. resolve_edits body (scan_edit_lines body) es []"
proof unfold_locales
  fix body es plan
  assume plan: "resolve_edits body (scan_edit_lines body) es [] = Inr plan"
  note r = resolve_edits_in_text [OF plan]
  show "in_text body e" if "e \<in> set plan" for e using r that by simp
  show "distinct (map re_order plan)" using r by simp
qed (rule resolve_edits_no_panic)

end
