(* ===== verification/File_Edit_Props.thy ===== *)
theory File_Edit_Props
  imports File_Edit_Laws
begin

text \<open>
  The properties of the edit engine: no panic, the splicing loop as one pass, and what the
  single operations \<open>replace_text\<close>, \<open>insert\<close> and \<open>delete\<close> do to the text
  and to its lines. The first sections relate the byte offsets of \<open>scanEditLines\<close> to the
  lines of \<open>SplitLines\<close>.
\<close>

section \<open>Lines of a split text\<close>

lemma split_lines_eq:
  assumes "CR \<notin> set t"
  shows "split_lines t =
    (if t = [] then [] else split_char LF (if last t = LF then butlast t else t))"
proof -
  have n: "replace_all [CR] [LF] (replace_all [CR, LF] [LF] t) = t"
    using normalize_id [OF assms] by (simp add: normalize_edit_text_def)
  show ?thesis
    by (auto simp: split_lines_def Let_def n has_suffix_single trim_suffix_def butlast_conv_take)
qed

lemma split_lines_Nil [simp]: "split_lines [] = []"
  by (simp add: split_lines_eq)

lemma split_lines_append:
  assumes "CR \<notin> set (a @ b)" and "a = [] \<or> last a = LF"
  shows "split_lines (a @ b) = split_lines a @ split_lines b"
proof (cases "a = [] \<or> b = []")
  case True
  then show ?thesis by auto
next
  case False
  then obtain a' where a: "a = a' @ [LF]" using assms(2) by (metis append_butlast_last_id)
  from False assms(1) show ?thesis
    by (auto simp: a split_lines_eq split_char_append_sep butlast_append)
qed

lemma split_lines_no_cr: "l \<in> set (split_lines s) \<Longrightarrow> CR \<notin> set l"
proof -
  have split: "\<forall>w \<in> set (split_char c t). set w \<subseteq> set t" for c t
    by (induction t) (auto split: list.splits)
  assume "l \<in> set (split_lines s)"
  then have l: "l \<in> set (split_lines (normalize_edit_text s))"
    by (simp add: split_lines_normalize)
  then have "l \<in> set (split_char LF (if last (normalize_edit_text s) = LF
      then butlast (normalize_edit_text s) else normalize_edit_text s))"
    by (simp add: split_lines_eq split: if_splits)
  with split have "set l \<subseteq> set (normalize_edit_text s)"
    by (fastforce dest: in_set_butlastD split: if_splits)
  then show ?thesis using normalize_no_cr by blast
qed

lemma scan_lines_from_texts:
  "CR \<notin> set rest \<Longrightarrow> map sl_text (scan_lines_from start rest) = split_lines rest"
proof (induction start rest rule: scan_lines_from.induct)
  case (1 start rest)
  show ?case
  proof (cases "index_of [LF] rest")
    case None
    then have "LF \<notin> set rest" by (simp add: index_of_char_None)
    then have "split_lines rest = (if rest = [] then [] else [rest])"
      using "1.prems" by (cases rest rule: rev_cases) (auto simp: split_lines_eq split_char_no_occ)
    with None show ?thesis by (simp add: scan_lines_none)
  next
    case rel: (Some rel)
    then have ne: "rest \<noteq> []" by auto
    note r = index_of_char_Some [OF rel]
    have rest: "rest = (take rel rest @ [LF]) @ drop (rel + 1) rest"
      using r id_take_nth_drop [of rel rest] by simp
    have cr: "CR \<notin> set (drop (rel + 1) rest)" "CR \<notin> set (take rel rest)"
      using "1.prems" set_drop_subset [of "rel + 1" rest] set_take_subset [of rel rest] by auto
    have "split_lines rest = split_lines (take rel rest @ [LF]) @ split_lines (drop (rel + 1) rest)"
      using cr by (subst rest, subst split_lines_append) auto
    also have "split_lines (take rel rest @ [LF]) = [take rel rest]"
      using cr r by (simp add: split_lines_eq split_char_no_occ)
    finally show ?thesis
      using "1.IH" [OF ne rel cr(1)] rel by (simp add: scan_lines_some)
  qed
qed

lemma scan_edit_lines_texts: "CR \<notin> set body \<Longrightarrow> map sl_text (scan_edit_lines body) = split_lines body"
  by (simp add: scan_edit_lines_def scan_lines_from_texts)

lemma length_scan_edit_lines: "CR \<notin> set body \<Longrightarrow> length (scan_edit_lines body) = length (split_lines body)"
  by (metis length_map scan_edit_lines_texts)

text \<open>The text before the start of line \<open>k\<close> holds the lines before \<open>k\<close>.\<close>

lemma scan_line_0: "scan_edit_lines body \<noteq> [] \<Longrightarrow> sl_start (scan_edit_lines body ! 0) = 0"
  unfolding scan_edit_lines_def
  by (subst scan_lines_from.simps, subst (asm) scan_lines_from.simps)
    (auto split: option.splits if_splits)

lemma take_line_start:
  assumes "k < length (scan_edit_lines body)"
  shows "take (sl_start (scan_edit_lines body ! k)) body = [] \<and> k = 0 \<or>
    take (sl_start (scan_edit_lines body ! k)) body \<noteq> [] \<and>
    last (take (sl_start (scan_edit_lines body ! k)) body) = LF"
proof (cases k)
  case 0
  with assms scan_line_0 [of body] show ?thesis by auto
next
  case (Suc j)
  have adj: "sl_start (scan_edit_lines body ! k) = Suc (sl_end (scan_edit_lines body ! j))"
    using scan_edit_lines_adjacent [of j body] assms Suc by simp
  have "line_at body (scan_edit_lines body ! j)" using assms Suc by (simp add: scan_line_nth)
  with adj have "sl_end (scan_edit_lines body ! j) < length body \<and>
      body ! sl_end (scan_edit_lines body ! j) = LF"
    using assms scan_edit_lines_adjacent [of j body] Suc by (auto simp: line_at_def)
  with adj show ?thesis by (auto simp: take_Suc_conv_app_nth)
qed

lemma drop_scan_lines_from:
  "k < length (scan_lines_from start rest) \<Longrightarrow>
     \<exists>p. sl_start (scan_lines_from start rest ! k) = start + p \<and>
       drop k (scan_lines_from start rest) = scan_lines_from (start + p) (drop p rest)"
proof (induction start rest arbitrary: k rule: scan_lines_from.induct)
  case (1 start rest)
  have zero: "scan_lines_from start rest \<noteq> [] \<Longrightarrow> sl_start (scan_lines_from start rest ! 0) = start"
    by (subst scan_lines_from.simps, subst (asm) scan_lines_from.simps)
      (auto split: option.splits if_splits)
  show ?case
  proof (cases k)
    case 0
    with zero "1.prems" show ?thesis by (intro exI [of _ 0]) auto
  next
    case (Suc j)
    with "1.prems" obtain rel where rel: "index_of [LF] rest = Some rel" and ne: "rest \<noteq> []"
      by (cases "index_of [LF] rest"; cases "rest = []")
        (auto simp: scan_lines_none split: if_splits)
    with "1.prems" Suc "1.IH" [OF ne rel, of j] obtain p where
        "sl_start (scan_lines_from (start + rel + 1) (drop (rel + 1) rest) ! j) = start + rel + 1 + p"
        "drop j (scan_lines_from (start + rel + 1) (drop (rel + 1) rest)) =
          scan_lines_from (start + rel + 1 + p) (drop p (drop (rel + 1) rest))"
      by (auto simp: scan_lines_some)
    with Suc rel show ?thesis
      by (intro exI [of _ "rel + 1 + p"]) (simp add: scan_lines_some ac_simps)
  qed
qed

lemma split_lines_at:
  assumes "CR \<notin> set body" and "k < length (scan_edit_lines body)"
  defines "p \<equiv> sl_start (scan_edit_lines body ! k)"
  shows "split_lines (take p body) = take k (split_lines body)"
    and "split_lines (drop p body) = drop k (split_lines body)"
proof -
  from drop_scan_lines_from [of k 0 body] assms(2)
  have "drop k (scan_edit_lines body) = scan_lines_from p (drop p body)"
    by (auto simp: scan_edit_lines_def p_def)
  then have "drop k (map sl_text (scan_edit_lines body)) = map sl_text (scan_lines_from p (drop p body))"
    by (simp add: drop_map)
  moreover have "CR \<notin> set (drop p body)" using assms(1) by (meson in_set_dropD)
  ultimately show d: "split_lines (drop p body) = drop k (split_lines body)"
    using assms(1) by (simp add: scan_edit_lines_texts scan_lines_from_texts)
  have "split_lines (take p body @ drop p body) = split_lines (take p body) @ split_lines (drop p body)"
    using assms(1) take_line_start [OF assms(2)] by (intro split_lines_append) (auto simp: p_def)
  then have "take k (split_lines body) @ drop k (split_lines body) =
      split_lines (take p body) @ drop k (split_lines body)"
    by (simp add: d)
  then show "split_lines (take p body) = take k (split_lines body)"
    by (simp only: append_same_eq)
qed

section \<open>Batches of one edit\<close>

lemma to_lower_map:
  "\<forall>c \<in> set s. c \<noteq> CHR 0xC4 \<and> c \<noteq> CHR 0xE2 \<Longrightarrow> to_lower s = map lower_ascii s"
  by (induction s rule: to_lower.induct) auto

lemma equal_fold_overwrite:
  "equal_fold_ascii s ''overwrite'' \<Longrightarrow> to_lower s = ''overwrite''"
proof -
  assume "equal_fold_ascii s ''overwrite''"
  then have m: "map lower_ascii s = ''overwrite''"
    by (simp add: equal_fold_ascii_def lower_ascii_def)
  have "lower_ascii (CHR 0xC4) = CHR 0xC4" "lower_ascii (CHR 0xE2) = CHR 0xE2"
    by (simp_all add: lower_ascii_def)
  then have "c \<noteq> CHR 0xC4 \<and> c \<noteq> CHR 0xE2" if "c \<in> set s" for c
  proof -
    have "lower_ascii c \<in> set ''overwrite''" using that m by (metis image_eqI list.set_map)
    with \<open>lower_ascii (CHR 0xC4) = _\<close> \<open>lower_ascii (CHR 0xE2) = _\<close> show ?thesis by auto
  qed
  with m show ?thesis by (simp add: to_lower_map)
qed

lemma apply_edits_single:
  assumes "edit_operation e \<noteq> ''overwrite''"
  shows "apply_edits raw [e] =
    (case resolve_edit (normalize_edit_text raw) (scan_edit_lines (normalize_edit_text raw)) e
        (edit_operation e) of
       Inl err \<Rightarrow> Inl err
     | Inr items \<Rightarrow> splice_batch (normalize_edit_text raw) (number_from 0 items))"
  using assms equal_fold_overwrite [of "trim_space (ed_operation e)"]
  by (auto simp: apply_edits_def Let_def edit_operation_def split: sum.split)

lemma splice_single:
  "in_text body (plain_edit a b t) \<Longrightarrow>
     splice_batch body (number_from 0 [plain_edit a b t]) = Inr (take a body @ t @ drop b body)"
  by (simp add: splice_batch_def splice_def in_text_def)

lemma insert_by_last: "\<forall>z \<in> set zs. lt z x \<Longrightarrow> insert_by lt x zs = zs @ [x]"
  by (induction zs) auto

lemma stable_sort_reversed:
  "sorted_wrt (\<lambda>a b. lt b a) xs \<Longrightarrow> stable_sort lt xs = rev xs"
  by (induction xs) (auto simp: insert_by_last)

lemma ascending_plan:
  assumes "sorted_wrt (\<lambda>a b. re_end a \<le> re_start b) plan"
    and "\<forall>x \<in> set plan. re_start x < re_end x"
  shows "ascending plan = plan" and "validate_resolved_edits plan = None"
proof -
  have "sorted_wrt (\<lambda>a b. applied_before b a \<and> compatible a b) plan"
    by (rule sorted_wrt_mono_rel [OF _ assms(1)])
      (use assms(2) in \<open>fastforce simp: applied_before_def compatible_def edit_conflict_def\<close>)
  then have "sorted_wrt (\<lambda>a b. applied_before b a) plan" and "sorted_wrt compatible plan"
    by (auto elim: sorted_wrt_mono_rel [rotated])
  then show "ascending plan = plan" and "validate_resolved_edits plan = None"
    by (simp_all add: ascending_def stable_sort_reversed validate_None)
qed

section \<open>Batches\<close>

text \<open>
  C2: Applying any batch of edits to any text never slices out of range: whatever the
  operations, line numbers and matches are, \<open>ApplyEdits\<close> returns a text or one of its
  declared errors, and its splicing loop does not panic.
\<close>

theorem apply_edits_never_panics: "apply_edits raw edits \<noteq> Inl SliceOutOfRange"
proof (cases edits)
  case (Cons e es)
  let ?body = "normalize_edit_text raw"
  let ?plan = "resolve_edits ?body (scan_edit_lines ?body) edits []"
  have "?plan \<noteq> Inl SliceOutOfRange" by (rule line_resolver.resolve_no_panic)
  moreover have "?plan = Inr p \<Longrightarrow> splice_batch ?body p \<noteq> Inl SliceOutOfRange" for p
    by (rule line_resolver.batch_no_panic)
  moreover have "validate_edit_fields e ''overwrite'' \<noteq> Some SliceOutOfRange"
    by (rule validate_fields_no_panic)
  ultimately show ?thesis
    unfolding apply_edits_def Cons list.case Let_def
    by (auto split: sum.split option.split)
qed (simp add: apply_edits_def)

text \<open>
  C3: The right-to-left splicing loop of a successful batch equals one left-to-right pass over
  the original text: the resolved ranges, in ascending order, do not overlap, and the result is
  the original with each range replaced by its text, insertions at one place in batch order.
\<close>

theorem apply_edits_is_weave:
  assumes "apply_edits raw edits = Inr out"
    and "\<not> equal_fold_ascii (trim_space (ed_operation (hd edits))) ''overwrite''"
  shows "\<exists>plan. resolve_edits (normalize_edit_text raw)
      (scan_edit_lines (normalize_edit_text raw)) edits [] = Inr plan \<and>
    sorted_wrt (\<lambda>a b. re_end a \<le> re_start b) (ascending plan) \<and>
    mset (ascending plan) = mset plan \<and>
    sorted_wrt (\<lambda>a b. re_start a = re_start b \<and> is_insertion a \<and> is_insertion b \<longrightarrow>
      re_order a < re_order b) (ascending plan) \<and>
    out = weave 0 (normalize_edit_text raw) (ascending plan)"
proof -
  let ?body = "normalize_edit_text raw"
  obtain plan where plan: "resolve_edits ?body (scan_edit_lines ?body) edits [] = Inr plan"
    and out: "splice_batch ?body plan = Inr out"
    using assms unfolding apply_edits_def Let_def
    by (cases edits) (auto split: sum.splits)
  from out have v: "validate_resolved_edits plan = None"
    by (auto simp: splice_batch_def split: option.splits)
  have "sorted_wrt (\<lambda>a b. \<not> applied_before b a) (stable_sort applied_before plan)"
    by (rule sorted_applied_before)
  then have "sorted_wrt (\<lambda>a b. \<not> applied_before a b) (ascending plan)"
    by (simp add: ascending_def sorted_wrt_rev)
  moreover have "distinct (map re_order (ascending plan))"
    using line_resolver.resolve_orders [OF plan]
    by (metis ascending_def mset_map mset_rev mset_stable_sort mset_eq_imp_distinct_iff)
  then have "sorted_wrt (\<lambda>a b. re_order a \<noteq> re_order b) (ascending plan)"
    by (simp add: distinct_conv_nth sorted_wrt_iff_nth_less)
  ultimately have "sorted_wrt (\<lambda>a b. re_start a = re_start b \<and> is_insertion a \<and> is_insertion b \<longrightarrow>
      re_order a < re_order b) (ascending plan)"
    unfolding sorted_wrt_iff_nth_less applied_before_def by (metis linorder_neqE_nat)
  moreover have "mset (ascending plan) = mset plan" by (simp add: ascending_def)
  ultimately show ?thesis
    using plan line_resolver.batch_ascending [OF plan v] line_resolver.batch_weave [OF plan v] out
    by auto
qed

definition sample_edit :: "string \<Rightarrow> int \<Rightarrow> string option \<Rightarrow> string \<Rightarrow> bool \<Rightarrow> edit" where
  "sample_edit operation line t old a = \<lparr>ed_operation = operation, ed_line = line, ed_end_line = 0,
     ed_new_text = t, ed_old_text = old, ed_anchor = [], ed_index = None, ed_all_matches = a\<rparr>"

theorem apply_edits_is_weave_witness:
  "\<exists>plan. resolve_edits ''abc'' (scan_edit_lines ''abc'')
      [sample_edit ''insert'' 1 (Some ''x'') [] False] [] = Inr plan \<and>
    ''x'' @ [LF] @ ''abc'' = weave 0 ''abc'' (ascending plan)"
proof -
  have a: "apply_edits ''abc'' [sample_edit ''insert'' 1 (Some ''x'') [] False] =
      Inr (''x'' @ [LF] @ ''abc'')"
    by code_simp
  have n: "\<not> equal_fold_ascii (trim_space (ed_operation (hd
      [sample_edit ''insert'' 1 (Some ''x'') [] False]))) ''overwrite''"
    by code_simp
  have t: "normalize_edit_text ''abc'' = ''abc''" by code_simp
  show ?thesis using apply_edits_is_weave [OF a n] unfolding t by blast
qed

section \<open>Replacing every match\<close>

lemma replace_from_drop: "replace_from k old new s = replace_from 0 old new (drop k s)"
  by (induction k old new s rule: replace_from.induct) auto

lemma replace_from_index:
  "old \<noteq> [] \<Longrightarrow> replace_from 0 old new s =
     (case index_of old s of None \<Rightarrow> s
      | Some i \<Rightarrow> take i s @ new @ replace_from 0 old new (drop (i + length old) s))"
proof (induction s)
  case (Cons c s)
  show ?case
  proof (cases "has_prefix old (c # s)")
    case True
    from Cons.prems obtain a p where old: "old = a # p" by (cases old) auto
    with True show ?thesis by simp (rule replace_from_drop)
  next
    case False
    with Cons show ?thesis by (auto split: option.splits)
  qed
qed (auto split: if_splits)

definition match_edits :: "string \<Rightarrow> match_location list \<Rightarrow> resolved_edit list" where
  "match_edits new locs =
     map (\<lambda>loc. plain_edit (ml_byte_start loc) (ml_byte_end loc) new) locs"

lemma number_from_weave: "weave pos body (number_from n es) = weave pos body es"
  by (induction es arbitrary: pos n) auto

lemma weave_matches:
  "old \<noteq> [] \<Longrightarrow> weave offset body (match_edits new (content_matches_from body old offset)) =
    replace_from 0 old new (drop offset body)"
proof (induction body old offset rule: content_matches_from.induct)
  case (1 body old offset)
  show ?case
  proof (cases "index_of old (drop offset body)")
    case None
    with "1.prems" show ?thesis
      by (simp add: content_matches_none match_edits_def replace_from_index)
  next
    case (Some idx)
    have "weave (offset + idx + length old) body
        (match_edits new (content_matches_from body old (offset + idx + length old))) =
      replace_from 0 old new (drop (offset + idx + length old) body)"
      by (rule "1.IH" [OF "1.prems" Some "1.prems"])
    with "1.prems" Some show ?thesis
      by (subst replace_from_index)
        (simp_all add: content_matches_some match_edits_def drop_take ac_simps)
  qed
qed

text \<open>
  A \<open>replace_text\<close> edit with \<open>all_matches\<close> whose fields are valid and whose
  old text occurs in the file gives exactly \<open>strings.ReplaceAll\<close> of the normalised old
  text by the normalised new text on the normalised file.
\<close>

lemma replace_text_is_replace_all:
  assumes "edit_operation e = ''replace_text''"
    and "validate_edit_fields e ''replace_text'' = None"
    and "ed_all_matches e"
    and "contains_str (normalize_edit_text raw) (normalize_edit_text (ed_old_text e))"
  shows "apply_edits raw [e] =
    Inr (replace_all (normalize_edit_text (ed_old_text e))
           (normalize_edit_text (the_text (ed_new_text e))) (normalize_edit_text raw))"
proof -
  let ?body = "normalize_edit_text raw" and ?old = "normalize_edit_text (ed_old_text e)"
  let ?new = "normalize_edit_text (the_text (ed_new_text e))"
  let ?locs = "content_matches_from ?body ?old 0"
  let ?plan = "number_from 0 (match_edits ?new ?locs)"
  have ne: "?old \<noteq> []" and ix: "ed_index e = None"
    using assms(2,3) by (auto simp: validate_edit_fields_def split: if_splits)
  have "?locs \<noteq> []"
    using assms(4) ne by (auto simp: contains_str_def content_matches_some)
  then have items: "resolve_edit ?body (scan_edit_lines ?body) e (edit_operation e) =
      Inr (match_edits ?new ?locs)"
    using assms ne ix
    by (simp add: resolve_edit_def find_content_matches_def select_matches_def match_edits_def Let_def)
  have resolved: "resolve_edits ?body (scan_edit_lines ?body) [e] [] = Inr ?plan"
    using items assms(1) by (simp add: Let_def)
  have mem: "\<exists>loc \<in> set ?locs. re_start x = ml_byte_start loc \<and> re_end x = ml_byte_end loc"
    if "x \<in> set ?plan" for x
    using number_from_map(2) [OF that] by (auto simp: match_edits_def)
  have "map (\<lambda>x. (re_start x, re_end x)) (number_from n (match_edits ?new ls)) =
      map (\<lambda>l. (ml_byte_start l, ml_byte_end l)) ls" for n ls
    by (induction ls arbitrary: n) (auto simp: match_edits_def)
  then have "sorted_wrt (\<lambda>a b. snd a \<le> fst b) (map (\<lambda>x. (re_start x, re_end x)) ?plan)"
    using content_matches_sorted [of ?body ?old 0] by (simp add: sorted_wrt_map)
  then have "sorted_wrt (\<lambda>a b. re_end a \<le> re_start b) ?plan" by (simp add: sorted_wrt_map)
  moreover have "\<forall>x \<in> set ?plan. re_start x < re_end x"
    using mem content_matches_span [of _ ?body ?old 0] ne by fastforce
  ultimately have "ascending ?plan = ?plan" and "validate_resolved_edits ?plan = None"
    by (rule ascending_plan)+
  then have "splice_batch ?body ?plan = Inr (weave 0 ?body ?plan)"
    using line_resolver.batch_weave [OF resolved] by simp
  also have "weave 0 ?body ?plan = replace_all ?old ?new ?body"
    using weave_matches [OF ne, of 0 ?body ?new] by (simp add: number_from_weave replace_all_def)
  finally show ?thesis
    using items assms(1) apply_edits_single [of e raw] by simp
qed

lemma replace_text_is_replace_all_witness:
  "apply_edits ''xay a'' [sample_edit ''Replace_Text'' 0 (Some ''bb'') ''a'' True] =
     Inr (replace_all ''a'' ''bb'' ''xay a'')"
proof -
  have "apply_edits ''xay a'' [sample_edit ''Replace_Text'' 0 (Some ''bb'') ''a'' True] =
    Inr (replace_all
      (normalize_edit_text (ed_old_text (sample_edit ''Replace_Text'' 0 (Some ''bb'') ''a'' True)))
      (normalize_edit_text (the_text (ed_new_text
         (sample_edit ''Replace_Text'' 0 (Some ''bb'') ''a'' True))))
      (normalize_edit_text ''xay a''))"
    by (rule replace_text_is_replace_all) code_simp+
  also have "\<dots> = Inr (replace_all ''a'' ''bb'' ''xay a'')" by code_simp
  finally show ?thesis .
qed

section \<open>Inserting and deleting lines\<close>

lemma line_block:
  assumes "normalize_line_block t = Inr block"
  shows "split_char LF block = split_lines (ensure_trailing_newline t)"
    and "CR \<notin> set block" and "split_lines (block @ [LF]) = split_char LF block"
proof -
  let ?ls = "split_lines (ensure_trailing_newline t)"
  have ls: "?ls \<noteq> []" and block: "block = join_str [LF] ?ls"
    using assms by (auto simp: normalize_line_block_def Let_def split: if_splits)
  have "\<forall>w \<in> set ?ls. LF \<notin> set w" using split_lines_no_lf by blast
  with ls show "split_char LF block = ?ls" unfolding block by (intro split_join)
  have cr: "CR \<notin> set (join_str [LF] ws)" if "\<forall>w \<in> set ws. CR \<notin> set w" for ws
    using that by (induction "[LF]" ws rule: join_str.induct) auto
  have "\<forall>w \<in> set ?ls. CR \<notin> set w" using split_lines_no_cr by blast
  then show "CR \<notin> set block" unfolding block by (rule cr)
  then show "split_lines (block @ [LF]) = split_char LF block"
    by (simp add: split_lines_eq)
qed

lemma last_line_nonempty:
  "last (split_char LF block) \<noteq> [] \<Longrightarrow> block \<noteq> [] \<and> last block \<noteq> LF"
  using split_char_append_sep [of LF "butlast block" "[]"]
  by (cases block rule: rev_cases) auto

lemma split_lines_unterminated:
  "CR \<notin> set s \<Longrightarrow> s \<noteq> [] \<Longrightarrow> last s \<noteq> LF \<Longrightarrow> split_lines s = split_char LF s"
  by (simp add: split_lines_eq)

text \<open>
  A valid \<open>insert\<close> edit at line \<open>n\<close> gives a file whose lines are the first
  \<open>n - 1\<close> lines of the original, then the lines of the inserted text, then the rest.
  The one exception, excluded by the last hypothesis, is an insertion after a last line that has
  no line end with a block whose last line is empty: there the block's last line only becomes the
  missing line end.
\<close>

lemma insert_edit_lines:
  assumes "edit_operation e = ''insert''"
    and "apply_edits raw [e] = Inr out"
    and "ed_line e \<le> int (length (split_lines raw)) \<or>
         has_suffix [LF] (normalize_edit_text raw) \<or>
         last (split_lines (ensure_trailing_newline (the_text (ed_new_text e)))) \<noteq> []"
  shows "split_lines out =
    take (nat (ed_line e) - 1) (split_lines raw) @
    split_lines (ensure_trailing_newline (the_text (ed_new_text e))) @
    drop (nat (ed_line e) - 1) (split_lines raw)"
proof -
  let ?body = "normalize_edit_text raw" and ?block = "split_lines (ensure_trailing_newline (the_text (ed_new_text e)))"
  let ?ls = "scan_edit_lines ?body" and ?n = "nat (ed_line e)"
  have cr: "CR \<notin> set ?body" by simp
  have L: "split_lines raw = split_lines ?body" by (simp add: split_lines_normalize)
  have len: "length ?ls = length (split_lines ?body)" by (simp add: length_scan_edit_lines)
  obtain items where items: "resolve_edit ?body ?ls e ''insert'' = Inr items" and
      out: "splice_batch ?body (number_from 0 items) = Inr out"
    using assms(1,2) by (auto simp: apply_edits_single split: sum.splits)
  obtain block start t where block: "normalize_line_block (the_text (ed_new_text e)) = Inr block"
    and ins: "resolve_line_insert ?body ?ls (ed_line e) block = Inr (start, t)"
    and pe: "items = [plain_edit start start t]"
    using items by (auto simp: resolve_edit_def split: option.splits sum.splits prod.splits)
  note b = line_block [OF block]
  have splice: "out = take start ?body @ t @ drop start ?body"
    using out splice_single [OF line_insert_in_text [OF ins], of t] pe by simp
  have line: "1 \<le> ed_line e" "ed_line e \<le> int (length ?ls) + 1"
    using ins by (auto simp: resolve_line_insert_def Let_def split: if_splits)
  consider (empty) "?ls = []" | (before) "ed_line e \<le> int (length ?ls)" "?ls \<noteq> []"
    | (after) "?ls \<noteq> []" "ed_line e = int (length ?ls) + 1"
    using line by linarith
  then show ?thesis
  proof cases
    case empty
    then have e: "split_lines ?body = []" using len by simp
    have "start = 0" "t = block" using ins empty by (auto simp: resolve_line_insert_def split: if_splits)
    moreover have body: "?body = []" using e cr by (auto simp: split_lines_eq split: if_splits)
    ultimately have "out = block" using splice by simp
    moreover have "block \<noteq> [] \<and> last block \<noteq> LF"
      using assms(3) line body e b(1)
      by (intro last_line_nonempty) (auto simp: L has_suffix_single)
    ultimately show ?thesis using b e by (simp add: L split_lines_unterminated)
  next
    case before
    let ?k = "?n - 1"
    have k: "?k < length ?ls" "nat (ed_line e - 1) = ?k" using before line by auto
    have st: "start = sl_start (?ls ! ?k)" "t = block @ [LF]"
      using ins before line k by (auto simp: resolve_line_insert_def Let_def split: if_splits)
    have "split_lines (take start ?body @ t @ drop start ?body) =
        split_lines (take start ?body) @ split_lines (t @ drop start ?body)"
      using take_line_start [OF k(1)] b(2) set_take_subset [of start ?body]
        set_drop_subset [of start ?body] cr
      by (intro split_lines_append) (auto simp: st)
    also have "split_lines (t @ drop start ?body) = split_lines t @ split_lines (drop start ?body)"
      using b(2) set_drop_subset [of start ?body] cr by (intro split_lines_append) (auto simp: st)
    finally show ?thesis
      using split_lines_at [OF cr k(1)] b splice by (simp add: st L)
  next
    case after
    have full: "?n - 1 = length (split_lines ?body)" using after len by simp
    have ne: "?body \<noteq> []" using after by (auto simp: scan_edit_lines_def scan_lines_none)
    show ?thesis
    proof (cases "has_suffix [LF] ?body")
      case True
      then have "start = length ?body" "t = block @ [LF]"
        using ins after by (auto simp: resolve_line_insert_def Let_def split: if_splits)
      with splice have "out = ?body @ block @ [LF]" by simp
      moreover have "split_lines (?body @ block @ [LF]) = split_lines ?body @ split_lines (block @ [LF])"
        using True b(2) cr by (intro split_lines_append) (auto simp: has_suffix_single)
      ultimately show ?thesis using b full by (simp add: L)
    next
      case False
      then have "start = length ?body" "t = LF # block"
        using ins after by (auto simp: resolve_line_insert_def Let_def split: if_splits)
      with splice have "out = (?body @ [LF]) @ block" by simp
      moreover have "split_lines ((?body @ [LF]) @ block) = split_lines (?body @ [LF]) @ split_lines block"
        using b(2) cr by (intro split_lines_append) auto
      moreover have "split_lines (?body @ [LF]) = split_lines ?body"
        using False ne cr by (simp add: split_lines_eq has_suffix_single)
      moreover have "block \<noteq> [] \<and> last block \<noteq> LF"
        using assms(3) after len False b(1) by (intro last_line_nonempty) (auto simp: L)
      ultimately show ?thesis using b full by (simp add: L split_lines_unterminated)
    qed
  qed
qed

lemma insert_edit_lines_witness:
  "split_lines (''p'' @ [LF] @ ''q'' @ [LF] @ ''r'') =
     take 1 (split_lines (''p'' @ [CR, LF] @ ''r'')) @
     split_lines (ensure_trailing_newline ''q'') @ drop 1 (split_lines (''p'' @ [CR, LF] @ ''r''))"
proof -
  let ?e = "sample_edit ''insert'' 2 (Some ''q'') [] False"
  have "split_lines (''p'' @ [LF] @ ''q'' @ [LF] @ ''r'') =
    take (nat (ed_line ?e) - 1) (split_lines (''p'' @ [CR, LF] @ ''r'')) @
    split_lines (ensure_trailing_newline (the_text (ed_new_text ?e))) @
    drop (nat (ed_line ?e) - 1) (split_lines (''p'' @ [CR, LF] @ ''r''))"
    by (rule insert_edit_lines) code_simp+
  then show ?thesis by (simp add: sample_edit_def the_text_def)
qed

lemma scan_lines_from_last:
  "scan_lines_from start rest \<noteq> [] \<Longrightarrow>
     sl_full_end (last (scan_lines_from start rest)) = start + length rest"
proof (induction start rest rule: scan_lines_from.induct)
  case (1 start rest)
  show ?case
  proof (cases "index_of [LF] rest")
    case None
    with "1.prems" show ?thesis by (simp add: scan_lines_none split: if_splits)
  next
    case (Some rel)
    note r = index_of_char_Some [OF Some]
    show ?thesis
    proof (cases "drop (rel + 1) rest = []")
      case True
      with Some r show ?thesis by (simp add: scan_lines_some scan_lines_none)
    next
      case False
      then have "scan_lines_from (start + rel + 1) (drop (rel + 1) rest) \<noteq> []"
        by (subst scan_lines_from.simps) (simp split: option.split)
      moreover have "rest \<noteq> []" using r by auto
      ultimately show ?thesis using "1.IH" [OF _ Some] r Some by (simp add: scan_lines_some)
    qed
  qed
qed

text \<open>Cutting the text at the end of a line that is not empty keeps that line.\<close>

lemma split_lines_at_end:
  assumes "CR \<notin> set body" and "k < length (scan_edit_lines body)"
    and "split_lines body ! k \<noteq> []"
  shows "split_lines (take (sl_end (scan_edit_lines body ! k)) body) = take (Suc k) (split_lines body)"
proof -
  let ?l = "scan_edit_lines body ! k"
  have l: "line_at body ?l" using assms(2) by (rule scan_line_nth)
  have nth: "sl_text ?l = split_lines body ! k"
    using assms(2) by (metis assms(1) nth_map scan_edit_lines_texts)
  have "take (sl_end ?l) body = take (sl_start ?l) body @ sl_text ?l"
    using l drop_take_append [of "sl_start ?l" "sl_end ?l" body] by (auto simp: line_at_def)
  moreover have "CR \<notin> set (take (sl_start ?l) body @ sl_text ?l)"
    using assms(1) set_take_subset [of "sl_end ?l" body] by (auto simp flip: calculation)
  ultimately have "split_lines (take (sl_end ?l) body) =
      take k (split_lines body) @ split_lines (sl_text ?l)"
    using take_line_start [OF assms(2)] split_lines_at(1) [OF assms(1,2)]
    by (metis split_lines_append)
  moreover have "split_lines (sl_text ?l) = [sl_text ?l]"
  proof -
    have "CR \<notin> set (sl_text ?l)"
      using assms(1) nth split_lines_no_cr [of "split_lines body ! k" body] assms(2)
      by (simp add: length_scan_edit_lines)
    moreover have "LF \<notin> set (sl_text ?l)" using l unfolding line_at_def by blast
    moreover have "last (sl_text ?l) \<noteq> LF"
      using calculation(2) assms(3) nth by (metis last_in_set)
    ultimately show ?thesis
      using assms(3) by (simp add: split_lines_eq nth split_char_no_occ)
  qed
  moreover have "k < length (split_lines body)"
    using assms(1,2) by (simp add: length_scan_edit_lines)
  ultimately show ?thesis using nth by (simp add: take_Suc_conv_app_nth)
qed

text \<open>
  A valid \<open>delete\<close> edit of the lines \<open>s\<close> to \<open>e\<close> gives a file whose
  lines are those before \<open>s\<close> followed by those after \<open>e\<close>. The exception the last
  hypothesis excludes: deleting up to a last line without a line end removes the line end before
  it too, so that an empty line just before the range is no longer a line.
\<close>

lemma delete_edit_lines:
  assumes "edit_operation e = ''delete''"
    and "apply_edits raw [e] = Inr out"
    and "m = (if ed_end_line e = 0 then ed_line e else ed_end_line e)"
    and "m < int (length (split_lines raw)) \<or> has_suffix [LF] (normalize_edit_text raw) \<or>
         ed_line e = 1 \<or> split_lines raw ! (nat (ed_line e) - 2) \<noteq> []"
  shows "1 \<le> ed_line e \<and> ed_line e \<le> m \<and> m \<le> int (length (split_lines raw)) \<and>
    split_lines out =
      take (nat (ed_line e) - 1) (split_lines raw) @ drop (nat m) (split_lines raw)"
proof -
  let ?body = "normalize_edit_text raw" and ?s = "nat (ed_line e)" and ?m = "nat m"
  let ?ls = "scan_edit_lines ?body"
  have cr: "CR \<notin> set ?body" by simp
  have L: "split_lines raw = split_lines ?body" by (simp add: split_lines_normalize)
  have len: "length ?ls = length (split_lines ?body)" by (simp add: length_scan_edit_lines)
  obtain items where items: "resolve_line_range ?ls e [] = Inr items" and
      out: "splice_batch ?body (number_from 0 items) = Inr out"
    using assms(1,2)
    by (auto simp: apply_edits_single resolve_edit_def split: sum.splits option.splits)
  then have v: "1 \<le> ed_line e" "ed_line e \<le> m" "m \<le> int (length ?ls)"
    using assms(3)
    by (auto simp: resolve_line_range_def validate_line_range_def Let_def
        split: option.splits if_splits)
  obtain a b where ab: "line_delete_range ?ls ?s ?m = (a, b)"
    by (cases "line_delete_range ?ls ?s ?m") auto
  have pe: "items = [plain_edit a b []]"
    using items ab assms(3) by (auto simp: resolve_line_range_def Let_def split: option.splits)
  have r: "1 \<le> ?s" "?s \<le> ?m" "?m \<le> length ?ls" using v by auto
  have "in_text ?body (plain_edit a b [])"
    using line_delete_range_in_text [OF ab] r by (simp add: in_text_def)
  then have splice: "out = take a ?body @ drop b ?body"
    using out pe splice_single [of ?body a b "[]"] by simp
  have b: "b = sl_full_end (?ls ! (?m - 1))" using ab by (auto simp: line_delete_range_def Let_def)
  have k: "?s - 1 < length ?ls" using r by simp
  note at = split_lines_at [OF cr k]
  let ?open = "?m = length ?ls \<and> sl_full_end (?ls ! (?m - 1)) = sl_end (?ls ! (?m - 1)) \<and> ?s > 1"
  have "split_lines out = take (?s - 1) (split_lines ?body) @ drop ?m (split_lines ?body)"
  proof (cases "?m < length ?ls")
    case True
    have "b = sl_start (?ls ! ?m)"
      using scan_edit_lines_adjacent [of "?m - 1" ?body] True r b by simp
    moreover have a: "a = sl_start (?ls ! (?s - 1))"
      using ab True by (simp add: line_delete_range_def Let_def)
    moreover have "split_lines (take a ?body @ drop b ?body) =
        split_lines (take a ?body) @ split_lines (drop b ?body)"
      using take_line_start [OF k] cr set_take_subset [of a ?body] set_drop_subset [of b ?body]
      by (intro split_lines_append) (auto simp: a)
    ultimately show ?thesis using at split_lines_at [OF cr True] splice by simp
  next
    case False
    then have m: "?m = length ?ls" using r by simp
    have "?ls \<noteq> []" using r by auto
    then have "sl_full_end (last ?ls) = length ?body" and "last ?ls = ?ls ! (?m - 1)"
      using scan_lines_from_last [of 0 ?body] m by (auto simp: scan_edit_lines_def last_conv_nth)
    with b have "b = length ?body" by simp
    with splice have out_a: "out = take a ?body" by simp
    have dr: "drop ?m (split_lines ?body) = []" using m len by simp
    show ?thesis
    proof (cases ?open)
      case False
      then have "a = sl_start (?ls ! (?s - 1))"
        using ab by (auto simp: line_delete_range_def Let_def split: if_splits)
      with at dr out_a show ?thesis by simp
    next
      case True
      then have a: "a = sl_end (?ls ! (?s - 2))"
        using ab by (auto simp: line_delete_range_def Let_def)
      have "line_at ?body (?ls ! (?m - 1))" using r by (intro scan_line_nth) auto
      with True have "drop (sl_start (?ls ! (?m - 1))) ?body = sl_text (?ls ! (?m - 1))"
        and "LF \<notin> set (sl_text (?ls ! (?m - 1)))" and "sl_text (?ls ! (?m - 1)) \<noteq> []"
        by (auto simp: line_at_def)
      then have "\<not> has_suffix [LF] ?body"
        by (metis has_suffix_single last_drop drop_eq_Nil last_in_set not_le)
      with assms(4) m v len True have "split_lines ?body ! (?s - 2) \<noteq> []"
        by (auto simp: L)
      moreover have "?s - 2 < length ?ls" using k by linarith
      ultimately have "split_lines (take a ?body) = take (Suc (?s - 2)) (split_lines ?body)"
        unfolding a by (intro split_lines_at_end) simp_all
      moreover have "Suc (?s - 2) = ?s - 1" using True by linarith
      ultimately show ?thesis using dr out_a by simp
    qed
  qed
  with v L len show ?thesis by simp
qed

lemma delete_edit_lines_witness:
  "split_lines (''p'' @ [LF] @ ''r'') = take 1 (split_lines (''p'' @ [LF] @ ''q'' @ [LF] @ ''r'')) @
     drop 2 (split_lines (''p'' @ [LF] @ ''q'' @ [LF] @ ''r''))"
proof -
  let ?e = "sample_edit ''delete'' 2 None [] False"
  let ?raw = "''p'' @ [LF] @ ''q'' @ [LF] @ ''r''"
  have "1 \<le> ed_line ?e \<and> ed_line ?e \<le> 2 \<and> 2 \<le> int (length (split_lines ?raw)) \<and>
    split_lines (''p'' @ [LF] @ ''r'') =
      take (nat (ed_line ?e) - 1) (split_lines ?raw) @ drop (nat 2) (split_lines ?raw)"
    by (rule delete_edit_lines [of ?e ?raw]) code_simp+
  then show ?thesis by (simp add: sample_edit_def)
qed

end
