(* ===== verification/File_Diff.thy ===== *)
theory File_Diff
  imports File_Text "HOL-Library.Sublist"
begin

text \<open>
  Unified diffs (\<open>internal/fileops/diff.go\<close>): the table of longest common subsequences, the
  walk along it, the grouping of changes into hunks with context, and the rendered text.
  Counts and line numbers are \<open>int\<close>: the code bounds the table by two million cells, so they
  stay far below 64 bits.
\<close>

section \<open>Data\<close>

datatype diff_kind = DiffEqual | DiffDelete | DiffInsert

record diff_op =
  dop_kind :: diff_kind
  dop_text :: string

record diff_hunk =
  dh_ops :: "diff_op list"
  dh_old_start :: int
  dh_new_start :: int

definition max_diff_cells :: int where "max_diff_cells = 2000000"
definition max_diff_output_bytes :: int where "max_diff_output_bytes = 64 * 1024"

section \<open>Lines\<close>

text \<open>
  The table of \<open>diffLines\<close>, row by row from the last, each row from its right end:
  \<open>dp_row x b below\<close> is the row of line \<open>x\<close> above the row \<open>below\<close>.
\<close>

fun dp_row :: "string \<Rightarrow> string list \<Rightarrow> int list \<Rightarrow> int list" where
  "dp_row x [] below = [0]"
| "dp_row x (y # ys) below =
     (let right = dp_row x ys (tl below) in
      (if x = y then hd (tl below) + 1
       else if hd right \<le> hd below then hd below else hd right) # right)"

fun dp_table :: "string list \<Rightarrow> string list \<Rightarrow> int list list" where
  "dp_table [] b = [replicate (length b + 1) 0]"
| "dp_table (x # a) b = (let t = dp_table a b in dp_row x b (hd t) # t)"

function diff_walk ::
  "string list \<Rightarrow> string list \<Rightarrow> int list list \<Rightarrow> nat \<Rightarrow> nat \<Rightarrow> diff_op list" where
  "diff_walk a b dp i j =
     (if i < length a \<or> j < length b then
        if i < length a \<and> j < length b \<and> a ! i = b ! j
        then \<lparr>dop_kind = DiffEqual, dop_text = a ! i\<rparr> # diff_walk a b dp (i + 1) (j + 1)
        else if length b \<le> j \<or> i < length a \<and> dp ! i ! (j + 1) \<le> dp ! (i + 1) ! j
        then \<lparr>dop_kind = DiffDelete, dop_text = a ! i\<rparr> # diff_walk a b dp (i + 1) j
        else \<lparr>dop_kind = DiffInsert, dop_text = b ! j\<rparr> # diff_walk a b dp i (j + 1)
      else [])"
  by pat_completeness auto
termination
  by (relation "measure (\<lambda>(a, b, dp, i, j). (length a - i) + (length b - j))") auto

declare diff_walk.simps [simp del]

definition diff_lines :: "string list \<Rightarrow> string list \<Rightarrow> diff_op list" where
  "diff_lines a b = diff_walk a b (dp_table a b) 0 0"

section \<open>Hunks\<close>

definition is_equal_op :: "diff_op \<Rightarrow> bool" where
  "is_equal_op p \<longleftrightarrow> dop_kind p = DiffEqual"

definition changes :: "diff_op list \<Rightarrow> nat list" where
  "changes ops = filter (\<lambda>i. \<not> is_equal_op (ops ! i)) [0..<length ops]"

definition equal_ops_between :: "diff_op list \<Rightarrow> nat \<Rightarrow> nat \<Rightarrow> int" where
  "equal_ops_between ops start stop =
     int (length (filter (\<lambda>i. is_equal_op (ops ! i)) [start..<stop]))"

text \<open>The loop over the operations after the first change; a range is its first and last change.\<close>

fun group_changes ::
  "diff_op list \<Rightarrow> int \<Rightarrow> nat \<Rightarrow> nat \<Rightarrow> nat list \<Rightarrow> (nat \<times> nat) list" where
  "group_changes ops c start prev [] = [(start, prev)]"
| "group_changes ops c start prev (i # is) =
     (if is_equal_op (ops ! i) then group_changes ops c start prev is
      else if equal_ops_between ops (prev + 1) i > c * 2
      then (start, prev) # group_changes ops c i i is
      else group_changes ops c start i is)"

fun side_counts :: "diff_op list \<Rightarrow> int \<times> int" where
  "side_counts [] = (0, 0)"
| "side_counts (p # ops) =
     (let (x, y) = side_counts ops in
      case dop_kind p of DiffEqual \<Rightarrow> (x + 1, y + 1) | DiffDelete \<Rightarrow> (x + 1, y) | DiffInsert \<Rightarrow> (x, y + 1))"

definition diff_hunk_counts :: "diff_op list \<Rightarrow> int \<times> int" where
  "diff_hunk_counts ops = side_counts ops"

definition trim_start :: "int \<Rightarrow> nat \<Rightarrow> nat" where
  "trim_start c first = (if int first - c < 0 then 0 else nat (int first - c))"

definition trim_stop :: "diff_op list \<Rightarrow> int \<Rightarrow> nat \<Rightarrow> nat" where
  "trim_stop ops c final =
     (if int final + c + 1 > int (length ops) then length ops else nat (int final + c + 1))"

definition trim_diff_context_range :: "diff_op list \<Rightarrow> int \<Rightarrow> nat \<Rightarrow> nat \<Rightarrow> diff_hunk" where
  "trim_diff_context_range ops c first final =
     (let s = trim_start c first; e = trim_stop ops c final; n = side_counts (take s ops)
      in \<lparr>dh_ops = drop s (take e ops), dh_old_start = 1 + fst n, dh_new_start = 1 + snd n\<rparr>)"

definition build_diff_hunks :: "diff_op list \<Rightarrow> int \<Rightarrow> diff_hunk list" where
  "build_diff_hunks ops c =
     (case changes ops of
        [] \<Rightarrow> []
      | first # rest \<Rightarrow>
          map (\<lambda>(f, l). trim_diff_context_range ops c f l)
            (group_changes ops c first first [first + 1..<last (first # rest) + 1]))"

section \<open>Rendering\<close>

definition diff_too_large :: "string list \<Rightarrow> string list \<Rightarrow> bool" where
  "diff_too_large a b =
     (if a = [] \<or> b = [] then False else int (length a) > max_diff_cells div int (length b))"

text \<open>The size only grows, so the early return of \<open>diffOutputTooLarge\<close> gives the final test.\<close>

fun hunk_size_exceeds :: "int \<Rightarrow> diff_op list \<Rightarrow> int \<times> bool" where
  "hunk_size_exceeds n [] = (n, False)"
| "hunk_size_exceeds n (p # ops) =
     (let n = n + int (length (dop_text p)) + 2
      in if n > max_diff_output_bytes then (n, True) else hunk_size_exceeds n ops)"

fun output_exceeds :: "int \<Rightarrow> diff_hunk list \<Rightarrow> bool" where
  "output_exceeds n [] = (n > max_diff_output_bytes)"
| "output_exceeds n (h # hs) =
     (case hunk_size_exceeds (n + 64) (dh_ops h) of
        (n, True) \<Rightarrow> True
      | (n, False) \<Rightarrow> output_exceeds n hs)"

definition diff_output_too_large :: "string \<Rightarrow> diff_hunk list \<Rightarrow> bool" where
  "diff_output_too_large path hunks =
     output_exceeds (int (length path) * 2 + int (length (''--- '' @ [LF] @ ''+++ '' @ [LF]))) hunks"

definition omitted_diff :: "string \<Rightarrow> string \<Rightarrow> string" where
  "omitted_diff path reason =
     ''--- '' @ path @ [LF] @ ''+++ '' @ path @ [LF] @ ''# diff omitted: '' @ reason @ [LF]"

definition render_op :: "diff_op \<Rightarrow> string" where
  "render_op p =
     (case dop_kind p of DiffEqual \<Rightarrow> '' '' | DiffDelete \<Rightarrow> ''-'' | DiffInsert \<Rightarrow> ''+'') @ dop_text p @ [LF]"

definition render_hunk :: "diff_hunk \<Rightarrow> string" where
  "render_hunk h =
     (case diff_hunk_counts (dh_ops h) of (x, y) \<Rightarrow>
        ''@@ -'' @ int_str (dh_old_start h) @ '','' @ int_str x @ '' +'' @ int_str (dh_new_start h) @
        '','' @ int_str y @ '' @@'' @ [LF] @ concat (map render_op (dh_ops h)))"

definition unified_diff :: "string \<Rightarrow> string list \<Rightarrow> string list \<Rightarrow> int \<Rightarrow> string" where
  "unified_diff path a b c =
     (if diff_too_large a b
      then omitted_diff path (''too many line comparisons ('' @ int_str (int (length a)) @ '' x '' @
             int_str (int (length b)) @ '')'')
      else let hunks = build_diff_hunks (diff_lines a b) c in
        if diff_output_too_large path hunks
        then omitted_diff path (''rendered diff exceeds '' @ int_str max_diff_output_bytes @ '' bytes'')
        else ''--- '' @ path @ [LF] @ ''+++ '' @ path @ [LF] @ concat (map render_hunk hunks))"

definition edit_diff ::
  "string \<Rightarrow> string \<Rightarrow> string \<Rightarrow> int \<Rightarrow> int \<Rightarrow> int \<Rightarrow> int \<Rightarrow> string" where
  "edit_diff path old_text new_text old_bytes new_bytes c detailed_max =
     (if detailed_max > 0 \<and> (old_bytes > detailed_max \<or> new_bytes > detailed_max)
      then omitted_diff path (''file exceeds detailed diff limit '' @ int_str detailed_max @ '' bytes (old '' @
             int_str old_bytes @ '' bytes, new '' @ int_str new_bytes @ '' bytes)'')
      else unified_diff path (split_lines old_text) (split_lines new_text) c)"

section \<open>The two sides of a script\<close>

definition old_side :: "diff_op list \<Rightarrow> string list" where
  "old_side ops = map dop_text (filter (\<lambda>p. dop_kind p \<noteq> DiffInsert) ops)"

definition new_side :: "diff_op list \<Rightarrow> string list" where
  "new_side ops = map dop_text (filter (\<lambda>p. dop_kind p \<noteq> DiffDelete) ops)"

definition kept_lines :: "diff_op list \<Rightarrow> string list" where
  "kept_lines ops = map dop_text (filter is_equal_op ops)"

text \<open>
  What a reader of a unified diff does: copy the lines up to a hunk, check that the hunk's old
  lines are there and that both its line numbers are right, and put its new lines in their place.
\<close>

fun patch_from :: "string list \<Rightarrow> nat \<Rightarrow> string list \<Rightarrow> diff_hunk list \<Rightarrow> string list option" where
  "patch_from old pos out [] = Some (out @ drop pos old)"
| "patch_from old pos out (h # hs) =
     (let s = nat (dh_old_start h - 1);
          out1 = out @ take (s - pos) (drop pos old);
          x = old_side (dh_ops h) in
      if dh_old_start h < 1 \<or> s < pos \<or> length old < s + length x then None
      else if take (length x) (drop s old) \<noteq> x then None
      else if dh_new_start h \<noteq> int (length out1) + 1 then None
      else patch_from old (s + length x) (out1 @ new_side (dh_ops h)) hs)"

definition patch :: "string list \<Rightarrow> diff_hunk list \<Rightarrow> string list option" where
  "patch old hs = patch_from old 0 [] hs"

end
