(* ===== verification/File_Diff_Props.thy ===== *)
theory File_Diff_Props
  imports File_Diff
begin

text \<open>
  What a diff promises: the script turns the old lines into the new ones and keeps as many lines
  as any script can, and its hunks, read as a patch, reproduce the new file from the old one.
\<close>

section \<open>Reference: longest common subsequences and scripts by recursion\<close>

fun lcs_len :: "string list \<Rightarrow> string list \<Rightarrow> int" where
  "lcs_len [] ys = 0"
| "lcs_len (x # xs) [] = 0"
| "lcs_len (x # xs) (y # ys) =
     (if x = y then lcs_len xs ys + 1 else max (lcs_len xs (y # ys)) (lcs_len (x # xs) ys))"

fun script :: "string list \<Rightarrow> string list \<Rightarrow> diff_op list" where
  "script [] [] = []"
| "script (x # xs) [] = \<lparr>dop_kind = DiffDelete, dop_text = x\<rparr> # script xs []"
| "script [] (y # ys) = \<lparr>dop_kind = DiffInsert, dop_text = y\<rparr> # script [] ys"
| "script (x # xs) (y # ys) =
     (if x = y then \<lparr>dop_kind = DiffEqual, dop_text = x\<rparr> # script xs ys
      else if lcs_len (x # xs) ys \<le> lcs_len xs (y # ys)
      then \<lparr>dop_kind = DiffDelete, dop_text = x\<rparr> # script xs (y # ys)
      else \<lparr>dop_kind = DiffInsert, dop_text = y\<rparr> # script (x # xs) ys)"

lemma lcs_len_Nil2 [simp]: "lcs_len xs [] = 0"
  by (cases xs) simp_all

lemma lcs_len_nonneg: "0 \<le> lcs_len xs ys"
  by (induction xs ys rule: lcs_len.induct) auto

lemma lcs_len_optimal:
  "subseq zs xs \<Longrightarrow> subseq zs ys \<Longrightarrow> int (length zs) \<le> lcs_len xs ys"
proof (induction xs ys arbitrary: zs rule: lcs_len.induct)
  case (3 x xs y ys)
  show ?case
  proof (cases zs)
    case (Cons z zs')
    show ?thesis
    proof (cases "x = y")
      case True
      have "subseq zs' xs" "subseq zs' ys"
        using "3.prems" Cons by (auto split: if_splits dest: subseq_Cons')
      then show ?thesis using "3.IH"(1) [OF True, of zs'] True Cons by simp
    next
      case False
      then have "z \<noteq> x \<or> z \<noteq> y" by auto
      then have "subseq zs xs \<or> subseq zs ys"
        using "3.prems" Cons by (auto split: if_splits)
      then show ?thesis using "3.IH"(2,3) [OF False, of zs] "3.prems" False by auto
    qed
  qed (use lcs_len_nonneg [of "x # xs" "y # ys"] in \<open>simp del: lcs_len.simps\<close>)
qed (auto dest: list_emb_length)

section \<open>The table\<close>

lemma dp_row_correct:
  assumes "length below = Suc (length b)" and "\<And>j. j \<le> length b \<Longrightarrow> below ! j = lcs_len a (drop j b)"
  shows "length (dp_row x b below) = Suc (length b) \<and>
    (\<forall>j \<le> length b. dp_row x b below ! j = lcs_len (x # a) (drop j b))"
  using assms
proof (induction b arbitrary: below)
  case (Cons y b)
  obtain d ds where ds: "below = d # ds" using Cons.prems(1) by (cases below) auto
  have tl: "length ds = Suc (length b)" "\<And>j. j \<le> length b \<Longrightarrow> ds ! j = lcs_len a (drop j b)"
    using Cons.prems(1) Cons.prems(2) [of "Suc j" for j] ds by auto
  note IH = Cons.IH [OF tl]
  have hds: "hd ds = lcs_len a b" and d: "d = lcs_len a (y # b)"
    using tl(1) tl(2) [of 0] Cons.prems(2) [of 0] ds by (cases ds; simp)+
  have hr: "hd (dp_row x b ds) = lcs_len (x # a) b"
    using IH by (cases "dp_row x b ds") auto
  show ?case
  proof (intro conjI allI impI)
    show "length (dp_row x (y # b) below) = Suc (length (y # b))" using IH ds by (simp add: Let_def)
    fix j assume "j \<le> length (y # b)"
    then show "dp_row x (y # b) below ! j = lcs_len (x # a) (drop j (y # b))"
      using IH hds d hr ds by (cases j) (auto simp: Let_def)
  qed
qed simp

lemma dp_table_correct:
  "length (dp_table a b) = Suc (length a) \<and>
   (\<forall>i \<le> length a. length (dp_table a b ! i) = Suc (length b) \<and>
      (\<forall>j \<le> length b. dp_table a b ! i ! j = lcs_len (drop i a) (drop j b)))"
proof (induction a)
  case Nil
  then show ?case by (auto simp: nth_append simp flip: replicate_Suc)
next
  case (Cons x a)
  have h: "hd (dp_table a b) = dp_table a b ! 0" using Cons by (cases "dp_table a b") auto
  have "length (dp_row x b (hd (dp_table a b))) = Suc (length b) \<and>
      (\<forall>j \<le> length b. dp_row x b (hd (dp_table a b)) ! j = lcs_len (x # a) (drop j b))"
    by (rule dp_row_correct) (use Cons h in auto)
  then show ?case using Cons by (auto simp: Let_def nth_Cons split: nat.split)
qed

lemma dp_cell: "i \<le> length a \<Longrightarrow> j \<le> length b \<Longrightarrow> dp_table a b ! i ! j = lcs_len (drop i a) (drop j b)"
  using dp_table_correct [of a b] by simp

lemma diff_walk_script:
  "dp = dp_table a b \<Longrightarrow> i \<le> length a \<Longrightarrow> j \<le> length b \<Longrightarrow>
     diff_walk a b dp i j = script (drop i a) (drop j b)"
proof (induction a b dp i j rule: diff_walk.induct)
  case (1 a b dp i j)
  note walk = diff_walk.simps [of a b dp i j]
  show ?case
  proof (cases "i < length a"; cases "j < length b")
    assume i: "i < length a" and j: "j < length b"
    note di = nth_tl_drop [OF i] and dj = nth_tl_drop [OF j]
    show ?thesis
    proof (cases "a ! i = b ! j")
      case True
      then show ?thesis using 1 i j walk by (simp add: di dj)
    next
      case False
      have "(dp ! i ! (j + 1) \<le> dp ! (i + 1) ! j) \<longleftrightarrow>
          lcs_len (a ! i # drop (Suc i) a) (drop (Suc j) b) \<le> lcs_len (drop (Suc i) a) (b ! j # drop (Suc j) b)"
        using i j "1.prems" by (simp add: dp_cell di dj)
      then show ?thesis using 1 False i j walk by (simp add: di dj)
    qed
  next
    assume i: "i < length a" and j: "\<not> j < length b"
    then show ?thesis using 1 walk by (simp add: nth_tl_drop [OF i])
  next
    assume i: "\<not> i < length a" and j: "j < length b"
    then show ?thesis using 1 walk by (simp add: nth_tl_drop [OF j])
  next
    assume "\<not> i < length a" and "\<not> j < length b"
    then show ?thesis using walk by simp
  qed
qed

lemma diff_lines_script: "diff_lines a b = script a b"
  by (simp add: diff_lines_def diff_walk_script)

lemma script_sides: "old_side (script a b) = a \<and> new_side (script a b) = b"
  by (induction a b rule: script.induct) (auto simp: old_side_def new_side_def)

lemma script_kept: "int (length (kept_lines (script a b))) = lcs_len a b"
  by (induction a b rule: script.induct) (auto simp: kept_lines_def is_equal_op_def)

lemma kept_subseq: "subseq (kept_lines ops) (old_side ops)" "subseq (kept_lines ops) (new_side ops)"
  by (induction ops) (auto simp: kept_lines_def old_side_def new_side_def is_equal_op_def)

text \<open>
  C22: the diff script is correct and keeps as much as possible.  Dropping the inserted lines of
  the script gives the old file and dropping the deleted ones the new file; no script between
  the same two files keeps more lines unchanged.
\<close>

theorem diff_script_optimal:
  assumes "old_side ops = a" and "new_side ops = b"
  shows "old_side (diff_lines a b) = a \<and> new_side (diff_lines a b) = b \<and>
    length (kept_lines ops) \<le> length (kept_lines (diff_lines a b))"
proof -
  have "int (length (kept_lines ops)) \<le> lcs_len a b"
    using lcs_len_optimal kept_subseq [of ops] assms by blast
  then show ?thesis using script_sides [of a b] script_kept [of a b] by (simp add: diff_lines_script)
qed

theorem diff_script_optimal_witness:
  "length (kept_lines [\<lparr>dop_kind = DiffDelete, dop_text = ''a''\<rparr>, \<lparr>dop_kind = DiffInsert, dop_text = ''a''\<rparr>])
     \<le> length (kept_lines (diff_lines [''a''] [''a'']))"
  by (rule diff_script_optimal [THEN conjunct2, THEN conjunct2]) (simp_all add: old_side_def new_side_def)

section \<open>Hunks\<close>

lemma old_side_append [simp]: "old_side (xs @ ys) = old_side xs @ old_side ys"
  by (simp add: old_side_def)

lemma new_side_append [simp]: "new_side (xs @ ys) = new_side xs @ new_side ys"
  by (simp add: new_side_def)

lemma side_counts_length:
  "side_counts ops = (int (length (old_side ops)), int (length (new_side ops)))"
  by (induction ops) (auto simp: old_side_def new_side_def split: diff_kind.splits prod.splits)

lemma equal_sides: "\<forall>p \<in> set ops. is_equal_op p \<Longrightarrow> old_side ops = new_side ops"
  by (induction ops) (auto simp: old_side_def new_side_def is_equal_op_def)

text \<open>Segments of a script: half-open, ordered, and holding all changes from \<open>p\<close> on.\<close>

fun segments_from :: "diff_op list \<Rightarrow> nat \<Rightarrow> (nat \<times> nat) list \<Rightarrow> bool" where
  "segments_from ops p [] = (\<forall>i. p \<le> i \<and> i < length ops \<longrightarrow> is_equal_op (ops ! i))"
| "segments_from ops p ((s, e) # rs) =
     (p \<le> s \<and> s \<le> e \<and> e \<le> length ops \<and> (\<forall>i. p \<le> i \<and> i < s \<longrightarrow> is_equal_op (ops ! i)) \<and>
      segments_from ops e rs)"

definition hunk_of :: "diff_op list \<Rightarrow> nat \<times> nat \<Rightarrow> diff_hunk" where
  "hunk_of ops r =
     \<lparr>dh_ops = drop (fst r) (take (snd r) ops),
      dh_old_start = 1 + int (length (old_side (take (fst r) ops))),
      dh_new_start = 1 + int (length (new_side (take (fst r) ops)))\<rparr>"

lemma take_split: "p \<le> e \<Longrightarrow> take e ops = take p ops @ drop p (take e ops)"
  by (metis append_take_drop_id min.absorb1 take_take)

lemma gap_sides:
  assumes "p \<le> s" and "s \<le> length ops" and "\<forall>i. p \<le> i \<and> i < s \<longrightarrow> is_equal_op (ops ! i)"
  shows "old_side (drop p (take s ops)) = new_side (drop p (take s ops))"
  by (rule equal_sides) (use assms in \<open>auto simp: in_set_conv_nth\<close>)

lemma old_side_between:
  "p \<le> s \<Longrightarrow> drop (length (old_side (take p ops))) (old_side (take s ops)) = old_side (drop p (take s ops))"
  by (subst take_split [of p s]) simp_all

lemma old_side_prefix: "take (length (old_side (take s ops))) (old_side ops) = old_side (take s ops)"
  using old_side_append [of "take s ops" "drop s ops"] by simp

lemma old_side_take_drop:
  assumes "p \<le> s"
  shows "take (length (old_side (take s ops)) - length (old_side (take p ops)))
      (drop (length (old_side (take p ops))) (old_side ops)) = old_side (drop p (take s ops))"
  using old_side_between [OF assms, of ops] old_side_prefix [of s ops]
  by (metis drop_take)

lemma patch_segments:
  assumes "segments_from ops p rs" and "p \<le> length ops"
  shows "patch_from (old_side ops) (length (old_side (take p ops))) (new_side (take p ops)) (map (hunk_of ops) rs) =
    Some (new_side ops)"
  using assms
proof (induction rs arbitrary: p)
  case Nil
  have "old_side (drop p ops) = new_side (drop p ops)"
    using gap_sides [of p "length ops" ops] Nil by simp
  moreover have "drop (length (old_side (take p ops))) (old_side ops) = old_side (drop p ops)"
    using old_side_append [of "take p ops" "drop p ops"] by simp
  moreover have "new_side (take p ops) @ new_side (drop p ops) = new_side ops"
    by (metis append_take_drop_id new_side_append)
  ultimately show ?case by simp
next
  case (Cons r rs)
  obtain s e where r: "r = (s, e)" by (cases r)
  with Cons.prems have ps: "p \<le> s" and se: "s \<le> e" and e: "e \<le> length ops"
    and gap: "\<forall>i. p \<le> i \<and> i < s \<longrightarrow> is_equal_op (ops ! i)" and rest: "segments_from ops e rs"
    by simp_all
  let ?L = "\<lambda>i. length (old_side (take i ops))"
  have le: "old_side (take e ops) = old_side (take s ops) @ old_side (drop s (take e ops))"
    by (subst take_split [OF se]) simp
  have lsp: "?L p \<le> ?L s"
    by (subst take_split [OF ps]) simp
  have out: "new_side (take p ops) @ take (?L s - ?L p) (drop (?L p) (old_side ops)) = new_side (take s ops)"
    unfolding old_side_take_drop [OF ps] using gap_sides [OF ps _ gap] se e
    by (subst (2) take_split [OF ps]) simp
  have len: "?L s + length (old_side (drop s (take e ops))) = ?L e"
    by (simp add: le)
  have there: "take (length (old_side (drop s (take e ops)))) (drop (?L s) (old_side ops)) =
      old_side (drop s (take e ops))"
    using old_side_take_drop [OF se, of ops] len by (metis add_diff_cancel_left')
  have bound: "?L e \<le> length (old_side ops)"
    using arg_cong [OF old_side_prefix [of e ops], of length] by simp
  have new: "new_side (take s ops) @ new_side (drop s (take e ops)) = new_side (take e ops)"
    by (subst (2) take_split [OF se]) simp
  have h: "dh_old_start (hunk_of ops r) = 1 + int (?L s)" "dh_ops (hunk_of ops r) = drop s (take e ops)"
    "dh_new_start (hunk_of ops r) = 1 + int (length (new_side (take s ops)))"
    by (simp_all add: hunk_of_def r)
  show ?case
    using Cons.IH [OF rest e] lsp bound
    unfolding list.map patch_from.simps Let_def h by (simp add: out there new len)
qed

text \<open>The ranges of \<open>group_changes\<close>: first and last changes, far enough apart for the context.\<close>

fun ranges_from :: "diff_op list \<Rightarrow> int \<Rightarrow> nat \<Rightarrow> (nat \<times> nat) list \<Rightarrow> bool" where
  "ranges_from ops c p [] = (\<forall>i. p \<le> i \<and> i < length ops \<longrightarrow> is_equal_op (ops ! i))"
| "ranges_from ops c p ((f, l) # rs) =
     (p \<le> f \<and> f \<le> l \<and> l < length ops \<and> (\<forall>i. p \<le> i \<and> i < f \<longrightarrow> is_equal_op (ops ! i)) \<and>
      (rs \<noteq> [] \<longrightarrow> int l + 2 * c + 1 < int (fst (hd rs))) \<and> ranges_from ops c (Suc l) rs)"

lemma equal_between_all:
  assumes "\<forall>i. p \<le> i \<and> i < q \<longrightarrow> is_equal_op (ops ! i)"
  shows "equal_ops_between ops p q = int (q - p)"
  using assms by (simp add: equal_ops_between_def)

lemma group_changes_head: "\<exists>l rs. group_changes ops c start prev is = (start, l) # rs"
  by (induction ops c start prev "is" rule: group_changes.induct) auto

lemma group_changes_ranges:
  assumes "start \<le> prev" and "prev < p" and "p \<le> q" and "q \<le> length ops"
    and "\<forall>i. prev < i \<and> i < p \<longrightarrow> is_equal_op (ops ! i)"
    and "\<forall>i. q \<le> i \<and> i < length ops \<longrightarrow> is_equal_op (ops ! i)"
  shows "ranges_from ops c start (group_changes ops c start prev [p..<q])"
  using assms
proof (induction "q - p" arbitrary: start prev p)
  case 0
  then show ?case by simp (metis Suc_le_eq not_less order_less_le_trans)
next
  case (Suc n)
  then have pq: "p < q" and up: "[p..<q] = p # [Suc p..<q]" by (simp_all add: upt_conv_Cons)
  show ?case
  proof (cases "is_equal_op (ops ! p)")
    case True
    have "\<forall>i. prev < i \<and> i < Suc p \<longrightarrow> is_equal_op (ops ! i)"
      using Suc.prems(5) True less_Suc_eq by blast
    with Suc pq True up show ?thesis by simp
  next
    case False
    show ?thesis
    proof (cases "equal_ops_between ops (prev + 1) p > c * 2")
      case far: True
      have "equal_ops_between ops (prev + 1) p = int (p - (prev + 1))"
        by (rule equal_between_all) (use Suc.prems(5) in auto)
      with far Suc.prems(2) have dist: "int prev + 2 * c + 1 < int p" by linarith
      have rec: "ranges_from ops c p (group_changes ops c p p [Suc p..<q])"
        by (rule Suc.hyps(1)) (use Suc pq in auto)
      obtain l rs where g: "group_changes ops c p p [Suc p..<q] = (p, l) # rs"
        using group_changes_head by blast
      have "ranges_from ops c (Suc prev) ((p, l) # rs)"
        using rec g Suc.prems(2,5) by auto
      then show ?thesis
        using Suc.prems pq False far up dist g by simp
    next
      case near: False
      have "ranges_from ops c start (group_changes ops c start p [Suc p..<q])"
        by (rule Suc.hyps(1)) (use Suc pq in auto)
      with False near up show ?thesis by simp
    qed
  qed
qed

definition trim_range :: "diff_op list \<Rightarrow> int \<Rightarrow> nat \<times> nat \<Rightarrow> nat \<times> nat" where
  "trim_range ops c r = (trim_start c (fst r), trim_stop ops c (snd r))"

lemma trim_segments:
  assumes "ranges_from ops c p rs" and "0 \<le> c" and "q \<le> length ops"
    and "\<forall>i. q \<le> i \<and> i < p \<longrightarrow> is_equal_op (ops ! i)"
    and "rs \<noteq> [] \<longrightarrow> q = 0 \<or> int q \<le> int (fst (hd rs)) - c"
  shows "segments_from ops q (map (trim_range ops c) rs)"
  using assms
proof (induction rs arbitrary: p q)
  case Nil
  then show ?case by simp (metis not_less)
next
  case (Cons r rs)
  obtain f l where r: "r = (f, l)" by (cases r)
  with Cons.prems have pf: "p \<le> f" and fl: "f \<le> l" and l: "l < length ops"
    and gap: "\<forall>i. p \<le> i \<and> i < f \<longrightarrow> is_equal_op (ops ! i)"
    and far: "rs \<noteq> [] \<longrightarrow> int l + 2 * c + 1 < int (fst (hd rs))" and rest: "ranges_from ops c (Suc l) rs"
    by simp_all
  let ?s = "trim_start c f" and ?e = "trim_stop ops c l"
  have s: "q \<le> ?s" "?s \<le> f" using Cons.prems(2,5) r by (auto simp: trim_start_def)
  have e: "l < ?e" "?e \<le> length ops" "int ?e \<le> int l + c + 1"
    using l Cons.prems(2) by (auto simp: trim_stop_def)
  have "segments_from ops ?e (map (trim_range ops c) rs)"
    by (rule Cons.IH [OF rest Cons.prems(2)]) (use e far in auto)
  moreover have "is_equal_op (ops ! i)" if "q \<le> i" "i < ?s" for i
    using that s gap Cons.prems(4) by (metis not_less order_less_le_trans)
  moreover have "trim_range ops c r = (?s, ?e)" by (simp add: r trim_range_def)
  ultimately show ?case using s e fl by simp
qed

lemma trim_is_hunk: "trim_diff_context_range ops c f l = hunk_of ops (trim_range ops c (f, l))"
  by (simp add: trim_diff_context_range_def hunk_of_def trim_range_def side_counts_length Let_def)

lemma sorted_le_last: "sorted xs \<Longrightarrow> x \<in> set xs \<Longrightarrow> x \<le> last xs" for x :: nat
  by (induction xs) (auto dest: last_in_set)

lemma changes_ranges:
  assumes ch: "changes ops = first # rest"
  shows "ranges_from ops c 0 (group_changes ops c first first [first + 1..<last (first # rest) + 1])"
proof -
  let ?z = "last (first # rest)"
  have sorted: "sorted (changes ops)" by (simp add: changes_def sorted_wrt_filter)
  have mem: "i \<in> set (changes ops) \<longleftrightarrow> i < length ops \<and> \<not> is_equal_op (ops ! i)" for i
    by (auto simp: changes_def)
  have low: "first \<le> i" if "i < length ops" "\<not> is_equal_op (ops ! i)" for i
    using sorted mem [of i] that by (auto simp: ch)
  have high: "i \<le> ?z" if "i < length ops" "\<not> is_equal_op (ops ! i)" for i
    using sorted_le_last [OF sorted, of i] mem [of i] that by (simp only: ch simp_thms)
  have z: "first \<le> ?z" "?z < length ops"
    using sorted_le_last [OF sorted, of first] mem [of ?z] last_in_set [of "first # rest"] by (simp_all only: ch list.distinct list.set_intros simp_thms)
  have r: "ranges_from ops c first (group_changes ops c first first [first + 1..<?z + 1])"
  proof (rule group_changes_ranges)
    show "\<forall>i. ?z + 1 \<le> i \<and> i < length ops \<longrightarrow> is_equal_op (ops ! i)"
      using high by (metis Suc_eq_plus1 not_less_eq_eq)
  qed (use z in auto)
  obtain l rs where g: "group_changes ops c first first [first + 1..<?z + 1] = (first, l) # rs"
    using group_changes_head by blast
  have "is_equal_op (ops ! i)" if "i < first" for i
    using low [of i] that z by (meson not_less order_less_le_trans order_less_trans)
  with r g show ?thesis by simp
qed

lemma hunks_are_segments:
  assumes "0 \<le> c"
  obtains rs where "build_diff_hunks ops c = map (hunk_of ops) rs" and "segments_from ops 0 rs"
proof (cases "changes ops")
  case Nil
  then have "segments_from ops 0 []" by (auto simp: changes_def filter_empty_conv)
  with Nil that [of "[]"] show ?thesis by (simp add: build_diff_hunks_def)
next
  case (Cons first rest)
  let ?rs = "group_changes ops c first first [first + 1..<last (first # rest) + 1]"
  have "segments_from ops 0 (map (trim_range ops c) ?rs)"
    by (rule trim_segments [OF changes_ranges [OF Cons] assms]) simp_all
  moreover have "build_diff_hunks ops c = map (hunk_of ops) (map (trim_range ops c) ?rs)"
    unfolding build_diff_hunks_def Cons by (simp add: trim_is_hunk case_prod_beta)
  ultimately show ?thesis using that by blast
qed

text \<open>
  C23: the hunks are a correct patch.  For any number of context lines, reading the hunks of the
  diff as a patch succeeds on the old file: the line numbers of every hunk header are right on
  both sides, the old lines of each hunk are found where it says, hunks neither overlap nor miss
  a change, and the outcome is the new file.
\<close>

theorem diff_hunks_patch:
  assumes "0 \<le> c"
  shows "patch a (build_diff_hunks (diff_lines a b) c) = Some b"
proof -
  let ?ops = "diff_lines a b"
  obtain rs where rs: "build_diff_hunks ?ops c = map (hunk_of ?ops) rs" "segments_from ?ops 0 rs"
    using hunks_are_segments [OF assms] by blast
  have sides: "old_side ?ops = a" "new_side ?ops = b"
    using script_sides [of a b] by (simp_all add: diff_lines_script)
  show ?thesis
    using patch_segments [OF rs(2)] by (simp add: patch_def rs(1) sides) (simp add: old_side_def new_side_def)
qed

theorem diff_hunks_patch_witness:
  "patch [''a'', ''b'', ''c''] (build_diff_hunks (diff_lines [''a'', ''b'', ''c''] [''a'', ''x'', ''c'', ''d'']) 1) =
     Some [''a'', ''x'', ''c'', ''d'']"
  by (rule diff_hunks_patch) simp

end
