(* ===== verification/Llm_Segments.thy ===== *)
theory Llm_Segments
  imports Go_Strings
begin

text \<open>
  Message segments (\<open>internal/llm/message.go\<close>, \<open>internal/llm/segment.go\<close>): the
  typed parts of a chat message and the operations that replace, prepend, append and read
  their text. Slices are values here: the source copies before it writes. The renderings that
  parse URLs (\<open>ImageReferenceText\<close>) and the regular-expression replacement are not
  modelled.
\<close>

section \<open>Data\<close>

text \<open>\<open>MessageSegmentType\<close> is a string type with three named values.\<close>

datatype segment_type = SegmentText | SegmentImage | SegmentFile | SegmentOther string

record message_segment =
  seg_type :: segment_type
  seg_text :: string
  seg_url :: string
  seg_media :: string
  seg_mime :: string
  seg_name :: string

datatype message_role = RoleSystem | RoleUser | RoleAssistant | RoleTool | RoleOther string

record llm_message =
  msg_role :: message_role
  msg_segments :: "message_segment list"
  msg_name :: string
  msg_tool_call_id :: string

definition text_segment :: "string \<Rightarrow> message_segment" where
  "text_segment t = \<lparr>seg_type = SegmentText, seg_text = t, seg_url = [], seg_media = [],
     seg_mime = [], seg_name = []\<rparr>"

definition is_text :: "message_segment \<Rightarrow> bool" where
  "is_text s \<longleftrightarrow> seg_type s = SegmentText"

section \<open>Operations\<close>

definition text_segments :: "string \<Rightarrow> message_segment list" where
  "text_segments t = (if t = [] then [] else [text_segment t])"

text \<open>The loop of \<open>SetSegmentText\<close>, with its \<open>inserted\<close> flag.\<close>

fun set_text_loop :: "bool \<Rightarrow> string \<Rightarrow> message_segment list \<Rightarrow> message_segment list \<times> bool" where
  "set_text_loop inserted t [] = ([], inserted)"
| "set_text_loop inserted t (s # ss) =
     (if \<not> is_text s then (let (out, i) = set_text_loop inserted t ss in (s # out, i))
      else if \<not> inserted \<and> t \<noteq> []
        then (let (out, i) = set_text_loop True t ss in (s\<lparr>seg_text := t\<rparr> # out, i))
      else set_text_loop inserted t ss)"

definition set_segment_text :: "message_segment list \<Rightarrow> string \<Rightarrow> message_segment list" where
  "set_segment_text segs t =
     (let (out, inserted) = set_text_loop False t segs
      in if \<not> inserted \<and> t \<noteq> [] then text_segment t # out else out)"

definition raw_text :: "message_segment list \<Rightarrow> string" where
  "raw_text segs = concat (map seg_text (filter is_text segs))"

definition segments_text_only :: "message_segment list \<Rightarrow> string" where
  "segments_text_only segs = trim_space (raw_text segs)"

fun update_first_text :: "(string \<Rightarrow> string) \<Rightarrow> message_segment list \<Rightarrow> message_segment list option" where
  "update_first_text f [] = None"
| "update_first_text f (s # ss) =
     (if is_text s then Some (s\<lparr>seg_text := f (seg_text s)\<rparr> # ss)
      else map_option (\<lambda>out. s # out) (update_first_text f ss))"

definition prepend_segment_text :: "message_segment list \<Rightarrow> string \<Rightarrow> message_segment list" where
  "prepend_segment_text segs p =
     (if p = [] then segs
      else case update_first_text (\<lambda>t. p @ t) segs of
          Some out \<Rightarrow> out
        | None \<Rightarrow> text_segment p # segs)"

definition append_segment_text :: "message_segment list \<Rightarrow> string \<Rightarrow> message_segment list" where
  "append_segment_text segs p =
     (if p = [] then segs
      else case update_first_text (\<lambda>t. t @ p) (rev segs) of
          Some out \<Rightarrow> rev out
        | None \<Rightarrow> segs @ [text_segment p])"

definition has_image_segment :: "message_segment list \<Rightarrow> bool" where
  "has_image_segment segs = list_ex (\<lambda>s. seg_type s = SegmentImage) segs"

fun update_first_user :: "message_segment list \<Rightarrow> llm_message list \<Rightarrow> llm_message list" where
  "update_first_user segs [] = []"
| "update_first_user segs (m # ms) =
     (if msg_role m = RoleUser then m\<lparr>msg_segments := segs\<rparr> # ms
      else m # update_first_user segs ms)"

definition set_latest_user_segments :: "llm_message list \<Rightarrow> message_segment list \<Rightarrow> llm_message list" where
  "set_latest_user_segments msgs segs = rev (update_first_user segs (rev msgs))"

fun first_non_empty :: "string list \<Rightarrow> string" where
  "first_non_empty [] = []"
| "first_non_empty (v # vs) = (if trim_space v \<noteq> [] then trim_space v else first_non_empty vs)"

section \<open>Lemmas\<close>

lemma is_text_text_segment [simp]: "is_text (text_segment t)" "seg_text (text_segment t) = t"
  by (simp_all add: is_text_def text_segment_def)

lemma is_text_update [simp]: "is_text (s\<lparr>seg_text := t\<rparr>) = is_text s"
  by (simp add: is_text_def)

lemma raw_text_simps [simp]:
  "raw_text [] = []"
  "raw_text (s # ss) = (if is_text s then seg_text s @ raw_text ss else raw_text ss)"
  "raw_text (ss @ ts) = raw_text ss @ raw_text ts"
  by (simp_all add: raw_text_def)

lemma raw_text_text_segments [simp]: "raw_text (text_segments t) = t"
  by (simp add: text_segments_def)

lemma set_text_loop_True:
  "set_text_loop True t ss = (filter (\<lambda>s. \<not> is_text s) ss, True)"
  by (induction ss) auto

lemma set_text_loop_False:
  "set_text_loop False t ss = (out, i) \<Longrightarrow>
     filter (\<lambda>s. \<not> is_text s) out = filter (\<lambda>s. \<not> is_text s) ss \<and>
     raw_text out = (if i then t else []) \<and> (i \<longrightarrow> t \<noteq> [])"
proof (induction ss arbitrary: out i)
  case (Cons s ss)
  have tail: "raw_text (filter (\<lambda>s. \<not> is_text s) xs) = []" for xs
    by (induction xs) auto
  show ?case
    using Cons.prems Cons.IH
    by (cases "is_text s"; cases "t = []")
      (auto simp: set_text_loop_True tail split: prod.splits)
qed simp

lemma update_first_text_filter:
  "update_first_text f ss = Some out \<Longrightarrow>
     filter (\<lambda>s. \<not> is_text s) out = filter (\<lambda>s. \<not> is_text s) ss"
  by (induction ss arbitrary: out) (auto split: if_splits)

lemma update_first_text_None: "update_first_text f ss = None \<Longrightarrow> raw_text ss = []"
  by (induction ss) (auto split: if_splits)

lemma update_first_text_prepend:
  "update_first_text (\<lambda>t. p @ t) ss = Some out \<Longrightarrow> raw_text out = p @ raw_text ss"
  by (induction ss arbitrary: out) (auto split: if_splits)

lemma raw_text_rev_update:
  "update_first_text (\<lambda>t. t @ p) ss = Some out \<Longrightarrow> raw_text (rev out) = raw_text (rev ss) @ p"
  by (induction ss arbitrary: out) (auto split: if_splits)

lemma update_first_text_length: "update_first_text f ss = Some out \<Longrightarrow> length out = length ss"
  by (induction ss arbitrary: out) (auto split: if_splits)

lemma raw_text_append: "raw_text (append_segment_text segs p) = raw_text segs @ p"
  by (auto simp: append_segment_text_def split: option.splits
      dest: raw_text_rev_update update_first_text_None)

lemma raw_text_prepend: "raw_text (prepend_segment_text segs p) = p @ raw_text segs"
  by (auto simp: prepend_segment_text_def split: option.splits
      dest: update_first_text_prepend update_first_text_None)

lemma filter_append_segment_text:
  "filter (\<lambda>s. \<not> is_text s) (append_segment_text segs p) = filter (\<lambda>s. \<not> is_text s) segs"
proof (cases "update_first_text (\<lambda>t. t @ p) (rev segs)")
  case (Some out)
  then have "filter (\<lambda>s. \<not> is_text s) out = filter (\<lambda>s. \<not> is_text s) (rev segs)"
    by (rule update_first_text_filter)
  then show ?thesis by (simp add: append_segment_text_def Some flip: rev_filter)
qed (simp add: append_segment_text_def)

lemma filter_prepend_segment_text:
  "filter (\<lambda>s. \<not> is_text s) (prepend_segment_text segs p) = filter (\<lambda>s. \<not> is_text s) segs"
  by (auto simp: prepend_segment_text_def split: option.splits dest: update_first_text_filter)

lemma set_segment_text_spec:
  "raw_text (set_segment_text segs t) = t \<and>
   filter (\<lambda>s. \<not> is_text s) (set_segment_text segs t) = filter (\<lambda>s. \<not> is_text s) segs"
  by (auto simp: set_segment_text_def split: prod.splits dest!: set_text_loop_False)

end
