(* ===== verification/Turn_Input.thy ===== *)
theory Turn_Input
  imports Llm_Segments
begin

text \<open>
  The user inputs a running turn collects (\<open>internal/turn/lifecycle/pending.go\<close> and the
  \<open>Input\<close> type of \<open>manager.go\<close>): normalisation when an input arrives and the
  merge of queued inputs into one numbered input.  The heading is the UTF-8 text of the
  source, byte by byte.
\<close>

record turn_input =
  in_rules :: bool
  in_text :: string
  in_platform :: string
  in_segments :: "message_segment list"

definition empty_input :: turn_input where
  "empty_input = \<lparr>in_rules = False, in_text = [], in_platform = [], in_segments = []\<rparr>"

definition has_content :: "turn_input \<Rightarrow> bool" where
  "has_content i \<longleftrightarrow> in_text i \<noteq> [] \<or> in_segments i \<noteq> []"

definition merge_heading :: string where
  "merge_heading =
     [CHR 0xE8, CHR 0xA1, CHR 0xA5, CHR 0xE5, CHR 0x85, CHR 0x85,
      CHR 0xE4, CHR 0xBF, CHR 0xA1, CHR 0xE6, CHR 0x81, CHR 0xAF,
      CHR 0xEF, CHR 0xBC, CHR 0x9A]"

definition item_label :: "nat \<Rightarrow> string" where
  "item_label n = CHR 0x0A # nat_str n @ ''. ''"

text \<open>\<open>mergeTextInputs\<close>: blank texts are dropped, a single one is kept as it is.\<close>

fun numbered_texts :: "nat \<Rightarrow> string list \<Rightarrow> string" where
  "numbered_texts n [] = []"
| "numbered_texts n (t # ts) = item_label n @ t @ numbered_texts (Suc n) ts"

definition merge_text_inputs :: "string list \<Rightarrow> string" where
  "merge_text_inputs inputs =
     (case filter (\<lambda>t. t \<noteq> []) (map trim_space inputs) of
        [] \<Rightarrow> []
      | [t] \<Rightarrow> t
      | ts \<Rightarrow> merge_heading @ numbered_texts 1 ts)"

text \<open>\<open>normalizeInput\<close>.\<close>

definition normalize_input :: "turn_input \<Rightarrow> turn_input" where
  "normalize_input i =
     (let t = trim_space (in_text i);
          segs = (if in_segments i = [] then text_segments t else in_segments i);
          t' = (if t = [] then trim_space (segments_text_only segs) else t)
      in i\<lparr>in_text := t', in_platform := trim_space (in_platform i), in_segments := segs\<rparr>)"

text \<open>The loop of \<open>mergeInputs\<close> over the inputs with content.\<close>

fun merge_segments :: "nat \<Rightarrow> message_segment list \<Rightarrow> turn_input list \<Rightarrow> message_segment list" where
  "merge_segments n segs [] = segs"
| "merge_segments n segs (i # is) =
     merge_segments (Suc n) (append_segment_text segs (item_label n) @ in_segments i) is"

definition merge_inputs :: "turn_input list \<Rightarrow> turn_input" where
  "merge_inputs inputs =
     (case filter has_content inputs of
        [] \<Rightarrow> empty_input
      | [i] \<Rightarrow> i
      | clean \<Rightarrow>
          (let segs = merge_segments 1 (text_segments merge_heading) clean in
           \<lparr>in_rules = list_ex in_rules clean,
            in_text = segments_text_only segs,
            in_platform = merge_text_inputs (map in_platform clean),
            in_segments = segs\<rparr>))"

text \<open>\<open>appendPending\<close>: the queue after the call and whether the input was taken.\<close>

definition append_pending :: "turn_input list \<Rightarrow> turn_input \<Rightarrow> turn_input list \<times> bool" where
  "append_pending pending i =
     (let j = normalize_input i in
      if in_text j = [] \<and> in_segments j = [] then (pending, False) else (pending @ [j], True))"

section \<open>Lemmas\<close>

definition non_text :: "message_segment list \<Rightarrow> message_segment list" where
  "non_text segs = filter (\<lambda>s. \<not> is_text s) segs"

lemma non_text_simps [simp]:
  "non_text [] = []"
  "non_text (xs @ ys) = non_text xs @ non_text ys"
  "non_text (text_segments t) = []"
  "non_text (append_segment_text segs p) = non_text segs"
  by (simp_all add: non_text_def text_segments_def filter_append_segment_text)

lemma merge_segments_raw:
  "raw_text (merge_segments n segs is) =
     raw_text segs @ concat (map (\<lambda>(k, i). item_label k @ raw_text (in_segments i))
       (List.enumerate n is))"
  by (induction n segs "is" rule: merge_segments.induct) (simp_all add: raw_text_append)

lemma merge_segments_non_text:
  "non_text (merge_segments n segs is) =
     non_text segs @ concat (map (\<lambda>i. non_text (in_segments i)) is)"
  by (induction n segs "is" rule: merge_segments.induct) simp_all

lemma merge_inputs_many:
  assumes "1 < length (filter has_content inputs)"
  shows "merge_inputs inputs =
     (let clean = filter has_content inputs; segs = merge_segments 1 (text_segments merge_heading) clean in
      \<lparr>in_rules = list_ex in_rules clean, in_text = segments_text_only segs,
       in_platform = merge_text_inputs (map in_platform clean), in_segments = segs\<rparr>)"
  using assms unfolding merge_inputs_def Let_def by (auto split: list.split)

lemma merge_inputs_none: "filter has_content inputs = [] \<Longrightarrow> merge_inputs inputs = empty_input"
  by (simp add: merge_inputs_def)

lemma merge_inputs_one: "filter has_content inputs = [i] \<Longrightarrow> merge_inputs inputs = i"
  by (simp add: merge_inputs_def)

lemma concat_no_content: "filter has_content inputs = [] \<Longrightarrow>
    concat (map (\<lambda>i. non_text (in_segments i)) inputs) = []"
  by (induction inputs) (auto simp: has_content_def split: if_splits)

lemma concat_clean:
  "concat (map (\<lambda>i. non_text (in_segments i)) (filter has_content inputs)) =
     concat (map (\<lambda>i. non_text (in_segments i)) inputs)"
  by (induction inputs) (auto simp: has_content_def)

lemma normalize_input_idem: "normalize_input (normalize_input i) = normalize_input i"
  by (auto simp: normalize_input_def Let_def segments_text_only_def text_segments_def)

text \<open>
  merging queued inputs loses nothing.  The attachments (images, files) of all inputs
  survive, in their order; with two or more inputs that have content the merged text is the
  heading followed by every input's text under its number, in the order the inputs arrived.
\<close>

lemma merge_inputs_keeps_all:
  "non_text (in_segments (merge_inputs inputs)) =
     concat (map (\<lambda>i. non_text (in_segments i)) inputs) \<and>
   (length (filter has_content inputs) > 1 \<longrightarrow>
     raw_text (in_segments (merge_inputs inputs)) =
       merge_heading @ concat (map (\<lambda>(k, i). item_label k @ raw_text (in_segments i))
         (List.enumerate 1 (filter has_content inputs))))"
proof -
  consider (none) "filter has_content inputs = []"
    | (one) i where "filter has_content inputs = [i]"
    | (many) "1 < length (filter has_content inputs)"
    by (cases "filter has_content inputs" rule: remdups_adj.cases) auto
  then show ?thesis
  proof cases
    case none
    then show ?thesis by (simp add: merge_inputs_none concat_no_content empty_input_def)
  next
    case one
    then show ?thesis using concat_clean [of inputs] by (simp add: merge_inputs_one)
  next
    case many
    then show ?thesis
      by (simp add: merge_inputs_many Let_def merge_segments_non_text merge_segments_raw concat_clean)
  qed
qed

text \<open>An input with one image and a text, and one with only a text.\<close>

definition image_input :: turn_input where
  "image_input = \<lparr>in_rules = False, in_text = ''a'', in_platform = [],
     in_segments = [text_segment ''a'', (text_segment [])\<lparr>seg_type := SegmentImage\<rparr>]\<rparr>"

definition text_input :: "string \<Rightarrow> turn_input" where
  "text_input t = \<lparr>in_rules = False, in_text = t, in_platform = [], in_segments = text_segments t\<rparr>"

lemma merge_inputs_keeps_all_witness:
  "raw_text (in_segments (merge_inputs [image_input, text_input ''b''])) =
     merge_heading @ item_label 1 @ ''a'' @ item_label 2 @ ''b''"
proof -
  have n: "length (filter has_content [image_input, text_input ''b'']) > 1" by code_simp
  have r: "concat (map (\<lambda>(k, i). item_label k @ raw_text (in_segments i))
         (List.enumerate 1 (filter has_content [image_input, text_input ''b'']))) =
       item_label 1 @ ''a'' @ item_label 2 @ ''b''" by code_simp
  show ?thesis
    using merge_inputs_keeps_all [of "[image_input, text_input ''b'']"] n r by metis
qed

text \<open>
  The label of an item goes to the last text segment so far, which need not be the last
  segment: the image of the first input ends up behind the label of the second.
\<close>

lemma merge_label_before_image:
  "map seg_text (filter is_text (takeWhile is_text
     (in_segments (merge_inputs [image_input, text_input ''b''])))) =
     [merge_heading @ item_label 1, ''a'' @ item_label 2]"
  by code_simp

end
