(* ===== verification/Turn_Execution.thy ===== *)
theory Turn_Execution
  imports Elbot_Prelude
begin

text \<open>
  The logical execution that spans the attempts of one turn (\<open>internal/turn/execution.go\<close>):
  adoption by a foreground, the result, and the single completion that closes the
  \<open>done\<close> channel.  A request context and a session row are only stored and handed back by
  this code; they are named by numbers.  \<open>close\<close> of a closed channel panics in Go, which the
  model records.
\<close>

section \<open>Contexts\<close>

datatype context_handle = Ctx nat | WithoutCancel context_handle

section \<open>State\<close>

record execution_result =
  er_run_id :: string
  er_session_id :: string
  er_message_id :: string
  er_text :: string
  er_taken_over :: bool
  er_outcome :: string
  er_err :: "go_error option"

record execution =
  ex_id :: string
  ex_foreground :: "context_handle option"
  ex_session :: nat
  ex_result :: execution_result
  ex_done_closed :: bool
  ex_finished :: bool
  ex_panicked :: bool

definition new_execution :: "string \<Rightarrow> execution" where
  "new_execution i =
     \<lparr>ex_id = i, ex_foreground = None, ex_session = 0,
      ex_result = \<lparr>er_run_id = i, er_session_id = [], er_message_id = [], er_text = [],
        er_taken_over = False, er_outcome = [], er_err = None\<rparr>,
      ex_done_closed = False, ex_finished = False, ex_panicked = False\<rparr>"

section \<open>Operations\<close>

definition adopt :: "context_handle \<Rightarrow> nat \<Rightarrow> execution \<Rightarrow> execution" where
  "adopt ctx row e =
     e\<lparr>ex_foreground := Some (WithoutCancel ctx), ex_session := row,
       ex_result := (ex_result e)\<lparr>er_taken_over := True\<rparr>\<rparr>"

definition foreground_state :: "execution \<Rightarrow> context_handle option \<times> nat" where
  "foreground_state e = (ex_foreground e, ex_session e)"

definition set_result :: "string \<Rightarrow> string \<Rightarrow> string \<Rightarrow> execution \<Rightarrow> execution" where
  "set_result session message t e =
     (if ex_finished e then e
      else e\<lparr>ex_result := (ex_result e)\<lparr>er_session_id := session, er_message_id := message,
             er_text := t\<rparr>\<rparr>)"

definition finish_outcome :: "go_error option \<Rightarrow> string" where
  "finish_outcome err =
     (case err of
        None \<Rightarrow> ''completed''
      | Some x \<Rightarrow> if errors_is x ErrCanceled \<or> errors_is x ErrDeadlineExceeded
                 then ''cancelled'' else ''failed'')"

definition close_done :: "execution \<Rightarrow> execution" where
  "close_done e = (if ex_done_closed e then e\<lparr>ex_panicked := True\<rparr> else e\<lparr>ex_done_closed := True\<rparr>)"

definition finish :: "go_error option \<Rightarrow> execution \<Rightarrow> execution" where
  "finish err e =
     (if ex_finished e then e
      else close_done (e\<lparr>ex_finished := True,
             ex_result := (ex_result e)\<lparr>er_err := err, er_outcome := finish_outcome err\<rparr>\<rparr>))"

text \<open>
  \<open>Wait\<close>: the select returns by the \<open>done\<close> channel once it is closed, or by the end of
  the waiting context, which finishes the execution; with neither it blocks.
\<close>

datatype wait_wakeup = DoneClosed | ContextEnded go_error

definition wait_execution :: "wait_wakeup \<Rightarrow> execution \<Rightarrow> execution \<times> execution_result option" where
  "wait_execution w e =
     (case w of
        DoneClosed \<Rightarrow> (e, if ex_done_closed e then Some (ex_result e) else None)
      | ContextEnded err \<Rightarrow> (finish (Some err) e, Some (ex_result (finish (Some err) e))))"

datatype execution_call =
    CallAdopt context_handle nat
  | CallSetResult string string string
  | CallFinish "go_error option"
  | CallWait wait_wakeup

fun execution_step :: "execution \<Rightarrow> execution_call \<Rightarrow> execution" where
  "execution_step e (CallAdopt ctx row) = adopt ctx row e"
| "execution_step e (CallSetResult s m t) = set_result s m t e"
| "execution_step e (CallFinish err) = finish err e"
| "execution_step e (CallWait w) = fst (wait_execution w e)"

lemmas execution_op_defs = adopt_def set_result_def finish_def close_done_def wait_execution_def
declare execution_op_defs [op_defs]

section \<open>Laws\<close>

definition execution_inv :: "execution \<Rightarrow> bool" where
  "execution_inv e \<longleftrightarrow> \<not> ex_panicked e \<and> (ex_done_closed e \<longleftrightarrow> ex_finished e) \<and>
     (ex_finished e \<longleftrightarrow> er_outcome (ex_result e) \<noteq> []) \<and>
     (er_taken_over (ex_result e) \<longleftrightarrow> ex_foreground e \<noteq> None)"

lemma finish_outcome_set: "finish_outcome err \<noteq> []"
  by (simp add: finish_outcome_def split: option.split)

lemma execution_step_inv: "execution_inv e \<Longrightarrow> execution_inv (execution_step e c)"
  by (cases c) (auto simp: op_defs execution_inv_def finish_outcome_set split: wait_wakeup.split)

lemma new_execution_inv: "execution_inv (new_execution i)"
  by (simp add: execution_inv_def new_execution_def)

interpretation execution_machine: guarded_machine "new_execution i" execution_step execution_inv
  for i
  by unfold_locales (rule new_execution_inv, rule execution_step_inv)

text \<open>What a caller of \<open>Wait\<close> reads of a finished execution, the adoption flag apart.\<close>

definition final_facts :: "execution \<Rightarrow> bool \<times> string \<times> string \<times> string \<times> string \<times> go_error option" where
  "final_facts e = (ex_finished e, er_session_id (ex_result e), er_message_id (ex_result e),
     er_text (ex_result e), er_outcome (ex_result e), er_err (ex_result e))"

lemma execution_step_final:
  "ex_finished e \<Longrightarrow> final_facts (execution_step e c) = final_facts e"
  by (cases c) (auto simp: op_defs final_facts_def split: wait_wakeup.split)

lemma final_facts_finished: "final_facts a = final_facts b \<Longrightarrow> ex_finished a = ex_finished b"
  by (simp add: final_facts_def)

interpretation execution_frozen: one_way_flag execution_step
  "\<lambda>e. ex_finished e \<and> final_facts e = f" for f
  by unfold_locales (metis execution_step_final final_facts_finished)

text \<open>
  an execution completes once.  Over any sequence of calls on a new execution, closing
  \<open>done\<close> never panics, the channel is closed exactly when the execution is finished and the
  outcome is set exactly then; and once it is finished, no later call changes the recorded
  session, message, text, outcome or error.
\<close>

lemma execution_finishes_once:
  "execution_inv (foldl execution_step (new_execution i) (cs @ ds)) \<and>
   (ex_finished (foldl execution_step (new_execution i) cs) \<longrightarrow>
     final_facts (foldl execution_step (new_execution i) (cs @ ds)) =
     final_facts (foldl execution_step (new_execution i) cs))"
  using execution_machine.reachable_inv [of i "cs @ ds"]
    execution_frozen.raised_mono [where f = "final_facts (foldl execution_step (new_execution i) cs)"
      and s = "new_execution i" and cs = cs and ds = ds]
  by blast

lemma execution_finishes_once_witness:
  "final_facts (foldl execution_step (new_execution ''run_1'')
      ([CallFinish (Some (ErrWrap ''stop'' ErrCanceled))] @ [CallSetResult ''s'' ''m'' ''t'', CallFinish None])) =
   (True, [], [], [], ''cancelled'', Some (ErrWrap ''stop'' ErrCanceled))"
proof -
  have f: "final_facts (foldl execution_step (new_execution ''run_1'')
      [CallFinish (Some (ErrWrap ''stop'' ErrCanceled))]) =
    (True, [], [], [], ''cancelled'', Some (ErrWrap ''stop'' ErrCanceled))" by code_simp
  then have "ex_finished (foldl execution_step (new_execution ''run_1'')
      [CallFinish (Some (ErrWrap ''stop'' ErrCanceled))])" by (simp add: final_facts_def)
  with f show ?thesis
    using execution_finishes_once [of "''run_1''" "[CallFinish (Some (ErrWrap ''stop'' ErrCanceled))]"
      "[CallSetResult ''s'' ''m'' ''t'', CallFinish None]"] by metis
qed

end
