(* ===== verification/Go_Order.thy ===== *)
theory Go_Order
  imports Elbot_Prelude
begin

text \<open>
  Go's orderings: comparison functions with results below, at and above zero (\<open>cmp.Compare\<close>,
  \<open>slices.Compare\<close>), and \<open><\<close> on strings.  The interface \<open>comparison\<close> states what a
  three-way comparison promises; sorting and lock ordering rely on it alone.
\<close>

section \<open>Interface\<close>

locale comparison =
  fixes cmp :: "'a \<Rightarrow> 'a \<Rightarrow> int"
  assumes cmp_eq: "cmp a b = 0 \<longleftrightarrow> a = b"
    and cmp_swap: "cmp b a = - cmp a b"
    and cmp_trans: "cmp a b < 0 \<Longrightarrow> cmp b c < 0 \<Longrightarrow> cmp a c < 0"
begin

lemma cmp_refl [simp]: "cmp a a = 0"
  by (simp add: cmp_eq)

lemma cmp_cases: "cmp a b < 0 \<or> a = b \<or> cmp b a < 0"
  using cmp_eq [of a b] cmp_swap [of b a] by linarith

lemma cmp_asym: "cmp a b < 0 \<Longrightarrow> \<not> cmp b a < 0"
  using cmp_swap [of b a] by linarith

lemma cmp_not_less: "\<not> cmp a b < 0 \<Longrightarrow> a \<noteq> b \<Longrightarrow> cmp b a < 0"
  using cmp_cases by blast

lemma cmp_le_trans: "\<not> cmp b a < 0 \<Longrightarrow> \<not> cmp c b < 0 \<Longrightarrow> \<not> cmp c a < 0"
  using cmp_trans cmp_cases by metis

lemma sorted_by_cmp: "sorted_wrt (\<lambda>a b. \<not> cmp b a < 0) (stable_sort (\<lambda>a b. cmp a b < 0) xs)"
  by (rule sorted_stable_sort) (erule (1) cmp_le_trans, erule cmp_asym)

text \<open>A nonempty finite set of keys has a greatest one.\<close>

lemma greatest_key: "finite A \<Longrightarrow> A \<noteq> {} \<Longrightarrow> \<exists>k \<in> A. \<forall>k' \<in> A. \<not> cmp k k' < 0"
proof (induction rule: finite_ne_induct)
  case (insert x A)
  then obtain k where k: "k \<in> A" "\<forall>k' \<in> A. \<not> cmp k k' < 0" by blast
  show ?case
  proof (cases "cmp k x < 0")
    case True
    then have "\<forall>k' \<in> insert x A. \<not> cmp x k' < 0"
      using k cmp_trans cmp_asym by (metis insert_iff cmp_refl less_irrefl)
    then show ?thesis by blast
  next
    case False
    with k show ?thesis by blast
  qed
qed simp

end

section \<open>Integers, strings and lists\<close>

definition compare_int :: "int \<Rightarrow> int \<Rightarrow> int" where
  "compare_int a b = (if a < b then -1 else if b < a then 1 else 0)"

fun bytes_less :: "string \<Rightarrow> string \<Rightarrow> bool" where
  "bytes_less s [] = False"
| "bytes_less [] (b # t) = True"
| "bytes_less (a # s) (b # t) =
     (if a = b then bytes_less s t else (of_char a :: nat) < of_char b)"

definition compare_string :: "string \<Rightarrow> string \<Rightarrow> int" where
  "compare_string a b = (if bytes_less a b then -1 else if bytes_less b a then 1 else 0)"

fun compare_strings :: "string list \<Rightarrow> string list \<Rightarrow> int" where
  "compare_strings [] [] = 0"
| "compare_strings [] (b # bs) = -1"
| "compare_strings (a # as) [] = 1"
| "compare_strings (a # as) (b # bs) =
     (if compare_string a b \<noteq> 0 then compare_string a b else compare_strings as bs)"

lemma bytes_less_irrefl [simp]: "\<not> bytes_less s s"
  by (induction s) auto

lemma of_char_eq: "(of_char a :: nat) = of_char b \<longleftrightarrow> a = b"
  by (simp add: of_char_eq_iff)

lemma bytes_less_total: "bytes_less s t \<or> s = t \<or> bytes_less t s"
proof (induction s t rule: bytes_less.induct)
  case (3 a s b t)
  then show ?case using of_char_eq [of a b] linorder_neqE_nat [of "of_char a" "of_char b"] by auto
qed (auto simp: neq_Nil_conv, case_tac s, auto)

lemma bytes_less_trans: "bytes_less s t \<Longrightarrow> bytes_less t u \<Longrightarrow> bytes_less s u"
proof (induction s t arbitrary: u rule: bytes_less.induct)
  case (2 b t)
  then show ?case by (cases u) auto
next
  case (3 a s b t)
  then show ?case by (cases u) (auto split: if_splits)
qed simp

lemma bytes_less_asym: "bytes_less s t \<Longrightarrow> \<not> bytes_less t s"
  using bytes_less_trans [of s t s] by auto

interpretation int_order: comparison compare_int
  by unfold_locales (auto simp: compare_int_def split: if_splits)

lemma compare_string_less: "compare_string a b < 0 \<longleftrightarrow> bytes_less a b"
  by (simp add: compare_string_def)

interpretation string_order: comparison compare_string
proof
  fix a b c :: string
  show "compare_string a b = 0 \<longleftrightarrow> a = b"
    using bytes_less_total [of a b] by (auto simp: compare_string_def)
  show "compare_string b a = - compare_string a b"
    using bytes_less_asym by (auto simp: compare_string_def)
  show "compare_string a b < 0 \<Longrightarrow> compare_string b c < 0 \<Longrightarrow> compare_string a c < 0"
    unfolding compare_string_less by (rule bytes_less_trans)
qed

interpretation strings_order: comparison compare_strings
proof
  fix a b c :: "string list"
  show "compare_strings a b = 0 \<longleftrightarrow> a = b"
    by (induction a b rule: compare_strings.induct) (auto simp: string_order.cmp_eq)
  show "compare_strings b a = - compare_strings a b"
  proof (induction a b rule: compare_strings.induct)
    case (4 a as b bs)
    then show ?case by (simp add: string_order.cmp_swap [of a b])
  qed auto
  show "compare_strings a b < 0 \<Longrightarrow> compare_strings b c < 0 \<Longrightarrow> compare_strings a c < 0"
  proof (induction a b arbitrary: c rule: compare_strings.induct)
    case (2 b bs)
    then show ?case by (cases c) auto
  next
    case (4 a as b bs)
    then show ?case
      using string_order.cmp_trans [of a b "hd c"]
      by (cases c) (auto simp: string_order.cmp_eq split: if_splits)
  qed auto
qed

end
