(* ===== verification/Turn_Lifecycle.thy ===== *)
theory Turn_Lifecycle
  imports Turn_Input Turn_Execution Go_Order "HOL-Library.AList"
begin

text \<open>
  The turn supervisor's only state table (\<open>internal/turn/lifecycle/manager.go, attempt.go,
  confirmation.go, pending.go\<close>), the handle of one risk confirmation
  (\<open>internal/turn/share/contracts.go\<close>) and the loop that waits on it
  (\<open>internal/turn/confirmation/risk.go\<close>).

  The Go state is a map of pointers under one mutex, so a method is a function from state to
  state and result.  A turn object has an identity \<open>ts_id\<close>: the closures of a risk wait
  compare the pointer in the map with the one they captured, and only then touch it.  Channels
  are numbers drawn from the same counter as the identities; the manager records the closed
  ones in the order they are closed, the buffered risk decision and the pending refresh of a
  channel, and a flag for a panic (closing a closed or nil channel, reading a nil
  confirmation).  Executions are the objects of theory \<open>Turn_Execution\<close>, kept by number, as
  \<open>turn/wiring.go\<close> hands them to the manager.
\<close>

section \<open>Data\<close>

datatype risk_action =
    RiskConfirm | RiskConfirmTool | RiskConfirmAll | RiskReject | RiskActionOther string

record risk_decision =
  rd_action :: risk_action
  rd_extra :: string
  rd_reason :: string

definition no_decision :: risk_decision where
  "no_decision = \<lparr>rd_action = RiskActionOther [], rd_extra = [], rd_reason = []\<rparr>"

datatype risk_outcome = RiskAnswered | RiskCanceled | RiskExpired | RiskStale

record risk_result =
  rr_decision :: risk_decision
  rr_outcome :: risk_outcome
  rr_err :: "go_error option"

definition risk_ended :: "risk_outcome \<Rightarrow> go_error option \<Rightarrow> risk_result" where
  "risk_ended out err = \<lparr>rr_decision = no_decision, rr_outcome = out, rr_err = err\<rparr>"

record risk_confirmation =
  rc_tool :: string
  rc_arguments :: string
  rc_risk :: string
  rc_detail :: string

datatype turn_phase =
  PhaseIdle | PhaseLLM | PhaseTool | PhaseAwaitRiskConfirm | PhaseAwaitAppendConfirm
  | PhaseCompact | PhaseStopping

record turn_state =
  ts_id :: nat
  ts_execution :: "nat option"
  ts_compact_ready :: bool
  ts_reserved :: bool
  ts_attempt :: string
  ts_phase :: turn_phase
  ts_input :: turn_input
  ts_pending :: "turn_input list"
  ts_confirm :: "risk_confirmation option"
  ts_response :: "nat option"
  ts_refresh :: "nat option"
  ts_risk_done :: "nat option"
  ts_tools :: "string \<Rightarrow> nat"
  ts_attempt_done :: "nat option"

record turn_manager =
  tm_turns :: "(string \<times> turn_state) list"
  tm_next :: nat
  tm_closed :: "nat list"
  tm_responses :: "nat \<Rightarrow> risk_decision option"
  tm_refreshes :: "nat \<Rightarrow> bool"
  tm_executions :: "nat \<Rightarrow> execution option"
  tm_panicked :: bool

definition new_turn_manager :: turn_manager where
  "new_turn_manager = \<lparr>tm_turns = [], tm_next = 0, tm_closed = [], tm_responses = (\<lambda>_. None),
     tm_refreshes = (\<lambda>_. False), tm_executions = (\<lambda>_. None), tm_panicked = False\<rparr>"

record turn_snapshot =
  sn_session :: string
  sn_phase :: turn_phase
  sn_pending :: nat
  sn_tools :: "string \<Rightarrow> nat"
  sn_attempt_done :: "nat option"
  sn_execution :: "nat option"
  sn_attempt :: string

section \<open>The table and the channels\<close>

definition turn_of :: "turn_manager \<Rightarrow> string \<Rightarrow> turn_state option" where
  "turn_of m s = map_of (tm_turns m) s"

definition put_turn :: "string \<Rightarrow> turn_state \<Rightarrow> turn_manager \<Rightarrow> turn_manager" where
  "put_turn s t m = m\<lparr>tm_turns := AList.update s t (tm_turns m)\<rparr>"

definition delete_turn :: "string \<Rightarrow> turn_manager \<Rightarrow> turn_manager" where
  "delete_turn s m = m\<lparr>tm_turns := AList.delete s (tm_turns m)\<rparr>"

definition matching_turn :: "turn_manager \<Rightarrow> string \<Rightarrow> string \<Rightarrow> turn_state option" where
  "matching_turn m s attempt =
     (case turn_of m s of
        Some t \<Rightarrow> if ts_attempt t = attempt then Some t else None
      | None \<Rightarrow> None)"

definition close_chan :: "nat option \<Rightarrow> turn_manager \<Rightarrow> turn_manager" where
  "close_chan c m =
     (case c of
        None \<Rightarrow> m\<lparr>tm_panicked := True\<rparr>
      | Some d \<Rightarrow> if d \<in> set (tm_closed m) then m\<lparr>tm_panicked := True\<rparr>
                 else m\<lparr>tm_closed := d # tm_closed m\<rparr>)"

definition finish_execution :: "nat \<Rightarrow> go_error option \<Rightarrow> turn_manager \<Rightarrow> turn_manager" where
  "finish_execution e err m = m\<lparr>tm_executions :=
     (tm_executions m)(e := map_option (finish err) (tm_executions m e))\<rparr>"

text \<open>A new turn object: fresh identity \<open>tm_next\<close>, and a done channel for an attempt.\<close>

definition make_turn ::
  "turn_manager \<Rightarrow> turn_phase \<Rightarrow> string \<Rightarrow> nat option \<Rightarrow> turn_input \<Rightarrow> bool \<Rightarrow> bool \<Rightarrow> bool \<Rightarrow> turn_state" where
  "make_turn m ph attempt e i reserved ready with_done =
     \<lparr>ts_id = tm_next m, ts_execution = e, ts_compact_ready = ready, ts_reserved = reserved,
      ts_attempt = attempt, ts_phase = ph, ts_input = i, ts_pending = [], ts_confirm = None,
      ts_response = None, ts_refresh = None, ts_risk_done = None, ts_tools = (\<lambda>_. 0),
      ts_attempt_done = (if with_done then Some (tm_next m + 1) else None)\<rparr>"

definition install_turn :: "string \<Rightarrow> turn_state \<Rightarrow> turn_manager \<Rightarrow> turn_manager" where
  "install_turn s t m = put_turn s t (m\<lparr>tm_next := tm_next m + 2\<rparr>)"

section \<open>Helpers of attempt.go\<close>

definition finish_attempt_chan :: "turn_state \<Rightarrow> turn_manager \<Rightarrow> turn_state \<times> turn_manager" where
  "finish_attempt_chan t m =
     (if ts_attempt_done t \<noteq> None
      then (t\<lparr>ts_attempt_done := None\<rparr>, close_chan (ts_attempt_done t) m) else (t, m))"

definition stop_turn :: "turn_state \<Rightarrow> turn_manager \<Rightarrow> turn_state \<times> turn_manager" where
  "stop_turn t m =
     (if ts_risk_done t \<noteq> None
      then (t\<lparr>ts_risk_done := None\<rparr>, close_chan (ts_risk_done t) m) else (t, m))"

definition remove_turn :: "string \<Rightarrow> turn_state \<Rightarrow> bool \<Rightarrow> turn_manager \<Rightarrow> turn_manager" where
  "remove_turn s t preserve m =
     (let m1 = (case ts_execution t of
                  Some e \<Rightarrow> if \<not> preserve then finish_execution e (Some ErrCanceled) m else m
                | None \<Rightarrow> m);
          (t1, m2) = finish_attempt_chan t m1;
          (t2, m3) = stop_turn t1 m2
      in delete_turn s m3)"

definition begin_stop_turn :: "string \<Rightarrow> turn_state \<Rightarrow> turn_manager \<Rightarrow> turn_manager" where
  "begin_stop_turn s t m =
     (if ts_attempt_done t = None then remove_turn s t False m
      else let (t1, m1) = stop_turn t m
           in put_turn s (t1\<lparr>ts_phase := PhaseStopping, ts_pending := []\<rparr>) m1)"

definition refresh_wait :: "turn_state \<Rightarrow> turn_manager \<Rightarrow> turn_manager" where
  "refresh_wait t m =
     (case ts_refresh t of
        Some c \<Rightarrow> m\<lparr>tm_refreshes := (tm_refreshes m)(c := True)\<rparr>
      | None \<Rightarrow> m)"

section \<open>Manager\<close>

definition add_tool_use :: "string \<Rightarrow> string \<Rightarrow> string \<Rightarrow> turn_manager \<Rightarrow> turn_manager" where
  "add_tool_use s name attempt m =
     (case matching_turn m s attempt of
        None \<Rightarrow> m
      | Some t \<Rightarrow> put_turn s (t\<lparr>ts_tools := (ts_tools t)(name := ts_tools t name + 1)\<rparr>) m)"

definition snapshot_turn :: "string \<Rightarrow> turn_state \<Rightarrow> turn_snapshot" where
  "snapshot_turn s t = \<lparr>sn_session = s, sn_phase = ts_phase t, sn_pending = length (ts_pending t),
     sn_tools = ts_tools t, sn_attempt_done = ts_attempt_done t, sn_execution = ts_execution t,
     sn_attempt = ts_attempt t\<rparr>"

definition snapshot :: "string \<Rightarrow> turn_manager \<Rightarrow> turn_snapshot" where
  "snapshot s m =
     (case turn_of m s of
        None \<Rightarrow> \<lparr>sn_session = s, sn_phase = PhaseIdle, sn_pending = 0, sn_tools = (\<lambda>_. 0),
                sn_attempt_done = None, sn_execution = None, sn_attempt = []\<rparr>
      | Some t \<Rightarrow> snapshot_turn s t)"

definition snapshot_all :: "turn_manager \<Rightarrow> turn_snapshot list" where
  "snapshot_all m = stable_sort (\<lambda>a b. bytes_less (sn_session a) (sn_session b))
     (map (\<lambda>(s, t). snapshot_turn s t) (tm_turns m))"

section \<open>Attempts\<close>

definition start_compact_run ::
  "string \<Rightarrow> string \<Rightarrow> nat option \<Rightarrow> turn_manager \<Rightarrow> turn_manager \<times> bool" where
  "start_compact_run s run e m =
     (let admitted = (case turn_of m s of
            None \<Rightarrow> True
          | Some old \<Rightarrow> ts_reserved old \<and> ts_compact_ready old \<and> ts_phase old = PhaseLLM \<and>
                        ts_execution old = e)
      in if \<not> admitted then (m, False)
         else (install_turn s (make_turn m PhaseCompact run e empty_input False False True) m, True))"

definition complete_compact_run :: "string \<Rightarrow> string \<Rightarrow> turn_manager \<Rightarrow> turn_manager \<times> bool" where
  "complete_compact_run s run m =
     (case turn_of m s of
        None \<Rightarrow> (m, False)
      | Some t \<Rightarrow>
          if (ts_phase t \<noteq> PhaseCompact \<and> ts_phase t \<noteq> PhaseStopping) \<or> ts_attempt t \<noteq> run
          then (m, False) else (remove_turn s t True m, True))"

definition start_tool_phase :: "string \<Rightarrow> string \<Rightarrow> turn_manager \<Rightarrow> turn_manager \<times> bool" where
  "start_tool_phase s attempt m =
     (case matching_turn m s attempt of
        None \<Rightarrow> (m, False)
      | Some t \<Rightarrow> if ts_phase t \<noteq> PhaseLLM then (m, False)
                 else (put_turn s (t\<lparr>ts_phase := PhaseTool\<rparr>) m, True))"

definition complete_turn ::
  "string \<Rightarrow> string \<Rightarrow> turn_manager \<Rightarrow> turn_manager \<times> turn_input \<times> bool" where
  "complete_turn s attempt m =
     (case matching_turn m s attempt of
        None \<Rightarrow> (m, empty_input, False)
      | Some t \<Rightarrow>
          if ts_phase t \<notin> {PhaseLLM, PhaseTool, PhaseAwaitRiskConfirm} then (m, empty_input, False)
          else let pending = merge_inputs (ts_pending t) in
            (case ts_execution t of
               None \<Rightarrow> remove_turn s t False m
             | Some e \<Rightarrow>
                 if in_text pending \<noteq> [] \<or> in_segments pending \<noteq> []
                 then let (t1, m1) = finish_attempt_chan t m
                      in install_turn s (make_turn m1 PhaseLLM [] (Some e) pending True True False) m1
                 else remove_turn s t True m, pending, True))"

definition finish_attempt :: "string \<Rightarrow> string \<Rightarrow> turn_manager \<Rightarrow> turn_manager" where
  "finish_attempt s attempt m =
     (case matching_turn m s attempt of
        None \<Rightarrow> m
      | Some t \<Rightarrow>
          if ts_phase t = PhaseAwaitAppendConfirm
          then let (t1, m1) = finish_attempt_chan t m in put_turn s t1 m1
          else remove_turn s t False m)"

definition stop_attempt :: "string \<Rightarrow> string \<Rightarrow> turn_manager \<Rightarrow> turn_manager" where
  "stop_attempt s attempt m =
     (case matching_turn m s attempt of None \<Rightarrow> m | Some t \<Rightarrow> begin_stop_turn s t m)"

definition stop_session :: "string \<Rightarrow> turn_manager \<Rightarrow> turn_manager" where
  "stop_session s m = (case turn_of m s of None \<Rightarrow> m | Some t \<Rightarrow> begin_stop_turn s t m)"

text \<open>\<open>StopAll\<close> ranges over the map; Go leaves the order open, the model follows the table.\<close>

definition stop_all :: "turn_manager \<Rightarrow> turn_manager" where
  "stop_all m = foldl (\<lambda>n s. stop_session s n) m (map fst (tm_turns m))"

definition resume_append ::
  "string \<Rightarrow> turn_manager \<Rightarrow> turn_manager \<times> turn_input \<times> nat option \<times> bool" where
  "resume_append s m =
     (case turn_of m s of
        None \<Rightarrow> (m, empty_input, None, False)
      | Some t \<Rightarrow>
          if ts_phase t \<noteq> PhaseAwaitAppendConfirm then (m, empty_input, None, False)
          else let i = merge_inputs (ts_input t # ts_pending t) in
            (put_turn s (t\<lparr>ts_phase := PhaseLLM, ts_input := i, ts_pending := [],
               ts_attempt := [], ts_reserved := True\<rparr>) m, i, ts_execution t, True))"

definition start_attempt ::
  "string \<Rightarrow> turn_input \<Rightarrow> nat option \<Rightarrow> string \<Rightarrow> turn_manager \<Rightarrow> turn_manager \<times> bool" where
  "start_attempt s i e attempt m =
     (let admitted = (case turn_of m s of
            None \<Rightarrow> True
          | Some old \<Rightarrow> ts_reserved old \<and> ts_execution old = e \<and> ts_phase old = PhaseLLM)
      in if \<not> admitted then (m, False)
         else (install_turn s (make_turn m PhaseLLM attempt e (normalize_input i) False False True) m,
               True))"

definition reserve_execution ::
  "string \<Rightarrow> turn_input \<Rightarrow> nat option \<Rightarrow> turn_manager \<Rightarrow> turn_manager \<times> bool" where
  "reserve_execution s i e m =
     (if turn_of m s \<noteq> None then (m, False)
      else (install_turn s (make_turn m PhaseLLM [] e (normalize_input i) True False False) m, True))"

definition can_compact :: "string \<Rightarrow> nat option \<Rightarrow> turn_manager \<Rightarrow> bool" where
  "can_compact s e m =
     (case turn_of m s of
        None \<Rightarrow> True
      | Some t \<Rightarrow> ts_reserved t \<and> ts_compact_ready t \<and> ts_phase t = PhaseLLM \<and> ts_execution t = e)"

section \<open>Pending inputs\<close>

definition append_pending_input ::
  "string \<Rightarrow> turn_input \<Rightarrow> turn_manager \<Rightarrow> turn_manager \<times> bool" where
  "append_pending_input s i m =
     (case turn_of m s of
        None \<Rightarrow> (m, False)
      | Some t \<Rightarrow>
          if ts_phase t \<noteq> PhaseAwaitAppendConfirm \<and> ts_phase t \<noteq> PhaseTool then (m, False)
          else let (pending, taken) = append_pending (ts_pending t) i;
                   t1 = t\<lparr>ts_pending := pending\<rparr>;
                   m1 = put_turn s t1 m
               in (if taken \<and> ts_phase t = PhaseAwaitAppendConfirm then refresh_wait t1 m1 else m1,
                   True))"

definition drain_merged_input ::
  "string \<Rightarrow> string \<Rightarrow> turn_manager \<Rightarrow> turn_manager \<times> turn_input" where
  "drain_merged_input s attempt m =
     (case matching_turn m s attempt of
        None \<Rightarrow> (m, empty_input)
      | Some t \<Rightarrow> if ts_pending t = [] then (m, empty_input)
                 else (put_turn s (t\<lparr>ts_pending := []\<rparr>) m, merge_inputs (ts_pending t)))"

section \<open>Confirmations\<close>

text \<open>The handle a risk wait returns: what its closures captured.\<close>

record risk_wait =
  rw_session :: string
  rw_turn :: nat
  rw_response :: nat
  rw_refresh :: nat
  rw_done :: nat

definition begin_risk_confirmation ::
  "string \<Rightarrow> risk_confirmation \<Rightarrow> string \<Rightarrow> turn_manager \<Rightarrow> turn_manager \<times> risk_wait option" where
  "begin_risk_confirmation s c attempt m =
     (case matching_turn m s attempt of
        None \<Rightarrow> (m, None)
      | Some t \<Rightarrow>
          if ts_phase t \<noteq> PhaseTool then (m, None)
          else let n = tm_next m in
            (put_turn s (t\<lparr>ts_phase := PhaseAwaitRiskConfirm, ts_confirm := Some c,
                ts_response := Some n, ts_refresh := Some (n + 1), ts_risk_done := Some (n + 2)\<rparr>)
              (m\<lparr>tm_next := n + 3\<rparr>),
             Some \<lparr>rw_session = s, rw_turn = ts_id t, rw_response = n, rw_refresh = n + 1,
                   rw_done = n + 2\<rparr>))"

definition owned_turn :: "risk_wait \<Rightarrow> turn_manager \<Rightarrow> turn_state option" where
  "owned_turn w m =
     (case turn_of m (rw_session w) of
        None \<Rightarrow> None
      | Some t \<Rightarrow> if ts_id t = rw_turn w \<and> ts_response t = Some (rw_response w) then Some t else None)"

definition take_refresh :: "nat \<Rightarrow> turn_manager \<Rightarrow> turn_manager" where
  "take_refresh c m = m\<lparr>tm_refreshes := (tm_refreshes m)(c := False)\<rparr>"

definition wait_expire :: "risk_wait \<Rightarrow> turn_manager \<Rightarrow> turn_manager \<times> bool" where
  "wait_expire w m =
     (case owned_turn w m of
        None \<Rightarrow> (m, False)
      | Some t \<Rightarrow>
          if ts_phase t \<noteq> PhaseAwaitRiskConfirm then (m, False)
          else case ts_refresh t of
              Some c \<Rightarrow> if tm_refreshes m c then (take_refresh c m, False)
                        else (begin_stop_turn (rw_session w) t m, True)
            | None \<Rightarrow> (begin_stop_turn (rw_session w) t m, True))"

definition wait_cancel :: "risk_wait \<Rightarrow> turn_manager \<Rightarrow> turn_manager \<times> bool" where
  "wait_cancel w m =
     (case owned_turn w m of
        None \<Rightarrow> (m, False)
      | Some t \<Rightarrow> if ts_phase t \<noteq> PhaseAwaitRiskConfirm then (m, False)
                 else (begin_stop_turn (rw_session w) t m, True))"

definition wait_complete ::
  "risk_wait \<Rightarrow> risk_decision \<Rightarrow> go_error option \<Rightarrow> turn_manager \<Rightarrow> turn_manager \<times> risk_result" where
  "wait_complete w d err m =
     (case owned_turn w m of
        None \<Rightarrow> (m, risk_ended RiskStale None)
      | Some t \<Rightarrow>
          if ts_phase t = PhaseStopping \<or> err \<noteq> None
          then (begin_stop_turn (rw_session w) t m, risk_ended RiskCanceled err)
          else if ts_phase t \<noteq> PhaseAwaitRiskConfirm then (m, risk_ended RiskStale None)
          else (put_turn (rw_session w)
                  (t\<lparr>ts_confirm := None, ts_response := None, ts_refresh := None,
                     ts_risk_done := None, ts_phase := PhaseTool\<rparr>)
                  (close_chan (ts_risk_done t) m),
                \<lparr>rr_decision = d, rr_outcome = RiskAnswered, rr_err = None\<rparr>))"

definition resolve_risk_confirmation ::
  "string \<Rightarrow> risk_decision \<Rightarrow> turn_manager \<Rightarrow> turn_manager \<times> bool" where
  "resolve_risk_confirmation s d m =
     (if rd_action d \<notin> {RiskConfirm, RiskConfirmTool, RiskConfirmAll, RiskReject} then (m, False)
      else case turn_of m s of
          None \<Rightarrow> (m, False)
        | Some t \<Rightarrow>
            if ts_phase t \<noteq> PhaseAwaitRiskConfirm then (m, False)
            else case ts_response t of
                Some c \<Rightarrow> if tm_responses m c = None
                          then (m\<lparr>tm_responses := (tm_responses m)(c := Some d)\<rparr>, True)
                          else (m, False)
              | None \<Rightarrow> (m, False))"

definition refresh_risk_confirmation :: "string \<Rightarrow> turn_manager \<Rightarrow> turn_manager \<times> bool" where
  "refresh_risk_confirmation s m =
     (case turn_of m s of
        None \<Rightarrow> (m, False)
      | Some t \<Rightarrow> if ts_phase t \<noteq> PhaseAwaitRiskConfirm then (m, False)
                 else (refresh_wait t m, True))"

text \<open>\<open>PendingRiskConfirmation\<close> dereferences the confirmation; a nil one panics.\<close>

definition pending_risk_confirmation ::
  "string \<Rightarrow> turn_manager \<Rightarrow> turn_manager \<times> risk_confirmation option" where
  "pending_risk_confirmation s m =
     (case turn_of m s of
        None \<Rightarrow> (m, None)
      | Some t \<Rightarrow>
          if ts_phase t \<noteq> PhaseAwaitRiskConfirm then (m, None)
          else case ts_confirm t of
              None \<Rightarrow> (m\<lparr>tm_panicked := True\<rparr>, None)
            | Some c \<Rightarrow> (m, Some c))"

definition begin_append :: "string \<Rightarrow> string \<Rightarrow> turn_input \<Rightarrow> turn_manager \<Rightarrow> turn_manager \<times> bool" where
  "begin_append s attempt i m =
     (case matching_turn m s attempt of
        None \<Rightarrow> (m, False)
      | Some t \<Rightarrow>
          if ts_phase t \<noteq> PhaseLLM then (m, False)
          else (put_turn s (t\<lparr>ts_phase := PhaseAwaitAppendConfirm,
                  ts_pending := fst (append_pending (ts_pending t) i)\<rparr>) m, True))"

section \<open>The wait loop\<close>

text \<open>
  \<open>WaitRisk\<close>: entering checks the context; then each round of the select takes one ready
  case.  A result ends the wait, and the deferred \<open>Cancel\<close> runs; no result goes round again.
  An event that is not ready changes nothing.  \<open>ctx_err\<close> is \<open>ctx.Err()\<close> at that moment
  and \<open>timed\<close> says that a timer is armed.
\<close>

datatype risk_event = EventResponse | EventDone | EventRefresh | EventContext | EventTimer

definition wait_return ::
  "risk_wait \<Rightarrow> turn_manager \<Rightarrow> risk_result \<Rightarrow> turn_manager \<times> risk_result option" where
  "wait_return w m r = (fst (wait_cancel w m), Some r)"

definition wait_risk_enter ::
  "risk_wait option \<Rightarrow> go_error option \<Rightarrow> turn_manager \<Rightarrow> turn_manager \<times> risk_result option" where
  "wait_risk_enter w ctx_err m =
     (case w of
        None \<Rightarrow> (m, Some (risk_ended RiskStale None))
      | Some h \<Rightarrow> (case ctx_err of
            Some e \<Rightarrow> wait_return h m (risk_ended RiskCanceled (Some e))
          | None \<Rightarrow> (m, None)))"

definition wait_risk_event ::
  "risk_wait \<Rightarrow> bool \<Rightarrow> go_error option \<Rightarrow> risk_event \<Rightarrow> turn_manager \<Rightarrow> turn_manager \<times> risk_result option" where
  "wait_risk_event w timed ctx_err ev m =
     (case ev of
        EventResponse \<Rightarrow> (case tm_responses m (rw_response w) of
            None \<Rightarrow> (m, None)
          | Some d \<Rightarrow>
              let (m1, r) = wait_complete w d ctx_err
                    (m\<lparr>tm_responses := (tm_responses m)(rw_response w := None)\<rparr>)
              in wait_return w m1 r)
      | EventDone \<Rightarrow>
          if rw_done w \<notin> set (tm_closed m) then (m, None)
          else let (m1, r) = wait_complete w no_decision ctx_err m in wait_return w m1 r
      | EventRefresh \<Rightarrow>
          if \<not> tm_refreshes m (rw_refresh w) then (m, None) else (take_refresh (rw_refresh w) m, None)
      | EventContext \<Rightarrow> (case ctx_err of
            None \<Rightarrow> (m, None)
          | Some e \<Rightarrow> wait_return w m (risk_ended RiskCanceled (Some e)))
      | EventTimer \<Rightarrow>
          if \<not> timed then (m, None)
          else let (m1, removed) = wait_expire w m in
            (case ctx_err of
               Some e \<Rightarrow> wait_return w m1 (risk_ended RiskCanceled (Some e))
             | None \<Rightarrow> if removed then wait_return w m1 (risk_ended RiskExpired None)
                       else (m1, None)))"

section \<open>The calls\<close>

datatype turn_call =
    NewExecution nat string
  | ExecutionCall nat execution_call
  | AddToolUse string string string
  | StartCompactRun string string "nat option"
  | CompleteCompactRun string string
  | StartToolPhase string string
  | CompleteTurn string string
  | FinishAttempt string string
  | StopAttempt string string
  | StopSession string
  | StopAll
  | ResumeAppend string
  | StartAttempt string turn_input "nat option" string
  | ReserveExecution string turn_input "nat option"
  | AppendPendingInput string turn_input
  | DrainMergedInput string string
  | BeginRiskConfirmation string risk_confirmation string
  | ResolveRiskConfirmation string risk_decision
  | RefreshRiskConfirmation string
  | PendingRiskConfirmation string
  | BeginAppend string string turn_input
  | WaitCancel risk_wait
  | WaitEnter "risk_wait option" "go_error option"
  | WaitEvent risk_wait bool "go_error option" risk_event

fun turn_step :: "turn_manager \<Rightarrow> turn_call \<Rightarrow> turn_manager" where
  "turn_step m (NewExecution e i) =
     (if tm_executions m e = None
      then m\<lparr>tm_executions := (tm_executions m)(e := Some (new_execution i))\<rparr> else m)"
| "turn_step m (ExecutionCall e c) =
     m\<lparr>tm_executions := (tm_executions m)(e := map_option (\<lambda>x. execution_step x c) (tm_executions m e))\<rparr>"
| "turn_step m (AddToolUse s n a) = add_tool_use s n a m"
| "turn_step m (StartCompactRun s r e) = fst (start_compact_run s r e m)"
| "turn_step m (CompleteCompactRun s r) = fst (complete_compact_run s r m)"
| "turn_step m (StartToolPhase s a) = fst (start_tool_phase s a m)"
| "turn_step m (CompleteTurn s a) = fst (complete_turn s a m)"
| "turn_step m (FinishAttempt s a) = finish_attempt s a m"
| "turn_step m (StopAttempt s a) = stop_attempt s a m"
| "turn_step m (StopSession s) = stop_session s m"
| "turn_step m StopAll = stop_all m"
| "turn_step m (ResumeAppend s) = fst (resume_append s m)"
| "turn_step m (StartAttempt s i e a) = fst (start_attempt s i e a m)"
| "turn_step m (ReserveExecution s i e) = fst (reserve_execution s i e m)"
| "turn_step m (AppendPendingInput s i) = fst (append_pending_input s i m)"
| "turn_step m (DrainMergedInput s a) = fst (drain_merged_input s a m)"
| "turn_step m (BeginRiskConfirmation s c a) = fst (begin_risk_confirmation s c a m)"
| "turn_step m (ResolveRiskConfirmation s d) = fst (resolve_risk_confirmation s d m)"
| "turn_step m (RefreshRiskConfirmation s) = fst (refresh_risk_confirmation s m)"
| "turn_step m (PendingRiskConfirmation s) = fst (pending_risk_confirmation s m)"
| "turn_step m (BeginAppend s a i) = fst (begin_append s a i m)"
| "turn_step m (WaitCancel w) = fst (wait_cancel w m)"
| "turn_step m (WaitEnter w err) = fst (wait_risk_enter w err m)"
| "turn_step m (WaitEvent w timed err ev) = fst (wait_risk_event w timed err ev m)"

end
