(* ===== verification/Turn_Lifecycle_Laws.thy ===== *)
theory Turn_Lifecycle_Laws
  imports Turn_Lifecycle
begin

text \<open>
  The protocol of the turn table.  Every call of theory \<open>Turn_Lifecycle\<close> is a sequence of
  protocol moves (relation \<open>turn_move\<close>): edits that keep the channels, the end of an attempt,
  removal, stopping, admission, continuation, and asking or answering a risk confirmation.
  Invariants and permanent facts are then proved once, over the moves.
\<close>

section \<open>Reading the table\<close>

lemma turn_of_put [simp]: "turn_of (put_turn s t m) s' = (if s' = s then Some t else turn_of m s')"
  by (simp add: turn_of_def put_turn_def update_conv)

lemma turn_of_delete [simp]:
  "turn_of (delete_turn s m) s' = (if s' = s then None else turn_of m s')"
  by (simp add: turn_of_def delete_turn_def delete_conv)

lemma turn_of_close [simp]: "turn_of (close_chan c m) = turn_of m"
  by (auto simp: turn_of_def close_chan_def split: option.split)

lemma turn_of_finish_execution [simp]: "turn_of (finish_execution e err m) = turn_of m"
  by (auto simp: turn_of_def finish_execution_def)

lemma turn_of_fields [simp]:
  "turn_of (m\<lparr>tm_next := n\<rparr>) = turn_of m"
  "turn_of (m\<lparr>tm_refreshes := r\<rparr>) = turn_of m"
  "turn_of (m\<lparr>tm_responses := q\<rparr>) = turn_of m"
  "turn_of (m\<lparr>tm_executions := x\<rparr>) = turn_of m"
  by (simp_all add: turn_of_def fun_eq_iff)

lemma put_fields [simp]:
  "tm_next (put_turn s t m) = tm_next m"
  "tm_closed (put_turn s t m) = tm_closed m"
  "tm_panicked (put_turn s t m) = tm_panicked m"
  "tm_executions (put_turn s t m) = tm_executions m"
  by (simp_all add: put_turn_def)

lemma delete_fields [simp]:
  "tm_next (delete_turn s m) = tm_next m"
  "tm_closed (delete_turn s m) = tm_closed m"
  "tm_panicked (delete_turn s m) = tm_panicked m"
  "tm_executions (delete_turn s m) = tm_executions m"
  by (simp_all add: delete_turn_def)

lemma close_fields [simp]:
  "tm_next (close_chan c m) = tm_next m"
  "tm_turns (close_chan c m) = tm_turns m"
  "tm_executions (close_chan c m) = tm_executions m"
  by (simp_all add: close_chan_def split: option.split)

lemma finish_execution_fields [simp]:
  "tm_next (finish_execution e err m) = tm_next m"
  "tm_turns (finish_execution e err m) = tm_turns m"
  "tm_closed (finish_execution e err m) = tm_closed m"
  "tm_panicked (finish_execution e err m) = tm_panicked m"
  by (simp_all add: finish_execution_def)

lemma matching_turn_Some:
  "matching_turn m s a = Some t \<longleftrightarrow> turn_of m s = Some t \<and> ts_attempt t = a"
  by (auto simp: matching_turn_def split: option.splits)

lemma owned_turn_Some:
  "owned_turn w m = Some t \<longleftrightarrow> turn_of m (rw_session w) = Some t \<and> ts_id t = rw_turn w \<and>
     ts_response t = Some (rw_response w)"
  by (auto simp: owned_turn_def split: option.splits)

section \<open>The invariant\<close>

definition turn_chans :: "turn_state \<Rightarrow> nat set" where
  "turn_chans t = set_option (ts_attempt_done t) \<union> set_option (ts_risk_done t)"

definition turn_shape :: "turn_state \<Rightarrow> bool" where
  "turn_shape t \<longleftrightarrow>
     (ts_phase t = PhaseAwaitRiskConfirm \<longrightarrow>
        ts_confirm t \<noteq> None \<and> ts_response t \<noteq> None \<and> ts_refresh t \<noteq> None) \<and>
     (ts_phase t = PhaseAwaitRiskConfirm \<longleftrightarrow> ts_risk_done t \<noteq> None) \<and>
     (ts_phase t = PhaseStopping \<longrightarrow> ts_attempt_done t \<noteq> None \<and> ts_pending t = []) \<and>
     ts_phase t \<noteq> PhaseIdle \<and>
     (ts_attempt_done t \<noteq> None \<longrightarrow> ts_attempt_done t \<noteq> ts_risk_done t)"

text \<open>
  The invariant without the entry of one session, whose channels \<open>L\<close> are in hand: the
  globals, the shape and freshness of the other entries, and their separation.
\<close>

definition base_inv :: "nat set \<Rightarrow> turn_manager \<Rightarrow> bool" where
  "base_inv L m \<longleftrightarrow> \<not> tm_panicked m \<and> distinct (map fst (tm_turns m)) \<and>
     distinct (tm_closed m) \<and> L \<union> set (tm_closed m) \<subseteq> {..< tm_next m} \<and>
     L \<inter> set (tm_closed m) = {} \<and> (\<forall>e x. tm_executions m e = Some x \<longrightarrow> execution_inv x)"

definition entry_ok :: "nat \<Rightarrow> nat set \<Rightarrow> turn_state \<Rightarrow> bool" where
  "entry_ok n U t \<longleftrightarrow> turn_shape t \<and> turn_chans t \<subseteq> {..< n} \<and> turn_chans t \<inter> U = {}"

definition entries_inv :: "string set \<Rightarrow> nat \<Rightarrow> nat set \<Rightarrow> (string \<Rightarrow> turn_state option) \<Rightarrow> bool" where
  "entries_inv S n U f \<longleftrightarrow> (\<forall>r t. r \<notin> S \<longrightarrow> f r = Some t \<longrightarrow> entry_ok n U t)"

definition apart_inv :: "string set \<Rightarrow> (string \<Rightarrow> turn_state option) \<Rightarrow> bool" where
  "apart_inv S f \<longleftrightarrow> (\<forall>r r' t t'. r \<notin> S \<longrightarrow> r' \<notin> S \<longrightarrow> r \<noteq> r' \<longrightarrow> f r = Some t \<longrightarrow>
     f r' = Some t' \<longrightarrow> turn_chans t \<inter> turn_chans t' = {})"

definition inv_at :: "string \<Rightarrow> nat set \<Rightarrow> turn_manager \<Rightarrow> bool" where
  "inv_at s L m \<longleftrightarrow> base_inv L m \<and>
     entries_inv {s} (tm_next m) (L \<union> set (tm_closed m)) (turn_of m) \<and> apart_inv {s} (turn_of m)"

definition turn_inv :: "turn_manager \<Rightarrow> bool" where
  "turn_inv m \<longleftrightarrow> base_inv {} m \<and>
     entries_inv {} (tm_next m) (set (tm_closed m)) (turn_of m) \<and> apart_inv {} (turn_of m)"

lemma entries_invD: "entries_inv S n U f \<Longrightarrow> f r = Some t \<Longrightarrow> r \<notin> S \<Longrightarrow> entry_ok n U t"
  by (auto simp: entries_inv_def)

lemma entry_ok_mono: "entry_ok n U t \<Longrightarrow> n \<le> n' \<Longrightarrow> U' \<subseteq> U \<union> {n..} \<Longrightarrow> entry_ok n' U' t"
  by (fastforce simp: entry_ok_def)

lemma entries_inv_mono:
  "entries_inv S n U f \<Longrightarrow> n \<le> n' \<Longrightarrow> U' \<subseteq> U \<union> {n..} \<Longrightarrow> S \<subseteq> S' \<Longrightarrow> entries_inv S' n' U' f"
  unfolding entries_inv_def by (meson entry_ok_mono subsetD)

lemma apart_inv_mono: "apart_inv S f \<Longrightarrow> S \<subseteq> S' \<Longrightarrow> apart_inv S' f"
  unfolding apart_inv_def by blast

lemma turn_invD:
  assumes "turn_inv m" and "turn_of m s = Some t"
  shows "turn_shape t" and "turn_chans t \<subseteq> {..< tm_next m}"
    and "turn_chans t \<inter> set (tm_closed m) = {}"
  using assms entries_invD [of "{}" "tm_next m" "set (tm_closed m)" "turn_of m" s t]
  by (auto simp: turn_inv_def entry_ok_def)

lemma inv_at_turn:
  assumes "turn_inv m" and "turn_of m s = Some t"
  shows "inv_at s (turn_chans t) m"
proof -
  have "entry_ok (tm_next m) (turn_chans t \<union> set (tm_closed m)) u"
    if "r \<noteq> s" and "turn_of m r = Some u" for r u
    using that assms unfolding turn_inv_def entries_inv_def apart_inv_def entry_ok_def
    by (metis Int_Un_distrib Un_empty empty_iff)
  moreover have "base_inv (turn_chans t) m"
    using assms(1) turn_invD [OF assms] by (auto simp: turn_inv_def base_inv_def)
  ultimately show ?thesis
    using assms(1) apart_inv_mono [of "{}" "turn_of m" "{s}"]
    by (simp add: inv_at_def entries_inv_def turn_inv_def)
qed

lemma inv_at_none: "turn_inv m \<Longrightarrow> inv_at s {} m"
  unfolding turn_inv_def inv_at_def
  using entries_inv_mono [of "{}" _ _ "turn_of m" _ _ "{s}"] apart_inv_mono [of "{}" "turn_of m" "{s}"]
  by auto

lemma inv_at_mono:
  assumes "inv_at s L m" and "L' \<subseteq> L"
  shows "inv_at s L' m"
proof -
  have "entries_inv {s} (tm_next m) (L' \<union> set (tm_closed m)) (turn_of m)"
    by (rule entries_inv_mono) (use assms in \<open>auto simp: inv_at_def\<close>)
  with assms show ?thesis by (auto simp: inv_at_def base_inv_def)
qed

lemma inv_at_close:
  assumes "inv_at s L m" and "c \<in> L"
  shows "inv_at s (L - {c}) (close_chan (Some c) m)"
proof -
  let ?m = "close_chan (Some c) m"
  have m: "?m = m\<lparr>tm_closed := c # tm_closed m\<rparr>"
    using assms by (auto simp: close_chan_def inv_at_def base_inv_def)
  then have "L - {c} \<union> set (tm_closed ?m) = L \<union> set (tm_closed m)" using assms(2) by auto
  moreover have "base_inv (L - {c}) ?m"
    using assms by (auto simp: inv_at_def base_inv_def m)
  moreover have "tm_next ?m = tm_next m" "turn_of ?m = turn_of m" by simp_all
  ultimately show ?thesis using assms(1) unfolding inv_at_def by metis
qed

lemma inv_at_fresh:
  assumes "inv_at s L m"
  shows "inv_at s (L \<union> {tm_next m ..< tm_next m + k}) (m\<lparr>tm_next := tm_next m + k\<rparr>)"
proof -
  have "entries_inv {s} (tm_next m + k) (L \<union> {tm_next m ..< tm_next m + k} \<union> set (tm_closed m)) (turn_of m)"
    by (rule entries_inv_mono) (use assms in \<open>auto simp: inv_at_def\<close>)
  moreover have "base_inv (L \<union> {tm_next m ..< tm_next m + k}) (m\<lparr>tm_next := tm_next m + k\<rparr>)"
    using assms by (fastforce simp: inv_at_def base_inv_def)
  ultimately show ?thesis using assms by (simp add: inv_at_def)
qed

lemma finish_keeps_inv: "execution_inv x \<Longrightarrow> execution_inv (finish err x)"
  using execution_step_inv [of x "CallFinish err"] by simp

lemma inv_at_finish_execution: "inv_at s L m \<Longrightarrow> inv_at s L (finish_execution e err m)"
  unfolding inv_at_def by (auto simp: base_inv_def finish_execution_def finish_keeps_inv)

lemma inv_at_put:
  assumes "inv_at s (turn_chans t) m" and "turn_shape t"
  shows "turn_inv (put_turn s t m)"
proof -
  have o: "entry_ok (tm_next m) (turn_chans t \<union> set (tm_closed m)) u"
    if "r \<noteq> s" and "turn_of m r = Some u" for r u
    using that assms(1) by (auto simp: inv_at_def entries_inv_def)
  have "entries_inv {} (tm_next m) (set (tm_closed m)) (turn_of (put_turn s t m))"
    unfolding entries_inv_def
  proof (intro allI impI)
    fix r u
    assume "turn_of (put_turn s t m) r = Some u"
    then show "entry_ok (tm_next m) (set (tm_closed m)) u"
      using o [of r u] assms
      by (cases "r = s") (auto simp: entry_ok_def inv_at_def base_inv_def)
  qed
  moreover have "apart_inv {} (turn_of (put_turn s t m))"
    unfolding apart_inv_def
  proof (intro allI impI)
    fix r r' u u'
    assume "r \<noteq> r'" and u: "turn_of (put_turn s t m) r = Some u" "turn_of (put_turn s t m) r' = Some u'"
    then show "turn_chans u \<inter> turn_chans u' = {}"
      using o [of r u] o [of r' u'] assms(1)
      by (cases "r = s"; cases "r' = s") (auto simp: entry_ok_def inv_at_def apart_inv_def)
  qed
  moreover have "base_inv {} (put_turn s t m)"
    using assms(1) by (auto simp: inv_at_def base_inv_def put_turn_def distinct_update)
  ultimately show ?thesis by (simp add: turn_inv_def)
qed

lemma inv_at_delete:
  assumes "inv_at s L m"
  shows "turn_inv (delete_turn s m)"
proof -
  have "entries_inv {} (tm_next m) (set (tm_closed m)) (turn_of (delete_turn s m))"
    using assms unfolding inv_at_def entries_inv_def entry_ok_def by auto
  moreover have "apart_inv {} (turn_of (delete_turn s m))"
    using assms unfolding inv_at_def apart_inv_def by auto
  moreover have "base_inv {} (delete_turn s m)"
    using assms by (auto simp: inv_at_def base_inv_def delete_turn_def distinct_delete)
  ultimately show ?thesis by (simp add: turn_inv_def)
qed

lemma inv_at_finish_attempt:
  assumes "inv_at s (turn_chans t) m" and "turn_shape t"
    and "finish_attempt_chan t m = (t1, m1)"
  shows "inv_at s (turn_chans t1) m1" and "t1 = t\<lparr>ts_attempt_done := None\<rparr>"
proof -
  show t1: "t1 = t\<lparr>ts_attempt_done := None\<rparr>"
    using assms(3) by (cases "ts_attempt_done t") (auto simp: finish_attempt_chan_def)
  show "inv_at s (turn_chans t1) m1"
  proof (cases "ts_attempt_done t")
    case None
    with assms t1 show ?thesis by (simp add: finish_attempt_chan_def turn_chans_def)
  next
    case (Some c)
    then have "inv_at s (turn_chans t - {c}) m1"
      using assms inv_at_close [of s "turn_chans t" m c]
      by (auto simp: finish_attempt_chan_def turn_chans_def)
    moreover have "turn_chans t1 \<subseteq> turn_chans t - {c}"
      using assms(2) Some by (auto simp: t1 turn_chans_def turn_shape_def)
    ultimately show ?thesis by (rule inv_at_mono)
  qed
qed

lemma inv_at_stop_turn:
  assumes "inv_at s (turn_chans t) m"
    and "ts_attempt_done t \<noteq> None \<longrightarrow> ts_attempt_done t \<noteq> ts_risk_done t"
    and "stop_turn t m = (t1, m1)"
  shows "inv_at s (turn_chans t1) m1" and "t1 = t\<lparr>ts_risk_done := None\<rparr>"
proof -
  show t1: "t1 = t\<lparr>ts_risk_done := None\<rparr>"
    using assms(3) by (cases "ts_risk_done t") (auto simp: stop_turn_def)
  show "inv_at s (turn_chans t1) m1"
  proof (cases "ts_risk_done t")
    case None
    with assms t1 show ?thesis by (simp add: stop_turn_def turn_chans_def)
  next
    case (Some c)
    then have "inv_at s (turn_chans t - {c}) m1"
      using assms inv_at_close [of s "turn_chans t" m c] by (auto simp: stop_turn_def turn_chans_def)
    moreover have "turn_chans t1 \<subseteq> turn_chans t - {c}"
      using assms(2) Some by (auto simp: t1 turn_chans_def)
    ultimately show ?thesis by (rule inv_at_mono)
  qed
qed

lemma remove_turn_inv:
  assumes "turn_inv m" and "turn_of m s = Some t"
  shows "turn_inv (remove_turn s t preserve m)"
proof -
  let ?m1 = "case ts_execution t of
      Some e \<Rightarrow> if \<not> preserve then finish_execution e (Some ErrCanceled) m else m | None \<Rightarrow> m"
  obtain t1 m2 where f: "finish_attempt_chan t ?m1 = (t1, m2)" by fastforce
  obtain t2 m3 where g: "stop_turn t1 m2 = (t2, m3)" by fastforce
  have "inv_at s (turn_chans t) ?m1"
    using inv_at_turn [OF assms] by (auto split: option.split intro: inv_at_finish_execution)
  from inv_at_finish_attempt [OF this turn_invD(1) [OF assms] f]
  have "inv_at s (turn_chans t1) m2" and "t1 = t\<lparr>ts_attempt_done := None\<rparr>" by auto
  with inv_at_stop_turn(1) [OF _ _ g] have "inv_at s (turn_chans t2) m3" by simp
  then show ?thesis
    using inv_at_delete f g by (simp add: remove_turn_def)
qed

lemma begin_stop_turn_inv:
  assumes "turn_inv m" and "turn_of m s = Some t"
  shows "turn_inv (begin_stop_turn s t m)"
proof (cases "ts_attempt_done t")
  case None
  with assms show ?thesis by (simp add: begin_stop_turn_def remove_turn_inv)
next
  case (Some c)
  obtain t1 m1 where g: "stop_turn t m = (t1, m1)" by fastforce
  have "turn_shape t" by (rule turn_invD(1) [OF assms])
  then have d: "ts_attempt_done t \<noteq> None \<longrightarrow> ts_attempt_done t \<noteq> ts_risk_done t"
    by (simp add: turn_shape_def)
  from inv_at_stop_turn [OF inv_at_turn [OF assms] d g]
  have i: "inv_at s (turn_chans t1) m1" and t1: "t1 = t\<lparr>ts_risk_done := None\<rparr>" by auto
  from i have "inv_at s (turn_chans (t1\<lparr>ts_phase := PhaseStopping, ts_pending := []\<rparr>)) m1"
    by (simp add: turn_chans_def)
  moreover have "turn_shape (t1\<lparr>ts_phase := PhaseStopping, ts_pending := []\<rparr>)"
    using Some by (simp add: turn_shape_def t1)
  ultimately have "turn_inv (put_turn s (t1\<lparr>ts_phase := PhaseStopping, ts_pending := []\<rparr>) m1)"
    by (rule inv_at_put)
  with Some g show ?thesis by (simp add: begin_stop_turn_def)
qed

section \<open>The moves of the protocol\<close>

text \<open>The phase changes a call may make in place, without touching a channel.\<close>

definition phase_edit :: "turn_phase \<Rightarrow> turn_phase \<Rightarrow> bool" where
  "phase_edit p q \<longleftrightarrow> p = q \<or> (p, q) \<in> {(PhaseLLM, PhaseTool), (PhaseLLM, PhaseAwaitAppendConfirm)}"

definition edited :: "turn_state \<Rightarrow> turn_state \<Rightarrow> bool" where
  "edited t t' \<longleftrightarrow> ts_id t' = ts_id t \<and> ts_execution t' = ts_execution t \<and>
     ts_attempt t' = ts_attempt t \<and> ts_reserved t' = ts_reserved t \<and>
     ts_attempt_done t' = ts_attempt_done t \<and> ts_risk_done t' = ts_risk_done t \<and>
     ts_confirm t' = ts_confirm t \<and> ts_response t' = ts_response t \<and> ts_refresh t' = ts_refresh t \<and>
     phase_edit (ts_phase t) (ts_phase t') \<and>
     (ts_phase t' = PhaseStopping \<longrightarrow> ts_pending t = [] \<longrightarrow> ts_pending t' = [])"

text \<open>
  A move that leaves the table and the channels alone: buffers and executions change.  A nil
  confirmation of an entry that breaks the invariant is the only panic such a move can meet.
  Decisions are buffered only for channels that exist (\<open>response_inv\<close>).
\<close>

definition response_inv :: "turn_manager \<Rightarrow> bool" where
  "response_inv m \<longleftrightarrow>
     (\<forall>s t c. turn_of m s = Some t \<longrightarrow> ts_response t = Some c \<longrightarrow> c < tm_next m) \<and>
     (\<forall>c. tm_next m \<le> c \<longrightarrow> tm_responses m c = None)"

definition quiet :: "turn_manager \<Rightarrow> turn_manager \<Rightarrow> bool" where
  "quiet m m' \<longleftrightarrow> tm_turns m' = tm_turns m \<and> tm_next m' = tm_next m \<and> tm_closed m' = tm_closed m \<and>
     (turn_inv m \<longrightarrow> \<not> tm_panicked m' \<and>
       (\<forall>e x. tm_executions m' e = Some x \<longrightarrow> execution_inv x)) \<and>
     (response_inv m \<longrightarrow> response_inv m')"

text \<open>
  The flag \<open>g\<close> marks the moves of a caller that resumes a turn only when its attempt is
  over, and completes no turn that waits for a risk decision; \<open>N\<close> holds the names of the
  attempts that may be admitted.
\<close>

inductive turn_move :: "bool \<Rightarrow> string set \<Rightarrow> turn_manager \<Rightarrow> turn_manager \<Rightarrow> bool" for g :: bool and N :: "string set" where
  quiet_move: "quiet m m' \<Longrightarrow> turn_move g N m m'"
| edit_move: "turn_of m s = Some t \<Longrightarrow> edited t t' \<Longrightarrow> turn_move g N m (put_turn s t' m)"
| end_attempt_move: "turn_of m s = Some t \<Longrightarrow> ts_phase t = PhaseAwaitAppendConfirm \<Longrightarrow>
    finish_attempt_chan t m = (t1, m1) \<Longrightarrow> turn_move g N m (put_turn s t1 m1)"
| resume_move: "turn_of m s = Some t \<Longrightarrow> ts_phase t = PhaseAwaitAppendConfirm \<Longrightarrow>
    (g \<longrightarrow> ts_attempt_done t = None) \<Longrightarrow>
    turn_move g N m (put_turn s (t\<lparr>ts_phase := PhaseLLM, ts_input := i, ts_pending := [],
       ts_attempt := [], ts_reserved := True\<rparr>) m)"
| remove_move: "turn_of m s = Some t \<Longrightarrow> turn_move g N m (remove_turn s t preserve m)"
| stop_move: "turn_of m s = Some t \<Longrightarrow> turn_move g N m (begin_stop_turn s t m)"
| admit_move: "(\<And>t. turn_of m s = Some t \<Longrightarrow> ts_reserved t \<and> ts_phase t = PhaseLLM) \<Longrightarrow>
    ph \<in> {PhaseLLM, PhaseCompact} \<Longrightarrow> (rs \<longrightarrow> \<not> w) \<Longrightarrow> a = [] \<or> a \<in> N \<Longrightarrow>
    turn_move g N m (install_turn s (make_turn m ph a e i rs ready w) m)"
| continue_move: "turn_of m s = Some t \<Longrightarrow>
    ts_phase t \<in> {PhaseLLM, PhaseTool, PhaseAwaitRiskConfirm} \<Longrightarrow>
    (g \<longrightarrow> ts_phase t \<noteq> PhaseAwaitRiskConfirm) \<Longrightarrow> finish_attempt_chan t m = (t1, m1) \<Longrightarrow>
    turn_move g N m (install_turn s (make_turn m1 PhaseLLM [] e i True True False) m1)"
| ask_move: "turn_of m s = Some t \<Longrightarrow> ts_phase t = PhaseTool \<Longrightarrow> n = tm_next m \<Longrightarrow>
    turn_move g N m (put_turn s (t\<lparr>ts_phase := PhaseAwaitRiskConfirm, ts_confirm := Some c,
       ts_response := Some n, ts_refresh := Some (n + 1), ts_risk_done := Some (n + 2)\<rparr>)
       (m\<lparr>tm_next := n + 3\<rparr>))"
| answer_move: "turn_of m s = Some t \<Longrightarrow> ts_phase t = PhaseAwaitRiskConfirm \<Longrightarrow>
    turn_move g N m (put_turn s (t\<lparr>ts_confirm := None, ts_response := None, ts_refresh := None,
       ts_risk_done := None, ts_phase := PhaseTool\<rparr>) (close_chan (ts_risk_done t) m))"

abbreviation turn_moves :: "bool \<Rightarrow> string set \<Rightarrow> turn_manager \<Rightarrow> turn_manager \<Rightarrow> bool" where
  "turn_moves g N \<equiv> (turn_move g N)\<^sup>*\<^sup>*"

lemma quiet_inv:
  assumes "turn_inv m" and "quiet m m'"
  shows "turn_inv m'"
proof -
  have "turn_of m' = turn_of m"
    using assms(2) by (simp add: quiet_def turn_of_def fun_eq_iff)
  with assms show ?thesis by (auto simp: turn_inv_def base_inv_def quiet_def)
qed

lemma edited_inv:
  assumes "turn_inv m" and "turn_of m s = Some t" and "edited t t'"
  shows "turn_inv (put_turn s t' m)"
proof (rule inv_at_put)
  have "turn_chans t' = turn_chans t"
    using assms(3) by (simp add: turn_chans_def edited_def)
  with inv_at_turn [OF assms(1,2)] show "inv_at s (turn_chans t') m" by simp
  note shape = turn_invD(1) [OF assms(1,2)]
  have eqs: "ts_attempt_done t' = ts_attempt_done t" "ts_risk_done t' = ts_risk_done t"
    "ts_confirm t' = ts_confirm t" "ts_response t' = ts_response t" "ts_refresh t' = ts_refresh t"
    and pending: "ts_phase t' = PhaseStopping \<longrightarrow> ts_pending t = [] \<longrightarrow> ts_pending t' = []"
    using assms(3) by (simp_all add: edited_def)
  from assms(3) consider "ts_phase t' = ts_phase t"
    | "ts_phase t = PhaseLLM" "ts_phase t' = PhaseTool"
    | "ts_phase t = PhaseLLM" "ts_phase t' = PhaseAwaitAppendConfirm"
    by (auto simp: edited_def phase_edit_def)
  then show "turn_shape t'"
    using shape pending by cases (simp_all add: turn_shape_def eqs)
qed

lemma install_inv:
  assumes "inv_at s {} m" and "ph \<in> {PhaseLLM, PhaseCompact}"
  shows "turn_inv (install_turn s (make_turn m ph a e i rs ready w) m)"
  unfolding install_turn_def
proof (rule inv_at_put)
  have "inv_at s ({} \<union> {tm_next m ..< tm_next m + 2}) (m\<lparr>tm_next := tm_next m + 2\<rparr>)"
    by (rule inv_at_fresh [OF assms(1)])
  then show "inv_at s (turn_chans (make_turn m ph a e i rs ready w)) (m\<lparr>tm_next := tm_next m + 2\<rparr>)"
    by (rule inv_at_mono) (auto simp: make_turn_def turn_chans_def)
  show "turn_shape (make_turn m ph a e i rs ready w)"
    using assms(2) by (auto simp: turn_shape_def make_turn_def)
qed

lemma ask_inv:
  assumes "turn_inv m" and "turn_of m s = Some t" and "ts_phase t = PhaseTool"
  shows "turn_inv (put_turn s (t\<lparr>ts_phase := PhaseAwaitRiskConfirm, ts_confirm := Some c,
       ts_response := Some n, ts_refresh := Some k, ts_risk_done := Some (tm_next m + 2)\<rparr>)
       (m\<lparr>tm_next := tm_next m + 3\<rparr>))"
proof (rule inv_at_put)
  have "inv_at s (turn_chans t \<union> {tm_next m ..< tm_next m + 3}) (m\<lparr>tm_next := tm_next m + 3\<rparr>)"
    by (rule inv_at_fresh [OF inv_at_turn [OF assms(1,2)]])
  then show "inv_at s (turn_chans (t\<lparr>ts_phase := PhaseAwaitRiskConfirm, ts_confirm := Some c,
       ts_response := Some n, ts_refresh := Some k, ts_risk_done := Some (tm_next m + 2)\<rparr>))
       (m\<lparr>tm_next := tm_next m + 3\<rparr>)"
    by (rule inv_at_mono) (auto simp: turn_chans_def)
  show "turn_shape (t\<lparr>ts_phase := PhaseAwaitRiskConfirm, ts_confirm := Some c,
       ts_response := Some n, ts_refresh := Some k, ts_risk_done := Some (tm_next m + 2)\<rparr>)"
    using turn_invD(2) [OF assms(1,2)] by (auto simp: turn_shape_def turn_chans_def)
qed

lemma answer_inv:
  assumes "turn_inv m" and "turn_of m s = Some t" and "ts_phase t = PhaseAwaitRiskConfirm"
  shows "turn_inv (put_turn s (t\<lparr>ts_confirm := None, ts_response := None, ts_refresh := None,
       ts_risk_done := None, ts_phase := PhaseTool\<rparr>) (close_chan (ts_risk_done t) m))"
proof -
  note shape = turn_invD(1) [OF assms(1,2)]
  with assms(3) obtain d where d: "ts_risk_done t = Some d" by (auto simp: turn_shape_def)
  then have "inv_at s (turn_chans t - {d}) (close_chan (ts_risk_done t) m)"
    using inv_at_close [OF inv_at_turn [OF assms(1,2)], of d] by (simp add: turn_chans_def)
  then have "inv_at s (turn_chans (t\<lparr>ts_confirm := None, ts_response := None, ts_refresh := None,
       ts_risk_done := None, ts_phase := PhaseTool\<rparr>)) (close_chan (ts_risk_done t) m)"
    by (rule inv_at_mono) (use shape d in \<open>auto simp: turn_chans_def turn_shape_def\<close>)
  then show ?thesis by (rule inv_at_put) (simp add: turn_shape_def)
qed

lemma turn_move_inv: "turn_move g N m m' \<Longrightarrow> turn_inv m \<Longrightarrow> turn_inv m'"
proof (induction rule: turn_move.induct)
  case (end_attempt_move m s t t1 m1)
  note shape = turn_invD(1) [OF end_attempt_move.prems end_attempt_move.hyps(1)]
  note i = inv_at_finish_attempt [OF inv_at_turn [OF end_attempt_move.prems end_attempt_move.hyps(1)]
      shape end_attempt_move.hyps(3)]
  show ?case
    by (rule inv_at_put [OF i(1)])
      (use shape end_attempt_move.hyps(2) i(2) in \<open>simp add: turn_shape_def\<close>)
next
  case (resume_move m s t i)
  have "turn_shape t" by (rule turn_invD(1) [OF resume_move.prems resume_move.hyps(1)])
  with inv_at_turn [OF resume_move.prems resume_move.hyps(1)] resume_move.hyps(2)
  show ?case by (intro inv_at_put) (auto simp: turn_chans_def turn_shape_def)
next
  case (continue_move m s t t1 m1 e i)
  note shape = turn_invD(1) [OF continue_move.prems continue_move.hyps(1)]
  note i = inv_at_finish_attempt [OF inv_at_turn [OF continue_move.prems continue_move.hyps(1)]
      shape continue_move.hyps(4)]
  from inv_at_mono [OF i(1)] show ?case by (intro install_inv) auto
next
  case (ask_move m s t n c)
  then show ?case using ask_inv by metis
qed (auto intro: quiet_inv edited_inv remove_turn_inv begin_stop_turn_inv install_inv inv_at_none
  answer_inv)

lemma turn_moves_inv: "turn_moves g N m m' \<Longrightarrow> turn_inv m \<Longrightarrow> turn_inv m'"
  by (induction rule: rtranclp_induct) (auto intro: turn_move_inv)

end
