(* ===== verification/Turn_Props.thy ===== *)
theory Turn_Props
  imports Turn_Lifecycle_Laws
begin

text \<open>
  Properties of the turn table: safety of every sequence of calls, ownership of attempts, no
  lost completion, at most one answer to a risk confirmation, and the phases a session passes
  through.  They rest on \<open>turn_step_moves\<close>: every call is a sequence of protocol moves.
\<close>

section \<open>Every call is a sequence of moves\<close>

text \<open>
  The discipline of \<open>agent/execution\<close>: \<open>ResumeAppend\<close> is called under the session lock after a
  snapshot showed no unfinished attempt, and \<open>CompleteTurn\<close> by the attempt itself, which is
  not waiting for a decision then.
\<close>

fun disciplined :: "turn_manager \<Rightarrow> turn_call \<Rightarrow> bool" where
  "disciplined m (ResumeAppend s) = (sn_attempt_done (snapshot s m) = None)"
| "disciplined m (CompleteTurn s a) = (sn_phase (snapshot s m) \<noteq> PhaseAwaitRiskConfirm)"
| "disciplined m c = True"

lemma one_move: "turn_move g N m m' \<Longrightarrow> turn_moves g N m m'"
  by (rule r_into_rtranclp)

lemma quiet_refreshes: "quiet m (m\<lparr>tm_refreshes := r\<rparr>)"
  by (auto simp: quiet_def turn_inv_def base_inv_def response_inv_def)

lemma quiet_responses:
  "(\<And>c. tm_next m \<le> c \<Longrightarrow> response_inv m \<Longrightarrow> q c = None) \<Longrightarrow> quiet m (m\<lparr>tm_responses := q\<rparr>)"
  by (auto simp: quiet_def turn_inv_def base_inv_def response_inv_def)

lemma quiet_take: "quiet m (m\<lparr>tm_responses := (tm_responses m)(c := None)\<rparr>)"
  by (rule quiet_responses) (simp add: response_inv_def)

lemma quiet_offer:
  "turn_of m s = Some t \<Longrightarrow> ts_response t = Some c \<Longrightarrow>
     quiet m (m\<lparr>tm_responses := (tm_responses m)(c := d)\<rparr>)"
  by (rule quiet_responses) (fastforce simp: response_inv_def)


lemma quiet_executions:
  "(\<And>e x. turn_inv m \<Longrightarrow> f e = Some x \<Longrightarrow> execution_inv x) \<Longrightarrow> quiet m (m\<lparr>tm_executions := f\<rparr>)"
  by (auto simp: quiet_def turn_inv_def base_inv_def response_inv_def)

lemmas edit_in_place = one_move [OF edit_move]
lemmas quiet_in_place = one_move [OF quiet_move]

lemma moves_executions:
  "turn_moves g N m (turn_step m (NewExecution e i))"
  "turn_moves g N m (turn_step m (ExecutionCall e c))"
  by (auto intro!: quiet_in_place quiet_executions split: if_splits
      simp: new_execution_inv execution_step_inv turn_inv_def base_inv_def)

lemma moves_stop_session: "turn_moves g N m (stop_session s m)"
  by (auto simp: stop_session_def split: option.split intro: one_move stop_move)

lemma moves_stop_all: "turn_moves g N m (stop_all m)"
proof -
  have "turn_moves g N m (foldl (\<lambda>n s. stop_session s n) m ss)" for ss
    by (induction ss rule: rev_induct) (auto intro: rtranclp_trans moves_stop_session)
  then show ?thesis by (simp add: stop_all_def)
qed

lemma moves_wait_cancel: "turn_moves g N m (fst (wait_cancel w m))"
  by (auto simp: wait_cancel_def owned_turn_Some split: option.split intro: one_move stop_move)

lemma moves_wait_return: "turn_moves g N m n \<Longrightarrow> turn_moves g N m (fst (wait_return w n r))"
  by (simp add: wait_return_def) (blast intro: rtranclp_trans moves_wait_cancel)

lemma moves_wait_expire: "turn_moves g N m (fst (wait_expire w m))"
  by (auto simp: wait_expire_def owned_turn_Some take_refresh_def split: option.split
      intro: one_move stop_move quiet_move quiet_refreshes)

lemma moves_wait_complete: "turn_moves g N m (fst (wait_complete w d err m))"
  by (auto simp: wait_complete_def owned_turn_Some split: option.split
      intro: one_move stop_move answer_move)

lemma moves_wait_event: "turn_moves g N m (fst (wait_risk_event w timed err ev m))"
proof (cases ev)
  case EventResponse
  have "turn_moves g N m (fst (wait_complete w d err
      (m\<lparr>tm_responses := (tm_responses m)(c := None)\<rparr>)))" for d c
    by (rule rtranclp_trans [OF quiet_in_place [OF quiet_take] moves_wait_complete])
  with EventResponse show ?thesis
    by (auto simp: wait_risk_event_def split: option.split prod.split intro: moves_wait_return)
      (metis fst_conv moves_wait_return)
next
  case EventDone
  then show ?thesis
    using moves_wait_complete [of g N m w no_decision err]
    by (auto simp: wait_risk_event_def split: prod.split intro: moves_wait_return)
next
  case EventRefresh
  then show ?thesis
    by (auto simp: wait_risk_event_def take_refresh_def intro: quiet_in_place quiet_refreshes)
next
  case EventContext
  then show ?thesis
    by (auto simp: wait_risk_event_def split: option.split intro: moves_wait_return)
next
  case EventTimer
  then show ?thesis
    using moves_wait_expire [of g N m w]
    by (auto simp: wait_risk_event_def split: option.split prod.split intro: moves_wait_return)
qed

fun started_names :: "turn_call \<Rightarrow> string set" where
  "started_names (StartCompactRun s r e) = {r}"
| "started_names (StartAttempt s i e a) = {a}"
| "started_names c = {}"

lemma moves_admission:
  "r \<in> N \<Longrightarrow> turn_moves g N m (fst (start_compact_run s r e m))"
  "a \<in> N \<Longrightarrow> turn_moves g N m (fst (start_attempt s i e a m))"
  "turn_moves g N m (fst (reserve_execution s i e m))"
  by (auto simp: start_compact_run_def start_attempt_def reserve_execution_def Let_def
      split: option.split intro!: one_move admit_move)

lemma moves_attempts:
  "turn_moves g N m (fst (complete_compact_run s r m))"
  "turn_moves g N m (fst (start_tool_phase s a m))"
  "turn_moves g N m (stop_attempt s a m)"
  "turn_moves g N m (add_tool_use s n a m)"
  by (auto simp: complete_compact_run_def start_tool_phase_def stop_attempt_def add_tool_use_def
      matching_turn_Some edited_def phase_edit_def split: option.split
      intro!: edit_in_place intro: one_move stop_move remove_move)

lemma moves_finish_attempt: "turn_moves g N m (finish_attempt s a m)"
  by (auto simp: finish_attempt_def matching_turn_Some split: option.split prod.split
      intro: one_move remove_move end_attempt_move)

lemma moves_complete_turn:
  assumes "g \<longrightarrow> disciplined m (CompleteTurn s a)"
  shows "turn_moves g N m (fst (complete_turn s a m))"
proof (cases "matching_turn m s a")
  case (Some t)
  then have t: "turn_of m s = Some t" by (simp add: matching_turn_Some)
  obtain t1 m1 where f: "finish_attempt_chan t m = (t1, m1)" by fastforce
  from assms t have g: "g \<longrightarrow> ts_phase t \<noteq> PhaseAwaitRiskConfirm"
    by (simp add: snapshot_def snapshot_turn_def)
  show ?thesis
    using continue_move [OF t _ g f] remove_move [OF t]
    by (auto simp: complete_turn_def Some Let_def f split: option.split intro!: one_move)
qed (simp add: complete_turn_def)

lemma moves_resume_append:
  assumes "g \<longrightarrow> disciplined m (ResumeAppend s)"
  shows "turn_moves g N m (fst (resume_append s m))"
proof (cases "turn_of m s")
  case (Some t)
  with assms have g: "g \<longrightarrow> ts_attempt_done t = None"
    by (simp add: snapshot_def snapshot_turn_def)
  show ?thesis
    using resume_move [OF Some _ g] by (auto simp: resume_append_def Some Let_def intro!: one_move)
qed (simp add: resume_append_def)

lemma moves_pending:
  "turn_moves g N m (fst (drain_merged_input s a m))"
  "turn_moves g N m (fst (begin_append s a i m))"
  by (auto simp: drain_merged_input_def begin_append_def matching_turn_Some edited_def
      phase_edit_def split: option.split intro!: edit_in_place)

lemma moves_append_pending: "turn_moves g N m (fst (append_pending_input s i m))"
proof (cases "turn_of m s")
  case (Some t)
  have e: "ts_phase t \<in> {PhaseAwaitAppendConfirm, PhaseTool} \<Longrightarrow>
      turn_moves g N m (put_turn s (t\<lparr>ts_pending := q\<rparr>) m)" for q
    by (rule edit_in_place [OF Some]) (auto simp: edited_def phase_edit_def)
  have r: "turn_moves g N n (refresh_wait u n)" for u n
    by (auto simp: refresh_wait_def split: option.split intro: quiet_in_place quiet_refreshes)
  show ?thesis
    using e rtranclp_trans [OF e r]
    by (auto simp: append_pending_input_def Some Let_def split: prod.split)
qed (simp add: append_pending_input_def)

lemma moves_begin_risk: "turn_moves g N m (fst (begin_risk_confirmation s c a m))"
proof (cases "matching_turn m s a")
  case (Some t)
  then have "turn_of m s = Some t" by (simp add: matching_turn_Some)
  from one_move [OF ask_move [OF this _ refl]] show ?thesis
    by (auto simp: begin_risk_confirmation_def Some Let_def)
qed (simp add: begin_risk_confirmation_def)

lemma moves_confirmations:
  "turn_moves g N m (fst (resolve_risk_confirmation s d m))"
  "turn_moves g N m (fst (refresh_risk_confirmation s m))"
  by (auto simp: resolve_risk_confirmation_def refresh_risk_confirmation_def refresh_wait_def
      split: option.split intro!: quiet_in_place quiet_refreshes quiet_offer)

lemma moves_pending_confirmation: "turn_moves g N m (fst (pending_risk_confirmation s m))"
proof (cases "\<exists>t. turn_of m s = Some t \<and> ts_phase t = PhaseAwaitRiskConfirm \<and> ts_confirm t = None")
  case True
  then have "\<not> turn_inv m" using turn_invD(1) by (fastforce simp: turn_shape_def)
  then have "quiet m (m\<lparr>tm_panicked := True\<rparr>)" by (simp add: quiet_def response_inv_def turn_of_def)
  with True show ?thesis by (auto simp: pending_risk_confirmation_def intro: quiet_in_place)
qed (auto simp: pending_risk_confirmation_def split: option.split)

lemma turn_step_moves:
  "(g \<longrightarrow> disciplined m c) \<Longrightarrow> started_names c \<subseteq> N \<Longrightarrow> turn_moves g N m (turn_step m c)"
  by (cases c) (simp_all only: turn_step.simps moves_executions [unfolded turn_step.simps]
      moves_stop_session moves_stop_all moves_wait_cancel moves_wait_event moves_admission
      moves_attempts moves_finish_attempt moves_complete_turn moves_resume_append moves_pending
      moves_append_pending moves_begin_risk moves_confirmations moves_pending_confirmation,
      auto simp: wait_risk_enter_def split: option.split intro: moves_wait_return moves_admission)

section \<open>Safety\<close>

lemma turn_step_inv: "turn_inv m \<Longrightarrow> turn_inv (turn_step m c)"
  by (rule turn_moves_inv [OF turn_step_moves [of False m c "started_names c"]]) simp_all

lemma new_turn_manager_inv: "turn_inv new_turn_manager"
  by (simp add: turn_inv_def base_inv_def entries_inv_def apart_inv_def new_turn_manager_def
      turn_of_def)

interpretation turn_machine: guarded_machine new_turn_manager turn_step turn_inv
  by unfold_locales (rule new_turn_manager_inv, erule turn_step_inv)

lemma turn_inv_apart:
  "turn_inv m \<Longrightarrow> turn_of m r = Some t \<Longrightarrow> turn_of m r' = Some t' \<Longrightarrow> r \<noteq> r' \<Longrightarrow>
     turn_chans t \<inter> turn_chans t' = {}"
  unfolding turn_inv_def apart_inv_def by blast

text \<open>
  C1: whatever calls arrive, in whatever order, from whatever attempts and stale handles, the
  turn table never panics (it closes no channel twice, closes no nil channel and reads no nil
  confirmation).  In every state it reaches, a session that waits for a risk decision holds an
  open \<open>Done\<close> channel, a confirmation to show and a channel for the answer, a stopping
  session still has its unfinished attempt and no queued input, and no two sessions share a
  completion channel.
\<close>

theorem turn_table_safe:
  assumes "turn_of (foldl turn_step new_turn_manager cs) s = Some t"
  shows "\<not> tm_panicked (foldl turn_step new_turn_manager cs) \<and>
    distinct (tm_closed (foldl turn_step new_turn_manager cs)) \<and>
    (ts_phase t = PhaseAwaitRiskConfirm \<longleftrightarrow> ts_risk_done t \<noteq> None) \<and>
    (ts_phase t = PhaseAwaitRiskConfirm \<longrightarrow> ts_confirm t \<noteq> None \<and> ts_response t \<noteq> None) \<and>
    (ts_phase t = PhaseStopping \<longrightarrow> ts_attempt_done t \<noteq> None \<and> ts_pending t = []) \<and>
    turn_chans t \<inter> set (tm_closed (foldl turn_step new_turn_manager cs)) = {} \<and>
    (\<forall>r u. r \<noteq> s \<longrightarrow> turn_of (foldl turn_step new_turn_manager cs) r = Some u \<longrightarrow>
       turn_chans t \<inter> turn_chans u = {})"
proof -
  let ?m = "foldl turn_step new_turn_manager cs"
  have i: "turn_inv ?m" by (rule turn_machine.reachable_inv)
  note d = turn_invD [OF i assms]
  have "\<not> tm_panicked ?m \<and> distinct (tm_closed ?m)"
    using i by (simp add: turn_inv_def base_inv_def)
  moreover have "\<forall>r u. r \<noteq> s \<longrightarrow> turn_of ?m r = Some u \<longrightarrow> turn_chans t \<inter> turn_chans u = {}"
    using turn_inv_apart [OF i assms] by blast
  ultimately show ?thesis using d(1,3) unfolding turn_shape_def by blast
qed

text \<open>A session that runs a tool and asks for a decision, with one input queued.\<close>

definition ask_call :: turn_call where
  "ask_call = BeginRiskConfirmation ''s''
     \<lparr>rc_tool = ''write'', rc_arguments = [], rc_risk = ''high'', rc_detail = []\<rparr> ''a''"

definition asking_calls :: "turn_call list" where
  "asking_calls =
     [NewExecution 0 ''run_1'', StartAttempt ''s'' (text_input ''go'') (Some 0) ''a'',
      StartToolPhase ''s'' ''a'', AppendPendingInput ''s'' (text_input ''more''), ask_call]"

definition asking_state :: turn_manager where
  "asking_state = foldl turn_step new_turn_manager asking_calls"

definition asking_turn :: turn_state where
  "asking_turn = the (turn_of asking_state ''s'')"

lemma asking_turn_of:
  "turn_of (foldl turn_step new_turn_manager asking_calls) ''s'' = Some asking_turn"
proof -
  have "turn_of asking_state ''s'' \<noteq> None" by code_simp
  then show ?thesis by (simp add: asking_turn_def asking_state_def)
qed

theorem turn_table_safe_witness:
  "\<not> tm_panicked asking_state \<and> ts_risk_done asking_turn \<noteq> None \<and> ts_confirm asking_turn \<noteq> None"
proof -
  have "ts_phase asking_turn = PhaseAwaitRiskConfirm" by code_simp
  then show ?thesis
    using turn_table_safe [OF asking_turn_of] unfolding asking_state_def by blast
qed

section \<open>Attempts own the turn\<close>

lemma quiet_turn_of: "quiet m m' \<Longrightarrow> turn_of m' = turn_of m"
  by (simp add: quiet_def turn_of_def fun_eq_iff)

lemma finish_attempt_chan_next:
  "finish_attempt_chan t m = (t1, m1) \<Longrightarrow> turn_of m1 = turn_of m \<and> tm_next m1 = tm_next m \<and>
     tm_responses m1 = tm_responses m \<and> t1 = t\<lparr>ts_attempt_done := None\<rparr>"
  by (cases "ts_attempt_done t")
    (auto simp: finish_attempt_chan_def close_chan_def turn_of_def fun_eq_iff)

lemma stop_turn_next:
  "stop_turn t m = (t1, m1) \<Longrightarrow> turn_of m1 = turn_of m \<and> tm_next m1 = tm_next m \<and>
     tm_responses m1 = tm_responses m \<and> t1 = t\<lparr>ts_risk_done := None\<rparr>"
  by (cases "ts_risk_done t") (auto simp: stop_turn_def close_chan_def turn_of_def fun_eq_iff)

lemma put_responses [simp]:
  "tm_responses (put_turn s t m) = tm_responses m"
  "tm_responses (delete_turn s m) = tm_responses m"
  "tm_responses (finish_execution e err m) = tm_responses m"
  "tm_responses (close_chan c m) = tm_responses m"
  by (simp_all add: put_turn_def delete_turn_def finish_execution_def close_chan_def split: option.split)

lemma remove_turn_effect:
  "turn_of (remove_turn s t p m) r = (if r = s then None else turn_of m r) \<and>
   tm_next (remove_turn s t p m) = tm_next m \<and> tm_responses (remove_turn s t p m) = tm_responses m"
  by (auto simp: remove_turn_def Let_def split: prod.split option.split
      dest!: stop_turn_next finish_attempt_chan_next)

lemma begin_stop_turn_effect:
  "turn_of (begin_stop_turn s t m) r =
     (if r = s then
        (if ts_attempt_done t = None then None
         else Some (t\<lparr>ts_risk_done := None, ts_phase := PhaseStopping, ts_pending := []\<rparr>))
      else turn_of m r) \<and>
   tm_next (begin_stop_turn s t m) = tm_next m \<and>
   tm_responses (begin_stop_turn s t m) = tm_responses m"
  by (auto simp: begin_stop_turn_def remove_turn_effect split: prod.split dest!: stop_turn_next)

lemmas move_effects = remove_turn_effect begin_stop_turn_effect install_turn_def make_turn_def

text \<open>An attempt that a session does not run now, and that nobody starts again, is retired.\<close>

definition retired :: "string \<Rightarrow> string \<Rightarrow> turn_manager \<Rightarrow> bool" where
  "retired s a m \<longleftrightarrow> (\<forall>t. turn_of m s = Some t \<longrightarrow> ts_attempt t \<noteq> a)"

lemma turn_move_retired:
  "turn_move g N m m' \<Longrightarrow> retired s a m \<Longrightarrow> a \<notin> N \<Longrightarrow> a \<noteq> [] \<Longrightarrow> retired s a m'"
  by (induction rule: turn_move.induct)
    (auto simp: retired_def edited_def move_effects quiet_turn_of split: if_splits
      dest!: finish_attempt_chan_next)

lemma turn_step_retired:
  "retired s a m \<Longrightarrow> a \<noteq> [] \<Longrightarrow> a \<notin> started_names c \<Longrightarrow> retired s a (turn_step m c)"
proof -
  assume r: "retired s a m" and a: "a \<noteq> []" "a \<notin> started_names c"
  have "turn_moves False (started_names c) m (turn_step m c)"
    by (rule turn_step_moves) simp_all
  then show ?thesis by (induction rule: rtranclp_induct) (use r a turn_move_retired in blast)+
qed

definition keeps_retired :: "string \<Rightarrow> turn_manager \<Rightarrow> turn_call \<Rightarrow> turn_manager" where
  "keeps_retired a m c = (if a \<in> started_names c then m else turn_step m c)"

interpretation retirement: one_way_flag "keeps_retired a" "\<lambda>m. retired s a m \<and> a \<noteq> []" for s a
  by unfold_locales (auto simp: keeps_retired_def turn_step_retired)

lemma foldl_keeps_retired:
  "\<forall>c \<in> set cs. a \<notin> started_names c \<Longrightarrow> foldl (keeps_retired a) m cs = foldl turn_step m cs"
  by (induction cs arbitrary: m) (auto simp: keeps_retired_def)

fun owner_call :: "string \<Rightarrow> string \<Rightarrow> turn_call \<Rightarrow> bool" where
  "owner_call s a (AddToolUse r n b) = (r = s \<and> b = a)"
| "owner_call s a (CompleteCompactRun r b) = (r = s \<and> b = a)"
| "owner_call s a (StartToolPhase r b) = (r = s \<and> b = a)"
| "owner_call s a (CompleteTurn r b) = (r = s \<and> b = a)"
| "owner_call s a (FinishAttempt r b) = (r = s \<and> b = a)"
| "owner_call s a (StopAttempt r b) = (r = s \<and> b = a)"
| "owner_call s a (DrainMergedInput r b) = (r = s \<and> b = a)"
| "owner_call s a (BeginRiskConfirmation r c b) = (r = s \<and> b = a)"
| "owner_call s a (BeginAppend r b i) = (r = s \<and> b = a)"
| "owner_call s a c = False"

lemma retired_matching: "retired s a m \<Longrightarrow> matching_turn m s a = None"
  by (auto simp: retired_def matching_turn_def split: option.split)

lemma retired_owner_call: "retired s a m \<Longrightarrow> owner_call s a c \<Longrightarrow> turn_step m c = m"
  by (cases c) (auto simp: retired_matching add_tool_use_def complete_compact_run_def
      start_tool_phase_def complete_turn_def finish_attempt_def stop_attempt_def
      drain_merged_input_def begin_risk_confirmation_def begin_append_def retired_def
      split: option.split)

text \<open>
  C8: only the current attempt acts on a turn.  Once a session no longer runs attempt \<open>a\<close>,
  and until somebody starts an attempt of that name, every call made in the name of \<open>a\<close>
  leaves the whole table as it is, whatever other calls came in between.
\<close>

theorem retired_attempt_powerless:
  assumes "retired s a m" and "a \<noteq> []" and "\<forall>c \<in> set cs. a \<notin> started_names c"
    and "owner_call s a c"
  shows "turn_step (foldl turn_step m cs) c = foldl turn_step m cs"
proof (rule retired_owner_call [OF _ assms(4)])
  show "retired s a (foldl turn_step m cs)"
    using retirement.run_raised [of s a m cs] assms foldl_keeps_retired by simp
qed

theorem retired_attempt_powerless_witness:
  "turn_step (foldl turn_step asking_state [StopSession ''s'', FinishAttempt ''s'' ''a''])
     (CompleteTurn ''s'' ''old'') =
   foldl turn_step asking_state [StopSession ''s'', FinishAttempt ''s'' ''a'']"
proof (rule retired_attempt_powerless)
  show "retired ''s'' ''old'' asking_state"
  proof -
    have "ts_attempt asking_turn = ''a''" by code_simp
    then show ?thesis using asking_turn_of by (simp add: retired_def asking_state_def)
  qed
qed simp_all

section \<open>Completions are not lost\<close>

lemma closed_close: "set (tm_closed (close_chan (Some c) m)) = insert c (set (tm_closed m))"
  by (auto simp: close_chan_def)

lemma finish_attempt_chan_closed:
  "finish_attempt_chan t m = (t1, m1) \<Longrightarrow>
     set (tm_closed m1) = set_option (ts_attempt_done t) \<union> set (tm_closed m) \<and>
     t1 = t\<lparr>ts_attempt_done := None\<rparr>"
  by (cases "ts_attempt_done t") (auto simp: finish_attempt_chan_def closed_close)

lemma stop_turn_closed:
  "stop_turn t m = (t1, m1) \<Longrightarrow>
     set (tm_closed m1) = set_option (ts_risk_done t) \<union> set (tm_closed m)"
  by (cases "ts_risk_done t") (auto simp: stop_turn_def closed_close)

lemma remove_turn_closed:
  "set (tm_closed (remove_turn s t p m)) = turn_chans t \<union> set (tm_closed m)"
  by (auto simp: remove_turn_def Let_def turn_chans_def split: prod.split option.split
      dest!: finish_attempt_chan_closed stop_turn_closed)

lemma begin_stop_turn_closed:
  "set (tm_closed (begin_stop_turn s t m)) =
     (if ts_attempt_done t = None then turn_chans t else set_option (ts_risk_done t)) \<union> set (tm_closed m)"
  by (auto simp: begin_stop_turn_def remove_turn_closed split: prod.split dest!: stop_turn_closed)

definition held :: "string \<Rightarrow> nat \<Rightarrow> turn_manager \<Rightarrow> bool" where
  "held s c m \<longleftrightarrow> (\<exists>t. turn_of m s = Some t \<and> c \<in> turn_chans t)"

definition accounted :: "string \<Rightarrow> nat \<Rightarrow> turn_manager \<Rightarrow> bool" where
  "accounted s c m \<longleftrightarrow> c \<in> set (tm_closed m) \<or> held s c m"

text \<open>A turn reserved for a continuation has no unfinished attempt.\<close>

definition reserved_inv :: "turn_manager \<Rightarrow> bool" where
  "reserved_inv m \<longleftrightarrow> (\<forall>s t. turn_of m s = Some t \<longrightarrow> ts_reserved t \<longrightarrow> ts_attempt_done t = None)"

lemma turn_move_reserved: "turn_move True N m m' \<Longrightarrow> reserved_inv m \<Longrightarrow> reserved_inv m'"
  by (induction rule: turn_move.induct)
    (auto simp: reserved_inv_def edited_def move_effects quiet_turn_of split: if_splits
      dest!: finish_attempt_chan_next)

lemma accounted_put:
  "accounted s c m \<Longrightarrow> turn_of m r = Some t \<Longrightarrow> set (tm_closed n) \<supseteq> set (tm_closed m) \<Longrightarrow>
     turn_of n = turn_of m \<Longrightarrow> turn_chans t \<subseteq> turn_chans t' \<union> set (tm_closed n) \<Longrightarrow>
     accounted s c (put_turn r t' n)"
  by (cases "s = r") (auto simp: accounted_def held_def)

lemma turn_move_accounted:
  "turn_move True N m m' \<Longrightarrow> turn_inv m \<Longrightarrow> reserved_inv m \<Longrightarrow> accounted s c m \<Longrightarrow> accounted s c m'"
proof (induction rule: turn_move.induct)
  case (quiet_move m m')
  then show ?case by (simp add: accounted_def held_def quiet_turn_of) (simp add: quiet_def)
next
  case (edit_move m r t t')
  show ?case
    by (rule accounted_put [OF edit_move.prems(3) edit_move.hyps(1)])
      (use edit_move.hyps(2) in \<open>auto simp: edited_def turn_chans_def\<close>)
next
  case (end_attempt_move m r t t1 m1)
  show ?case
    by (rule accounted_put [OF end_attempt_move.prems(3) end_attempt_move.hyps(1)])
      (use end_attempt_move.hyps(3) in \<open>auto simp: turn_chans_def
        dest: finish_attempt_chan_closed finish_attempt_chan_next\<close>)
next
  case (resume_move m r t i)
  show ?case
    by (rule accounted_put [OF resume_move.prems(3) resume_move.hyps(1)]) (auto simp: turn_chans_def)
next
  case (remove_move m r t p)
  then show ?case
    by (auto simp: accounted_def held_def move_effects remove_turn_closed)
next
  case (stop_move m r t)
  then show ?case
    by (auto simp: accounted_def held_def move_effects begin_stop_turn_closed turn_chans_def
        split: if_splits)
next
  case (admit_move m r ph rs w a e i ready)
  have "turn_chans t = {}" if "turn_of m r = Some t" for t
    using that admit_move.hyps(1) [OF that] turn_invD(1) [OF admit_move.prems(1) that]
      admit_move.prems(2) by (auto simp: turn_chans_def reserved_inv_def turn_shape_def)
  with admit_move.prems(3) show ?case
    by (auto simp: accounted_def held_def install_turn_def)
next
  case (continue_move m r t t1 m1 e i)
  have "ts_risk_done t = None"
    using turn_invD(1) [OF continue_move.prems(1) continue_move.hyps(1)] continue_move.hyps(3)
    by (auto simp: turn_shape_def)
  then show ?case
    unfolding install_turn_def
    by (intro accounted_put [OF continue_move.prems(3) continue_move.hyps(1)])
      (use continue_move.hyps(4) in \<open>auto simp: turn_chans_def
        dest: finish_attempt_chan_closed finish_attempt_chan_next\<close>)
next
  case (ask_move m r t n rc)
  have "ts_risk_done t = None"
    using turn_invD(1) [OF ask_move.prems(1) ask_move.hyps(1)] ask_move.hyps(2)
    by (auto simp: turn_shape_def)
  then show ?case
    by (intro accounted_put [OF ask_move.prems(3) ask_move.hyps(1)]) (auto simp: turn_chans_def)
next
  case (answer_move m r t)
  obtain d where "ts_risk_done t = Some d"
    using turn_invD(1) [OF answer_move.prems(1) answer_move.hyps(1)] answer_move.hyps(2)
    by (auto simp: turn_shape_def)
  then show ?case
    by (intro accounted_put [OF answer_move.prems(3) answer_move.hyps(1)])
      (auto simp: turn_chans_def closed_close)
qed

text \<open>A run of calls in which each one keeps the discipline in the state it meets.\<close>

fun disciplined_run :: "turn_manager \<Rightarrow> turn_call list \<Rightarrow> bool" where
  "disciplined_run m [] = True"
| "disciplined_run m (c # cs) = (disciplined m c \<and> disciplined_run (turn_step m c) cs)"

definition disciplined_step :: "turn_manager \<Rightarrow> turn_call \<Rightarrow> turn_manager" where
  "disciplined_step m c = (if disciplined m c then turn_step m c else m)"

definition table_inv :: "turn_manager \<Rightarrow> bool" where
  "table_inv m \<longleftrightarrow> turn_inv m \<and> reserved_inv m"

lemma disciplined_moves: "turn_moves True (started_names c) m (disciplined_step m c)"
  by (simp add: disciplined_step_def turn_step_moves)

lemma moves_table:
  "turn_moves True N m m' \<Longrightarrow> table_inv m \<Longrightarrow>
     table_inv m' \<and> (accounted s c m \<longrightarrow> accounted s c m')"
  by (induction rule: rtranclp_induct)
    (auto simp: table_inv_def intro: turn_move_inv turn_move_reserved turn_move_accounted)

lemma disciplined_step_table:
  "table_inv m \<Longrightarrow> table_inv (disciplined_step m c)"
  "table_inv m \<Longrightarrow> accounted s k m \<Longrightarrow> accounted s k (disciplined_step m c)"
  using moves_table [OF disciplined_moves] by blast+

lemma new_turn_manager_table: "table_inv new_turn_manager"
  unfolding table_inv_def using new_turn_manager_inv
  by (simp add: reserved_inv_def turn_of_def new_turn_manager_def)

interpretation disciplined_machine: guarded_machine new_turn_manager disciplined_step table_inv
  by unfold_locales (rule new_turn_manager_table, erule disciplined_step_table(1))

interpretation accounting: one_way_flag disciplined_step "\<lambda>m. table_inv m \<and> accounted s k m" for s k
  by unfold_locales (auto simp: disciplined_step_table)

lemma disciplined_foldl: "disciplined_run m cs \<Longrightarrow> foldl disciplined_step m cs = foldl turn_step m cs"
  by (induction cs arbitrary: m) (auto simp: disciplined_step_def)

lemma disciplined_run_append:
  "disciplined_run m (cs @ ds) \<longleftrightarrow> disciplined_run m cs \<and> disciplined_run (foldl turn_step m cs) ds"
  by (induction cs arbitrary: m) auto

text \<open>
  Outside that discipline a completion can be lost: a turn that waits for a decision with an input
  queued is completed, and its \<open>Done\<close> channel is neither closed nor held any more.
\<close>

lemma complete_turn_drops_risk_wait:
  "ts_risk_done asking_turn \<noteq> None \<and>
   (let m = turn_step asking_state (CompleteTurn ''s'' ''a'') in
    the (ts_risk_done asking_turn) \<notin> set (tm_closed m) \<and> length (tm_turns m) = 1 \<and>
    map_option ts_risk_done (turn_of m ''s'') = Some None)"
  by code_simp

text \<open>
  C7: no completion is lost.  In a run that keeps the discipline of the agent, a channel that
  announces the end of an attempt or of a risk wait at some moment is, at every later moment,
  either closed or still held by the same session, so whoever waits on it is woken when that
  session's turn ends.
\<close>

theorem completions_accounted:
  assumes "disciplined_run new_turn_manager (cs @ ds)"
    and "turn_of (foldl turn_step new_turn_manager cs) s = Some t" and "c \<in> turn_chans t"
  shows "c \<in> set (tm_closed (foldl turn_step new_turn_manager (cs @ ds))) \<or>
    (\<exists>u. turn_of (foldl turn_step new_turn_manager (cs @ ds)) s = Some u \<and> c \<in> turn_chans u)"
proof -
  let ?m = "foldl disciplined_step new_turn_manager cs"
  from assms(1) have cs: "?m = foldl turn_step new_turn_manager cs"
    and csds: "foldl disciplined_step new_turn_manager (cs @ ds) =
      foldl turn_step new_turn_manager (cs @ ds)"
    using disciplined_foldl disciplined_run_append by blast+
  have "table_inv ?m" by (rule disciplined_machine.reachable_inv)
  moreover have "accounted s c ?m"
    using assms(2,3) by (auto simp: accounted_def held_def cs)
  ultimately have "accounted s c (foldl disciplined_step new_turn_manager (cs @ ds))"
    using accounting.raised_mono [where s = new_turn_manager and cs = cs and ds = ds] by blast
  then show ?thesis by (simp only: accounted_def held_def csds)
qed

theorem completions_accounted_witness:
  "(\<exists>c. ts_risk_done asking_turn = Some c \<and>
     (c \<in> set (tm_closed (foldl turn_step new_turn_manager (asking_calls @ [StopSession ''s'']))) \<or>
      (\<exists>u. turn_of (foldl turn_step new_turn_manager (asking_calls @ [StopSession ''s''])) ''s'' = Some u \<and>
         c \<in> turn_chans u)))"
proof -
  have d: "disciplined_run new_turn_manager (asking_calls @ [StopSession ''s''])" by code_simp
  obtain c where c: "ts_risk_done asking_turn = Some c"
    using complete_turn_drops_risk_wait by blast
  then have "c \<in> turn_chans asking_turn" by (simp add: turn_chans_def)
  from completions_accounted [OF d asking_turn_of this] c show ?thesis by blast
qed

section \<open>Stopping\<close>

definition stopping_or_over :: "string \<Rightarrow> nat \<Rightarrow> turn_manager \<Rightarrow> bool" where
  "stopping_or_over s c m \<longleftrightarrow> c \<in> set (tm_closed m) \<or>
     (\<exists>t. turn_of m s = Some t \<and> ts_phase t = PhaseStopping \<and> ts_attempt_done t = Some c)"

lemma turn_move_closed_mono: "turn_move g N m m' \<Longrightarrow> set (tm_closed m) \<subseteq> set (tm_closed m')"
proof (induction rule: turn_move.induct)
  case (answer_move m s t)
  then show ?case by (auto simp: close_chan_def split: option.split)
qed (auto simp: quiet_def remove_turn_closed begin_stop_turn_closed install_turn_def
  dest: finish_attempt_chan_closed)

lemma turn_move_stopping:
  "turn_move g N m m' \<Longrightarrow> stopping_or_over s c m \<Longrightarrow> stopping_or_over s c m'"
proof (cases "c \<in> set (tm_closed m)")
  case True
  assume "turn_move g N m m'"
  from turn_move_closed_mono [OF this] True show ?thesis by (auto simp: stopping_or_over_def)
next
  case False
  assume "turn_move g N m m'" and "stopping_or_over s c m"
  then obtain u where "turn_of m s = Some u" "ts_phase u = PhaseStopping" "ts_attempt_done u = Some c"
    using False by (auto simp: stopping_or_over_def)
  with \<open>turn_move g N m m'\<close> show ?thesis
  proof (induction rule: turn_move.induct)
    case (quiet_move m m')
    then show ?case by (simp add: stopping_or_over_def quiet_turn_of)
  next
    case (edit_move m r t t')
    then show ?case by (auto simp: stopping_or_over_def edited_def phase_edit_def)
  next
    case (admit_move m r ph rs w a e i ready)
    then have "r \<noteq> s" by auto
    with admit_move show ?case by (simp add: stopping_or_over_def install_turn_def)
  next
    case (continue_move m r t t1 m1 e i)
    then have "r \<noteq> s" by auto
    with continue_move show ?case
      by (auto simp: stopping_or_over_def install_turn_def dest: finish_attempt_chan_next)
  qed (auto simp: stopping_or_over_def move_effects remove_turn_closed begin_stop_turn_closed
    turn_chans_def dest: finish_attempt_chan_next)
qed

lemma turn_step_stopping: "stopping_or_over s c m \<Longrightarrow> stopping_or_over s c (turn_step m d)"
proof -
  assume i: "stopping_or_over s c m"
  have "turn_moves False (started_names d) m (turn_step m d)" by (rule turn_step_moves) simp_all
  then show ?thesis by (induction rule: rtranclp_induct) (use i turn_move_stopping in blast)+
qed

interpretation stopping: one_way_flag turn_step "stopping_or_over s c" for s c
  by unfold_locales (rule turn_step_stopping)

text \<open>
  C9: a stopped session waits for its attempt.  After \<open>StopSession\<close> of a session whose
  attempt is unfinished, that session stays in the stopping phase until the attempt's done
  channel is closed: no call admits, resumes or continues a turn there before, nothing is
  queued, and no risk decision is accepted.
\<close>

theorem stopping_waits_for_attempt:
  assumes "turn_of m s = Some t" and "ts_attempt_done t = Some c"
    and "m' = foldl turn_step (stop_session s m) cs" and "c \<notin> set (tm_closed m')"
  shows "sn_phase (snapshot s m') = PhaseStopping \<and> sn_attempt_done (snapshot s m') = Some c \<and>
    start_attempt s i e a m' = (m', False) \<and> start_compact_run s a e m' = (m', False) \<and>
    reserve_execution s i e m' = (m', False) \<and> append_pending_input s i m' = (m', False) \<and>
    snd (complete_turn s a m') = (empty_input, False) \<and> resolve_risk_confirmation s d m' = (m', False)"
proof -
  have "stopping_or_over s c (stop_session s m)"
    using assms(1,2) by (simp add: stopping_or_over_def stop_session_def begin_stop_turn_effect)
  then have "stopping_or_over s c m'" unfolding assms(3) by (rule stopping.run_raised)
  then obtain u where "turn_of m' s = Some u" "ts_phase u = PhaseStopping" "ts_attempt_done u = Some c"
    using assms(4) by (auto simp: stopping_or_over_def)
  then show ?thesis
    by (auto simp: snapshot_def snapshot_turn_def start_attempt_def start_compact_run_def
        reserve_execution_def append_pending_input_def complete_turn_def matching_turn_def
        resolve_risk_confirmation_def)
qed

theorem stopping_waits_for_attempt_witness:
  "sn_phase (snapshot ''s'' (foldl turn_step (stop_session ''s'' asking_state) [StopAll, ask_call])) =
     PhaseStopping"
proof -
  have t: "turn_of asking_state ''s'' = Some asking_turn"
    using asking_turn_of by (simp add: asking_state_def)
  have c: "ts_attempt_done asking_turn = Some 1" by code_simp
  have o: "1 \<notin> set (tm_closed (foldl turn_step (stop_session ''s'' asking_state) [StopAll, ask_call]))"
    by code_simp
  show ?thesis using stopping_waits_for_attempt [OF t c refl o] by blast
qed

section \<open>Risk decisions\<close>

definition spent :: "risk_wait \<Rightarrow> turn_manager \<Rightarrow> bool" where
  "spent w m \<longleftrightarrow> rw_response w < tm_next m \<and> owned_turn w m = None"

lemma owned_turn_None:
  "owned_turn w m = None \<longleftrightarrow> (\<forall>t. turn_of m (rw_session w) = Some t \<longrightarrow>
     ts_id t \<noteq> rw_turn w \<or> ts_response t \<noteq> Some (rw_response w))"
  by (auto simp: owned_turn_def split: option.split)

lemma turn_move_spent: "turn_move g N m m' \<Longrightarrow> spent w m \<Longrightarrow> spent w m'"
proof (induction rule: turn_move.induct)
  case (quiet_move m m')
  then show ?case by (simp add: spent_def owned_turn_None quiet_turn_of) (simp add: quiet_def)
qed (auto simp: spent_def owned_turn_None edited_def move_effects split: if_splits
  dest!: finish_attempt_chan_next)

lemma response_inv_put:
  "response_inv m \<Longrightarrow> tm_next m \<le> tm_next n \<Longrightarrow> turn_of n = turn_of m \<Longrightarrow>
     tm_responses n = tm_responses m \<Longrightarrow> (\<And>c. ts_response t = Some c \<Longrightarrow> c < tm_next n) \<Longrightarrow>
     response_inv (put_turn s t n)"
  unfolding response_inv_def by (simp split: if_splits) (meson less_le_trans le_trans)

lemma response_invD:
  "response_inv m \<Longrightarrow> turn_of m s = Some t \<Longrightarrow> ts_response t = Some c \<Longrightarrow> c < tm_next m"
  by (simp add: response_inv_def)

lemma turn_move_response: "turn_move g N m m' \<Longrightarrow> response_inv m \<Longrightarrow> response_inv m'"
proof (induction rule: turn_move.induct)
  case (remove_move m s t preserve)
  then show ?case by (auto simp: response_inv_def remove_turn_effect)
next
  case (stop_move m s t)
  then show ?case by (auto simp: response_inv_def begin_stop_turn_effect)
next
  case (edit_move m s t t')
  then have "ts_response t' = ts_response t" by (simp add: edited_def)
  with edit_move.prems edit_move.hyps(1) show ?case
    by (intro response_inv_put) (auto simp: response_inv_def)
qed (auto simp: quiet_def install_turn_def make_turn_def
  intro!: response_inv_put dest: response_invD dest!: finish_attempt_chan_next)

lemma turn_step_spent: "spent w m \<Longrightarrow> spent w (turn_step m c)"
proof -
  assume i: "spent w m"
  have "turn_moves False (started_names c) m (turn_step m c)" by (rule turn_step_moves) simp_all
  then show ?thesis by (induction rule: rtranclp_induct) (use i turn_move_spent in blast)+
qed

interpretation risk_wait_spent: one_way_flag turn_step "spent w" for w
  by unfold_locales (rule turn_step_spent)

lemma turn_step_response: "response_inv m \<Longrightarrow> response_inv (turn_step m c)"
proof -
  assume i: "response_inv m"
  have "turn_moves False (started_names c) m (turn_step m c)" by (rule turn_step_moves) simp_all
  then show ?thesis by (induction rule: rtranclp_induct) (use i turn_move_response in blast)+
qed

interpretation response_machine: guarded_machine new_turn_manager turn_step response_inv
  by unfold_locales
    (simp add: response_inv_def new_turn_manager_def turn_of_def, erule turn_step_response)

text \<open>
  a risk confirmation is answered at most once.  When some completion of a wait is
  answered, every later completion, expiry or cancellation through the same handle is
  refused and changes nothing, whatever calls come in between.
\<close>

lemma risk_answered_once:
  assumes "wait_complete w d err (foldl turn_step new_turn_manager cs) = (m1, r)"
    and "rr_outcome r = RiskAnswered"
  shows "wait_complete w d' err' (foldl turn_step m1 ds) = (foldl turn_step m1 ds, risk_ended RiskStale None) \<and>
    wait_cancel w (foldl turn_step m1 ds) = (foldl turn_step m1 ds, False) \<and>
    wait_expire w (foldl turn_step m1 ds) = (foldl turn_step m1 ds, False)"
proof -
  let ?m = "foldl turn_step new_turn_manager cs"
  obtain t where t: "owned_turn w ?m = Some t" "ts_phase t = PhaseAwaitRiskConfirm"
    and m1: "m1 = put_turn (rw_session w) (t\<lparr>ts_confirm := None, ts_response := None,
      ts_refresh := None, ts_risk_done := None, ts_phase := PhaseTool\<rparr>)
      (close_chan (ts_risk_done t) ?m)"
    using assms by (auto simp: wait_complete_def risk_ended_def split: option.splits if_splits)
  have "rw_response w < tm_next ?m"
    using response_machine.reachable_inv [of cs] t(1) by (auto simp: response_inv_def owned_turn_Some)
  then have "spent w m1" by (simp add: spent_def m1 owned_turn_None)
  then have "spent w (foldl turn_step m1 ds)" by (rule risk_wait_spent.run_raised)
  then show ?thesis by (simp add: spent_def wait_complete_def wait_cancel_def wait_expire_def)
qed

definition asking_wait :: risk_wait where
  "asking_wait = \<lparr>rw_session = ''s'', rw_turn = 0, rw_response = 2, rw_refresh = 3, rw_done = 4\<rparr>"

definition approval :: risk_decision where
  "approval = \<lparr>rd_action = RiskConfirm, rd_extra = [], rd_reason = []\<rparr>"

lemma risk_answered_once_witness:
  "wait_cancel asking_wait (foldl turn_step (fst (wait_complete asking_wait approval None
     (foldl turn_step new_turn_manager asking_calls))) [ask_call]) =
   (foldl turn_step (fst (wait_complete asking_wait approval None
     (foldl turn_step new_turn_manager asking_calls))) [ask_call], False)"
proof -
  have "rr_outcome (snd (wait_complete asking_wait approval None
     (foldl turn_step new_turn_manager asking_calls))) = RiskAnswered"
    by code_simp
  with risk_answered_once [OF prod.collapse [symmetric] this] show ?thesis by blast
qed

text \<open>
  C10: the user's decision reaches the tool.  After \<open>BeginRiskConfirmation\<close> in any reachable
  state, the first valid decision is accepted and every further one refused; the waiting
  loop then returns exactly that decision, and its deferred \<open>Cancel\<close> leaves the turn running
  its tool with nothing left to confirm.
\<close>

theorem risk_decision_delivered:
  assumes "m = foldl turn_step new_turn_manager cs"
    and "begin_risk_confirmation s rc a m = (m1, Some w)"
    and "rd_action d \<in> {RiskConfirm, RiskConfirmTool, RiskConfirmAll, RiskReject}"
    and "resolve_risk_confirmation s d m1 = (m2, ok)"
    and "wait_risk_event w timed None EventResponse m2 = (m3, r)"
  shows "ok \<and> snd (resolve_risk_confirmation s d' m2) = False \<and>
    r = Some \<lparr>rr_decision = d, rr_outcome = RiskAnswered, rr_err = None\<rparr> \<and>
    sn_phase (snapshot s m3) = PhaseTool \<and> pending_risk_confirmation s m3 = (m3, None) \<and>
    sn_attempt (snapshot s m3) = a"
proof -
  obtain t where t: "turn_of m s = Some t" "ts_attempt t = a" "ts_phase t = PhaseTool"
    using assms(2) by (auto simp: begin_risk_confirmation_def matching_turn_Some split: option.splits if_splits)
  let ?u = "t\<lparr>ts_phase := PhaseAwaitRiskConfirm, ts_confirm := Some rc, ts_response := Some (tm_next m),
      ts_refresh := Some (tm_next m + 1), ts_risk_done := Some (tm_next m + 2)\<rparr>"
  have m1: "m1 = put_turn s ?u (m\<lparr>tm_next := tm_next m + 3\<rparr>)"
    and w: "w = \<lparr>rw_session = s, rw_turn = ts_id t, rw_response = tm_next m,
      rw_refresh = tm_next m + 1, rw_done = tm_next m + 2\<rparr>"
    using assms(2) t by (auto simp: begin_risk_confirmation_def matching_turn_def Let_def)
  have "response_inv m" unfolding assms(1) by (rule response_machine.reachable_inv)
  then have free: "tm_responses m (tm_next m) = None" by (simp add: response_inv_def)
  then have m2: "m2 = m1\<lparr>tm_responses := (tm_responses m1)(tm_next m := Some d)\<rparr>" and ok: "ok"
    using assms(3,4) by (auto simp: resolve_risk_confirmation_def m1)
  have no: "snd (resolve_risk_confirmation s d' m2) = False"
    by (auto simp: resolve_risk_confirmation_def m2 m1)
  define m4 where "m4 = put_turn s (?u\<lparr>ts_confirm := None, ts_response := None,
        ts_refresh := None, ts_risk_done := None, ts_phase := PhaseTool\<rparr>)
      (close_chan (Some (tm_next m + 2)) (m2\<lparr>tm_responses := (tm_responses m2)(rw_response w := None)\<rparr>))"
  have c: "wait_complete w d None (m2\<lparr>tm_responses := (tm_responses m2)(rw_response w := None)\<rparr>) =
     (m4, \<lparr>rr_decision = d, rr_outcome = RiskAnswered, rr_err = None\<rparr>)"
    by (simp add: wait_complete_def owned_turn_def w m2 m1 m4_def)
  have "tm_responses m2 (rw_response w) = Some d" by (simp add: m2 w)
  moreover have "wait_cancel w m4 = (m4, False)"
    by (simp add: wait_cancel_def owned_turn_def m4_def w)
  ultimately have "wait_risk_event w timed None EventResponse m2 =
      (m4, Some \<lparr>rr_decision = d, rr_outcome = RiskAnswered, rr_err = None\<rparr>)"
    by (simp add: wait_risk_event_def wait_return_def c)
  with assms(5) have m3: "m3 = m4"
    and r: "r = Some \<lparr>rr_decision = d, rr_outcome = RiskAnswered, rr_err = None\<rparr>" by simp_all
  show ?thesis
    using ok no r t(2)
    by (simp add: m3 m4_def snapshot_def snapshot_turn_def pending_risk_confirmation_def)
qed

text \<open>The state of \<open>asking_calls\<close> before its last call.\<close>

definition tool_calls :: "turn_call list" where
  "tool_calls = [NewExecution 0 ''run_1'', StartAttempt ''s'' (text_input ''go'') (Some 0) ''a'',
     StartToolPhase ''s'' ''a'']"

definition sample_confirmation :: risk_confirmation where
  "sample_confirmation = \<lparr>rc_tool = ''write'', rc_arguments = [], rc_risk = ''high'', rc_detail = []\<rparr>"

theorem risk_decision_delivered_witness:
  "\<exists>m1 m2 m3. begin_risk_confirmation ''s'' sample_confirmation ''a''
      (foldl turn_step new_turn_manager tool_calls) = (m1, Some asking_wait) \<and>
     wait_risk_event asking_wait True None EventResponse m2 =
       (m3, Some \<lparr>rr_decision = approval, rr_outcome = RiskAnswered, rr_err = None\<rparr>)"
proof -
  have w: "snd (begin_risk_confirmation ''s'' sample_confirmation ''a''
      (foldl turn_step new_turn_manager tool_calls)) = Some asking_wait" by code_simp
  obtain m1 where m1: "begin_risk_confirmation ''s'' sample_confirmation ''a''
      (foldl turn_step new_turn_manager tool_calls) = (m1, Some asking_wait)"
    using w by (metis prod.collapse)
  obtain m2 ok where m2: "resolve_risk_confirmation ''s'' approval m1 = (m2, ok)" by fastforce
  obtain m3 r where m3: "wait_risk_event asking_wait True None EventResponse m2 = (m3, r)"
    by fastforce
  have v: "rd_action approval \<in> {RiskConfirm, RiskConfirmTool, RiskConfirmAll, RiskReject}"
    by (simp add: approval_def)
  from risk_decision_delivered [OF refl m1 v m2 m3] m1 m3 show ?thesis by blast
qed

end
