(* ===== verification/Signal_Queue.thy ===== *)
theory Signal_Queue
  imports Elbot_Prelude "HOL-Library.AList"
begin

text \<open>
  The bounded scheduler of the signal framework (\<open>internal/signal/queue.go\<close>, the task of
  \<open>executor.go\<close>).  Every region the code runs under the mutex is one function on the queue
  state; the code between two regions (the callback \<open>Run\<close>, the callback \<open>Finish\<close>) is the
  place where other regions interleave.

  A lane is named by its key; \<open>None\<close> is the lane of the tasks without a key.  The pointer
  \<open>l.ready\<close> is non-nil exactly for the lanes in the ready list, so the list alone is kept.
  \<open>q_admitted\<close>, \<open>q_started\<close> and \<open>q_finished\<close> record which jobs were admitted, handed to a
  worker, and had \<open>Finish\<close> called, in that order; the code keeps no such lists.  A
  \<open>Front\<close> of an empty lane would panic, which the model records.
\<close>

section \<open>Data\<close>

datatype shutdown_policy = CancelPending | Drain | OtherPolicy nat

record signal_task =
  tk_has_run :: bool
  tk_shutdown :: shutdown_policy
  tk_key :: "string option"

record job =
  jb_id :: nat
  jb_task :: signal_task

record lane =
  ln_jobs :: "job list"
  ln_active :: nat

definition empty_lane :: lane where
  "empty_lane = \<lparr>ln_jobs = [], ln_active = 0\<rparr>"

datatype signal_error =
    NegativeOption | NilTask | InvalidPolicy | QueueClosed | QueueFull
  | ContextError go_error | AdmissionError go_error

record queue_options =
  qo_name :: string
  qo_capacity :: int
  qo_concurrency :: int
  qo_wait :: bool
  qo_admission_timeout :: int

record signal_queue =
  q_ready :: "string option list"
  q_lanes :: "(string option \<times> lane) list"
  q_active :: "job list"
  q_pending :: int
  q_workers :: int
  q_finishing :: int
  q_capacity :: int
  q_concurrency :: int
  q_closed :: bool
  q_done :: bool
  q_wait :: bool
  q_in_finish :: "job list"
  q_canceled :: "nat list"
  q_admitted :: "job list"
  q_started :: "job list"
  q_finished :: "job list"
  q_panicked :: bool

definition new_queue :: "queue_options \<Rightarrow> signal_error + signal_queue" where
  "new_queue opts =
     (if qo_capacity opts < 0 \<or> qo_concurrency opts < 0 \<or> qo_admission_timeout opts < 0
      then Inl NegativeOption
      else Inr \<lparr>q_ready = [], q_lanes = [], q_active = [], q_pending = 0, q_workers = 0,
        q_finishing = 0, q_capacity = (if qo_capacity opts = 0 then 256 else qo_capacity opts),
        q_concurrency = (if qo_concurrency opts = 0 then 1 else qo_concurrency opts),
        q_closed = False, q_done = False, q_wait = qo_wait opts, q_in_finish = [],
        q_canceled = [], q_admitted = [], q_started = [], q_finished = [], q_panicked = False\<rparr>)"

section \<open>Lanes\<close>

definition lane_of :: "signal_queue \<Rightarrow> string option \<Rightarrow> lane" where
  "lane_of q k = (case map_of (q_lanes q) k of Some l \<Rightarrow> l | None \<Rightarrow> empty_lane)"

definition put_lane :: "string option \<Rightarrow> lane \<Rightarrow> signal_queue \<Rightarrow> signal_queue" where
  "put_lane k l q = q\<lparr>q_lanes := AList.update k l (q_lanes q)\<rparr>"

definition make_ready :: "string option \<Rightarrow> signal_queue \<Rightarrow> signal_queue" where
  "make_ready k q =
     (let l = lane_of q k;
          q1 = (if ln_jobs l \<noteq> [] \<and> k \<notin> set (q_ready q) \<and> (k = None \<or> ln_active l = 0)
                then q\<lparr>q_ready := q_ready q @ [k]\<rparr> else q)
      in if k \<noteq> None \<and> ln_jobs l = [] \<and> ln_active l = 0
         then q1\<lparr>q_lanes := AList.delete k (q_lanes q1)\<rparr> else q1)"

definition drop_job :: "job \<Rightarrow> job list \<Rightarrow> job list" where
  "drop_job j js = filter (\<lambda>x. jb_id x \<noteq> jb_id j) js"

text \<open>\<open>removePending\<close>; the broadcast only lets blocked submitters look again.\<close>

definition remove_pending :: "job \<Rightarrow> signal_queue \<Rightarrow> signal_queue" where
  "remove_pending j q =
     (let k = tk_key (jb_task j); l = lane_of q k;
          l1 = l\<lparr>ln_jobs := drop_job j (ln_jobs l)\<rparr>;
          q1 = (put_lane k l1 q)\<lparr>q_pending := q_pending q - 1\<rparr>;
          q2 = (if ln_jobs l1 = [] then q1\<lparr>q_ready := filter (\<lambda>x. x \<noteq> k) (q_ready q1)\<rparr> else q1)
      in make_ready k q2)"

section \<open>Workers\<close>

text \<open>The loop of \<open>startWorkers\<close> that counts runnable lanes, and the one that launches.\<close>

fun count_ready :: "signal_queue \<Rightarrow> int \<Rightarrow> int \<Rightarrow> string option list \<Rightarrow> int" where
  "count_ready q bound n [] = n"
| "count_ready q bound n (k # ks) =
     (if n < bound
      then count_ready q bound
             (if k = None then n + int (length (ln_jobs (lane_of q k))) else n + 1) ks
      else n)"

function launch_workers :: "int \<Rightarrow> int \<Rightarrow> int \<Rightarrow> int" where
  "launch_workers workers concurrency n =
     (if workers < concurrency \<and> n > 0
      then launch_workers (workers + 1) concurrency (n - 1) else workers)"
  by pat_completeness auto
termination by (relation "measure (\<lambda>(w, c, n). nat n)") auto

declare launch_workers.simps [simp del]

definition start_workers :: "signal_queue \<Rightarrow> signal_queue" where
  "start_workers q =
     (if q_workers q = q_concurrency q then q
      else let n = count_ready q (q_concurrency q - q_workers q)
                 (int (length (q_active q)) - q_workers q) (q_ready q)
           in q\<lparr>q_workers := launch_workers (q_workers q) (q_concurrency q) n\<rparr>)"

definition finish_closed :: "signal_queue \<Rightarrow> signal_queue" where
  "finish_closed q =
     (if q_closed q \<and> q_workers q = 0 \<and> q_pending q = 0 \<and> q_finishing q = 0
      then q\<lparr>q_done := True\<rparr> else q)"

text \<open>A worker at the top of its loop: it retires, or takes the front job of the front lane.\<close>

definition worker_take :: "signal_queue \<Rightarrow> signal_queue \<times> job option" where
  "worker_take q =
     (case q_ready q of
        [] \<Rightarrow> (finish_closed (q\<lparr>q_workers := q_workers q - 1\<rparr>), None)
      | k # rest \<Rightarrow>
          let l = lane_of q k; q1 = q\<lparr>q_ready := rest\<rparr> in
          (case ln_jobs l of
             [] \<Rightarrow> (q1\<lparr>q_panicked := True\<rparr>, None)
           | j # js \<Rightarrow>
               let q2 = remove_pending j (put_lane k (l\<lparr>ln_active := ln_active l + 1\<rparr>) q1)
               in (q2\<lparr>q_active := q_active q2 @ [j], q_started := q_started q2 @ [j]\<rparr>, Some j)))"

text \<open>The task has run and \<open>Finish\<close> was called; the worker gives the job back.\<close>

definition worker_release :: "job \<Rightarrow> signal_queue \<Rightarrow> signal_queue" where
  "worker_release j q =
     (let k = tk_key (jb_task j);
          q1 = q\<lparr>q_active := drop_job j (q_active q), q_finished := q_finished q @ [j]\<rparr>;
          l = lane_of q1 k
      in make_ready k (put_lane k (l\<lparr>ln_active := ln_active l - 1\<rparr>) q1))"

text \<open>\<open>runTask\<close>: a task whose context has ended is not run.\<close>

definition run_task :: "go_error option \<Rightarrow> go_error option \<Rightarrow> go_error option" where
  "run_task ctx_err run_result = (case ctx_err of Some e \<Rightarrow> Some e | None \<Rightarrow> run_result)"

section \<open>Submission\<close>

datatype submit_outcome = Admitted | Rejected signal_error | Blocked

definition enqueue :: "signal_task \<Rightarrow> signal_queue \<Rightarrow> signal_queue" where
  "enqueue t q =
     (let k = tk_key t; l = lane_of q k;
          j = \<lparr>jb_id = length (q_admitted q), jb_task = t\<rparr>;
          q1 = (put_lane k (l\<lparr>ln_jobs := ln_jobs l @ [j]\<rparr>) q)
                 \<lparr>q_pending := q_pending q + 1, q_admitted := q_admitted q @ [j]\<rparr>
      in start_workers (make_ready k q1))"

text \<open>
  \<open>Submit\<close> up to the first wait, and each wake-up of a blocked submitter; \<open>ctx_err\<close> is the
  state of the caller's context, and of the admission context at a wake-up.
\<close>

definition submit :: "go_error option \<Rightarrow> signal_task \<Rightarrow> signal_queue \<Rightarrow> signal_queue \<times> submit_outcome" where
  "submit ctx_err t q =
     (if \<not> tk_has_run t then (q, Rejected NilTask)
      else if tk_shutdown t \<noteq> CancelPending \<and> tk_shutdown t \<noteq> Drain then (q, Rejected InvalidPolicy)
      else if q_closed q then (q, Rejected QueueClosed)
      else case ctx_err of
          Some e \<Rightarrow> (q, Rejected (ContextError e))
        | None \<Rightarrow>
            if q_pending q = q_capacity q then
              (if \<not> q_wait q then (q, Rejected QueueFull) else (q, Blocked))
            else (enqueue t q, Admitted))"

definition submit_wake :: "go_error option \<Rightarrow> signal_task \<Rightarrow> signal_queue \<Rightarrow> signal_queue \<times> submit_outcome" where
  "submit_wake ctx_err t q =
     (if q_pending q = q_capacity q \<and> \<not> q_closed q \<and> ctx_err = None then (q, Blocked)
      else if q_closed q then (q, Rejected QueueClosed)
      else case ctx_err of
          Some e \<Rightarrow> (q, Rejected (AdmissionError e))
        | None \<Rightarrow> (enqueue t q, Admitted))"

section \<open>Cancellation and shutdown\<close>

definition waiting :: "signal_queue \<Rightarrow> job list" where
  "waiting q = concat (map (\<lambda>(k, l). ln_jobs l) (q_lanes q))"

text \<open>\<open>cancelPending\<close>: a job that no longer waits is left alone.\<close>

definition cancel_begin :: "job \<Rightarrow> signal_queue \<Rightarrow> signal_queue" where
  "cancel_begin j q =
     (if j \<notin> set (ln_jobs (lane_of q (tk_key (jb_task j)))) then q
      else let q1 = remove_pending j q
           in q1\<lparr>q_finishing := q_finishing q1 + 1, q_in_finish := q_in_finish q1 @ [j]\<rparr>)"

text \<open>After \<open>Finish\<close> was called on the removed jobs.\<close>

definition finish_end :: "job list \<Rightarrow> signal_queue \<Rightarrow> signal_queue" where
  "finish_end js q =
     finish_closed (q\<lparr>q_in_finish := filter (\<lambda>x. x \<notin> set js) (q_in_finish q),
       q_finished := q_finished q @ js, q_finishing := q_finishing q - int (length js)\<rparr>)"

definition stopped_by :: "bool \<Rightarrow> job \<Rightarrow> bool" where
  "stopped_by everything j \<longleftrightarrow> everything \<or> tk_shutdown (jb_task j) = CancelPending"

definition stop_begin :: "bool \<Rightarrow> signal_queue \<Rightarrow> signal_queue \<times> job list \<times> bool" where
  "stop_begin everything q =
     (let removed = filter (stopped_by everything) (waiting q);
          q1 = foldl (\<lambda>r j. remove_pending j r) (q\<lparr>q_closed := True\<rparr>) removed;
          q2 = q1\<lparr>q_canceled := map jb_id (filter (stopped_by everything) (q_active q1)) @ q_canceled q1,
                  q_finishing := q_finishing q1 + int (length removed),
                  q_in_finish := q_in_finish q1 @ removed\<rparr>
      in (finish_closed q2, removed, list_ex (\<lambda>j. tk_shutdown (jb_task j) = Drain) (q_active q1)))"

section \<open>Steps\<close>

text \<open>
  What can happen to a queue: a submitter calls or wakes, a launched worker that holds no job
  takes one or retires, a worker returns the job it ran, a context end cancels a waiting job,
  shutdown begins, and a finisher of removed jobs comes back.  A step whose actor does not
  exist changes nothing.
\<close>

datatype queue_step =
    StepSubmit "go_error option" signal_task
  | StepWake "go_error option" signal_task
  | StepTake
  | StepRelease job
  | StepCancel job
  | StepStop bool
  | StepFinished "job list"

fun queue_move :: "signal_queue \<Rightarrow> queue_step \<Rightarrow> signal_queue" where
  "queue_move q (StepSubmit e t) = fst (submit e t q)"
| "queue_move q (StepWake e t) = fst (submit_wake e t q)"
| "queue_move q StepTake =
     (if int (length (q_active q)) < q_workers q then fst (worker_take q) else q)"
| "queue_move q (StepRelease j) = (if j \<in> set (q_active q) then worker_release j q else q)"
| "queue_move q (StepCancel j) = cancel_begin j q"
| "queue_move q (StepStop everything) = fst (stop_begin everything q)"
| "queue_move q (StepFinished js) =
     (if distinct js \<and> set js \<subseteq> set (q_in_finish q) then finish_end js q else q)"

end
