(* ===== verification/Signal_Queue_Laws.thy ===== *)
theory Signal_Queue_Laws
  imports Signal_Queue
begin

text \<open>
  The invariant of the scheduler and its proof for every step: lanes and the ready list agree,
  counters count, keyed tasks exclude each other, no runnable lane is left without a worker,
  and every admitted job is in exactly one place.
\<close>

section \<open>Association lists of lanes\<close>

lemma mset_concat_update:
  "mset (concat (map f (AList.update k v al))) +
     mset (case map_of al k of None \<Rightarrow> [] | Some w \<Rightarrow> f (k, w)) =
   mset (concat (map f al)) + mset (f (k, v))"
  by (induction al) auto

lemma mset_concat_delete:
  "distinct (map fst al) \<Longrightarrow> mset (concat (map f (AList.delete k al))) +
     mset (case map_of al k of None \<Rightarrow> [] | Some w \<Rightarrow> f (k, w)) = mset (concat (map f al))"
proof (induction al)
  case (Cons p al)
  show ?case
  proof (cases "fst p = k")
    case True
    with Cons.prems have "map_of al k = None" by (auto simp: map_of_eq_None_iff)
    with True Cons show ?thesis by (cases p) auto
  next
    case False
    with Cons show ?thesis by (cases p) auto
  qed
qed simp

definition key_of :: "job \<Rightarrow> string option" where
  "key_of j = tk_key (jb_task j)"

lemma lane_of_put [simp]: "lane_of (put_lane k l q) k' = (if k' = k then l else lane_of q k')"
  by (simp add: lane_of_def put_lane_def update_conv)

lemma lane_of_lanes: "q_lanes q = q_lanes r \<Longrightarrow> lane_of q = lane_of r"
  by (simp add: lane_of_def fun_eq_iff)

lemma lane_of_fields [simp]:
  "lane_of (q\<lparr>q_ready := a\<rparr>) = lane_of q"
  "lane_of (q\<lparr>q_pending := n\<rparr>) = lane_of q"
  "lane_of (q\<lparr>q_workers := n\<rparr>) = lane_of q"
  "lane_of (q\<lparr>q_finishing := n\<rparr>) = lane_of q"
  "lane_of (q\<lparr>q_closed := b\<rparr>) = lane_of q"
  "lane_of (q\<lparr>q_done := b\<rparr>) = lane_of q"
  "lane_of (q\<lparr>q_active := js\<rparr>) = lane_of q"
  "lane_of (q\<lparr>q_in_finish := js\<rparr>) = lane_of q"
  "lane_of (q\<lparr>q_canceled := ns\<rparr>) = lane_of q"
  "lane_of (q\<lparr>q_admitted := js\<rparr>) = lane_of q"
  "lane_of (q\<lparr>q_started := js\<rparr>) = lane_of q"
  "lane_of (q\<lparr>q_finished := js\<rparr>) = lane_of q"
  by (rule lane_of_lanes, simp)+

lemma waiting_fields [simp]:
  "waiting (q\<lparr>q_ready := a\<rparr>) = waiting q"
  "waiting (q\<lparr>q_pending := n\<rparr>) = waiting q"
  "waiting (q\<lparr>q_workers := n\<rparr>) = waiting q"
  "waiting (q\<lparr>q_finishing := n\<rparr>) = waiting q"
  "waiting (q\<lparr>q_closed := b\<rparr>) = waiting q"
  "waiting (q\<lparr>q_done := b\<rparr>) = waiting q"
  "waiting (q\<lparr>q_active := js\<rparr>) = waiting q"
  "waiting (q\<lparr>q_in_finish := js\<rparr>) = waiting q"
  "waiting (q\<lparr>q_canceled := ns\<rparr>) = waiting q"
  "waiting (q\<lparr>q_admitted := js\<rparr>) = waiting q"
  "waiting (q\<lparr>q_started := js\<rparr>) = waiting q"
  "waiting (q\<lparr>q_finished := js\<rparr>) = waiting q"
  by (simp_all add: waiting_def)

lemma put_lane_fields [simp]:
  "q_ready (put_lane k l q) = q_ready q"
  "q_active (put_lane k l q) = q_active q"
  "q_pending (put_lane k l q) = q_pending q"
  "q_workers (put_lane k l q) = q_workers q"
  "q_finishing (put_lane k l q) = q_finishing q"
  "q_capacity (put_lane k l q) = q_capacity q"
  "q_concurrency (put_lane k l q) = q_concurrency q"
  "q_closed (put_lane k l q) = q_closed q"
  "q_done (put_lane k l q) = q_done q"
  "q_in_finish (put_lane k l q) = q_in_finish q"
  "q_admitted (put_lane k l q) = q_admitted q"
  "q_started (put_lane k l q) = q_started q"
  "q_finished (put_lane k l q) = q_finished q"
  "q_canceled (put_lane k l q) = q_canceled q"
  "q_panicked (put_lane k l q) = q_panicked q"
  by (simp_all add: put_lane_def)

lemma make_ready_fields [simp]:
  "q_active (make_ready k q) = q_active q"
  "q_pending (make_ready k q) = q_pending q"
  "q_workers (make_ready k q) = q_workers q"
  "q_finishing (make_ready k q) = q_finishing q"
  "q_capacity (make_ready k q) = q_capacity q"
  "q_concurrency (make_ready k q) = q_concurrency q"
  "q_closed (make_ready k q) = q_closed q"
  "q_done (make_ready k q) = q_done q"
  "q_in_finish (make_ready k q) = q_in_finish q"
  "q_admitted (make_ready k q) = q_admitted q"
  "q_started (make_ready k q) = q_started q"
  "q_finished (make_ready k q) = q_finished q"
  "q_canceled (make_ready k q) = q_canceled q"
  "q_panicked (make_ready k q) = q_panicked q"
  by (simp_all add: make_ready_def Let_def)

lemma lane_empty: "ln_jobs l = [] \<Longrightarrow> ln_active l = 0 \<Longrightarrow> l = empty_lane"
  by (simp add: empty_lane_def)

lemma lane_of_make_ready [simp]: "lane_of (make_ready k q) = lane_of q"
proof
  fix k'
  show "lane_of (make_ready k q) k' = lane_of q k'"
    using lane_empty [of "lane_of q k"]
    by (auto simp: make_ready_def Let_def lane_of_def delete_conv)
qed

lemma make_ready_ready:
  "q_ready (make_ready k q) =
     (if ln_jobs (lane_of q k) \<noteq> [] \<and> k \<notin> set (q_ready q) \<and> (k = None \<or> ln_active (lane_of q k) = 0)
      then q_ready q @ [k] else q_ready q)"
  by (simp add: make_ready_def Let_def)

definition lane_keys :: "signal_queue \<Rightarrow> string option list" where
  "lane_keys q = map fst (q_lanes q)"

lemma lane_keys_distinct:
  "distinct (lane_keys q) \<Longrightarrow> distinct (lane_keys (put_lane k l q))"
  "distinct (lane_keys q) \<Longrightarrow> distinct (lane_keys (make_ready k q))"
  by (simp_all add: lane_keys_def put_lane_def make_ready_def Let_def distinct_update distinct_delete)

lemma lane_keys_fields [simp]:
  "lane_keys (q\<lparr>q_ready := a\<rparr>) = lane_keys q"
  "lane_keys (q\<lparr>q_pending := n\<rparr>) = lane_keys q"
  by (simp_all add: lane_keys_def)

lemma mset_waiting_put:
  "mset (waiting (put_lane k l q)) + mset (ln_jobs (lane_of q k)) = mset (waiting q) + mset (ln_jobs l)"
  using mset_concat_update [of "\<lambda>(k, l). ln_jobs l" k l "q_lanes q"]
  by (auto simp: waiting_def put_lane_def lane_of_def empty_lane_def split: option.splits)

lemma mset_waiting_make_ready:
  assumes "distinct (lane_keys q)"
  shows "mset (waiting (make_ready k q)) = mset (waiting q)"
proof (cases "ln_jobs (lane_of q k) = []")
  case True
  then have "mset (case map_of (q_lanes q) k of None \<Rightarrow> [] | Some w \<Rightarrow> ln_jobs w) = {#}"
    by (simp add: lane_of_def split: option.splits)
  then show ?thesis
    using mset_concat_delete [of "q_lanes q" "\<lambda>(k, l). ln_jobs l" k] assms
    by (simp add: make_ready_def Let_def waiting_def lane_keys_def cong: option.case_cong)
next
  case False
  then show ?thesis by (simp add: make_ready_def Let_def waiting_def)
qed

lemma waiting_mem:
  assumes "distinct (lane_keys q)"
  shows "j \<in> set (waiting q) \<longleftrightarrow> (\<exists>k. j \<in> set (ln_jobs (lane_of q k)))"
proof
  assume "j \<in> set (waiting q)"
  then obtain k l where kl: "(k, l) \<in> set (q_lanes q)" "j \<in> set (ln_jobs l)"
    by (auto simp: waiting_def)
  with assms have "map_of (q_lanes q) k = Some l" by (simp add: lane_keys_def)
  with kl(2) have "j \<in> set (ln_jobs (lane_of q k))" by (simp add: lane_of_def)
  then show "\<exists>k. j \<in> set (ln_jobs (lane_of q k))" by blast
next
  assume "\<exists>k. j \<in> set (ln_jobs (lane_of q k))"
  then obtain k where k: "j \<in> set (ln_jobs (lane_of q k))" by blast
  then obtain l where "map_of (q_lanes q) k = Some l" and l: "j \<in> set (ln_jobs l)"
    by (cases "map_of (q_lanes q) k") (simp_all add: lane_of_def empty_lane_def)
  then have "(k, l) \<in> set (q_lanes q)" by (simp add: map_of_SomeD)
  with l show "j \<in> set (waiting q)" by (force simp: waiting_def)
qed

section \<open>The invariant\<close>

definition lanes_inv :: "signal_queue \<Rightarrow> bool" where
  "lanes_inv q \<longleftrightarrow> distinct (lane_keys q) \<and>
     (\<forall>k. \<forall>j \<in> set (ln_jobs (lane_of q k)). key_of j = k) \<and>
     (\<forall>k. ln_active (lane_of q k) = length (filter (\<lambda>j. key_of j = k) (q_active q))) \<and>
     (\<forall>k. k \<noteq> None \<longrightarrow> ln_active (lane_of q k) \<le> 1)"

definition runnable :: "signal_queue \<Rightarrow> string option \<Rightarrow> bool" where
  "runnable q k \<longleftrightarrow> ln_jobs (lane_of q k) \<noteq> [] \<and> (k = None \<or> ln_active (lane_of q k) = 0)"

definition ready_inv :: "signal_queue \<Rightarrow> bool" where
  "ready_inv q \<longleftrightarrow> distinct (q_ready q) \<and> (\<forall>k. k \<in> set (q_ready q) \<longleftrightarrow> runnable q k)"

definition ready_weight :: "signal_queue \<Rightarrow> string option \<Rightarrow> int" where
  "ready_weight q k = (if k = None then int (length (ln_jobs (lane_of q k))) else 1)"

definition ready_work :: "signal_queue \<Rightarrow> int" where
  "ready_work q = sum_list (map (ready_weight q) (q_ready q))"

definition workers_inv :: "signal_queue \<Rightarrow> bool" where
  "workers_inv q \<longleftrightarrow> int (length (q_active q)) \<le> q_workers q \<and> q_workers q \<le> q_concurrency q \<and>
     0 < q_concurrency q \<and>
     (q_workers q = q_concurrency q \<or> ready_work q \<le> q_workers q - int (length (q_active q)))"

definition counters_inv :: "signal_queue \<Rightarrow> bool" where
  "counters_inv q \<longleftrightarrow> q_pending q = int (length (waiting q)) \<and> q_pending q \<le> q_capacity q \<and>
     0 < q_capacity q \<and> q_finishing q = int (length (q_in_finish q)) \<and>
     (q_done q \<longleftrightarrow> q_closed q \<and> q_workers q = 0 \<and> q_pending q = 0 \<and> q_finishing q = 0) \<and>
     \<not> q_panicked q"

definition account_inv :: "signal_queue \<Rightarrow> bool" where
  "account_inv q \<longleftrightarrow>
     mset (q_admitted q) = mset (waiting q) + mset (q_active q) + mset (q_in_finish q) + mset (q_finished q) \<and>
     map jb_id (q_admitted q) = [0 ..< length (q_admitted q)]"

definition order_inv :: "signal_queue \<Rightarrow> bool" where
  "order_inv q \<longleftrightarrow> set (q_started q) \<subseteq> set (q_admitted q) \<and> (\<forall>k. sorted_wrt (\<lambda>a b. jb_id a < jb_id b)
     (filter (\<lambda>j. key_of j = k) (q_started q) @ ln_jobs (lane_of q k)))"

definition queue_inv :: "signal_queue \<Rightarrow> bool" where
  "queue_inv q \<longleftrightarrow> lanes_inv q \<and> ready_inv q \<and> workers_inv q \<and> counters_inv q \<and> account_inv q \<and>
     order_inv q"

section \<open>The ready list\<close>

lemma make_ready_inv:
  assumes "distinct (q_ready q)" and "\<And>k'. k' \<noteq> k \<Longrightarrow> k' \<in> set (q_ready q) \<longleftrightarrow> runnable q k'"
    and "k \<in> set (q_ready q) \<Longrightarrow> runnable q k"
  shows "ready_inv (make_ready k q)"
proof -
  have r: "runnable (make_ready k q) = runnable q" by (simp add: runnable_def fun_eq_iff)
  have "k' \<in> set (q_ready (make_ready k q)) \<longleftrightarrow> runnable q k'" for k'
    using assms(2) [of k'] assms(3) by (cases "k' = k") (auto simp: make_ready_ready runnable_def)
  moreover have "distinct (q_ready (make_ready k q))"
    using assms(1) by (auto simp: make_ready_ready)
  ultimately show ?thesis by (simp add: ready_inv_def r)
qed

text \<open>What one lane contributes to the runnable work.\<close>

definition contribution :: "signal_queue \<Rightarrow> string option \<Rightarrow> int" where
  "contribution q k = (if runnable q k then ready_weight q k else 0)"

lemma ready_work_sum: "ready_inv q \<Longrightarrow> ready_work q = (\<Sum>k \<in> set (q_ready q). contribution q k)"
  by (simp add: ready_work_def ready_inv_def contribution_def sum_list_distinct_conv_sum_set)

lemma ready_work_shift:
  assumes "ready_inv q" and "ready_inv r" and "\<And>k'. k' \<noteq> k \<Longrightarrow> lane_of r k' = lane_of q k'"
  shows "ready_work r = ready_work q - contribution q k + contribution r k"
proof -
  have split: "ready_work p = contribution p k + (\<Sum>k' \<in> set (q_ready p) - {k}. contribution p k')"
    if "ready_inv p" for p
  proof (cases "k \<in> set (q_ready p)")
    case True
    then show ?thesis using ready_work_sum [OF that] by (simp add: sum.remove)
  next
    case False
    with that have "contribution p k = 0" by (simp add: contribution_def ready_inv_def)
    then show ?thesis using ready_work_sum [OF that] False by simp
  qed
  have same: "contribution r k' = contribution q k'" "runnable r k' = runnable q k'" if "k' \<noteq> k" for k'
    using assms(3) [OF that] by (auto simp: contribution_def runnable_def ready_weight_def)
  have "set (q_ready r) - {k} = set (q_ready q) - {k}"
    using assms(1,2) same(2) by (auto simp: ready_inv_def)
  then have "(\<Sum>k' \<in> set (q_ready r) - {k}. contribution r k') =
      (\<Sum>k' \<in> set (q_ready q) - {k}. contribution q k')"
    using same(1) by (intro sum.cong) auto
  with split [OF assms(1)] split [OF assms(2)] show ?thesis by simp
qed

section \<open>Launching workers\<close>

lemma launch_workers_eq:
  "w \<le> c \<Longrightarrow> launch_workers w c n = (if n \<le> 0 then w else min c (w + n))"
proof (induction w c n rule: launch_workers.induct)
  case (1 w c n)
  then show ?case by (subst launch_workers.simps) auto
qed

lemma count_ready_eq:
  "count_ready q b n ks \<ge> b \<or> count_ready q b n ks = n + sum_list (map (ready_weight q) ks)"
  by (induction q b n ks rule: count_ready.induct) (auto simp: ready_weight_def)

lemma start_workers_fields [simp]:
  "q_ready (start_workers q) = q_ready q" "q_lanes (start_workers q) = q_lanes q"
  "q_active (start_workers q) = q_active q" "q_pending (start_workers q) = q_pending q"
  "q_finishing (start_workers q) = q_finishing q" "q_capacity (start_workers q) = q_capacity q"
  "q_concurrency (start_workers q) = q_concurrency q" "q_closed (start_workers q) = q_closed q"
  "q_done (start_workers q) = q_done q" "q_in_finish (start_workers q) = q_in_finish q"
  "q_admitted (start_workers q) = q_admitted q" "q_started (start_workers q) = q_started q"
  "q_finished (start_workers q) = q_finished q" "q_panicked (start_workers q) = q_panicked q"
  by (simp_all add: start_workers_def Let_def)

lemma start_workers_views [simp]:
  "lane_of (start_workers q) = lane_of q" "waiting (start_workers q) = waiting q"
  "ready_work (start_workers q) = ready_work q" "lane_keys (start_workers q) = lane_keys q"
proof -
  show l: "lane_of (start_workers q) = lane_of q" by (rule lane_of_lanes) simp
  then have "ready_weight (start_workers q) = ready_weight q"
    by (simp add: ready_weight_def fun_eq_iff)
  then show "ready_work (start_workers q) = ready_work q" by (simp add: ready_work_def)
qed (simp_all add: waiting_def lane_keys_def)

lemma start_workers_inv:
  assumes "int (length (q_active q)) \<le> q_workers q" and "q_workers q \<le> q_concurrency q"
    and "0 < q_concurrency q"
  shows "workers_inv (start_workers q)"
proof (cases "q_workers q = q_concurrency q")
  case True
  with assms show ?thesis by (simp add: workers_inv_def start_workers_def)
next
  case False
  let ?n = "count_ready q (q_concurrency q - q_workers q) (int (length (q_active q)) - q_workers q) (q_ready q)"
  have w: "q_workers (start_workers q) =
      (if ?n \<le> 0 then q_workers q else min (q_concurrency q) (q_workers q + ?n))"
    using False assms(2) by (simp add: start_workers_def launch_workers_eq)
  have "?n \<ge> q_concurrency q - q_workers q \<or>
      ?n = int (length (q_active q)) - q_workers q + ready_work q"
    using count_ready_eq [of "q_concurrency q - q_workers q" q] by (simp add: ready_work_def)
  with assms False w show ?thesis by (auto simp: workers_inv_def)
qed

section \<open>Removing a waiting job\<close>

lemma drop_job_none: "jb_id j \<notin> jb_id ` set js \<Longrightarrow> drop_job j js = js"
  by (induction js) (auto simp: drop_job_def)

lemma drop_job_mset:
  "distinct (map jb_id js) \<Longrightarrow> j \<in> set js \<Longrightarrow> add_mset j (mset (drop_job j js)) = mset js"
proof (induction js)
  case (Cons a js)
  show ?case
  proof (cases "a = j")
    case True
    with Cons.prems have "drop_job j js = js" by (simp add: drop_job_none)
    with True show ?thesis by (simp add: drop_job_def)
  next
    case False
    with Cons.prems have "jb_id a \<noteq> jb_id j" by auto
    with False Cons show ?thesis by (auto simp: drop_job_def add_mset_commute)
  qed
qed simp

lemma drop_job_hd: "distinct (map jb_id (j # js)) \<Longrightarrow> drop_job j (j # js) = js"
  using drop_job_none [of j js] by (simp add: drop_job_def)

lemma drop_job_subset: "set (drop_job j js) \<subseteq> set js"
  by (auto simp: drop_job_def)

lemma remove_pending_fields [simp]:
  "q_active (remove_pending j q) = q_active q"
  "q_pending (remove_pending j q) = q_pending q - 1"
  "q_workers (remove_pending j q) = q_workers q"
  "q_finishing (remove_pending j q) = q_finishing q"
  "q_capacity (remove_pending j q) = q_capacity q"
  "q_concurrency (remove_pending j q) = q_concurrency q"
  "q_closed (remove_pending j q) = q_closed q"
  "q_done (remove_pending j q) = q_done q"
  "q_in_finish (remove_pending j q) = q_in_finish q"
  "q_admitted (remove_pending j q) = q_admitted q"
  "q_started (remove_pending j q) = q_started q"
  "q_finished (remove_pending j q) = q_finished q"
  "q_canceled (remove_pending j q) = q_canceled q"
  "q_panicked (remove_pending j q) = q_panicked q"
  by (simp_all add: remove_pending_def Let_def)

lemma remove_pending_lane:
  "lane_of (remove_pending j q) k = (if k = key_of j
     then (lane_of q k)\<lparr>ln_jobs := drop_job j (ln_jobs (lane_of q k))\<rparr> else lane_of q k)"
  by (simp add: remove_pending_def Let_def key_of_def)

lemma remove_pending_keys: "distinct (lane_keys q) \<Longrightarrow> distinct (lane_keys (remove_pending j q))"
  by (simp add: remove_pending_def Let_def lane_keys_distinct)

lemma remove_pending_waiting:
  assumes "distinct (lane_keys q)" and "j \<in> set (ln_jobs (lane_of q (key_of j)))"
    and "distinct (map jb_id (ln_jobs (lane_of q (key_of j))))"
  shows "mset (waiting q) = add_mset j (mset (waiting (remove_pending j q)))"
proof -
  let ?l = "(lane_of q (key_of j))\<lparr>ln_jobs := drop_job j (ln_jobs (lane_of q (key_of j)))\<rparr>"
  have "mset (waiting (remove_pending j q)) = mset (waiting (put_lane (key_of j) ?l q))"
    using assms(1) by (simp add: remove_pending_def Let_def key_of_def mset_waiting_make_ready
        lane_keys_distinct)
  moreover have "add_mset j (mset (ln_jobs ?l)) = mset (ln_jobs (lane_of q (key_of j)))"
    using drop_job_mset [OF assms(3,2)] by simp
  ultimately have "add_mset j (mset (waiting (remove_pending j q))) + mset (ln_jobs ?l) =
      mset (waiting q) + mset (ln_jobs ?l)"
    using mset_waiting_put [of "key_of j" ?l q] by (metis union_mset_add_mset_left union_mset_add_mset_right)
  then show ?thesis by simp
qed

text \<open>
  The lane of the job may already be off the ready list (a worker took it); every other lane
  must agree with the list.
\<close>

lemma remove_pending_ready:
  assumes "distinct (q_ready q)"
    and "\<And>k'. k' \<noteq> key_of j \<Longrightarrow> k' \<in> set (q_ready q) \<longleftrightarrow> runnable q k'"
    and "key_of j \<in> set (q_ready q) \<Longrightarrow> key_of j = None \<or> ln_active (lane_of q (key_of j)) = 0"
  shows "ready_inv (remove_pending j q)"
  unfolding remove_pending_def Let_def key_of_def [symmetric]
  by (rule make_ready_inv) (use assms in \<open>auto simp: runnable_def\<close>)

end
