(* ===== verification/Signal_Queue_Steps.thy ===== *)
theory Signal_Queue_Steps
  imports Signal_Queue_Laws
begin

text \<open>
  Every step of the scheduler keeps its invariant.  The structural part (lanes, ready list,
  workers, order) is kept by each primitive; the counters and the account of jobs follow from
  what the primitive does to the multiset of waiting jobs.
\<close>

definition core_inv :: "signal_queue \<Rightarrow> bool" where
  "core_inv q \<longleftrightarrow> lanes_inv q \<and> ready_inv q \<and> workers_inv q \<and> order_inv q"

lemma queue_inv_core:
  "queue_inv q \<longleftrightarrow> core_inv q \<and> counters_inv q \<and> account_inv q"
  by (auto simp: queue_inv_def core_inv_def)

lemma lane_ids_distinct:
  assumes "order_inv q"
  shows "distinct (map jb_id (ln_jobs (lane_of q k)))"
proof -
  have "sorted_wrt (\<lambda>a b. jb_id a < jb_id b) (ln_jobs (lane_of q k))"
    using assms by (auto simp: order_inv_def sorted_wrt_append)
  then have "sorted_wrt (<) (map jb_id (ln_jobs (lane_of q k)))" by (simp add: sorted_wrt_map)
  then show ?thesis by (simp add: strict_sorted_iff)
qed

lemma waiting_lane:
  assumes "lanes_inv q"
  shows "j \<in> set (waiting q) \<longleftrightarrow> j \<in> set (ln_jobs (lane_of q (key_of j)))"
  using assms waiting_mem [of q j] by (auto simp: lanes_inv_def)

lemma core_inv_cong:
  assumes "q_lanes r = q_lanes q" "q_ready r = q_ready q" "q_active r = q_active q"
    "q_workers r = q_workers q" "q_concurrency r = q_concurrency q" "q_started r = q_started q"
    "q_admitted r = q_admitted q"
  shows "core_inv r = core_inv q"
proof -
  have l: "lane_of r = lane_of q" by (rule lane_of_lanes) (rule assms(1))
  then have "ready_weight r = ready_weight q" "runnable r = runnable q" "lane_keys r = lane_keys q"
    using assms(1) by (simp_all add: ready_weight_def runnable_def lane_keys_def fun_eq_iff)
  then show ?thesis
    using assms by (simp add: core_inv_def lanes_inv_def ready_inv_def workers_inv_def order_inv_def
        ready_work_def l)
qed

lemma core_inv_fields:
  "core_inv (q\<lparr>q_closed := b\<rparr>) = core_inv q" "core_inv (q\<lparr>q_finishing := n\<rparr>) = core_inv q"
  "core_inv (q\<lparr>q_in_finish := js\<rparr>) = core_inv q" "core_inv (q\<lparr>q_canceled := ns\<rparr>) = core_inv q"
  "core_inv (q\<lparr>q_done := b\<rparr>) = core_inv q" "core_inv (q\<lparr>q_finished := js\<rparr>) = core_inv q"
  by (rule core_inv_cong; simp)+

section \<open>Removing\<close>

lemma core_remove_pending:
  assumes "core_inv q" and "j \<in> set (waiting q)"
  shows "core_inv (remove_pending j q)"
    and "mset (waiting q) = add_mset j (mset (waiting (remove_pending j q)))"
proof -
  let ?r = "remove_pending j q" and ?k = "key_of j"
  from assms have l: "lanes_inv q" and rd: "ready_inv q" and w: "workers_inv q" and o: "order_inv q"
    by (simp_all add: core_inv_def)
  have mem: "j \<in> set (ln_jobs (lane_of q ?k))" using waiting_lane [OF l] assms(2) by simp
  show "mset (waiting q) = add_mset j (mset (waiting ?r))"
    using remove_pending_waiting [OF _ mem lane_ids_distinct [OF o]] l by (simp add: lanes_inv_def)
  have r: "ready_inv ?r"
    by (rule remove_pending_ready) (use rd in \<open>auto simp: ready_inv_def runnable_def\<close>)
  have "ready_work ?r = ready_work q - contribution q ?k + contribution ?r ?k"
    by (rule ready_work_shift [OF rd r]) (simp add: remove_pending_lane)
  moreover have "contribution ?r ?k \<le> contribution q ?k"
    by (auto simp: contribution_def runnable_def ready_weight_def remove_pending_lane drop_job_def)
  ultimately have "workers_inv ?r" using w by (auto simp: workers_inv_def)
  moreover have "lanes_inv ?r"
    using l drop_job_subset by (fastforce simp: lanes_inv_def remove_pending_lane
        intro: remove_pending_keys)
  moreover have "order_inv ?r"
    using o by (auto simp: order_inv_def remove_pending_lane drop_job_def sorted_wrt_append
        intro: sorted_wrt_filter)
  ultimately show "core_inv ?r" using r by (simp add: core_inv_def)
qed

lemma core_remove_all:
  assumes "core_inv q" and "mset js \<subseteq># mset (waiting q)"
  shows "core_inv (foldl (\<lambda>r j. remove_pending j r) q js) \<and>
    mset (waiting q) = mset js + mset (waiting (foldl (\<lambda>r j. remove_pending j r) q js))"
  using assms
proof (induction js arbitrary: q)
  case (Cons j js)
  have "j \<in># mset (waiting q)" using mset_subset_eqD [OF Cons.prems(2)] by simp
  then have j: "j \<in> set (waiting q)" by simp
  note step = core_remove_pending [OF Cons.prems(1) j]
  have "mset js \<subseteq># mset (waiting (remove_pending j q))"
    using Cons.prems(2) step(2) by simp
  from Cons.IH [OF step(1) this] step(2) show ?case by simp
qed simp

lemma foldl_remove_fields [simp]:
  "q_active (foldl (\<lambda>r j. remove_pending j r) q js) = q_active q"
  "q_workers (foldl (\<lambda>r j. remove_pending j r) q js) = q_workers q"
  "q_pending (foldl (\<lambda>r j. remove_pending j r) q js) = q_pending q - int (length js)"
  "q_finishing (foldl (\<lambda>r j. remove_pending j r) q js) = q_finishing q"
  "q_capacity (foldl (\<lambda>r j. remove_pending j r) q js) = q_capacity q"
  "q_closed (foldl (\<lambda>r j. remove_pending j r) q js) = q_closed q"
  "q_done (foldl (\<lambda>r j. remove_pending j r) q js) = q_done q"
  "q_in_finish (foldl (\<lambda>r j. remove_pending j r) q js) = q_in_finish q"
  "q_admitted (foldl (\<lambda>r j. remove_pending j r) q js) = q_admitted q"
  "q_finished (foldl (\<lambda>r j. remove_pending j r) q js) = q_finished q"
  "q_panicked (foldl (\<lambda>r j. remove_pending j r) q js) = q_panicked q"
  by (induction js arbitrary: q) auto

section \<open>Counting\<close>

text \<open>The counters without the done flag, and what \<open>finishClosed\<close> makes of it.\<close>

definition count_inv :: "signal_queue \<Rightarrow> bool" where
  "count_inv q \<longleftrightarrow> q_pending q = int (length (waiting q)) \<and> q_pending q \<le> q_capacity q \<and>
     0 < q_capacity q \<and> q_finishing q = int (length (q_in_finish q)) \<and> \<not> q_panicked q"

definition over :: "signal_queue \<Rightarrow> bool" where
  "over q \<longleftrightarrow> q_closed q \<and> q_workers q = 0 \<and> q_pending q = 0 \<and> q_finishing q = 0"

lemma counters_inv_alt: "counters_inv q \<longleftrightarrow> count_inv q \<and> (q_done q \<longleftrightarrow> over q)"
  by (auto simp: counters_inv_def count_inv_def over_def)

lemma finish_closed_alt: "finish_closed q = (if over q then q\<lparr>q_done := True\<rparr> else q)"
  by (simp add: finish_closed_def over_def)

lemma finish_closed_inv:
  assumes "core_inv q" and "count_inv q" and "account_inv q" and "q_done q \<Longrightarrow> over q"
  shows "queue_inv (finish_closed q)"
proof -
  have "over (q\<lparr>q_done := True\<rparr>) = over q" "count_inv (q\<lparr>q_done := True\<rparr>) = count_inv q"
    "account_inv (q\<lparr>q_done := True\<rparr>) = account_inv q"
    by (simp_all add: over_def count_inv_def account_inv_def)
  with assms show ?thesis
    by (auto simp: queue_inv_core counters_inv_alt finish_closed_alt core_inv_fields)
qed

lemma size_waiting: "mset (waiting q) = A + mset (waiting r) \<Longrightarrow>
    length (waiting q) = size A + length (waiting r)"
  by (metis size_mset size_union)

section \<open>Cancellation and shutdown\<close>

lemma cancel_begin_inv:
  assumes "queue_inv q"
  shows "queue_inv (cancel_begin j q)"
proof (cases "j \<in> set (waiting q)")
  case False
  with assms show ?thesis
    using waiting_lane [of q j] by (simp add: cancel_begin_def key_of_def queue_inv_def)
next
  case True
  let ?r = "remove_pending j q"
  have i: "core_inv q" "counters_inv q" "account_inv q" using assms by (simp_all add: queue_inv_core)
  note c = core_remove_pending [OF i(1) True]
  have mem: "j \<in> set (ln_jobs (lane_of q (tk_key (jb_task j))))"
    using True waiting_lane [of q j] i(1) by (simp add: core_inv_def key_of_def)
  have r: "cancel_begin j q = ?r\<lparr>q_finishing := q_finishing q + 1, q_in_finish := q_in_finish q @ [j]\<rparr>"
    using mem by (simp add: cancel_begin_def Let_def)
  have "length (waiting q) = Suc (length (waiting ?r))" using c(2) by (metis size_add_mset size_mset)
  with i(2) have "counters_inv (cancel_begin j q)" by (auto simp: counters_inv_def r)
  moreover have "account_inv (cancel_begin j q)" using i(3) c(2) by (simp add: account_inv_def r)
  moreover have "core_inv (cancel_begin j q)" using c(1) by (simp add: r core_inv_fields)
  ultimately show ?thesis by (simp add: queue_inv_core)
qed

lemma finish_end_inv:
  assumes "queue_inv q" and "distinct js" and "set js \<subseteq> set (q_in_finish q)"
  shows "queue_inv (finish_end js q)"
proof -
  have i: "core_inv q" "counters_inv q" "account_inv q" using assms by (simp_all add: queue_inv_core)
  have "distinct (q_admitted q)"
    using i(3) by (metis account_inv_def distinct_map distinct_upt)
  moreover have "mset (q_admitted q) = mset (waiting q @ q_active q @ q_in_finish q @ q_finished q)"
    using i(3) by (simp add: account_inv_def add.assoc)
  ultimately have d: "distinct (q_in_finish q)"
    using mset_eq_imp_distinct_iff by fastforce
  then have m: "mset (q_in_finish q) = mset (filter (\<lambda>x. x \<notin> set js) (q_in_finish q)) + mset js"
    using assms(2,3) by (intro multiset_eqI) (auto simp: distinct_count_atmost_1 count_mset_0_iff not_in_iff)
  then have len: "length (q_in_finish q) = length (filter (\<lambda>x. x \<notin> set js) (q_in_finish q)) + length js"
    by (metis size_mset size_union)
  show ?thesis
    unfolding finish_end_def
  proof (rule finish_closed_inv)
    let ?q = "q\<lparr>q_in_finish := filter (\<lambda>x. x \<notin> set js) (q_in_finish q),
       q_finished := q_finished q @ js, q_finishing := q_finishing q - int (length js)\<rparr>"
    show "core_inv ?q" using i(1) by (simp add: core_inv_fields)
    show "count_inv ?q" using i(2) len by (simp add: counters_inv_alt count_inv_def)
    have "mset (q_admitted q) = mset (waiting q) + mset (q_active q) +
        (mset (filter (\<lambda>x. x \<notin> set js) (q_in_finish q)) + mset js) + mset (q_finished q)"
      using i(3) unfolding m [symmetric] account_inv_def by blast
    moreover have "map jb_id (q_admitted q) = [0 ..< length (q_admitted q)]"
      using i(3) by (simp add: account_inv_def)
    ultimately show "account_inv ?q" by (simp add: account_inv_def ac_simps)
    show "over ?q" if "q_done ?q"
    proof -
      from that have o: "over q" using i(2) by (simp add: counters_inv_alt)
      then have "q_in_finish q = []" using i(2) by (simp add: counters_inv_def over_def)
      with assms(3) have "js = []" by simp
      with o show ?thesis by (simp add: over_def)
    qed
  qed
qed

lemma stop_begin_inv:
  assumes "queue_inv q"
  shows "queue_inv (fst (stop_begin everything q))"
proof -
  let ?js = "filter (stopped_by everything) (waiting q)"
  let ?r = "foldl (\<lambda>r j. remove_pending j r) (q\<lparr>q_closed := True\<rparr>) ?js"
  have i: "core_inv q" "counters_inv q" "account_inv q" using assms by (simp_all add: queue_inv_core)
  have c: "core_inv ?r" "mset (waiting q) = mset ?js + mset (waiting ?r)"
    using core_remove_all [of "q\<lparr>q_closed := True\<rparr>" ?js] i(1)
    by (simp_all add: core_inv_fields mset_filter)
  have len: "length (waiting q) = length ?js + length (waiting ?r)"
    using size_waiting [OF c(2)] by (simp only: size_mset)
  show ?thesis
    unfolding stop_begin_def Let_def fst_conv
  proof (rule finish_closed_inv)
    let ?q = "?r\<lparr>q_canceled := map jb_id (filter (stopped_by everything) (q_active ?r)) @ q_canceled ?r,
        q_finishing := q_finishing ?r + int (length ?js), q_in_finish := q_in_finish ?r @ ?js\<rparr>"
    show "core_inv ?q" using c(1) by (simp add: core_inv_fields)
    show "count_inv ?q" using i(2) len by (simp add: counters_inv_alt count_inv_def)
    have "mset (q_admitted q) = (mset ?js + mset (waiting ?r)) + mset (q_active q) +
        mset (q_in_finish q) + mset (q_finished q)"
      using i(3) unfolding c(2) [symmetric] account_inv_def by blast
    moreover have "map jb_id (q_admitted q) = [0 ..< length (q_admitted q)]"
      using i(3) by (simp add: account_inv_def)
    ultimately show "account_inv ?q" by (simp add: account_inv_def ac_simps)
    show "over ?q" if "q_done ?q"
    proof -
      from that have o: "over q" using i(2) by (simp add: counters_inv_alt)
      then have "waiting q = []" using i(2) by (simp add: counters_inv_def over_def)
      then have "?js = []" by simp
      with o show ?thesis unfolding over_def by (simp only: foldl_Nil) simp
    qed
  qed
qed

section \<open>Admission\<close>

lemma lanes_enqueue:
  assumes "lanes_inv q" and "key_of j = k"
  shows "lanes_inv (put_lane k ((lane_of q k)\<lparr>ln_jobs := ln_jobs (lane_of q k) @ [j]\<rparr>) q)"
  using assms unfolding lanes_inv_def by (auto simp: lane_keys_distinct simp del: One_nat_def)

lemma lanes_inv_cong:
  "q_lanes r = q_lanes q \<Longrightarrow> q_active r = q_active q \<Longrightarrow> lanes_inv r = lanes_inv q"
  using lane_of_lanes [of r q] by (simp add: lanes_inv_def lane_keys_def)

lemma lanes_make_ready: "lanes_inv q \<Longrightarrow> lanes_inv (make_ready k q)"
  unfolding lanes_inv_def lane_of_make_ready make_ready_fields by (blast intro: lane_keys_distinct)

lemma ready_inv_cong:
  "lane_of r = lane_of q \<Longrightarrow> q_ready r = q_ready q \<Longrightarrow> ready_inv r = ready_inv q"
  by (simp add: ready_inv_def runnable_def)

lemma enqueue_inv:
  assumes "queue_inv q" and "\<not> q_closed q" and "q_pending q < q_capacity q"
  shows "queue_inv (enqueue t q)"
proof -
  let ?k = "tk_key t" and ?j = "\<lparr>jb_id = length (q_admitted q), jb_task = t\<rparr>"
  let ?p = "put_lane ?k ((lane_of q ?k)\<lparr>ln_jobs := ln_jobs (lane_of q ?k) @ [?j]\<rparr>) q"
  let ?p1 = "?p\<lparr>q_pending := q_pending q + 1, q_admitted := q_admitted q @ [?j]\<rparr>"
  let ?m = "make_ready ?k ?p1"
  have i: "core_inv q" "counters_inv q" "account_inv q" using assms by (simp_all add: queue_inv_core)
  then have l: "lanes_inv q" and rd: "ready_inv q" and w: "workers_inv q" and o: "order_inv q"
    by (simp_all add: core_inv_def)
  have e: "enqueue t q = start_workers ?m" by (simp add: enqueue_def Let_def)
  have lp: "lanes_inv ?p1"
    using lanes_enqueue [OF l, of ?j ?k] by (simp add: key_of_def lanes_inv_cong [of ?p1 ?p])
  then have lm: "lanes_inv ?m" by (rule lanes_make_ready)
  have "ready_inv ?m"
    by (rule make_ready_inv) (use rd in \<open>auto simp: ready_inv_def runnable_def\<close>)
  then have re: "ready_inv (enqueue t q)" unfolding e by (simp add: ready_inv_cong [of "start_workers ?m" ?m])
  have le: "lanes_inv (enqueue t q)" unfolding e using lm by (simp add: lanes_inv_cong [of "start_workers ?m" ?m])
  have "q_workers ?m = q_workers q" by simp
  then have we: "workers_inv (enqueue t q)"
    unfolding e using w by (intro start_workers_inv) (simp_all add: workers_inv_def)
  have wt: "mset (waiting (enqueue t q)) = add_mset ?j (mset (waiting q))"
  proof -
    have "mset (waiting (enqueue t q)) = mset (waiting ?p1)"
      unfolding e using lp by (simp add: mset_waiting_make_ready lanes_inv_def)
    also have "\<dots> = mset (waiting ?p)" by (simp add: waiting_def)
    also have "\<dots> = add_mset ?j (mset (waiting q))"
      using mset_waiting_put [of ?k "(lane_of q ?k)\<lparr>ln_jobs := ln_jobs (lane_of q ?k) @ [?j]\<rparr>" q]
      by (simp add: add.commute)
    finally show ?thesis .
  qed
  have ids: "jb_id x < length (q_admitted q)" if "x \<in> set (q_admitted q)" for x
  proof -
    have "jb_id x \<in> set (map jb_id (q_admitted q))" using that by simp
    then show ?thesis using i(3) by (simp add: account_inv_def del: set_map)
  qed
  have sub: "set (waiting q) \<subseteq> set (q_admitted q)"
    using i(3) by (metis account_inv_def set_mset_mset set_mset_union sup_assoc sup_ge1)
  have oe: "order_inv (enqueue t q)"
  proof -
    have wl: "x \<in> set (waiting q)" if "x \<in> set (ln_jobs (lane_of q k))" for x k
      using that l waiting_mem [of q x] by (auto simp: lanes_inv_def)
    have "sorted_wrt (\<lambda>a b. jb_id a < jb_id b)
        ((filter (\<lambda>j. key_of j = ?k) (q_started q) @ ln_jobs (lane_of q ?k)) @ [?j])"
      unfolding sorted_wrt_append [of _ _ "[?j]"]
      using o ids sub wl by (auto simp: order_inv_def)
    then show ?thesis using o unfolding e by (auto simp: order_inv_def)
  qed
  have "length (waiting (enqueue t q)) = Suc (length (waiting q))"
    using wt by (metis size_add_mset size_mset)
  then have "counters_inv (enqueue t q)"
    using i(2) assms(2,3) unfolding e by (auto simp: counters_inv_def)
  moreover have "account_inv (enqueue t q)"
    using i(3) wt unfolding e by (simp add: account_inv_def)
  ultimately show ?thesis using re le we oe by (simp add: queue_inv_core core_inv_def)
qed

lemma queue_inv_pending: "queue_inv q \<Longrightarrow> q_pending q \<noteq> q_capacity q \<Longrightarrow> q_pending q < q_capacity q"
  by (simp add: queue_inv_def counters_inv_def)

lemma submit_inv: "queue_inv q \<Longrightarrow> queue_inv (fst (submit e t q))"
  by (auto simp: submit_def queue_inv_pending enqueue_inv split: option.split)

lemma submit_wake_inv: "queue_inv q \<Longrightarrow> queue_inv (fst (submit_wake e t q))"
  by (auto simp: submit_wake_def queue_inv_pending enqueue_inv split: option.split)

section \<open>Workers\<close>

lemma active_drop:
  assumes "distinct (map jb_id (q_active q))" and "j \<in> set (q_active q)"
  shows "length (q_active q) = Suc (length (drop_job j (q_active q)))"
    and "length (filter (\<lambda>x. key_of x = k) (q_active q)) =
      length (filter (\<lambda>x. key_of x = k) (drop_job j (q_active q))) + (if key_of j = k then 1 else 0)"
proof -
  have m: "mset (q_active q) = add_mset j (mset (drop_job j (q_active q)))"
    using drop_job_mset [OF assms] by simp
  then show "length (q_active q) = Suc (length (drop_job j (q_active q)))"
    by (metis size_add_mset size_mset)
  have "size (filter_mset (\<lambda>x. key_of x = k) (mset (q_active q))) =
      size (filter_mset (\<lambda>x. key_of x = k) (mset (drop_job j (q_active q)))) + (if key_of j = k then 1 else 0)"
    unfolding m by simp
  then show "length (filter (\<lambda>x. key_of x = k) (q_active q)) =
      length (filter (\<lambda>x. key_of x = k) (drop_job j (q_active q))) + (if key_of j = k then 1 else 0)"
    by (metis mset_filter size_mset)
qed

lemma active_ids_distinct:
  assumes "account_inv q"
  shows "distinct (map jb_id (q_active q))"
proof -
  have "distinct (map jb_id (q_admitted q))" using assms by (simp add: account_inv_def)
  moreover have "mset (q_admitted q) = mset (waiting q @ q_active q @ q_in_finish q @ q_finished q)"
    using assms by (simp add: account_inv_def add.assoc)
  then have "mset (map jb_id (q_admitted q)) =
      mset (map jb_id (waiting q @ q_active q @ q_in_finish q @ q_finished q))"
    by (metis mset_map)
  ultimately show ?thesis using mset_eq_imp_distinct_iff by fastforce
qed

lemma worker_release_inv:
  assumes "queue_inv q" and "j \<in> set (q_active q)"
  shows "queue_inv (worker_release j q)"
proof -
  let ?k = "key_of j" and ?l = "lane_of q (key_of j)"
  let ?q1 = "q\<lparr>q_active := drop_job j (q_active q), q_finished := q_finished q @ [j]\<rparr>"
  let ?p = "put_lane ?k (?l\<lparr>ln_active := ln_active ?l - 1\<rparr>) ?q1"
  let ?r = "make_ready ?k ?p"
  have r: "worker_release j q = ?r" by (simp add: worker_release_def Let_def key_of_def)
  have i: "core_inv q" "counters_inv q" "account_inv q" using assms by (simp_all add: queue_inv_core)
  then have l: "lanes_inv q" and rd: "ready_inv q" and w: "workers_inv q" and o: "order_inv q"
    by (simp_all add: core_inv_def)
  note ids = active_ids_distinct [OF i(3)]
  note drop = active_drop [OF ids assms(2)]
  have pos: "0 < ln_active ?l" using l drop(2) [of ?k] by (simp add: lanes_inv_def)
  have lp: "lanes_inv ?p"
    unfolding lanes_inv_def
  proof (intro conjI allI impI ballI)
    show "distinct (lane_keys ?p)"
      using l lane_keys_distinct(1) [of ?q1] by (simp add: lanes_inv_def lane_keys_def)
    show "key_of x = k" if "x \<in> set (ln_jobs (lane_of ?p k))" for x k
      using that l by (auto simp: lanes_inv_def split: if_splits)
    show "ln_active (lane_of ?p k) = length (filter (\<lambda>j. key_of j = k) (q_active ?p))" for k
      using l drop(2) [of k] by (auto simp: lanes_inv_def)
    show "ln_active (lane_of ?p k) \<le> 1" if "k \<noteq> None" for k
      using that l by (auto simp: lanes_inv_def intro: le_trans [OF diff_le_self])
  qed
  then have lr: "lanes_inv ?r" by (rule lanes_make_ready)
  have rr: "ready_inv ?r"
    by (rule make_ready_inv) (use rd in \<open>auto simp: ready_inv_def runnable_def\<close>)
  have "ready_work ?r = ready_work q - contribution q ?k + contribution ?r ?k"
    by (rule ready_work_shift [OF rd rr]) simp
  moreover have "contribution ?r ?k \<le> contribution q ?k + 1"
    using pos by (auto simp: contribution_def runnable_def ready_weight_def)
  ultimately have wr: "workers_inv ?r" using w drop(1) by (auto simp: workers_inv_def)
  have or: "order_inv ?r" using o by (auto simp: order_inv_def)
  have wt: "mset (waiting ?r) = mset (waiting q)"
  proof -
    have "distinct (lane_keys ?p)" using lp unfolding lanes_inv_def by blast
    then have "mset (waiting ?r) = mset (waiting ?p)" by (rule mset_waiting_make_ready)
    also have "\<dots> = mset (waiting ?q1)"
      using mset_waiting_put [of ?k "?l\<lparr>ln_active := ln_active ?l - 1\<rparr>" ?q1] by simp
    finally show ?thesis by simp
  qed
  then have len: "length (waiting ?r) = length (waiting q)" by (metis size_mset)
  have "0 < q_workers q" using w drop(1) by (simp add: workers_inv_def)
  then have "counters_inv ?r" using i(2) len by (simp add: counters_inv_def)
  moreover have "account_inv ?r"
  proof -
    have "mset (q_admitted q) = mset (waiting ?r) + add_mset j (mset (drop_job j (q_active q))) +
        mset (q_in_finish q) + mset (q_finished q)"
      using i(3) unfolding drop_job_mset [OF ids assms(2)] wt account_inv_def by blast
    moreover have "map jb_id (q_admitted q) = [0 ..< length (q_admitted q)]"
      using i(3) by (simp add: account_inv_def)
    ultimately show ?thesis by (simp add: account_inv_def)
  qed
  ultimately show ?thesis
    using lr rr wr or by (simp add: r queue_inv_core core_inv_def)
qed

lemma worker_retire_inv:
  assumes "queue_inv q" and "q_ready q = []" and "int (length (q_active q)) < q_workers q"
  shows "queue_inv (fst (worker_take q))"
proof -
  let ?q = "q\<lparr>q_workers := q_workers q - 1\<rparr>"
  have i: "core_inv q" "counters_inv q" "account_inv q" using assms by (simp_all add: queue_inv_core)
  have "ready_weight ?q = ready_weight q" by (simp add: ready_weight_def fun_eq_iff)
  then have "workers_inv ?q"
    using i(1) assms(2,3) by (auto simp: core_inv_def workers_inv_def ready_work_def)
  moreover have "lanes_inv ?q" "ready_inv ?q" "order_inv ?q"
    using i(1) by (simp_all add: core_inv_def lanes_inv_cong [of ?q q] ready_inv_cong [of ?q q] order_inv_def)
  ultimately have "core_inv ?q" by (simp add: core_inv_def)
  moreover have "count_inv ?q" using i(2) by (simp add: counters_inv_alt count_inv_def)
  moreover have "account_inv ?q" using i(3) by (simp add: account_inv_def)
  moreover have "\<not> q_done ?q" using i(2) assms(3) by (simp add: counters_inv_def)
  ultimately have "queue_inv (finish_closed ?q)" by (intro finish_closed_inv) simp_all
  with assms(2) show ?thesis by (simp add: worker_take_def)
qed

lemma worker_take_inv:
  assumes "queue_inv q" and "q_ready q = k # rest" and "int (length (q_active q)) < q_workers q"
  shows "queue_inv (fst (worker_take q)) \<and> (\<exists>j. snd (worker_take q) = Some j \<and> key_of j = k \<and>
    hd (ln_jobs (lane_of q k)) = j)"
proof -
  let ?l = "lane_of q k"
  have i: "core_inv q" "counters_inv q" "account_inv q" using assms by (simp_all add: queue_inv_core)
  then have l: "lanes_inv q" and rd: "ready_inv q" and w: "workers_inv q" and o: "order_inv q"
    by (simp_all add: core_inv_def)
  have run: "runnable q k" using rd assms(2) by (auto simp: ready_inv_def)
  then obtain j js where jobs: "ln_jobs ?l = j # js" by (auto simp: runnable_def neq_Nil_conv)
  have kj: "key_of j = k" using l jobs by (simp add: lanes_inv_def)
  let ?q1 = "q\<lparr>q_ready := rest\<rparr>"
  let ?p = "put_lane k (?l\<lparr>ln_active := ln_active ?l + 1\<rparr>) ?q1"
  let ?m = "remove_pending j ?p"
  let ?r = "?m\<lparr>q_active := q_active q @ [j], q_started := q_started q @ [j]\<rparr>"
  have take: "worker_take q = (?r, Some j)"
    using assms(2) jobs by (simp add: worker_take_def Let_def)
  have dist: "distinct (map jb_id (j # js))" using lane_ids_distinct [OF o, of k] jobs by simp
  have lane: "lane_of ?r k' = (if k' = k then ?l\<lparr>ln_jobs := js, ln_active := ln_active ?l + 1\<rparr>
      else lane_of q k')" for k'
    using drop_job_hd [OF dist] jobs kj by (simp add: remove_pending_lane)
  have keys: "distinct (lane_keys ?r)"
  proof -
    have "distinct (lane_keys ?q1)" using l by (simp add: lanes_inv_def)
    then have "distinct (lane_keys ?m)" by (intro remove_pending_keys lane_keys_distinct)
    then show ?thesis by (simp add: lane_keys_def)
  qed
  have one: "k \<noteq> None \<Longrightarrow> ln_active ?l = 0" using run by (auto simp: runnable_def)
  have lk: "\<And>k' x. x \<in> set (ln_jobs (lane_of q k')) \<Longrightarrow> key_of x = k'"
    and la: "\<And>k'. ln_active (lane_of q k') = length (filter (\<lambda>x. key_of x = k') (q_active q))"
    and l1: "\<And>k'. k' \<noteq> None \<Longrightarrow> ln_active (lane_of q k') \<le> 1"
    using l unfolding lanes_inv_def by blast+
  have lr: "lanes_inv ?r"
    unfolding lanes_inv_def
  proof (intro conjI allI impI ballI)
    show "key_of x = k'" if "x \<in> set (ln_jobs (lane_of ?r k'))" for x k'
      using that lk jobs unfolding lane by (auto split: if_splits)
    show "ln_active (lane_of ?r k') = length (filter (\<lambda>x. key_of x = k') (q_active ?r))" for k'
      using la kj unfolding lane by auto
    show "ln_active (lane_of ?r k') \<le> 1" if "k' \<noteq> None" for k'
      using that l1 one unfolding lane by auto
  qed (rule keys)
  have "ready_inv ?m"
    by (rule remove_pending_ready) (use rd assms(2) kj in \<open>auto simp: ready_inv_def runnable_def\<close>)
  moreover have "ready_inv ?r = ready_inv ?m" by (rule ready_inv_cong) simp_all
  ultimately have rr: "ready_inv ?r" by simp
  have "ready_work ?r = ready_work q - contribution q k + contribution ?r k"
    by (rule ready_work_shift [OF rd rr]) (simp only: lane if_False)
  moreover have "contribution ?r k = contribution q k - 1"
    using run jobs unfolding contribution_def runnable_def ready_weight_def lane by auto
  ultimately have wr: "workers_inv ?r" using w assms(3) by (auto simp: workers_inv_def)
  have wt: "mset (waiting q) = add_mset j (mset (waiting ?r))"
  proof -
    have "mset (waiting ?p) = mset (waiting ?q1)"
      using mset_waiting_put [of k "?l\<lparr>ln_active := ln_active ?l + 1\<rparr>" ?q1] by simp
    moreover have "mset (waiting ?p) = add_mset j (mset (waiting ?m))"
      by (rule remove_pending_waiting) (use l jobs kj dist in \<open>auto simp: lanes_inv_def lane_keys_distinct\<close>)
    ultimately show ?thesis by simp
  qed
  then have len: "length (waiting q) = Suc (length (waiting ?r))" by (metis size_add_mset size_mset)
  have "j \<in> set (q_admitted q)"
  proof -
    have "j \<in># mset (q_admitted q)" using i(3) wt by (simp add: account_inv_def)
    then show ?thesis by simp
  qed
  then have or: "order_inv ?r"
    using o jobs kj unfolding order_inv_def lane by (auto dest: spec [of _ k])
  have "counters_inv ?r" using i(2) len assms(3) by (auto simp: counters_inv_def)
  moreover have "account_inv ?r" using i(3) wt by (simp add: account_inv_def)
  ultimately show ?thesis
    using lr rr wr or kj jobs by (simp add: take queue_inv_core core_inv_def)
qed

lemma queue_move_inv: "queue_inv q \<Longrightarrow> queue_inv (queue_move q s)"
proof (cases s)
  case StepTake
  assume "queue_inv q"
  with StepTake show ?thesis
    using worker_take_inv [of q] worker_retire_inv [of q] by (cases "q_ready q") auto
qed (auto simp: submit_inv submit_wake_inv worker_release_inv cancel_begin_inv stop_begin_inv
  finish_end_inv)

lemma new_queue_inv: "new_queue opts = Inr q \<Longrightarrow> queue_inv q"
  by (auto simp: new_queue_def queue_inv_def lanes_inv_def lane_keys_def lane_of_def empty_lane_def
      ready_inv_def runnable_def workers_inv_def ready_work_def counters_inv_def waiting_def
      account_inv_def order_inv_def split: if_splits)

end
