(* ===== verification/Signal_Queue_Props.thy ===== *)
theory Signal_Queue_Props
  imports Signal_Queue_Steps
begin

text \<open>
  What the scheduler promises its users: bounds, exclusion per key, admission order per key,
  one \<open>Finish\<close> per admitted task, and that the workers alone bring every queue to rest.
\<close>

text \<open>
  The queue as a state machine, started by \<open>NewQueue\<close>; options it rejects start no queue, and
  stand for the default options here.
\<close>

definition default_options :: queue_options where
  "default_options = \<lparr>qo_name = [], qo_capacity = 0, qo_concurrency = 0, qo_wait = False,
     qo_admission_timeout = 0\<rparr>"

definition opened_queue :: "queue_options \<Rightarrow> signal_queue" where
  "opened_queue opts = (case new_queue opts of Inr q \<Rightarrow> q
     | Inl e \<Rightarrow> (case new_queue default_options of Inr q \<Rightarrow> q | Inl e \<Rightarrow> undefined))"

lemma opened_queue_inv: "queue_inv (opened_queue opts)"
proof -
  obtain q where "new_queue default_options = Inr q"
    by (simp add: new_queue_def default_options_def)
  then show ?thesis
    by (cases "new_queue opts") (simp_all add: opened_queue_def new_queue_inv)
qed

interpretation queue_machine: guarded_machine "opened_queue opts" queue_move queue_inv for opts
  by unfold_locales (rule opened_queue_inv, erule queue_move_inv)

lemma reachable_queue_inv: "new_queue opts = Inr q0 \<Longrightarrow> queue_inv (foldl queue_move q0 ss)"
  using queue_machine.reachable_inv [of opts ss] by (simp add: opened_queue_def)

lemma queue_inv_no_double:
  assumes "queue_inv q"
  shows "distinct (q_admitted q)" and "distinct (q_finished q)"
    and "set (q_finished q) \<subseteq> set (q_admitted q)"
proof -
  have a: "mset (q_admitted q) = mset (waiting q @ q_active q @ q_in_finish q @ q_finished q)"
    using assms by (simp add: queue_inv_def account_inv_def add.assoc)
  have "distinct (map jb_id (q_admitted q))"
    using assms by (simp add: queue_inv_def account_inv_def)
  then show d: "distinct (q_admitted q)" by (simp add: distinct_map)
  show "distinct (q_finished q)" using mset_eq_imp_distinct_iff [OF a] d by simp
  show "set (q_finished q) \<subseteq> set (q_admitted q)" using mset_eq_setD [OF a] by auto
qed

text \<open>
  the scheduler keeps its bounds.  Whatever is submitted, cancelled or stopped, a queue
  never has more waiting tasks than its capacity nor more running tasks than its concurrency,
  two tasks of the same key never run at the same time, the counters of the code are exact,
  and no worker takes from an empty lane.
\<close>

lemma queue_bounds:
  assumes "new_queue opts = Inr q0" and "q = foldl queue_move q0 ss"
  shows "q_pending q = int (length (waiting q)) \<and> q_pending q \<le> q_capacity q \<and>
    int (length (q_active q)) \<le> q_workers q \<and> q_workers q \<le> q_concurrency q \<and>
    (\<forall>k. k \<noteq> None \<longrightarrow> length (filter (\<lambda>j. key_of j = k) (q_active q)) \<le> 1) \<and>
    q_finishing q = int (length (q_in_finish q)) \<and> \<not> q_panicked q"
proof -
  have i: "queue_inv q" using reachable_queue_inv [OF assms(1)] assms(2) by simp
  then have "length (filter (\<lambda>j. key_of j = k) (q_active q)) \<le> 1" if "k \<noteq> None" for k
    using that unfolding queue_inv_def lanes_inv_def by metis
  with i show ?thesis by (simp add: queue_inv_def workers_inv_def counters_inv_def)
qed

text \<open>A queue of capacity two with two workers, and tasks with a key and without.\<close>

definition sample_options :: queue_options where
  "sample_options = \<lparr>qo_name = ''q'', qo_capacity = 2, qo_concurrency = 2, qo_wait = False,
     qo_admission_timeout = 0\<rparr>"

definition sample_queue :: signal_queue where
  "sample_queue = (case new_queue sample_options of Inr q \<Rightarrow> q | Inl e \<Rightarrow> undefined)"

lemma sample_queue_new: "new_queue sample_options = Inr sample_queue"
  by (simp add: sample_queue_def new_queue_def sample_options_def)

definition keyed_task :: "string option \<Rightarrow> shutdown_policy \<Rightarrow> signal_task" where
  "keyed_task k p = \<lparr>tk_has_run = True, tk_shutdown = p, tk_key = k\<rparr>"

definition sample_steps :: "queue_step list" where
  "sample_steps =
     [StepSubmit None (keyed_task (Some ''k'') Drain), StepSubmit None (keyed_task (Some ''k'') Drain),
      StepTake, StepTake, StepSubmit None (keyed_task None CancelPending),
      StepSubmit None (keyed_task None CancelPending)]"

lemma queue_bounds_witness:
  "length (filter (\<lambda>j. key_of j = Some ''k'') (q_active (foldl queue_move sample_queue sample_steps))) \<le> 1 \<and>
   q_pending (foldl queue_move sample_queue sample_steps) \<le> 2"
proof -
  have "q_capacity (foldl queue_move sample_queue sample_steps) = 2" by code_simp
  then show ?thesis using queue_bounds [OF sample_queue_new refl, of sample_steps] by auto
qed

text \<open>
  C17: tasks of a lane start in the order they were admitted.  For every key (and for the
  tasks without one), the jobs handed to workers so far, followed by the jobs that still wait,
  are in the order of admission: cancellation and shutdown only leave jobs out.
\<close>

theorem queue_lane_order:
  assumes "new_queue opts = Inr q0" and "q = foldl queue_move q0 ss"
  shows "sorted_wrt (\<lambda>a b. jb_id a < jb_id b)
      (filter (\<lambda>j. key_of j = k) (q_started q) @ ln_jobs (lane_of q k)) \<and>
    (\<forall>n < length (q_admitted q). jb_id (q_admitted q ! n) = n)"
proof -
  have i: "queue_inv q" using reachable_queue_inv [OF assms(1)] assms(2) by simp
  have "jb_id (q_admitted q ! n) = n" if "n < length (q_admitted q)" for n
  proof -
    have "map jb_id (q_admitted q) ! n = [0 ..< length (q_admitted q)] ! n"
      using i unfolding queue_inv_def account_inv_def by metis
    with that show ?thesis by simp
  qed
  with i show ?thesis unfolding queue_inv_def order_inv_def by blast
qed

theorem queue_lane_order_witness:
  "sorted_wrt (\<lambda>a b. jb_id a < jb_id b)
      (filter (\<lambda>j. key_of j = Some ''k'') (q_started (foldl queue_move sample_queue sample_steps)) @
        ln_jobs (lane_of (foldl queue_move sample_queue sample_steps) (Some ''k''))) \<and>
    length (ln_jobs (lane_of (foldl queue_move sample_queue sample_steps) (Some ''k''))) = 1"
  (is "_ \<and> ?waits")
proof -
  have ?waits by code_simp
  then show ?thesis using queue_lane_order [OF sample_queue_new refl] by blast
qed

text \<open>
  C18: every admitted task is finished exactly once.  At any moment an admitted job waits,
  runs, is on its way to \<open>Finish\<close>, or has had \<open>Finish\<close> called, and never two of these; once
  the queue reports \<open>Done\<close>, it is closed and every admitted job has been finished.
\<close>

theorem queue_finishes_once:
  assumes "new_queue opts = Inr q0" and "q = foldl queue_move q0 ss"
  shows "mset (q_admitted q) =
      mset (waiting q) + mset (q_active q) + mset (q_in_finish q) + mset (q_finished q) \<and>
    distinct (q_admitted q) \<and>
    (q_done q \<longrightarrow> q_closed q \<and> mset (q_finished q) = mset (q_admitted q))"
proof -
  have i: "queue_inv q" using reachable_queue_inv [OF assms(1)] assms(2) by simp
  have a: "mset (q_admitted q) =
      mset (waiting q) + mset (q_active q) + mset (q_in_finish q) + mset (q_finished q)"
    using i by (simp add: queue_inv_def account_inv_def)
  have "waiting q = [] \<and> q_active q = [] \<and> q_in_finish q = [] \<and> q_closed q" if "q_done q"
    using that i by (auto simp: queue_inv_def counters_inv_def workers_inv_def)
  with a queue_inv_no_double(1) [OF i] show ?thesis by auto
qed

theorem queue_finishes_once_witness:
  "mset (q_finished (foldl queue_move sample_queue
      [StepSubmit None (keyed_task None CancelPending), StepStop False, StepFinished
         [\<lparr>jb_id = 0, jb_task = keyed_task None CancelPending\<rparr>], StepTake])) =
   mset [\<lparr>jb_id = 0, jb_task = keyed_task None CancelPending\<rparr>]"
proof -
  let ?ss = "[StepSubmit None (keyed_task None CancelPending), StepStop False, StepFinished
         [\<lparr>jb_id = 0, jb_task = keyed_task None CancelPending\<rparr>], StepTake]"
  have "q_done (foldl queue_move sample_queue ?ss)" by code_simp
  moreover have "q_admitted (foldl queue_move sample_queue ?ss) =
      [\<lparr>jb_id = 0, jb_task = keyed_task None CancelPending\<rparr>]" by code_simp
  ultimately show ?thesis using queue_finishes_once [OF sample_queue_new refl] by metis
qed

section \<open>The workers bring the queue to rest\<close>

definition worker_step :: "queue_step \<Rightarrow> bool" where
  "worker_step s \<longleftrightarrow> (case s of StepTake \<Rightarrow> True | StepRelease j \<Rightarrow> True | StepFinished js \<Rightarrow> True | _ \<Rightarrow> False)"

definition at_rest :: "signal_queue \<Rightarrow> bool" where
  "at_rest q \<longleftrightarrow> waiting q = [] \<and> q_active q = [] \<and> q_in_finish q = [] \<and> q_workers q = 0"

definition queue_measure :: "signal_queue \<Rightarrow> nat" where
  "queue_measure q = 3 * length (waiting q) + 2 * length (q_active q) + length (q_in_finish q) +
     nat (q_workers q)"

lemma finish_closed_same [simp]:
  "waiting (finish_closed q) = waiting q" "q_active (finish_closed q) = q_active q"
  "q_in_finish (finish_closed q) = q_in_finish q" "q_workers (finish_closed q) = q_workers q"
  "q_closed (finish_closed q) = q_closed q" "q_admitted (finish_closed q) = q_admitted q"
  by (simp_all add: finish_closed_def)

text \<open>Work that waits with nobody running finds a worker: the scheduler does not stall.\<close>

lemma waiting_has_worker:
  assumes "queue_inv q" and "waiting q \<noteq> []" and "q_active q = []"
  shows "0 < q_workers q"
proof -
  have l: "lanes_inv q" and rd: "ready_inv q" and w: "workers_inv q"
    using assms(1) by (simp_all add: queue_inv_def)
  obtain j where "j \<in> set (waiting q)" using assms(2) by (cases "waiting q") auto
  then obtain k where k: "j \<in> set (ln_jobs (lane_of q k))"
    using l waiting_mem [of q j] unfolding lanes_inv_def by blast
  have "ln_active (lane_of q k) = 0" using l assms(3) unfolding lanes_inv_def by simp
  with k have run: "runnable q k" by (auto simp: runnable_def)
  then have "contribution q k \<le> (\<Sum>k' \<in> set (q_ready q). contribution q k')"
    using rd by (intro member_le_sum) (auto simp: ready_inv_def contribution_def ready_weight_def)
  moreover have "0 < contribution q k"
    using k run by (auto simp: contribution_def ready_weight_def)
  ultimately have "0 < ready_work q" using ready_work_sum [OF rd] by simp
  with w assms(3) show ?thesis by (auto simp: workers_inv_def)
qed

lemma take_progress:
  assumes "queue_inv q" and "int (length (q_active q)) < q_workers q"
  shows "queue_measure (queue_move q StepTake) < queue_measure q"
    and "q_closed (queue_move q StepTake) = q_closed q"
    and "q_admitted (queue_move q StepTake) = q_admitted q"
proof -
  have i: "queue_inv (queue_move q StepTake)" by (rule queue_move_inv [OF assms(1)])
  have m: "queue_move q StepTake = fst (worker_take q)" using assms(2) by simp
  show "q_closed (queue_move q StepTake) = q_closed q"
    and a: "q_admitted (queue_move q StepTake) = q_admitted q"
    unfolding m by (auto simp: worker_take_def Let_def split: list.split)
  have "length (waiting q) + length (q_active q) + length (q_in_finish q) + length (q_finished q) =
      length (q_admitted q)" if "queue_inv q" for q
  proof -
    have "size (mset (q_admitted q)) =
        size (mset (waiting q) + mset (q_active q) + mset (q_in_finish q) + mset (q_finished q))"
      using that by (simp add: queue_inv_def account_inv_def)
    then show ?thesis by simp
  qed
  note total = this [OF assms(1)] this [OF i]
  show "queue_measure (queue_move q StepTake) < queue_measure q"
  proof (cases "q_ready q")
    case Nil
    then have "queue_move q StepTake = finish_closed (q\<lparr>q_workers := q_workers q - 1\<rparr>)"
      using assms(2) by (simp add: worker_take_def)
    then show ?thesis using assms(2) by (simp add: queue_measure_def)
  next
    case (Cons k rest)
    then have "runnable q k" using assms(1) by (auto simp: queue_inv_def ready_inv_def)
    then obtain j js where "ln_jobs (lane_of q k) = j # js"
      by (auto simp: runnable_def neq_Nil_conv)
    with Cons have e: "q_active (queue_move q StepTake) = q_active q @ [j]"
      "q_in_finish (queue_move q StepTake) = q_in_finish q"
      "q_finished (queue_move q StepTake) = q_finished q"
      "q_workers (queue_move q StepTake) = q_workers q"
      unfolding m by (simp_all add: worker_take_def Let_def)
    with total a have "length (waiting q) = Suc (length (waiting (queue_move q StepTake)))" by simp
    with e show ?thesis by (simp add: queue_measure_def)
  qed
qed

lemma release_progress:
  assumes "queue_inv q" and "j \<in> set (q_active q)"
  shows "queue_measure (queue_move q (StepRelease j)) < queue_measure q"
    and "q_closed (queue_move q (StepRelease j)) = q_closed q"
    and "q_admitted (queue_move q (StepRelease j)) = q_admitted q"
proof -
  have i: "account_inv q" using assms(1) by (simp add: queue_inv_def)
  have e: "q_active (queue_move q (StepRelease j)) = drop_job j (q_active q)"
    "q_in_finish (queue_move q (StepRelease j)) = q_in_finish q"
    "q_workers (queue_move q (StepRelease j)) = q_workers q"
    "q_finished (queue_move q (StepRelease j)) = q_finished q @ [j]"
    "q_closed (queue_move q (StepRelease j)) = q_closed q"
    "q_admitted (queue_move q (StepRelease j)) = q_admitted q"
    using assms(2) by (simp_all add: worker_release_def Let_def)
  note d = drop_job_mset [OF active_ids_distinct [OF i] assms(2)]
  have "size (mset (q_active q)) = Suc (length (drop_job j (q_active q)))" by (simp flip: d)
  moreover have "mset (waiting (queue_move q (StepRelease j))) = mset (waiting q)"
  proof -
    have "account_inv (queue_move q (StepRelease j))"
      using queue_move_inv [OF assms(1), of "StepRelease j"] by (simp only: queue_inv_def)
    then have "mset (waiting (queue_move q (StepRelease j))) + mset (drop_job j (q_active q)) + {#j#} +
        mset (q_in_finish q) + mset (q_finished q) =
      mset (waiting q) + mset (q_active q) + mset (q_in_finish q) + mset (q_finished q)"
      using i e unfolding account_inv_def by (simp add: add.commute add.left_commute)
    then show ?thesis by (simp flip: d add: add.assoc)
  qed
  then have "length (waiting (queue_move q (StepRelease j))) = length (waiting q)" by (metis size_mset)
  ultimately show "queue_measure (queue_move q (StepRelease j)) < queue_measure q"
    using e by (simp add: queue_measure_def)
qed (use assms(2) in \<open>simp_all add: worker_release_def Let_def\<close>)

lemma finished_progress:
  assumes "queue_inv q" and "q_in_finish q \<noteq> []"
  shows "queue_measure (queue_move q (StepFinished (q_in_finish q))) < queue_measure q"
    and "q_closed (queue_move q (StepFinished (q_in_finish q))) = q_closed q"
    and "q_admitted (queue_move q (StepFinished (q_in_finish q))) = q_admitted q"
proof -
  have "mset (q_admitted q) = mset (waiting q @ q_active q @ q_in_finish q @ q_finished q)"
    using assms(1) by (simp add: queue_inv_def account_inv_def add.assoc)
  then have "distinct (q_in_finish q)"
    using queue_inv_no_double(1) [OF assms(1)] mset_eq_imp_distinct_iff by fastforce
  then show "queue_measure (queue_move q (StepFinished (q_in_finish q))) < queue_measure q"
    and "q_closed (queue_move q (StepFinished (q_in_finish q))) = q_closed q"
    and "q_admitted (queue_move q (StepFinished (q_in_finish q))) = q_admitted q"
    using assms(2) by (simp_all add: finish_end_def queue_measure_def)
qed

lemma queue_progress:
  assumes "queue_inv q" and "\<not> at_rest q"
  obtains s where "worker_step s" and "queue_measure (queue_move q s) < queue_measure q"
    and "q_closed (queue_move q s) = q_closed q" and "q_admitted (queue_move q s) = q_admitted q"
proof -
  have w: "workers_inv q" using assms(1) by (simp add: queue_inv_def)
  consider (fin) "q_in_finish q \<noteq> []" | (act) j where "j \<in> set (q_active q)"
    | (idle) "q_active q = []" "0 < q_workers q"
    using assms waiting_has_worker [OF assms(1)] w
    by (cases "q_active q") (auto simp: at_rest_def workers_inv_def)
  then show thesis
  proof cases
    case fin
    show ?thesis by (rule that [OF _ finished_progress [OF assms(1) fin]]) (simp add: worker_step_def)
  next
    case act
    show ?thesis by (rule that [OF _ release_progress [OF assms(1) act]]) (simp add: worker_step_def)
  next
    case idle
    then have "int (length (q_active q)) < q_workers q" by simp
    then show ?thesis
      by (intro that [OF _ take_progress [OF assms(1)]]) (simp_all add: worker_step_def)
  qed
qed

lemma queue_rests:
  "queue_inv q \<Longrightarrow> \<exists>ss. list_all worker_step ss \<and> at_rest (foldl queue_move q ss) \<and>
     q_closed (foldl queue_move q ss) = q_closed q \<and> q_admitted (foldl queue_move q ss) = q_admitted q"
proof (induction "queue_measure q" arbitrary: q rule: less_induct)
  case less
  show ?case
  proof (cases "at_rest q")
    case True
    then show ?thesis by (intro exI [of _ "[]"]) simp
  next
    case False
    obtain s where s: "worker_step s" "queue_measure (queue_move q s) < queue_measure q"
      "q_closed (queue_move q s) = q_closed q" "q_admitted (queue_move q s) = q_admitted q"
      using queue_progress [OF less.prems False] .
    obtain ss where ss: "list_all worker_step ss" "at_rest (foldl queue_move (queue_move q s) ss)"
      "q_closed (foldl queue_move (queue_move q s) ss) = q_closed (queue_move q s)"
      "q_admitted (foldl queue_move (queue_move q s) ss) = q_admitted (queue_move q s)"
      using less.hyps [OF s(2) queue_move_inv [OF less.prems]] by blast
    with s show ?thesis by (intro exI [of _ "s # ss"]) simp
  qed
qed

text \<open>
  C19: the scheduler never stalls.  From every reachable state, steps of workers and finishers
  alone (no new submission, no cancellation) lead to a state where every task admitted so far
  is finished and all workers have retired; if the queue was closed, it then reports \<open>Done\<close>.
\<close>

theorem queue_drains:
  assumes "new_queue opts = Inr q0" and "q = foldl queue_move q0 ss"
  shows "\<exists>rs. list_all worker_step rs \<and>
    mset (q_finished (foldl queue_move q rs)) = mset (q_admitted q) \<and>
    q_workers (foldl queue_move q rs) = 0 \<and>
    (q_closed q \<longrightarrow> q_done (foldl queue_move q rs))"
proof -
  have i: "queue_inv q" using reachable_queue_inv [OF assms(1)] assms(2) by simp
  obtain rs where rs: "list_all worker_step rs" "at_rest (foldl queue_move q rs)"
    "q_closed (foldl queue_move q rs) = q_closed q" "q_admitted (foldl queue_move q rs) = q_admitted q"
    using queue_rests [OF i] by blast
  have j: "queue_inv (foldl queue_move q rs)"
    using reachable_queue_inv [OF assms(1), of "ss @ rs"] assms(2) by simp
  have "mset (q_finished (foldl queue_move q rs)) = mset (q_admitted q)"
    using j rs(2,4) unfolding queue_inv_def account_inv_def at_rest_def by simp
  moreover have "q_closed q \<longrightarrow> q_done (foldl queue_move q rs)"
    using j rs(2,3) by (simp add: queue_inv_def counters_inv_def at_rest_def)
  ultimately show ?thesis using rs by (auto simp: at_rest_def)
qed

theorem queue_drains_witness:
  "\<exists>rs. list_all worker_step rs \<and>
    mset (q_finished (foldl queue_move (foldl queue_move sample_queue sample_steps) rs)) =
      mset (q_admitted (foldl queue_move sample_queue sample_steps))"
  using queue_drains [OF sample_queue_new refl, of sample_steps] by blast

end
