(* ===== verification/Signal_Delivery.thy ===== *)
theory Signal_Delivery
  imports Signal_Queue
begin

text \<open>
  The two objects between an emission and the scheduler: the connection that admits the
  callbacks of one receiver (\<open>internal/signal/connection.go\<close>) and the emission that collects
  one result per receiver (\<open>internal/signal/result.go\<close>).  A task of a connection and a
  registered callback are named by numbers; a business result is a value of any type.
\<close>

section \<open>Connections\<close>

record connection =
  cn_tasks :: "nat list"
  cn_shutdown :: shutdown_policy
  cn_closed :: bool
  cn_done :: bool
  cn_disconnected :: bool
  cn_canceled :: "nat list"

definition new_connection :: "shutdown_policy \<Rightarrow> connection" where
  "new_connection p = \<lparr>cn_tasks = [], cn_shutdown = p, cn_closed = False, cn_done = False,
     cn_disconnected = False, cn_canceled = []\<rparr>"

definition connection_acquire :: "nat \<Rightarrow> connection \<Rightarrow> connection \<times> bool" where
  "connection_acquire t c =
     (if cn_closed c then (c, False) else (c\<lparr>cn_tasks := t # cn_tasks c\<rparr>, True))"

definition close_connection_done :: "connection \<Rightarrow> connection" where
  "close_connection_done c = (if cn_done c then c else c\<lparr>cn_done := True\<rparr>)"

definition connection_release :: "nat \<Rightarrow> connection \<Rightarrow> connection" where
  "connection_release t c =
     (let c1 = c\<lparr>cn_tasks := removeAll t (cn_tasks c)\<rparr>
      in if cn_closed c1 \<and> cn_tasks c1 = [] then close_connection_done c1 else c1)"

definition connection_disconnect :: "connection \<Rightarrow> connection" where
  "connection_disconnect c = c\<lparr>cn_disconnected := True\<rparr>"

definition connection_begin_close :: "connection \<Rightarrow> connection" where
  "connection_begin_close c =
     (let c1 = (connection_disconnect c)\<lparr>cn_closed := True\<rparr>;
          c2 = (if cn_shutdown c1 = CancelPending
                then c1\<lparr>cn_canceled := cn_tasks c1 @ cn_canceled c1\<rparr> else c1)
      in if cn_tasks c2 = [] then close_connection_done c2 else c2)"

datatype connection_call =
  ConnAcquire nat | ConnRelease nat | ConnBeginClose | ConnDisconnect

fun connection_step :: "connection \<Rightarrow> connection_call \<Rightarrow> connection" where
  "connection_step c (ConnAcquire t) = fst (connection_acquire t c)"
| "connection_step c (ConnRelease t) = connection_release t c"
| "connection_step c ConnBeginClose = connection_begin_close c"
| "connection_step c ConnDisconnect = connection_disconnect c"

lemmas connection_op_defs = connection_acquire_def connection_release_def
  connection_begin_close_def connection_disconnect_def close_connection_done_def Let_def

definition connection_inv :: "connection \<Rightarrow> bool" where
  "connection_inv c \<longleftrightarrow> (cn_done c \<longleftrightarrow> cn_closed c \<and> cn_tasks c = []) \<and>
     (cn_closed c \<longrightarrow> cn_disconnected c)"

lemma connection_step_inv: "connection_inv c \<Longrightarrow> connection_inv (connection_step c x)"
  by (cases x) (auto simp: connection_op_defs connection_inv_def)

lemma new_connection_inv: "connection_inv (new_connection p)"
  by (simp add: connection_inv_def new_connection_def)

interpretation connection_machine: guarded_machine "new_connection p" connection_step connection_inv for p
  by unfold_locales (rule new_connection_inv, erule connection_step_inv)

lemma connection_step_over:
  "connection_inv c \<and> cn_done c \<Longrightarrow> connection_inv (connection_step c x) \<and> cn_done (connection_step c x)"
  using connection_step_inv [of c x]
  by (cases x) (auto simp: connection_op_defs connection_inv_def)

interpretation connection_over: one_way_flag connection_step "\<lambda>c. connection_inv c \<and> cn_done c"
  by unfold_locales (rule connection_step_over)

text \<open>
  A closed connection really is over.  After any calls, \<open>Done\<close> is closed exactly when the
  connection is closed and no callback of it is left; from then on no further callback is ever
  admitted, and closing a connection cancels every callback it still has, unless it drains.
\<close>

lemma connection_done_means_over:
  assumes "c = foldl connection_step (new_connection p) xs"
  shows "(cn_done c \<longleftrightarrow> cn_closed c \<and> cn_tasks c = []) \<and>
    (cn_done c \<longrightarrow> cn_tasks (foldl connection_step c ys) = [] \<and>
       snd (connection_acquire t (foldl connection_step c ys)) = False) \<and>
    (p = CancelPending \<longrightarrow> set (cn_tasks c) \<subseteq> set (cn_canceled (connection_begin_close c)))"
proof -
  have i: "connection_inv c" unfolding assms by (rule connection_machine.reachable_inv)
  have "connection_inv (foldl connection_step c ys) \<and> cn_done (foldl connection_step c ys)" if "cn_done c"
    using connection_over.run_raised i that by blast
  moreover have "cn_shutdown c = p"
    unfolding assms
    by (induction xs rule: rev_induct)
      (simp add: new_connection_def, (rename_tac x xs, case_tac x; auto simp: connection_op_defs))
  ultimately show ?thesis
    using i by (auto simp: connection_inv_def connection_acquire_def connection_op_defs)
qed

lemma connection_done_means_over_witness:
  "cn_tasks (foldl connection_step (foldl connection_step (new_connection CancelPending)
     [ConnAcquire 1, ConnBeginClose, ConnRelease 1]) [ConnAcquire 2]) = []"
proof -
  have "cn_done (foldl connection_step (new_connection CancelPending)
     [ConnAcquire 1, ConnBeginClose, ConnRelease 1])" by code_simp
  then show ?thesis using connection_done_means_over [OF refl] by blast
qed

section \<open>Emissions\<close>

record 'r signal_result =
  sr_value :: 'r
  sr_err :: "go_error option"
  sr_started :: bool

text \<open>
  \<open>em_called\<close> and \<open>em_exited\<close> record the callbacks that were run; \<open>em_done\<close> is \<open>None\<close> in
  an asynchronous emission, whose channel is nil.
\<close>

record 'r emission =
  em_results :: "'r signal_result option list"
  em_started :: "bool list"
  em_remaining :: int
  em_done :: "bool option"
  em_callbacks :: "nat list"
  em_called :: "nat list"
  em_work :: int
  em_exit_callbacks :: "nat list"
  em_exited :: "nat list"
  em_canceled :: bool
  em_panicked :: bool

definition new_emission :: "nat \<Rightarrow> bool \<Rightarrow> 'r emission" where
  "new_emission n synchronous =
     (let e = \<lparr>em_results = [], em_started = [], em_remaining = 0, em_done = None,
            em_callbacks = [], em_called = [], em_work = int n, em_exit_callbacks = [],
            em_exited = [], em_canceled = False, em_panicked = False\<rparr>
      in if \<not> synchronous then (if n = 0 then e\<lparr>em_canceled := True\<rparr> else e)
         else let e1 = e\<lparr>em_remaining := int n, em_done := Some False,
                em_results := replicate n None, em_started := replicate n False\<rparr>
           in if n = 0 then e1\<lparr>em_done := Some True, em_canceled := True\<rparr> else e1)"

definition emission_start :: "nat \<Rightarrow> 'r emission \<Rightarrow> 'r emission" where
  "emission_start i e =
     (if i < length (em_started e) then e\<lparr>em_started := (em_started e)[i := True]\<rparr>
      else e\<lparr>em_panicked := True\<rparr>)"

definition emission_close_done :: "'r emission \<Rightarrow> 'r emission" where
  "emission_close_done e =
     (if em_done e = Some False then e\<lparr>em_done := Some True\<rparr> else e\<lparr>em_panicked := True\<rparr>)"

text \<open>\<open>finish\<close>: a receiver that has finished is \<open>Some\<close> in the results, so later calls are ignored.\<close>

definition emission_finish :: "nat \<Rightarrow> 'r signal_result \<Rightarrow> 'r emission \<Rightarrow> 'r emission" where
  "emission_finish i r e =
     (if length (em_results e) \<le> i then e\<lparr>em_panicked := True\<rparr>
      else if em_results e ! i \<noteq> None then e
      else let e1 = e\<lparr>em_results := (em_results e)[i :=
                  Some (r\<lparr>sr_started := sr_started r \<or> em_started e ! i\<rparr>)],
                em_remaining := em_remaining e - 1\<rparr>
        in if em_remaining e1 \<noteq> 0 then e1
           else (emission_close_done e1)\<lparr>em_callbacks := [], em_called := em_called e1 @ em_callbacks e1,
                  em_canceled := True\<rparr>)"

definition emission_on_complete :: "nat \<Rightarrow> 'r emission \<Rightarrow> 'r emission" where
  "emission_on_complete f e =
     (if em_remaining e \<noteq> 0 then e\<lparr>em_callbacks := em_callbacks e @ [f]\<rparr>
      else e\<lparr>em_called := em_called e @ [f]\<rparr>)"

definition emission_exit :: "'r emission \<Rightarrow> 'r emission" where
  "emission_exit e =
     (let e1 = e\<lparr>em_work := em_work e - 1\<rparr>
      in if em_work e1 \<noteq> 0 then e1
         else e1\<lparr>em_canceled := (em_canceled e1 \<or> em_done e1 = None), em_exit_callbacks := [],
                em_exited := em_exited e1 @ em_exit_callbacks e1\<rparr>)"

definition emission_on_exit :: "nat \<Rightarrow> 'r emission \<Rightarrow> 'r emission" where
  "emission_on_exit f e =
     (if em_work e \<noteq> 0 then e\<lparr>em_exit_callbacks := em_exit_callbacks e @ [f]\<rparr>
      else e\<lparr>em_exited := em_exited e @ [f]\<rparr>)"

datatype 'r emission_call =
    EmStart nat | EmFinish nat "'r signal_result" | EmOnComplete nat | EmExit | EmOnExit nat

fun emission_step :: "'r emission \<Rightarrow> 'r emission_call \<Rightarrow> 'r emission" where
  "emission_step e (EmStart i) = (if i < length (em_results e) then emission_start i e else e)"
| "emission_step e (EmFinish i r) = (if i < length (em_results e) then emission_finish i r e else e)"
| "emission_step e (EmOnComplete f) = emission_on_complete f e"
| "emission_step e EmExit = emission_exit e"
| "emission_step e (EmOnExit f) = emission_on_exit f e"

text \<open>The callbacks registered by a list of calls, in order.\<close>

fun registered :: "'r emission_call list \<Rightarrow> nat list" where
  "registered [] = []"
| "registered (EmOnComplete f # cs) = f # registered cs"
| "registered (c # cs) = registered cs"

lemma registered_append [simp]: "registered (cs @ ds) = registered cs @ registered ds"
  by (induction cs rule: registered.induct) auto

definition unfinished :: "'r emission \<Rightarrow> nat" where
  "unfinished e = length (filter (\<lambda>r. r = None) (em_results e))"

definition emission_inv :: "nat \<Rightarrow> 'r emission \<Rightarrow> bool" where
  "emission_inv n e \<longleftrightarrow> length (em_results e) = n \<and> length (em_started e) = n \<and>
     em_remaining e = int (unfinished e) \<and> em_done e = Some (unfinished e = 0) \<and>
     (unfinished e = 0 \<longrightarrow> em_callbacks e = []) \<and> (unfinished e \<noteq> 0 \<longrightarrow> em_called e = []) \<and>
     \<not> em_panicked e"

lemma unfinished_update:
  "i < length rs \<Longrightarrow> rs ! i = None \<Longrightarrow>
     length (filter (\<lambda>r. r = None) rs) = Suc (length (filter (\<lambda>r. r = None) (rs[i := Some r])))"
proof (induction rs arbitrary: i)
  case (Cons a rs)
  then show ?case by (cases i) auto
qed simp

lemma emission_finish_inv:
  assumes "emission_inv n e" and "i < n"
  shows "emission_inv n (emission_finish i r e)"
proof (cases "em_results e ! i = None")
  case True
  let ?rs = "(em_results e)[i := Some (r\<lparr>sr_started := sr_started r \<or> em_started e ! i\<rparr>)]"
  have "unfinished e = Suc (length (filter (\<lambda>r. r = None) ?rs))"
    using unfinished_update [of i "em_results e"] assms True
    by (simp add: unfinished_def emission_inv_def)
  with assms True show ?thesis
    by (auto simp: emission_finish_def emission_inv_def emission_close_done_def Let_def unfinished_def)
qed (use assms in \<open>auto simp: emission_finish_def emission_inv_def\<close>)

lemma emission_step_inv: "emission_inv n e \<Longrightarrow> emission_inv n (emission_step e c)"
proof (cases c)
  case (EmFinish i r)
  assume "emission_inv n e"
  with EmFinish show ?thesis using emission_finish_inv by (auto simp: emission_inv_def)
qed (auto simp: emission_inv_def emission_start_def emission_on_complete_def emission_exit_def
  emission_on_exit_def unfinished_def Let_def)

lemma new_emission_inv: "emission_inv n (new_emission n True)"
  by (simp add: new_emission_def emission_inv_def unfinished_def Let_def)

interpretation emission_machine: guarded_machine "new_emission n True" emission_step "emission_inv n"
  for n
  by unfold_locales (rule new_emission_inv, erule emission_step_inv)

lemma emission_step_callbacks:
  "emission_inv n e \<Longrightarrow> em_called (emission_step e c) @ em_callbacks (emission_step e c) =
     em_called e @ em_callbacks e @ registered [c]"
proof (cases c)
  case (EmFinish i r)
  assume "emission_inv n e"
  with EmFinish show ?thesis
    by (auto simp: emission_finish_def emission_close_done_def emission_inv_def Let_def)
qed (auto simp: emission_start_def emission_on_complete_def emission_exit_def
  emission_on_exit_def Let_def emission_inv_def)

lemma emission_callbacks:
  "em_called (foldl emission_step (new_emission n True) cs) @
     em_callbacks (foldl emission_step (new_emission n True) cs) = registered cs"
proof (induction cs rule: rev_induct)
  case Nil
  show ?case by (simp add: new_emission_def Let_def)
next
  case (snoc c cs)
  with emission_step_callbacks [OF emission_machine.reachable_inv [of n cs], of c] show ?case
    by (simp flip: append_assoc)
qed

lemma emission_step_result:
  "i < length (em_results e) \<and> em_results e ! i = Some r \<Longrightarrow>
     i < length (em_results (emission_step e c)) \<and> em_results (emission_step e c) ! i = Some r"
  by (cases c) (auto simp: emission_start_def emission_finish_def emission_close_done_def
      emission_on_complete_def emission_exit_def emission_on_exit_def Let_def nth_list_update)

interpretation emission_result: one_way_flag emission_step
  "\<lambda>e. i < length (em_results e) \<and> em_results e ! i = Some r" for i r
  by unfold_locales (rule emission_step_result)

lemma unfinished_0: "unfinished e = 0 \<longleftrightarrow> (\<forall>i < length (em_results e). em_results e ! i \<noteq> None)"
  by (auto simp: unfinished_def filter_empty_conv in_set_conv_nth)

text \<open>
  a synchronous emission completes once and keeps its results.  Over any calls its
  \<open>done\<close> channel is closed exactly when every receiver has finished, without a panic; the
  completion callbacks run exactly then, each once and in the order they were registered
  (those registered later run at once); and the first result of a receiver stands.
\<close>

lemma emission_completes:
  fixes cs :: "'r emission_call list"
  assumes "e = foldl emission_step (new_emission n True) cs"
  shows "\<not> em_panicked e \<and> em_done e = Some (\<forall>i < n. em_results e ! i \<noteq> None) \<and>
    (em_done e = Some True \<longrightarrow> em_called e = registered cs \<and> em_callbacks e = []) \<and>
    (em_done e = Some False \<longrightarrow> em_called e = [] \<and> em_callbacks e = registered cs) \<and>
    (\<forall>i < n. em_results e ! i \<noteq> None \<longrightarrow>
       em_results (foldl emission_step e ds) ! i = em_results e ! i)"
proof -
  have i: "emission_inv n e" unfolding assms by (rule emission_machine.reachable_inv)
  note c = emission_callbacks [of n cs, folded assms]
  have d: "em_done e = Some (\<forall>i < n. em_results e ! i \<noteq> None)"
    using i unfinished_0 [of e] by (simp add: emission_inv_def)
  have "em_results (foldl emission_step e ds) ! k = em_results e ! k"
    if "k < n" "em_results e ! k \<noteq> None" for k
    using that i emission_result.run_raised [of k e "the (em_results e ! k)" ds]
    by (auto simp: emission_inv_def)
  with d c i show ?thesis by (auto simp: emission_inv_def)
qed

lemma emission_completes_witness:
  "em_called (foldl emission_step (new_emission 2 True)
     [EmOnComplete 7, EmStart 0, EmFinish 1 \<lparr>sr_value = 5 :: nat, sr_err = None, sr_started = False\<rparr>,
      EmFinish 0 \<lparr>sr_value = 4, sr_err = None, sr_started = False\<rparr>, EmOnComplete 8]) = [7, 8]"
proof -
  let ?cs = "[EmOnComplete 7, EmStart 0,
      EmFinish 1 \<lparr>sr_value = 5 :: nat, sr_err = None, sr_started = False\<rparr>,
      EmFinish 0 \<lparr>sr_value = 4, sr_err = None, sr_started = False\<rparr>, EmOnComplete 8]"
  have d: "em_done (foldl emission_step (new_emission 2 True) ?cs) = Some True" by code_simp
  with emission_completes [of "foldl emission_step (new_emission 2 True) ?cs" 2 ?cs]
  show ?thesis by simp
qed

end
