(* ===== verification/Signal_Emit.thy ===== *)
theory Signal_Emit
  imports Signal_Delivery
begin

text \<open>
  Signals (\<open>internal/signal/signal.go\<close>): a registry of receivers, a queue and a connection per
  receiver, and the emission that hands a fact to every receiver, possibly forwarded to another
  signal.  The world holds all signals, emissions and callbacks, so that forwarding, closing and
  running can interleave.  It is composed of the queue of \<open>Signal_Queue\<close> and the connections and
  emissions of \<open>Signal_Delivery\<close>.

  A step is one region between two points where other goroutines can intervene: an admission of
  one receiver, the start and the end of a callback, the call of a completion or exit callback of
  a forwarded emission, a step of a queue.  Payloads do not influence the protocol and are left
  out; the key that the options compute from one is an argument of the submission.  The end of a
  context (timeout, cancellation) is an event that may come at any time.
\<close>

section \<open>Data\<close>

datatype slot_kind = HandlerSlot | ObserverSlot | ForwardSlot

record slot =
  sl_kind :: slot_kind
  sl_conn :: connection

text \<open>
  The stages of closing: the connections still to be closed by \<open>BeginClose\<close>, then the
  goroutine that joins the queue and the connections.
\<close>

datatype signal_stage = StageOpen | StageClosing "nat list" | StageJoining

text \<open>\<open>sg_slots\<close> keeps every receiver ever connected; the snapshot names the current ones.\<close>

record signal =
  sg_single :: bool
  sg_required :: bool
  sg_slots :: "slot list"
  sg_snapshot :: "nat list"
  sg_closed :: bool
  sg_stage :: signal_stage
  sg_done :: bool
  sg_queue :: signal_queue
  sg_jobs :: "nat list"

datatype run_state = AdmitNext | AdmitSubmit nat | RunReturned "go_error option"

text \<open>
  An emission in the world: its signal, the receivers it took from the snapshot, how far their
  admission is, the signals on its call path, and the forwarded callbacks above it, whose
  \<open>started\<close> flags the entry of a callback sets.  \<open>rn_exits\<close> lists the receivers for which
  \<open>exit\<close> was called, \<open>rn_completed\<close> and \<open>rn_left\<close> the callbacks of other emissions that
  this one has already run.
\<close>

record 'r run =
  rn_signal :: nat
  rn_sync :: bool
  rn_entries :: "nat list"
  rn_next :: nat
  rn_state :: run_state
  rn_path :: "nat list"
  rn_starts :: "nat list"
  rn_emission :: "'r emission"
  rn_exits :: "nat list"
  rn_completed :: "nat list"
  rn_left :: "nat list"

datatype task_phase =
  TaskAcquired | TaskQueued | TaskRunning | TaskForwarding nat | TaskReturned "go_error option"
  | TaskForwarded nat | TaskOver

record emit_task =
  et_run :: nat
  et_index :: nat
  et_phase :: task_phase
  et_stopped :: bool

record 'r world =
  wd_zero :: 'r
  wd_signals :: "signal list"
  wd_runs :: "'r run list"
  wd_tasks :: "emit_task list"

section \<open>Errors\<close>

definition err_closed :: go_error where "err_closed = ErrOther ''signal: queue closed''"
definition err_no_receiver :: go_error where "err_no_receiver = ErrOther ''signal: no receiver''"
definition err_recursive :: go_error where "err_recursive = ErrOther ''signal: recursive dependency''"

definition err_observers :: go_error where
  "err_observers = ErrOther ''signal: asynchronous emission requires observers''"

definition err_single :: go_error where
  "err_single = ErrOther ''signal: forwarding requires a single-receiver destination''"

definition submit_error :: "signal_error \<Rightarrow> go_error" where
  "submit_error e = (case e of
     QueueClosed \<Rightarrow> err_closed
   | ContextError c \<Rightarrow> c
   | AdmissionError c \<Rightarrow> ErrWrap ''signal admission'' c
   | QueueFull \<Rightarrow> ErrOther ''signal: queue full''
   | NilTask \<Rightarrow> ErrOther ''signal: nil task''
   | InvalidPolicy \<Rightarrow> ErrOther ''signal: invalid shutdown policy''
   | NegativeOption \<Rightarrow> ErrOther ''signal: negative queue option'')"

section \<open>Construction and connections\<close>

record emit_options =
  eo_capacity :: int
  eo_concurrency :: int
  eo_timeout :: int
  eo_required :: bool
  eo_single :: bool

text \<open>\<open>None\<close> is the panic on invalid options.\<close>

definition new_signal :: "string \<Rightarrow> emit_options \<Rightarrow> signal option" where
  "new_signal name opts =
     (case new_queue \<lparr>qo_name = name, qo_capacity = eo_capacity opts,
          qo_concurrency = (if eo_concurrency opts = 0 then 8 else eo_concurrency opts),
          qo_wait = False, qo_admission_timeout = 0\<rparr> of
        Inl e \<Rightarrow> None
      | Inr q \<Rightarrow>
          if eo_timeout opts < 0 then None
          else Some \<lparr>sg_single = eo_single opts, sg_required = eo_required opts, sg_slots = [],
            sg_snapshot = [], sg_closed = False, sg_stage = StageOpen, sg_done = False,
            sg_queue = q, sg_jobs = []\<rparr>)"

datatype connect_error = ConnectInvalidPolicy | ConnectClosed | ConnectTaken

definition connect_slot :: "slot_kind \<Rightarrow> shutdown_policy \<Rightarrow> signal \<Rightarrow> connect_error + signal" where
  "connect_slot kind policy s =
     (if policy \<noteq> CancelPending \<and> policy \<noteq> Drain then Inl ConnectInvalidPolicy
      else if sg_closed s then Inl ConnectClosed
      else if sg_single s \<and> sg_snapshot s \<noteq> [] then Inl ConnectTaken
      else Inr (s\<lparr>sg_slots := sg_slots s @ [\<lparr>sl_kind = kind, sl_conn = new_connection policy\<rparr>],
                  sg_snapshot := sg_snapshot s @ [length (sg_slots s)]\<rparr>))"

definition remove_slot :: "nat \<Rightarrow> signal \<Rightarrow> signal" where
  "remove_slot k s = (if sg_closed s then s else s\<lparr>sg_snapshot := remove1 k (sg_snapshot s)\<rparr>)"

definition map_conn :: "nat \<Rightarrow> (connection \<Rightarrow> connection) \<Rightarrow> signal \<Rightarrow> signal" where
  "map_conn k f s = s\<lparr>sg_slots := (sg_slots s)[k := (sg_slots s ! k)\<lparr>sl_conn := f (sl_conn (sg_slots s ! k))\<rparr>]\<rparr>"

definition slot_conn :: "signal \<Rightarrow> nat \<Rightarrow> connection" where
  "slot_conn s k = sl_conn (sg_slots s ! k)"

text \<open>\<open>Disconnect\<close> runs \<open>remove\<close> once; \<open>BeginClose\<close> of a connection disconnects first.\<close>

definition disconnect_slot :: "nat \<Rightarrow> signal \<Rightarrow> signal" where
  "disconnect_slot k s =
     (if cn_disconnected (slot_conn s k) then s else map_conn k connection_disconnect (remove_slot k s))"

definition close_slot :: "nat \<Rightarrow> signal \<Rightarrow> signal" where
  "close_slot k s = map_conn k connection_begin_close (disconnect_slot k s)"

section \<open>Updating the world\<close>

definition map_signal :: "nat \<Rightarrow> (signal \<Rightarrow> signal) \<Rightarrow> 'r world \<Rightarrow> 'r world" where
  "map_signal i f w = w\<lparr>wd_signals := (wd_signals w)[i := f (wd_signals w ! i)]\<rparr>"

definition map_run :: "nat \<Rightarrow> ('r run \<Rightarrow> 'r run) \<Rightarrow> 'r world \<Rightarrow> 'r world" where
  "map_run i f w = w\<lparr>wd_runs := (wd_runs w)[i := f (wd_runs w ! i)]\<rparr>"

definition map_task :: "nat \<Rightarrow> (emit_task \<Rightarrow> emit_task) \<Rightarrow> 'r world \<Rightarrow> 'r world" where
  "map_task i f w = w\<lparr>wd_tasks := (wd_tasks w)[i := f (wd_tasks w ! i)]\<rparr>"

definition task_run :: "'r world \<Rightarrow> nat \<Rightarrow> 'r run" where
  "task_run w t = wd_runs w ! et_run (wd_tasks w ! t)"

definition task_signal :: "'r world \<Rightarrow> nat \<Rightarrow> nat" where
  "task_signal w t = rn_signal (task_run w t)"

definition task_slot :: "'r world \<Rightarrow> nat \<Rightarrow> nat" where
  "task_slot w t = rn_entries (task_run w t) ! et_index (wd_tasks w ! t)"

definition set_phase :: "nat \<Rightarrow> task_phase \<Rightarrow> 'r world \<Rightarrow> 'r world" where
  "set_phase t p w = map_task t (\<lambda>x. x\<lparr>et_phase := p\<rparr>) w"

text \<open>\<open>e.finish\<close>, which only a synchronous emission has, and \<open>e.exit\<close>.\<close>

definition finish_run :: "nat \<Rightarrow> 'r signal_result \<Rightarrow> 'r run \<Rightarrow> 'r run" where
  "finish_run i res x =
     (if rn_sync x then x\<lparr>rn_emission := emission_finish i res (rn_emission x)\<rparr> else x)"

definition exit_run :: "nat \<Rightarrow> 'r run \<Rightarrow> 'r run" where
  "exit_run i x = x\<lparr>rn_emission := emission_exit (rn_emission x), rn_exits := rn_exits x @ [i]\<rparr>"

text \<open>\<open>entry.connection.release(owned)\<close> and \<open>e.exit()\<close> of a callback that is over.\<close>

definition release_task :: "nat \<Rightarrow> 'r world \<Rightarrow> 'r world" where
  "release_task t w = set_phase t TaskOver
     (map_signal (task_signal w t) (map_conn (task_slot w t) (connection_release t)) w)"

definition leave_task :: "nat \<Rightarrow> 'r world \<Rightarrow> 'r world" where
  "leave_task t w =
     map_run (et_run (wd_tasks w ! t)) (exit_run (et_index (wd_tasks w ! t))) (release_task t w)"

definition stop_task :: "nat \<Rightarrow> 'r world \<Rightarrow> 'r world" where
  "stop_task t w = map_task t (\<lambda>x. x\<lparr>et_stopped := True\<rparr>) w"

definition plain_result :: "'r \<Rightarrow> go_error option \<Rightarrow> 'r signal_result" where
  "plain_result v e = \<lparr>sr_value = v, sr_err = e, sr_started = False\<rparr>"

section \<open>Emitting\<close>

text \<open>
  \<open>Emit\<close> without receivers returns at once.  Otherwise \<open>emit\<close> takes the snapshot between two
  looks at \<open>closed\<close>, so at a moment at which the signal is open.  The origin is the callback
  whose context the emission was given.
\<close>

definition origin_path :: "'r world \<Rightarrow> nat option \<Rightarrow> nat list" where
  "origin_path w t = (case t of None \<Rightarrow> [] | Some t \<Rightarrow> rn_path (task_run w t))"

definition is_forward :: "'r world \<Rightarrow> nat \<Rightarrow> bool" where
  "is_forward w t = (sl_kind (sg_slots (wd_signals w ! task_signal w t) ! task_slot w t) = ForwardSlot)"

definition origin_starts :: "'r world \<Rightarrow> nat option \<Rightarrow> nat list" where
  "origin_starts w t = (case t of None \<Rightarrow> [] | Some t \<Rightarrow>
     if rn_sync (task_run w t) \<and> is_forward w t then t # rn_starts (task_run w t)
     else rn_starts (task_run w t))"

definition new_run :: "nat \<Rightarrow> bool \<Rightarrow> nat list \<Rightarrow> nat list \<Rightarrow> nat list \<Rightarrow> 'r run" where
  "new_run s sync entries path starts =
     \<lparr>rn_signal = s, rn_sync = sync, rn_entries = entries, rn_next = 0,
      rn_state = (if entries = [] then RunReturned None else AdmitNext), rn_path = s # path,
      rn_starts = starts, rn_emission = new_emission (length entries) sync, rn_exits = [],
      rn_completed = [], rn_left = []\<rparr>"

definition emit_begin ::
    "nat \<Rightarrow> bool \<Rightarrow> go_error option \<Rightarrow> nat option \<Rightarrow> 'r world \<Rightarrow> go_error + 'r run" where
  "emit_begin s sync ctx_err origin w =
     (let sg = wd_signals w ! s
      in if sg_closed sg then Inl err_closed
         else (case ctx_err of
           Some e \<Rightarrow> Inl e
         | None \<Rightarrow>
             if s \<in> set (origin_path w origin) then Inl err_recursive
             else if sg_snapshot sg = [] \<and> sg_required sg then Inl err_no_receiver
             else if \<not> sync \<and> list_ex (\<lambda>k. sl_kind (sg_slots sg ! k) = HandlerSlot) (sg_snapshot sg)
             then Inl err_observers
             else Inr (new_run s sync (sg_snapshot sg) (origin_path w origin) (origin_starts w origin))))"

definition emit_at_once :: "signal \<Rightarrow> go_error option \<Rightarrow> go_error option option" where
  "emit_at_once sg ctx_err =
     (if sg_snapshot sg = [] \<and> \<not> sg_required sg
      then Some (if sg_closed sg then Some err_closed else ctx_err) else None)"

text \<open>The rest of the receivers after a failed admission: each gets the error and exits.\<close>

definition fail_entry :: "'r \<Rightarrow> go_error \<Rightarrow> 'r run \<Rightarrow> nat \<Rightarrow> 'r run" where
  "fail_entry zero e x i = exit_run i (finish_run i (plain_result zero (Some e)) x)"

definition fail_run :: "'r \<Rightarrow> go_error \<Rightarrow> 'r run \<Rightarrow> 'r run" where
  "fail_run zero e x =
     (foldl (fail_entry zero e) x [rn_next x..<length (rn_entries x)])\<lparr>rn_state := RunReturned (Some e)\<rparr>"

definition acquire_step :: "nat \<Rightarrow> 'r world \<Rightarrow> 'r world" where
  "acquire_step r w =
     (let x = wd_runs w ! r; s = rn_signal x; k = rn_entries x ! rn_next x; t = length (wd_tasks w)
      in if cn_closed (slot_conn (wd_signals w ! s) k) then map_run r (fail_run (wd_zero w) err_closed) w
         else map_run r (\<lambda>x. x\<lparr>rn_state := AdmitSubmit t\<rparr>)
           (map_signal s (map_conn k (\<lambda>c. fst (connection_acquire t c)))
             (w\<lparr>wd_tasks := wd_tasks w @ [\<lparr>et_run = r, et_index = rn_next x, et_phase = TaskAcquired,
                                          et_stopped = False\<rparr>]\<rparr>)))"

text \<open>After \<open>Submit\<close>: the next receiver, or the release of this one and the failure of the rest.\<close>

definition admitted_next :: "'r run \<Rightarrow> 'r run" where
  "admitted_next x = x\<lparr>rn_next := rn_next x + 1,
     rn_state := (if rn_next x + 1 < length (rn_entries x) then AdmitNext else RunReturned None)\<rparr>"

definition submit_step :: "nat \<Rightarrow> nat \<Rightarrow> go_error option \<Rightarrow> string option \<Rightarrow> 'r world \<Rightarrow> 'r world" where
  "submit_step r t ctx_err key w =
     (let s = task_signal w t; sg = wd_signals w ! s;
          job = \<lparr>tk_has_run = True, tk_shutdown = cn_shutdown (slot_conn sg (task_slot w t)), tk_key = key\<rparr>
      in case submit ctx_err job (sg_queue sg) of
           (q, Admitted) \<Rightarrow>
             map_run r admitted_next (set_phase t TaskQueued
               (map_signal s (\<lambda>g. g\<lparr>sg_queue := q, sg_jobs := sg_jobs g @ [t]\<rparr>) w))
         | (q, Rejected e) \<Rightarrow>
             map_run r (fail_run (wd_zero w) (submit_error e)) (release_task t (stop_task t w))
         | (q, Blocked) \<Rightarrow> w)"

section \<open>Running callbacks\<close>

definition mark_started :: "'r world \<Rightarrow> nat \<Rightarrow> 'r world" where
  "mark_started w t =
     map_run (et_run (wd_tasks w ! t))
       (\<lambda>x. x\<lparr>rn_emission := emission_start (et_index (wd_tasks w ! t)) (rn_emission x)\<rparr>) w"

text \<open>
  What a forwarder answers: no destination, or a signal with a context, which is derived from
  the callback's or not.
\<close>

datatype forward_choice = ForwardNone | ForwardTo nat bool "go_error option"

definition forward_task :: "nat \<Rightarrow> forward_choice \<Rightarrow> 'r world \<Rightarrow> 'r world" where
  "forward_task t c w = (case c of
     ForwardNone \<Rightarrow> set_phase t (TaskReturned None) w
   | ForwardTo s derived ctx_err \<Rightarrow>
       if \<not> s < length (wd_signals w) then w
       else if \<not> sg_single (wd_signals w ! s) then set_phase t (TaskReturned (Some err_single)) w
       else (case emit_begin s (rn_sync (task_run w t)) ctx_err (if derived then Some t else None) w of
         Inl e \<Rightarrow> set_phase t (TaskReturned (Some e)) w
       | Inr x \<Rightarrow> set_phase t (TaskForwarding (length (wd_runs w))) (w\<lparr>wd_runs := wd_runs w @ [x]\<rparr>)))"

definition run_callback :: "nat \<Rightarrow> forward_choice \<Rightarrow> 'r world \<Rightarrow> 'r world" where
  "run_callback t c w =
     (if is_forward w t then forward_task t c w
      else set_phase t TaskRunning
        (if rn_sync (task_run w t) then foldl mark_started w (t # rn_starts (task_run w t)) else w))"

text \<open>The forwarder's emission has been admitted, or not.\<close>

definition forward_returned :: "nat \<Rightarrow> nat \<Rightarrow> 'r world \<Rightarrow> 'r world" where
  "forward_returned t c w =
     (case rn_state (wd_runs w ! c) of
        RunReturned (Some e) \<Rightarrow> set_phase t (TaskReturned (Some e)) w
      | RunReturned None \<Rightarrow>
          set_phase t (TaskForwarded c)
            (map_run c (\<lambda>x. x\<lparr>rn_emission :=
                (let e1 = emission_on_exit t (rn_emission x)
                 in if rn_sync x then emission_on_complete t e1 else e1)\<rparr>) w)
      | _ \<Rightarrow> w)"

text \<open>\<open>Finish\<close> of a task that was not forwarded.\<close>

definition finish_task :: "nat \<Rightarrow> 'r signal_result \<Rightarrow> 'r world \<Rightarrow> 'r world" where
  "finish_task t res w =
     leave_task t (map_run (et_run (wd_tasks w ! t)) (finish_run (et_index (wd_tasks w ! t)) res)
       (stop_task t w))"

text \<open>The two callbacks of a forwarded emission.\<close>

definition complete_forward :: "nat \<Rightarrow> nat \<Rightarrow> 'r world \<Rightarrow> 'r world" where
  "complete_forward c t w =
     (let res = (case em_results (rn_emission (wd_runs w ! c)) of
                   Some r # rs \<Rightarrow> r | _ \<Rightarrow> plain_result (wd_zero w) None)
      in map_run (et_run (wd_tasks w ! t)) (finish_run (et_index (wd_tasks w ! t)) res)
           (stop_task t (map_run c (\<lambda>x. x\<lparr>rn_completed := t # rn_completed x\<rparr>) w)))"

definition exit_forward :: "nat \<Rightarrow> nat \<Rightarrow> 'r world \<Rightarrow> 'r world" where
  "exit_forward c t w = leave_task t (map_run c (\<lambda>x. x\<lparr>rn_left := t # rn_left x\<rparr>) w)"

text \<open>\<open>context.AfterFunc\<close>: the end of the callback's context finishes its entry early.\<close>

definition context_ended :: "nat \<Rightarrow> go_error \<Rightarrow> 'r world \<Rightarrow> 'r world" where
  "context_ended t e w =
     (if et_stopped (wd_tasks w ! t) then w
      else map_run (et_run (wd_tasks w ! t))
             (finish_run (et_index (wd_tasks w ! t)) (plain_result (wd_zero w) (Some e))) w)"

section \<open>Closing\<close>

definition begin_close_signal :: "signal \<Rightarrow> signal" where
  "begin_close_signal s =
     (if sg_closed s then s else s\<lparr>sg_closed := True, sg_stage := StageClosing (sg_snapshot s)\<rparr>)"

definition close_next :: "signal \<Rightarrow> signal" where
  "close_next s = (case sg_stage s of
     StageClosing (k # ks) \<Rightarrow> close_slot k (s\<lparr>sg_stage := StageClosing ks\<rparr>)
   | StageClosing [] \<Rightarrow> s\<lparr>sg_stage := StageJoining, sg_queue := fst (stop_begin False (sg_queue s))\<rparr>
   | _ \<Rightarrow> s)"

definition join_done :: "signal \<Rightarrow> signal" where
  "join_done s =
     (if sg_stage s = StageJoining \<and> q_done (sg_queue s) \<and>
         list_all (\<lambda>k. cn_done (slot_conn s k)) (sg_snapshot s)
      then s\<lparr>sg_done := True\<rparr> else s)"

section \<open>Steps\<close>

text \<open>
  The queue gives a job back only after its \<open>Finish\<close> was called, which for a forwarded task does
  nothing.  \<open>Close\<close> may stop the queue as soon as the signal is closed.  A step that is not
  possible in a state changes nothing.
\<close>

definition job_task :: "signal \<Rightarrow> job \<Rightarrow> nat" where
  "job_task s j = sg_jobs s ! jb_id j"

definition job_over :: "'r world \<Rightarrow> signal \<Rightarrow> job \<Rightarrow> bool" where
  "job_over w s j = (case et_phase (wd_tasks w ! job_task s j) of
     TaskOver \<Rightarrow> True | TaskForwarded c \<Rightarrow> True | _ \<Rightarrow> False)"

definition queue_allowed :: "'r world \<Rightarrow> signal \<Rightarrow> queue_step \<Rightarrow> bool" where
  "queue_allowed w s x = (case x of
     StepTake \<Rightarrow> True
   | StepCancel j \<Rightarrow> True
   | StepStop everything \<Rightarrow> sg_closed s
   | StepRelease j \<Rightarrow> job_over w s j
   | StepFinished js \<Rightarrow> list_all (job_over w s) js
   | _ \<Rightarrow> False)"

definition held_by :: "job list \<Rightarrow> 'r world \<Rightarrow> nat \<Rightarrow> bool" where
  "held_by js w t = list_ex (\<lambda>j. job_task (wd_signals w ! task_signal w t) j = t) js"

definition task_active :: "'r world \<Rightarrow> nat \<Rightarrow> bool" where
  "task_active w t = held_by (q_active (sg_queue (wd_signals w ! task_signal w t))) w t"

definition task_removed :: "'r world \<Rightarrow> nat \<Rightarrow> bool" where
  "task_removed w t = held_by (q_in_finish (sg_queue (wd_signals w ! task_signal w t))) w t"

datatype 'r signal_step =
    SigConnect nat slot_kind shutdown_policy
  | SigDisconnect nat nat
  | SigCloseConnection nat nat
  | SigEmit nat bool "go_error option" "nat option"
  | SigAdmit nat "go_error option" "string option"
  | SigContext nat go_error
  | SigQueue nat queue_step
  | SigRun nat forward_choice
  | SigForwarded nat
  | SigFinish nat 'r "go_error option"
  | SigComplete nat nat
  | SigExit nat nat
  | SigBeginClose nat
  | SigCloseNext nat
  | SigJoin nat

definition known_origin :: "'r world \<Rightarrow> nat option \<Rightarrow> bool" where
  "known_origin w t = (case t of None \<Rightarrow> True | Some t \<Rightarrow> t < length (wd_tasks w))"

definition emit_move :: "nat \<Rightarrow> bool \<Rightarrow> go_error option \<Rightarrow> nat option \<Rightarrow> 'r world \<Rightarrow> 'r world" where
  "emit_move s sync ctx_err origin w =
     (if s < length (wd_signals w) \<and> known_origin w origin
      then (case emit_begin s sync ctx_err origin w of
              Inl e \<Rightarrow> w | Inr x \<Rightarrow> w\<lparr>wd_runs := wd_runs w @ [x]\<rparr>)
      else w)"

definition admit_move :: "nat \<Rightarrow> go_error option \<Rightarrow> string option \<Rightarrow> 'r world \<Rightarrow> 'r world" where
  "admit_move r ctx_err key w =
     (if r < length (wd_runs w)
      then (case rn_state (wd_runs w ! r) of
              AdmitNext \<Rightarrow> acquire_step r w
            | AdmitSubmit t \<Rightarrow> submit_step r t ctx_err key w
            | RunReturned e \<Rightarrow> w)
      else w)"

definition run_move :: "nat \<Rightarrow> forward_choice \<Rightarrow> 'r world \<Rightarrow> 'r world" where
  "run_move t c w =
     (if t < length (wd_tasks w) \<and> et_phase (wd_tasks w ! t) = TaskQueued \<and> task_active w t
      then run_callback t c w else w)"

definition forwarded_move :: "nat \<Rightarrow> 'r world \<Rightarrow> 'r world" where
  "forwarded_move t w =
     (if t < length (wd_tasks w)
      then (case et_phase (wd_tasks w ! t) of TaskForwarding c \<Rightarrow> forward_returned t c w | _ \<Rightarrow> w)
      else w)"

definition finish_move :: "nat \<Rightarrow> 'r \<Rightarrow> go_error option \<Rightarrow> 'r world \<Rightarrow> 'r world" where
  "finish_move t v e w =
     (if t < length (wd_tasks w)
      then (case et_phase (wd_tasks w ! t) of
              TaskQueued \<Rightarrow>
                if task_active w t \<or> task_removed w t
                then finish_task t (plain_result (wd_zero w) e) w else w
            | TaskRunning \<Rightarrow> finish_task t (plain_result v e) w
            | TaskReturned e1 \<Rightarrow> finish_task t (plain_result (wd_zero w) e1) w
            | _ \<Rightarrow> w)
      else w)"

definition complete_move :: "nat \<Rightarrow> nat \<Rightarrow> 'r world \<Rightarrow> 'r world" where
  "complete_move c t w =
     (if c < length (wd_runs w) \<and> t \<in> set (em_called (rn_emission (wd_runs w ! c))) \<and>
         t \<notin> set (rn_completed (wd_runs w ! c))
      then complete_forward c t w else w)"

definition exit_move :: "nat \<Rightarrow> nat \<Rightarrow> 'r world \<Rightarrow> 'r world" where
  "exit_move c t w =
     (if c < length (wd_runs w) \<and> t \<in> set (em_exited (rn_emission (wd_runs w ! c))) \<and>
         t \<notin> set (rn_left (wd_runs w ! c))
      then exit_forward c t w else w)"

definition on_signal :: "nat \<Rightarrow> (signal \<Rightarrow> signal) \<Rightarrow> 'r world \<Rightarrow> 'r world" where
  "on_signal s f w = (if s < length (wd_signals w) then map_signal s f w else w)"

definition on_slot :: "nat \<Rightarrow> nat \<Rightarrow> (signal \<Rightarrow> signal) \<Rightarrow> 'r world \<Rightarrow> 'r world" where
  "on_slot s k f w = on_signal s (\<lambda>g. if k < length (sg_slots g) then f g else g) w"

fun signal_move :: "'r world \<Rightarrow> 'r signal_step \<Rightarrow> 'r world" where
  "signal_move w (SigConnect s kind policy) =
     on_signal s (\<lambda>g. case connect_slot kind policy g of Inl e \<Rightarrow> g | Inr g1 \<Rightarrow> g1) w"
| "signal_move w (SigDisconnect s k) = on_slot s k (disconnect_slot k) w"
| "signal_move w (SigCloseConnection s k) = on_slot s k (close_slot k) w"
| "signal_move w (SigEmit s sync ctx_err origin) = emit_move s sync ctx_err origin w"
| "signal_move w (SigAdmit r ctx_err key) = admit_move r ctx_err key w"
| "signal_move w (SigContext t e) = (if t < length (wd_tasks w) then context_ended t e w else w)"
| "signal_move w (SigQueue s x) =
     on_signal s (\<lambda>g. if queue_allowed w g x then g\<lparr>sg_queue := queue_move (sg_queue g) x\<rparr> else g) w"
| "signal_move w (SigRun t c) = run_move t c w"
| "signal_move w (SigForwarded t) = forwarded_move t w"
| "signal_move w (SigFinish t v e) = finish_move t v e w"
| "signal_move w (SigComplete c t) = complete_move c t w"
| "signal_move w (SigExit c t) = exit_move c t w"
| "signal_move w (SigBeginClose s) = on_signal s begin_close_signal w"
| "signal_move w (SigCloseNext s) = on_signal s close_next w"
| "signal_move w (SigJoin s) = on_signal s join_done w"

definition new_world :: "'r \<Rightarrow> signal list \<Rightarrow> 'r world" where
  "new_world zero ss = \<lparr>wd_zero = zero, wd_signals = ss, wd_runs = [], wd_tasks = []\<rparr>"

end
