(* ===== verification/Signal_Emit_Laws.thy ===== *)
theory Signal_Emit_Laws
  imports Signal_Emit Signal_Queue_Steps
begin

text \<open>
  The bookkeeping of emissions: every receiver of an emission is admitted at most once, and exits
  exactly once.  The invariants are stated over the callbacks and a skeleton of each emission
  that leaves out results and completion callbacks, so that steps touching only those keep them
  without further proof.
\<close>

section \<open>Skeletons\<close>

record skel =
  sk_signal :: nat
  sk_entries :: "nat list"
  sk_next :: nat
  sk_state :: run_state
  sk_exits :: "nat list"
  sk_work :: int

definition skel_of :: "'r run \<Rightarrow> skel" where
  "skel_of x = \<lparr>sk_signal = rn_signal x, sk_entries = rn_entries x, sk_next = rn_next x,
     sk_state = rn_state x, sk_exits = rn_exits x, sk_work = em_work (rn_emission x)\<rparr>"

lemma skel_of_simps [simp]:
  "sk_signal (skel_of x) = rn_signal x" "sk_entries (skel_of x) = rn_entries x"
  "sk_next (skel_of x) = rn_next x" "sk_state (skel_of x) = rn_state x"
  "sk_exits (skel_of x) = rn_exits x" "sk_work (skel_of x) = em_work (rn_emission x)"
  by (simp_all add: skel_of_def)

lemma emission_work [simp]:
  "em_work (emission_finish i r e) = em_work e"
  "em_work (emission_start i e) = em_work e"
  "em_work (emission_on_complete f e) = em_work e"
  "em_work (emission_on_exit f e) = em_work e"
  "em_work (emission_exit e) = em_work e - 1"
  by (auto simp: emission_finish_def emission_start_def emission_on_complete_def
      emission_on_exit_def emission_exit_def emission_close_done_def Let_def)

lemma new_emission_work [simp]: "em_work (new_emission n sync) = int n"
  by (simp add: new_emission_def Let_def)

lemma skel_finish_run [simp]: "skel_of (finish_run i res x) = skel_of x"
  by (simp add: skel_of_def finish_run_def)

lemma skel_exit_run: "skel_of (exit_run i x) =
    (skel_of x)\<lparr>sk_exits := rn_exits x @ [i], sk_work := em_work (rn_emission x) - 1\<rparr>"
  by (simp add: skel_of_def exit_run_def)

lemma skel_fail_entries:
  "skel_of (foldl (fail_entry z e) x is) = (skel_of x)\<lparr>sk_exits := rn_exits x @ is,
     sk_work := em_work (rn_emission x) - int (length is)\<rparr>"
proof (induction "is" arbitrary: x)
  case (Cons i "is")
  have "skel_of (fail_entry z e x i) =
      (skel_of x)\<lparr>sk_exits := rn_exits x @ [i], sk_work := em_work (rn_emission x) - 1\<rparr>"
    by (simp add: fail_entry_def skel_exit_run) (simp add: finish_run_def skel_of_def)
  moreover from this have "rn_exits (fail_entry z e x i) = rn_exits x @ [i]"
      "em_work (rn_emission (fail_entry z e x i)) = em_work (rn_emission x) - 1"
    by (metis skel.select_convs skel.update_convs skel_of_simps(5) skel_of_simps(6) skel.surjective)+
  ultimately show ?case using Cons [of "fail_entry z e x i"] by simp
qed (simp add: skel_of_def)

definition failed_skel :: "go_error \<Rightarrow> skel \<Rightarrow> skel" where
  "failed_skel e k = k\<lparr>sk_state := RunReturned (Some e),
     sk_exits := sk_exits k @ [sk_next k..<length (sk_entries k)],
     sk_work := sk_work k - int (length [sk_next k..<length (sk_entries k)])\<rparr>"

lemma skel_fail_run: "skel_of (fail_run z e x) = failed_skel e (skel_of x)"
proof -
  define y where "y = foldl (fail_entry z e) x [rn_next x..<length (rn_entries x)]"
  have "skel_of y = (skel_of x)\<lparr>sk_exits := rn_exits x @ [rn_next x..<length (rn_entries x)],
      sk_work := em_work (rn_emission x) - int (length [rn_next x..<length (rn_entries x)])\<rparr>"
    unfolding y_def by (rule skel_fail_entries)
  then have "skel_of (y\<lparr>rn_state := RunReturned (Some e)\<rparr>) = failed_skel e (skel_of x)"
    by (simp add: skel_of_def failed_skel_def)
  then show ?thesis by (simp add: fail_run_def y_def)
qed

definition admitted_skel :: "skel \<Rightarrow> skel" where
  "admitted_skel k = k\<lparr>sk_next := sk_next k + 1,
     sk_state := (if sk_next k + 1 < length (sk_entries k) then AdmitNext else RunReturned None)\<rparr>"

lemma skel_admitted_next: "skel_of (admitted_next x) = admitted_skel (skel_of x)"
  by (simp add: skel_of_def admitted_next_def admitted_skel_def)

definition exit_skel :: "nat \<Rightarrow> skel \<Rightarrow> skel" where
  "exit_skel i k = k\<lparr>sk_exits := sk_exits k @ [i], sk_work := sk_work k - 1\<rparr>"

definition fresh_skel :: "nat \<Rightarrow> nat list \<Rightarrow> skel" where
  "fresh_skel s entries = \<lparr>sk_signal = s, sk_entries = entries, sk_next = 0,
     sk_state = (if entries = [] then RunReturned None else AdmitNext), sk_exits = [],
     sk_work = int (length entries)\<rparr>"

lemma skel_new_run: "skel_of (new_run s sync entries path starts) = fresh_skel s entries"
  by (simp add: skel_of_def new_run_def fresh_skel_def)

section \<open>Admission\<close>

definition entry_task :: "emit_task list \<Rightarrow> nat \<Rightarrow> nat \<Rightarrow> nat \<Rightarrow> bool" where
  "entry_task T r i t \<longleftrightarrow> t < length T \<and> et_run (T ! t) = r \<and> et_index (T ! t) = i"

definition task_admitted :: "skel \<Rightarrow> nat \<Rightarrow> emit_task \<Rightarrow> bool" where
  "task_admitted k t x = (case sk_state k of
     AdmitSubmit u \<Rightarrow> et_index x < sk_next k \<and> et_phase x \<noteq> TaskAcquired \<or>
       t = u \<and> et_index x = sk_next k \<and> et_phase x = TaskAcquired
   | RunReturned (Some e) \<Rightarrow> et_phase x \<noteq> TaskAcquired \<and> (et_index x < sk_next k \<or> et_phase x = TaskOver)
   | _ \<Rightarrow> et_index x < sk_next k \<and> et_phase x \<noteq> TaskAcquired)"

lemma task_admitted_cong:
  "et_index x = et_index y \<Longrightarrow> et_phase x = et_phase y \<Longrightarrow> task_admitted k t x = task_admitted k t y"
  unfolding task_admitted_def by metis

definition run_admits :: "emit_task list \<Rightarrow> nat \<Rightarrow> skel \<Rightarrow> bool" where
  "run_admits T r k = (case sk_state k of
     AdmitNext \<Rightarrow> sk_next k < length (sk_entries k)
   | AdmitSubmit u \<Rightarrow> sk_next k < length (sk_entries k) \<and> entry_task T r (sk_next k) u \<and>
       et_phase (T ! u) = TaskAcquired
   | RunReturned None \<Rightarrow> sk_next k = length (sk_entries k)
   | RunReturned (Some e) \<Rightarrow> True)"

lemma skel_cong:
  assumes "sk_entries k = sk_entries l" "sk_next k = sk_next l" "sk_state k = sk_state l"
  shows "run_admits T r k = run_admits T r l" "task_admitted k t x = task_admitted l t x"
  unfolding run_admits_def task_admitted_def assms by simp_all

definition admit_inv :: "emit_task list \<Rightarrow> skel list \<Rightarrow> bool" where
  "admit_inv T K \<longleftrightarrow>
     (\<forall>t < length T. et_run (T ! t) < length K \<and> et_index (T ! t) < length (sk_entries (K ! et_run (T ! t)))) \<and>
     (\<forall>t < length T. \<forall>u < length T. et_run (T ! t) = et_run (T ! u) \<longrightarrow> et_index (T ! t) = et_index (T ! u) \<longrightarrow> t = u) \<and>
     (\<forall>t < length T. task_admitted (K ! et_run (T ! t)) t (T ! t)) \<and>
     (\<forall>r < length K. run_admits T r (K ! r))"

definition failed_skeleton :: "skel \<Rightarrow> bool" where
  "failed_skeleton k \<longleftrightarrow> (\<exists>e. sk_state k = RunReturned (Some e))"

definition exits_inv :: "emit_task list \<Rightarrow> skel list \<Rightarrow> bool" where
  "exits_inv T K \<longleftrightarrow> (\<forall>r < length K. distinct (sk_exits (K ! r)) \<and>
     sk_work (K ! r) = int (length (sk_entries (K ! r))) - int (length (sk_exits (K ! r))) \<and>
     (\<forall>i. i \<in> set (sk_exits (K ! r)) \<longleftrightarrow> i < length (sk_entries (K ! r)) \<and>
        (failed_skeleton (K ! r) \<and> sk_next (K ! r) \<le> i \<or>
         (\<exists>t. entry_task T r i t \<and> et_phase (T ! t) = TaskOver))))"

definition exits_at :: "emit_task list \<Rightarrow> nat \<Rightarrow> skel \<Rightarrow> bool" where
  "exits_at T r k \<longleftrightarrow> distinct (sk_exits k) \<and>
     sk_work k = int (length (sk_entries k)) - int (length (sk_exits k)) \<and>
     (\<forall>i. i \<in> set (sk_exits k) \<longleftrightarrow> i < length (sk_entries k) \<and>
        (failed_skeleton k \<and> sk_next k \<le> i \<or> (\<exists>t. entry_task T r i t \<and> et_phase (T ! t) = TaskOver)))"

lemma exits_inv_alt: "exits_inv T K \<longleftrightarrow> (\<forall>r < length K. exits_at T r (K ! r))"
  by (simp add: exits_inv_def exits_at_def)

lemma admit_invD:
  assumes "admit_inv T K" "t < length T"
  shows "et_run (T ! t) < length K" "et_index (T ! t) < length (sk_entries (K ! et_run (T ! t)))"
    "task_admitted (K ! et_run (T ! t)) t (T ! t)"
    "entry_task T (et_run (T ! t)) (et_index (T ! t)) u \<Longrightarrow> u = t"
  using assms by (auto simp: admit_inv_def entry_task_def)

lemma entry_task_update:
  "et_run x = et_run (T ! t) \<Longrightarrow> et_index x = et_index (T ! t) \<Longrightarrow> t < length T \<Longrightarrow>
   entry_task (T[t := x]) r i u = entry_task T r i u"
  by (auto simp: entry_task_def nth_list_update)

lemma entry_task_append:
  "entry_task (T @ [x]) r i u \<longleftrightarrow> entry_task T r i u \<or> u = length T \<and> et_run x = r \<and> et_index x = i"
  by (auto simp: entry_task_def nth_append less_Suc_eq)

subsection \<open>A new emission\<close>

lemma admit_new_run:
  assumes "admit_inv T K"
  shows "admit_inv T (K @ [fresh_skel s es])"
proof -
  have "et_run (T ! t) < length K" if "t < length T" for t using assms that by (simp add: admit_inv_def)
  moreover have "run_admits T (length K) (fresh_skel s es)"
    by (simp add: run_admits_def fresh_skel_def)
  ultimately show ?thesis using assms by (auto simp: admit_inv_def nth_append less_Suc_eq)
qed

lemma exits_new_run:
  assumes "admit_inv T K" "exits_inv T K"
  shows "exits_inv T (K @ [fresh_skel s es])"
proof -
  have "\<not> entry_task T (length K) i t" for i t using assms(1) by (auto simp: admit_inv_def entry_task_def)
  then show ?thesis
    using assms(2) by (auto simp: exits_inv_def nth_append less_Suc_eq fresh_skel_def failed_skeleton_def)
qed

subsection \<open>Acquiring and submitting\<close>

lemma admit_acquire:
  assumes inv: "admit_inv T K" and r: "r < length K" "sk_state (K ! r) = AdmitNext"
    and x: "et_run x = r" "et_index x = sk_next (K ! r)" "et_phase x = TaskAcquired"
  shows "admit_inv (T @ [x]) (K[r := (K ! r)\<lparr>sk_state := AdmitSubmit (length T)\<rparr>])"
proof -
  let ?K = "K[r := (K ! r)\<lparr>sk_state := AdmitSubmit (length T)\<rparr>]"
  have next_n: "sk_next (K ! r) < length (sk_entries (K ! r))"
    using inv r by (auto simp: admit_inv_def run_admits_def)
  have old: "et_index (T ! t) < sk_next (K ! r) \<and> et_phase (T ! t) \<noteq> TaskAcquired"
    if "t < length T" "et_run (T ! t) = r" for t
    using admit_invD(3) [OF inv that(1)] that(2) r(2) by (simp add: task_admitted_def)
  have "run_admits (T @ [x]) q (?K ! q)" if "q < length K" for q
  proof (cases "q = r")
    case True
    then show ?thesis using x next_n r by (simp add: run_admits_def entry_task_append)
  next
    case False
    have "run_admits T q (K ! q)" using inv that by (simp add: admit_inv_def)
    with False show ?thesis
      by (auto simp: run_admits_def entry_task_append entry_task_def nth_append split: run_state.splits option.splits)
  qed
  moreover have "task_admitted (?K ! et_run ((T @ [x]) ! t)) t ((T @ [x]) ! t)" if "t \<le> length T" for t
    using that inv old [of t] x r
    by (cases "t = length T") (auto simp: admit_inv_def nth_append nth_list_update task_admitted_def)
  moreover have "et_run ((T @ [x]) ! t) < length ?K \<and>
      et_index ((T @ [x]) ! t) < length (sk_entries (?K ! et_run ((T @ [x]) ! t)))" if "t \<le> length T" for t
    using that inv x r next_n
    by (cases "t = length T") (auto simp: admit_inv_def nth_append nth_list_update)
  moreover have "t = u" if "t \<le> length T" "u \<le> length T" "et_run ((T @ [x]) ! t) = et_run ((T @ [x]) ! u)"
      "et_index ((T @ [x]) ! t) = et_index ((T @ [x]) ! u)" for t u
    using that inv old [of t] old [of u] x
    by (cases "t = length T"; cases "u = length T") (auto simp: admit_inv_def nth_append)
  ultimately show ?thesis by (auto simp: admit_inv_def less_Suc_eq_le)
qed

lemma exits_same_entries:
  assumes "exits_inv T K" "r < length K" "\<And>i t. entry_task T' r i t \<and> et_phase (T' ! t) = TaskOver \<longleftrightarrow>
      entry_task T r i t \<and> et_phase (T ! t) = TaskOver"
    and "\<And>q i t. q \<noteq> r \<Longrightarrow> entry_task T' q i t \<and> et_phase (T' ! t) = TaskOver \<longleftrightarrow>
      entry_task T q i t \<and> et_phase (T ! t) = TaskOver"
    and "sk_exits k = sk_exits (K ! r)" "sk_work k = sk_work (K ! r)" "sk_entries k = sk_entries (K ! r)"
    and "\<not> failed_skeleton k" "\<not> failed_skeleton (K ! r)"
  shows "exits_inv T' (K[r := k])"
  using assms by (auto simp: exits_inv_def nth_list_update)

lemma exits_acquire:
  assumes "exits_inv T K" "r < length K" "sk_state (K ! r) = AdmitNext" "et_phase x = TaskAcquired"
  shows "exits_inv (T @ [x]) (K[r := (K ! r)\<lparr>sk_state := AdmitSubmit (length T)\<rparr>])"
  by (rule exits_same_entries [OF assms(1,2)])
    (use assms in \<open>auto simp: entry_task_append nth_append entry_task_def failed_skeleton_def\<close>)

lemma admit_submitted:
  assumes inv: "admit_inv T K" and r: "r < length K" "sk_state (K ! r) = AdmitSubmit t"
  shows "admit_inv (T[t := (T ! t)\<lparr>et_phase := TaskQueued\<rparr>]) (K[r := admitted_skel (K ! r)])"
proof -
  let ?T = "T[t := (T ! t)\<lparr>et_phase := TaskQueued\<rparr>]" and ?K = "K[r := admitted_skel (K ! r)]"
  have t: "t < length T" "et_run (T ! t) = r" "et_index (T ! t) = sk_next (K ! r)"
      "sk_next (K ! r) < length (sk_entries (K ! r))"
    using inv r by (auto simp: admit_inv_def run_admits_def entry_task_def)
  have same: "et_run (?T ! u) = et_run (T ! u)" "et_index (?T ! u) = et_index (T ! u)" for u
    using t by (cases "u = t"; simp)+
  have "run_admits ?T q (?K ! q)" if q: "q < length K" for q
  proof (cases "q = r")
    case True
    then show ?thesis using t r by (auto simp: run_admits_def admitted_skel_def)
  next
    case False
    have "run_admits T q (K ! q)" using inv q by (simp add: admit_inv_def)
    with False t show ?thesis
      by (auto simp: run_admits_def entry_task_def nth_list_update split: run_state.splits option.splits)
  qed
  moreover have "task_admitted (?K ! et_run (T ! u)) u (?T ! u)" if u: "u < length T" for u
  proof (cases "et_run (T ! u) = r")
    case True
    have "task_admitted (K ! r) u (T ! u)" using inv u True by (auto simp: admit_inv_def)
    with True t r show ?thesis by (auto simp: task_admitted_def admitted_skel_def nth_list_update)
  next
    case False
    then have "u \<noteq> t" using t by auto
    with False u inv show ?thesis by (auto simp: admit_inv_def nth_list_update)
  qed
  moreover have "length (sk_entries (?K ! q)) = length (sk_entries (K ! q))" for q
    using r by (cases "q = r") (auto simp: admitted_skel_def)
  ultimately show ?thesis using inv by (simp add: admit_inv_def same)
qed

lemma exits_submitted:
  assumes "admit_inv T K" "exits_inv T K" "r < length K" "sk_state (K ! r) = AdmitSubmit t"
  shows "exits_inv (T[t := (T ! t)\<lparr>et_phase := TaskQueued\<rparr>]) (K[r := admitted_skel (K ! r)])"
proof -
  have "et_phase (T ! t) = TaskAcquired" "t < length T"
    using assms by (auto simp: admit_inv_def run_admits_def entry_task_def)
  then have "entry_task (T[t := (T ! t)\<lparr>et_phase := TaskQueued\<rparr>]) q i u \<and>
      et_phase (T[t := (T ! t)\<lparr>et_phase := TaskQueued\<rparr>] ! u) = TaskOver \<longleftrightarrow>
      entry_task T q i u \<and> et_phase (T ! u) = TaskOver" for q i u
    by (auto simp: entry_task_def nth_list_update)
  then show ?thesis
    by (intro exits_same_entries [OF assms(2,3)]) (use assms(4) in \<open>auto simp: admitted_skel_def failed_skeleton_def\<close>)
qed

subsection \<open>Failing\<close>

text \<open>The failure of a run with, possibly, the receiver whose submission failed.\<close>

lemma admit_fail:
  assumes inv: "admit_inv T K" and r: "r < length K"
    and T': "length T' = length T" "\<And>u. u < length T \<Longrightarrow> et_run (T' ! u) = et_run (T ! u) \<and> et_index (T' ! u) = et_index (T ! u)"
    and over: "\<And>u. u < length T \<Longrightarrow> et_phase (T' ! u) = et_phase (T ! u) \<and> sk_state (K ! r) \<noteq> AdmitSubmit u \<or>
      sk_state (K ! r) = AdmitSubmit u \<and> et_phase (T' ! u) = TaskOver"
    and state: "\<not> (\<exists>e. sk_state (K ! r) = RunReturned e)"
  shows "admit_inv T' (K[r := failed_skel e (K ! r)])"
proof -
  let ?K = "K[r := failed_skel e (K ! r)]"
  have sub: "u < length T \<and> et_run (T ! u) = r" if "sk_state (K ! r) = AdmitSubmit u" for u
    using inv r that by (auto simp: admit_inv_def run_admits_def entry_task_def)
  have "run_admits T' q (?K ! q)" if q: "q < length K" for q
  proof (cases "q = r")
    case False
    have old: "run_admits T q (K ! q)" using inv q by (simp add: admit_inv_def)
    have "entry_task T' q i u \<and> et_phase (T' ! u) = TaskAcquired" if "entry_task T q i u" "et_phase (T ! u) = TaskAcquired" for i u
      using that T' over [of u] sub [of u] False by (auto simp: entry_task_def)
    with old False show ?thesis
      by (auto simp: run_admits_def split: run_state.splits option.splits)
  qed (use r in \<open>simp add: run_admits_def failed_skel_def\<close>)
  moreover have "task_admitted (?K ! et_run (T ! u)) u (T' ! u)" if u: "u < length T" for u
  proof -
    have old: "task_admitted (K ! et_run (T ! u)) u (T ! u)" using inv u by (simp add: admit_inv_def)
    show ?thesis
    proof (cases "et_run (T ! u) = r")
      case True
      with old over [OF u] T' u r state show ?thesis
        by (auto simp: task_admitted_def failed_skel_def split: run_state.splits)
    next
      case False
      with over [OF u] sub [of u] have "et_phase (T' ! u) = et_phase (T ! u)" by auto
      with T'(2) [OF u] have "task_admitted k u (T' ! u) = task_admitted k u (T ! u)" for k
        by (intro task_admitted_cong) simp_all
      with False old show ?thesis by simp
    qed
  qed
  moreover have "length (sk_entries (?K ! q)) = length (sk_entries (K ! q))" for q
    using r by (cases "q = r") (auto simp: failed_skel_def)
  ultimately show ?thesis using inv T' by (simp add: admit_inv_def)
qed

lemma exits_fail:
  assumes inv: "admit_inv T K" "exits_inv T K" and r: "r < length K"
    and T': "length T' = length T" "\<And>u. u < length T \<Longrightarrow> et_run (T' ! u) = et_run (T ! u) \<and> et_index (T' ! u) = et_index (T ! u)"
    and over: "\<And>u. u < length T \<Longrightarrow> et_phase (T' ! u) = et_phase (T ! u) \<and> sk_state (K ! r) \<noteq> AdmitSubmit u \<or>
      sk_state (K ! r) = AdmitSubmit u \<and> et_phase (T' ! u) = TaskOver"
    and state: "\<not> (\<exists>e. sk_state (K ! r) = RunReturned e)"
  shows "exits_inv T' (K[r := failed_skel e (K ! r)])"
proof -
  let ?k = "K ! r" and ?n = "length (sk_entries (K ! r))"
  have entry: "entry_task T' q i u = entry_task T q i u" for q i u
    using T' by (auto simp: entry_task_def)
  have sub: "entry_task T r (sk_next ?k) u" if "sk_state ?k = AdmitSubmit u" for u
    using inv r that by (auto simp: admit_inv_def run_admits_def)
  have le: "sk_next ?k \<le> ?n"
    using inv(1) r state by (cases "sk_state ?k") (auto simp: admit_inv_def run_admits_def dest!: spec [of _ r])
  have lt: "i < sk_next ?k" if "entry_task T r i u" "et_phase (T ! u) = TaskOver" for i u
  proof -
    have "task_admitted ?k u (T ! u)" using inv(1) that by (auto simp: admit_inv_def entry_task_def)
    with that state show ?thesis by (auto simp: task_admitted_def entry_task_def split: run_state.splits)
  qed
  have mem: "i \<in> set (sk_exits ?k) \<longleftrightarrow> i < ?n \<and> (\<exists>t. entry_task T r i t \<and> et_phase (T ! t) = TaskOver)" for i
    using inv(2) r state by (auto simp: exits_inv_def failed_skeleton_def)
  have over_iff: "(\<exists>t. entry_task T' r i t \<and> et_phase (T' ! t) = TaskOver) \<longleftrightarrow>
      (\<exists>t. entry_task T r i t \<and> et_phase (T ! t) = TaskOver)" if "i < sk_next ?k" for i
  proof -
    have "et_phase (T' ! u) = et_phase (T ! u)" if "entry_task T r i u" for u
      using sub [of u] over [of u] that \<open>i < sk_next ?k\<close> by (auto simp: entry_task_def)
    then show ?thesis unfolding entry by metis
  qed
  have rest: "(\<exists>t. entry_task T' q i t \<and> et_phase (T' ! t) = TaskOver) \<longleftrightarrow>
      (\<exists>t. entry_task T q i t \<and> et_phase (T ! t) = TaskOver)" if "q \<noteq> r" for q i
  proof -
    have "et_phase (T' ! u) = et_phase (T ! u)" if "entry_task T q i u" for u
      using sub [of u] over [of u] that \<open>q \<noteq> r\<close> by (auto simp: entry_task_def)
    then show ?thesis unfolding entry by metis
  qed
  have "distinct (sk_exits ?k @ [sk_next ?k..<?n])"
    using inv(2) r mem lt by (fastforce simp: exits_inv_def)
  moreover have "i \<in> set (sk_exits ?k @ [sk_next ?k..<?n]) \<longleftrightarrow>
      i < ?n \<and> (sk_next ?k \<le> i \<or> (\<exists>t. entry_task T' r i t \<and> et_phase (T' ! t) = TaskOver))" for i
    using mem [of i] lt [of i] over_iff [of i] by (cases "i < sk_next ?k") auto
  moreover have "sk_work ?k = int ?n - int (length (sk_exits ?k))" using inv(2) r by (simp add: exits_inv_def)
  ultimately have "distinct (sk_exits (failed_skel e ?k)) \<and>
      sk_work (failed_skel e ?k) = int (length (sk_entries (failed_skel e ?k))) - int (length (sk_exits (failed_skel e ?k))) \<and>
      (\<forall>i. i \<in> set (sk_exits (failed_skel e ?k)) \<longleftrightarrow> i < length (sk_entries (failed_skel e ?k)) \<and>
        (failed_skeleton (failed_skel e ?k) \<and> sk_next (failed_skel e ?k) \<le> i \<or>
         (\<exists>t. entry_task T' r i t \<and> et_phase (T' ! t) = TaskOver)))"
    using le by (simp add: failed_skel_def failed_skeleton_def)
  then show ?thesis
    using inv(2) r rest by (auto simp: exits_inv_def nth_list_update)
qed

subsection \<open>Phases and exits\<close>

lemma admit_phase:
  assumes "admit_inv T K" "t < length T" "et_phase (T ! t) \<noteq> TaskAcquired" "et_phase x \<noteq> TaskAcquired"
    and "et_phase (T ! t) = TaskOver \<longrightarrow> et_phase x = TaskOver"
    and "et_run x = et_run (T ! t)" "et_index x = et_index (T ! t)"
  shows "admit_inv (T[t := x]) K"
proof -
  have "run_admits (T[t := x]) r (K ! r)" if r: "r < length K" for r
  proof -
    have "run_admits T r (K ! r)" using assms(1) r by (simp add: admit_inv_def)
    with assms show ?thesis
      by (auto simp: run_admits_def entry_task_def nth_list_update split: run_state.splits option.splits)
  qed
  moreover have "task_admitted (K ! et_run (T ! u)) u (T[t := x] ! u)" if u: "u < length T" for u
  proof -
    have "task_admitted (K ! et_run (T ! u)) u (T ! u)" using assms(1) u by (simp add: admit_inv_def)
    with assms show ?thesis
      by (cases "u = t") (auto simp: task_admitted_def split: run_state.splits option.splits)
  qed
  moreover have "et_run (T[t := x] ! u) = et_run (T ! u)" "et_index (T[t := x] ! u) = et_index (T ! u)" for u
    using assms by (cases "u = t"; simp)+
  ultimately show ?thesis using assms(1) by (simp add: admit_inv_def)
qed

lemma exits_phase:
  assumes "exits_inv T K" "t < length T" "et_phase x = TaskOver \<longleftrightarrow> et_phase (T ! t) = TaskOver"
    and "et_run x = et_run (T ! t)" "et_index x = et_index (T ! t)"
  shows "exits_inv (T[t := x]) K"
proof -
  have "entry_task (T[t := x]) r i u \<and> et_phase (T[t := x] ! u) = TaskOver \<longleftrightarrow>
      entry_task T r i u \<and> et_phase (T ! u) = TaskOver" for r i u
    using assms by (auto simp: entry_task_def nth_list_update)
  then show ?thesis using assms(1) by (simp add: exits_inv_def)
qed

lemma admit_exit_skel:
  assumes "admit_inv T K"
  shows "admit_inv T (K[r := exit_skel i (K ! r)])"
proof (cases "r < length K")
  case True
  have "sk_entries (K[r := exit_skel i (K ! r)] ! q) = sk_entries (K ! q)"
    "sk_next (K[r := exit_skel i (K ! r)] ! q) = sk_next (K ! q)"
    "sk_state (K[r := exit_skel i (K ! r)] ! q) = sk_state (K ! q)" for q
    using True by (cases "q = r"; simp add: exit_skel_def)+
  note same = this and cong = skel_cong [OF this]
  show ?thesis using assms unfolding admit_inv_def cong by (simp add: same)
qed (use assms in \<open>simp add: list_update_beyond\<close>)

lemma exits_leave:
  assumes inv: "admit_inv T K" "exits_inv T K" and t: "t < length T"
    and phase: "et_phase (T ! t) \<noteq> TaskAcquired" "et_phase (T ! t) \<noteq> TaskOver" "et_phase x = TaskOver"
    and x: "et_run x = et_run (T ! t)" "et_index x = et_index (T ! t)"
  shows "exits_inv (T[t := x]) (K[et_run (T ! t) := exit_skel (et_index (T ! t)) (K ! et_run (T ! t))])"
proof -
  let ?r = "et_run (T ! t)" and ?i = "et_index (T ! t)"
  note D = admit_invD [OF inv(1) t]
  have entry: "entry_task (T[t := x]) q i u = entry_task T q i u" for q i u
    using entry_task_update [OF x t] .
  have over: "(\<exists>u. entry_task T q i u \<and> et_phase (T[t := x] ! u) = TaskOver) \<longleftrightarrow>
      (\<exists>u. entry_task T q i u \<and> et_phase (T ! u) = TaskOver) \<or> q = ?r \<and> i = ?i" for q i
    using phase t by (auto simp: entry_task_def nth_list_update)
  have "\<not> (failed_skeleton (K ! ?r) \<and> sk_next (K ! ?r) \<le> ?i)"
    using D(3) phase by (auto simp: task_admitted_def failed_skeleton_def split: run_state.splits option.splits)
  moreover have "\<not> (entry_task T ?r ?i u \<and> et_phase (T ! u) = TaskOver)" for u
    using D(4) [of u] phase by auto
  ultimately have fresh: "?i \<notin> set (sk_exits (K ! ?r))" using inv(2) D(1) by (auto simp: exits_inv_def)
  let ?k = "exit_skel ?i (K ! ?r)"
  have keep: "exits_at T' q (K ! q)" if "q < length K" "q \<noteq> ?r" "T' = T[t := x]" for q T'
    using inv(2) that over unfolding exits_inv_alt exits_at_def by (simp add: entry)
  have r: "exits_at T ?r (K ! ?r)" using inv(2) D(1) by (simp add: exits_inv_alt)
  have "exits_at (T[t := x]) ?r ?k"
    unfolding exits_at_def
  proof (intro conjI allI)
    show "distinct (sk_exits ?k)" using r fresh by (simp add: exits_at_def exit_skel_def)
    show "sk_work ?k = int (length (sk_entries ?k)) - int (length (sk_exits ?k))"
      using r by (simp add: exits_at_def exit_skel_def)
    fix i
    have "i \<in> set (sk_exits ?k) \<longleftrightarrow> i \<in> set (sk_exits (K ! ?r)) \<or> i = ?i" by (auto simp: exit_skel_def)
    also have "\<dots> \<longleftrightarrow> i < length (sk_entries (K ! ?r)) \<and> (failed_skeleton (K ! ?r) \<and> sk_next (K ! ?r) \<le> i \<or>
        (\<exists>u. entry_task (T[t := x]) ?r i u \<and> et_phase (T[t := x] ! u) = TaskOver))"
      unfolding entry over using r D(2) by (auto simp: exits_at_def)
    finally show "i \<in> set (sk_exits ?k) \<longleftrightarrow> i < length (sk_entries ?k) \<and> (failed_skeleton ?k \<and> sk_next ?k \<le> i \<or>
        (\<exists>u. entry_task (T[t := x]) ?r i u \<and> et_phase (T[t := x] ! u) = TaskOver))"
      by (simp add: exit_skel_def failed_skeleton_def)
  qed
  with keep D(1) show ?thesis by (simp add: exits_inv_alt nth_list_update)
qed

end
