(* ===== verification/Signal_Emit_Steps.thy ===== *)
theory Signal_Emit_Steps
  imports Signal_Emit_Laws
begin

text \<open>
  Signals, connections and queues fit together: a connection holds exactly the callbacks of its
  receiver that are not over, every admitted callback is a job of the queue of its signal, and a
  signal is done only when its jobs and its connections are.
\<close>

section \<open>The invariant of a signal\<close>

definition task_on :: "emit_task list \<Rightarrow> skel list \<Rightarrow> nat \<Rightarrow> nat \<Rightarrow> nat \<Rightarrow> bool" where
  "task_on T K s k t \<longleftrightarrow> t < length T \<and> et_phase (T ! t) \<noteq> TaskOver \<and>
     sk_signal (K ! et_run (T ! t)) = s \<and> sk_entries (K ! et_run (T ! t)) ! et_index (T ! t) = k"

definition conn_ok :: "emit_task list \<Rightarrow> skel list \<Rightarrow> nat \<Rightarrow> nat \<Rightarrow> connection \<Rightarrow> bool" where
  "conn_ok T K s k c \<longleftrightarrow> connection_inv c \<and> (\<forall>t. t \<in> set (cn_tasks c) \<longleftrightarrow> task_on T K s k t)"

definition settled :: "task_phase \<Rightarrow> bool" where
  "settled p \<longleftrightarrow> p = TaskOver \<or> (\<exists>c. p = TaskForwarded c)"

definition queue_ok :: "emit_task list \<Rightarrow> signal \<Rightarrow> bool" where
  "queue_ok T g \<longleftrightarrow> queue_inv (sg_queue g) \<and> length (sg_jobs g) = length (q_admitted (sg_queue g)) \<and>
     set (sg_jobs g) \<subseteq> {..<length T} \<and>
     (\<forall>t \<in> set (sg_jobs g). et_phase (T ! t) \<noteq> TaskAcquired) \<and>
     (\<forall>j \<in> set (q_finished (sg_queue g)). settled (et_phase (T ! job_task g j)))"

definition stage_ok :: "emit_task list \<Rightarrow> signal \<Rightarrow> bool" where
  "stage_ok T g \<longleftrightarrow> (sg_closed g \<longleftrightarrow> sg_stage g \<noteq> StageOpen) \<and>
     set (sg_snapshot g) \<subseteq> {..<length (sg_slots g)} \<and>
     (\<forall>ks. sg_stage g = StageClosing ks \<longrightarrow> set ks \<subseteq> {..<length (sg_slots g)}) \<and>
     (sg_stage g = StageJoining \<longrightarrow> q_closed (sg_queue g)) \<and>
     (sg_done g \<longrightarrow> sg_stage g = StageJoining \<and>
        (\<forall>t \<in> set (sg_jobs g). settled (et_phase (T ! t))) \<and>
        (\<forall>k \<in> set (sg_snapshot g). cn_done (slot_conn g k)))"

definition signal_ok :: "emit_task list \<Rightarrow> skel list \<Rightarrow> nat \<Rightarrow> signal \<Rightarrow> bool" where
  "signal_ok T K s g \<longleftrightarrow> (\<forall>k < length (sg_slots g). conn_ok T K s k (slot_conn g k)) \<and>
     queue_ok T g \<and> stage_ok T g"

definition runs_ok :: "signal list \<Rightarrow> skel list \<Rightarrow> bool" where
  "runs_ok S K \<longleftrightarrow> (\<forall>r < length K. sk_signal (K ! r) < length S \<and>
     set (sk_entries (K ! r)) \<subseteq> {..<length (sg_slots (S ! sk_signal (K ! r)))})"

definition jobs_ok :: "signal list \<Rightarrow> emit_task list \<Rightarrow> skel list \<Rightarrow> bool" where
  "jobs_ok S T K \<longleftrightarrow> (\<forall>t < length T. et_phase (T ! t) \<noteq> TaskAcquired \<longrightarrow> et_phase (T ! t) \<noteq> TaskOver \<longrightarrow>
     t \<in> set (sg_jobs (S ! sk_signal (K ! et_run (T ! t)))))"

definition net_inv :: "signal list \<Rightarrow> emit_task list \<Rightarrow> skel list \<Rightarrow> bool" where
  "net_inv S T K \<longleftrightarrow> admit_inv T K \<and> exits_inv T K \<and> runs_ok S K \<and> jobs_ok S T K \<and>
     (\<forall>s < length S. signal_ok T K s (S ! s))"

lemma net_invD:
  assumes "net_inv S T K"
  shows "admit_inv T K" "exits_inv T K" "runs_ok S K" "jobs_ok S T K"
    "s < length S \<Longrightarrow> signal_ok T K s (S ! s)"
  using assms by (auto simp: net_inv_def)

lemma task_place:
  assumes "net_inv S T K" "t < length T"
  shows "et_run (T ! t) < length K" "sk_signal (K ! et_run (T ! t)) < length S"
    "sk_entries (K ! et_run (T ! t)) ! et_index (T ! t) < length (sg_slots (S ! sk_signal (K ! et_run (T ! t))))"
proof -
  note D = admit_invD [OF net_invD(1) [OF assms(1)] assms(2)]
  show r: "et_run (T ! t) < length K" by (rule D(1))
  show "sk_signal (K ! et_run (T ! t)) < length S" using net_invD(3) [OF assms(1)] r by (simp add: runs_ok_def)
  show "sk_entries (K ! et_run (T ! t)) ! et_index (T ! t) < length (sg_slots (S ! sk_signal (K ! et_run (T ! t))))"
    using net_invD(3) [OF assms(1)] r nth_mem [OF D(2)] by (auto simp: runs_ok_def)
qed

section \<open>Changes of callbacks and emissions\<close>

text \<open>Emissions that keep signal and receivers do not matter to a signal.\<close>

definition same_places :: "emit_task list \<Rightarrow> skel list \<Rightarrow> skel list \<Rightarrow> bool" where
  "same_places T K L \<longleftrightarrow> (\<forall>t < length T. sk_signal (L ! et_run (T ! t)) = sk_signal (K ! et_run (T ! t)) \<and>
     sk_entries (L ! et_run (T ! t)) = sk_entries (K ! et_run (T ! t)))"

lemma signal_ok_places: "same_places T K L \<Longrightarrow> signal_ok T L s g = signal_ok T K s g"
  by (auto simp: signal_ok_def conn_ok_def task_on_def same_places_def)

lemma jobs_ok_places: "same_places T K L \<Longrightarrow> jobs_ok S T L = jobs_ok S T K"
  by (auto simp: jobs_ok_def same_places_def)

lemma places_update:
  "r < length K \<Longrightarrow> sk_signal k = sk_signal (K ! r) \<Longrightarrow> sk_entries k = sk_entries (K ! r) \<Longrightarrow>
   same_places T K (K[r := k])"
  by (auto simp: same_places_def nth_list_update)

lemma places_append: "admit_inv T K \<Longrightarrow> same_places T K (K @ [k])"
  by (auto simp: same_places_def admit_inv_def nth_append)

lemma runs_ok_update:
  "runs_ok S K \<Longrightarrow> r < length K \<Longrightarrow> sk_signal k = sk_signal (K ! r) \<Longrightarrow> sk_entries k = sk_entries (K ! r) \<Longrightarrow>
   runs_ok S (K[r := k])"
  by (auto simp: runs_ok_def nth_list_update)

text \<open>A change of phase that neither ends a callback nor takes back that it is settled.\<close>

lemma signal_ok_phase:
  assumes "signal_ok T K s g" "t < length T" "et_run x = et_run (T ! t)" "et_index x = et_index (T ! t)"
    and "et_phase x = TaskOver \<longleftrightarrow> et_phase (T ! t) = TaskOver" "et_phase x \<noteq> TaskAcquired \<or> et_phase (T ! t) = TaskAcquired"
    and "settled (et_phase (T ! t)) \<longrightarrow> settled (et_phase x)"
  shows "signal_ok (T[t := x]) K s g"
proof -
  have at: "T[t := x] ! u = (if u = t then x else T ! u)" for u using assms(2) by simp
  have on: "task_on (T[t := x]) K s k u = task_on T K s k u" for k u
    using assms by (auto simp: task_on_def at)
  have conn: "conn_ok (T[t := x]) K s k c = conn_ok T K s k c" for k c by (simp add: conn_ok_def on)
  have "queue_ok (T[t := x]) g" using assms by (auto simp: signal_ok_def queue_ok_def at)
  moreover have "stage_ok (T[t := x]) g" using assms by (auto simp: signal_ok_def stage_ok_def at)
  ultimately show ?thesis using assms(1) by (simp add: signal_ok_def conn)
qed

lemma net_phase:
  assumes inv: "net_inv S T K" and t: "t < length T"
    and x: "et_run x = et_run (T ! t)" "et_index x = et_index (T ! t)"
    and phase: "et_phase x = et_phase (T ! t) \<or> et_phase (T ! t) \<noteq> TaskAcquired \<and> \<not> settled (et_phase (T ! t)) \<and>
      et_phase x \<noteq> TaskAcquired \<and> et_phase x \<noteq> TaskOver"
  shows "net_inv S (T[t := x]) K"
proof -
  have over: "et_phase x = TaskOver \<longleftrightarrow> et_phase (T ! t) = TaskOver"
    and acq: "et_phase x = TaskAcquired \<longleftrightarrow> et_phase (T ! t) = TaskAcquired"
    and set: "settled (et_phase (T ! t)) \<longrightarrow> settled (et_phase x)"
    using phase by (auto simp: settled_def)
  have at: "T[t := x] ! u = (if u = t then x else T ! u)" for u using t by simp
  have "admit_inv (T[t := x]) K"
  proof (cases "et_phase (T ! t) = TaskAcquired")
    case False
    with acq over show ?thesis by (intro admit_phase [OF net_invD(1) [OF inv] t]) (simp_all add: x)
  next
    case True
    with phase have same: "et_phase x = et_phase (T ! t)" by auto
    have entry: "entry_task (T[t := x]) r i u = entry_task T r i u" for r i u
      using entry_task_update [OF x t] .
    have ph: "et_phase (T[t := x] ! u) = et_phase (T ! u)" "et_run (T[t := x] ! u) = et_run (T ! u)"
      "et_index (T[t := x] ! u) = et_index (T ! u)" for u
      using same x by (simp_all add: at)
    have "run_admits (T[t := x]) r k = run_admits T r k" for r k
      unfolding run_admits_def entry ph ..
    moreover have "task_admitted k u (T[t := x] ! u) = task_admitted k u (T ! u)" for k u
      by (rule task_admitted_cong) (simp_all add: ph)
    ultimately show ?thesis using net_invD(1) [OF inv] by (simp add: admit_inv_def ph)
  qed
  moreover have "exits_inv (T[t := x]) K" by (rule exits_phase [OF net_invD(2) [OF inv] t over x])
  moreover have "jobs_ok S (T[t := x]) K" using net_invD(4) [OF inv] over acq x by (auto simp: jobs_ok_def at)
  moreover have "signal_ok (T[t := x]) K s (S ! s)" if "s < length S" for s
    using acq by (intro signal_ok_phase [OF net_invD(5) [OF inv that] t x over _ set]) auto
  ultimately show ?thesis using inv by (simp add: net_inv_def)
qed

lemma net_new_run:
  assumes inv: "net_inv S T K" and s: "s < length S" "set es \<subseteq> {..<length (sg_slots (S ! s))}"
  shows "net_inv S T (K @ [fresh_skel s es])"
proof -
  note places = places_append [OF net_invD(1) [OF inv], of "fresh_skel s es"]
  have "runs_ok S (K @ [fresh_skel s es])"
    using net_invD(3) [OF inv] s by (auto simp: runs_ok_def nth_append less_Suc_eq fresh_skel_def)
  moreover note admit_new_run [OF net_invD(1) [OF inv], of s es]
    exits_new_run [OF net_invD(1,2) [OF inv], of s es]
  ultimately show ?thesis
    using inv by (simp add: net_inv_def signal_ok_places [OF places] jobs_ok_places [OF places])
qed

section \<open>Changes of one signal\<close>

lemma slot_conn_map:
  "k < length (sg_slots g) \<Longrightarrow> slot_conn (map_conn k f g) l = (if l = k then f (slot_conn g k) else slot_conn g l)"
  by (simp add: slot_conn_def map_conn_def nth_list_update)

lemma map_conn_simps [simp]:
  "length (sg_slots (map_conn k f g)) = length (sg_slots g)" "sg_snapshot (map_conn k f g) = sg_snapshot g"
  "sg_closed (map_conn k f g) = sg_closed g" "sg_stage (map_conn k f g) = sg_stage g"
  "sg_done (map_conn k f g) = sg_done g" "sg_queue (map_conn k f g) = sg_queue g"
  "sg_jobs (map_conn k f g) = sg_jobs g" "sg_single (map_conn k f g) = sg_single g"
  by (simp_all add: map_conn_def)

lemma job_task_map_conn [simp]: "job_task (map_conn k f g) j = job_task g j"
  by (simp add: job_task_def)

lemma queue_ok_map_conn [simp]: "queue_ok T (map_conn k f g) = queue_ok T g"
  by (simp add: queue_ok_def)

text \<open>A signal may change by itself as long as receivers and jobs are only added.\<close>

lemma net_signal:
  assumes inv: "net_inv S T K" and s: "s < length S" and ok: "signal_ok T K s g"
    and slots: "length (sg_slots (S ! s)) \<le> length (sg_slots g)" and jobs: "sg_jobs g = sg_jobs (S ! s)"
  shows "net_inv (S[s := g]) T K"
proof -
  have "runs_ok (S[s := g]) K"
    using net_invD(3) [OF inv] s slots by (fastforce simp: runs_ok_def nth_list_update)
  moreover have "jobs_ok (S[s := g]) T K"
    using net_invD(4) [OF inv] s jobs unfolding jobs_ok_def
    by (metis nth_list_update_eq nth_list_update_neq)
  moreover have "signal_ok T K q (S[s := g] ! q)" if "q < length S" for q
    using that s ok net_invD(5) [OF inv that] by (cases "q = s") simp_all
  ultimately show ?thesis using inv by (simp add: net_inv_def)
qed

lemma connection_ops_ok:
  "connection_inv c \<Longrightarrow> connection_inv (connection_disconnect c)"
  "connection_inv c \<Longrightarrow> connection_inv (connection_begin_close c)"
  "cn_tasks (connection_disconnect c) = cn_tasks c"
  "cn_tasks (connection_begin_close c) = cn_tasks c"
  "cn_done c \<Longrightarrow> cn_done (connection_disconnect c)"
  "cn_done c \<Longrightarrow> cn_done (connection_begin_close c)"
  using connection_step_inv [of c ConnDisconnect] connection_step_inv [of c ConnBeginClose]
  by (auto simp: connection_op_defs)

lemma signal_ok_map_conn:
  assumes "signal_ok T K s g" "k < length (sg_slots g)" "conn_ok T K s k (f (slot_conn g k))"
    and "cn_done (slot_conn g k) \<longrightarrow> cn_done (f (slot_conn g k))"
  shows "signal_ok T K s (map_conn k f g)"
  using assms by (auto simp: signal_ok_def stage_ok_def slot_conn_map)

lemma disconnect_ok:
  assumes ok: "signal_ok T K s g" and k: "k < length (sg_slots g)"
  shows "signal_ok T K s (disconnect_slot k g)" "length (sg_slots (disconnect_slot k g)) = length (sg_slots g)"
    "sg_jobs (disconnect_slot k g) = sg_jobs g" "sg_stage (disconnect_slot k g) = sg_stage g"
proof -
  have "signal_ok T K s (remove_slot k g)"
    using ok by (auto simp: remove_slot_def signal_ok_def queue_ok_def stage_ok_def slot_conn_def job_task_def
        dest: in_set_remove1 [THEN iffD1, rotated] set_remove1_subset [THEN subsetD])
  moreover have "slot_conn (remove_slot k g) = slot_conn g" "length (sg_slots (remove_slot k g)) = length (sg_slots g)"
    by (auto simp: remove_slot_def slot_conn_def)
  moreover have "conn_ok T K s k (slot_conn g k)" using ok k by (simp add: signal_ok_def)
  ultimately show "signal_ok T K s (disconnect_slot k g)"
    using k ok by (auto simp: disconnect_slot_def conn_ok_def connection_ops_ok intro!: signal_ok_map_conn)
  show "length (sg_slots (disconnect_slot k g)) = length (sg_slots g)" "sg_jobs (disconnect_slot k g) = sg_jobs g"
    "sg_stage (disconnect_slot k g) = sg_stage g"
    by (simp_all add: disconnect_slot_def remove_slot_def)
qed

lemma close_slot_ok:
  assumes ok: "signal_ok T K s g" and k: "k < length (sg_slots g)"
  shows "signal_ok T K s (close_slot k g)" "length (sg_slots (close_slot k g)) = length (sg_slots g)"
    "sg_jobs (close_slot k g) = sg_jobs g" "sg_stage (close_slot k g) = sg_stage g"
proof -
  note D = disconnect_ok [OF ok k]
  have "conn_ok T K s k (slot_conn (disconnect_slot k g) k)" using D(1,2) k by (simp add: signal_ok_def)
  then show "signal_ok T K s (close_slot k g)"
    unfolding close_slot_def using D k
    by (intro signal_ok_map_conn [OF D(1)]) (auto simp: conn_ok_def connection_ops_ok)
  show "length (sg_slots (close_slot k g)) = length (sg_slots g)" "sg_jobs (close_slot k g) = sg_jobs g"
    "sg_stage (close_slot k g) = sg_stage g"
    by (simp_all add: close_slot_def D)
qed

lemma connect_ok:
  assumes ok: "signal_ok T K s g" and conn: "connect_slot kind policy g = Inr g1"
    and free: "\<And>t. \<not> task_on T K s (length (sg_slots g)) t"
  shows "signal_ok T K s g1" "length (sg_slots g) \<le> length (sg_slots g1)" "sg_jobs g1 = sg_jobs g"
proof -
  let ?sl = "\<lparr>sl_kind = kind, sl_conn = new_connection policy\<rparr>"
  have g1: "g1 = g\<lparr>sg_slots := sg_slots g @ [?sl], sg_snapshot := sg_snapshot g @ [length (sg_slots g)]\<rparr>"
    and opened: "\<not> sg_closed g" using conn by (auto simp: connect_slot_def split: if_splits)
  have at: "slot_conn g1 k = (if k < length (sg_slots g) then slot_conn g k else new_connection policy)"
    if "k \<le> length (sg_slots g)" for k
    using that by (auto simp: slot_conn_def g1 nth_append)
  have fresh: "conn_ok T K s (length (sg_slots g)) (new_connection policy)"
    using free new_connection_inv [of policy] by (simp add: conn_ok_def new_connection_def)
  have "conn_ok T K s k (slot_conn g1 k)" if "k < length (sg_slots g1)" for k
  proof (cases "k = length (sg_slots g)")
    case True
    then show ?thesis using fresh at [of k] by simp
  next
    case False
    then have "k < length (sg_slots g)" using that by (simp add: g1)
    then show ?thesis using ok at [of k] by (simp add: signal_ok_def)
  qed
  moreover have "queue_ok T g1" using ok by (simp add: signal_ok_def queue_ok_def g1 job_task_def)
  moreover have "stage_ok T g1" using ok opened by (auto simp: signal_ok_def stage_ok_def g1 less_Suc_eq)
  ultimately show "signal_ok T K s g1" by (simp add: signal_ok_def)
  show "length (sg_slots g) \<le> length (sg_slots g1)" "sg_jobs g1 = sg_jobs g" by (simp_all add: g1)
qed

section \<open>Closing\<close>

lemma begin_close_ok:
  assumes "signal_ok T K s g"
  shows "signal_ok T K s (begin_close_signal g)"
  using assms by (auto simp: begin_close_signal_def signal_ok_def queue_ok_def stage_ok_def slot_conn_def job_task_def)

lemma stop_begin_fields:
  "q_closed (fst (stop_begin b q))" "q_admitted (fst (stop_begin b q)) = q_admitted q"
  "q_finished (fst (stop_begin b q)) = q_finished q"
  by (simp_all add: stop_begin_def finish_closed_def Let_def)

lemma close_next_ok:
  assumes ok: "signal_ok T K s g"
  shows "signal_ok T K s (close_next g) \<and> length (sg_slots (close_next g)) = length (sg_slots g) \<and>
    sg_jobs (close_next g) = sg_jobs g"
proof (cases "\<exists>ks. sg_stage g = StageClosing ks")
  case False
  then show ?thesis using ok by (cases "sg_stage g") (auto simp: close_next_def)
next
  case True
  then obtain ks where st: "sg_stage g = StageClosing ks" by blast
  show ?thesis
  proof (cases ks)
    case Nil
    then have eq: "close_next g = g\<lparr>sg_stage := StageJoining, sg_queue := fst (stop_begin False (sg_queue g))\<rparr>"
      using st by (simp add: close_next_def)
    show ?thesis
      unfolding eq using ok st stop_begin_inv [of "sg_queue g" False]
      by (auto simp: signal_ok_def queue_ok_def stage_ok_def slot_conn_def job_task_def stop_begin_fields)
  next
    case (Cons k rest)
    let ?g = "g\<lparr>sg_stage := StageClosing rest\<rparr>"
    have eq: "close_next g = close_slot k ?g" using st Cons by (simp add: close_next_def)
    have k: "k < length (sg_slots ?g)" using ok st Cons by (auto simp: signal_ok_def stage_ok_def)
    have "signal_ok T K s ?g"
      using ok st Cons by (auto simp: signal_ok_def queue_ok_def stage_ok_def slot_conn_def job_task_def)
    from close_slot_ok [OF this k] show ?thesis unfolding eq by simp
  qed
qed

text \<open>A queue that is done has finished every job.\<close>

lemma queue_done_finished:
  assumes "queue_inv q" "q_done q"
  shows "mset (q_finished q) = mset (q_admitted q)"
  using assms by (auto simp: queue_inv_def counters_inv_def workers_inv_def account_inv_def)

lemma join_done_ok:
  assumes ok: "signal_ok T K s g"
  shows "signal_ok T K s (join_done g)"
proof (cases "sg_stage g = StageJoining \<and> q_done (sg_queue g) \<and> list_all (\<lambda>k. cn_done (slot_conn g k)) (sg_snapshot g)")
  case True
  have q: "queue_ok T g" using ok by (simp add: signal_ok_def)
  have fin: "set (q_finished (sg_queue g)) = set (q_admitted (sg_queue g))"
    using queue_done_finished True q by (metis queue_ok_def mset_eq_setD)
  have ids: "map jb_id (q_admitted (sg_queue g)) = [0..<length (q_admitted (sg_queue g))]"
    using q by (simp add: queue_ok_def queue_inv_def account_inv_def)
  have "settled (et_phase (T ! t))" if t: "t \<in> set (sg_jobs g)" for t
  proof -
    obtain i where i: "i < length (sg_jobs g)" "t = sg_jobs g ! i" using t by (metis in_set_conv_nth)
    let ?j = "q_admitted (sg_queue g) ! i"
    have len: "i < length (q_admitted (sg_queue g))" using i q by (simp add: queue_ok_def)
    then have "jb_id ?j = i" using ids by (metis add_0 nth_map nth_upt)
    moreover have "?j \<in> set (q_finished (sg_queue g))" using fin len by simp
    ultimately show ?thesis using q i by (auto simp: queue_ok_def job_task_def)
  qed
  with ok True show ?thesis
    by (auto simp: join_done_def signal_ok_def queue_ok_def stage_ok_def slot_conn_def job_task_def list_all_iff)
next
  case False
  then have "join_done g = g" unfolding join_done_def by (rule if_not_P)
  with ok show ?thesis by simp
qed

lemma queue_move_closed: "q_closed q \<Longrightarrow> q_closed (queue_move q x)"
  by (cases x) (auto simp: submit_def submit_wake_def enqueue_def worker_take_def worker_release_def
      cancel_begin_def finish_end_def stop_begin_def finish_closed_def put_lane_def
      start_workers_def Let_def split: list.split option.split)

lemma queue_move_admitted:
  "(\<And>e t. x \<noteq> StepSubmit e t \<and> x \<noteq> StepWake e t) \<Longrightarrow> q_admitted (queue_move q x) = q_admitted q"
  by (cases x) (auto simp: worker_take_def worker_release_def cancel_begin_def finish_end_def stop_begin_def
      finish_closed_def put_lane_def Let_def split: list.split)

lemma queue_move_finished:
  "set (q_finished (queue_move q x)) \<subseteq> set (q_finished q) \<union>
     (case x of StepRelease j \<Rightarrow> {j} | StepFinished js \<Rightarrow> set js | _ \<Rightarrow> {})"
  by (cases x) (auto simp: submit_def submit_wake_def enqueue_def worker_take_def worker_release_def
      cancel_begin_def finish_end_def stop_begin_def finish_closed_def put_lane_def
      start_workers_def Let_def split: list.split option.split)

lemma job_over_settled: "job_over w g j = settled (et_phase (wd_tasks w ! job_task g j))"
  by (auto simp: job_over_def settled_def split: task_phase.split)

lemma queue_step_ok:
  assumes ok: "signal_ok (wd_tasks w) K s g" and allowed: "queue_allowed w g x"
  shows "signal_ok (wd_tasks w) K s (g\<lparr>sg_queue := queue_move (sg_queue g) x\<rparr>)"
proof -
  let ?g = "g\<lparr>sg_queue := queue_move (sg_queue g) x\<rparr>"
  have q: "queue_ok (wd_tasks w) g" using ok by (simp add: signal_ok_def)
  have adm: "q_admitted (queue_move (sg_queue g) x) = q_admitted (sg_queue g)"
    by (rule queue_move_admitted) (use allowed in \<open>auto simp: queue_allowed_def\<close>)
  have jt: "job_task ?g j = job_task g j" for j by (simp add: job_task_def)
  have "settled (et_phase (wd_tasks w ! job_task g j))"
    if "j \<in> set (q_finished (queue_move (sg_queue g) x))" for j
  proof -
    have "j \<in> set (q_finished (sg_queue g)) \<or> job_over w g j"
      using queue_move_finished [of "sg_queue g" x] that allowed
      by (cases x) (auto simp: queue_allowed_def list_all_iff)
    then show ?thesis using q by (auto simp: queue_ok_def job_over_settled)
  qed
  then have "queue_ok (wd_tasks w) ?g"
    using q queue_move_inv [of "sg_queue g" x] by (simp add: queue_ok_def adm jt)
  moreover have "stage_ok (wd_tasks w) ?g"
    using ok queue_move_closed by (auto simp: signal_ok_def stage_ok_def slot_conn_def)
  ultimately show ?thesis using ok by (simp add: signal_ok_def slot_conn_def)
qed

end
