(* ===== verification/Signal_Emit_Net.thy ===== *)
theory Signal_Emit_Net
  imports Signal_Emit_Steps
begin

text \<open>
  Admission, release and exit change callbacks, emissions and a signal at once.  With them every
  step of the world keeps the invariant.
\<close>

section \<open>Admission\<close>

lemma submit_fields:
  assumes "submit e job q = (q1, Admitted)"
  shows "length (q_admitted q1) = Suc (length (q_admitted q))" "q_finished q1 = q_finished q"
    "q_closed q1 = q_closed q" "\<not> q_closed q"
  using assms by (auto simp: submit_def enqueue_def Let_def split: if_splits option.splits)

lemma runs_ok_slots:
  "runs_ok S K \<Longrightarrow> s < length S \<Longrightarrow> length (sg_slots g) = length (sg_slots (S ! s)) \<Longrightarrow> runs_ok (S[s := g]) K"
  by (auto simp: runs_ok_def nth_list_update)

lemma net_acquire:
  assumes inv: "net_inv S T K" and r: "r < length K" "sk_state (K ! r) = AdmitNext"
    and x: "et_run x = r" "et_index x = sk_next (K ! r)" "et_phase x = TaskAcquired"
    and s: "s = sk_signal (K ! r)" and k: "k = sk_entries (K ! r) ! sk_next (K ! r)"
    and open_conn: "\<not> cn_closed (slot_conn (S ! s) k)"
  shows "net_inv (S[s := map_conn k (\<lambda>c. fst (connection_acquire (length T) c)) (S ! s)]) (T @ [x])
    (K[r := (K ! r)\<lparr>sk_state := AdmitSubmit (length T)\<rparr>])"
proof -
  let ?t = "length T" and ?K = "K[r := (K ! r)\<lparr>sk_state := AdmitSubmit (length T)\<rparr>]"
  let ?g = "map_conn k (\<lambda>c. fst (connection_acquire (length T) c)) (S ! s)"
  note I = net_invD [OF inv]
  have n: "sk_next (K ! r) < length (sk_entries (K ! r))" using I(1) r by (auto simp: admit_inv_def run_admits_def)
  have sl: "s < length S" "k < length (sg_slots (S ! s))"
    using I(3) r subsetD [OF _ nth_mem [OF n]] unfolding runs_ok_def s k by (blast, blast)
  have runs: "et_run (T ! u) < length K" if "u < length T" for u using I(1) that by (simp add: admit_inv_def)
  have sk: "sk_signal (?K ! q) = sk_signal (K ! q)" "sk_entries (?K ! q) = sk_entries (K ! q)" for q
    using r by (cases "q = r"; simp)+
  have on: "task_on (T @ [x]) ?K q l u \<longleftrightarrow> task_on T K q l u \<or> u = ?t \<and> q = s \<and> l = k" for q l u
    using x s k by (auto simp: task_on_def nth_append sk less_Suc_eq)
  have at: "(T @ [x]) ! u = T ! u" if "u < length T" for u using that by (simp add: nth_append)
  have conn: "conn_ok (T @ [x]) ?K q l c" if "conn_ok T K q l c" "q \<noteq> s \<or> l \<noteq> k" for q l c
    using that by (auto simp: conn_ok_def on)
  have queue: "queue_ok (T @ [x]) g" if "queue_ok T g" for g
  proof -
    have "job_task g j < length T" if "j \<in> set (q_finished (sg_queue g))" for j
    proof -
      have "j \<in> set (q_admitted (sg_queue g))"
        using \<open>queue_ok T g\<close> that by (metis queue_ok_def queue_inv_def account_inv_def set_mset_mset set_mset_union Un_iff)
      then have "jb_id j < length (q_admitted (sg_queue g))"
        using \<open>queue_ok T g\<close> by (metis (mono_tags, lifting) queue_ok_def queue_inv_def account_inv_def
          atLeastLessThan_iff image_eqI list.set_map set_upt)
      then have "jb_id j < length (sg_jobs g)" using \<open>queue_ok T g\<close> by (simp add: queue_ok_def)
      then have "job_task g j \<in> set (sg_jobs g)" by (simp add: job_task_def)
      with \<open>queue_ok T g\<close> show ?thesis by (auto simp: queue_ok_def)
    qed
    with that show ?thesis by (auto simp: queue_ok_def nth_append)
  qed
  have stage: "stage_ok (T @ [x]) g" if "stage_ok T g" "queue_ok T g" for g
    using that by (auto simp: stage_ok_def queue_ok_def nth_append)
  have g_ok: "signal_ok T K s (S ! s)" by (rule I(5) [OF sl(1)])
  have own: "conn_ok (T @ [x]) ?K s k (fst (connection_acquire ?t (slot_conn (S ! s) k)))"
    using g_ok sl open_conn connection_step_inv [of "slot_conn (S ! s) k" "ConnAcquire ?t"]
    by (auto simp: signal_ok_def conn_ok_def on connection_acquire_def)
  have "signal_ok (T @ [x]) ?K s ?g"
    using g_ok own sl open_conn conn queue stage
    by (auto simp: signal_ok_def slot_conn_map) (auto simp: stage_ok_def slot_conn_map connection_acquire_def)
  moreover have "signal_ok (T @ [x]) ?K q (S ! q)" if "q < length S" "q \<noteq> s" for q
    using I(5) [OF that(1)] that(2) conn queue stage by (auto simp: signal_ok_def)
  moreover have "runs_ok (S[s := ?g]) ?K"
    using I(3) sl by (auto simp: runs_ok_def sk nth_list_update)
  moreover have "jobs_ok (S[s := ?g]) (T @ [x]) ?K"
    unfolding jobs_ok_def
  proof (intro allI impI)
    fix u assume u: "u < length (T @ [x])" "et_phase ((T @ [x]) ! u) \<noteq> TaskAcquired"
      "et_phase ((T @ [x]) ! u) \<noteq> TaskOver"
    then have lt: "u < length T" using x by (cases "u = length T") auto
    with u I(4) have "u \<in> set (sg_jobs (S ! sk_signal (K ! et_run (T ! u))))" by (simp add: jobs_ok_def at)
    then show "u \<in> set (sg_jobs (S[s := ?g] ! sk_signal (?K ! et_run ((T @ [x]) ! u))))"
      using lt sl by (simp add: at sk nth_list_update)
  qed
  ultimately show ?thesis
    using admit_acquire [OF I(1) r x] exits_acquire [OF I(2) r x(3)] sl
    by (auto simp: net_inv_def nth_list_update)
qed

lemma net_submitted:
  assumes inv: "net_inv S T K" and r: "r < length K" "sk_state (K ! r) = AdmitSubmit t"
    and s: "s = sk_signal (K ! r)" and q: "submit e job (sg_queue (S ! s)) = (q1, Admitted)"
  shows "net_inv (S[s := (S ! s)\<lparr>sg_queue := q1, sg_jobs := sg_jobs (S ! s) @ [t]\<rparr>])
    (T[t := (T ! t)\<lparr>et_phase := TaskQueued\<rparr>]) (K[r := admitted_skel (K ! r)])"
proof -
  let ?T = "T[t := (T ! t)\<lparr>et_phase := TaskQueued\<rparr>]" and ?K = "K[r := admitted_skel (K ! r)]"
  let ?g = "(S ! s)\<lparr>sg_queue := q1, sg_jobs := sg_jobs (S ! s) @ [t]\<rparr>"
  note I = net_invD [OF inv]
  have t: "t < length T" "et_run (T ! t) = r" "et_phase (T ! t) = TaskAcquired"
    using I(1) r by (auto simp: admit_inv_def run_admits_def entry_task_def)
  have sl: "s < length S" using I(3) r by (simp add: runs_ok_def s)
  have at: "?T ! u = (if u = t then (T ! t)\<lparr>et_phase := TaskQueued\<rparr> else T ! u)" for u using t by simp
  have places: "same_places ?T K ?K" by (rule places_update [OF r(1)]) (simp_all add: admitted_skel_def)
  have phase: "signal_ok ?T K p g" if "signal_ok T K p g" for p g
    using that t by (intro signal_ok_phase) (auto simp: settled_def)
  have g_ok: "signal_ok ?T K s (S ! s)" by (rule phase [OF I(5) [OF sl]])
  have len: "length (sg_jobs (S ! s)) = length (q_admitted (sg_queue (S ! s)))"
    using g_ok by (simp add: signal_ok_def queue_ok_def)
  have "job_task ?g j = job_task (S ! s) j" if "j \<in> set (q_finished (sg_queue (S ! s)))" for j
  proof -
    have "queue_inv (sg_queue (S ! s))" using g_ok by (simp add: signal_ok_def queue_ok_def)
    then have "j \<in> set (q_admitted (sg_queue (S ! s)))"
        and ids: "map jb_id (q_admitted (sg_queue (S ! s))) = [0..<length (q_admitted (sg_queue (S ! s)))]"
      using that by (metis queue_inv_def account_inv_def set_mset_mset set_mset_union Un_iff, simp add: queue_inv_def account_inv_def)
    then have "jb_id j < length (q_admitted (sg_queue (S ! s)))"
      by (metis atLeastLessThan_iff image_eqI list.set_map set_upt)
    then show ?thesis by (simp add: job_task_def len nth_append)
  qed
  moreover have "queue_inv q1" using submit_inv [of "sg_queue (S ! s)" e job] q g_ok
    by (simp add: signal_ok_def queue_ok_def)
  ultimately have "queue_ok ?T ?g"
    using g_ok submit_fields [OF q] t by (auto simp: signal_ok_def queue_ok_def at)
  moreover have "stage_ok ?T ?g"
    using g_ok submit_fields [OF q] by (auto simp: signal_ok_def stage_ok_def slot_conn_def)
  ultimately have "signal_ok ?T K s ?g" using g_ok by (auto simp: signal_ok_def slot_conn_def)
  moreover have "runs_ok (S[s := ?g]) ?K"
    by (rule runs_ok_slots [OF runs_ok_update [OF I(3) r(1)] sl]) (simp_all add: admitted_skel_def)
  moreover have "jobs_ok (S[s := ?g]) ?T K"
    unfolding jobs_ok_def
  proof (intro allI impI)
    fix u assume u: "u < length ?T" "et_phase (?T ! u) \<noteq> TaskAcquired" "et_phase (?T ! u) \<noteq> TaskOver"
    have run: "et_run (?T ! u) = et_run (T ! u)" by (simp add: at)
    show "u \<in> set (sg_jobs (S[s := ?g] ! sk_signal (K ! et_run (?T ! u))))"
    proof (cases "u = t")
      case True
      with t s sl show ?thesis by (simp add: run)
    next
      case False
      with u I(4) have "u \<in> set (sg_jobs (S ! sk_signal (K ! et_run (T ! u))))" by (auto simp: jobs_ok_def at)
      with sl show ?thesis by (cases "sk_signal (K ! et_run (T ! u)) = s") (simp_all add: run)
    qed
  qed
  ultimately show ?thesis
    using admit_submitted [OF I(1) r] exits_submitted [OF I(1,2) r] sl phase [OF I(5)]
    by (auto simp: net_inv_def signal_ok_places [OF places] jobs_ok_places [OF places] nth_list_update)
qed

section \<open>Release\<close>

lemma connection_release_ok:
  assumes "connection_inv c"
  shows "connection_inv (connection_release t c)" "set (cn_tasks (connection_release t c)) = set (cn_tasks c) - {t}"
    "cn_done c \<Longrightarrow> cn_done (connection_release t c)"
proof -
  show "connection_inv (connection_release t c)"
    using connection_step_inv [OF assms, of "ConnRelease t"] by simp
  show "cn_done c \<Longrightarrow> cn_done (connection_release t c)"
    by (simp add: connection_op_defs)
  show "set (cn_tasks (connection_release t c)) = set (cn_tasks c) - {t}"
    unfolding set_removeAll [symmetric] by (auto simp: connection_op_defs simp del: set_removeAll)
qed

text \<open>The end of a callback at its connection, before the books of its emission are closed.\<close>

lemma signals_release:
  assumes inv: "net_inv S T K" and t: "t < length T"
    and x: "et_run x = et_run (T ! t)" "et_index x = et_index (T ! t)" "et_phase x = TaskOver"
    and s: "s = sk_signal (K ! et_run (T ! t))" and k: "k = sk_entries (K ! et_run (T ! t)) ! et_index (T ! t)"
  shows "\<forall>q < length S. signal_ok (T[t := x]) K q (S[s := map_conn k (connection_release t) (S ! s)] ! q)"
    and "runs_ok (S[s := map_conn k (connection_release t) (S ! s)]) K"
    and "jobs_ok (S[s := map_conn k (connection_release t) (S ! s)]) (T[t := x]) K"
proof -
  let ?T = "T[t := x]" and ?g = "map_conn k (connection_release t) (S ! s)"
  note I = net_invD [OF inv]
  have sl: "s < length S" "k < length (sg_slots (S ! s))" using task_place [OF inv t] by (simp_all add: s k)
  have at: "?T ! u = (if u = t then x else T ! u)" for u using t by simp
  have on: "task_on ?T K q l u \<longleftrightarrow> task_on T K q l u \<and> u \<noteq> t" for q l u
    using x by (auto simp: task_on_def at)
  have own: "task_on T K q l t \<Longrightarrow> q = s \<and> l = k" for q l by (auto simp: task_on_def s k)
  have conn: "conn_ok ?T K q l c" if "conn_ok T K q l c" "q \<noteq> s \<or> l \<noteq> k" for q l c
    using that own by (auto simp: conn_ok_def on)
  have released: "conn_ok ?T K s k (connection_release t c)" if "conn_ok T K s k c" for c
    using that by (auto simp: conn_ok_def on connection_release_ok)
  have queue: "queue_ok ?T g" if "queue_ok T g" for g
    using that x by (auto simp: queue_ok_def at settled_def)
  have stage: "stage_ok ?T g" if "stage_ok T g" for g
    using that x by (auto simp: stage_ok_def at settled_def)
  have g_ok: "signal_ok T K s (S ! s)" by (rule I(5) [OF sl(1)])
  have "signal_ok ?T K s ?g"
    unfolding signal_ok_def
  proof (intro conjI allI impI)
    fix l assume "l < length (sg_slots ?g)"
    then show "conn_ok ?T K s l (slot_conn ?g l)"
      using g_ok conn released sl by (auto simp: signal_ok_def slot_conn_map)
  next
    show "queue_ok ?T ?g" using g_ok queue by (simp add: signal_ok_def)
    have "connection_inv (slot_conn (S ! s) k)" using g_ok sl by (simp add: signal_ok_def conn_ok_def)
    then show "stage_ok ?T ?g"
      using g_ok stage [of "S ! s"] sl connection_release_ok(3)
      by (auto simp: signal_ok_def stage_ok_def slot_conn_map)
  qed
  moreover have "signal_ok ?T K q (S ! q)" if "q < length S" "q \<noteq> s" for q
    using I(5) [OF that(1)] that(2) conn queue stage by (auto simp: signal_ok_def)
  ultimately show "\<forall>q < length S. signal_ok ?T K q (S[s := ?g] ! q)" using sl by (simp add: nth_list_update)
  show "runs_ok (S[s := ?g]) K" using I(3) sl by (auto simp: runs_ok_def nth_list_update)
  have jobs: "sg_jobs (S[s := ?g] ! q) = sg_jobs (S ! q)" for q using sl by (cases "q = s") simp_all
  show "jobs_ok (S[s := ?g]) ?T K" using I(4) x by (auto simp: jobs_ok_def jobs at)
qed

lemma net_leave:
  assumes inv: "net_inv S T K" and t: "t < length T"
    and phase: "et_phase (T ! t) \<noteq> TaskAcquired" "et_phase (T ! t) \<noteq> TaskOver"
    and x: "et_run x = et_run (T ! t)" "et_index x = et_index (T ! t)" "et_phase x = TaskOver"
    and s: "s = sk_signal (K ! et_run (T ! t))" and k: "k = sk_entries (K ! et_run (T ! t)) ! et_index (T ! t)"
  shows "net_inv (S[s := map_conn k (connection_release t) (S ! s)]) (T[t := x])
    (K[et_run (T ! t) := exit_skel (et_index (T ! t)) (K ! et_run (T ! t))])"
proof -
  note I = net_invD [OF inv]
  let ?K = "K[et_run (T ! t) := exit_skel (et_index (T ! t)) (K ! et_run (T ! t))]"
  have r: "et_run (T ! t) < length K" by (rule task_place [OF inv t])
  have places: "same_places (T[t := x]) K ?K" by (rule places_update [OF r]) (simp_all add: exit_skel_def)
  have "admit_inv (T[t := x]) K" using phase x by (intro admit_phase [OF I(1) t]) simp_all
  moreover have "runs_ok (S[s := map_conn k (connection_release t) (S ! s)]) ?K"
    by (rule runs_ok_update [OF signals_release(2) [OF inv t x s k] r]) (simp_all add: exit_skel_def)
  ultimately show ?thesis
    using admit_exit_skel exits_leave [OF I(1,2) t phase x(3,1,2)] signals_release(1,3) [OF inv t x s k]
    by (simp add: net_inv_def signal_ok_places [OF places] jobs_ok_places [OF places])
qed

lemma net_fail_submit:
  assumes inv: "net_inv S T K" and r: "r < length K" "sk_state (K ! r) = AdmitSubmit t"
    and x: "et_run x = et_run (T ! t)" "et_index x = et_index (T ! t)" "et_phase x = TaskOver"
    and s: "s = sk_signal (K ! et_run (T ! t))" and k: "k = sk_entries (K ! et_run (T ! t)) ! et_index (T ! t)"
  shows "net_inv (S[s := map_conn k (connection_release t) (S ! s)]) (T[t := x]) (K[r := failed_skel e (K ! r)])"
proof -
  note I = net_invD [OF inv]
  let ?K = "K[r := failed_skel e (K ! r)]"
  have t: "t < length T" "et_run (T ! t) = r" using I(1) r by (auto simp: admit_inv_def run_admits_def entry_task_def)
  have places: "same_places (T[t := x]) K ?K" by (rule places_update [OF r(1)]) (simp_all add: failed_skel_def)
  have at: "T[t := x] ! u = (if u = t then x else T ! u)" for u using t by simp
  have T': "length (T[t := x]) = length T"
    "\<And>u. u < length T \<Longrightarrow> et_run (T[t := x] ! u) = et_run (T ! u) \<and> et_index (T[t := x] ! u) = et_index (T ! u)"
    "\<And>u. u < length T \<Longrightarrow> et_phase (T[t := x] ! u) = et_phase (T ! u) \<and> sk_state (K ! r) \<noteq> AdmitSubmit u \<or>
      sk_state (K ! r) = AdmitSubmit u \<and> et_phase (T[t := x] ! u) = TaskOver"
    using x r by (auto simp: at)
  have state: "\<not> (\<exists>e. sk_state (K ! r) = RunReturned e)" using r by simp
  have "runs_ok (S[s := map_conn k (connection_release t) (S ! s)]) ?K"
    by (rule runs_ok_update [OF signals_release(2) [OF inv t(1) x s k] r(1)]) (simp_all add: failed_skel_def)
  then show ?thesis
    using admit_fail [OF I(1) r(1) T' state] exits_fail [OF I(1,2) r(1) T' state]
      signals_release(1,3) [OF inv t(1) x s k]
    by (simp add: net_inv_def signal_ok_places [OF places] jobs_ok_places [OF places])
qed

lemma net_fail_acquire:
  assumes inv: "net_inv S T K" and r: "r < length K" "sk_state (K ! r) = AdmitNext"
  shows "net_inv S T (K[r := failed_skel e (K ! r)])"
proof -
  note I = net_invD [OF inv]
  have places: "same_places T K (K[r := failed_skel e (K ! r)])"
    by (rule places_update [OF r(1)]) (simp_all add: failed_skel_def)
  have "admit_inv T (K[r := failed_skel e (K ! r)])" "exits_inv T (K[r := failed_skel e (K ! r)])"
    using admit_fail [OF I(1) r(1) refl, of e] exits_fail [OF I(1,2) r(1) refl, of e] r(2) by simp_all
  moreover have "runs_ok S (K[r := failed_skel e (K ! r)])"
    by (rule runs_ok_update [OF I(3) r(1)]) (simp_all add: failed_skel_def)
  ultimately show ?thesis
    using inv by (simp add: net_inv_def signal_ok_places [OF places] jobs_ok_places [OF places])
qed

text \<open>
  Forwarding: a callback that has handed its work to another emission is registered there, and is
  over only after that emission has called it back.
\<close>

section \<open>The invariant of a forwarded callback\<close>

definition listed :: "'r run \<Rightarrow> nat set" where
  "listed x = set (em_exit_callbacks (rn_emission x)) \<union> set (em_exited (rn_emission x))"

definition link_ok :: "emit_task list \<Rightarrow> nat \<Rightarrow> 'r run \<Rightarrow> bool" where
  "link_ok T c x \<longleftrightarrow>
     (\<forall>t \<in> set (em_exit_callbacks (rn_emission x)). t < length T \<and> et_phase (T ! t) = TaskForwarded c \<and>
        t \<notin> set (em_exited (rn_emission x))) \<and>
     (\<forall>t \<in> set (em_exited (rn_emission x)). t < length T \<and>
        et_phase (T ! t) = (if t \<in> set (rn_left x) then TaskOver else TaskForwarded c)) \<and>
     set (rn_left x) \<subseteq> set (em_exited (rn_emission x)) \<and>
     (em_exited (rn_emission x) \<noteq> [] \<longrightarrow> em_work (rn_emission x) \<le> 0)"

definition forward_ok :: "'r run list \<Rightarrow> nat \<Rightarrow> task_phase \<Rightarrow> bool" where
  "forward_ok R t p = (case p of
     TaskForwarding c \<Rightarrow> c < length R
   | TaskForwarded c \<Rightarrow> c < length R \<and> t \<in> listed (R ! c)
   | _ \<Rightarrow> True)"

definition links :: "emit_task list \<Rightarrow> 'r run list \<Rightarrow> bool" where
  "links T R \<longleftrightarrow> (\<forall>c < length R. link_ok T c (R ! c)) \<and> (\<forall>t < length T. forward_ok R t (et_phase (T ! t)))"

lemma link_listed:
  assumes "link_ok T c x" "t \<in> listed x"
  shows "t < length T" "et_phase (T ! t) = (if t \<in> set (rn_left x) then TaskOver else TaskForwarded c)"
proof -
  show "t < length T" using assms by (auto simp: link_ok_def listed_def)
  show "et_phase (T ! t) = (if t \<in> set (rn_left x) then TaskOver else TaskForwarded c)"
  proof (cases "t \<in> set (em_exited (rn_emission x))")
    case True
    with assms(1) show ?thesis by (simp add: link_ok_def)
  next
    case False
    with assms(2) have "t \<in> set (em_exit_callbacks (rn_emission x))" by (simp add: listed_def)
    moreover have "t \<notin> set (rn_left x)" using assms(1) False by (auto simp: link_ok_def)
    ultimately show ?thesis using assms(1) by (simp add: link_ok_def)
  qed
qed

lemma links_run:
  assumes "links T R" "link_ok T r y" "listed (R ! r) \<subseteq> listed y"
  shows "links T (R[r := y])"
proof (cases "r < length R")
  case True
  have "forward_ok R t p \<Longrightarrow> forward_ok (R[r := y]) t p" for t p
    using assms(3) True by (auto simp: forward_ok_def nth_list_update split: task_phase.splits)
  then show ?thesis using assms(1,2) True by (simp add: links_def nth_list_update)
qed (use assms in \<open>simp add: list_update_beyond\<close>)

lemma links_phase:
  fixes R :: "'r run list"
  assumes "links T R" "t < length T"
    and "et_phase x = et_phase (T ! t) \<or> \<not> settled (et_phase (T ! t)) \<and>
      (et_phase x = TaskOver \<or> \<not> settled (et_phase x)) \<and> forward_ok R t (et_phase x)"
  shows "links (T[t := x]) R"
proof -
  have at: "T[t := x] ! u = (if u = t then x else T ! u)" for u using assms(2) by simp
  have "link_ok (T[t := x]) c y" if "link_ok T c y" for c and y :: "'r run"
    using assms(3) that by (auto simp: link_ok_def at settled_def)
  moreover have "forward_ok R u (et_phase (T[t := x] ! u))" if "u < length T" for u
    using assms that by (auto simp: links_def at)
  ultimately show ?thesis using assms(1) by (simp add: links_def)
qed

lemma links_append_task:
  assumes "links T R" "et_phase x = TaskAcquired"
  shows "links (T @ [x]) R"
  using assms by (fastforce simp: links_def link_ok_def forward_ok_def nth_append less_Suc_eq)

lemma links_append_run:
  assumes "links T R" "listed x = {}" "rn_left x = []"
  shows "links T (R @ [x])"
proof -
  have "forward_ok R t p \<Longrightarrow> forward_ok (R @ [x]) t p" for t p
    by (auto simp: forward_ok_def nth_append split: task_phase.splits)
  moreover have "link_ok T (length R) x" using assms(2,3) by (simp add: link_ok_def listed_def)
  ultimately show ?thesis using assms(1) by (auto simp: links_def nth_append less_Suc_eq)
qed

section \<open>Operations of emissions\<close>

lemma emission_lists [simp]:
  "em_exit_callbacks (emission_finish i r e) = em_exit_callbacks e" "em_exited (emission_finish i r e) = em_exited e"
  "em_exit_callbacks (emission_start i e) = em_exit_callbacks e" "em_exited (emission_start i e) = em_exited e"
  "em_exit_callbacks (emission_on_complete t e) = em_exit_callbacks e"
  "em_exited (emission_on_complete t e) = em_exited e"
  by (auto simp: emission_finish_def emission_close_done_def emission_start_def emission_on_complete_def Let_def)

lemma new_run_lists [simp]: "listed (new_run s sync es path starts) = {}" "rn_left (new_run s sync es path starts) = []"
  by (simp_all add: listed_def new_run_def new_emission_def Let_def)

lemma link_same:
  assumes "link_ok T c x" "rn_left y = rn_left x" "em_exit_callbacks (rn_emission y) = em_exit_callbacks (rn_emission x)"
    "em_exited (rn_emission y) = em_exited (rn_emission x)" "em_work (rn_emission y) \<le> em_work (rn_emission x)"
  shows "link_ok T c y \<and> listed y = listed x"
  using assms by (fastforce simp: link_ok_def listed_def)

lemma link_finish_run: "link_ok T c x \<Longrightarrow> link_ok T c (finish_run i res x) \<and> listed (finish_run i res x) = listed x"
  by (rule link_same) (simp_all add: finish_run_def)

lemma link_exit_run: "link_ok T c x \<Longrightarrow> link_ok T c (exit_run i x) \<and> listed (exit_run i x) = listed x"
  by (auto simp: link_ok_def listed_def exit_run_def emission_exit_def Let_def)

lemma link_fail_entries:
  "link_ok T c x \<Longrightarrow> link_ok T c (foldl (fail_entry z e) x is) \<and> listed (foldl (fail_entry z e) x is) = listed x"
proof (induction "is" arbitrary: x)
  case (Cons i "is")
  have "link_ok T c (fail_entry z e x i) \<and> listed (fail_entry z e x i) = listed x"
    using link_exit_run [of T c "finish_run i (plain_result z (Some e)) x" i] link_finish_run [OF Cons.prems]
    by (simp add: fail_entry_def)
  with Cons.IH [of "fail_entry z e x i"] show ?case by simp
qed simp

lemma link_fail_run:
  assumes "link_ok T c x"
  shows "link_ok T c (fail_run z e x) \<and> listed (fail_run z e x) = listed x"
proof -
  let ?y = "foldl (fail_entry z e) x [rn_next x..<length (rn_entries x)]"
  have "link_ok T c ?y \<and> listed ?y = listed x" by (rule link_fail_entries [OF assms])
  then show ?thesis
    using link_same [of T c ?y "?y\<lparr>rn_state := RunReturned (Some e)\<rparr>"] by (simp add: fail_run_def)
qed

lemma links_map_run:
  assumes "links T R" "\<And>x. link_ok T r x \<Longrightarrow> link_ok T r (f x) \<and> listed (f x) = listed x"
  shows "links T (R[r := f (R ! r)])"
proof (cases "r < length R")
  case True
  with assms show ?thesis by (intro links_run) (auto simp: links_def)
qed (use assms in \<open>simp add: list_update_beyond\<close>)

section \<open>Forwarding and coming back\<close>

lemma links_forwarded:
  assumes ok: "links T R" and t: "t < length T" "et_phase (T ! t) = TaskForwarding c"
    and x: "et_phase x = TaskForwarded c"
    and y: "rn_left y = rn_left (R ! c)" "em_work (rn_emission y) = em_work (rn_emission (R ! c))"
      "em_exit_callbacks (rn_emission y) = em_exit_callbacks (emission_on_exit t (rn_emission (R ! c)))"
      "em_exited (rn_emission y) = em_exited (emission_on_exit t (rn_emission (R ! c)))"
    and work: "0 \<le> em_work (rn_emission (R ! c))"
  shows "links (T[t := x]) (R[c := y])"
proof -
  have c: "c < length R" using ok t by (auto simp: links_def forward_ok_def dest!: spec [of _ t])
  have at: "T[t := x] ! u = (if u = t then x else T ! u)" for u using t by simp
  have fresh: "t \<notin> listed (R ! q)" if "q < length R" for q
    using ok that t link_listed(2) [of T q "R ! q" t] by (auto simp: links_def split: if_splits)
  have old: "link_ok (T[t := x]) q (R ! q)" if "q < length R" for q
    using ok that fresh [OF that] by (auto simp: links_def link_ok_def at listed_def)
  have list: "listed y = insert t (listed (R ! c))"
    using y by (auto simp: listed_def emission_on_exit_def)
  have "link_ok (T[t := x]) c y"
    using old [OF c] y fresh [OF c] x t work
    by (auto simp: link_ok_def emission_on_exit_def at listed_def split: if_splits)
  moreover have "forward_ok (R[c := y]) u (et_phase (T[t := x] ! u))" if "u < length T" for u
  proof (cases "u = t")
    case True
    then show ?thesis using x c t list by (simp add: forward_ok_def)
  next
    case False
    have "forward_ok R u (et_phase (T ! u))" using ok that by (simp add: links_def)
    then show ?thesis
      using False c list by (auto simp: forward_ok_def nth_list_update split: task_phase.splits)
  qed
  ultimately show ?thesis using old c by (simp add: links_def nth_list_update)
qed

lemma links_left:
  assumes ok: "links T R" and c: "c < length R" and t: "t \<in> set (em_exited (rn_emission (R ! c)))"
    and new: "t \<notin> set (rn_left (R ! c))" and x: "et_phase x = TaskOver"
  shows "t < length T" "et_phase (T ! t) = TaskForwarded c"
    "links (T[t := x]) (R[c := (R ! c)\<lparr>rn_left := t # rn_left (R ! c)\<rparr>])"
proof -
  show p: "t < length T" "et_phase (T ! t) = TaskForwarded c"
    using ok c t new by (auto simp: links_def link_ok_def)
  let ?y = "(R ! c)\<lparr>rn_left := t # rn_left (R ! c)\<rparr>"
  have at: "T[t := x] ! u = (if u = t then x else T ! u)" for u using p by simp
  have "t \<notin> listed (R ! q)" if "q < length R" "q \<noteq> c" for q
  proof -
    have "link_ok T q (R ! q)" using ok that by (simp add: links_def)
    with that p link_listed(2) [of T q "R ! q" t] show ?thesis by (auto split: if_splits)
  qed
  then have others: "link_ok (T[t := x]) q (R ! q)" if "q < length R" "q \<noteq> c" for q
    using ok that by (auto simp: links_def link_ok_def at listed_def)
  have "link_ok T c (R ! c)" using ok c by (simp add: links_def)
  then have "link_ok (T[t := x]) c ?y" using t x p by (auto simp: link_ok_def at)
  moreover have "forward_ok (R[c := ?y]) u (et_phase (T[t := x] ! u))" if "u < length T" for u
  proof (cases "u = t")
    case True
    then show ?thesis using x p by (simp add: forward_ok_def)
  next
    case False
    have "forward_ok R u (et_phase (T ! u))" using ok that by (simp add: links_def)
    then show ?thesis
      using False c by (auto simp: forward_ok_def nth_list_update listed_def split: task_phase.splits)
  qed
  ultimately show "links (T[t := x]) (R[c := ?y])" using others c by (simp add: links_def nth_list_update)
qed

end
