(* ===== verification/Signal_Emit_World.thy ===== *)
theory Signal_Emit_World
  imports Signal_Emit_Net
begin

text \<open>Every step of the world of signals keeps its invariant.\<close>

section \<open>The invariant\<close>

abbreviation skels :: "'r world \<Rightarrow> skel list" where
  "skels w \<equiv> map skel_of (wd_runs w)"

definition world_ok :: "'r world \<Rightarrow> bool" where
  "world_ok w \<longleftrightarrow> net_inv (wd_signals w) (wd_tasks w) (skels w) \<and> links (wd_tasks w) (wd_runs w)"

lemmas map_world_defs = map_signal_def map_run_def map_task_def set_phase_def stop_task_def

lemma map_world_simps [simp]:
  "wd_signals (map_signal i g w) = (wd_signals w)[i := g (wd_signals w ! i)]"
  "wd_runs (map_signal i g w) = wd_runs w" "wd_tasks (map_signal i g w) = wd_tasks w"
  "wd_zero (map_signal i g w) = wd_zero w"
  "wd_signals (map_run i f w) = wd_signals w" "wd_tasks (map_run i f w) = wd_tasks w"
  "wd_runs (map_run i f w) = (wd_runs w)[i := f (wd_runs w ! i)]" "wd_zero (map_run i f w) = wd_zero w"
  "wd_signals (map_task i h w) = wd_signals w" "wd_runs (map_task i h w) = wd_runs w"
  "wd_tasks (map_task i h w) = (wd_tasks w)[i := h (wd_tasks w ! i)]" "wd_zero (map_task i h w) = wd_zero w"
  by (simp_all add: map_signal_def map_run_def map_task_def)

lemma skels_update: "map skel_of (R[r := y]) = (map skel_of R)[r := skel_of y]"
  by (simp add: map_update)

lemma world_signal:
  assumes "world_ok w" "s < length (wd_signals w)" "signal_ok (wd_tasks w) (skels w) s g"
    and "length (sg_slots (wd_signals w ! s)) \<le> length (sg_slots g)" "sg_jobs g = sg_jobs (wd_signals w ! s)"
  shows "net_inv ((wd_signals w)[s := g]) (wd_tasks w) (skels w)"
  using assms net_signal by (auto simp: world_ok_def)

lemma world_on_signal:
  assumes ok: "world_ok w"
    and f: "\<And>g. s < length (wd_signals w) \<Longrightarrow> g = wd_signals w ! s \<Longrightarrow> signal_ok (wd_tasks w) (skels w) s g \<Longrightarrow>
      signal_ok (wd_tasks w) (skels w) s (f g) \<and> length (sg_slots g) \<le> length (sg_slots (f g)) \<and> sg_jobs (f g) = sg_jobs g"
  shows "world_ok (on_signal s f w)"
proof (cases "s < length (wd_signals w)")
  case True
  have "signal_ok (wd_tasks w) (skels w) s (wd_signals w ! s)"
    using ok True by (auto simp: world_ok_def dest: net_invD(5))
  from f [OF True refl this] world_signal [OF ok True] ok True show ?thesis
    by (simp add: on_signal_def world_ok_def)
qed (use ok in \<open>simp add: on_signal_def\<close>)

text \<open>Changes of one emission that its skeleton does not show.\<close>

lemma world_run:
  assumes "world_ok w" "skel_of (f (wd_runs w ! r)) = skel_of (wd_runs w ! r)"
    and "\<And>T x. link_ok T r x \<Longrightarrow> link_ok T r (f x) \<and> listed (f x) = listed x"
  shows "world_ok (map_run r f w)"
proof -
  have "skels (map_run r f w) = skels w"
    using assms(2) by (cases "r < length (wd_runs w)") (simp_all add: skels_update list_update_same_conv list_update_beyond)
  then show ?thesis using assms(1) links_map_run [OF _ assms(3)] by (simp add: world_ok_def)
qed

lemma world_task:
  assumes ok: "world_ok w" and t: "t < length (wd_tasks w)"
    and h: "\<And>x. et_run (h x) = et_run x \<and> et_index (h x) = et_index x"
    and phase: "et_phase (h (wd_tasks w ! t)) = et_phase (wd_tasks w ! t) \<or>
      et_phase (wd_tasks w ! t) \<noteq> TaskAcquired \<and> \<not> settled (et_phase (wd_tasks w ! t)) \<and>
      et_phase (h (wd_tasks w ! t)) \<noteq> TaskAcquired \<and> \<not> settled (et_phase (h (wd_tasks w ! t))) \<and>
      forward_ok (wd_runs w) t (et_phase (h (wd_tasks w ! t)))"
  shows "world_ok (map_task t h w)"
proof -
  have "links ((wd_tasks w)[t := h (wd_tasks w ! t)]) (wd_runs w)"
    using ok t phase by (intro links_phase) (auto simp: world_ok_def)
  moreover have "net_inv (wd_signals w) ((wd_tasks w)[t := h (wd_tasks w ! t)]) (skels w)"
    using ok t phase h by (intro net_phase) (auto simp: world_ok_def settled_def)
  ultimately show ?thesis by (simp add: world_ok_def)
qed

section \<open>Emitting and admitting\<close>

lemma new_run_ok:
  assumes "world_ok w" "s < length (wd_signals w)" "emit_begin s sync e origin w = Inr x"
  shows "world_ok (w\<lparr>wd_runs := wd_runs w @ [x]\<rparr>)"
proof -
  from assms(3) obtain path starts where x: "x = new_run s sync (sg_snapshot (wd_signals w ! s)) path starts"
    by (auto simp: emit_begin_def Let_def split: if_splits option.splits)
  have "set (sg_snapshot (wd_signals w ! s)) \<subseteq> {..<length (sg_slots (wd_signals w ! s))}"
    using assms(1,2) net_invD(5) [of "wd_signals w" "wd_tasks w" "skels w" s]
    by (simp add: world_ok_def signal_ok_def stage_ok_def)
  then show ?thesis
    using assms(1,2) net_new_run links_append_run [of "wd_tasks w" "wd_runs w" x]
    by (simp add: world_ok_def skel_new_run x)
qed

lemma emit_move_ok: "world_ok w \<Longrightarrow> world_ok (emit_move s sync e origin w)"
  using new_run_ok by (auto simp: emit_move_def split: sum.split)

lemma link_state: "link_ok T r x \<Longrightarrow> link_ok T r (x\<lparr>rn_state := a\<rparr>) \<and> listed (x\<lparr>rn_state := a\<rparr>) = listed x"
  by (rule link_same) simp_all

lemma link_admitted: "link_ok T r x \<Longrightarrow> link_ok T r (admitted_next x) \<and> listed (admitted_next x) = listed x"
  by (rule link_same) (simp_all add: admitted_next_def)

lemma acquire_step_ok:
  assumes ok: "world_ok w" and r: "r < length (wd_runs w)" "rn_state (wd_runs w ! r) = AdmitNext"
  shows "world_ok (acquire_step r w)"
proof -
  let ?x = "wd_runs w ! r" and ?t = "length (wd_tasks w)"
  let ?s = "rn_signal ?x" and ?k = "rn_entries ?x ! rn_next ?x"
  have r': "r < length (skels w)" "sk_state (skels w ! r) = AdmitNext" using r by simp_all
  have inv: "net_inv (wd_signals w) (wd_tasks w) (skels w)" and lk: "links (wd_tasks w) (wd_runs w)"
    using ok by (simp_all add: world_ok_def)
  show ?thesis
  proof (cases "cn_closed (slot_conn (wd_signals w ! ?s) ?k)")
    case True
    have "links (wd_tasks w) ((wd_runs w)[r := fail_run (wd_zero w) err_closed ?x])"
      by (rule links_map_run [OF lk]) (rule link_fail_run)
    moreover have "net_inv (wd_signals w) (wd_tasks w) ((skels w)[r := failed_skel err_closed (skels w ! r)])"
      by (rule net_fail_acquire [OF inv r'])
    ultimately show ?thesis using True r by (simp add: acquire_step_def Let_def world_ok_def skels_update skel_fail_run)
  next
    case False
    let ?n = "\<lparr>et_run = r, et_index = rn_next ?x, et_phase = TaskAcquired, et_stopped = False\<rparr>"
    have "links (wd_tasks w @ [?n]) ((wd_runs w)[r := ?x\<lparr>rn_state := AdmitSubmit ?t\<rparr>])"
      by (rule links_map_run [OF links_append_task [OF lk] link_state]) simp_all
    moreover have "map skel_of ((wd_runs w)[r := ?x\<lparr>rn_state := AdmitSubmit ?t\<rparr>]) =
        (skels w)[r := (skels w ! r)\<lparr>sk_state := AdmitSubmit ?t\<rparr>]"
      using r by (simp add: skels_update skel_of_def)
    moreover have "net_inv ((wd_signals w)[?s := map_conn ?k (\<lambda>c. fst (connection_acquire ?t c)) (wd_signals w ! ?s)])
        (wd_tasks w @ [?n]) ((skels w)[r := (skels w ! r)\<lparr>sk_state := AdmitSubmit ?t\<rparr>])"
      by (rule net_acquire [OF inv r']) (use False r in simp_all)
    ultimately show ?thesis
      using False by (simp add: acquire_step_def Let_def world_ok_def)
  qed
qed

lemma submit_step_ok:
  assumes ok: "world_ok w" and r: "r < length (wd_runs w)" "rn_state (wd_runs w ! r) = AdmitSubmit t"
  shows "world_ok (submit_step r t e key w)"
proof -
  let ?s = "task_signal w t" and ?x = "wd_runs w ! r"
  let ?sg = "wd_signals w ! ?s"
  let ?job = "\<lparr>tk_has_run = True, tk_shutdown = cn_shutdown (slot_conn ?sg (task_slot w t)), tk_key = key\<rparr>"
  have r': "r < length (skels w)" "sk_state (skels w ! r) = AdmitSubmit t" using r by simp_all
  have inv: "net_inv (wd_signals w) (wd_tasks w) (skels w)" and lk: "links (wd_tasks w) (wd_runs w)"
    using ok by (simp_all add: world_ok_def)
  have t: "t < length (wd_tasks w)" "et_run (wd_tasks w ! t) = r" "et_phase (wd_tasks w ! t) = TaskAcquired"
    using net_invD(1) [OF inv] r' by (auto simp: admit_inv_def run_admits_def entry_task_def)
  have s: "?s = sk_signal (skels w ! r)" using t r by (simp add: task_signal_def task_run_def)
  show ?thesis
  proof (cases "submit e ?job (sg_queue ?sg)")
    case (Pair q1 outcome)
    show ?thesis
    proof (cases outcome)
      case Admitted
      have "links ((wd_tasks w)[t := (wd_tasks w ! t)\<lparr>et_phase := TaskQueued\<rparr>]) (wd_runs w)"
        using t by (intro links_phase [OF lk]) (auto simp: settled_def forward_ok_def)
      then have "links ((wd_tasks w)[t := (wd_tasks w ! t)\<lparr>et_phase := TaskQueued\<rparr>]) ((wd_runs w)[r := admitted_next ?x])"
        by (rule links_map_run) (rule link_admitted)
      then show ?thesis
        using Admitted Pair net_submitted [OF inv r' s] r
        by (simp add: submit_step_def Let_def world_ok_def skels_update skel_admitted_next set_phase_def)
    next
      case (Rejected err)
      let ?y = "(wd_tasks w ! t)\<lparr>et_stopped := True, et_phase := TaskOver\<rparr>"
      have "links ((wd_tasks w)[t := ?y]) (wd_runs w)"
        using t by (intro links_phase [OF lk]) (auto simp: settled_def forward_ok_def)
      then have "links ((wd_tasks w)[t := ?y]) ((wd_runs w)[r := fail_run (wd_zero w) (submit_error err) ?x])"
        by (rule links_map_run) (rule link_fail_run)
      then show ?thesis
        using Rejected Pair net_fail_submit [OF inv r', of ?y ?s "task_slot w t" "submit_error err"] r t
        by (simp add: submit_step_def Let_def world_ok_def skels_update skel_fail_run release_task_def
            stop_task_def set_phase_def task_signal_def task_slot_def task_run_def)
    next
      case Blocked
      with Pair ok show ?thesis by (simp add: submit_step_def Let_def)
    qed
  qed
qed

lemma admit_move_ok: "world_ok w \<Longrightarrow> world_ok (admit_move r e key w)"
  using acquire_step_ok submit_step_ok by (auto simp: admit_move_def split: run_state.split)

text \<open>The steps of callbacks and signals, and the invariant of every reachable world.\<close>

section \<open>Entering a callback\<close>

lemma mark_started_ok: "world_ok w \<Longrightarrow> world_ok (mark_started w t)"
  unfolding mark_started_def
proof (rule world_run)
  fix T and x :: "'a run"
  show "link_ok T (et_run (wd_tasks w ! t)) x \<Longrightarrow>
      link_ok T (et_run (wd_tasks w ! t)) (x\<lparr>rn_emission := emission_start (et_index (wd_tasks w ! t)) (rn_emission x)\<rparr>) \<and>
      listed (x\<lparr>rn_emission := emission_start (et_index (wd_tasks w ! t)) (rn_emission x)\<rparr>) = listed x"
    by (rule link_same) simp_all
qed (simp_all add: skel_of_def)

lemma mark_started_tasks [simp]: "wd_tasks (mark_started w t) = wd_tasks w"
  by (simp add: mark_started_def)

lemma mark_all_ok:
  "world_ok w \<Longrightarrow> world_ok (foldl mark_started w ts) \<and> wd_tasks (foldl mark_started w ts) = wd_tasks w"
  by (induction ts arbitrary: w) (simp_all add: mark_started_ok)

lemma phase_ok:
  assumes "world_ok w" "t < length (wd_tasks w)" "et_phase (wd_tasks w ! t) \<noteq> TaskAcquired"
    "\<not> settled (et_phase (wd_tasks w ! t))" "p \<noteq> TaskAcquired" "\<not> settled p" "forward_ok (wd_runs w) t p"
  shows "world_ok (set_phase t p w)"
  unfolding set_phase_def by (rule world_task [OF assms(1,2)]) (use assms in simp_all)

lemma forward_task_ok:
  assumes ok: "world_ok w" and t: "t < length (wd_tasks w)" "et_phase (wd_tasks w ! t) = TaskQueued"
  shows "world_ok (forward_task t c w)"
proof (cases c)
  case ForwardNone
  then show ?thesis
    using phase_ok [OF ok t(1)] t(2) by (simp add: forward_task_def settled_def forward_ok_def)
next
  case (ForwardTo s derived e)
  have returned: "world_ok (set_phase t (TaskReturned r) w)" for r
    using phase_ok [OF ok t(1)] t(2) by (simp add: settled_def forward_ok_def)
  show ?thesis
  proof (cases "s < length (wd_signals w) \<and> sg_single (wd_signals w ! s)")
    case False
    with returned ok show ?thesis by (auto simp: forward_task_def ForwardTo)
  next
    case True
    show ?thesis
    proof (cases "emit_begin s (rn_sync (task_run w t)) e (if derived then Some t else None) w")
      case (Inl r)
      with returned True show ?thesis by (simp add: forward_task_def ForwardTo)
    next
      case (Inr x)
      have "world_ok (w\<lparr>wd_runs := wd_runs w @ [x]\<rparr>)" using new_run_ok [OF ok _ Inr] True by simp
      then have "world_ok (set_phase t (TaskForwarding (length (wd_runs w))) (w\<lparr>wd_runs := wd_runs w @ [x]\<rparr>))"
        by (rule phase_ok) (use t in \<open>simp_all add: settled_def forward_ok_def\<close>)
      with Inr True show ?thesis by (simp add: forward_task_def ForwardTo)
    qed
  qed
qed

lemma run_move_ok:
  assumes ok: "world_ok w"
  shows "world_ok (run_move t c w)"
proof (cases "t < length (wd_tasks w) \<and> et_phase (wd_tasks w ! t) = TaskQueued \<and> task_active w t")
  case True
  let ?w = "if rn_sync (task_run w t) then foldl mark_started w (t # rn_starts (task_run w t)) else w"
  have "world_ok ?w \<and> wd_tasks ?w = wd_tasks w" using ok mark_all_ok [OF ok] by (simp del: foldl_Cons)
  then have "world_ok (set_phase t TaskRunning ?w)"
    using True by (intro phase_ok) (simp_all add: settled_def forward_ok_def)
  with True forward_task_ok [OF ok] show ?thesis by (simp add: run_move_def run_callback_def)
next
  case False
  then have "run_move t c w = w" unfolding run_move_def by (rule if_not_P)
  with ok show ?thesis by simp
qed

section \<open>Forwarding\<close>

lemma work_nonneg:
  assumes "net_inv S T K" "r < length K"
  shows "0 \<le> sk_work (K ! r)"
proof -
  have E: "exits_at T r (K ! r)" using assms by (simp add: net_inv_def exits_inv_alt)
  then have "i < length (sk_entries (K ! r))" if "i \<in> set (sk_exits (K ! r))" for i
    using that unfolding exits_at_def by metis
  then have "set (sk_exits (K ! r)) \<subseteq> {..<length (sk_entries (K ! r))}" by blast
  then have "card (set (sk_exits (K ! r))) \<le> card {..<length (sk_entries (K ! r))}"
    by (rule card_mono [OF finite_lessThan])
  with E show ?thesis by (simp add: exits_at_def distinct_card)
qed

lemma forwarded_move_ok:
  assumes ok: "world_ok w"
  shows "world_ok (forwarded_move t w)"
proof (cases "t < length (wd_tasks w) \<and> (\<exists>c. et_phase (wd_tasks w ! t) = TaskForwarding c)")
  case True
  then obtain c where t: "t < length (wd_tasks w)" "et_phase (wd_tasks w ! t) = TaskForwarding c" by blast
  have inv: "net_inv (wd_signals w) (wd_tasks w) (skels w)" and lk: "links (wd_tasks w) (wd_runs w)"
    using ok by (simp_all add: world_ok_def)
  have "forward_ok (wd_runs w) t (TaskForwarding c)" using lk t by (metis links_def)
  then have c: "c < length (wd_runs w)" by (simp add: forward_ok_def)
  have eq: "forwarded_move t w = forward_returned t c w" using t by (simp add: forwarded_move_def)
  consider e where "rn_state (wd_runs w ! c) = RunReturned (Some e)" | "rn_state (wd_runs w ! c) = RunReturned None"
    | "\<not> (\<exists>r. rn_state (wd_runs w ! c) = RunReturned r)" by (metis option.exhaust)
  then show ?thesis
  proof cases
    case 1
    have "world_ok (set_phase t (TaskReturned (Some e)) w)"
      using t by (intro phase_ok [OF ok]) (simp_all add: settled_def forward_ok_def)
    with 1 eq show ?thesis by (simp add: forward_returned_def)
  next
    case 2
    let ?f = "\<lambda>x. x\<lparr>rn_emission := (let e1 = emission_on_exit t (rn_emission x)
        in if rn_sync x then emission_on_complete t e1 else e1)\<rparr>"
    let ?x = "(wd_tasks w ! t)\<lparr>et_phase := TaskForwarded c\<rparr>"
    have work: "em_work (emission_on_exit t e) = em_work e" for e :: "'a emission" by simp
    have "skel_of (?f (wd_runs w ! c)) = skel_of (wd_runs w ! c)" by (simp add: skel_of_def Let_def)
    then have "map skel_of ((wd_runs w)[c := ?f (wd_runs w ! c)]) = skels w"
      using c by (simp add: skels_update list_update_same_conv)
    moreover have "0 \<le> em_work (rn_emission (wd_runs w ! c))" using work_nonneg [OF inv, of c] c by simp
    then have "links ((wd_tasks w)[t := ?x]) ((wd_runs w)[c := ?f (wd_runs w ! c)])"
      by (intro links_forwarded [OF lk t]) (simp_all add: Let_def)
    moreover have "net_inv (wd_signals w) ((wd_tasks w)[t := ?x]) (skels w)"
      using t by (intro net_phase [OF inv]) (simp_all add: settled_def)
    ultimately show ?thesis using eq 2 by (simp add: forward_returned_def world_ok_def set_phase_def)
  next
    case 3
    then have "forward_returned t c w = w" by (auto simp: forward_returned_def split: run_state.split)
    with eq ok show ?thesis by simp
  qed
next
  case False
  then have "forwarded_move t w = w" by (auto simp: forwarded_move_def split: task_phase.split)
  with ok show ?thesis by simp
qed

section \<open>Finishing\<close>

lemma stop_task_ok: "world_ok w \<Longrightarrow> t < length (wd_tasks w) \<Longrightarrow> world_ok (stop_task t w)"
  unfolding stop_task_def by (rule world_task) simp_all

lemma finish_run_ok: "world_ok w \<Longrightarrow> world_ok (map_run r (finish_run i res) w)"
  by (rule world_run) (simp_all add: link_finish_run)

lemma context_ended_ok: "world_ok w \<Longrightarrow> world_ok (context_ended t e w)"
  by (simp add: context_ended_def finish_run_ok)

text \<open>The books of the emission when a callback ends: release and exit.\<close>

lemma leave_net:
  assumes ok: "net_inv (wd_signals w) (wd_tasks w) (skels w)" and t: "t < length (wd_tasks w)"
    and phase: "et_phase (wd_tasks w ! t) \<noteq> TaskAcquired" "et_phase (wd_tasks w ! t) \<noteq> TaskOver"
  shows "net_inv (wd_signals (leave_task t w)) (wd_tasks (leave_task t w)) (skels (leave_task t w))"
proof -
  let ?r = "et_run (wd_tasks w ! t)" and ?x = "(wd_tasks w ! t)\<lparr>et_phase := TaskOver\<rparr>"
  have r: "?r < length (wd_runs w)" using task_place(1) [OF ok t] by simp
  have "net_inv ((wd_signals w)[task_signal w t := map_conn (task_slot w t) (connection_release t) (wd_signals w ! task_signal w t)])
      ((wd_tasks w)[t := ?x]) ((skels w)[?r := exit_skel (et_index (wd_tasks w ! t)) (skels w ! ?r)])"
    by (rule net_leave [OF ok t phase]) (use r in \<open>simp_all add: task_signal_def task_slot_def task_run_def\<close>)
  moreover have "skel_of (exit_run i y) = exit_skel i (skel_of y)" for i and y :: "'a run"
    by (simp add: skel_exit_run exit_skel_def)
  ultimately show ?thesis
    using r by (simp add: leave_task_def release_task_def set_phase_def skels_update)
qed

lemma leave_task_ok:
  assumes ok: "world_ok w" and t: "t < length (wd_tasks w)"
    and phase: "et_phase (wd_tasks w ! t) \<noteq> TaskAcquired" "\<not> settled (et_phase (wd_tasks w ! t))"
  shows "world_ok (leave_task t w)"
proof -
  let ?x = "(wd_tasks w ! t)\<lparr>et_phase := TaskOver\<rparr>" and ?r = "et_run (wd_tasks w ! t)"
  have "links ((wd_tasks w)[t := ?x]) (wd_runs w)"
    using ok t phase by (intro links_phase) (simp_all add: world_ok_def forward_ok_def)
  then have "links ((wd_tasks w)[t := ?x]) ((wd_runs w)[?r := exit_run (et_index (wd_tasks w ! t)) (wd_runs w ! ?r)])"
    by (rule links_map_run) (rule link_exit_run)
  moreover have "et_phase (wd_tasks w ! t) \<noteq> TaskOver" using phase by (auto simp: settled_def)
  ultimately show ?thesis
    using leave_net [OF _ t phase(1)] ok
    by (simp add: world_ok_def) (simp add: leave_task_def release_task_def set_phase_def)
qed

lemma finish_task_ok:
  assumes "world_ok w" "t < length (wd_tasks w)" "et_phase (wd_tasks w ! t) \<noteq> TaskAcquired"
    "\<not> settled (et_phase (wd_tasks w ! t))"
  shows "world_ok (finish_task t res w)"
proof -
  let ?w = "map_run (et_run (wd_tasks w ! t)) (finish_run (et_index (wd_tasks w ! t)) res) (stop_task t w)"
  have "world_ok ?w" by (rule finish_run_ok [OF stop_task_ok [OF assms(1,2)]])
  then show ?thesis
    unfolding finish_task_def by (rule leave_task_ok) (use assms in \<open>simp_all add: stop_task_def\<close>)
qed

lemma finish_move_ok:
  assumes ok: "world_ok w"
  shows "world_ok (finish_move t v e w)"
  using ok finish_task_ok [OF ok, of t]
  by (auto simp: finish_move_def settled_def split: task_phase.split)

end
