(* ===== verification/Signal_Emit_Props.thy ===== *)
theory Signal_Emit_Props
  imports Signal_Emit_World
begin

text \<open>
  The invariant of every reachable world of signals, and what it says about closing, about the
  books of an emission and about forwarding.
\<close>

section \<open>Coming back from another emission\<close>

lemma complete_move_ok:
  assumes ok: "world_ok w"
  shows "world_ok (complete_move c t w)"
proof (cases "t < length (wd_tasks w)")
  case False
  let ?w = "map_run c (\<lambda>x. x\<lparr>rn_completed := t # rn_completed x\<rparr>) w"
  have "stop_task t ?w = ?w" using False by (simp add: stop_task_def map_task_def list_update_beyond)
  moreover have "world_ok ?w" by (rule world_run [OF ok]) (simp_all add: skel_of_def link_ok_def listed_def)
  ultimately show ?thesis using ok finish_run_ok by (auto simp: complete_move_def complete_forward_def Let_def)
next
  case True
  let ?w = "map_run c (\<lambda>x. x\<lparr>rn_completed := t # rn_completed x\<rparr>) w"
  have "world_ok ?w" by (rule world_run [OF ok]) (simp_all add: skel_of_def link_ok_def listed_def)
  then have "world_ok (stop_task t ?w)" using True by (intro stop_task_ok) simp_all
  then show ?thesis using ok finish_run_ok by (auto simp: complete_move_def complete_forward_def Let_def)
qed

lemma exit_move_ok:
  assumes ok: "world_ok w"
  shows "world_ok (exit_move c t w)"
proof (cases "c < length (wd_runs w) \<and> t \<in> set (em_exited (rn_emission (wd_runs w ! c))) \<and>
    t \<notin> set (rn_left (wd_runs w ! c))")
  case True
  then have c: "c < length (wd_runs w)" and exited: "t \<in> set (em_exited (rn_emission (wd_runs w ! c)))"
    and new: "t \<notin> set (rn_left (wd_runs w ! c))" by auto
  let ?f = "\<lambda>x :: 'a run. x\<lparr>rn_left := t # rn_left x\<rparr>" and ?x = "(wd_tasks w ! t)\<lparr>et_phase := TaskOver\<rparr>"
  let ?w = "map_run c ?f w" and ?r = "et_run (wd_tasks w ! t)"
  have inv: "net_inv (wd_signals w) (wd_tasks w) (skels w)" and lk: "links (wd_tasks w) (wd_runs w)"
    using ok by (simp_all add: world_ok_def)
  have left: "t < length (wd_tasks w)" "et_phase (wd_tasks w ! t) = TaskForwarded c"
    "links ((wd_tasks w)[t := ?x]) ((wd_runs w)[c := ?f (wd_runs w ! c)])"
    using links_left [OF lk c exited new, of ?x] by simp_all
  have "skel_of (?f (wd_runs w ! c)) = skel_of (wd_runs w ! c)" by (simp add: skel_of_def)
  then have skels: "skels ?w = skels w" using c by (simp add: skels_update list_update_same_conv)
  have "net_inv (wd_signals (leave_task t ?w)) (wd_tasks (leave_task t ?w)) (skels (leave_task t ?w))"
    by (rule leave_net) (use inv left skels in \<open>simp_all del: map_update\<close>)
  moreover have "links ((wd_tasks w)[t := ?x]) ((wd_runs ?w)[?r := exit_run (et_index (wd_tasks w ! t)) (wd_runs ?w ! ?r)])"
    using left(3) by (intro links_map_run) (simp_all add: link_exit_run)
  ultimately have "world_ok (leave_task t ?w)"
    by (simp add: world_ok_def) (simp add: leave_task_def release_task_def set_phase_def)
  then show ?thesis using True by (simp add: exit_move_def exit_forward_def)
next
  case False
  then have "exit_move c t w = w" unfolding exit_move_def by (rule if_not_P)
  with ok show ?thesis by simp
qed

section \<open>Every reachable world\<close>

lemma free_slot:
  assumes "world_ok w" "s < length (wd_signals w)"
  shows "\<not> task_on (wd_tasks w) (skels w) s (length (sg_slots (wd_signals w ! s))) t"
proof
  assume "task_on (wd_tasks w) (skels w) s (length (sg_slots (wd_signals w ! s))) t"
  then have t: "t < length (wd_tasks w)" "sk_signal (skels w ! et_run (wd_tasks w ! t)) = s"
    "sk_entries (skels w ! et_run (wd_tasks w ! t)) ! et_index (wd_tasks w ! t) = length (sg_slots (wd_signals w ! s))"
    by (simp_all add: task_on_def)
  have "net_inv (wd_signals w) (wd_tasks w) (skels w)" using assms by (simp add: world_ok_def)
  from task_place(3) [OF this t(1)] t show False by simp
qed

lemma slot_move_ok:
  assumes ok: "world_ok w"
    and f: "\<And>g. signal_ok (wd_tasks w) (skels w) s g \<Longrightarrow> k < length (sg_slots g) \<Longrightarrow>
      signal_ok (wd_tasks w) (skels w) s (f g) \<and> length (sg_slots (f g)) = length (sg_slots g) \<and> sg_jobs (f g) = sg_jobs g"
  shows "world_ok (on_slot s k f w)"
  unfolding on_slot_def by (rule world_on_signal [OF ok]) (simp add: f)

lemma signal_move_ok:
  assumes ok: "world_ok w"
  shows "world_ok (signal_move w x)"
proof (cases x)
  case (SigConnect s kind policy)
  have "world_ok (on_signal s (\<lambda>g. case connect_slot kind policy g of Inl e \<Rightarrow> g | Inr g1 \<Rightarrow> g1) w)"
    by (rule world_on_signal [OF ok]) (use connect_ok free_slot [OF ok] in \<open>auto split: sum.split\<close>)
  with SigConnect show ?thesis by simp
next
  case (SigDisconnect s k)
  have "world_ok (on_slot s k (disconnect_slot k) w)"
    by (rule slot_move_ok [OF ok]) (simp add: disconnect_ok)
  with SigDisconnect show ?thesis by simp
next
  case (SigCloseConnection s k)
  have "world_ok (on_slot s k (close_slot k) w)" by (rule slot_move_ok [OF ok]) (simp add: close_slot_ok)
  with SigCloseConnection show ?thesis by simp
next
  case (SigQueue s q)
  have "world_ok (on_signal s (\<lambda>g. if queue_allowed w g q then g\<lparr>sg_queue := queue_move (sg_queue g) q\<rparr> else g) w)"
    by (rule world_on_signal [OF ok]) (simp add: queue_step_ok)
  with SigQueue show ?thesis by simp
next
  case (SigBeginClose s)
  have "world_ok (on_signal s begin_close_signal w)"
    by (rule world_on_signal [OF ok]) (simp add: begin_close_ok, simp add: begin_close_signal_def)
  with SigBeginClose show ?thesis by simp
next
  case (SigCloseNext s)
  have "world_ok (on_signal s close_next w)"
    by (rule world_on_signal [OF ok]) (simp add: close_next_ok)
  with SigCloseNext show ?thesis by simp
next
  case (SigJoin s)
  have "world_ok (on_signal s join_done w)"
    by (rule world_on_signal [OF ok]) (simp add: join_done_ok, simp add: join_done_def)
  with SigJoin show ?thesis by simp
qed (use ok in \<open>simp_all add: emit_move_ok admit_move_ok context_ended_ok run_move_ok forwarded_move_ok
    finish_move_ok complete_move_ok exit_move_ok\<close>)

lemma new_signal_ok:
  assumes "new_signal name opts = Some g"
  shows "signal_ok [] [] s g"
proof -
  obtain q o1 where q: "new_queue o1 = Inr q" "g = \<lparr>sg_single = eo_single opts, sg_required = eo_required opts,
      sg_slots = [], sg_snapshot = [], sg_closed = False, sg_stage = StageOpen, sg_done = False,
      sg_queue = q, sg_jobs = []\<rparr>"
    using assms by (auto simp: new_signal_def split: sum.splits if_splits)
  from q(1) have "q_admitted q = []" "q_finished q = []" by (auto simp: new_queue_def split: if_splits)
  with new_queue_inv [OF q(1)] show ?thesis by (simp add: q signal_ok_def queue_ok_def stage_ok_def)
qed

text \<open>Worlds start from signals that were constructed, with no emission.\<close>

definition start_world :: "'r \<Rightarrow> (string \<times> emit_options) list \<Rightarrow> 'r world" where
  "start_world zero ds = new_world zero (List.map_filter (\<lambda>(n, opts). new_signal n opts) ds)"

lemma start_world_ok: "world_ok (start_world zero ds)"
proof -
  let ?S = "List.map_filter (\<lambda>(n, opts). new_signal n opts) ds"
  have "signal_ok [] [] s (?S ! s)" if "s < length ?S" for s
  proof -
    have "?S ! s \<in> set ?S" using that by (rule nth_mem)
    then show ?thesis using new_signal_ok by (force simp: map_filter_def)
  qed
  then show ?thesis
    by (simp add: start_world_def new_world_def world_ok_def links_def net_inv_def admit_inv_def exits_inv_def
        runs_ok_def jobs_ok_def)
qed

interpretation signal_machine: guarded_machine "start_world zero ds" signal_move world_ok for zero ds
  by unfold_locales (rule start_world_ok, erule signal_move_ok)

lemma reachable_net:
  assumes "w = foldl signal_move (start_world zero ds) steps"
  shows "net_inv (wd_signals w) (wd_tasks w) (skels w)" "links (wd_tasks w) (wd_runs w)"
  using signal_machine.reachable_inv [of zero ds steps] assms by (simp_all add: world_ok_def)

section \<open>Closing, accounting and forwarding\<close>

lemma task_conn:
  assumes net: "net_inv (wd_signals w) (wd_tasks w) (skels w)" and t: "t < length (wd_tasks w)"
  shows "task_signal w t < length (wd_signals w)" "task_slot w t < length (sg_slots (wd_signals w ! task_signal w t))"
    "t \<in> set (cn_tasks (slot_conn (wd_signals w ! task_signal w t) (task_slot w t))) \<longleftrightarrow>
       et_phase (wd_tasks w ! t) \<noteq> TaskOver"
    "connection_inv (slot_conn (wd_signals w ! task_signal w t) (task_slot w t))"
proof -
  have r: "et_run (wd_tasks w ! t) < length (wd_runs w)" using task_place(1) [OF net t] by simp
  then show s: "task_signal w t < length (wd_signals w)"
    using task_place(2) [OF net t] by (simp add: task_signal_def task_run_def)
  from r show k: "task_slot w t < length (sg_slots (wd_signals w ! task_signal w t))"
    using task_place(3) [OF net t] by (simp add: task_signal_def task_run_def task_slot_def)
  have conn: "conn_ok (wd_tasks w) (skels w) (task_signal w t) (task_slot w t)
      (slot_conn (wd_signals w ! task_signal w t) (task_slot w t))"
    using net_invD(5) [OF net s] k by (simp add: signal_ok_def)
  have "task_on (wd_tasks w) (skels w) (task_signal w t) (task_slot w t) t \<longleftrightarrow> et_phase (wd_tasks w ! t) \<noteq> TaskOver"
    using t r by (simp add: task_on_def task_signal_def task_slot_def task_run_def)
  with conn show "t \<in> set (cn_tasks (slot_conn (wd_signals w ! task_signal w t) (task_slot w t))) \<longleftrightarrow>
       et_phase (wd_tasks w ! t) \<noteq> TaskOver"
    "connection_inv (slot_conn (wd_signals w ! task_signal w t) (task_slot w t))"
    by (simp_all add: conn_ok_def)
qed

text \<open>Two small runs: an emission that is handled, and one that is forwarded to a second signal.\<close>

definition plain_options :: "bool \<Rightarrow> emit_options" where
  "plain_options single = \<lparr>eo_capacity = 1, eo_concurrency = 1, eo_timeout = 1, eo_required = True, eo_single = single\<rparr>"

definition handled_steps :: "int signal_step list" where
  "handled_steps = [SigConnect 0 HandlerSlot Drain, SigEmit 0 True None None, SigAdmit 0 None None, SigAdmit 0 None None,
     SigQueue 0 StepTake, SigRun 0 ForwardNone, SigFinish 0 7 None,
     SigQueue 0 (StepRelease \<lparr>jb_id = 0, jb_task = \<lparr>tk_has_run = True, tk_shutdown = Drain, tk_key = None\<rparr>\<rparr>),
     SigQueue 0 StepTake, SigBeginClose 0, SigCloseNext 0, SigCloseNext 0, SigQueue 0 (StepFinished []), SigJoin 0]"

definition forwarded_steps :: "int signal_step list" where
  "forwarded_steps = [SigConnect 0 ForwardSlot Drain, SigConnect 1 HandlerSlot Drain, SigEmit 0 True None None,
     SigAdmit 0 None None, SigAdmit 0 None None, SigQueue 0 StepTake, SigRun 0 (ForwardTo 1 True None),
     SigAdmit 1 None None, SigAdmit 1 None None, SigForwarded 0]"

definition handled_world :: "int world" where
  "handled_world = foldl signal_move (start_world 0 [([], plain_options False)]) handled_steps"

definition forwarded_world :: "int world" where
  "forwarded_world = foldl signal_move (start_world 0 [([], plain_options False), ([], plain_options True)]) forwarded_steps"

text \<open>
  C20: Once a signal is done, every callback of a receiver that was connected when closing began
  has actually exited, forwarded work included, and its connection holds nothing.  A callback of
  a receiver removed before is out of the queue as well: it is over, or forwarded and still
  waiting for the other signal, or its submission is about to be refused.
\<close>
theorem closed_signal_joined:
  assumes w: "w = foldl signal_move (start_world zero ds) steps" and t: "t < length (wd_tasks w)"
    and over: "sg_done (wd_signals w ! task_signal w t)"
  shows "(task_slot w t \<in> set (sg_snapshot (wd_signals w ! task_signal w t)) \<longrightarrow>
      et_phase (wd_tasks w ! t) = TaskOver \<and>
      cn_tasks (slot_conn (wd_signals w ! task_signal w t) (task_slot w t)) = []) \<and>
    (et_phase (wd_tasks w ! t) = TaskOver \<or> et_phase (wd_tasks w ! t) = TaskAcquired \<or>
     (\<exists>c. et_phase (wd_tasks w ! t) = TaskForwarded c))"
proof -
  note net = reachable_net(1) [OF w]
  note C = task_conn [OF net t]
  have stage: "stage_ok (wd_tasks w) (wd_signals w ! task_signal w t)"
    using net_invD(5) [OF net C(1)] by (simp add: signal_ok_def)
  have "cn_tasks (slot_conn (wd_signals w ! task_signal w t) (task_slot w t)) = []"
    if "task_slot w t \<in> set (sg_snapshot (wd_signals w ! task_signal w t))"
    using stage over that C(4) by (auto simp: stage_ok_def connection_inv_def)
  moreover have "settled (et_phase (wd_tasks w ! t)) \<or> et_phase (wd_tasks w ! t) = TaskAcquired"
  proof (rule disjCI)
    assume "et_phase (wd_tasks w ! t) \<noteq> TaskAcquired"
    moreover have "sk_signal (skels w ! et_run (wd_tasks w ! t)) = task_signal w t"
      using task_place(1) [OF net t] by (simp add: task_signal_def task_run_def)
    ultimately have "et_phase (wd_tasks w ! t) \<noteq> TaskOver \<Longrightarrow> t \<in> set (sg_jobs (wd_signals w ! task_signal w t))"
      using net_invD(4) [OF net] t by (metis jobs_ok_def)
    then show "settled (et_phase (wd_tasks w ! t))"
      using stage over by (cases "et_phase (wd_tasks w ! t) = TaskOver") (auto simp: stage_ok_def settled_def)
  qed
  ultimately show ?thesis using C(3) by (auto simp: settled_def)
qed

theorem closed_signal_joined_witness:
  "sg_done (wd_signals handled_world ! 0) \<and> et_phase (wd_tasks handled_world ! 0) = TaskOver"
proof -
  have facts: "0 < length (wd_tasks handled_world)" "sg_done (wd_signals handled_world ! task_signal handled_world 0)"
    "task_slot handled_world 0 \<in> set (sg_snapshot (wd_signals handled_world ! task_signal handled_world 0))"
    "sg_done (wd_signals handled_world ! 0)"
    by code_simp+
  from closed_signal_joined [OF handled_world_def facts(1,2)] facts(3,4) show ?thesis by blast
qed

text \<open>
  A receiver that was removed before closing is not in the snapshot that closing joins: its
  callback can still wait for the other signal when the signal is done.
\<close>

lemma forwarded_outlives_done:
  "let w = foldl signal_move forwarded_world [SigDisconnect 0 0,
        SigQueue 0 (StepRelease \<lparr>jb_id = 0, jb_task = \<lparr>tk_has_run = True, tk_shutdown = Drain, tk_key = None\<rparr>\<rparr>),
        SigQueue 0 StepTake, SigBeginClose 0, SigCloseNext 0, SigJoin 0]
   in sg_done (wd_signals w ! 0) \<and> et_phase (wd_tasks w ! 0) = TaskForwarded 1"
  by code_simp

text \<open>
  The books of an emission.  Each receiver exits exactly once, whether its callback ended, was
  cancelled in the queue, came back from another signal or was never admitted; the counter of
  outstanding work is the number of receivers that have not exited, and never negative.
\<close>
lemma emission_exits_once:
  assumes w: "w = foldl signal_move (start_world zero ds) steps" and r: "r < length (wd_runs w)"
  shows "distinct (rn_exits (wd_runs w ! r)) \<and> set (rn_exits (wd_runs w ! r)) \<subseteq> {..<length (rn_entries (wd_runs w ! r))} \<and>
    em_work (rn_emission (wd_runs w ! r)) =
      int (length (rn_entries (wd_runs w ! r))) - int (length (rn_exits (wd_runs w ! r))) \<and>
    0 \<le> em_work (rn_emission (wd_runs w ! r))"
proof -
  note net = reachable_net(1) [OF w]
  have E: "exits_at (wd_tasks w) r (skels w ! r)" using net r by (simp add: net_inv_def exits_inv_alt)
  then have "\<And>i. i \<in> set (rn_exits (wd_runs w ! r)) \<Longrightarrow> i < length (rn_entries (wd_runs w ! r))"
    using r unfolding exits_at_def by (metis nth_map skel_of_simps(2) skel_of_simps(5))
  then have "set (rn_exits (wd_runs w ! r)) \<subseteq> {..<length (rn_entries (wd_runs w ! r))}" by blast
  with E r work_nonneg [OF net, of r] show ?thesis by (simp add: exits_at_def)
qed

lemma emission_exits_once_witness:
  "distinct (rn_exits (wd_runs handled_world ! 0)) \<and> em_work (rn_emission (wd_runs handled_world ! 0)) = 0"
proof -
  have r: "0 < length (wd_runs handled_world)" by code_simp
  have "length (rn_entries (wd_runs handled_world ! 0)) = length (rn_exits (wd_runs handled_world ! 0))" by code_simp
  with emission_exits_once [OF handled_world_def r] show ?thesis by simp
qed

lemma exited_all_over:
  assumes net: "net_inv (wd_signals w) (wd_tasks w) (skels w)" and u: "u < length (wd_tasks w)"
    and work: "em_work (rn_emission (task_run w u)) \<le> 0"
  shows "et_phase (wd_tasks w ! u) = TaskOver"
proof -
  let ?r = "et_run (wd_tasks w ! u)" and ?i = "et_index (wd_tasks w ! u)"
  let ?k = "skels w ! ?r"
  note D = admit_invD [OF net_invD(1) [OF net] u]
  have r: "?r < length (wd_runs w)" using D(1) by simp
  have E: "exits_at (wd_tasks w) ?r ?k" using net r by (simp add: net_inv_def exits_inv_alt)
  have sub: "i < length (sk_entries ?k)" if "i \<in> set (sk_exits ?k)" for i
    using E that unfolding exits_at_def by metis
  have "length (sk_entries ?k) \<le> card (set (sk_exits ?k))"
    using E work r by (simp add: exits_at_def distinct_card task_run_def)
  then have "set (sk_exits ?k) = {..<length (sk_entries ?k)}"
    using sub by (intro card_subset_eq) (auto intro: antisym card_mono [of "{..<length (sk_entries ?k)}", simplified] simp: subset_iff)
  then have "?i \<in> set (sk_exits ?k)" using D(2) by simp
  then have "failed_skeleton ?k \<and> sk_next ?k \<le> ?i \<or> (\<exists>t. entry_task (wd_tasks w) ?r ?i t \<and> et_phase (wd_tasks w ! t) = TaskOver)"
    using E unfolding exits_at_def by blast
  then show ?thesis
    using D(3,4) by (auto simp: failed_skeleton_def task_admitted_def)
qed

text \<open>
  C21: Forwarding keeps upstream ownership.  While a callback waits for the emission it forwarded
  to, its connection holds it; it is registered there, and it is given back only after every
  callback of that emission has exited.
\<close>
theorem forwarding_keeps_ownership:
  assumes w: "w = foldl signal_move (start_world zero ds) steps" and t: "t < length (wd_tasks w)"
    and c: "c < length (wd_runs w)"
  shows "(et_phase (wd_tasks w ! t) = TaskForwarded c \<longrightarrow>
      t \<in> set (cn_tasks (slot_conn (wd_signals w ! task_signal w t) (task_slot w t))) \<and>
      t \<in> set (em_exit_callbacks (rn_emission (wd_runs w ! c))) \<union> set (em_exited (rn_emission (wd_runs w ! c)))) \<and>
    (t \<in> set (em_exited (rn_emission (wd_runs w ! c))) \<longrightarrow>
      (\<forall>u < length (wd_tasks w). et_run (wd_tasks w ! u) = c \<longrightarrow> et_phase (wd_tasks w ! u) = TaskOver))"
proof -
  note net = reachable_net(1) [OF w] and lk = reachable_net(2) [OF w]
  have "forward_ok (wd_runs w) t (et_phase (wd_tasks w ! t))" using lk t by (simp add: links_def)
  moreover have "link_ok (wd_tasks w) c (wd_runs w ! c)" using lk c by (simp add: links_def)
  then have "em_work (rn_emission (wd_runs w ! c)) \<le> 0" if "t \<in> set (em_exited (rn_emission (wd_runs w ! c)))"
    using that by (auto simp: link_ok_def)
  ultimately show ?thesis
    using task_conn(3) [OF net t] exited_all_over [OF net] by (auto simp: forward_ok_def listed_def task_run_def)
qed

theorem forwarding_keeps_ownership_witness:
  "0 \<in> set (cn_tasks (slot_conn (wd_signals forwarded_world ! task_signal forwarded_world 0) (task_slot forwarded_world 0)))"
proof -
  have facts: "0 < length (wd_tasks forwarded_world)" "1 < length (wd_runs forwarded_world)"
    "et_phase (wd_tasks forwarded_world ! 0) = TaskForwarded 1"
    by code_simp+
  from forwarding_keeps_ownership [OF forwarded_world_def facts(1,2)] facts(3) show ?thesis by blast
qed

end
