(* ===== verification/Session_Admission.thy ===== *)
theory Session_Admission
  imports Go_Order Elbot_Prelude "HOL-Library.AList"
begin

text \<open>
  Scopes and the admission protocol of sessions (\<open>internal/session/share/session.go\<close>,
  \<open>internal/session/binding/coordination.go\<close>): an operation enters the gate of its scope and
  then the gates of its sessions, in one global order, and leaves them in reverse.

  A request context is modelled by the chain of leases it carries, innermost first; an
  admission call is a number, its index in \<open>am_admissions\<close>.  Each region under the manager's
  mutex, and each send to or receive from a gate's token channel, is one step; a gate is named
  by its key, as the map keeps a gate as long as anybody refers to it.
\<close>

section \<open>Scopes\<close>

record actor_identity =
  ac_platform :: string
  ac_id :: string

record scope_key =
  sk_task_type :: string
  sk_task_id :: string
  sk_owner :: actor_identity
  sk_platform :: string
  sk_chat_type :: string
  sk_chat_id :: string

record session_scope =
  ss_task_type :: string
  ss_task_id :: string
  ss_chat_type :: string
  ss_owner :: actor_identity
  ss_platform :: string
  ss_chat_id :: string
  ss_is_cli :: bool

definition key_of_scope :: "session_scope \<Rightarrow> scope_key" where
  "key_of_scope s = \<lparr>sk_task_type = ss_task_type s, sk_task_id = ss_task_id s,
     sk_owner = ss_owner s, sk_platform = ss_platform s, sk_chat_type = ss_chat_type s,
     sk_chat_id = ss_chat_id s\<rparr>"

text \<open>The stored facts of a session that access depends on (\<open>CanAccess\<close>, \<open>IsBackground\<close>).\<close>

record session_row =
  row_owner :: actor_identity
  row_platform :: string
  row_mode_background :: bool
  row_chat_type :: string
  row_chat_id :: string

definition is_background :: "session_row option \<Rightarrow> bool" where
  "is_background row = (case row of None \<Rightarrow> False | Some r \<Rightarrow> row_mode_background r)"

definition chat_private :: string where "chat_private = ''private''"

definition can_access :: "session_scope \<Rightarrow> session_row \<Rightarrow> bool" where
  "can_access s r =
     (if ss_is_cli s then True
      else if row_owner r \<noteq> ss_owner s \<or> row_platform r \<noteq> ss_platform s then False
      else if is_background (Some r) then ss_chat_type s = chat_private
      else row_chat_type r = ss_chat_type s \<and> row_chat_id r = ss_chat_id s)"

section \<open>Admission keys\<close>

record admission_key =
  ak_kind :: int
  ak_scope :: scope_key
  ak_name :: string

definition empty_scope_key :: scope_key where
  "empty_scope_key = \<lparr>sk_task_type = [], sk_task_id = [],
     sk_owner = \<lparr>ac_platform = [], ac_id = []\<rparr>, sk_platform = [], sk_chat_type = [],
     sk_chat_id = []\<rparr>"

definition key_strings :: "admission_key \<Rightarrow> string list" where
  "key_strings a =
     [ac_platform (sk_owner (ak_scope a)), ac_id (sk_owner (ak_scope a)), sk_platform (ak_scope a),
      sk_chat_type (ak_scope a), sk_chat_id (ak_scope a), sk_task_type (ak_scope a),
      sk_task_id (ak_scope a), ak_name a]"

definition compare_admission_key :: "admission_key \<Rightarrow> admission_key \<Rightarrow> int" where
  "compare_admission_key a b =
     (if compare_int (ak_kind a) (ak_kind b) \<noteq> 0 then compare_int (ak_kind a) (ak_kind b)
      else compare_strings (key_strings a) (key_strings b))"

lemma key_strings_inj: "key_strings a = key_strings b \<Longrightarrow> ak_kind a = ak_kind b \<Longrightarrow> a = b"
proof -
  assume k: "key_strings a = key_strings b" and "ak_kind a = ak_kind b"
  from k have "sk_owner (ak_scope a) = sk_owner (ak_scope b)"
    by (intro actor_identity.equality) (simp_all add: key_strings_def)
  with k have "ak_scope a = ak_scope b"
    by (intro scope_key.equality) (simp_all add: key_strings_def)
  with k \<open>ak_kind a = ak_kind b\<close> show "a = b"
    by (intro admission_key.equality) (simp_all add: key_strings_def)
qed

interpretation key_order: comparison compare_admission_key
proof
  fix a b c :: admission_key
  show "compare_admission_key a b = 0 \<longleftrightarrow> a = b"
    using key_strings_inj [of a b]
    by (auto simp: compare_admission_key_def int_order.cmp_eq strings_order.cmp_eq)
  show "compare_admission_key b a = - compare_admission_key a b"
    by (simp add: compare_admission_key_def int_order.cmp_swap [of "ak_kind a" "ak_kind b"]
        strings_order.cmp_swap [of "key_strings a" "key_strings b"])
  show "compare_admission_key a b < 0 \<Longrightarrow> compare_admission_key b c < 0 \<Longrightarrow> compare_admission_key a c < 0"
    using strings_order.cmp_trans [of "key_strings a" "key_strings b" "key_strings c"]
    by (auto simp: compare_admission_key_def compare_int_def split: if_splits)
qed

definition scope_admission_key :: "session_scope \<Rightarrow> admission_key" where
  "scope_admission_key s = \<lparr>ak_kind = 0, ak_scope = key_of_scope s, ak_name = []\<rparr>"

definition session_admission_keys :: "string list \<Rightarrow> admission_key list" where
  "session_admission_keys ids =
     stable_sort (\<lambda>a b. compare_admission_key a b < 0)
       (map (\<lambda>i. \<lparr>ak_kind = 1, ak_scope = empty_scope_key, ak_name = i\<rparr>) (filter (\<lambda>i. i \<noteq> []) ids))"

section \<open>State\<close>

record gate =
  gt_token :: bool
  gt_refs :: int

datatype admission_phase = Acquiring | Waiting | Held | Releasing | Gone

text \<open>
  \<open>ad_chain\<close>: the leases of the context the call came with; \<open>ad_wanted\<close>: the keys it takes
  itself; \<open>ad_got\<close>: how many of them it has.
\<close>

record admission =
  ad_chain :: "nat list"
  ad_wanted :: "admission_key list"
  ad_got :: nat
  ad_phase :: admission_phase

record admission_manager =
  am_gates :: "(admission_key \<times> gate) list"
  am_admissions :: "admission list"
  am_active :: int
  am_closed :: bool
  am_stop_closed :: bool
  am_idle_closed :: bool
  am_panicked :: bool

definition new_admission_manager :: admission_manager where
  "new_admission_manager = \<lparr>am_gates = [], am_admissions = [], am_active = 0, am_closed = False,
     am_stop_closed = False, am_idle_closed = False, am_panicked = False\<rparr>"

datatype admission_error =
    AdmissionContext go_error | LockOrder admission_key admission_key | AdmissionClosed

section \<open>Operations\<close>

definition lease_live :: "admission_manager \<Rightarrow> nat \<Rightarrow> bool" where
  "lease_live m i \<longleftrightarrow> i < length (am_admissions m) \<and> ad_phase (am_admissions m ! i) = Held"

definition held_keys :: "admission_manager \<Rightarrow> nat list \<Rightarrow> admission_key list" where
  "held_keys m chain = concat (map (\<lambda>i. if lease_live m i then ad_wanted (am_admissions m ! i) else []) chain)"

text \<open>The loop over the requested keys: reentry is skipped, a key below a held one refused.\<close>

fun plan_keys :: "admission_key list \<Rightarrow> admission_key list \<Rightarrow> admission_error + admission_key list" where
  "plan_keys held [] = Inr []"
| "plan_keys held (k # ks) =
     (if k \<in> set held then plan_keys held ks
      else case find (\<lambda>old. compare_admission_key k old < 0) held of
          Some old \<Rightarrow> Inl (LockOrder k old)
        | None \<Rightarrow>
            (case plan_keys (held @ [k]) ks of
               Inl e \<Rightarrow> Inl e
             | Inr wanted \<Rightarrow> Inr (k # wanted)))"

definition set_admission :: "nat \<Rightarrow> admission \<Rightarrow> admission_manager \<Rightarrow> admission_manager" where
  "set_admission i a m = m\<lparr>am_admissions := (am_admissions m)[i := a]\<rparr>"

text \<open>\<open>enterKeys\<close> up to the first gate; \<open>ctx_err\<close> is \<open>ctx.Err()\<close>.\<close>

definition enter_keys ::
  "nat list \<Rightarrow> admission_key list \<Rightarrow> go_error option \<Rightarrow> admission_manager \<Rightarrow>
     admission_manager \<times> (admission_error + nat)" where
  "enter_keys chain keys ctx_err m =
     (case ctx_err of
        Some e \<Rightarrow> (m, Inl (AdmissionContext e))
      | None \<Rightarrow>
          (case plan_keys (held_keys m chain) keys of
             Inl e \<Rightarrow> (m, Inl e)
           | Inr wanted \<Rightarrow>
               if am_closed m then (m, Inl AdmissionClosed)
               else (m\<lparr>am_active := am_active m + 1, am_admissions := am_admissions m @
                       [\<lparr>ad_chain = chain, ad_wanted = wanted, ad_got = 0, ad_phase = Acquiring\<rparr>]\<rparr>,
                     Inr (length (am_admissions m)))))"

definition gate_of :: "admission_manager \<Rightarrow> admission_key \<Rightarrow> gate option" where
  "gate_of m k = map_of (am_gates m) k"

definition put_gate :: "admission_key \<Rightarrow> gate \<Rightarrow> admission_manager \<Rightarrow> admission_manager" where
  "put_gate k g m = m\<lparr>am_gates := AList.update k g (am_gates m)\<rparr>"

text \<open>Referring to the next gate, created if absent.\<close>

definition refer_gate :: "admission_key \<Rightarrow> admission_manager \<Rightarrow> admission_manager" where
  "refer_gate k m =
     (let g = (case gate_of m k of None \<Rightarrow> \<lparr>gt_token = False, gt_refs = 0\<rparr> | Some g \<Rightarrow> g)
      in put_gate k (g\<lparr>gt_refs := gt_refs g + 1\<rparr>) m)"

text \<open>
  \<open>releaseGate\<close>.  Receiving from an empty token channel would block for ever under the
  mutex; the model records it with the panics.
\<close>

definition release_gate :: "admission_key \<Rightarrow> bool \<Rightarrow> admission_manager \<Rightarrow> admission_manager" where
  "release_gate k acquired m =
     (case gate_of m k of
        None \<Rightarrow> m\<lparr>am_panicked := True\<rparr>
      | Some g \<Rightarrow>
          if acquired \<and> \<not> gt_token g then m\<lparr>am_panicked := True\<rparr>
          else let g1 = g\<lparr>gt_token := (gt_token g \<and> \<not> acquired), gt_refs := gt_refs g - 1\<rparr>
               in if gt_refs g1 = 0 then m\<lparr>am_gates := AList.delete k (am_gates m)\<rparr>
                  else put_gate k g1 m)"

definition close_idle :: "admission_manager \<Rightarrow> admission_manager" where
  "close_idle m = (if am_idle_closed m then m\<lparr>am_panicked := True\<rparr> else m\<lparr>am_idle_closed := True\<rparr>)"

definition finish_admission :: "admission_manager \<Rightarrow> admission_manager" where
  "finish_admission m =
     (let m1 = m\<lparr>am_active := am_active m - 1\<rparr>
      in if am_closed m1 \<and> am_active m1 = 0 then close_idle m1 else m1)"

text \<open>
  The steps of one admission.  \<open>advance\<close>: refer to the next gate, or, with all gates taken,
  the final check of context and closing.  \<open>take_token\<close>: the select takes the token.
  \<open>give_up\<close>: the select sees the context or the stop channel end.  \<open>leave\<close>: the release
  function, once.  \<open>release_next\<close>: one gate of the reverse loop, then \<open>finishAdmission\<close>.
\<close>

definition advance :: "nat \<Rightarrow> go_error option \<Rightarrow> admission_manager \<Rightarrow> admission_manager" where
  "advance i ctx_err m =
     (let a = am_admissions m ! i in
      if ad_got a < length (ad_wanted a)
      then set_admission i (a\<lparr>ad_phase := Waiting\<rparr>) (refer_gate (ad_wanted a ! ad_got a) m)
      else if ctx_err \<noteq> None \<or> am_closed m then set_admission i (a\<lparr>ad_phase := Releasing\<rparr>) m
      else set_admission i (a\<lparr>ad_phase := Held\<rparr>) m)"

definition token_free :: "admission_manager \<Rightarrow> admission_key \<Rightarrow> bool" where
  "token_free m k = (case gate_of m k of None \<Rightarrow> True | Some g \<Rightarrow> \<not> gt_token g)"

definition take_token :: "nat \<Rightarrow> admission_manager \<Rightarrow> admission_manager" where
  "take_token i m =
     (let a = am_admissions m ! i; k = ad_wanted a ! ad_got a in
      case gate_of m k of
        None \<Rightarrow> m\<lparr>am_panicked := True\<rparr>
      | Some g \<Rightarrow>
          if gt_token g then m
          else set_admission i (a\<lparr>ad_phase := Acquiring, ad_got := ad_got a + 1\<rparr>)
                 (put_gate k (g\<lparr>gt_token := True\<rparr>) m))"

definition give_up :: "nat \<Rightarrow> admission_manager \<Rightarrow> admission_manager" where
  "give_up i m =
     (let a = am_admissions m ! i in
      set_admission i (a\<lparr>ad_phase := Releasing\<rparr>) (release_gate (ad_wanted a ! ad_got a) False m))"

definition leave :: "nat \<Rightarrow> admission_manager \<Rightarrow> admission_manager" where
  "leave i m = set_admission i ((am_admissions m ! i)\<lparr>ad_phase := Releasing\<rparr>) m"

definition release_next :: "nat \<Rightarrow> admission_manager \<Rightarrow> admission_manager" where
  "release_next i m =
     (let a = am_admissions m ! i in
      if ad_got a = 0 then set_admission i (a\<lparr>ad_phase := Gone\<rparr>) (finish_admission m)
      else set_admission i (a\<lparr>ad_got := ad_got a - 1\<rparr>)
             (release_gate (ad_wanted a ! (ad_got a - 1)) True m))"

definition begin_close_admission :: "admission_manager \<Rightarrow> admission_manager" where
  "begin_close_admission m =
     (if am_closed m then m
      else let m1 = m\<lparr>am_closed := True, am_stop_closed := True\<rparr>
           in if am_active m1 = 0 then close_idle m1 else m1)"

datatype admission_step =
    EnterKeys "nat list" "admission_key list" "go_error option"
  | Advance nat "go_error option"
  | TakeToken nat
  | GiveUp nat "go_error option"
  | Leave nat
  | ReleaseNext nat
  | BeginCloseAdmission

definition in_phase :: "admission_manager \<Rightarrow> nat \<Rightarrow> admission_phase \<Rightarrow> bool" where
  "in_phase m i ph \<longleftrightarrow> i < length (am_admissions m) \<and> ad_phase (am_admissions m ! i) = ph"

text \<open>
  A context carries leases that were handed out: the newest one was held at some time, and
  the rest is the chain of the context it was made from.
\<close>

definition valid_chain :: "admission_manager \<Rightarrow> nat list \<Rightarrow> bool" where
  "valid_chain m chain = (case chain of
      [] \<Rightarrow> True
    | i # rest \<Rightarrow> i < length (am_admissions m) \<and> rest = ad_chain (am_admissions m ! i) \<and>
        ad_phase (am_admissions m ! i) \<notin> {Acquiring, Waiting})"

fun admission_move :: "admission_manager \<Rightarrow> admission_step \<Rightarrow> admission_manager" where
  "admission_move m (EnterKeys chain keys e) =
     (if valid_chain m chain then fst (enter_keys chain keys e m) else m)"
| "admission_move m (Advance i e) = (if in_phase m i Acquiring then advance i e m else m)"
| "admission_move m (TakeToken i) = (if in_phase m i Waiting then take_token i m else m)"
| "admission_move m (GiveUp i e) =
     (if in_phase m i Waiting \<and> (e \<noteq> None \<or> am_stop_closed m) then give_up i m else m)"
| "admission_move m (Leave i) = (if in_phase m i Held then leave i m else m)"
| "admission_move m (ReleaseNext i) = (if in_phase m i Releasing then release_next i m else m)"
| "admission_move m BeginCloseAdmission = begin_close_admission m"

text \<open>The three entry points in terms of \<open>enterKeys\<close>.\<close>

definition enter_scope_keys :: "session_scope \<Rightarrow> admission_key list" where
  "enter_scope_keys s = [scope_admission_key s]"

definition activation_sessions :: "string list \<Rightarrow> string option \<Rightarrow> string list" where
  "activation_sessions targets current = targets @ (case current of None \<Rightarrow> [] | Some i \<Rightarrow> [i])"

end
