(* ===== verification/Session_Admission_Laws.thy ===== *)
theory Session_Admission_Laws
  imports Session_Admission
begin

text \<open>
  The admission protocol is safe and cannot deadlock: every gate's token and reference count
  agree with the admissions that hold or await it, keys are taken in ascending order along
  every chain of leases, and so some admission can always proceed.
\<close>

section \<open>Counting holders\<close>

definition ad_holds :: "admission \<Rightarrow> admission_key list" where
  "ad_holds a = take (ad_got a) (ad_wanted a)"

definition ad_awaits :: "admission \<Rightarrow> admission_key list" where
  "ad_awaits a = (if ad_phase a = Waiting then [ad_wanted a ! ad_got a] else [])"

definition tally :: "(admission \<Rightarrow> admission_key list) \<Rightarrow> admission list \<Rightarrow> admission_key multiset" where
  "tally f as = sum_list (map (\<lambda>a. mset (f a)) as)"

lemma tally_update:
  "i < length as \<Longrightarrow> tally f (as[i := a]) + mset (f (as ! i)) = tally f as + mset (f a)"
proof (induction as arbitrary: i)
  case (Cons x as)
  then show ?case by (cases i) (auto simp: tally_def ac_simps)
qed (simp add: tally_def)

lemma tally_snoc [simp]: "tally f (as @ [a]) = tally f as + mset (f a)"
  by (simp add: tally_def)

lemma tally_member: "i < length as \<Longrightarrow> k \<in> set (f (as ! i)) \<Longrightarrow> k \<in># tally f as"
proof (induction as arbitrary: i)
  case (Cons x as)
  then show ?case by (cases i) (auto simp: tally_def)
qed simp

lemma tally_mem_ex: "k \<in># tally f as \<Longrightarrow> \<exists>i < length as. k \<in> set (f (as ! i))"
proof (induction as)
  case (Cons x as)
  then have "k \<in> set (f x) \<or> k \<in># tally f as" by (auto simp: tally_def)
  then show ?case
  proof
    assume "k \<in> set (f x)" then show ?thesis by (intro exI [of _ 0]) simp
  next
    assume "k \<in># tally f as"
    with Cons.IH obtain i where "i < length as" "k \<in> set (f (as ! i))" by blast
    then show ?thesis by (intro exI [of _ "Suc i"]) simp
  qed
qed (simp add: tally_def)

lemma tally_two:
  "i < j \<Longrightarrow> j < length as \<Longrightarrow> k \<in> set (f (as ! i)) \<Longrightarrow> k \<in> set (f (as ! j)) \<Longrightarrow>
     2 \<le> count (tally f as) k"
proof (induction as arbitrary: i j)
  case (Cons x as)
  obtain j' where j: "j = Suc j'" using Cons.prems(1) by (cases j) auto
  show ?case
  proof (cases i)
    case 0
    then have "0 < count (mset (f x)) k" using Cons.prems(3) by simp
    moreover have "0 < count (tally f as) k"
      using tally_member [of j' as k f] Cons.prems j by simp
    ultimately have "2 \<le> count (mset (f x)) k + count (tally f as) k" by linarith
    then show ?thesis by (simp add: tally_def)
  next
    case (Suc i')
    with Cons.IH [of i' j'] Cons.prems j show ?thesis by (simp add: tally_def)
  qed
qed simp

section \<open>The invariant\<close>

abbreviation key_less :: "admission_key \<Rightarrow> admission_key \<Rightarrow> bool" where
  "key_less a b \<equiv> compare_admission_key a b < 0"

definition admission_ok :: "admission \<Rightarrow> bool" where
  "admission_ok a \<longleftrightarrow> sorted_wrt key_less (ad_wanted a) \<and> ad_got a \<le> length (ad_wanted a) \<and>
     (ad_phase a = Waiting \<longrightarrow> ad_got a < length (ad_wanted a)) \<and>
     (ad_phase a = Held \<longrightarrow> ad_got a = length (ad_wanted a)) \<and>
     (ad_phase a = Gone \<longrightarrow> ad_got a = 0)"

definition gate_ok :: "nat \<Rightarrow> nat \<Rightarrow> gate option \<Rightarrow> bool" where
  "gate_ok holds awaits g \<longleftrightarrow> (case g of
      None \<Rightarrow> holds = 0 \<and> awaits = 0
    | Some g \<Rightarrow> gt_refs g = int (holds + awaits) \<and> 0 < gt_refs g \<and> holds = (if gt_token g then 1 else 0))"

definition gates_inv :: "admission_manager \<Rightarrow> bool" where
  "gates_inv m \<longleftrightarrow> (\<forall>k. gate_ok (count (tally ad_holds (am_admissions m)) k)
     (count (tally ad_awaits (am_admissions m)) k) (gate_of m k))"

definition active_count :: "admission list \<Rightarrow> nat" where
  "active_count as = length (filter (\<lambda>a. ad_phase a \<noteq> Gone) as)"

definition closing_inv :: "admission_manager \<Rightarrow> bool" where
  "closing_inv m \<longleftrightarrow> am_active m = int (active_count (am_admissions m)) \<and>
     (am_idle_closed m \<longleftrightarrow> am_closed m \<and> am_active m = 0) \<and>
     (am_stop_closed m \<longleftrightarrow> am_closed m) \<and> \<not> am_panicked m"

definition nesting_inv :: "admission_manager \<Rightarrow> bool" where
  "nesting_inv m \<longleftrightarrow> (\<forall>i < length (am_admissions m). \<forall>p \<in> set (ad_chain (am_admissions m ! i)).
     p < i \<and> ad_phase (am_admissions m ! p) \<notin> {Acquiring, Waiting} \<and>
     (ad_phase (am_admissions m ! p) = Held \<longrightarrow>
        (\<forall>k \<in> set (ad_wanted (am_admissions m ! p)). \<forall>k' \<in> set (ad_wanted (am_admissions m ! i)). key_less k k')))"

definition admission_inv :: "admission_manager \<Rightarrow> bool" where
  "admission_inv m \<longleftrightarrow> (\<forall>a \<in> set (am_admissions m). admission_ok a) \<and> gates_inv m \<and>
     closing_inv m \<and> nesting_inv m"

section \<open>Planning keys\<close>

lemma plan_keys_above:
  "plan_keys held ks = Inr wanted \<Longrightarrow> k \<in> set wanted \<Longrightarrow> old \<in> set held \<Longrightarrow> key_less old k"
proof (induction held ks arbitrary: wanted rule: plan_keys.induct)
  case (2 held k' ks)
  show ?case
  proof (cases "k' \<in> set held")
    case True
    with 2 show ?thesis by simp
  next
    case False
    then obtain rest where rest: "plan_keys (held @ [k']) ks = Inr rest" "wanted = k' # rest"
      and none: "find (\<lambda>old. key_less k' old) held = None"
      using "2.prems"(1) by (auto split: option.splits sum.splits)
    show ?thesis
    proof (cases "k = k'")
      case True
      then have "\<not> key_less k old" using find_None_all [OF none] "2.prems"(3) by simp
      then show ?thesis using key_order.cmp_not_less False True "2.prems"(3) by metis
    next
      case neq: False
      then have "k \<in> set rest" using "2.prems"(2) rest(2) by simp
      then show ?thesis using "2.IH"(2) [OF False none rest(1)] "2.prems"(3) by simp
    qed
  qed
qed simp

lemma plan_keys_sorted: "plan_keys held ks = Inr wanted \<Longrightarrow> sorted_wrt key_less wanted"
proof (induction held ks arbitrary: wanted rule: plan_keys.induct)
  case (2 held k ks)
  show ?case
  proof (cases "k \<in> set held")
    case True
    with 2 show ?thesis by simp
  next
    case False
    then obtain rest where rest: "plan_keys (held @ [k]) ks = Inr rest" "wanted = k # rest"
      and none: "find (\<lambda>old. key_less k old) held = None"
      using "2.prems" by (auto split: option.splits sum.splits)
    have "key_less k x" if "x \<in> set rest" for x
      using plan_keys_above [OF rest(1) that] by simp
    with "2.IH"(2) [OF False none rest(1)] rest(2) show ?thesis by simp
  qed
qed simp

section \<open>Gates\<close>

lemma gate_of_put [simp]: "gate_of (put_gate k g m) k' = (if k' = k then Some g else gate_of m k')"
  by (simp add: gate_of_def put_gate_def update_conv)

lemma gate_of_delete [simp]:
  "gate_of (m\<lparr>am_gates := AList.delete k (am_gates m)\<rparr>) k' = (if k' = k then None else gate_of m k')"
  by (simp add: gate_of_def delete_conv)

lemma gate_of_fields [simp]:
  "gate_of (m\<lparr>am_admissions := as\<rparr>) = gate_of m"
  "gate_of (m\<lparr>am_active := n\<rparr>) = gate_of m"
  "gate_of (m\<lparr>am_closed := b\<rparr>) = gate_of m"
  "gate_of (m\<lparr>am_stop_closed := b\<rparr>) = gate_of m"
  "gate_of (m\<lparr>am_idle_closed := b\<rparr>) = gate_of m"
  by (simp_all add: gate_of_def fun_eq_iff)

lemma put_gate_fields [simp]:
  "am_admissions (put_gate k g m) = am_admissions m" "am_active (put_gate k g m) = am_active m"
  "am_closed (put_gate k g m) = am_closed m" "am_stop_closed (put_gate k g m) = am_stop_closed m"
  "am_idle_closed (put_gate k g m) = am_idle_closed m" "am_panicked (put_gate k g m) = am_panicked m"
  by (simp_all add: put_gate_def)

lemma set_admission_fields [simp]:
  "am_admissions (set_admission i a m) = (am_admissions m)[i := a]"
  "gate_of (set_admission i a m) = gate_of m" "am_active (set_admission i a m) = am_active m"
  "am_closed (set_admission i a m) = am_closed m"
  "am_stop_closed (set_admission i a m) = am_stop_closed m"
  "am_idle_closed (set_admission i a m) = am_idle_closed m"
  "am_panicked (set_admission i a m) = am_panicked m"
  by (simp_all add: set_admission_def)

definition same_but_gates :: "admission_manager \<Rightarrow> admission_manager \<Rightarrow> bool" where
  "same_but_gates m n \<longleftrightarrow> am_admissions n = am_admissions m \<and> am_active n = am_active m \<and>
     am_closed n = am_closed m \<and> am_stop_closed n = am_stop_closed m \<and>
     am_idle_closed n = am_idle_closed m \<and> am_panicked n = am_panicked m"

lemma refer_gate_effect:
  assumes "gate_ok h w (gate_of m k)"
  shows "gate_ok h (Suc w) (gate_of (refer_gate k m) k)"
    and "k' \<noteq> k \<Longrightarrow> gate_of (refer_gate k m) k' = gate_of m k'"
    and "same_but_gates m (refer_gate k m)"
  using assms by (auto simp: refer_gate_def gate_ok_def Let_def same_but_gates_def split: option.splits)

lemma release_gate_effect:
  assumes "gate_ok h w (gate_of m k)" and "if acquired then 0 < h else 0 < w"
  shows "gate_ok (if acquired then h - 1 else h) (if acquired then w else w - 1)
      (gate_of (release_gate k acquired m) k)"
    and "k' \<noteq> k \<Longrightarrow> gate_of (release_gate k acquired m) k' = gate_of m k'"
    and "same_but_gates m (release_gate k acquired m)"
  using assms
  by (auto simp: release_gate_def gate_ok_def Let_def same_but_gates_def of_nat_diff split: option.splits if_splits)

section \<open>Updating one admission\<close>

lemma count_shift:
  "i < length as \<Longrightarrow> count (tally f (as[i := a])) k + count (mset (f (as ! i))) k =
     count (tally f as) k + count (mset (f a)) k"
  using arg_cong [OF tally_update [of i as f a], of "\<lambda>x. count x k"] by simp

lemma active_count_update:
  "i < length as \<Longrightarrow> active_count (as[i := a]) + (if ad_phase (as ! i) \<noteq> Gone then 1 else 0) =
     active_count as + (if ad_phase a \<noteq> Gone then 1 else 0)"
proof (induction as arbitrary: i)
  case (Cons x as)
  then show ?case by (cases i) (auto simp: active_count_def)
qed (simp add: active_count_def)

lemma nesting_update:
  assumes "nesting_inv m" and "am_admissions n = (am_admissions m)[i := a]"
    and "i < length (am_admissions m)" and "ad_wanted a = ad_wanted (am_admissions m ! i)"
    and "ad_chain a = ad_chain (am_admissions m ! i)"
    and "ad_phase (am_admissions m ! i) \<notin> {Acquiring, Waiting} \<Longrightarrow> ad_phase a \<notin> {Acquiring, Waiting} \<and>
      (ad_phase a = Held \<longrightarrow> ad_phase (am_admissions m ! i) = Held)"
  shows "nesting_inv n"
  unfolding nesting_inv_def
proof (intro allI impI ballI)
  let ?old = "am_admissions m" and ?new = "am_admissions n"
  fix j p
  assume j: "j < length ?new" and p: "p \<in> set (ad_chain (?new ! j))"
  have w: "ad_wanted (?new ! x) = ad_wanted (?old ! x)" "ad_chain (?new ! x) = ad_chain (?old ! x)" for x
    using assms(2,3,4,5) by (cases "x = i"; simp)+
  have jp: "j < length ?old" "p \<in> set (ad_chain (?old ! j))" using j p w assms(2) by simp_all
  note o = assms(1) [unfolded nesting_inv_def, rule_format, OF jp]
  have "ad_phase (?new ! p) \<notin> {Acquiring, Waiting} \<and> (ad_phase (?new ! p) = Held \<longrightarrow> ad_phase (?old ! p) = Held)"
    using o assms(2,3,6) by (cases "p = i") auto
  with o show "p < j \<and> ad_phase (?new ! p) \<notin> {Acquiring, Waiting} \<and>
      (ad_phase (?new ! p) = Held \<longrightarrow>
        (\<forall>k \<in> set (ad_wanted (?new ! p)). \<forall>k' \<in> set (ad_wanted (?new ! j)). key_less k k'))"
    unfolding w by blast
qed

lemma ok_update:
  "\<forall>x \<in> set as. admission_ok x \<Longrightarrow> admission_ok a \<Longrightarrow> \<forall>x \<in> set (as[i := a]). admission_ok x"
  using set_update_subset_insert by fastforce

text \<open>A step that replaces admission \<open>i\<close> and touches the gate of one key only.\<close>

lemma admission_replace:
  assumes inv: "admission_inv m" and i: "i < length (am_admissions m)"
    and adms: "am_admissions n = (am_admissions m)[i := a]"
    and ok: "admission_ok a" and wanted: "ad_wanted a = ad_wanted (am_admissions m ! i)"
    and chain: "ad_chain a = ad_chain (am_admissions m ! i)"
    and phase: "ad_phase (am_admissions m ! i) \<notin> {Acquiring, Waiting} \<Longrightarrow>
      ad_phase a \<notin> {Acquiring, Waiting} \<and> (ad_phase a = Held \<longrightarrow> ad_phase (am_admissions m ! i) = Held)"
    and others: "\<And>k'. k' \<noteq> k \<Longrightarrow> gate_of n k' = gate_of m k' \<and>
      count (mset (ad_holds a)) k' = count (mset (ad_holds (am_admissions m ! i))) k' \<and>
      count (mset (ad_awaits a)) k' = count (mset (ad_awaits (am_admissions m ! i))) k'"
    and this_gate: "gate_ok (count (tally ad_holds (am_admissions n)) k)
      (count (tally ad_awaits (am_admissions n)) k) (gate_of n k)"
    and closing: "closing_inv n"
  shows "admission_inv n"
proof -
  have "gate_ok (count (tally ad_holds (am_admissions n)) k')
      (count (tally ad_awaits (am_admissions n)) k') (gate_of n k')" for k'
  proof (cases "k' = k")
    case False
    from others [OF False] have "count (tally f (am_admissions n)) k' = count (tally f (am_admissions m)) k'"
      if "f = ad_holds \<or> f = ad_awaits" for f
      using count_shift [OF i, of f a k'] that by (auto simp: adms)
    with others [OF False] inv show ?thesis by (simp add: admission_inv_def gates_inv_def)
  qed (use this_gate in simp)
  moreover have "nesting_inv n"
    by (rule nesting_update [OF _ adms i wanted chain phase]) (use inv in \<open>simp_all add: admission_inv_def\<close>)
  moreover have "\<forall>x \<in> set (am_admissions n). admission_ok x"
    unfolding adms by (rule ok_update) (use inv ok in \<open>simp_all add: admission_inv_def\<close>)
  ultimately show ?thesis using closing by (simp add: admission_inv_def gates_inv_def)
qed

lemma closing_replace:
  assumes "admission_inv m" and "i < length (am_admissions m)"
    and "am_admissions n = (am_admissions m)[i := a]"
    and "ad_phase (am_admissions m ! i) \<noteq> Gone" and "ad_phase a \<noteq> Gone"
    and "am_active n = am_active m" "am_closed n = am_closed m" "am_stop_closed n = am_stop_closed m"
      "am_idle_closed n = am_idle_closed m" "am_panicked n = am_panicked m"
  shows "closing_inv n"
  using active_count_update [OF assms(2), of a] assms
  by (simp add: closing_inv_def admission_inv_def)

lemma inv_gate_ok:
  "admission_inv m \<Longrightarrow> gate_ok (count (tally ad_holds (am_admissions m)) k)
     (count (tally ad_awaits (am_admissions m)) k) (gate_of m k)"
  by (simp add: admission_inv_def gates_inv_def)

lemma inv_ok: "admission_inv m \<Longrightarrow> i < length (am_admissions m) \<Longrightarrow> admission_ok (am_admissions m ! i)"
  by (simp add: admission_inv_def)

text \<open>A step that only changes the phase between phases that await nothing.\<close>

lemma phase_change_inv:
  assumes "admission_inv m" and "i < length (am_admissions m)"
    and "ad_phase (am_admissions m ! i) \<notin> {Waiting, Gone}" and "ph \<notin> {Waiting, Gone, Acquiring}"
    and "ph = Held \<Longrightarrow> ad_phase (am_admissions m ! i) = Acquiring \<and>
      ad_got (am_admissions m ! i) = length (ad_wanted (am_admissions m ! i))"
  shows "admission_inv (set_admission i ((am_admissions m ! i)\<lparr>ad_phase := ph\<rparr>) m)"
proof (rule admission_replace [OF assms(1,2), where k = undefined])
  let ?a = "(am_admissions m ! i)\<lparr>ad_phase := ph\<rparr>"
  have e: "ad_holds ?a = ad_holds (am_admissions m ! i)" "ad_awaits ?a = ad_awaits (am_admissions m ! i)"
    using assms(3,4) by (auto simp: ad_holds_def ad_awaits_def)
  then have "tally f ((am_admissions m)[i := ?a]) = tally f (am_admissions m)"
    if "f = ad_holds \<or> f = ad_awaits" for f
    using tally_update [OF assms(2), of f ?a] that by auto
  then show "gate_ok (count (tally ad_holds (am_admissions (set_admission i ?a m))) undefined)
      (count (tally ad_awaits (am_admissions (set_admission i ?a m))) undefined)
      (gate_of (set_admission i ?a m) undefined)"
    using inv_gate_ok [OF assms(1)] by simp
  show "admission_ok ?a"
    using inv_ok [OF assms(1,2)] assms(3-5) by (auto simp: admission_ok_def)
  show "closing_inv (set_admission i ?a m)"
    by (rule closing_replace [OF assms(1,2)]) (use assms(3,4) in auto)
  show "gate_of (set_admission i ?a m) k' = gate_of m k' \<and>
      count (mset (ad_holds ?a)) k' = count (mset (ad_holds (am_admissions m ! i))) k' \<and>
      count (mset (ad_awaits ?a)) k' = count (mset (ad_awaits (am_admissions m ! i))) k'" for k'
    using e by simp
qed (use assms(3-5) in auto)

section \<open>The steps\<close>

lemma refer_inv:
  assumes inv: "admission_inv m" and i: "i < length (am_admissions m)"
    and a: "a = am_admissions m ! i" and ph: "ad_phase a = Acquiring"
    and got: "ad_got a < length (ad_wanted a)"
  shows "admission_inv (set_admission i (a\<lparr>ad_phase := Waiting\<rparr>) (refer_gate (ad_wanted a ! ad_got a) m))"
proof -
  let ?k = "ad_wanted a ! ad_got a" and ?a = "a\<lparr>ad_phase := Waiting\<rparr>"
  let ?n = "set_admission i ?a (refer_gate ?k m)"
  note r = refer_gate_effect [OF inv_gate_ok [OF inv, of ?k]]
  have adms: "am_admissions ?n = (am_admissions m)[i := ?a]" using r(3) by (simp add: same_but_gates_def)
  have h: "ad_holds ?a = ad_holds a" "ad_awaits ?a = [?k]" "ad_awaits a = []"
    using ph by (simp_all add: ad_holds_def ad_awaits_def)
  have c: "count (tally ad_holds (am_admissions ?n)) ?k = count (tally ad_holds (am_admissions m)) ?k"
    "count (tally ad_awaits (am_admissions ?n)) ?k = Suc (count (tally ad_awaits (am_admissions m)) ?k)"
    using count_shift [OF i, of ad_holds ?a ?k] count_shift [OF i, of ad_awaits ?a ?k] h
    unfolding adms by (simp_all add: a)
  show ?thesis
  proof (rule admission_replace [OF inv i adms, where k = ?k])
    show "admission_ok ?a" using inv_ok [OF inv i] got by (simp add: admission_ok_def a)
    show "closing_inv ?n"
      by (rule closing_replace [OF inv i adms]) (use r(3) ph a in \<open>simp_all add: same_but_gates_def\<close>)
    show "gate_ok (count (tally ad_holds (am_admissions ?n)) ?k)
        (count (tally ad_awaits (am_admissions ?n)) ?k) (gate_of ?n ?k)"
      unfolding c using r(1) by simp
    show "gate_of ?n k' = gate_of m k' \<and>
        count (mset (ad_holds ?a)) k' = count (mset (ad_holds (am_admissions m ! i))) k' \<and>
        count (mset (ad_awaits ?a)) k' = count (mset (ad_awaits (am_admissions m ! i))) k'"
      if "k' \<noteq> ?k" for k'
      using r(2) [OF that] h that by (simp add: a)
  qed (use ph a in auto)
qed

lemma advance_inv:
  assumes "admission_inv m" and "in_phase m i Acquiring"
  shows "admission_inv (advance i e m)"
proof -
  have i: "i < length (am_admissions m)" "ad_phase (am_admissions m ! i) = Acquiring"
    using assms(2) by (simp_all add: in_phase_def)
  have "ad_got (am_admissions m ! i) \<le> length (ad_wanted (am_admissions m ! i))"
    using inv_ok [OF assms(1) i(1)] by (simp add: admission_ok_def)
  then show ?thesis
    using refer_inv [OF assms(1) i(1) refl i(2)] phase_change_inv [OF assms(1) i(1)] i(2)
    by (auto simp: advance_def Let_def)
qed

lemma take_Suc_mset: "n < length xs \<Longrightarrow> mset (take (Suc n) xs) = add_mset (xs ! n) (mset (take n xs))"
  by (simp add: take_Suc_conv_app_nth)

lemma take_token_inv:
  assumes inv: "admission_inv m" and "in_phase m i Waiting"
  shows "admission_inv (take_token i m)"
proof -
  have i: "i < length (am_admissions m)" and ph: "ad_phase (am_admissions m ! i) = Waiting"
    using assms(2) by (simp_all add: in_phase_def)
  define a where a: "a = am_admissions m ! i"
  let ?k = "ad_wanted a ! ad_got a"
  have got: "ad_got a < length (ad_wanted a)" using inv_ok [OF inv i] ph by (simp add: admission_ok_def a)
  have w: "ad_awaits a = [?k]" using ph by (simp add: ad_awaits_def a)
  then have "?k \<in># tally ad_awaits (am_admissions m)" using tally_member [OF i, of ?k ad_awaits] by (simp add: a)
  then have pos: "0 < count (tally ad_awaits (am_admissions m)) ?k" by simp
  note g0 = inv_gate_ok [OF inv, of ?k]
  with pos obtain g where g: "gate_of m ?k = Some g" by (cases "gate_of m ?k") (simp_all add: gate_ok_def del: count_greater_zero_iff)
  show ?thesis
  proof (cases "gt_token g")
    case True
    with g inv show ?thesis by (simp add: take_token_def Let_def a)
  next
    case False
    let ?a = "a\<lparr>ad_phase := Acquiring, ad_got := ad_got a + 1\<rparr>"
    let ?n = "set_admission i ?a (put_gate ?k (g\<lparr>gt_token := True\<rparr>) m)"
    have t: "take_token i m = ?n" using g False by (simp add: take_token_def Let_def a)
    have adms: "am_admissions ?n = (am_admissions m)[i := ?a]" by simp
    have h: "mset (ad_holds ?a) = add_mset ?k (mset (ad_holds a))" "ad_awaits ?a = []"
      using take_Suc_mset [OF got] by (simp_all add: ad_holds_def ad_awaits_def)
    have c: "count (tally ad_holds (am_admissions ?n)) ?k = Suc (count (tally ad_holds (am_admissions m)) ?k)"
      "Suc (count (tally ad_awaits (am_admissions ?n)) ?k) = count (tally ad_awaits (am_admissions m)) ?k"
      using count_shift [OF i, of ad_holds ?a ?k] count_shift [OF i, of ad_awaits ?a ?k] h w
      unfolding adms by (simp_all add: a)
    show ?thesis
      unfolding t
    proof (rule admission_replace [OF inv i adms, where k = ?k])
      show "admission_ok ?a" using inv_ok [OF inv i] got by (simp add: admission_ok_def a)
      show "closing_inv ?n" by (rule closing_replace [OF inv i adms]) (use ph in simp_all)
      show "gate_ok (count (tally ad_holds (am_admissions ?n)) ?k)
          (count (tally ad_awaits (am_admissions ?n)) ?k) (gate_of ?n ?k)"
        unfolding c(1) using g0 g False c(2) [symmetric] by (simp add: gate_ok_def)
      show "gate_of ?n k' = gate_of m k' \<and>
          count (mset (ad_holds ?a)) k' = count (mset (ad_holds (am_admissions m ! i))) k' \<and>
          count (mset (ad_awaits ?a)) k' = count (mset (ad_awaits (am_admissions m ! i))) k'"
        if "k' \<noteq> ?k" for k'
        using that h w by (simp add: a)
    qed (use ph a in auto)
  qed
qed

lemma give_up_inv:
  assumes inv: "admission_inv m" and "in_phase m i Waiting"
  shows "admission_inv (give_up i m)"
proof -
  have i: "i < length (am_admissions m)" and ph: "ad_phase (am_admissions m ! i) = Waiting"
    using assms(2) by (simp_all add: in_phase_def)
  define a where a: "a = am_admissions m ! i"
  let ?k = "ad_wanted a ! ad_got a" and ?a = "a\<lparr>ad_phase := Releasing\<rparr>"
  let ?n = "set_admission i ?a (release_gate ?k False m)"
  have w: "ad_awaits a = [?k]" using ph by (simp add: ad_awaits_def a)
  then have "?k \<in># tally ad_awaits (am_admissions m)" using tally_member [OF i, of ?k ad_awaits] by (simp add: a)
  then have pos: "if False then 0 < count (tally ad_holds (am_admissions m)) ?k
      else 0 < count (tally ad_awaits (am_admissions m)) ?k" by simp
  note r = release_gate_effect [OF inv_gate_ok [OF inv, of ?k] pos]
  have adms: "am_admissions ?n = (am_admissions m)[i := ?a]" using r(3) by (simp add: same_but_gates_def)
  have h: "ad_holds ?a = ad_holds a" "ad_awaits ?a = []" by (simp_all add: ad_holds_def ad_awaits_def)
  have c: "count (tally ad_holds (am_admissions ?n)) ?k = count (tally ad_holds (am_admissions m)) ?k"
    "count (tally ad_awaits (am_admissions ?n)) ?k = count (tally ad_awaits (am_admissions m)) ?k - 1"
    using count_shift [OF i, of ad_holds ?a ?k] count_shift [OF i, of ad_awaits ?a ?k] h w
    unfolding adms by (simp_all add: a)
  have "admission_inv ?n"
  proof (rule admission_replace [OF inv i adms, where k = ?k])
    show "admission_ok ?a" using inv_ok [OF inv i] by (simp add: admission_ok_def a)
    show "closing_inv ?n"
      by (rule closing_replace [OF inv i adms]) (use r(3) ph in \<open>simp_all add: same_but_gates_def\<close>)
    show "gate_ok (count (tally ad_holds (am_admissions ?n)) ?k)
        (count (tally ad_awaits (am_admissions ?n)) ?k) (gate_of ?n ?k)"
      unfolding c using r(1) by simp
    show "gate_of ?n k' = gate_of m k' \<and>
        count (mset (ad_holds ?a)) k' = count (mset (ad_holds (am_admissions m ! i))) k' \<and>
        count (mset (ad_awaits ?a)) k' = count (mset (ad_awaits (am_admissions m ! i))) k'"
      if "k' \<noteq> ?k" for k'
      using r(2) [OF that] h w that by (simp add: a)
  qed (use ph a in auto)
  then show ?thesis by (simp add: give_up_def Let_def a)
qed

lemma release_held_inv:
  assumes inv: "admission_inv m" and i: "i < length (am_admissions m)"
    and a: "a = am_admissions m ! i" and ph: "ad_phase a = Releasing" and got: "0 < ad_got a"
  shows "admission_inv (set_admission i (a\<lparr>ad_got := ad_got a - 1\<rparr>)
      (release_gate (ad_wanted a ! (ad_got a - 1)) True m))"
proof -
  let ?k = "ad_wanted a ! (ad_got a - 1)" and ?a = "a\<lparr>ad_got := ad_got a - 1\<rparr>"
  let ?n = "set_admission i ?a (release_gate ?k True m)"
  have le: "ad_got a \<le> length (ad_wanted a)" using inv_ok [OF inv i] by (simp add: admission_ok_def a)
  have h: "mset (ad_holds a) = add_mset ?k (mset (ad_holds ?a))" "ad_awaits ?a = []" "ad_awaits a = []"
    using take_Suc_mset [of "ad_got a - 1" "ad_wanted a"] got le ph
    by (simp_all add: ad_holds_def ad_awaits_def)
  then have "?k \<in> set (ad_holds a)" by (metis set_mset_mset union_single_eq_member)
  then have "?k \<in># tally ad_holds (am_admissions m)" using tally_member [OF i, of ?k ad_holds] by (simp add: a)
  then have pos: "if True then 0 < count (tally ad_holds (am_admissions m)) ?k
      else 0 < count (tally ad_awaits (am_admissions m)) ?k" by simp
  note r = release_gate_effect [OF inv_gate_ok [OF inv, of ?k] pos]
  have adms: "am_admissions ?n = (am_admissions m)[i := ?a]" using r(3) by (simp add: same_but_gates_def)
  have c: "count (tally ad_holds (am_admissions ?n)) ?k = count (tally ad_holds (am_admissions m)) ?k - 1"
    "count (tally ad_awaits (am_admissions ?n)) ?k = count (tally ad_awaits (am_admissions m)) ?k"
    using count_shift [OF i, of ad_holds ?a ?k] count_shift [OF i, of ad_awaits ?a ?k] h
    unfolding adms a [symmetric] by simp_all linarith
  show ?thesis
  proof (rule admission_replace [OF inv i adms, where k = ?k])
    show "admission_ok ?a" using inv_ok [OF inv i] ph by (auto simp: admission_ok_def a)
    show "closing_inv ?n"
      by (rule closing_replace [OF inv i adms]) (use r(3) ph a in \<open>simp_all add: same_but_gates_def\<close>)
    show "gate_ok (count (tally ad_holds (am_admissions ?n)) ?k)
        (count (tally ad_awaits (am_admissions ?n)) ?k) (gate_of ?n ?k)"
      unfolding c using r(1) by simp
    show "gate_of ?n k' = gate_of m k' \<and>
        count (mset (ad_holds ?a)) k' = count (mset (ad_holds (am_admissions m ! i))) k' \<and>
        count (mset (ad_awaits ?a)) k' = count (mset (ad_awaits (am_admissions m ! i))) k'"
      if "k' \<noteq> ?k" for k'
      using r(2) [OF that] h that unfolding a [symmetric] by simp
  qed (use ph a in auto)
qed

lemma finish_admission_fields [simp]:
  "am_admissions (finish_admission m) = am_admissions m" "gate_of (finish_admission m) = gate_of m"
  by (simp_all add: finish_admission_def close_idle_def Let_def gate_of_def fun_eq_iff)

lemma gone_inv:
  assumes inv: "admission_inv m" and i: "i < length (am_admissions m)"
    and a: "a = am_admissions m ! i" and ph: "ad_phase a = Releasing" and got: "ad_got a = 0"
  shows "admission_inv (set_admission i (a\<lparr>ad_phase := Gone\<rparr>) (finish_admission m))"
proof -
  let ?a = "a\<lparr>ad_phase := Gone\<rparr>"
  let ?n = "set_admission i ?a (finish_admission m)"
  have adms: "am_admissions ?n = (am_admissions m)[i := ?a]" by simp
  have e: "ad_holds ?a = ad_holds a" "ad_awaits ?a = ad_awaits a"
    using ph by (simp_all add: ad_holds_def ad_awaits_def)
  then have t: "tally f ((am_admissions m)[i := ?a]) = tally f (am_admissions m)"
    if "f = ad_holds \<or> f = ad_awaits" for f
    using tally_update [OF i, of f ?a] that by (auto simp: a)
  have n: "active_count (am_admissions m) = Suc (active_count ((am_admissions m)[i := ?a]))"
    using active_count_update [OF i, of ?a] ph by (simp add: a)
  show ?thesis
  proof (rule admission_replace [OF inv i adms, where k = undefined])
    show "admission_ok ?a" using inv_ok [OF inv i] got by (simp add: admission_ok_def a)
    show "closing_inv ?n"
      using inv n by (auto simp: admission_inv_def closing_inv_def finish_admission_def close_idle_def Let_def)
    show "gate_ok (count (tally ad_holds (am_admissions ?n)) undefined)
        (count (tally ad_awaits (am_admissions ?n)) undefined) (gate_of ?n undefined)"
      using inv_gate_ok [OF inv] t by simp
    show "gate_of ?n k' = gate_of m k' \<and>
        count (mset (ad_holds ?a)) k' = count (mset (ad_holds (am_admissions m ! i))) k' \<and>
        count (mset (ad_awaits ?a)) k' = count (mset (ad_awaits (am_admissions m ! i))) k'" for k'
      using e by (simp add: a)
  qed (use ph a in auto)
qed

lemma release_next_inv:
  assumes "admission_inv m" and "in_phase m i Releasing"
  shows "admission_inv (release_next i m)"
  using assms gone_inv [OF assms(1), of i] release_held_inv [OF assms(1), of i]
  by (auto simp: release_next_def Let_def in_phase_def)

lemma leave_inv:
  assumes "admission_inv m" and "in_phase m i Held"
  shows "admission_inv (leave i m)"
  unfolding leave_def by (rule phase_change_inv) (use assms in \<open>auto simp: in_phase_def\<close>)

lemma begin_close_inv: "admission_inv m \<Longrightarrow> admission_inv (begin_close_admission m)"
proof -
  assume inv: "admission_inv m"
  have "am_admissions (begin_close_admission m) = am_admissions m"
    "gate_of (begin_close_admission m) = gate_of m"
    by (simp_all add: begin_close_admission_def close_idle_def Let_def gate_of_def fun_eq_iff)
  moreover have "closing_inv (begin_close_admission m)"
    using inv \<open>am_admissions (begin_close_admission m) = am_admissions m\<close>
    by (auto simp: admission_inv_def closing_inv_def begin_close_admission_def close_idle_def Let_def)
  ultimately show ?thesis using inv by (simp add: admission_inv_def gates_inv_def nesting_inv_def)
qed

lemma valid_chain_members:
  assumes "nesting_inv m" and "valid_chain m chain" and "p \<in> set chain"
  shows "p < length (am_admissions m) \<and> ad_phase (am_admissions m ! p) \<notin> {Acquiring, Waiting}"
proof (cases chain)
  case (Cons i rest)
  with assms(2) have i: "i < length (am_admissions m)" "rest = ad_chain (am_admissions m ! i)"
    "ad_phase (am_admissions m ! i) \<notin> {Acquiring, Waiting}" by (simp_all add: valid_chain_def)
  show ?thesis
  proof (cases "p = i")
    case False
    with assms(3) Cons i have "p \<in> set (ad_chain (am_admissions m ! i))" by simp
    with assms(1) i(1) have "p < i" "ad_phase (am_admissions m ! p) \<notin> {Acquiring, Waiting}"
      unfolding nesting_inv_def by blast+
    with i(1) show ?thesis by simp
  qed (use i in simp)
qed (use assms(3) in simp)

lemma held_keys_mem:
  "p \<in> set chain \<Longrightarrow> lease_live m p \<Longrightarrow> k \<in> set (ad_wanted (am_admissions m ! p)) \<Longrightarrow>
     k \<in> set (held_keys m chain)"
  by (auto simp: held_keys_def)

lemma enter_keys_inv:
  assumes inv: "admission_inv m" and chain: "valid_chain m chain"
  shows "admission_inv (fst (enter_keys chain keys e m))"
proof (cases "e = None \<and> \<not> am_closed m \<and> (\<exists>wanted. plan_keys (held_keys m chain) keys = Inr wanted)")
  case False
  then have "fst (enter_keys chain keys e m) = m"
    by (auto simp: enter_keys_def split: option.split sum.split)
  with inv show ?thesis by simp
next
  case True
  then obtain wanted where w: "plan_keys (held_keys m chain) keys = Inr wanted" and admitted: "e = None" "\<not> am_closed m"
    by blast
  let ?a = "\<lparr>ad_chain = chain, ad_wanted = wanted, ad_got = 0, ad_phase = Acquiring\<rparr>"
  let ?n = "m\<lparr>am_active := am_active m + 1, am_admissions := am_admissions m @ [?a]\<rparr>"
  have n: "fst (enter_keys chain keys e m) = ?n" using w admitted by (simp add: enter_keys_def)
  have nest: "nesting_inv m" using inv by (simp add: admission_inv_def)
  have "nesting_inv ?n"
    unfolding nesting_inv_def
  proof (intro allI impI ballI)
    let ?old = "am_admissions m" and ?new = "am_admissions ?n"
    fix j p
    assume j: "j < length ?new" and p: "p \<in> set (ad_chain (?new ! j))"
    show "p < j \<and> ad_phase (?new ! p) \<notin> {Acquiring, Waiting} \<and>
      (ad_phase (?new ! p) = Held \<longrightarrow>
        (\<forall>k \<in> set (ad_wanted (?new ! p)). \<forall>k' \<in> set (ad_wanted (?new ! j)). key_less k k'))"
    proof (cases "j = length ?old")
      case True
      with p have pc: "p \<in> set chain" by simp
      note v = valid_chain_members [OF nest chain pc]
      then have "?new ! p = ?old ! p" by (simp add: nth_append)
      moreover have "key_less k k'" if "ad_phase (?old ! p) = Held" "k \<in> set (ad_wanted (?old ! p))"
        "k' \<in> set wanted" for k k'
        using plan_keys_above [OF w that(3) held_keys_mem [OF pc]] that v by (simp add: lease_live_def)
      ultimately show ?thesis using v True by simp
    next
      case False
      then have "j < length ?old" using j by simp
      with p have pj: "p \<in> set (ad_chain (?old ! j))" by (simp add: nth_append)
      note o = nest [unfolded nesting_inv_def, rule_format, OF \<open>j < length ?old\<close> pj]
      then have "?new ! p = ?old ! p" "?new ! j = ?old ! j"
        using \<open>j < length ?old\<close> by (auto simp: nth_append)
      with o show ?thesis by simp
    qed
  qed
  moreover have "gates_inv ?n"
    using inv by (simp add: admission_inv_def gates_inv_def ad_holds_def ad_awaits_def)
  moreover have "closing_inv ?n"
    using inv admitted by (auto simp: admission_inv_def closing_inv_def active_count_def)
  moreover have "admission_ok ?a" using plan_keys_sorted [OF w] by (simp add: admission_ok_def)
  ultimately show ?thesis using inv by (simp add: n admission_inv_def)
qed

lemma admission_move_inv: "admission_inv m \<Longrightarrow> admission_inv (admission_move m s)"
  by (cases s) (simp_all add: enter_keys_inv advance_inv take_token_inv give_up_inv leave_inv
      release_next_inv begin_close_inv)

lemma new_admission_inv: "admission_inv new_admission_manager"
  by (simp add: admission_inv_def new_admission_manager_def gates_inv_def gate_ok_def gate_of_def
      tally_def closing_inv_def active_count_def nesting_inv_def)

section \<open>Consequences\<close>

lemma tally_in: "k \<in># tally f as \<longleftrightarrow> (\<exists>a \<in> set as. k \<in> set (f a))"
  by (induction as) (auto simp: tally_def)

lemma holds_exclusive:
  assumes "admission_inv m" and "i < length (am_admissions m)" and "j < length (am_admissions m)"
    and "k \<in> set (ad_holds (am_admissions m ! i))" and "k \<in> set (ad_holds (am_admissions m ! j))"
  shows "i = j"
proof (rule ccontr)
  assume "i \<noteq> j"
  have "count (tally ad_holds (am_admissions m)) k \<le> 1"
    using inv_gate_ok [OF assms(1), of k] by (auto simp: gate_ok_def split: option.splits)
  with tally_two [of i j "am_admissions m" k ad_holds] tally_two [of j i "am_admissions m" k ad_holds]
    assms(2-5) \<open>i \<noteq> j\<close> show False
    by (metis linorder_neqE_nat not_less_eq_eq numeral_2_eq_2 order_trans One_nat_def)
qed

lemma active_count_zero: "active_count as = 0 \<longleftrightarrow> (\<forall>a \<in> set as. ad_phase a = Gone)"
  by (auto simp: active_count_def filter_empty_conv)

lemma gone_no_gates:
  assumes "admission_inv m" and "\<forall>a \<in> set (am_admissions m). ad_phase a = Gone"
  shows "am_gates m = []"
proof -
  have "ad_holds a = [] \<and> ad_awaits a = []" if a: "a \<in> set (am_admissions m)" for a
  proof -
    have "admission_ok a" using assms(1) a by (simp add: admission_inv_def)
    moreover have "ad_phase a = Gone" using assms(2) a by simp
    ultimately show ?thesis by (simp add: admission_ok_def ad_holds_def ad_awaits_def)
  qed
  then have "k \<notin># tally ad_holds (am_admissions m)" "k \<notin># tally ad_awaits (am_admissions m)" for k
    by (auto simp: tally_in)
  then have "gate_of m k = None" for k
    using inv_gate_ok [OF assms(1), of k] by (auto simp: gate_ok_def not_in_iff split: option.splits)
  then show ?thesis
    unfolding gate_of_def map_of_eq_None_iff by (cases "am_gates m") (auto split: if_splits)
qed

lemma idle_all_gone:
  "admission_inv m \<Longrightarrow> am_idle_closed m \<Longrightarrow> a \<in> set (am_admissions m) \<Longrightarrow> ad_phase a = Gone"
  using active_count_zero [of "am_admissions m"] by (simp add: admission_inv_def closing_inv_def)

interpretation admission_machine: guarded_machine new_admission_manager admission_move admission_inv
  by unfold_locales (rule new_admission_inv, erule admission_move_inv)

end
