(* ===== verification/Session_Admission_Props.thy ===== *)
theory Session_Admission_Props
  imports Session_Admission_Laws
begin

text \<open>
  What the admission protocol promises: exclusion, freedom from deadlock, an orderly close,
  and that activation itself always respects the lock order.
\<close>

section \<open>Chains\<close>

definition chain_table :: "admission_manager \<Rightarrow> nat list list" where
  "chain_table m = map ad_chain (am_admissions m)"

definition chain_inv :: "admission_manager \<Rightarrow> bool" where
  "chain_inv m \<longleftrightarrow> (\<forall>j < length (chain_table m).
     chain_table m ! j = [] \<or> (\<exists>p < j. chain_table m ! j = p # chain_table m ! p))"

lemma chains_update:
  "ad_chain a = ad_chain (am_admissions m ! i) \<Longrightarrow> i < length (am_admissions m) \<Longrightarrow>
     map ad_chain ((am_admissions m)[i := a]) = map ad_chain (am_admissions m)"
  by (simp add: map_update list_update_same_conv)

lemma refer_release_admissions [simp]:
  "am_admissions (refer_gate k m) = am_admissions m"
  "am_admissions (release_gate k b m) = am_admissions m"
  "am_admissions (close_idle m) = am_admissions m"
  by (simp_all add: refer_gate_def release_gate_def close_idle_def Let_def split: option.split)

lemma chains_step:
  "chain_table (admission_move m s) = chain_table m \<or>
   (\<exists>chain. valid_chain m chain \<and> chain_table (admission_move m s) = chain_table m @ [chain])"
  by (cases s) (auto simp: chain_table_def enter_keys_def advance_def take_token_def give_up_def leave_def
      release_next_def begin_close_admission_def in_phase_def Let_def set_admission_def
      list_update_same_conv map_update split: option.split sum.split)

lemma chain_inv_step: "chain_inv m \<Longrightarrow> chain_inv (admission_move m s)"
proof -
  assume inv: "chain_inv m"
  from chains_step [of m s] show ?thesis
  proof
    assume "chain_table (admission_move m s) = chain_table m"
    with inv show ?thesis by (simp add: chain_inv_def)
  next
    assume "\<exists>chain. valid_chain m chain \<and> chain_table (admission_move m s) = chain_table m @ [chain]"
    then obtain chain where v: "valid_chain m chain" and c: "chain_table (admission_move m s) = chain_table m @ [chain]"
      by blast
    show ?thesis
      unfolding chain_inv_def c
    proof (intro allI impI)
      fix j
      assume j: "j < length (chain_table m @ [chain])"
      show "(chain_table m @ [chain]) ! j = [] \<or>
          (\<exists>p < j. (chain_table m @ [chain]) ! j = p # (chain_table m @ [chain]) ! p)"
      proof (cases "j = length (chain_table m)")
        case True
        show ?thesis
        proof (cases chain)
          case (Cons i rest)
          with v have i: "i < length (chain_table m)" "rest = chain_table m ! i"
            by (simp_all add: valid_chain_def chain_table_def)
          then have "(chain_table m @ [chain]) ! j = i # (chain_table m @ [chain]) ! i"
            using True Cons by (simp add: nth_append)
          with True i show ?thesis by blast
        qed (use True in simp)
      next
        case False
        then have "j < length (chain_table m)" using j by simp
        then have "(chain_table m @ [chain]) ! p = chain_table m ! p" if "p \<le> j" for p
          using that by (simp add: nth_append)
        with inv \<open>j < length (chain_table m)\<close> show ?thesis
          unfolding chain_inv_def by (metis less_or_eq_imp_le)
      qed
    qed
  qed
qed

interpretation chain_machine: guarded_machine new_admission_manager admission_move chain_inv
  by unfold_locales
    (simp add: chain_inv_def chain_table_def new_admission_manager_def, erule chain_inv_step)

lemma chain_trans:
  "chain_inv m \<Longrightarrow> j < length (chain_table m) \<Longrightarrow> p \<in> set (chain_table m ! j) \<Longrightarrow>
     p < j \<and> set (chain_table m ! p) \<subseteq> set (chain_table m ! j)"
proof (induction j arbitrary: p rule: less_induct)
  case (less j)
  then obtain q where q: "chain_table m ! j = q # chain_table m ! q" "q < j"
    unfolding chain_inv_def by (metis length_pos_if_in_set less_numeral_extra(3) list.size(3))
  show ?case
  proof (cases "p = q")
    case True
    with q show ?thesis by auto
  next
    case False
    with less.prems(3) q have "p \<in> set (chain_table m ! q)" by simp
    with less.IH [OF q(2) less.prems(1)] less.prems(2) q have "p < q \<and> set (chain_table m ! p) \<subseteq> set (chain_table m ! q)"
      by simp
    with q show ?thesis by auto
  qed
qed

lemma nth_chains: "j < length (am_admissions m) \<Longrightarrow> chain_table m ! j = ad_chain (am_admissions m ! j)"
  by (simp add: chain_table_def)

section \<open>Exclusion\<close>


definition sample_scope :: session_scope where
  "sample_scope = \<lparr>ss_task_type = [], ss_task_id = [], ss_chat_type = ''private'',
     ss_owner = \<lparr>ac_platform = ''cli'', ac_id = ''u''\<rparr>, ss_platform = ''cli'', ss_chat_id = ''c'',
     ss_is_cli = True\<rparr>"

definition two_admissions :: "admission_step list" where
  "two_admissions =
     [EnterKeys [] (enter_scope_keys sample_scope) None, Advance 0 None, TakeToken 0, Advance 0 None,
      EnterKeys [0] (session_admission_keys [''b'', ''a'']) None, Advance 1 None, TakeToken 1,
      EnterKeys [] (enter_scope_keys sample_scope) None, Advance 2 None]"


section \<open>No deadlock\<close>

definition can_proceed :: "admission_manager \<Rightarrow> nat \<Rightarrow> bool" where
  "can_proceed m i \<longleftrightarrow> in_phase m i Acquiring \<or> in_phase m i Releasing \<or>
     (in_phase m i Waiting \<and> token_free m (ad_wanted (am_admissions m ! i) ! ad_got (am_admissions m ! i))) \<or>
     (in_phase m i Held \<and> (\<forall>j < length (am_admissions m).
        i \<in> set (ad_chain (am_admissions m ! j)) \<longrightarrow> ad_phase (am_admissions m ! j) = Gone))"

lemma awaited_above_held:
  assumes "admission_ok a" and "ad_phase a = Waiting" and "k \<in> set (ad_holds a)"
  shows "key_less k (ad_wanted a ! ad_got a)"
proof -
  obtain n where n: "n < ad_got a" "k = ad_wanted a ! n" "n < length (ad_wanted a)"
    using assms(3) by (auto simp: ad_holds_def in_set_conv_nth)
  with assms(1,2) show ?thesis
    by (auto simp: admission_ok_def sorted_wrt_iff_nth_less)
qed

lemma held_leaf_or_stuck:
  assumes "admission_inv m" and "chain_inv m" and "h < length (am_admissions m)"
    and "ad_phase (am_admissions m ! h) \<noteq> Gone"
  obtains d where "d = h \<or> h \<in> set (ad_chain (am_admissions m ! d))" and "d < length (am_admissions m)"
    and "ad_phase (am_admissions m ! d) \<noteq> Gone"
    and "\<forall>j < length (am_admissions m). d \<in> set (ad_chain (am_admissions m ! j)) \<longrightarrow>
      ad_phase (am_admissions m ! j) = Gone"
proof -
  let ?D = "{d. d < length (am_admissions m) \<and> (d = h \<or> h \<in> set (ad_chain (am_admissions m ! d))) \<and>
      ad_phase (am_admissions m ! d) \<noteq> Gone}"
  have "finite ?D" "h \<in> ?D" using assms(3,4) by simp_all
  define d where "d = Max ?D"
  have d: "d \<in> ?D" unfolding d_def using \<open>finite ?D\<close> \<open>h \<in> ?D\<close> Max_in by blast
  have "ad_phase (am_admissions m ! j) = Gone"
    if j: "j < length (am_admissions m)" and "d \<in> set (ad_chain (am_admissions m ! j))" for j
  proof (rule ccontr)
    assume live: "ad_phase (am_admissions m ! j) \<noteq> Gone"
    have "d < length (am_admissions m)" and len: "length (chain_table m) = length (am_admissions m)"
      using d by (simp_all add: chain_table_def)
    then have "d < j" "set (ad_chain (am_admissions m ! d)) \<subseteq> set (ad_chain (am_admissions m ! j))"
      using chain_trans [OF assms(2), of j d] that by (simp_all add: nth_chains)
    with d that(2) have "h \<in> set (ad_chain (am_admissions m ! j))" by blast
    with j live have "j \<in> ?D" by simp
    then have "j \<le> d" unfolding d_def using \<open>finite ?D\<close> by simp
    with \<open>d < j\<close> show False by simp
  qed
  with d that show ?thesis by blast
qed

text \<open>
  C12: admission cannot deadlock.  Whenever some admission is not over, at least one of them
  can take its next step: it acquires or releases, its next token is free, or it is held by an
  operation that has no nested admission left and can release it.  So whoever waits, waits for
  somebody who makes progress, for any nesting and any number of sessions and scopes.
\<close>

theorem admission_no_deadlock:
  assumes "m = foldl admission_move new_admission_manager ss"
    and "i < length (am_admissions m)" and "ad_phase (am_admissions m ! i) \<noteq> Gone"
  shows "\<exists>j < length (am_admissions m). can_proceed m j"
proof (rule ccontr)
  assume stuck: "\<not> (\<exists>j < length (am_admissions m). can_proceed m j)"
  let ?as = "am_admissions m"
  let ?awaited = "set_mset (tally ad_awaits ?as)"
  have inv: "admission_inv m" unfolding assms(1) by (rule admission_machine.reachable_inv)
  have ch: "chain_inv m" unfolding assms(1) by (rule chain_machine.reachable_inv)
  have phases: "ad_phase (?as ! j) \<in> {Waiting, Held, Gone}" if "j < length ?as" for j
    using stuck that by (cases "ad_phase (?as ! j)") (auto simp: can_proceed_def in_phase_def)
  have leaf: "ad_phase (?as ! d) = Waiting"
    if "d < length ?as" "ad_phase (?as ! d) \<noteq> Gone"
      "\<forall>j < length ?as. d \<in> set (ad_chain (?as ! j)) \<longrightarrow> ad_phase (?as ! j) = Gone" for d
    using stuck that phases [of d] by (auto simp: can_proceed_def in_phase_def)
  have waits: "ad_wanted (?as ! d) ! ad_got (?as ! d) \<in> ?awaited"
    if "d < length ?as" "ad_phase (?as ! d) = Waiting" for d
    using that by (auto simp: tally_in ad_awaits_def intro!: bexI [of _ "?as ! d"])
  obtain d where "d < length ?as" "ad_phase (?as ! d) = Waiting"
    using held_leaf_or_stuck [OF inv ch assms(2,3)] leaf by metis
  then have "?awaited \<noteq> {}" using waits by blast
  then obtain k where k: "k \<in> ?awaited" "\<forall>k' \<in> ?awaited. \<not> key_less k k'"
    using key_order.greatest_key [of ?awaited] by auto
  obtain w where w: "w < length ?as" "ad_phase (?as ! w) = Waiting"
    "k = ad_wanted (?as ! w) ! ad_got (?as ! w)"
    using k(1) by (auto simp: tally_in ad_awaits_def in_set_conv_nth split: if_splits)
  then have "\<not> token_free m k" using stuck by (auto simp: can_proceed_def in_phase_def)
  then have "0 < count (tally ad_holds ?as) k"
    using inv_gate_ok [OF inv, of k]
    by (auto simp: gate_ok_def token_free_def simp del: count_greater_zero_iff split: option.splits)
  then obtain h where h: "h < length ?as" "k \<in> set (ad_holds (?as ! h))"
    by (auto simp: tally_in in_set_conv_nth [of _ ?as])
  note okh = inv_ok [OF inv h(1)]
  have "ad_phase (?as ! h) \<noteq> Gone" using okh h(2) by (auto simp: admission_ok_def ad_holds_def)
  moreover have "ad_phase (?as ! h) \<noteq> Waiting"
    using awaited_above_held [OF okh _ h(2)] waits [OF h(1)] k(2) by blast
  ultimately have held: "ad_phase (?as ! h) = Held" using phases [OF h(1)] by simp
  then have live: "ad_phase (?as ! h) \<noteq> Gone" by simp
  obtain d where d: "d = h \<or> h \<in> set (ad_chain (?as ! d))" "d < length ?as"
    "ad_phase (?as ! d) = Waiting"
    using held_leaf_or_stuck [OF inv ch h(1) live] leaf by metis
  with held have "h \<in> set (ad_chain (?as ! d))" by auto
  moreover have "k \<in> set (ad_wanted (?as ! h))" using h(2) by (auto simp: ad_holds_def dest: in_set_takeD)
  moreover have "ad_wanted (?as ! d) ! ad_got (?as ! d) \<in> set (ad_wanted (?as ! d))"
    using inv_ok [OF inv d(2)] d(3) by (simp add: admission_ok_def)
  ultimately have "key_less k (ad_wanted (?as ! d) ! ad_got (?as ! d))"
    using inv d(2) held unfolding admission_inv_def nesting_inv_def by blast
  with waits [OF d(2,3)] k(2) show False by blast
qed

theorem admission_no_deadlock_witness:
  "\<exists>j < length (am_admissions (foldl admission_move new_admission_manager two_admissions)).
     can_proceed (foldl admission_move new_admission_manager two_admissions) j"
proof (rule admission_no_deadlock [OF refl, where i = 2])
  show "2 < length (am_admissions (foldl admission_move new_admission_manager two_admissions))"
    by code_simp
  show "ad_phase (am_admissions (foldl admission_move new_admission_manager two_admissions) ! 2) \<noteq> Gone"
    by code_simp
qed

section \<open>Closing\<close>

text \<open>
  Closing drains the admissions.  Once closing has begun every new entry is refused, the
  idle channel is closed exactly when the last admission is over, and by then no gate is left.
\<close>

lemma admission_close_drains:
  assumes "m = foldl admission_move new_admission_manager ss" and "am_closed m"
  shows "(\<exists>e. enter_keys chain keys ctx_err m = (m, Inl e)) \<and>
    (am_idle_closed m \<longleftrightarrow> (\<forall>a \<in> set (am_admissions m). ad_phase a = Gone)) \<and>
    (am_idle_closed m \<longrightarrow> am_gates m = [])"
proof -
  have inv: "admission_inv m" unfolding assms(1) by (rule admission_machine.reachable_inv)
  have "\<exists>e. enter_keys chain keys ctx_err m = (m, Inl e)"
    using assms(2) by (auto simp: enter_keys_def split: option.split sum.split)
  moreover have "am_idle_closed m \<longleftrightarrow> (\<forall>a \<in> set (am_admissions m). ad_phase a = Gone)"
    using inv assms(2) by (simp add: admission_inv_def closing_inv_def active_count_zero)
  ultimately show ?thesis using gone_no_gates [OF inv] by blast
qed

definition closing_run :: "admission_step list" where
  "closing_run = two_admissions @ [BeginCloseAdmission, GiveUp 2 None, ReleaseNext 2,
     ReleaseNext 2, Leave 0, ReleaseNext 0, ReleaseNext 0, GiveUp 1 None, Advance 1 None,
     TakeToken 1, Advance 1 None, ReleaseNext 1, ReleaseNext 1, ReleaseNext 1, ReleaseNext 1]"

lemma admission_close_drains_witness:
  "\<exists>e. enter_keys [] (enter_scope_keys sample_scope) None
     (foldl admission_move new_admission_manager closing_run) =
       (foldl admission_move new_admission_manager closing_run, Inl e)"
  by (rule admission_close_drains [OF refl, THEN conjunct1]) code_simp

section \<open>The order of an activation\<close>

lemma plan_keys_sorted_input:
  assumes "sorted_wrt (\<lambda>a b. \<not> key_less b a) ks"
    and "\<forall>k \<in> set ks. \<forall>h \<in> set held. \<not> key_less k h"
  shows "\<exists>wanted. plan_keys held ks = Inr wanted \<and> set wanted = set ks - set held"
  using assms
proof (induction ks arbitrary: held)
  case (Cons k ks)
  show ?case
  proof (cases "k \<in> set held")
    case True
    with Cons show ?thesis by auto
  next
    case False
    have "find (\<lambda>old. key_less k old) held = None"
      using Cons.prems(2) by (simp add: find_None_iff)
    moreover obtain wanted where "plan_keys (held @ [k]) ks = Inr wanted"
      "set wanted = set ks - set (held @ [k])"
      using Cons.IH [of "held @ [k]"] Cons.prems by auto
    ultimately show ?thesis using False by auto
  qed
qed simp

text \<open>
  Activation respects its own lock order.  After the scope key, the sorted session keys of
  \<open>EnterActivation\<close> and \<open>EnterBinding\<close> are never refused: all distinct nonempty sessions named are
  taken, each once and in ascending order.
\<close>

lemma activation_order_ok:
  "\<exists>wanted. plan_keys [scope_admission_key s] (session_admission_keys (activation_sessions targets current)) = Inr wanted \<and>
     ak_name ` set wanted = set (activation_sessions targets current) - {[]} \<and>
     sorted_wrt (\<lambda>a b. compare_admission_key a b < 0) wanted"
proof -
  let ?ids = "activation_sessions targets current"
  let ?ks = "session_admission_keys ?ids"
  have "sorted_wrt (\<lambda>a b. \<not> key_less b a) ?ks"
    unfolding session_admission_keys_def by (rule key_order.sorted_by_cmp)
  moreover have above: "\<forall>k \<in> set ?ks. \<forall>h \<in> set [scope_admission_key s]. \<not> key_less k h \<and> k \<noteq> h"
    by (auto simp: session_admission_keys_def scope_admission_key_def compare_admission_key_def compare_int_def)
  ultimately obtain wanted where w: "plan_keys [scope_admission_key s] ?ks = Inr wanted"
    "set wanted = set ?ks - {scope_admission_key s}"
    using plan_keys_sorted_input [of ?ks "[scope_admission_key s]"] by auto
  then have "set wanted = set ?ks" using above by auto
  then have "ak_name ` set wanted = ak_name ` set ?ks" by (rule arg_cong)
  also have "\<dots> = set (filter (\<lambda>i. i \<noteq> []) ?ids)"
    unfolding session_admission_keys_def set_stable_sort set_map image_image by simp
  finally have "ak_name ` set wanted = set ?ids - {[]}" by auto
  with w plan_keys_sorted [OF w(1)] show ?thesis by blast
qed

end
