(* ===== verification/Session_Binding.thy ===== *)
theory Session_Binding
  imports Session_Admission_Laws
begin

text \<open>
  Current bindings (\<open>internal/session/binding/manager.go\<close>, \<open>signals.go\<close>,
  \<open>internal/session/share/binding.go\<close>): which session is active in a scope, under a version
  counter, with changes published once the outermost admission is released.

  A binding handle is an index into \<open>bm_heap\<close>, so handle identity is equality of indices.
  \<open>bm_events\<close> are the events a lease keeps, and after its release those it still has to
  publish; \<open>bm_emitted\<close> are the events handed to the signal (\<open>EmitAsync\<close>), and \<open>bm_committed\<close>
  is a trace of all events in commit order, which the code does not keep.  Committing a change
  and passing its event on is one step, as callers end their operations inside a lease
  before they release it.
\<close>

section \<open>State\<close>

record binding =
  bd_scope :: session_scope
  bd_session :: string
  bd_version :: int
  bd_valid :: bool

record binding_event =
  be_version :: int
  be_old :: "nat option"
  be_new :: "nat option"

record binding_manager =
  bm_admission :: admission_manager
  bm_heap :: "binding list"
  bm_current :: "(scope_key \<times> nat) list"
  bm_version :: int
  bm_events :: "nat \<Rightarrow> binding_event list"
  bm_emitted :: "binding_event list"
  bm_committed :: "binding_event list"
  bm_done :: bool
  bm_panicked :: bool

definition new_binding_manager :: binding_manager where
  "new_binding_manager = \<lparr>bm_admission = new_admission_manager, bm_heap = [], bm_current = [],
     bm_version = 0, bm_events = (\<lambda>i. []), bm_emitted = [], bm_committed = [], bm_done = False,
     bm_panicked = False\<rparr>"

definition new_binding :: "session_scope \<Rightarrow> string \<Rightarrow> int \<Rightarrow> binding" where
  "new_binding s i v = \<lparr>bd_scope = s, bd_session = i, bd_version = v, bd_valid = True\<rparr>"

text \<open>\<open>uint64\<close> increment.\<close>

definition next_version :: "int \<Rightarrow> int" where
  "next_version v = (v + 1) mod 2 ^ 64"

section \<open>Operations\<close>

definition current_binding :: "binding_manager \<Rightarrow> session_scope \<Rightarrow> nat option" where
  "current_binding m s = map_of (bm_current m) (key_of_scope s)"

definition invalidate :: "nat \<Rightarrow> binding list \<Rightarrow> binding list" where
  "invalidate b h = h[b := (h ! b)\<lparr>bd_valid := False\<rparr>]"

text \<open>\<open>publishChange\<close>: the outermost live lease of the context keeps the event.\<close>

definition publish_change :: "nat list \<Rightarrow> binding_event \<Rightarrow> binding_manager \<Rightarrow> binding_manager" where
  "publish_change chain e m =
     (case filter (lease_live (bm_admission m)) chain of
        [] \<Rightarrow> m\<lparr>bm_emitted := bm_emitted m @ [e]\<rparr>
      | l # ls \<Rightarrow> m\<lparr>bm_events := (bm_events m)(last (l # ls) := bm_events m (last (l # ls)) @ [e])\<rparr>)"

definition commit_change :: "nat list \<Rightarrow> nat option \<Rightarrow> nat option \<Rightarrow> binding_manager \<Rightarrow> binding_manager" where
  "commit_change chain old new m =
     (let e = \<lparr>be_version = bm_version m, be_old = old, be_new = new\<rparr>
      in publish_change chain e (m\<lparr>bm_committed := bm_committed m @ [e]\<rparr>))"

text \<open>\<open>SetCurrent\<close>; after the final close the map is nil and storing into it panics.\<close>

definition retire_old :: "nat option \<Rightarrow> binding list \<Rightarrow> binding list" where
  "retire_old old h = (case old of None \<Rightarrow> h | Some b \<Rightarrow> invalidate b h)"

definition set_current ::
  "nat list \<Rightarrow> session_scope \<Rightarrow> string \<Rightarrow> binding_manager \<Rightarrow> binding_manager" where
  "set_current chain s i m =
     (let old = current_binding m s; k = key_of_scope s; v = next_version (bm_version m);
          h = retire_old old (bm_heap m) in
      if (case old of None \<Rightarrow> i = [] | Some b \<Rightarrow> bd_session (bm_heap m ! b) = i) then m
      else if i = [] then
        commit_change chain old None
          (m\<lparr>bm_version := v, bm_heap := h, bm_current := AList.delete k (bm_current m)\<rparr>)
      else if bm_done m then m\<lparr>bm_panicked := True\<rparr>
      else
        commit_change chain old (Some (length h))
          (m\<lparr>bm_version := v, bm_heap := h @ [new_binding s i v],
             bm_current := AList.update k (length h) (bm_current m)\<rparr>))"

text \<open>
  \<open>ClearSessionBindings\<close>.  The order in which Go visits the map is the argument; the events
  are published after the loop, in the same order.
\<close>

definition clear_one :: "nat list \<Rightarrow> string \<Rightarrow> binding_manager \<Rightarrow> scope_key \<Rightarrow> binding_manager" where
  "clear_one chain i m k =
     (case map_of (bm_current m) k of
        None \<Rightarrow> m
      | Some b \<Rightarrow>
          if bd_session (bm_heap m ! b) \<noteq> i then m
          else commit_change chain (Some b) None
                 (m\<lparr>bm_version := next_version (bm_version m), bm_heap := invalidate b (bm_heap m),
                    bm_current := AList.delete k (bm_current m)\<rparr>))"

definition clear_session_bindings ::
  "nat list \<Rightarrow> string \<Rightarrow> scope_key list \<Rightarrow> binding_manager \<Rightarrow> binding_manager" where
  "clear_session_bindings chain i order m = foldl (clear_one chain i) m order"

text \<open>The check at the end of \<open>EnterBinding\<close>, inside the two admissions.\<close>

definition enter_binding_ok :: "binding_manager \<Rightarrow> nat \<Rightarrow> bool" where
  "enter_binding_ok m b \<longleftrightarrow>
     bd_valid (bm_heap m ! b) \<and> current_binding m (bd_scope (bm_heap m ! b)) = Some b"

text \<open>The goroutine of \<open>Close\<close>, once the idle channel is closed.\<close>

definition final_close :: "binding_manager \<Rightarrow> binding_manager" where
  "final_close m =
     m\<lparr>bm_heap := foldl (\<lambda>h p. invalidate (snd p) h) (bm_heap m) (bm_current m), bm_current := [],
       bm_admission := (bm_admission m)\<lparr>am_gates := []\<rparr>, bm_done := True\<rparr>"

text \<open>
  The release function publishes what its lease kept after the gates are free and before the
  admission is over.
\<close>

definition publish_next :: "nat \<Rightarrow> binding_manager \<Rightarrow> binding_manager" where
  "publish_next i m =
     publish_change (ad_chain (am_admissions (bm_admission m) ! i)) (hd (bm_events m i))
       (m\<lparr>bm_events := (bm_events m)(i := tl (bm_events m i))\<rparr>)"

definition must_publish :: "nat \<Rightarrow> binding_manager \<Rightarrow> bool" where
  "must_publish i m \<longleftrightarrow> in_phase (bm_admission m) i Releasing \<and>
     ad_got (am_admissions (bm_admission m) ! i) = 0 \<and> bm_events m i \<noteq> []"

datatype binding_step =
    Admission admission_step
  | SetCurrent "nat list" session_scope string
  | ClearSessionBindings "nat list" string "scope_key list"
  | FinalClose

definition admission_step_of :: "admission_step \<Rightarrow> binding_manager \<Rightarrow> binding_manager" where
  "admission_step_of s m = m\<lparr>bm_admission := admission_move (bm_admission m) s\<rparr>"

fun binding_move :: "binding_manager \<Rightarrow> binding_step \<Rightarrow> binding_manager" where
  "binding_move m (Admission (ReleaseNext i)) =
     (if must_publish i m then publish_next i m else admission_step_of (ReleaseNext i) m)"
| "binding_move m (Admission s) = admission_step_of s m"
| "binding_move m (SetCurrent chain s i) =
     (if valid_chain (bm_admission m) chain then set_current chain s i m else m)"
| "binding_move m (ClearSessionBindings chain i order) =
     (if valid_chain (bm_admission m) chain \<and> distinct order \<and> set order = fst ` set (bm_current m)
      then clear_session_bindings chain i order m else m)"
| "binding_move m FinalClose =
     (if am_idle_closed (bm_admission m) \<and> \<not> bm_done m then final_close m else m)"

text \<open>
  The contract of the two writers: \<open>SetCurrent\<close> is called inside an admission of its scope,
  \<open>ClearSessionBindings\<close> inside one of the session.
\<close>

definition session_key :: "string \<Rightarrow> admission_key" where
  "session_key i = \<lparr>ak_kind = 1, ak_scope = empty_scope_key, ak_name = i\<rparr>"

fun inside_admission :: "binding_manager \<Rightarrow> binding_step \<Rightarrow> bool" where
  "inside_admission m (SetCurrent chain s i) =
     (scope_admission_key s \<in> set (held_keys (bm_admission m) chain))"
| "inside_admission m (ClearSessionBindings chain i order) =
     (session_key i \<in> set (held_keys (bm_admission m) chain))"
| "inside_admission m s = True"

fun step_chain :: "binding_step \<Rightarrow> nat list" where
  "step_chain (SetCurrent chain s i) = chain"
| "step_chain (ClearSessionBindings chain i order) = chain"
| "step_chain s = []"

fun orderly :: "binding_manager \<Rightarrow> binding_step list \<Rightarrow> bool" where
  "orderly m [] = True"
| "orderly m (s # ss) = (inside_admission m s \<and> orderly (binding_move m s) ss)"

end
