(* ===== verification/Session_Binding_Laws.thy ===== *)
theory Session_Binding_Laws
  imports Session_Binding
begin

text \<open>
  The invariant of the binding table: which handles are valid, where every committed event is,
  and how versions are numbered; and the two components as guarded machines.
\<close>

section \<open>The invariant\<close>

definition heap_ok :: "binding list \<Rightarrow> (scope_key \<Rightarrow> nat option) \<Rightarrow> bool" where
  "heap_ok h f \<longleftrightarrow>
     (\<forall>k b. f k = Some b \<longrightarrow> b < length h \<and> bd_valid (h ! b) \<and> key_of_scope (bd_scope (h ! b)) = k \<and>
        bd_session (h ! b) \<noteq> []) \<and>
     (\<forall>b < length h. bd_valid (h ! b) \<longrightarrow> f (key_of_scope (bd_scope (h ! b))) = Some b)"

definition pending :: "binding_manager \<Rightarrow> binding_event multiset" where
  "pending m = mset (bm_emitted m) +
     (\<Sum>i < length (am_admissions (bm_admission m)). mset (bm_events m i))"

definition keeps_events :: "admission_manager \<Rightarrow> nat \<Rightarrow> bool" where
  "keeps_events m i \<longleftrightarrow> in_phase m i Held \<or> in_phase m i Releasing"

definition events_ok :: "binding_manager \<Rightarrow> bool" where
  "events_ok m \<longleftrightarrow> mset (bm_committed m) = pending m \<and>
     (\<forall>i. bm_events m i \<noteq> [] \<longrightarrow> keeps_events (bm_admission m) i)"

definition versions_ok :: "binding_manager \<Rightarrow> bool" where
  "versions_ok m \<longleftrightarrow> bm_version m = int (length (bm_committed m)) mod 2 ^ 64 \<and>
     map be_version (bm_committed m) = map (\<lambda>n. int (Suc n) mod 2 ^ 64) [0..<length (bm_committed m)]"

definition table_ok :: "binding_manager \<Rightarrow> bool" where
  "table_ok m \<longleftrightarrow> heap_ok (bm_heap m) (map_of (bm_current m)) \<and> distinct (map fst (bm_current m)) \<and>
     (bm_done m \<longrightarrow> am_idle_closed (bm_admission m))"

definition binding_inv :: "binding_manager \<Rightarrow> bool" where
  "binding_inv m \<longleftrightarrow> admission_inv (bm_admission m) \<and> table_ok m \<and> events_ok m \<and> versions_ok m"

lemma next_version_mod: "next_version (int n mod 2 ^ 64) = int (Suc n) mod 2 ^ 64"
  unfolding next_version_def of_nat_Suc by (simp only: mod_add_left_eq add.commute [of 1])

section \<open>The heap of handles\<close>

lemma heap_ok_current:
  "heap_ok h f \<Longrightarrow> f k = Some b \<Longrightarrow>
     b < length h \<and> bd_valid (h ! b) \<and> key_of_scope (bd_scope (h ! b)) = k \<and> bd_session (h ! b) \<noteq> []"
  by (simp add: heap_ok_def)

lemma heap_ok_valid:
  "heap_ok h f \<Longrightarrow> b < length h \<Longrightarrow> bd_valid (h ! b) \<Longrightarrow> f (key_of_scope (bd_scope (h ! b))) = Some b"
  by (simp add: heap_ok_def)

lemma heap_okI:
  assumes "\<And>k b. f k = Some b \<Longrightarrow>
      b < length h \<and> bd_valid (h ! b) \<and> key_of_scope (bd_scope (h ! b)) = k \<and> bd_session (h ! b) \<noteq> []"
    and "\<And>b. b < length h \<Longrightarrow> bd_valid (h ! b) \<Longrightarrow> f (key_of_scope (bd_scope (h ! b))) = Some b"
  shows "heap_ok h f"
  using assms by (simp add: heap_ok_def)

lemma heap_ok_retire:
  assumes ok: "heap_ok h f"
  shows "heap_ok (retire_old (f k) h) (f(k := None))"
proof (cases "f k")
  case None
  with ok show ?thesis by (simp add: retire_old_def fun_upd_idem)
next
  case (Some b)
  note b = heap_ok_current [OF ok Some]
  have h: "retire_old (f k) h = h[b := (h ! b)\<lparr>bd_valid := False\<rparr>]"
    using Some by (simp add: retire_old_def invalidate_def)
  show ?thesis
  proof (unfold h, rule heap_okI)
    fix k' c
    assume "(f(k := None)) k' = Some c"
    then have k': "k' \<noteq> k" "f k' = Some c" by (auto split: if_splits)
    with heap_ok_current [OF ok k'(2)] b have "c \<noteq> b" by auto
    with heap_ok_current [OF ok k'(2)]
    show "c < length (h[b := (h ! b)\<lparr>bd_valid := False\<rparr>]) \<and> bd_valid (h[b := (h ! b)\<lparr>bd_valid := False\<rparr>] ! c) \<and>
        key_of_scope (bd_scope (h[b := (h ! b)\<lparr>bd_valid := False\<rparr>] ! c)) = k' \<and>
        bd_session (h[b := (h ! b)\<lparr>bd_valid := False\<rparr>] ! c) \<noteq> []" by simp
  next
    fix c
    assume c: "c < length (h[b := (h ! b)\<lparr>bd_valid := False\<rparr>])" "bd_valid (h[b := (h ! b)\<lparr>bd_valid := False\<rparr>] ! c)"
    with b have "c \<noteq> b" by auto
    with c have "f (key_of_scope (bd_scope (h ! c))) = Some c" using heap_ok_valid [OF ok, of c] by simp
    moreover from this \<open>c \<noteq> b\<close> Some have "key_of_scope (bd_scope (h ! c)) \<noteq> k" by auto
    ultimately show "(f(k := None)) (key_of_scope (bd_scope (h[b := (h ! b)\<lparr>bd_valid := False\<rparr>] ! c))) = Some c"
      using \<open>c \<noteq> b\<close> by simp
  qed
qed

lemma heap_ok_add:
  assumes ok: "heap_ok h f" and "f (key_of_scope s) = None" and "i \<noteq> []"
  shows "heap_ok (h @ [new_binding s i v]) (f(key_of_scope s \<mapsto> length h))"
proof (rule heap_okI)
  fix k b
  assume f: "(f(key_of_scope s \<mapsto> length h)) k = Some b"
  show "b < length (h @ [new_binding s i v]) \<and> bd_valid ((h @ [new_binding s i v]) ! b) \<and>
      key_of_scope (bd_scope ((h @ [new_binding s i v]) ! b)) = k \<and> bd_session ((h @ [new_binding s i v]) ! b) \<noteq> []"
  proof (cases "k = key_of_scope s")
    case True
    with f assms(3) show ?thesis by (auto simp: new_binding_def)
  next
    case False
    with f heap_ok_current [OF ok, of k b] show ?thesis by (auto simp: nth_append)
  qed
next
  fix b
  assume b: "b < length (h @ [new_binding s i v])" "bd_valid ((h @ [new_binding s i v]) ! b)"
  show "(f(key_of_scope s \<mapsto> length h)) (key_of_scope (bd_scope ((h @ [new_binding s i v]) ! b))) = Some b"
  proof (cases "b = length h")
    case True
    then show ?thesis by (simp add: new_binding_def)
  next
    case False
    with b have "f (key_of_scope (bd_scope (h ! b))) = Some b"
      using heap_ok_valid [OF ok, of b] by (simp add: nth_append)
    moreover from this assms(2) have "key_of_scope (bd_scope (h ! b)) \<noteq> key_of_scope s" by auto
    ultimately show ?thesis using False b by (simp add: nth_append)
  qed
qed

lemma length_retire [simp]: "length (retire_old old h) = length h"
  by (simp add: retire_old_def invalidate_def split: option.split)

lemma invalidate_all:
  "set bs \<subseteq> {..<length h} \<Longrightarrow> length (foldl (\<lambda>h b. invalidate b h) h bs) = length h \<and>
     (\<forall>b < length h. bd_scope (foldl (\<lambda>h b. invalidate b h) h bs ! b) = bd_scope (h ! b) \<and>
        bd_valid (foldl (\<lambda>h b. invalidate b h) h bs ! b) = (bd_valid (h ! b) \<and> b \<notin> set bs))"
  by (induction bs arbitrary: h) (auto simp: invalidate_def nth_list_update)

section \<open>Publishing\<close>

lemma publish_fields [simp]:
  "bm_admission (publish_change chain e m) = bm_admission m"
  "bm_heap (publish_change chain e m) = bm_heap m"
  "bm_current (publish_change chain e m) = bm_current m"
  "bm_version (publish_change chain e m) = bm_version m"
  "bm_committed (publish_change chain e m) = bm_committed m"
  "bm_done (publish_change chain e m) = bm_done m"
  "bm_panicked (publish_change chain e m) = bm_panicked m"
  by (simp_all add: publish_change_def split: list.split)

lemma commit_fields [simp]:
  "bm_admission (commit_change chain old new m) = bm_admission m"
  "bm_heap (commit_change chain old new m) = bm_heap m"
  "bm_current (commit_change chain old new m) = bm_current m"
  "bm_version (commit_change chain old new m) = bm_version m"
  "bm_done (commit_change chain old new m) = bm_done m"
  "bm_panicked (commit_change chain old new m) = bm_panicked m"
  by (simp_all add: commit_change_def Let_def)

lemma sum_fun_upd:
  assumes "l < (n::nat)"
  shows "(\<Sum>i < n. mset ((ev(l := xs)) i)) + mset (ev l) = (\<Sum>i < n. mset (ev i)) + mset xs"
proof -
  have split: "(\<Sum>i < n. g i) = g l + (\<Sum>i \<in> {..<n} - {l}. g i)" for g :: "nat \<Rightarrow> 'a multiset"
    using assms by (simp add: sum.remove)
  have "(\<Sum>i \<in> {..<n} - {l}. mset ((ev(l := xs)) i)) = (\<Sum>i \<in> {..<n} - {l}. mset (ev i))"
    by (rule sum.cong) auto
  then show ?thesis
    using split [of "\<lambda>i. mset ((ev(l := xs)) i)"] split [of "\<lambda>i. mset (ev i)"] by simp
qed

lemma live_keeps: "lease_live m i \<Longrightarrow> keeps_events m i \<and> i < length (am_admissions m)"
  by (simp add: lease_live_def keeps_events_def in_phase_def)

lemma publish_event:
  "pending (publish_change chain e m) = add_mset e (pending m) \<and>
   ((\<forall>i. bm_events m i \<noteq> [] \<longrightarrow> keeps_events (bm_admission m) i) \<longrightarrow>
    (\<forall>i. bm_events (publish_change chain e m) i \<noteq> [] \<longrightarrow> keeps_events (bm_admission m) i))"
proof (cases "filter (lease_live (bm_admission m)) chain")
  case Nil
  then show ?thesis by (simp add: publish_change_def pending_def)
next
  case (Cons l ls)
  define t where "t = last (l # ls)"
  have "t \<in> set (filter (lease_live (bm_admission m)) chain)"
    unfolding t_def Cons using last_in_set [of "l # ls"] by blast
  then have live: "keeps_events (bm_admission m) t" "t < length (am_admissions (bm_admission m))"
    using live_keeps by auto
  have p: "publish_change chain e m = m\<lparr>bm_events := (bm_events m)(t := bm_events m t @ [e])\<rparr>"
    using Cons by (simp add: publish_change_def t_def)
  have "(\<Sum>i < length (am_admissions (bm_admission m)). mset (((bm_events m)(t := bm_events m t @ [e])) i)) =
      add_mset e (\<Sum>i < length (am_admissions (bm_admission m)). mset (bm_events m i))"
    using sum_fun_upd [OF live(2), of "bm_events m" "bm_events m t @ [e]"] by simp
  then show ?thesis using live(1) unfolding p pending_def by simp
qed

section \<open>Committing a change\<close>

lemma commit_events:
  assumes "events_ok m" and "bm_admission m' = bm_admission m" and "bm_emitted m' = bm_emitted m"
    and "bm_events m' = bm_events m" and "bm_committed m' = bm_committed m"
  shows "events_ok (commit_change chain old new m')"
proof -
  let ?e = "\<lparr>be_version = bm_version m', be_old = old, be_new = new\<rparr>"
  let ?m = "m'\<lparr>bm_committed := bm_committed m' @ [?e]\<rparr>"
  have "pending ?m = pending m" using assms by (simp add: pending_def)
  then show ?thesis
    using publish_event [of chain ?e ?m] assms
    by (simp add: events_ok_def commit_change_def Let_def)
qed

lemma commit_versions:
  assumes "versions_ok m" and "bm_version m' = next_version (bm_version m)"
    and "bm_committed m' = bm_committed m"
  shows "versions_ok (commit_change chain old new m')"
  using assms
  by (simp add: versions_ok_def commit_change_def next_version_mod [simplified] Let_def)

lemma commit_inv:
  assumes "binding_inv m" and "heap_ok h (map_of cur)" and "distinct (map fst cur)"
    and m': "m' = m\<lparr>bm_version := next_version (bm_version m), bm_heap := h, bm_current := cur\<rparr>"
  shows "binding_inv (commit_change chain old new m')"
proof -
  have "events_ok (commit_change chain old new m')"
    by (rule commit_events) (use assms(1) m' in \<open>simp_all add: binding_inv_def\<close>)
  moreover have "versions_ok (commit_change chain old new m')"
    by (rule commit_versions) (use assms(1) m' in \<open>simp_all add: binding_inv_def\<close>)
  ultimately show ?thesis using assms by (simp add: binding_inv_def table_ok_def)
qed

lemma map_of_delete: "map_of (AList.delete k xs) = (map_of xs)(k := None)"
  by (rule ext) (simp add: delete_conv')

lemma set_current_inv:
  assumes inv: "binding_inv m"
  shows "binding_inv (set_current chain s i m)"
proof -
  let ?k = "key_of_scope s"
  let ?h = "retire_old (current_binding m s) (bm_heap m)"
  have ok: "heap_ok (bm_heap m) (map_of (bm_current m))" and d: "distinct (map fst (bm_current m))"
    using inv by (simp_all add: binding_inv_def table_ok_def)
  have h: "heap_ok ?h ((map_of (bm_current m))(?k := None))"
    unfolding current_binding_def by (rule heap_ok_retire [OF ok])
  have clear: "binding_inv (commit_change chain (current_binding m s) None
      (m\<lparr>bm_version := next_version (bm_version m), bm_heap := ?h,
         bm_current := AList.delete ?k (bm_current m)\<rparr>))"
    by (rule commit_inv [OF inv _ _ refl]) (use h d in \<open>simp_all add: map_of_delete distinct_delete\<close>)
  have set: "binding_inv (commit_change chain (current_binding m s) (Some (length ?h))
      (m\<lparr>bm_version := next_version (bm_version m),
         bm_heap := ?h @ [new_binding s i (next_version (bm_version m))],
         bm_current := AList.update ?k (length ?h) (bm_current m)\<rparr>))" if "i \<noteq> []"
    by (rule commit_inv [OF inv _ _ refl])
      (use heap_ok_add [OF h _ that, of s] d in \<open>simp_all add: update_conv' distinct_update del: length_retire\<close>)
  have panic: "binding_inv (m\<lparr>bm_panicked := True\<rparr>)"
    using inv by (simp add: binding_inv_def table_ok_def events_ok_def versions_ok_def pending_def)
  show ?thesis
    unfolding set_current_def Let_def
    by (intro if_split [where P = binding_inv, THEN iffD2] conjI impI)
      (use inv clear set panic in simp_all)
qed

lemma clear_one_inv:
  assumes inv: "binding_inv m"
  shows "binding_inv (clear_one chain i m k)"
proof (cases "map_of (bm_current m) k")
  case (Some b)
  have ok: "heap_ok (bm_heap m) (map_of (bm_current m))" and d: "distinct (map fst (bm_current m))"
    using inv by (simp_all add: binding_inv_def table_ok_def)
  have "binding_inv (commit_change chain (Some b) None
      (m\<lparr>bm_version := next_version (bm_version m), bm_heap := invalidate b (bm_heap m),
         bm_current := AList.delete k (bm_current m)\<rparr>))"
    by (rule commit_inv [OF inv _ _ refl])
      (use heap_ok_retire [OF ok, of k] d Some in \<open>simp_all add: map_of_delete distinct_delete retire_old_def\<close>)
  with inv Some show ?thesis by (simp add: clear_one_def)
qed (use inv in \<open>simp add: clear_one_def\<close>)

lemma clear_session_inv: "binding_inv m \<Longrightarrow> binding_inv (clear_session_bindings chain i order m)"
  unfolding clear_session_bindings_def
  by (induction order arbitrary: m) (auto intro: clear_one_inv)

section \<open>Admission steps and closing\<close>

lemma adm_length:
  "length (am_admissions (admission_move m s)) = length (am_admissions m) \<or>
   length (am_admissions (admission_move m s)) = Suc (length (am_admissions m))"
  by (cases s) (auto simp: enter_keys_def advance_def take_token_def give_up_def leave_def
      release_next_def begin_close_admission_def refer_gate_def release_gate_def put_gate_def close_idle_def
      finish_admission_def Let_def set_admission_def split: option.split sum.split)

lemma idle_step:
  "admission_inv m \<Longrightarrow> am_idle_closed m \<Longrightarrow> am_idle_closed (admission_move m s)"
  by (cases s) (auto simp: enter_keys_def advance_def take_token_def give_up_def leave_def
      release_next_def begin_close_admission_def refer_gate_def release_gate_def put_gate_def close_idle_def
      finish_admission_def Let_def set_admission_def admission_inv_def closing_inv_def
      split: option.split sum.split)


lemma release_gate_admissions [simp]:
  "am_admissions (refer_gate k m) = am_admissions m"
  "am_admissions (release_gate k b m) = am_admissions m"
  by (simp_all add: refer_gate_def release_gate_def Let_def split: option.split)

lemma admissions_move:
  "\<exists>as. am_admissions (admission_move m s) = as \<and>
     (\<forall>j. keeps_events m j \<longrightarrow> keeps_events (admission_move m s) j \<or>
        s = ReleaseNext j \<and> in_phase m j Releasing \<and> ad_got (am_admissions m ! j) = 0)"
proof (cases s)
  case (EnterKeys chain keys e)
  then show ?thesis
    by (auto simp: enter_keys_def keeps_events_def in_phase_def nth_append split: option.split sum.split)
next
  case (Advance i e)
  then show ?thesis
    by (auto simp: advance_def keeps_events_def in_phase_def nth_list_update Let_def)
next
  case (TakeToken i)
  then show ?thesis
    by (auto simp: take_token_def keeps_events_def in_phase_def nth_list_update Let_def split: option.split)
next
  case (GiveUp i e)
  then show ?thesis
    by (auto simp: give_up_def keeps_events_def in_phase_def nth_list_update Let_def)
next
  case (Leave i)
  then show ?thesis
    by (auto simp: leave_def keeps_events_def in_phase_def nth_list_update)
next
  case (ReleaseNext i)
  then show ?thesis
    by (auto simp: release_next_def keeps_events_def in_phase_def nth_list_update Let_def)
next
  case BeginCloseAdmission
  then show ?thesis
    by (auto simp: begin_close_admission_def close_idle_def keeps_events_def in_phase_def Let_def)
qed

lemma keeps_move:
  "keeps_events m j \<Longrightarrow> keeps_events (admission_move m s) j \<or>
     s = ReleaseNext j \<and> in_phase m j Releasing \<and> ad_got (am_admissions m ! j) = 0"
  using admissions_move by blast

lemma keeps_bound: "keeps_events m i \<Longrightarrow> i < length (am_admissions m)"
  by (auto simp: keeps_events_def in_phase_def)

lemma admission_step_events:
  assumes ok: "events_ok m" and safe: "\<And>i. s = ReleaseNext i \<Longrightarrow> \<not> must_publish i m"
  shows "events_ok (admission_step_of s m)"
proof -
  let ?n = "length (am_admissions (bm_admission m))"
  have "bm_events m ?n = []"
    using ok keeps_bound [of "bm_admission m" ?n] by (auto simp: events_ok_def)
  then have "pending (admission_step_of s m) = pending m"
    using adm_length [of "bm_admission m" s]
    by (auto simp: pending_def admission_step_of_def lessThan_Suc)
  moreover have "keeps_events (admission_move (bm_admission m) s) i" if "bm_events m i \<noteq> []" for i
    using keeps_move [of "bm_admission m" i s] ok safe [of i] that
    by (auto simp: events_ok_def must_publish_def)
  ultimately show ?thesis using ok by (simp add: events_ok_def admission_step_of_def)
qed

lemma admission_step_inv:
  assumes inv: "binding_inv m" and safe: "\<And>i. s = ReleaseNext i \<Longrightarrow> \<not> must_publish i m"
  shows "binding_inv (admission_step_of s m)"
proof -
  have "events_ok (admission_step_of s m)"
    by (rule admission_step_events) (use inv safe in \<open>simp_all add: binding_inv_def\<close>)
  then show ?thesis
    using inv admission_move_inv idle_step
    by (simp add: binding_inv_def table_ok_def versions_ok_def admission_step_of_def)
qed

lemma publish_next_inv:
  assumes inv: "binding_inv m" and must: "must_publish i m"
  shows "binding_inv (publish_next i m)"
proof -
  let ?e = "hd (bm_events m i)"
  let ?m = "m\<lparr>bm_events := (bm_events m)(i := tl (bm_events m i))\<rparr>"
  have ne: "bm_events m i = ?e # tl (bm_events m i)" and i: "i < length (am_admissions (bm_admission m))"
    using must by (auto simp: must_publish_def in_phase_def)
  have "mset (bm_events m i) = add_mset ?e (mset (tl (bm_events m i)))"
    using arg_cong [OF ne, of mset] by simp
  then have "pending m = add_mset ?e (pending ?m)"
    using sum_fun_upd [OF i, of "bm_events m" "tl (bm_events m i)"] by (simp add: pending_def)
  moreover have "keeps_events (bm_admission m) j" if "bm_events ?m j \<noteq> []" for j
  proof -
    have "bm_events m j \<noteq> []" using that ne by (cases "j = i") (auto split: if_splits)
    with inv show ?thesis by (simp add: binding_inv_def events_ok_def)
  qed
  ultimately have "events_ok (publish_next i m)"
    using publish_event [of "ad_chain (am_admissions (bm_admission m) ! i)" ?e ?m] inv
    unfolding binding_inv_def events_ok_def publish_next_def by simp
  then show ?thesis
    using inv by (simp add: binding_inv_def table_ok_def versions_ok_def publish_next_def)
qed

lemma final_close_inv:
  assumes inv: "binding_inv m" and idle: "am_idle_closed (bm_admission m)"
  shows "binding_inv (final_close m)"
proof -
  have ok: "heap_ok (bm_heap m) (map_of (bm_current m))" and d: "distinct (map fst (bm_current m))"
    using inv by (simp_all add: binding_inv_def table_ok_def)
  let ?bs = "map snd (bm_current m)"
  have bs: "b \<in> set ?bs \<longleftrightarrow> (\<exists>k. map_of (bm_current m) k = Some b)" for b
    using d by (auto simp: image_iff) (metis map_of_SomeD snd_conv)+
  define h where "h = foldl (\<lambda>h b. invalidate b h) (bm_heap m) ?bs"
  have fc: "final_close m = m\<lparr>bm_heap := h, bm_current := [],
      bm_admission := (bm_admission m)\<lparr>am_gates := []\<rparr>, bm_done := True\<rparr>"
    by (simp add: final_close_def h_def foldl_map)
  have bound: "set ?bs \<subseteq> {..<length (bm_heap m)}"
    using bs heap_ok_current [OF ok] by blast
  have "heap_ok h (map_of [])"
  proof (rule heap_okI)
    fix b
    assume b: "b < length h" "bd_valid (h ! b)"
    then have "b < length (bm_heap m)" "bd_valid (bm_heap m ! b)" "b \<notin> set ?bs"
      using invalidate_all [OF bound] unfolding h_def by auto
    with heap_ok_valid [OF ok] bs show "map_of [] (key_of_scope (bd_scope (h ! b))) = Some b" by blast
  qed simp
  moreover have "(bm_admission m)\<lparr>am_gates := []\<rparr> = bm_admission m"
  proof -
    have "\<forall>a \<in> set (am_admissions (bm_admission m)). ad_phase a = Gone"
      using inv idle idle_all_gone unfolding binding_inv_def by blast
    then have "am_gates (bm_admission m) = []" using gone_no_gates inv by (simp add: binding_inv_def)
    then show ?thesis by simp
  qed
  ultimately show ?thesis
    using inv idle
    unfolding fc binding_inv_def table_ok_def events_ok_def versions_ok_def pending_def by simp
qed

lemma binding_move_inv: "binding_inv m \<Longrightarrow> binding_inv (binding_move m s)"
proof (cases s)
  case (Admission t)
  assume inv: "binding_inv m"
  show ?thesis
  proof (cases "\<exists>i. t = ReleaseNext i \<and> must_publish i m")
    case True
    with inv Admission show ?thesis by (auto intro: publish_next_inv)
  next
    case False
    then have "binding_move m s = admission_step_of t m" using Admission by (cases t) auto
    with False inv show ?thesis by (auto intro: admission_step_inv)
  qed
qed (simp_all add: set_current_inv clear_session_inv final_close_inv)

lemma new_binding_inv: "binding_inv new_binding_manager"
  using new_admission_inv
  by (simp add: binding_inv_def table_ok_def events_ok_def versions_ok_def heap_ok_def pending_def
      new_binding_manager_def)

interpretation binding_machine: guarded_machine new_binding_manager binding_move binding_inv
  by unfold_locales (rule new_binding_inv, erule binding_move_inv)


lemma all_gone_emitted:
  assumes "binding_inv m" and "\<forall>a \<in> set (am_admissions (bm_admission m)). ad_phase a = Gone"
  shows "mset (bm_emitted m) = mset (bm_committed m)"
proof -
  have "bm_events m i = []" if "i < length (am_admissions (bm_admission m))" for i
    using assms that by (fastforce simp: binding_inv_def events_ok_def keeps_events_def in_phase_def)
  with assms(1) show ?thesis by (simp add: binding_inv_def events_ok_def pending_def)
qed

end
