(* ===== verification/Session_Binding_Props.thy ===== *)
theory Session_Binding_Props
  imports Session_Binding_Laws
begin

text \<open>
  What the binding table promises: one activation per scope and none revived, every committed
  change announced once under its own version, and an admitted binding that nobody outside the
  admission can take away.
\<close>

section \<open>Handles only grow and only lose validity\<close>

definition heap_grows :: "binding list \<Rightarrow> binding list \<Rightarrow> bool" where
  "heap_grows h h' \<longleftrightarrow> length h \<le> length h' \<and>
     (\<forall>b < length h. bd_scope (h' ! b) = bd_scope (h ! b) \<and> bd_session (h' ! b) = bd_session (h ! b) \<and>
        bd_version (h' ! b) = bd_version (h ! b) \<and> (bd_valid (h' ! b) \<longrightarrow> bd_valid (h ! b)))"

lemma heap_grows_refl [simp]: "heap_grows h h"
  by (simp add: heap_grows_def)

lemma heap_grows_trans: "heap_grows h h' \<Longrightarrow> heap_grows h' h'' \<Longrightarrow> heap_grows h h''"
  by (auto simp: heap_grows_def)

lemma heap_grows_invalidate [simp]: "heap_grows h (invalidate b h)"
  by (cases "b < length h") (auto simp: heap_grows_def invalidate_def nth_list_update)

lemma heap_grows_retire [simp]: "heap_grows h (retire_old old h)"
  by (simp add: retire_old_def split: option.split)

lemma heap_grows_append [simp]: "heap_grows h (h @ xs)"
  by (simp add: heap_grows_def nth_append)

lemma heap_grows_foldl: "heap_grows h (foldl (\<lambda>h p. invalidate (snd p) h) h ps)"
proof (induction ps arbitrary: h)
  case (Cons p ps)
  show ?case
    using heap_grows_trans [OF heap_grows_invalidate Cons.IH [of "invalidate (snd p) h"]] by simp
qed simp

lemma set_current_grows: "heap_grows (bm_heap m) (bm_heap (set_current chain s i m))"
  by (auto simp: set_current_def Let_def intro: heap_grows_trans [OF heap_grows_retire heap_grows_append])

lemma clear_session_grows: "heap_grows (bm_heap m) (bm_heap (clear_session_bindings chain i order m))"
  unfolding clear_session_bindings_def
proof (induction order arbitrary: m)
  case (Cons k order)
  have "heap_grows (bm_heap m) (bm_heap (clear_one chain i m k))"
    by (simp add: clear_one_def split: option.split)
  from heap_grows_trans [OF this Cons.IH] show ?case by simp
qed simp

lemma binding_move_grows: "heap_grows (bm_heap m) (bm_heap (binding_move m s))"
proof (cases s)
  case (Admission t)
  then show ?thesis by (cases t) (auto simp: admission_step_of_def publish_next_def)
qed (auto simp: set_current_grows clear_session_grows final_close_def heap_grows_foldl)

lemma run_grows: "heap_grows (bm_heap m) (bm_heap (foldl binding_move m ss))"
  by (induction ss arbitrary: m) (auto intro: heap_grows_trans binding_move_grows)

interpretation retired: one_way_flag binding_move
    "\<lambda>m. b < length (bm_heap m) \<and> \<not> bd_valid (bm_heap m ! b)" for b
  by unfold_locales (meson binding_move_grows heap_grows_def order_less_le_trans)

text \<open>
  C13: one activation per scope, and no revival.  In every reachable state a handle is valid
  exactly if it is the current binding of its own scope (so at most one per scope), which is
  what entering a binding checks; a handle that has become invalid stays invalid whatever
  happens later, and scope, session and version of a handle never change.
\<close>

theorem binding_activation_unique:
  assumes "m = foldl binding_move new_binding_manager ss" and "b < length (bm_heap m)"
    and "m' = foldl binding_move m ts"
  shows "(bd_valid (bm_heap m ! b) \<longleftrightarrow> current_binding m (bd_scope (bm_heap m ! b)) = Some b) \<and>
    (enter_binding_ok m b \<longleftrightarrow> bd_valid (bm_heap m ! b)) \<and>
    (\<not> bd_valid (bm_heap m ! b) \<longrightarrow> \<not> bd_valid (bm_heap m' ! b)) \<and>
    bd_scope (bm_heap m' ! b) = bd_scope (bm_heap m ! b) \<and>
    bd_session (bm_heap m' ! b) = bd_session (bm_heap m ! b) \<and>
    bd_version (bm_heap m' ! b) = bd_version (bm_heap m ! b)"
proof -
  have "binding_inv m" unfolding assms(1) by (rule binding_machine.reachable_inv)
  then have ok: "heap_ok (bm_heap m) (map_of (bm_current m))"
    by (simp add: binding_inv_def table_ok_def)
  have v: "bd_valid (bm_heap m ! b) \<longleftrightarrow> current_binding m (bd_scope (bm_heap m ! b)) = Some b"
    using heap_ok_valid [OF ok assms(2)] heap_ok_current [OF ok, of _ b]
    by (auto simp: current_binding_def)
  then show ?thesis
    using retired.run_raised [of b m ts] run_grows [of m ts] assms(2)
    unfolding assms(3) enter_binding_ok_def heap_grows_def by blast
qed

definition bound_scope :: session_scope where
  "bound_scope = \<lparr>ss_task_type = [], ss_task_id = [], ss_chat_type = ''private'',
     ss_owner = \<lparr>ac_platform = ''cli'', ac_id = ''u''\<rparr>, ss_platform = ''cli'', ss_chat_id = ''c'',
     ss_is_cli = True\<rparr>"

definition enter_steps :: "binding_step list" where
  "enter_steps =
     [Admission (EnterKeys [] (enter_scope_keys bound_scope) None), Admission (Advance 0 None),
      Admission (TakeToken 0), Admission (Advance 0 None),
      Admission (EnterKeys [0] (session_admission_keys [''s1'']) None), Admission (Advance 1 None),
      Admission (TakeToken 1), Admission (Advance 1 None)]"

definition bound_run :: "binding_step list" where
  "bound_run = enter_steps @ [SetCurrent [1, 0] bound_scope ''s1'']"

theorem binding_activation_unique_witness:
  "enter_binding_ok (foldl binding_move new_binding_manager bound_run) 0 =
   bd_valid (bm_heap (foldl binding_move new_binding_manager bound_run) ! 0)"
  by (rule binding_activation_unique [OF refl _ refl, where ts = "[]", THEN conjunct2, THEN conjunct1])
    code_simp

section \<open>Every committed change is announced once\<close>

lemma versions_count:
  assumes "versions_ok m" and "int (length (bm_committed m)) < 2 ^ 64"
  shows "map be_version (bm_committed m) = map int [1..<Suc (length (bm_committed m))]"
proof -
  have "map (\<lambda>n. int (Suc n) mod 2 ^ 64) [0..<length (bm_committed m)] =
      map (\<lambda>n. int (Suc n)) [0..<length (bm_committed m)]"
    by (rule map_cong) (use assms(2) in auto)
  also have "\<dots> = map int (map Suc [0..<length (bm_committed m)])" by simp
  finally show ?thesis using assms(1) by (simp only: versions_ok_def map_Suc_upt One_nat_def)
qed

text \<open>
  C15: every committed binding change is announced exactly once.  At any time the events handed
  to the signal together with those the unfinished leases still keep are exactly the committed
  ones; once no admission is outstanding all of them have been handed over.  The n-th change
  carries version n (until 2^64 changes).
\<close>

theorem binding_events_delivered:
  assumes "m = foldl binding_move new_binding_manager ss"
    and "int (length (bm_committed m)) < 2 ^ 64"
  shows "mset (bm_committed m) = mset (bm_emitted m) +
      (\<Sum>i < length (am_admissions (bm_admission m)). mset (bm_events m i)) \<and>
    ((\<forall>a \<in> set (am_admissions (bm_admission m)). ad_phase a = Gone) \<longrightarrow>
       mset (bm_emitted m) = mset (bm_committed m)) \<and>
    map be_version (bm_committed m) = map int [1..<Suc (length (bm_committed m))]"
proof -
  have inv: "binding_inv m" unfolding assms(1) by (rule binding_machine.reachable_inv)
  then have ev: "events_ok m" by (simp add: binding_inv_def)
  with inv versions_count [OF _ assms(2)] all_gone_emitted [OF inv] show ?thesis
    by (simp add: events_ok_def pending_def binding_inv_def)
qed

definition leaving_run :: "binding_step list" where
  "leaving_run = bound_run @ map Admission [Leave 1, ReleaseNext 1, ReleaseNext 1, Leave 0,
     ReleaseNext 0] @ [Admission (ReleaseNext 0), Admission (ReleaseNext 0)]"

theorem binding_events_delivered_witness:
  "map be_version (bm_committed (foldl binding_move new_binding_manager leaving_run)) =
     map int [1..<Suc (length (bm_committed (foldl binding_move new_binding_manager leaving_run)))] \<and>
   length (bm_emitted (foldl binding_move new_binding_manager leaving_run)) = 1"
proof
  show "map be_version (bm_committed (foldl binding_move new_binding_manager leaving_run)) =
     map int [1..<Suc (length (bm_committed (foldl binding_move new_binding_manager leaving_run)))]"
    by (rule binding_events_delivered [OF refl, THEN conjunct2, THEN conjunct2]) code_simp
  show "length (bm_emitted (foldl binding_move new_binding_manager leaving_run)) = 1"
    by code_simp
qed

section \<open>Inside an admission\<close>

lemma held_key_lease:
  assumes "admission_inv m" and "k \<in> set (held_keys m chain)"
  obtains i where "i \<in> set chain" and "lease_live m i" and "k \<in> set (ad_holds (am_admissions m ! i))"
proof -
  obtain i where i: "i \<in> set chain" "lease_live m i" "k \<in> set (ad_wanted (am_admissions m ! i))"
    using assms(2) by (auto simp: held_keys_def split: if_splits)
  then have "ad_got (am_admissions m ! i) = length (ad_wanted (am_admissions m ! i))"
    using inv_ok [OF assms(1), of i] by (simp add: lease_live_def admission_ok_def)
  with i that show ?thesis by (simp add: ad_holds_def)
qed

lemma held_once:
  assumes "admission_inv m" and "k \<in> set (held_keys m chain)" and "k \<in> set (held_keys m other)"
  shows "\<exists>i \<in> set chain. i \<in> set other \<and> lease_live m i"
  using held_key_lease [OF assms(1,2)] held_key_lease [OF assms(1,3)] holds_exclusive [OF assms(1)]
  by (metis lease_live_def)

lemma held_not_idle:
  assumes "admission_inv m" and "k \<in> set (held_keys m chain)"
  shows "\<not> am_idle_closed m"
proof
  assume "am_idle_closed m"
  then have "\<forall>a \<in> set (am_admissions m). ad_phase a = Gone"
    using assms(1) idle_all_gone by blast
  moreover obtain i where "lease_live m i" using held_key_lease [OF assms] by blast
  ultimately show False by (auto simp: lease_live_def)
qed

lemma scope_key_same: "scope_admission_key s = scope_admission_key t \<longleftrightarrow> key_of_scope s = key_of_scope t"
  by (simp add: scope_admission_key_def)

lemma set_current_other:
  assumes "key_of_scope t \<noteq> key_of_scope s"
  shows "current_binding (set_current chain s i m) t = current_binding m t"
  using assms by (simp add: set_current_def Let_def current_binding_def update_conv' delete_conv')

lemma clear_one_other:
  assumes "current_binding m t = Some b"
    and "bd_session (bm_heap m ! b) \<noteq> i"
  shows "current_binding (clear_one chain i m k) t = Some b \<and>
    bd_session (bm_heap (clear_one chain i m k) ! b) = bd_session (bm_heap m ! b)"
proof (cases "map_of (bm_current m) k")
  case (Some c)
  show ?thesis
  proof (cases "bd_session (bm_heap m ! c) = i")
    case True
    with assms Some have "c \<noteq> b" "k \<noteq> key_of_scope t" by (auto simp: current_binding_def)
    with assms(1) Some True show ?thesis
      by (simp add: clear_one_def current_binding_def delete_conv' invalidate_def)
  qed (use assms Some in \<open>simp add: clear_one_def\<close>)
qed (use assms in \<open>simp add: clear_one_def\<close>)

lemma clear_session_other:
  assumes "current_binding m t = Some b" and "bd_session (bm_heap m ! b) \<noteq> i"
  shows "current_binding (clear_session_bindings chain i order m) t = Some b"
  using assms unfolding clear_session_bindings_def
proof (induction order arbitrary: m)
  case (Cons k order)
  from clear_one_other [OF Cons.prems, of chain k] Cons show ?case by simp
qed simp

text \<open>
  C14: an entered binding stays.  While some context holds the admissions of a binding's scope
  and session and the binding is current (what \<open>EnterBinding\<close> has checked), no step of anybody
  else changes that: neither a switch of the scope, nor clearing the session, nor a close, as
  long as the writers keep to their contract of working inside an admission of their own.
\<close>

theorem entered_binding_stays:
  assumes "m = foldl binding_move new_binding_manager ss"
    and "b < length (bm_heap m)" and "enter_binding_ok m b"
    and "scope_admission_key (bd_scope (bm_heap m ! b)) \<in> set (held_keys (bm_admission m) mine)"
    and "session_key (bd_session (bm_heap m ! b)) \<in> set (held_keys (bm_admission m) mine)"
    and "inside_admission m s"
    and "\<forall>i \<in> set (step_chain s). i \<in> set mine \<longrightarrow> \<not> lease_live (bm_admission m) i"
  shows "enter_binding_ok (binding_move m s) b"
proof -
  let ?t = "bd_scope (bm_heap m ! b)"
  have inv: "binding_inv m" unfolding assms(1) by (rule binding_machine.reachable_inv)
  then have adm: "admission_inv (bm_admission m)" by (simp add: binding_inv_def)
  have cur: "current_binding m ?t = Some b" using assms(3) by (simp add: enter_binding_ok_def)
  have apart: "k \<notin> set (held_keys (bm_admission m) (step_chain s))"
    if "k \<in> set (held_keys (bm_admission m) mine)" for k
    using held_once [OF adm that] assms(7) by blast
  have stays: "current_binding (binding_move m s) ?t = Some b"
  proof (cases s)
    case (Admission t)
    with cur show ?thesis
      by (cases t) (auto simp: current_binding_def admission_step_of_def publish_next_def)
  next
    case (SetCurrent chain u i)
    with apart [OF assms(4)] assms(6) have "key_of_scope ?t \<noteq> key_of_scope u"
      using scope_key_same [of ?t u] by auto
    with set_current_other cur SetCurrent show ?thesis by simp
  next
    case (ClearSessionBindings chain i order)
    with apart [OF assms(5)] assms(6) have "bd_session (bm_heap m ! b) \<noteq> i" by auto
    with clear_session_other [OF cur] cur ClearSessionBindings show ?thesis by simp
  next
    case FinalClose
    with cur held_not_idle [OF adm assms(4)] show ?thesis by simp
  qed
  have inv': "heap_ok (bm_heap (binding_move m s)) (map_of (bm_current (binding_move m s)))"
    using binding_move_inv [OF inv] by (simp add: binding_inv_def table_ok_def)
  have "bd_scope (bm_heap (binding_move m s) ! b) = ?t"
    using binding_move_grows [of m s] assms(2) by (simp add: heap_grows_def)
  moreover have "bd_valid (bm_heap (binding_move m s) ! b)"
    using heap_ok_current [OF inv'] stays by (auto simp: current_binding_def)
  ultimately show ?thesis using stays by (simp add: enter_binding_ok_def)
qed

theorem entered_binding_stays_witness:
  "enter_binding_ok (binding_move (foldl binding_move new_binding_manager bound_run) FinalClose) 0"
  by (rule entered_binding_stays [OF refl, where mine = "[1, 0]"]) code_simp+

section \<open>Closing\<close>

lemma panic_free_step:
  assumes "binding_inv m" and "inside_admission m s" and "\<not> bm_panicked m"
  shows "\<not> bm_panicked (binding_move m s)"
proof (cases s)
  case (Admission t)
  with assms(3) show ?thesis by (cases t) (auto simp: admission_step_of_def publish_next_def)
next
  case (SetCurrent chain u i)
  with assms held_not_idle [of "bm_admission m" "scope_admission_key u" chain] have "\<not> bm_done m"
    by (auto simp: binding_inv_def table_ok_def)
  with SetCurrent assms(3) show ?thesis by (simp add: set_current_def Let_def)
next
  case (ClearSessionBindings chain i order)
  have "bm_panicked (clear_session_bindings chain i order m) = bm_panicked m"
    unfolding clear_session_bindings_def
    by (induction order arbitrary: m) (simp_all add: clear_one_def split: option.split)
  with ClearSessionBindings assms(3) show ?thesis by simp
qed (use assms(3) in \<open>simp add: final_close_def\<close>)

lemma orderly_no_panic:
  "binding_inv m \<Longrightarrow> orderly m ss \<Longrightarrow> \<not> bm_panicked m \<Longrightarrow> \<not> bm_panicked (foldl binding_move m ss)"
proof (induction ss arbitrary: m)
  case (Cons s ss)
  then have "\<not> bm_panicked (binding_move m s)" by (intro panic_free_step) simp_all
  with Cons binding_move_inv [of m s] show ?case by simp
qed simp

lemma clear_session_empty:
  "bm_current m = [] \<Longrightarrow> bm_current (clear_session_bindings chain i order m) = []"
  unfolding clear_session_bindings_def by (induction order) (simp_all add: clear_one_def)

lemma clear_session_done [simp]: "bm_done (clear_session_bindings chain i order m) = bm_done m"
  unfolding clear_session_bindings_def
  by (induction order arbitrary: m) (simp_all add: clear_one_def split: option.split)

lemma done_current_step:
  "bm_done m \<longrightarrow> bm_current m = [] \<Longrightarrow> bm_done (binding_move m s) \<longrightarrow> bm_current (binding_move m s) = []"
proof (cases s)
  case (Admission t)
  then show "bm_done m \<longrightarrow> bm_current m = [] \<Longrightarrow> ?thesis"
    by (cases t) (auto simp: admission_step_of_def publish_next_def)
qed (auto simp: set_current_def Let_def final_close_def clear_session_empty)

interpretation closed_table: guarded_machine new_binding_manager binding_move
    "\<lambda>m. bm_done m \<longrightarrow> bm_current m = []"
  by unfold_locales (simp add: new_binding_manager_def, erule done_current_step)

text \<open>
  C16: the table closes in good order.  If all writers work inside admissions, no sequence of
  calls makes the table panic (in particular nobody stores into the map after the final close),
  and after the close no handle is valid and every committed change has been announced.
\<close>

theorem binding_close_orderly:
  assumes "m = foldl binding_move new_binding_manager ss" and "orderly new_binding_manager ss"
  shows "\<not> bm_panicked m \<and>
    (bm_done m \<longrightarrow> bm_current m = [] \<and> (\<forall>b < length (bm_heap m). \<not> bd_valid (bm_heap m ! b)) \<and>
       mset (bm_emitted m) = mset (bm_committed m))"
proof -
  have inv: "binding_inv m" unfolding assms(1) by (rule binding_machine.reachable_inv)
  have "\<not> bm_panicked m"
    unfolding assms(1)
    by (rule orderly_no_panic [OF new_binding_inv assms(2)]) (simp add: new_binding_manager_def)
  moreover have cur: "bm_done m \<longrightarrow> bm_current m = []"
    unfolding assms(1) by (rule closed_table.reachable_inv)
  moreover have "\<not> bd_valid (bm_heap m ! b)" if "bm_done m" "b < length (bm_heap m)" for b
    using inv cur that heap_ok_valid [of "bm_heap m" "map_of (bm_current m)" b]
    by (auto simp: binding_inv_def table_ok_def)
  moreover have "mset (bm_emitted m) = mset (bm_committed m)" if "bm_done m"
    by (rule all_gone_emitted [OF inv])
      (use inv that idle_all_gone in \<open>unfold binding_inv_def table_ok_def, blast\<close>)
  ultimately show ?thesis by blast
qed

definition closing_binding_run :: "binding_step list" where
  "closing_binding_run = leaving_run @ [Admission BeginCloseAdmission, FinalClose]"

theorem binding_close_orderly_witness:
  "orderly new_binding_manager closing_binding_run \<and>
   \<not> bm_panicked (foldl binding_move new_binding_manager closing_binding_run)"
proof
  show ord: "orderly new_binding_manager closing_binding_run" by code_simp
  show "\<not> bm_panicked (foldl binding_move new_binding_manager closing_binding_run)"
    by (rule binding_close_orderly [OF refl ord, THEN conjunct1])
qed

end
