(* ===== verification/Request_Manager.thy ===== *)
theory Request_Manager
  imports Elbot_Prelude "HOL-Library.AList"
begin

text \<open>
  Running requests (\<open>internal/request/manager.go\<close>) and the execution facts they put into their
  context (\<open>internal/contextinfo/execution.go\<close>).

  A context is an index into \<open>rm_contexts\<close>; each names the context it was made from, so
  \<open>ctx.Err()\<close> is the search for a cancelled ancestor.  Contexts made outside the component and
  ended timers are steps.  The persistent identifier sequence is code outside the component: its
  answer is an argument of the start.
\<close>

section \<open>State\<close>

record execution_info =
  ex_mode :: string
  ex_task_type :: string
  ex_task_id :: string
  ex_session :: string
  ex_request :: string
  ex_parent_request :: string
  ex_root_request :: string
  ex_run :: string
  ex_attempt :: string

definition no_execution :: execution_info where
  "no_execution = \<lparr>ex_mode = [], ex_task_type = [], ex_task_id = [], ex_session = [], ex_request = [],
     ex_parent_request = [], ex_root_request = [], ex_run = [], ex_attempt = []\<rparr>"

record req_context =
  rc_parent :: "nat option"
  rc_cancelled :: bool
  rc_execution :: "execution_info option"

datatype request_kind = KindTurn | KindTool | KindHook | KindCompress

record request =
  rq_id :: string
  rq_parent :: string
  rq_session :: string
  rq_kind :: request_kind
  rq_label :: string
  rq_stopping :: bool

record start_request =
  sr_parent :: string
  sr_session :: string
  sr_kind :: request_kind
  sr_label :: string

record active_request =
  ar_request :: request
  ar_context :: nat

record request_manager =
  rm_contexts :: "req_context list"
  rm_active :: "(string \<times> active_request) list"

definition new_request_manager :: request_manager where
  "new_request_manager = \<lparr>rm_contexts = [], rm_active = []\<rparr>"

section \<open>Contexts\<close>

text \<open>A context is made from an older one, so the search for a cancelled ancestor ends.\<close>

function ctx_ended :: "req_context list \<Rightarrow> nat \<Rightarrow> bool" where
  "ctx_ended cs i =
     (if length cs \<le> i then False
      else if rc_cancelled (cs ! i) then True
      else case rc_parent (cs ! i) of None \<Rightarrow> False | Some p \<Rightarrow> if p < i then ctx_ended cs p else False)"
  by pat_completeness auto
termination by (relation "measure snd") auto

declare ctx_ended.simps [simp del]

definition cancel_context :: "nat \<Rightarrow> request_manager \<Rightarrow> request_manager" where
  "cancel_context i m = m\<lparr>rm_contexts := (rm_contexts m)[i := (rm_contexts m ! i)\<lparr>rc_cancelled := True\<rparr>]\<rparr>"

definition execution_of :: "request_manager \<Rightarrow> nat option \<Rightarrow> execution_info" where
  "execution_of m parent =
     (case parent of None \<Rightarrow> no_execution
      | Some i \<Rightarrow> (case rc_execution (rm_contexts m ! i) of None \<Rightarrow> no_execution | Some e \<Rightarrow> e))"

section \<open>Operations\<close>

definition request_execution :: "request \<Rightarrow> execution_info \<Rightarrow> execution_info" where
  "request_execution r e0 =
     (let e1 = e0\<lparr>ex_request := rq_id r, ex_parent_request := rq_parent r\<rparr>;
          e2 = (if rq_session r \<noteq> [] then e1\<lparr>ex_session := rq_session r\<rparr> else e1)
      in if rq_kind r = KindTurn \<or> ex_root_request e2 = [] then e2\<lparr>ex_root_request := rq_id r\<rparr> else e2)"

definition start_request_op ::
  "nat option \<Rightarrow> start_request \<Rightarrow> go_error + string \<Rightarrow> request_manager \<Rightarrow>
     request_manager \<times> (go_error + request \<times> nat)" where
  "start_request_op parent s next_id m =
     (case next_id of
        Inl e \<Rightarrow> (m, Inl e)
      | Inr i \<Rightarrow>
          let r = \<lparr>rq_id = i, rq_parent = sr_parent s, rq_session = sr_session s, rq_kind = sr_kind s,
                rq_label = sr_label s, rq_stopping = False\<rparr>;
              c = \<lparr>rc_parent = parent, rc_cancelled = False,
                rc_execution = Some (request_execution r (execution_of m parent))\<rparr>;
              n = length (rm_contexts m)
          in (m\<lparr>rm_contexts := rm_contexts m @ [c],
                rm_active := AList.update i \<lparr>ar_request = r, ar_context = n\<rparr> (rm_active m)\<rparr>, Inr (r, n)))"

definition done_request :: "string \<Rightarrow> nat \<Rightarrow> request_manager \<Rightarrow> request_manager" where
  "done_request i c m = cancel_context c (m\<lparr>rm_active := AList.delete i (rm_active m)\<rparr>)"

definition snapshot_request :: "request_manager \<Rightarrow> active_request \<Rightarrow> request" where
  "snapshot_request m a =
     (ar_request a)\<lparr>rq_stopping := (rq_stopping (ar_request a) \<or> ctx_ended (rm_contexts m) (ar_context a))\<rparr>"

definition list_requests :: "request_manager \<Rightarrow> request list" where
  "list_requests m = map (snapshot_request m \<circ> snd) (rm_active m)"

definition list_by_session :: "string \<Rightarrow> request_manager \<Rightarrow> request list" where
  "list_by_session s m =
     map (snapshot_request m) (filter (\<lambda>a. rq_session (ar_request a) = s) (map snd (rm_active m)))"

definition get_request :: "string \<Rightarrow> request_manager \<Rightarrow> request option" where
  "get_request i m = map_option (snapshot_request m) (map_of (rm_active m) i)"

definition mark_stopping :: "string \<Rightarrow> active_request \<Rightarrow> request_manager \<Rightarrow> request_manager" where
  "mark_stopping i a m = m\<lparr>rm_active :=
     AList.update i (a\<lparr>ar_request := (ar_request a)\<lparr>rq_stopping := True\<rparr>\<rparr>) (rm_active m)\<rparr>"

definition cancel_request :: "string \<Rightarrow> request_manager \<Rightarrow> request_manager \<times> bool" where
  "cancel_request i m =
     (case map_of (rm_active m) i of
        None \<Rightarrow> (m, False)
      | Some a \<Rightarrow>
          if rq_stopping (snapshot_request m a) then (m, False)
          else (cancel_context (ar_context a) (mark_stopping i a m), True))"

text \<open>
  \<open>CancelSession\<close>: under the lock it marks what is not stopping, then it cancels; no context
  ends in between, so a request counts exactly if its snapshot was not stopping at the start.
\<close>

definition session_targets :: "string \<Rightarrow> request_manager \<Rightarrow> (string \<times> active_request) list" where
  "session_targets s m =
     filter (\<lambda>(i, a). rq_session (ar_request a) = s \<and> \<not> rq_stopping (snapshot_request m a)) (rm_active m)"

definition cancel_session :: "string \<Rightarrow> request_manager \<Rightarrow> request_manager \<times> nat" where
  "cancel_session s m =
     (let ts = session_targets s m;
          m1 = foldl (\<lambda>m (i, a). mark_stopping i a m) m ts
      in (foldl (\<lambda>m (i, a). cancel_context (ar_context a) m) m1 ts, length ts))"

section \<open>Steps\<close>

text \<open>
  A request that was started is finished by its owner with the identifier and context of the
  start (\<open>sync.OnceFunc\<close>: only while it is registered).  \<open>NewContext\<close> and \<open>EndContext\<close> are the
  contexts of callers: made from an older one, cancelled or timed out.
\<close>

datatype request_step =
    NewContext "nat option" "execution_info option"
  | EndContext nat
  | StartRequest "nat option" start_request "go_error + string"
  | DoneRequest string
  | CancelRequest string
  | CancelSession string

definition known_context :: "request_manager \<Rightarrow> nat option \<Rightarrow> bool" where
  "known_context m p = (case p of None \<Rightarrow> True | Some i \<Rightarrow> i < length (rm_contexts m))"

fun request_move :: "request_manager \<Rightarrow> request_step \<Rightarrow> request_manager" where
  "request_move m (NewContext p e) =
     (if known_context m p then m\<lparr>rm_contexts := rm_contexts m @
        [\<lparr>rc_parent = p, rc_cancelled = False, rc_execution = e\<rparr>]\<rparr> else m)"
| "request_move m (EndContext i) = (if i < length (rm_contexts m) then cancel_context i m else m)"
| "request_move m (StartRequest p s n) = (if known_context m p then fst (start_request_op p s n m) else m)"
| "request_move m (DoneRequest i) =
     (case map_of (rm_active m) i of None \<Rightarrow> m | Some a \<Rightarrow> done_request i (ar_context a) m)"
| "request_move m (CancelRequest i) = fst (cancel_request i m)"
| "request_move m (CancelSession s) = fst (cancel_session s m)"

end
