(* ===== verification/Request_Props.thy ===== *)
theory Request_Props
  imports Request_Manager
begin

text \<open>
  What the request table promises: a request stays registered until its owner is done with it,
  stopping is never taken back, and a cancellation reaches everything that runs under it.
\<close>

section \<open>Contexts only end\<close>

definition contexts_grow :: "req_context list \<Rightarrow> req_context list \<Rightarrow> bool" where
  "contexts_grow cs ds \<longleftrightarrow> length cs \<le> length ds \<and>
     (\<forall>i < length cs. rc_parent (ds ! i) = rc_parent (cs ! i) \<and> (rc_cancelled (cs ! i) \<longrightarrow> rc_cancelled (ds ! i)))"

lemma contexts_grow_refl [simp]: "contexts_grow cs cs"
  by (simp add: contexts_grow_def)

lemma contexts_grow_trans: "contexts_grow cs ds \<Longrightarrow> contexts_grow ds es \<Longrightarrow> contexts_grow cs es"
  by (auto simp: contexts_grow_def)

lemma contexts_grow_append [simp]: "contexts_grow cs (cs @ ds)"
  by (simp add: contexts_grow_def nth_append)

lemma contexts_grow_cancel [simp]: "contexts_grow (rm_contexts m) (rm_contexts (cancel_context i m))"
  by (cases "i < length (rm_contexts m)")
    (auto simp: contexts_grow_def cancel_context_def nth_list_update)

lemma ctx_ended_mono: "contexts_grow cs ds \<Longrightarrow> ctx_ended cs i \<Longrightarrow> ctx_ended ds i"
proof (induction cs i rule: ctx_ended.induct)
  case (1 cs i)
  then have i: "i < length cs" using ctx_ended.simps [of cs i] by (auto split: if_splits)
  with "1.prems" have d: "i < length ds" "rc_parent (ds ! i) = rc_parent (cs ! i)"
    "rc_cancelled (cs ! i) \<longrightarrow> rc_cancelled (ds ! i)" by (auto simp: contexts_grow_def)
  show ?case
  proof (cases "rc_cancelled (cs ! i)")
    case True
    with d show ?thesis using ctx_ended.simps [of ds i] by simp
  next
    case False
    with "1.prems"(2) i obtain p where p: "rc_parent (cs ! i) = Some p" "p < i" "ctx_ended cs p"
      using ctx_ended.simps [of cs i] by (auto split: option.splits if_splits)
    with "1.IH" [of p] False i "1.prems"(1) have "ctx_ended ds p" by simp
    with p d show ?thesis using ctx_ended.simps [of ds i] by simp
  qed
qed

lemma cancel_ends: "i < length (rm_contexts m) \<Longrightarrow> ctx_ended (rm_contexts (cancel_context i m)) i"
  by (simp add: ctx_ended.simps [of _ i] cancel_context_def)

text \<open>The contexts made from \<open>c\<close>, directly or not, and \<open>c\<close> itself.\<close>

inductive made_from :: "req_context list \<Rightarrow> nat \<Rightarrow> nat \<Rightarrow> bool" for cs c where
  self: "made_from cs c c"
| step: "made_from cs c p \<Longrightarrow> i < length cs \<Longrightarrow> p < i \<Longrightarrow> rc_parent (cs ! i) = Some p \<Longrightarrow> made_from cs c i"

lemma ended_below: "made_from cs c i \<Longrightarrow> ctx_ended cs c \<Longrightarrow> ctx_ended cs i"
  by (induction rule: made_from.induct) (auto simp: ctx_ended.simps [of cs])

lemma made_from_grow: "made_from cs c i \<Longrightarrow> contexts_grow cs ds \<Longrightarrow> made_from ds c i"
  by (induction rule: made_from.induct) (auto intro: made_from.intros simp: contexts_grow_def)

section \<open>The invariant\<close>

definition request_inv :: "request_manager \<Rightarrow> bool" where
  "request_inv m \<longleftrightarrow> distinct (map fst (rm_active m)) \<and>
     (\<forall>i a. map_of (rm_active m) i = Some a \<longrightarrow>
        rq_id (ar_request a) = i \<and> ar_context a < length (rm_contexts m))"

lemma request_invD:
  "request_inv m \<Longrightarrow> map_of (rm_active m) i = Some a \<Longrightarrow>
     rq_id (ar_request a) = i \<and> ar_context a < length (rm_contexts m)"
  by (simp add: request_inv_def)

lemma cancel_context_active [simp]:
  "rm_active (cancel_context i m) = rm_active m" "length (rm_contexts (cancel_context i m)) = length (rm_contexts m)"
  by (simp_all add: cancel_context_def)

lemma cancel_context_inv: "request_inv m \<Longrightarrow> request_inv (cancel_context i m)"
  by (simp add: request_inv_def)

lemma mark_inv:
  "request_inv m \<Longrightarrow> map_of (rm_active m) i = Some a \<Longrightarrow> request_inv (mark_stopping i a m)"
  by (auto simp: request_inv_def mark_stopping_def update_conv' distinct_update split: if_splits)

lemma mark_contexts [simp]: "rm_contexts (mark_stopping i a m) = rm_contexts m"
  by (simp add: mark_stopping_def)

lemma done_inv: "request_inv m \<Longrightarrow> request_inv (done_request i c m)"
  unfolding done_request_def
  by (rule cancel_context_inv) (auto simp: request_inv_def delete_conv' distinct_delete split: if_splits)

lemma start_inv:
  assumes inv: "request_inv m"
  shows "request_inv (fst (start_request_op p s n m))"
proof (cases n)
  case (Inr i)
  have "distinct (map fst (rm_active m))" using inv by (simp add: request_inv_def)
  moreover have "rq_id (ar_request a) = j \<and> ar_context a < Suc (length (rm_contexts m))"
    if "map_of (rm_active m) j = Some a" for j a
    using request_invD [OF inv that] by simp
  ultimately show ?thesis
    unfolding request_inv_def
    by (simp add: Inr start_request_op_def Let_def update_conv' distinct_update)
qed (use inv in \<open>simp add: start_request_op_def\<close>)

text \<open>Marking several requests, then cancelling their contexts.\<close>

abbreviation mark_all :: "(string \<times> active_request) list \<Rightarrow> request_manager \<Rightarrow> request_manager" where
  "mark_all ts m \<equiv> foldl (\<lambda>m (i, a). mark_stopping i a m) m ts"

abbreviation cancel_all :: "(string \<times> active_request) list \<Rightarrow> request_manager \<Rightarrow> request_manager" where
  "cancel_all ts m \<equiv> foldl (\<lambda>m (i, a). cancel_context (ar_context a) m) m ts"

lemma mark_all_lookup:
  "distinct (map fst ts) \<Longrightarrow> map_of (rm_active (mark_all ts m)) j =
     (case map_of ts j of None \<Rightarrow> map_of (rm_active m) j
      | Some a \<Rightarrow> Some (a\<lparr>ar_request := (ar_request a)\<lparr>rq_stopping := True\<rparr>\<rparr>))"
proof (induction ts arbitrary: m)
  case (Cons t ts)
  obtain i a where t: "t = (i, a)" by (cases t)
  with Cons.prems have "map_of ts i = None" by (simp add: map_of_eq_None_iff)
  with Cons t show ?case by (auto simp: mark_stopping_def update_conv' split: option.split)
qed simp

lemma mark_all_contexts [simp]: "rm_contexts (mark_all ts m) = rm_contexts m"
  by (induction ts arbitrary: m) auto

lemma mark_all_distinct:
  "distinct (map fst (rm_active m)) \<Longrightarrow> distinct (map fst (rm_active (mark_all ts m)))"
  by (induction ts arbitrary: m) (auto simp: mark_stopping_def distinct_update)

lemma cancel_all_active [simp]:
  "rm_active (cancel_all ts m) = rm_active m" "length (rm_contexts (cancel_all ts m)) = length (rm_contexts m)"
  by (induction ts arbitrary: m) auto

lemma cancel_all_grow: "contexts_grow (rm_contexts m) (rm_contexts (cancel_all ts m))"
proof (induction ts arbitrary: m)
  case (Cons t ts)
  then show ?case using contexts_grow_trans [OF contexts_grow_cancel] by (auto split: prod.split)
qed simp

lemma cancel_all_ends:
  "(i, a) \<in> set ts \<Longrightarrow> ar_context a < length (rm_contexts m) \<Longrightarrow>
     ctx_ended (rm_contexts (cancel_all ts m)) (ar_context a)"
proof (induction ts arbitrary: m)
  case (Cons t ts)
  show ?case
  proof (cases "t = (i, a)")
    case True
    have "ctx_ended (rm_contexts (cancel_context (ar_context a) m)) (ar_context a)"
      by (rule cancel_ends [OF Cons.prems(2)])
    then show ?thesis using True ctx_ended_mono [OF cancel_all_grow] by simp
  next
    case False
    with Cons show ?thesis by (auto split: prod.split)
  qed
qed simp

lemma targets_lookup:
  assumes "distinct (map fst (rm_active m))"
  shows "distinct (map fst (session_targets s m))"
    and "map_of (session_targets s m) i = (case map_of (rm_active m) i of None \<Rightarrow> None
      | Some a \<Rightarrow> if rq_session (ar_request a) = s \<and> \<not> rq_stopping (snapshot_request m a) then Some a else None)"
proof -
  show d: "distinct (map fst (session_targets s m))"
    unfolding session_targets_def by (rule distinct_filter_map [OF assms])
  have some: "map_of (session_targets s m) i = Some a \<longleftrightarrow> map_of (rm_active m) i = Some a \<and>
      rq_session (ar_request a) = s \<and> \<not> rq_stopping (snapshot_request m a)" for a
    unfolding map_of_eq_Some_iff [OF d] map_of_eq_Some_iff [OF assms] by (auto simp: session_targets_def)
  show "map_of (session_targets s m) i = (case map_of (rm_active m) i of None \<Rightarrow> None
      | Some a \<Rightarrow> if rq_session (ar_request a) = s \<and> \<not> rq_stopping (snapshot_request m a) then Some a else None)"
  proof (cases "map_of (session_targets s m) i")
    case None
    then have "rq_session (ar_request a) = s \<longrightarrow> rq_stopping (snapshot_request m a)"
      if "map_of (rm_active m) i = Some a" for a using some [of a] that by simp
    with None show ?thesis by (cases "map_of (rm_active m) i") simp_all
  next
    case (Some a)
    with some [of a] show ?thesis by simp
  qed
qed

lemma cancel_session_lookup:
  assumes "request_inv m"
  shows "map_of (rm_active (fst (cancel_session s m))) i = map_option
    (\<lambda>a. if rq_session (ar_request a) = s \<and> \<not> rq_stopping (snapshot_request m a)
         then a\<lparr>ar_request := (ar_request a)\<lparr>rq_stopping := True\<rparr>\<rparr> else a) (map_of (rm_active m) i)"
proof -
  have d: "distinct (map fst (rm_active m))" using assms by (simp add: request_inv_def)
  have "rm_active (fst (cancel_session s m)) = rm_active (mark_all (session_targets s m) m)"
    by (simp add: cancel_session_def Let_def)
  then show ?thesis
    unfolding mark_all_lookup [OF targets_lookup(1) [OF d]] targets_lookup(2) [OF d]
    by (cases "map_of (rm_active m) i") (simp_all add: mark_all_lookup [OF targets_lookup(1) [OF d]] targets_lookup(2) [OF d])
qed

lemma cancel_session_inv:
  assumes "request_inv m"
  shows "request_inv (fst (cancel_session s m))"
proof -
  have "distinct (map fst (rm_active (fst (cancel_session s m))))"
    using assms mark_all_distinct by (simp add: cancel_session_def Let_def request_inv_def)
  moreover have "length (rm_contexts (fst (cancel_session s m))) = length (rm_contexts m)"
    by (simp add: cancel_session_def Let_def)
  ultimately show ?thesis
    using assms by (auto simp: request_inv_def cancel_session_lookup [OF assms])
qed

lemma request_move_inv: "request_inv m \<Longrightarrow> request_inv (request_move m s)"
proof (cases s)
  case (NewContext p e)
  then show "request_inv m \<Longrightarrow> ?thesis" by (fastforce simp: request_inv_def)
next
  case (CancelRequest i)
  then show "request_inv m \<Longrightarrow> ?thesis"
    by (auto simp: cancel_request_def intro: cancel_context_inv mark_inv split: option.split)
qed (auto intro: cancel_context_inv start_inv done_inv cancel_session_inv split: option.split)

interpretation request_machine: guarded_machine new_request_manager request_move request_inv
  by unfold_locales (simp add: request_inv_def new_request_manager_def, erule request_move_inv)

section \<open>Registration\<close>

lemma move_contexts: "contexts_grow (rm_contexts m) (rm_contexts (request_move m s))"
proof (cases s)
  case (StartRequest p r n)
  then show ?thesis by (auto simp: start_request_op_def Let_def split: sum.split)
next
  case (DoneRequest i)
  have "contexts_grow (rm_contexts m) (rm_contexts (done_request i c m))" for c
    using contexts_grow_cancel [of "m\<lparr>rm_active := AList.delete i (rm_active m)\<rparr>" c]
    by (simp add: done_request_def)
  with DoneRequest show ?thesis by (simp split: option.split)
next
  case (CancelRequest i)
  have "contexts_grow (rm_contexts m) (rm_contexts (cancel_context c (mark_stopping i a m)))" for c a
    using contexts_grow_cancel [of "mark_stopping i a m" c] by simp
  with CancelRequest show ?thesis by (simp add: cancel_request_def split: option.split)
next
  case (CancelSession t)
  have "contexts_grow (rm_contexts m) (rm_contexts (cancel_all ts (mark_all ts m)))" for ts
    using cancel_all_grow [of "mark_all ts m" ts] by simp
  with CancelSession show ?thesis by (simp add: cancel_session_def Let_def)
qed simp_all

text \<open>The facts of a request apart from its stopping mark.\<close>

definition facts :: "request \<Rightarrow> request" where
  "facts r = r\<lparr>rq_stopping := False\<rparr>"

definition stays :: "active_request \<Rightarrow> active_request \<Rightarrow> bool" where
  "stays a b \<longleftrightarrow> facts (ar_request b) = facts (ar_request a) \<and> ar_context b = ar_context a \<and>
     (rq_stopping (ar_request a) \<longrightarrow> rq_stopping (ar_request b))"

lemma stays_refl [simp]: "stays a a"
  by (simp add: stays_def)

lemma stays_mark [simp]: "stays a (a\<lparr>ar_request := (ar_request a)\<lparr>rq_stopping := True\<rparr>\<rparr>)"
  by (simp add: stays_def facts_def)

fun ends_or_reuses :: "string \<Rightarrow> request_step \<Rightarrow> bool" where
  "ends_or_reuses i (DoneRequest j) = (i = j)"
| "ends_or_reuses i (StartRequest p s (Inr j)) = (i = j)"
| "ends_or_reuses i s = False"

lemma move_stays:
  assumes inv: "request_inv m" and a: "map_of (rm_active m) i = Some a" and s: "\<not> ends_or_reuses i s"
  shows "\<exists>b. map_of (rm_active (request_move m s)) i = Some b \<and> stays a b"
proof (cases s)
  case (StartRequest p r n)
  with a s show ?thesis by (cases n) (auto simp: start_request_op_def Let_def update_conv')
next
  case (DoneRequest j)
  with a s show ?thesis by (auto simp: done_request_def delete_conv' split: option.split)
next
  case (CancelRequest j)
  with a show ?thesis
    by (auto simp: cancel_request_def mark_stopping_def update_conv' split: option.split)
next
  case (CancelSession t)
  with a show ?thesis by (simp add: cancel_session_lookup [OF inv])
qed (use a in auto)

lemma run_stays:
  "request_inv m \<Longrightarrow> map_of (rm_active m) i = Some a \<Longrightarrow> \<forall>s \<in> set ss. \<not> ends_or_reuses i s \<Longrightarrow>
     (\<exists>b. map_of (rm_active (foldl request_move m ss)) i = Some b \<and> stays a b) \<and>
     contexts_grow (rm_contexts m) (rm_contexts (foldl request_move m ss))"
proof (induction ss arbitrary: m a)
  case (Cons s ss)
  obtain b where b: "map_of (rm_active (request_move m s)) i = Some b" "stays a b"
    using move_stays [OF Cons.prems(1,2), of s] Cons.prems(3) by auto
  from Cons.IH [OF request_move_inv [OF Cons.prems(1)] b(1)] Cons.prems(3) b(2)
    contexts_grow_trans [OF move_contexts [of m s]]
  show ?case by (fastforce simp: stays_def)
qed auto

text \<open>
  A request is registered until its owner is done with it.  Whatever is started, cancelled,
  timed out or finished in between, a request whose owner has not called done (and whose
  identifier is not given out again) stays in the table with the facts it was started with, and
  once it is shown as stopping it is shown as stopping ever after.
\<close>

lemma request_registered_until_done:
  assumes "m = foldl request_move new_request_manager ss" and "get_request i m = Some r"
    and "\<forall>s \<in> set ts. \<not> ends_or_reuses i s"
  shows "\<exists>r'. get_request i (foldl request_move m ts) = Some r' \<and> rq_id r' = i \<and> facts r' = facts r \<and>
    (rq_stopping r \<longrightarrow> rq_stopping r')"
proof -
  have inv: "request_inv m" unfolding assms(1) by (rule request_machine.reachable_inv)
  obtain a where a: "map_of (rm_active m) i = Some a" "r = snapshot_request m a"
    using assms(2) by (auto simp: get_request_def)
  obtain b where b: "map_of (rm_active (foldl request_move m ts)) i = Some b" "stays a b"
    and g: "contexts_grow (rm_contexts m) (rm_contexts (foldl request_move m ts))"
    using run_stays [OF inv a(1) assms(3)] by blast
  have "rq_id (ar_request b) = i"
    using request_invD [OF inv a(1)] b(2) by (metis facts_def stays_def request.ext_inject request.surjective request.update_convs(6))
  with a b ctx_ended_mono [OF g] show ?thesis
    by (auto simp: get_request_def snapshot_request_def stays_def facts_def)
qed

definition nested_run :: "request_step list" where
  "nested_run =
     [StartRequest None \<lparr>sr_parent = [], sr_session = ''s'', sr_kind = KindTurn, sr_label = []\<rparr> (Inr ''r1''),
      StartRequest (Some 0) \<lparr>sr_parent = ''r1'', sr_session = ''s'', sr_kind = KindTool, sr_label = []\<rparr> (Inr ''r2'')]"

lemma request_registered_until_done_witness:
  "\<exists>r'. get_request ''r2'' (foldl request_move (foldl request_move new_request_manager nested_run)
      [CancelRequest ''r1'', DoneRequest ''r1'']) = Some r' \<and> rq_id r' = ''r2'' \<and>
    facts r' = facts (the (get_request ''r2'' (foldl request_move new_request_manager nested_run))) \<and>
    (rq_stopping (the (get_request ''r2'' (foldl request_move new_request_manager nested_run))) \<longrightarrow> rq_stopping r')"
proof (rule request_registered_until_done [OF refl])
  show "get_request ''r2'' (foldl request_move new_request_manager nested_run) =
      Some (the (get_request ''r2'' (foldl request_move new_request_manager nested_run)))" by code_simp
  show "\<forall>s \<in> set [CancelRequest ''r1'', DoneRequest ''r1'']. \<not> ends_or_reuses ''r2'' s" by simp
qed

section \<open>Cancellation\<close>

lemma cancel_session_stops:
  assumes inv: "request_inv m" and r: "r \<in> set (list_by_session t (fst (cancel_session t m)))"
  shows "rq_stopping r"
proof -
  let ?m = "fst (cancel_session t m)"
  obtain j b where b: "(j, b) \<in> set (rm_active ?m)" "rq_session (ar_request b) = t" "r = snapshot_request ?m b"
    using r by (auto simp: list_by_session_def)
  have "distinct (map fst (rm_active ?m))" using cancel_session_inv [OF inv] by (simp add: request_inv_def)
  then have "map_of (rm_active ?m) j = Some b" using b(1) by simp
  then obtain a where a: "map_of (rm_active m) j = Some a"
    "b = (if rq_session (ar_request a) = t \<and> \<not> rq_stopping (snapshot_request m a)
          then a\<lparr>ar_request := (ar_request a)\<lparr>rq_stopping := True\<rparr>\<rparr> else a)"
    by (auto simp: cancel_session_lookup [OF inv])
  have g: "contexts_grow (rm_contexts m) (rm_contexts ?m)"
    using cancel_all_grow [of "mark_all (session_targets t m) m" "session_targets t m"]
    by (simp add: cancel_session_def Let_def)
  show ?thesis
  proof (cases "rq_stopping (snapshot_request m a)")
    case True
    then show ?thesis using a(2) b(3) ctx_ended_mono [OF g] by (auto simp: snapshot_request_def)
  next
    case False
    with a(2) b(2,3) show ?thesis by (auto simp: snapshot_request_def split: if_splits)
  qed
qed



end
