(* ===== verification/Elyph.thy ===== *)
theory Elyph
  imports Go_Strings
begin

text \<open>
  The ELyph parser (\<open>internal/elyph/parser.go\<close>, \<open>ast.go\<close>): the line language of skills and
  tasks.  A document is checked line by line against a stack of open blocks; every offence is a
  diagnostic, and only diagnostics of severity error make the document invalid.

  The texts of the diagnostics are constructors, so that each is named by the rule it reports.
  The parameter \<open>U\<close> holds \<open>unicode.IsLetter\<close> and \<open>unicode.IsDigit\<close> for runes beyond ASCII.
\<close>

section \<open>Data\<close>

record unicode_classes =
  uc_letter :: "nat \<Rightarrow> bool"
  uc_digit :: "nat \<Rightarrow> bool"

record elyph_step =
  es_name :: string
  es_line :: nat

record elyph_document =
  ed_kind :: string
  ed_name :: string
  ed_steps :: "elyph_step list"

record elyph_header =
  eh_kind :: string
  eh_name :: string
  eh_description :: string

datatype diagnostic_severity = NoSeverity | DiagnosticError | DiagnosticWarning

datatype elyph_message =
    ElyphRequired
  | FirstStatement string
  | HeaderOnlyOnce
  | UnexpectedClose
  | UnclosedBlock
  | MissingHeader string
  | KindMismatch string string
  | NameMismatch string string string
  | InvalidToken
  | BareElse
  | ElseForm
  | ElseWithoutIf
  | InputForm
  | OutputForm
  | AssignmentForm
  | DeriveForm
  | TernaryForm
  | ReservedVariable string
  | IfForm
  | EachForm
  | EachLimit
  | StepForm
  | StepBlockForm
  | StepSingleForm
  | StepNameForm
  | StepSingleEmpty
  | StepSingleBody
  | StepNested
  | StepUsed string
  | StepBlockEmpty
  | StepBlockSingle
  | OutputTextForm
  | CallForm
  | SlotEmpty string
  | SlotColon string

record diagnostic =
  dg_line :: nat
  dg_message :: elyph_message
  dg_severity :: diagnostic_severity

datatype block_kind = BlockIf | BlockElse | BlockEach | BlockStep

record block_frame =
  bf_kind :: block_kind
  bf_count :: nat

text \<open>The innermost open block is the head of \<open>ep_blocks\<close>; \<open>lastClosed\<close> is \<open>None\<close> for \<open>""\<close>.\<close>

record elyph_parser =
  ep_expected_kind :: string
  ep_expected_name :: string
  ep_doc :: elyph_document
  ep_diagnostics :: "diagnostic list"
  ep_seen_header :: bool
  ep_blocks :: "block_frame list"
  ep_last_closed :: "block_kind option"

definition empty_document :: elyph_document where
  "empty_document = \<lparr>ed_kind = [], ed_name = [], ed_steps = []\<rparr>"

definition new_parser :: "string \<Rightarrow> string \<Rightarrow> elyph_parser" where
  "new_parser k n =
     \<lparr>ep_expected_kind = trim_space k, ep_expected_name = trim_space n, ep_doc = empty_document,
      ep_diagnostics = [], ep_seen_header = False, ep_blocks = [], ep_last_closed = None\<rparr>"

definition add_error :: "nat \<Rightarrow> elyph_message \<Rightarrow> elyph_parser \<Rightarrow> elyph_parser" where
  "add_error n msg p = p\<lparr>ep_diagnostics := ep_diagnostics p @
     [\<lparr>dg_line = n, dg_message = msg, dg_severity = DiagnosticError\<rparr>]\<rparr>"

definition add_warning :: "nat \<Rightarrow> elyph_message \<Rightarrow> elyph_parser \<Rightarrow> elyph_parser" where
  "add_warning n msg p = p\<lparr>ep_diagnostics := ep_diagnostics p @
     [\<lparr>dg_line = n, dg_message = msg, dg_severity = DiagnosticWarning\<rparr>]\<rparr>"

section \<open>Names\<close>

definition lower_letter :: "nat \<Rightarrow> bool" where
  "lower_letter r \<longleftrightarrow> 97 \<le> r \<and> r \<le> 122"

definition ascii_digit :: "nat \<Rightarrow> bool" where
  "ascii_digit r \<longleftrightarrow> 48 \<le> r \<and> r \<le> 57"

definition name_rune :: "nat \<Rightarrow> bool" where
  "name_rune r \<longleftrightarrow> lower_letter r \<or> ascii_digit r \<or> r = 95 \<or> r = 45"

definition valid_name :: "string \<Rightarrow> bool" where
  "valid_name s =
     (if length s = 0 \<or> length s > 64 then False
      else case runes s of [] \<Rightarrow> True | r # rs \<Rightarrow> lower_letter r \<and> list_all name_rune rs)"

definition valid_step_name :: "string \<Rightarrow> bool" where
  "valid_step_name s =
     (if length s = 0 \<or> length s > 64 then False
      else case runes s of [] \<Rightarrow> True | r # rs \<Rightarrow> (lower_letter r \<or> ascii_digit r) \<and> list_all name_rune rs)"

definition is_letter :: "unicode_classes \<Rightarrow> nat \<Rightarrow> bool" where
  "is_letter U r = (if r < 128 then lower_letter r \<or> 65 \<le> r \<and> r \<le> 90 else uc_letter U r)"

definition is_digit_rune :: "unicode_classes \<Rightarrow> nat \<Rightarrow> bool" where
  "is_digit_rune U r = (if r < 128 then ascii_digit r else uc_digit U r)"

definition valid_ident :: "unicode_classes \<Rightarrow> string \<Rightarrow> bool" where
  "valid_ident U s =
     (if s = [] then False
      else case runes s of [] \<Rightarrow> True
        | r # rs \<Rightarrow> (r = 95 \<or> is_letter U r) \<and>
            list_all (\<lambda>x. x = 95 \<or> is_letter U x \<or> is_digit_rune U x) rs)"

definition valid_type :: "unicode_classes \<Rightarrow> string \<Rightarrow> bool" where
  "valid_type U s = valid_ident U s"

definition valid_variable :: "unicode_classes \<Rightarrow> string \<Rightarrow> bool" where
  "valid_variable U s \<longleftrightarrow> has_prefix ''$'' s \<and> valid_ident U (trim_prefix ''$'' s)"

text \<open>A comma is one byte and part of no other rune, so ranging over runes splits at its bytes.\<close>

definition split_top_level :: "string \<Rightarrow> string list" where
  "split_top_level s = split_char (CHR '','') s"

definition valid_call_args :: "unicode_classes \<Rightarrow> string \<Rightarrow> bool" where
  "valid_call_args U args =
     (if args = [] then True
      else list_all (\<lambda>part0.
        let part = trim_space part0 in
        part \<noteq> [] \<and>
        (case cut_str ''='' part of (key, v, ok) \<Rightarrow>
           ok \<and> valid_ident U (trim_space key) \<and> trim_space v \<noteq> [])) (split_top_level args))"

section \<open>Variables and assignments\<close>

record variable_ref =
  vr_name :: string
  vr_type :: string
  vr_marker :: string

definition cut_marker :: "string \<Rightarrow> string \<times> string" where
  "cut_marker s =
     (if has_suffix ''!'' s \<or> has_suffix ''?'' s
      then (trim_space (take (length s - 1) s), drop (length s - 1) s) else (s, []))"

definition parse_variable_ref :: "unicode_classes \<Rightarrow> string \<Rightarrow> variable_ref option" where
  "parse_variable_ref U s0 =
     (case cut_marker s0 of (s, marker) \<Rightarrow>
        (case cut_str '':'' s of (left, right, has_type) \<Rightarrow>
           if has_type then
             (if \<not> valid_variable U (trim_space left) \<or> \<not> valid_type U (trim_space right) then None
              else Some \<lparr>vr_name = trim_space left, vr_type = trim_space right, vr_marker = marker\<rparr>)
           else if \<not> valid_variable U (trim_space s) then None
           else Some \<lparr>vr_name = trim_space s, vr_type = [], vr_marker = marker\<rparr>))"

definition parse_typed_variable :: "unicode_classes \<Rightarrow> string \<Rightarrow> variable_ref option" where
  "parse_typed_variable U s0 =
     (case cut_marker s0 of (s, marker) \<Rightarrow>
        (case cut_str '':'' s of (left, right, ok) \<Rightarrow>
           if \<not> ok then None
           else if \<not> valid_variable U (trim_space left) \<or> \<not> valid_type U (trim_space right) then None
           else Some \<lparr>vr_name = trim_space left, vr_type = trim_space right, vr_marker = marker\<rparr>))"

definition parse_assignment_parts :: "unicode_classes \<Rightarrow> string \<Rightarrow> (variable_ref \<times> string) option" where
  "parse_assignment_parts U s =
     (case cut_str ''='' s of (left, right, ok) \<Rightarrow>
        if \<not> ok then None
        else (case parse_variable_ref U (trim_space left) of
            None \<Rightarrow> None
          | Some v \<Rightarrow> if vr_marker v \<noteq> [] then None else Some (v, trim_space right)))"

section \<open>Simple statements\<close>

definition check_reserved_variable :: "string \<Rightarrow> nat \<Rightarrow> elyph_parser \<Rightarrow> elyph_parser" where
  "check_reserved_variable name n p =
     (if name = ''$user'' \<or> name = ''$assistant'' then add_error n (ReservedVariable name) p else p)"

definition check_derive_expression :: "string \<Rightarrow> nat \<Rightarrow> elyph_parser \<Rightarrow> elyph_parser" where
  "check_derive_expression e n p =
     (case index_of ''?'' e of
        None \<Rightarrow> p
      | Some q \<Rightarrow>
          (case index_of '':'' (drop (q + 1) e) of
             None \<Rightarrow> add_error n TernaryForm p
           | Some off \<Rightarrow>
               let colon = q + 1 + off in
               if trim_space (take q e) = [] \<or> trim_space (drop (q + 1) (take colon e)) = [] \<or>
                  trim_space (drop (colon + 1) e) = []
               then add_error n TernaryForm p else p))"

definition parse_io :: "unicode_classes \<Rightarrow> string \<Rightarrow> nat \<Rightarrow> bool \<Rightarrow> elyph_parser \<Rightarrow> elyph_parser" where
  "parse_io U line n input p =
     (let msg = (if input then InputForm else OutputForm);
          rest = trim_space (trim_prefix (if input then ''<-'' else ''->'') line) in
      case parse_typed_variable U rest of
        None \<Rightarrow> add_error n msg p
      | Some v \<Rightarrow>
          if vr_name v = [] \<or> vr_type v = [] \<or> (\<not> input \<and> vr_marker v \<noteq> [])
          then add_error n msg p else p)"

definition parse_assignment :: "unicode_classes \<Rightarrow> string \<Rightarrow> nat \<Rightarrow> elyph_parser \<Rightarrow> elyph_parser" where
  "parse_assignment U line n p =
     (case parse_assignment_parts U line of
        None \<Rightarrow> add_error n AssignmentForm p
      | Some (v, rhs) \<Rightarrow>
          if trim_space rhs = [] then add_error n AssignmentForm p
          else check_reserved_variable (vr_name v) n p)"

definition parse_derive :: "unicode_classes \<Rightarrow> string \<Rightarrow> nat \<Rightarrow> elyph_parser \<Rightarrow> elyph_parser" where
  "parse_derive U line n p =
     (case parse_assignment_parts U (trim_space (trim_prefix ''=>'' line)) of
        None \<Rightarrow> add_error n DeriveForm p
      | Some (v, rhs) \<Rightarrow>
          if trim_space rhs = [] then add_error n DeriveForm p
          else check_derive_expression rhs n (check_reserved_variable (vr_name v) n p))"

definition parse_output :: "string \<Rightarrow> nat \<Rightarrow> elyph_parser \<Rightarrow> elyph_parser" where
  "parse_output line n p =
     (if line \<noteq> ''>'' \<and> \<not> has_prefix ''> '' line then add_error n OutputTextForm p else p)"

definition parse_call :: "unicode_classes \<Rightarrow> string \<Rightarrow> nat \<Rightarrow> string \<Rightarrow> elyph_parser \<Rightarrow> elyph_parser" where
  "parse_call U line n prefix p =
     (let rest = trim_space (trim_prefix prefix line) in
      case index_of ''('' rest of
        None \<Rightarrow> add_error n CallForm p
      | Some k \<Rightarrow>
          if k = 0 \<or> \<not> has_suffix '')'' rest then add_error n CallForm p
          else let name = trim_space (take k rest);
                   args = trim_space (drop (k + 1) (take (length rest - 1) rest)) in
            if \<not> valid_name name \<or> contains_any args ''()'' \<or> \<not> valid_call_args U args
            then add_error n CallForm p else p)"

text \<open>The full-width colon U+FF1A in UTF-8.\<close>

definition wide_colon :: string where
  "wide_colon = [CHR 0xEF, CHR 0xBC, CHR 0x9A]"

definition parse_text_slot :: "string \<Rightarrow> nat \<Rightarrow> string \<Rightarrow> elyph_parser \<Rightarrow> elyph_parser" where
  "parse_text_slot line n prefix p =
     (let t = trim_space (trim_prefix prefix line) in
      if t = [] then add_error n (SlotEmpty prefix) p
      else if has_suffix '':'' t \<or> has_suffix wide_colon t then add_warning n (SlotColon prefix) p
      else p)"

section \<open>Blocks\<close>

definition open_block :: "block_kind \<Rightarrow> elyph_parser \<Rightarrow> elyph_parser" where
  "open_block k p =
     p\<lparr>ep_blocks := \<lparr>bf_kind = k, bf_count = 0\<rparr> # ep_blocks p, ep_last_closed := None\<rparr>"

definition close_block :: "nat \<Rightarrow> elyph_parser \<Rightarrow> elyph_parser" where
  "close_block n p =
     (case ep_blocks p of
        [] \<Rightarrow> (add_error n UnexpectedClose p)\<lparr>ep_last_closed := None\<rparr>
      | f # fs \<Rightarrow>
          let p1 = p\<lparr>ep_blocks := fs\<rparr>;
              p2 = (if bf_kind f = BlockStep
                    then (if bf_count f = 0 then add_error n StepBlockEmpty p1
                          else if bf_count f = 1 then add_error n StepBlockSingle p1 else p1)
                    else p1)
          in p2\<lparr>ep_last_closed := Some (bf_kind f)\<rparr>)"

definition parse_if :: "string \<Rightarrow> nat \<Rightarrow> elyph_parser \<Rightarrow> elyph_parser" where
  "parse_if line n p =
     (if \<not> has_suffix ''{'' line then add_error n IfForm p
      else let body = trim_space (trim_suffix ''{'' (trim_prefix ''?if'' line));
               inner = drop 1 (take (length body - 1) body) in
        if \<not> has_prefix ''('' body \<or> \<not> has_suffix '')'' body \<or> trim_space inner = [] \<or>
           contains_any inner ''{}''
        then open_block BlockIf (add_error n IfForm p)
        else open_block BlockIf p)"

definition parse_else :: "string \<Rightarrow> nat \<Rightarrow> elyph_parser \<Rightarrow> elyph_parser" where
  "parse_else line n p =
     (if trim_space (trim_prefix ''?else'' line) \<noteq> ''{'' then add_error n ElseForm p
      else if ep_last_closed p \<noteq> Some BlockIf then add_error n ElseWithoutIf p
      else open_block BlockElse p)"

text \<open>The head of an \<open>each\<close> up to its limit: \<open>None\<close> where the code reports the form and opens.\<close>

definition each_limit :: "unicode_classes \<Rightarrow> string \<Rightarrow> int option" where
  "each_limit U line =
     (let body = trim_space (trim_suffix ''{'' (trim_prefix ''each('' line)) in
      if \<not> has_suffix '')'' body then None
      else case split_top_level (trim_space (trim_suffix '')'' body)) of
          [a, b] \<Rightarrow>
            (case Go_Strings.fields a of
               [x, w, y] \<Rightarrow>
                 if \<not> valid_variable U x \<or> w \<noteq> ''in'' \<or> \<not> valid_variable U y then None
                 else (case cut_str ''='' (trim_space b) of (key, v, ok) \<Rightarrow>
                         if \<not> ok \<or> trim_space key \<noteq> ''limit'' then None else atoi (trim_space v))
             | _ \<Rightarrow> None)
        | _ \<Rightarrow> None)"

definition parse_each :: "unicode_classes \<Rightarrow> string \<Rightarrow> nat \<Rightarrow> elyph_parser \<Rightarrow> elyph_parser" where
  "parse_each U line n p =
     (if \<not> has_prefix ''each('' line \<or> \<not> has_suffix ''{'' line
      then (if has_suffix ''{'' line then open_block BlockEach (add_error n EachForm p)
            else add_error n EachForm p)
      else case each_limit U line of
          None \<Rightarrow> open_block BlockEach (add_error n EachForm p)
        | Some k \<Rightarrow> if k \<le> 0 then add_error n EachLimit p else open_block BlockEach p)"

section \<open>Steps\<close>

text \<open>\<open>rejectStepContext\<close>: the message it reports, if any.\<close>

definition reject_step_context :: "string \<Rightarrow> elyph_parser \<Rightarrow> elyph_message option" where
  "reject_step_context name p =
     (if list_ex (\<lambda>f. bf_kind f = BlockStep) (ep_blocks p) then Some StepNested
      else if list_ex (\<lambda>s. es_name s = name) (ed_steps (ep_doc p)) then Some (StepUsed name)
      else None)"

definition valid_step_single_body :: "string \<Rightarrow> bool" where
  "valid_step_single_body s =
     list_ex (\<lambda>t. has_prefix t s) [''$'', ''=>'', ''>'', ''@tool'', ''@skill'', ''**'', ''~'', ''<-'', ''->'']"

definition add_step :: "string \<Rightarrow> nat \<Rightarrow> elyph_parser \<Rightarrow> elyph_parser" where
  "add_step name n p = p\<lparr>ep_doc := (ep_doc p)\<lparr>ed_steps := ed_steps (ep_doc p) @ [\<lparr>es_name = name, es_line = n\<rparr>]\<rparr>\<rparr>"

definition parse_step_block :: "string \<Rightarrow> nat \<Rightarrow> elyph_parser \<Rightarrow> elyph_parser" where
  "parse_step_block rest n p =
     (let name = trim_space (trim_suffix ''{'' rest) in
      if name = [] \<or> contains_any name [CHR '' '', CHR 0x09] then add_error n StepBlockForm p
      else if \<not> valid_step_name name then add_error n StepNameForm p
      else case reject_step_context name p of
          Some msg \<Rightarrow> add_error n msg p
        | None \<Rightarrow> open_block BlockStep (add_step name n p))"

text \<open>
  \<open>parseStepSingle\<close> up to its call of \<open>parseStatementContent\<close>: the statement it goes on with.
\<close>

definition parse_step_single ::
  "string \<Rightarrow> string \<Rightarrow> nat \<Rightarrow> elyph_parser \<Rightarrow> elyph_parser \<times> string option" where
  "parse_step_single name0 after0 n p =
     (let name = trim_space name0; body = trim_space after0 in
      if name = [] \<or> contains_any name [CHR '' '', CHR 0x09] then (add_error n StepSingleForm p, None)
      else if \<not> valid_step_name name then (add_error n StepNameForm p, None)
      else if body = [] then (add_error n StepSingleEmpty p, None)
      else if \<not> valid_step_single_body body then (add_error n StepSingleBody p, None)
      else case reject_step_context name p of
          Some msg \<Rightarrow> (add_error n msg p, None)
        | None \<Rightarrow> (add_step name n p, Some body))"

definition parse_step :: "string \<Rightarrow> nat \<Rightarrow> elyph_parser \<Rightarrow> elyph_parser \<times> string option" where
  "parse_step line n p =
     (let rest = trim_space (trim_prefix ''step'' line) in
      if has_suffix ''{'' rest then (parse_step_block rest n p, None)
      else case index_of '':'' rest of
          None \<Rightarrow> (add_error n StepForm p, None)
        | Some k \<Rightarrow>
            if k = 0 then (add_error n StepForm p, None)
            else parse_step_single (take k rest) (drop (k + 1) rest) n p)"

lemma parse_step_shorter:
  assumes "has_prefix ''step'' line" and "parse_step line n p = (p', Some body)"
  shows "length body < length line"
proof -
  let ?rest = "trim_space (trim_prefix ''step'' line)"
  obtain t where "line = ''step'' @ t" using assms(1) by (auto simp: has_prefix_iff)
  then have "length ?rest < length line"
    using trim_space_length [of "trim_prefix ''step'' line"] by (simp add: trim_prefix_def)
  moreover obtain k where "body = trim_space (drop k ?rest)"
    using assms(2) by (auto simp: parse_step_def parse_step_single_def Let_def split: if_splits option.splits)
  ultimately show ?thesis using trim_space_length [of "drop k ?rest"] by simp
qed

section \<open>Statements and lines\<close>

function parse_statement_content ::
  "unicode_classes \<Rightarrow> string \<Rightarrow> nat \<Rightarrow> elyph_parser \<Rightarrow> elyph_parser" where
  "parse_statement_content U s n p0 =
     (let p = (if has_prefix ''?else'' s then p0 else p0\<lparr>ep_last_closed := None\<rparr>) in
      if has_prefix ''<-'' s then parse_io U s n True p
      else if has_prefix ''->'' s then parse_io U s n False p
      else if has_prefix ''=>'' s then parse_derive U s n p
      else if has_prefix ''$'' s then parse_assignment U s n p
      else if has_prefix ''?if'' s then parse_if s n p
      else if has_prefix ''?else'' s then parse_else s n p
      else if has_prefix ''? else'' s \<or> has_prefix ''else'' s then add_error n BareElse p
      else if has_prefix ''each'' s then parse_each U s n p
      else if has_prefix ''step'' s then
        (case parse_step s n p of
           (p1, None) \<Rightarrow> p1
         | (p1, Some body) \<Rightarrow> parse_statement_content U body n p1)
      else if has_prefix ''>'' s then parse_output s n p
      else if has_prefix ''@tool'' s then parse_call U s n ''@tool'' p
      else if has_prefix ''@skill'' s then parse_call U s n ''@skill'' p
      else if has_prefix ''**'' s then parse_text_slot s n ''**'' p
      else if has_prefix ''~'' s then parse_text_slot s n ''~'' p
      else add_error n InvalidToken p)"
  by pat_completeness auto
termination
  by (relation "measure (\<lambda>(U, s, n, p). length s)") (auto intro: parse_step_shorter [OF _ sym])

declare parse_statement_content.simps [simp del]

definition header_ok :: "string list \<Rightarrow> bool" where
  "header_ok fs = (case fs of
      a # b # _ \<Rightarrow> (a = ''#skill'' \<or> a = ''#task'') \<and> valid_name b
    | _ \<Rightarrow> False)"

definition header_rest :: "string \<Rightarrow> string list \<Rightarrow> string" where
  "header_rest line fs = trim_space (trim_prefix (fs ! 0 @ '' '' @ fs ! 1) line)"

definition parser_header :: "string \<Rightarrow> nat \<Rightarrow> elyph_parser \<Rightarrow> elyph_parser" where
  "parser_header line n p =
     (let fs = Go_Strings.fields line; rest = header_rest line fs in
      if \<not> header_ok fs then add_error n (FirstStatement (ep_expected_kind p)) p
      else if length fs > 2 \<and> (\<not> has_prefix ''- '' rest \<or> trim_space (trim_prefix ''- '' rest) = [])
      then add_error n (FirstStatement (ep_expected_kind p)) p
      else p\<lparr>ep_doc := (ep_doc p)\<lparr>ed_kind := trim_prefix ''#'' (fs ! 0), ed_name := fs ! 1\<rparr>,
             ep_seen_header := True\<rparr>)"

definition count_statement :: "elyph_parser \<Rightarrow> elyph_parser" where
  "count_statement p =
     (case ep_blocks p of [] \<Rightarrow> p | f # fs \<Rightarrow> p\<lparr>ep_blocks := f\<lparr>bf_count := bf_count f + 1\<rparr> # fs\<rparr>)"

definition skip_line :: "string \<Rightarrow> bool" where
  "skip_line s \<longleftrightarrow> s = [] \<or> has_prefix ''//'' s"

definition parse_line :: "unicode_classes \<Rightarrow> string \<Rightarrow> nat \<Rightarrow> elyph_parser \<Rightarrow> elyph_parser" where
  "parse_line U s n p =
     (if skip_line s then p
      else if \<not> ep_seen_header p then parser_header s n p
      else if has_prefix ''#'' s then add_error n HeaderOnlyOnce p
      else if s = ''}'' then close_block n p
      else parse_statement_content U s n (count_statement p))"

section \<open>Documents\<close>

definition finish_parser :: "elyph_parser \<Rightarrow> elyph_parser" where
  "finish_parser p0 =
     (let p1 = (if \<not> ep_seen_header p0 then add_error 0 (MissingHeader (ep_expected_kind p0)) p0 else p0);
          d = ep_doc p1;
          p2 = (if ep_expected_kind p1 \<noteq> [] \<and> ed_kind d \<noteq> [] \<and> ed_kind d \<noteq> ep_expected_kind p1
                then add_error 0 (KindMismatch (ed_kind d) (ep_expected_kind p1)) p1 else p1);
          p3 = (if ep_expected_name p2 \<noteq> [] \<and> ed_name d \<noteq> [] \<and> ed_name d \<noteq> ep_expected_name p2
                then add_error 0 (NameMismatch (ed_kind d) (ed_name d) (ep_expected_name p2)) p2 else p2)
      in if ep_blocks p3 \<noteq> [] then add_error 0 UnclosedBlock p3 else p3)"

abbreviation CRLF :: string where "CRLF \<equiv> [CHR 0x0D, CHR 0x0A]"
abbreviation NL :: char where "NL \<equiv> CHR 0x0A"

definition document_lines :: "string \<Rightarrow> string list" where
  "document_lines raw = map trim_space (split_char NL (replace_all CRLF [NL] raw))"

fun parse_lines :: "unicode_classes \<Rightarrow> nat \<Rightarrow> string list \<Rightarrow> elyph_parser \<Rightarrow> elyph_parser" where
  "parse_lines U n [] p = p"
| "parse_lines U n (s # ss) p = parse_lines U (n + 1) ss (parse_line U s n p)"

definition parse_document ::
  "unicode_classes \<Rightarrow> string \<Rightarrow> string \<Rightarrow> string \<Rightarrow> elyph_document \<times> diagnostic list" where
  "parse_document U raw kind name =
     (if trim_space (replace_all CRLF [NL] raw) = []
      then (empty_document, [\<lparr>dg_line = 0, dg_message = ElyphRequired, dg_severity = NoSeverity\<rparr>])
      else let p = finish_parser (parse_lines U 1 (document_lines raw) (new_parser kind name))
           in (ep_doc p, ep_diagnostics p))"

definition error_diagnostics :: "diagnostic list \<Rightarrow> diagnostic list" where
  "error_diagnostics ds = filter (\<lambda>d. dg_severity d = NoSeverity \<or> dg_severity d = DiagnosticError) ds"

definition warning_diagnostics :: "diagnostic list \<Rightarrow> diagnostic list" where
  "warning_diagnostics ds = filter (\<lambda>d. dg_severity d = DiagnosticWarning) ds"

text \<open>\<open>validateKind\<close>: the diagnostics, and the errors or the document.\<close>

definition validate_kind ::
  "unicode_classes \<Rightarrow> string \<Rightarrow> string \<Rightarrow> string \<Rightarrow> diagnostic list \<times> (diagnostic list + elyph_document)" where
  "validate_kind U raw kind name =
     (case parse_document U raw kind name of (doc, ds) \<Rightarrow>
        (ds, if error_diagnostics ds \<noteq> [] then Inl (error_diagnostics ds) else Inr doc))"

definition parse_skill :: "unicode_classes \<Rightarrow> string \<Rightarrow> string \<Rightarrow> diagnostic list + elyph_document" where
  "parse_skill U raw name = snd (validate_kind U raw ''skill'' name)"

definition parse_task :: "unicode_classes \<Rightarrow> string \<Rightarrow> string \<Rightarrow> diagnostic list + elyph_document" where
  "parse_task U raw name = snd (validate_kind U raw ''task'' name)"

text \<open>\<open>ParseHeader\<close>, the quick scan of the first statement only.\<close>

definition header_of_line :: "string \<Rightarrow> elyph_message + elyph_header" where
  "header_of_line line =
     (let fs = Go_Strings.fields line; rest = header_rest line fs in
      if \<not> header_ok fs then Inl (FirstStatement [])
      else Inr \<lparr>eh_kind = trim_prefix ''#'' (fs ! 0), eh_name = fs ! 1,
             eh_description = (if has_prefix ''- '' rest then trim_space (trim_prefix ''- '' rest) else [])\<rparr>)"

fun scan_header :: "string list \<Rightarrow> elyph_message + elyph_header" where
  "scan_header [] = Inl ElyphRequired"
| "scan_header (s # ss) = (if skip_line s then scan_header ss else header_of_line s)"

definition parse_header :: "string \<Rightarrow> elyph_message + elyph_header" where
  "parse_header raw = scan_header (document_lines raw)"

end
