(* ===== verification/Elyph_Grammar.thy ===== *)
theory Elyph_Grammar
  imports Elyph
begin

text \<open>
  What the ELyph parser accepts, as a grammar.  A significant line is a token; the grammar says
  which sequences of tokens are statements of a block; the pushdown machine in between has the
  parser's stack without its diagnostics.  The parser refines the machine, and the machine
  accepts exactly the grammar.
\<close>

section \<open>Tokens\<close>

datatype line_token =
    TokSimple
  | TokIf
  | TokElse
  | TokEach
  | TokStepBlock string
  | TokStepLine string
  | TokClose
  | TokBad

definition blank_parser :: elyph_parser where
  "blank_parser = new_parser [] []"

definition error_free :: "elyph_parser \<Rightarrow> bool" where
  "error_free p \<longleftrightarrow> error_diagnostics (ep_diagnostics p) = []"

text \<open>A simple statement: any content line but those of blocks and steps.\<close>

definition parse_simple :: "unicode_classes \<Rightarrow> string \<Rightarrow> nat \<Rightarrow> elyph_parser \<Rightarrow> elyph_parser" where
  "parse_simple U s n p =
     (if has_prefix ''<-'' s then parse_io U s n True p
      else if has_prefix ''->'' s then parse_io U s n False p
      else if has_prefix ''=>'' s then parse_derive U s n p
      else if has_prefix ''$'' s then parse_assignment U s n p
      else if has_prefix ''>'' s then parse_output s n p
      else if has_prefix ''@tool'' s then parse_call U s n ''@tool'' p
      else if has_prefix ''@skill'' s then parse_call U s n ''@skill'' p
      else if has_prefix ''**'' s then parse_text_slot s n ''**'' p
      else if has_prefix ''~'' s then parse_text_slot s n ''~'' p
      else add_error n InvalidToken p)"

definition simple_ok :: "unicode_classes \<Rightarrow> string \<Rightarrow> bool" where
  "simple_ok U s \<longleftrightarrow> error_free (parse_simple U s 0 blank_parser)"

text \<open>The name of a step line, and the statement of a step written on one line.\<close>

definition step_named :: "string \<Rightarrow> bool" where
  "step_named name \<longleftrightarrow> name \<noteq> [] \<and> \<not> contains_any name [CHR '' '', CHR 0x09] \<and> valid_step_name name"

definition step_head :: "string \<Rightarrow> (string \<times> string option) option" where
  "step_head s =
     (let rest = trim_space (trim_prefix ''step'' s) in
      if has_suffix ''{'' rest then
        (let name = trim_space (trim_suffix ''{'' rest) in if step_named name then Some (name, None) else None)
      else case index_of '':'' rest of
          None \<Rightarrow> None
        | Some k \<Rightarrow>
            let name = trim_space (take k rest); body = trim_space (drop (k + 1) rest) in
            if 0 < k \<and> step_named name \<and> valid_step_single_body body then Some (name, Some body) else None)"

definition step_token :: "unicode_classes \<Rightarrow> string \<Rightarrow> line_token" where
  "step_token U s =
     (case step_head s of
        None \<Rightarrow> TokBad
      | Some (name, None) \<Rightarrow> TokStepBlock name
      | Some (name, Some body) \<Rightarrow> if simple_ok U body then TokStepLine name else TokBad)"

definition has_any_prefix :: "string list \<Rightarrow> string \<Rightarrow> bool" where
  "has_any_prefix ps s = list_ex (\<lambda>p. has_prefix p s) ps"

definition token_of :: "unicode_classes \<Rightarrow> string \<Rightarrow> line_token" where
  "token_of U s =
     (if has_prefix ''#'' s then TokBad
      else if s = ''}'' then TokClose
      else if has_any_prefix [''<-'', ''->'', ''=>'', ''$''] s
        then (if simple_ok U s then TokSimple else TokBad)
      else if has_prefix ''?if'' s
        then (if error_free (parse_if s 0 blank_parser) then TokIf else TokBad)
      else if has_prefix ''?else'' s
        then (if trim_space (trim_prefix ''?else'' s) = ''{'' then TokElse else TokBad)
      else if has_any_prefix [''? else'', ''else''] s then TokBad
      else if has_prefix ''each'' s
        then (if error_free (parse_each U s 0 blank_parser) then TokEach else TokBad)
      else if has_prefix ''step'' s then step_token U s
      else if simple_ok U s then TokSimple else TokBad)"

section \<open>The grammar\<close>

text \<open>
  \<open>statements in_step n l ts\<close>: the lines \<open>ts\<close> are a sequence of \<open>n\<close> statements of one block,
  inside a step or not, whose last one is a block of kind \<open>l\<close>.
\<close>

inductive statements :: "bool \<Rightarrow> nat \<Rightarrow> block_kind option \<Rightarrow> line_token list \<Rightarrow> bool" where
  no_statement: "statements s 0 None []"
| simple: "statements s n l ts \<Longrightarrow> statements s (Suc n) None (ts @ [TokSimple])"
| if_block: "statements s n l ts \<Longrightarrow> statements s m k body \<Longrightarrow>
    statements s (Suc n) (Some BlockIf) (ts @ TokIf # body @ [TokClose])"
| else_block: "statements s n (Some BlockIf) ts \<Longrightarrow> statements s m k body \<Longrightarrow>
    statements s (Suc n) (Some BlockElse) (ts @ TokElse # body @ [TokClose])"
| each_block: "statements s n l ts \<Longrightarrow> statements s m k body \<Longrightarrow>
    statements s (Suc n) (Some BlockEach) (ts @ TokEach # body @ [TokClose])"
| step_block: "statements False n l ts \<Longrightarrow> statements True m k body \<Longrightarrow> 2 \<le> m \<Longrightarrow>
    statements False (Suc n) (Some BlockStep) (ts @ TokStepBlock name # body @ [TokClose])"
| step_line: "statements False n l ts \<Longrightarrow>
    statements False (Suc n) None (ts @ [TokStepLine name])"

fun step_names :: "line_token list \<Rightarrow> string list" where
  "step_names [] = []"
| "step_names (TokStepBlock name # ts) = name # step_names ts"
| "step_names (TokStepLine name # ts) = name # step_names ts"
| "step_names (t # ts) = step_names ts"

lemma step_names_append [simp]: "step_names (xs @ ys) = step_names xs @ step_names ys"
  by (induction xs rule: step_names.induct) auto

section \<open>The machine\<close>

type_synonym doc_state = "block_frame list \<times> block_kind option \<times> string list"

fun count_top :: "block_frame list \<Rightarrow> block_frame list" where
  "count_top [] = []"
| "count_top (f # fs) = f\<lparr>bf_count := Suc (bf_count f)\<rparr> # fs"

definition in_step :: "block_frame list \<Rightarrow> bool" where
  "in_step fs = list_ex (\<lambda>f. bf_kind f = BlockStep) fs"

definition frame :: "block_kind \<Rightarrow> block_frame" where
  "frame k = \<lparr>bf_kind = k, bf_count = 0\<rparr>"

fun doc_step :: "line_token \<Rightarrow> doc_state \<Rightarrow> doc_state option" where
  "doc_step TokSimple (fs, l, ns) = Some (count_top fs, None, ns)"
| "doc_step TokIf (fs, l, ns) = Some (frame BlockIf # count_top fs, None, ns)"
| "doc_step TokElse (fs, l, ns) =
     (if l = Some BlockIf then Some (frame BlockElse # count_top fs, None, ns) else None)"
| "doc_step TokEach (fs, l, ns) = Some (frame BlockEach # count_top fs, None, ns)"
| "doc_step (TokStepBlock name) (fs, l, ns) =
     (if in_step fs \<or> name \<in> set ns then None
      else Some (frame BlockStep # count_top fs, None, ns @ [name]))"
| "doc_step (TokStepLine name) (fs, l, ns) =
     (if in_step fs \<or> name \<in> set ns then None else Some (count_top fs, None, ns @ [name]))"
| "doc_step TokClose ([], l, ns) = None"
| "doc_step TokClose (f # fs, l, ns) =
     (if bf_kind f = BlockStep \<and> bf_count f < 2 then None else Some (fs, Some (bf_kind f), ns))"
| "doc_step TokBad st = None"

fun doc_run :: "line_token list \<Rightarrow> doc_state \<Rightarrow> doc_state option" where
  "doc_run [] st = Some st"
| "doc_run (t # ts) st = (case doc_step t st of None \<Rightarrow> None | Some st' \<Rightarrow> doc_run ts st')"

lemma doc_run_append:
  "doc_run (xs @ ys) st = (case doc_run xs st of None \<Rightarrow> None | Some st' \<Rightarrow> doc_run ys st')"
  by (induction xs st rule: doc_run.induct) (auto split: option.split)

fun add_top :: "nat \<Rightarrow> block_frame list \<Rightarrow> block_frame list" where
  "add_top n [] = []"
| "add_top n (f # fs) = f\<lparr>bf_count := bf_count f + n\<rparr> # fs"

lemma add_top_simps [simp]: "add_top 0 fs = fs" "count_top (add_top n fs) = add_top (Suc n) fs"
  by (cases fs; simp)+

lemma in_step_simps [simp]:
  "in_step (add_top n fs) = in_step fs" "in_step (count_top fs) = in_step fs"
  "in_step (frame k # fs) \<longleftrightarrow> k = BlockStep \<or> in_step fs" "in_step [] = False"
  by (cases fs; simp add: in_step_def frame_def)+

lemma frame_simps [simp]:
  "bf_kind (frame k) = k" "bf_count (frame k) = 0" "frame k\<lparr>bf_count := m\<rparr> = \<lparr>bf_kind = k, bf_count = m\<rparr>"
  by (simp_all add: frame_def)

section \<open>Every sequence of the grammar is accepted\<close>

lemma statements_run:
  "statements s n k ts \<Longrightarrow> in_step fs = s \<Longrightarrow> distinct (ns @ step_names ts) \<Longrightarrow>
     doc_run ts (fs, l, ns) = Some (add_top n fs, if ts = [] then l else k, ns @ step_names ts)"
proof (induction arbitrary: fs l ns rule: statements.induct)
  case (if_block s n l' ts m k body)
  have "doc_run body (frame BlockIf # add_top (Suc n) fs, None, ns @ step_names ts) =
      Some (add_top m (frame BlockIf # add_top (Suc n) fs), if body = [] then None else k, (ns @ step_names ts) @ step_names body)"
    by (rule if_block.IH(2)) (use if_block.prems in auto)
  moreover have "doc_run ts (fs, l, ns) = Some (add_top n fs, if ts = [] then l else l', ns @ step_names ts)"
    by (rule if_block.IH(1)) (use if_block.prems in auto)
  ultimately show ?case using if_block.prems
    by (simp add: doc_run_append)
next
  case (else_block s n ts m k body)
  have "ts \<noteq> []" using else_block.hyps(1) by (cases rule: statements.cases) auto
  have "doc_run body (frame BlockElse # add_top (Suc n) fs, None, ns @ step_names ts) =
      Some (add_top m (frame BlockElse # add_top (Suc n) fs), if body = [] then None else k, (ns @ step_names ts) @ step_names body)"
    by (rule else_block.IH(2)) (use else_block.prems in auto)
  moreover have "doc_run ts (fs, l, ns) = Some (add_top n fs, if ts = [] then l else (Some BlockIf), ns @ step_names ts)"
    by (rule else_block.IH(1)) (use else_block.prems in auto)
  ultimately show ?case using else_block.prems \<open>ts \<noteq> []\<close>
    by (simp add: doc_run_append)
next
  case (each_block s n l' ts m k body)
  have "doc_run body (frame BlockEach # add_top (Suc n) fs, None, ns @ step_names ts) =
      Some (add_top m (frame BlockEach # add_top (Suc n) fs), if body = [] then None else k, (ns @ step_names ts) @ step_names body)"
    by (rule each_block.IH(2)) (use each_block.prems in auto)
  moreover have "doc_run ts (fs, l, ns) = Some (add_top n fs, if ts = [] then l else l', ns @ step_names ts)"
    by (rule each_block.IH(1)) (use each_block.prems in auto)
  ultimately show ?case using each_block.prems
    by (simp add: doc_run_append)
next
  case (step_block n l' ts m k body name)
  have "doc_run body (frame BlockStep # add_top (Suc n) fs, None, ns @ step_names ts @ [name]) =
      Some (add_top m (frame BlockStep # add_top (Suc n) fs), if body = [] then None else k, (ns @ step_names ts @ [name]) @ step_names body)"
    by (rule step_block.IH(2)) (use step_block.prems in auto)
  moreover have "doc_run ts (fs, l, ns) = Some (add_top n fs, if ts = [] then l else l', ns @ step_names ts)"
    by (rule step_block.IH(1)) (use step_block.prems in auto)
  ultimately show ?case using step_block.prems step_block.hyps(3)
    by (simp add: doc_run_append)
qed (auto simp: doc_run_append)

section \<open>Only sequences of the grammar are accepted\<close>

text \<open>
  The lines read so far, cut at the openings of the blocks that are still open: each piece is
  statements of its block.
\<close>

inductive opens :: "line_token \<Rightarrow> block_kind \<Rightarrow> bool \<Rightarrow> block_kind option \<Rightarrow> bool" where
  "opens TokIf BlockIf s l"
| "opens TokElse BlockElse s (Some BlockIf)"
| "opens TokEach BlockEach s l"
| "opens (TokStepBlock name) BlockStep False l"

inductive_cases opens_cases: "opens t k s l"

inductive reading :: "line_token list \<Rightarrow> block_frame list \<Rightarrow> block_kind option \<Rightarrow> bool" where
  top_level: "statements False n l ts \<Longrightarrow> reading ts [] l"
| nested: "reading ts fs l \<Longrightarrow> opens t k (in_step fs) l \<Longrightarrow>
    statements (in_step (frame k # fs)) n l' body \<Longrightarrow>
    reading (ts @ t # body) (\<lparr>bf_kind = k, bf_count = n\<rparr> # count_top fs) l'"

lemma in_step_count [simp]: "in_step (\<lparr>bf_kind = k, bf_count = n\<rparr> # fs) = in_step (frame k # fs)"
  by (simp add: in_step_def frame_def)

text \<open>A statement more, in the innermost open block.\<close>

lemma reading_extend:
  assumes "reading ts fs l"
    and "\<And>n xs. statements (in_step fs) n l xs \<Longrightarrow> statements (in_step fs) (Suc n) l' (xs @ ys)"
  shows "reading (ts @ ys) (count_top fs) l'"
  using assms
proof (cases rule: reading.cases)
  case (top_level n)
  with assms(2) [of n ts] show ?thesis by (auto intro: reading.top_level)
next
  case (nested ts0 fs0 l0 t k n body)
  have "statements (in_step (frame k # fs0)) (Suc n) l' (body @ ys)"
    using assms(2) [of n body] nested by simp
  from reading.nested [OF nested(3,4) this] nested show ?thesis by simp
qed

lemma reading_step:
  assumes r: "reading ts fs l" and step: "doc_step t (fs, l, ns) = Some (fs', l', ns')"
  shows "reading (ts @ [t]) fs' l'"
proof -
  have opened: "reading (ts @ [t]) (frame k # count_top fs) None" if "opens t k (in_step fs) l" for k
    using reading.nested [OF r that no_statement] by (simp add: frame_def)
  show ?thesis
  proof (cases t)
    case TokSimple
    with step reading_extend [OF r, of None "[t]"] show ?thesis by (auto intro: statements.simple)
  next
    case (TokStepLine name)
    with step have "\<not> in_step fs" "fs' = count_top fs" "l' = None" by (auto split: if_splits)
    with TokStepLine reading_extend [OF r, of None "[t]"] show ?thesis by (auto intro: statements.step_line)
  next
    case TokClose
    then obtain f fs0 where f: "fs = f # fs0" "fs' = fs0" "l' = Some (bf_kind f)"
      and full: "bf_kind f = BlockStep \<Longrightarrow> 2 \<le> bf_count f"
      using step by (cases fs) (auto split: if_splits)
    from r f(1) obtain ts0 gs l0 o' n body where n: "ts = ts0 @ o' # body" "fs0 = count_top gs"
      "reading ts0 gs l0" "opens o' (bf_kind f) (in_step gs) l0"
      "statements (in_step (frame (bf_kind f) # gs)) n l body" "bf_count f = n"
      by (cases rule: reading.cases) auto
    have "reading (ts0 @ (o' # body @ [TokClose])) (count_top gs) (Some (bf_kind f))"
    proof (rule reading_extend [OF n(3)])
      fix m xs
      assume m: "statements (in_step gs) m l0 xs"
      from n(4) n(5,6) full m show "statements (in_step gs) (Suc m) (Some (bf_kind f)) (xs @ o' # body @ [TokClose])"
        by (cases rule: opens.cases) (auto intro: statements.intros)
    qed
    with n f TokClose show ?thesis by simp
  qed (use step opened in \<open>auto intro: opens.intros split: if_splits\<close>)
qed

lemma doc_step_names:
  "doc_step t (fs, l, ns) = Some (fs', l', ns') \<Longrightarrow>
     ns' = ns @ step_names [t] \<and> (distinct ns \<longrightarrow> distinct ns')"
  by (cases t; cases fs) (auto split: if_splits)

lemma run_reading:
  "doc_run ts ([], None, []) = Some (fs, l, ns) \<Longrightarrow>
     reading ts fs l \<and> ns = step_names ts \<and> distinct ns"
proof (induction ts arbitrary: fs l ns rule: rev_induct)
  case Nil
  then show ?case by (auto intro: top_level no_statement)
next
  case (snoc t ts)
  then obtain fs0 l0 ns0 where before: "doc_run ts ([], None, []) = Some (fs0, l0, ns0)"
    and step: "doc_step t (fs0, l0, ns0) = Some (fs, l, ns)"
    by (auto simp: doc_run_append split: option.splits)
  from snoc.IH [OF before] reading_step [OF _ step] doc_step_names [OF step] show ?case by auto
qed

lemma accepted_iff_grammar:
  "(\<exists>l ns. doc_run ts ([], None, []) = Some ([], l, ns)) \<longleftrightarrow>
     (\<exists>n k. statements False n k ts) \<and> distinct (step_names ts)"
proof
  assume "\<exists>l ns. doc_run ts ([], None, []) = Some ([], l, ns)"
  then obtain l ns where "reading ts [] l" "ns = step_names ts" "distinct ns"
    using run_reading by blast
  moreover from \<open>reading ts [] l\<close> have "\<exists>n. statements False n l ts"
    by (cases rule: reading.cases) auto
  ultimately show "(\<exists>n k. statements False n k ts) \<and> distinct (step_names ts)" by auto
next
  assume "(\<exists>n k. statements False n k ts) \<and> distinct (step_names ts)"
  then obtain n k where "statements False n k ts" "distinct (step_names ts)" by blast
  from statements_run [OF this(1), of "[]" "[]" None] this(2)
  show "\<exists>l ns. doc_run ts ([], None, []) = Some ([], l, ns)" by simp
qed

end
