(* ===== verification/Elyph_Laws.thy ===== *)
theory Elyph_Laws
  imports Elyph_Grammar
begin

text \<open>
  The ELyph parser refines the machine of the grammar: as long as no error was reported, a
  significant line moves the parser as its token moves the machine, and a line the machine
  refuses is reported.  Diagnostics are only ever appended, each with the number of its line.
\<close>

section \<open>Diagnostics are appended\<close>

definition extends :: "nat \<Rightarrow> elyph_parser \<Rightarrow> elyph_parser \<Rightarrow> bool" where
  "extends n p q \<longleftrightarrow>
     (\<exists>ds. ep_diagnostics q = ep_diagnostics p @ ds \<and> (\<forall>d \<in> set ds. dg_line d = n))"

lemma extendsI: "ep_diagnostics q = ep_diagnostics p \<Longrightarrow> extends n p q"
  by (simp add: extends_def)

lemma extends_refl [simp]: "extends n p p"
  by (simp add: extendsI)

lemma extends_trans: "extends n p q \<Longrightarrow> extends n q r \<Longrightarrow> extends n p r"
  by (fastforce simp: extends_def)

lemma extends_add [simp]:
  "extends n p q \<Longrightarrow> extends n p (add_error n m q)" "extends n p q \<Longrightarrow> extends n p (add_warning n m q)"
  by (auto simp: extends_def add_error_def add_warning_def)

lemma extends_fields [simp]:
  "extends n p (q\<lparr>ep_blocks := x\<rparr>) = extends n p q" "extends n p (q\<lparr>ep_last_closed := y\<rparr>) = extends n p q"
  "extends n p (q\<lparr>ep_doc := z\<rparr>) = extends n p q" "extends n p (q\<lparr>ep_seen_header := b\<rparr>) = extends n p q"
  "extends n (p\<lparr>ep_last_closed := y\<rparr>) q = extends n p q" "extends n (p\<lparr>ep_blocks := x\<rparr>) q = extends n p q"
  "extends n (p\<lparr>ep_doc := z\<rparr>) q = extends n p q"
  by (simp_all add: extends_def)

lemmas simple_defs = parse_io_def parse_assignment_def parse_derive_def parse_output_def parse_call_def
  parse_text_slot_def check_reserved_variable_def check_derive_expression_def Let_def

lemma simple_extends [simp]:
  "extends n p (parse_io U s n b p)" "extends n p (parse_assignment U s n p)"
  "extends n p (parse_derive U s n p)" "extends n p (parse_output s n p)"
  "extends n p (parse_call U s n pre p)" "extends n p (parse_text_slot s n pre p)"
  by (simp_all add: simple_defs split: option.split prod.split)

lemma block_extends [simp]:
  "extends n p (open_block k q) = extends n p q" "extends n p (close_block n p)"
  "extends n p (parse_if s n p)" "extends n p (parse_else s n p)" "extends n p (parse_each U s n p)"
  "extends n p (count_statement q) = extends n p q" "extends n (count_statement p) q = extends n p q"
  "extends n p (add_step name n q) = extends n p q" "extends n p (parser_header s n p)"
  by (simp_all add: open_block_def close_block_def parse_if_def parse_else_def parse_each_def Let_def
      count_statement_def add_step_def parser_header_def split: list.split option.split)

lemma step_extends: "extends n p (fst (parse_step s n p))"
  by (simp add: parse_step_def parse_step_block_def parse_step_single_def Let_def split: option.split)

lemma content_extends: "extends n p (parse_statement_content U s n p)"
proof (induction U s n p rule: parse_statement_content.induct)
  case (1 U s n p0)
  define p where "p = (if has_prefix ''?else'' s then p0 else p0\<lparr>ep_last_closed := None\<rparr>)"
  have base: "extends n p0 q = extends n p q" for q by (simp add: p_def)
  have step: "extends n p (case parse_step s n p of (p1, None) \<Rightarrow> p1
         | (p1, Some body) \<Rightarrow> parse_statement_content U body n p1)"
    if "has_prefix ''step'' s" "\<not> has_prefix ''<-'' s" "\<not> has_prefix ''->'' s" "\<not> has_prefix ''=>'' s"
      "\<not> has_prefix ''$'' s" "\<not> has_prefix ''?if'' s" "\<not> has_prefix ''?else'' s"
      "\<not> (has_prefix ''? else'' s \<or> has_prefix ''else'' s)" "\<not> has_prefix ''each'' s"
    using "1.IH" [OF p_def that(2-9) that(1)] step_extends [of n p s]
    by (cases "parse_step s n p"; cases "snd (parse_step s n p)") (auto intro: extends_trans)
  show ?case
    unfolding base parse_statement_content.simps [of U s n p0] Let_def p_def [symmetric]
    by (intro if_split [where P = "extends n p", THEN iffD2] conjI impI)
      (simp_all only: simple_extends block_extends extends_add extends_refl step simp_thms not_False_eq_True)
qed

lemma line_extends: "extends n p (parse_line U s n p)"
  using content_extends [of n "count_statement p" U s] by (simp add: parse_line_def)

lemma error_free_extends: "extends n p q \<Longrightarrow> error_free q \<Longrightarrow> error_free p"
  by (auto simp: extends_def error_free_def error_diagnostics_def)

section \<open>Simple statements\<close>

lemma error_free_simps [simp]:
  "\<not> error_free (add_error n m p)" "error_free (add_warning n m p) = error_free p"
  "error_free (q\<lparr>ep_blocks := x\<rparr>) = error_free q" "error_free (q\<lparr>ep_last_closed := y\<rparr>) = error_free q"
  "error_free (q\<lparr>ep_doc := z\<rparr>) = error_free q" "error_free (q\<lparr>ep_seen_header := b\<rparr>) = error_free q"
  "error_free (open_block k p) = error_free p" "error_free (count_statement p) = error_free p"
  "error_free (add_step name n p) = error_free p" "error_free blank_parser" "error_free (new_parser kd nm)"
  by (simp_all add: error_free_def error_diagnostics_def add_error_def add_warning_def open_block_def
      count_statement_def add_step_def blank_parser_def new_parser_def split: list.split)

text \<open>A parser apart from its diagnostics.\<close>

definition quiet :: "elyph_parser \<Rightarrow> elyph_parser" where
  "quiet p = p\<lparr>ep_diagnostics := []\<rparr>"

lemma quiet_add [simp]: "quiet (add_error n m p) = quiet p" "quiet (add_warning n m p) = quiet p"
  by (simp_all add: quiet_def add_error_def add_warning_def)

lemma simple_quiet [simp]:
  "quiet (parse_io U s n b p) = quiet p" "quiet (parse_assignment U s n p) = quiet p"
  "quiet (parse_derive U s n p) = quiet p" "quiet (parse_output s n p) = quiet p"
  "quiet (parse_call U s n pre p) = quiet p" "quiet (parse_text_slot s n pre p) = quiet p"
  by (simp_all add: simple_defs split: option.split prod.split)

lemma parse_simple_quiet: "quiet (parse_simple U s n p) = quiet p"
  by (simp add: parse_simple_def)

lemma simple_errors:
  "error_free (parse_io U s n b p) \<longleftrightarrow> error_free p \<and> error_free (parse_io U s 0 b blank_parser)"
  "error_free (parse_assignment U s n p) \<longleftrightarrow> error_free p \<and> error_free (parse_assignment U s 0 blank_parser)"
  "error_free (parse_derive U s n p) \<longleftrightarrow> error_free p \<and> error_free (parse_derive U s 0 blank_parser)"
  "error_free (parse_output s n p) \<longleftrightarrow> error_free p \<and> error_free (parse_output s 0 blank_parser)"
  "error_free (parse_call U s n pre p) \<longleftrightarrow> error_free p \<and> error_free (parse_call U s 0 pre blank_parser)"
  "error_free (parse_text_slot s n pre p) \<longleftrightarrow> error_free p \<and> error_free (parse_text_slot s 0 pre blank_parser)"
  by (simp_all add: simple_defs split: option.split prod.split)

lemma parse_simple_errors: "error_free (parse_simple U s n p) \<longleftrightarrow> error_free p \<and> simple_ok U s"
  unfolding simple_ok_def parse_simple_def
  by (intro if_split [where P = "\<lambda>q. error_free q \<longleftrightarrow> error_free p \<and> error_free _", THEN iffD2] conjI impI)
    (simp_all add: simple_errors [where n = n and p = p])

lemma has_prefix_hd: "has_prefix (c # q) s \<Longrightarrow> s \<noteq> [] \<and> hd s = c"
  by (auto simp: has_prefix_iff)

lemma other_hd: "s = [] \<or> hd s \<noteq> c \<Longrightarrow> \<not> has_prefix (c # q) s"
  by (auto simp: has_prefix_iff)

lemma single_body_content:
  assumes "valid_step_single_body s"
  shows "parse_statement_content U s n p = parse_simple U s n (p\<lparr>ep_last_closed := None\<rparr>)"
proof -
  have "hd s \<in> {CHR ''$'', CHR ''='', CHR ''>'', CHR ''@'', CHR ''*'', CHR ''~'', CHR ''<'', CHR ''-''}"
    using assms by (auto simp: valid_step_single_body_def dest!: has_prefix_hd)
  then have "\<not> has_prefix (CHR ''?'' # q) s" "\<not> has_prefix (CHR ''e'' # q) s" "\<not> has_prefix (CHR ''s'' # q) s" for q
    by (auto intro!: other_hd)
  then show ?thesis by (simp add: parse_statement_content.simps [of U s] parse_simple_def Let_def)
qed

section \<open>Blocks and steps\<close>

definition abs_doc :: "elyph_parser \<Rightarrow> doc_state" where
  "abs_doc p = (ep_blocks p, ep_last_closed p, map es_name (ed_steps (ep_doc p)))"

lemma abs_quiet: "quiet p = quiet q \<Longrightarrow> abs_doc p = abs_doc q \<and> ep_seen_header p = ep_seen_header q \<and>
    ep_expected_kind p = ep_expected_kind q \<and> ep_expected_name p = ep_expected_name q \<and> ep_doc p = ep_doc q"
  by (cases p; cases q) (auto simp: quiet_def abs_doc_def)

lemma open_if: "parse_if s n p = (if error_free (parse_if s 0 blank_parser) then open_block BlockIf p else parse_if s n p)"
  by (simp add: parse_if_def Let_def)

lemma if_errors: "\<not> error_free (parse_if s 0 blank_parser) \<Longrightarrow> \<not> error_free (parse_if s n p)"
  by (auto simp: parse_if_def Let_def split: if_splits)

lemma open_each: "error_free (parse_each U s 0 blank_parser) \<Longrightarrow> parse_each U s n p = open_block BlockEach p"
  by (auto simp: parse_each_def Let_def split: if_splits option.splits)

lemma each_errors: "\<not> error_free (parse_each U s 0 blank_parser) \<Longrightarrow> \<not> error_free (parse_each U s n p)"
  by (auto simp: parse_each_def Let_def split: if_splits option.splits)

lemma body_nonempty: "valid_step_single_body b \<Longrightarrow> b \<noteq> []"
  by (auto simp: valid_step_single_body_def dest: has_prefix_hd)

definition enter_step :: "string \<Rightarrow> nat \<Rightarrow> string option \<Rightarrow> elyph_parser \<Rightarrow> elyph_parser \<times> string option" where
  "enter_step name n body p =
     (case reject_step_context name p of
        Some msg \<Rightarrow> (add_error n msg p, None)
      | None \<Rightarrow> (case body of None \<Rightarrow> (open_block BlockStep (add_step name n p), None)
          | Some b \<Rightarrow> (add_step name n p, Some b)))"

lemma step_block_cases:
  "\<exists>m. parse_step_block rest n p =
     (if step_named (trim_space (trim_suffix ''{'' rest))
      then fst (enter_step (trim_space (trim_suffix ''{'' rest)) n None p) else add_error n m p)"
  unfolding parse_step_block_def step_named_def enter_step_def Let_def
  by (cases "reject_step_context (trim_space (trim_suffix ''{'' rest)) p") auto

lemma step_single_cases:
  "\<exists>m. parse_step_single x y n p =
     (if step_named (trim_space x) \<and> valid_step_single_body (trim_space y)
      then enter_step (trim_space x) n (Some (trim_space y)) p else (add_error n m p, None))"
proof -
  have "trim_space y \<noteq> []" if "valid_step_single_body (trim_space y)" using body_nonempty [OF that] .
  then show ?thesis
    unfolding parse_step_single_def step_named_def enter_step_def Let_def
    by (cases "reject_step_context (trim_space x) p") auto
qed

lemma enter_block_none: "(fst (enter_step name n None p), None) = enter_step name n None p"
  by (simp add: enter_step_def split: option.split)

lemma step_head_cases:
  "\<exists>m. parse_step s n p =
     (case step_head s of None \<Rightarrow> (add_error n m p, None) | Some (name, body) \<Rightarrow> enter_step name n body p)"
proof -
  let ?rest = "trim_space (trim_prefix ''step'' s)"
  show ?thesis
  proof (cases "has_suffix ''{'' ?rest")
    case True
    obtain m where "parse_step_block ?rest n p =
     (if step_named (trim_space (trim_suffix ''{'' ?rest))
      then fst (enter_step (trim_space (trim_suffix ''{'' ?rest)) n None p) else add_error n m p)"
      using step_block_cases by blast
    with True show ?thesis by (auto simp: parse_step_def step_head_def Let_def enter_block_none)
  next
    case False
    show ?thesis
    proof (cases "index_of '':'' ?rest")
      case None
      with False show ?thesis by (auto simp: parse_step_def step_head_def Let_def)
    next
      case (Some k)
      obtain m where "parse_step_single (take k ?rest) (drop (k + 1) ?rest) n p =
         (if step_named (trim_space (take k ?rest)) \<and> valid_step_single_body (trim_space (drop (k + 1) ?rest))
          then enter_step (trim_space (take k ?rest)) n (Some (trim_space (drop (k + 1) ?rest))) p
          else (add_error n m p, None))"
        using step_single_cases by blast
      with False Some show ?thesis by (auto simp: parse_step_def step_head_def Let_def)
    qed
  qed
qed

lemma step_head_body: "step_head s = Some (name, Some b) \<Longrightarrow> valid_step_single_body b"
  by (auto simp: step_head_def Let_def split: if_splits option.splits)

section \<open>Refinement\<close>

definition same_frame :: "elyph_parser \<Rightarrow> elyph_parser \<Rightarrow> bool" where
  "same_frame p q \<longleftrightarrow> ep_seen_header q = ep_seen_header p \<and> ep_expected_kind q = ep_expected_kind p \<and>
     ep_expected_name q = ep_expected_name p \<and> ed_kind (ep_doc q) = ed_kind (ep_doc p) \<and>
     ed_name (ep_doc q) = ed_name (ep_doc p)"

text \<open>A move of the parser from \<open>p\<close> to \<open>q\<close> simulates token \<open>t\<close>.\<close>

definition simulates :: "elyph_parser \<Rightarrow> line_token \<Rightarrow> elyph_parser \<Rightarrow> bool" where
  "simulates p t q \<longleftrightarrow> (case doc_step t (abs_doc p) of
      None \<Rightarrow> \<not> error_free q
    | Some st \<Rightarrow> error_free q = error_free p \<and> abs_doc q = st \<and> same_frame p q)"

lemma count_blocks [simp]: "ep_blocks (count_statement p) = count_top (ep_blocks p)"
  by (simp add: count_statement_def split: list.split)

lemma count_fields [simp]:
  "ep_last_closed (count_statement p) = ep_last_closed p" "ep_doc (count_statement p) = ep_doc p"
  "ep_seen_header (count_statement p) = ep_seen_header p"
  "ep_expected_kind (count_statement p) = ep_expected_kind p"
  "ep_expected_name (count_statement p) = ep_expected_name p"
  by (simp_all add: count_statement_def split: list.split)

abbreviation counted :: "elyph_parser \<Rightarrow> elyph_parser" where
  "counted p \<equiv> (count_statement p)\<lparr>ep_last_closed := None\<rparr>"

lemma open_fields [simp]:
  "ep_blocks (open_block k p) = frame k # ep_blocks p" "ep_last_closed (open_block k p) = None"
  "ep_doc (open_block k p) = ep_doc p" "same_frame q (open_block k p) = same_frame q p"
  by (simp_all add: open_block_def frame_def same_frame_def)

lemma same_frame_simps [simp]:
  "same_frame p p" "same_frame p (count_statement p)" "same_frame p (counted p)"
  "same_frame q (add_step name n p) = same_frame q p"
  by (simp_all add: same_frame_def add_step_def)

lemma simple_simulates:
  "simulates p (if simple_ok U s then TokSimple else TokBad) (parse_simple U s n (counted p))"
proof -
  have "abs_doc (parse_simple U s n (counted p)) = abs_doc (counted p)"
    and "same_frame p (parse_simple U s n (counted p))"
    using abs_quiet [OF parse_simple_quiet [of U s n "counted p"]] by (simp_all add: same_frame_def)
  then show ?thesis
    by (cases "simple_ok U s") (simp_all add: simulates_def parse_simple_errors abs_doc_def)
qed

lemma reject_iff:
  "reject_step_context name p = None \<longleftrightarrow>
     \<not> in_step (ep_blocks p) \<and> name \<notin> set (map es_name (ed_steps (ep_doc p)))"
  by (auto simp: reject_step_context_def in_step_def list_ex_iff)

abbreviation step_refused :: "string \<Rightarrow> elyph_parser \<Rightarrow> bool" where
  "step_refused name p \<equiv> in_step (ep_blocks p) \<or> name \<in> set (map es_name (ed_steps (ep_doc p)))"

lemma enter_refused:
  assumes "step_refused name p"
  obtains q where "enter_step name n body (counted p) = (q, None)" and "\<not> error_free q"
  using reject_iff [of name "counted p"] assms
  by (cases "reject_step_context name (counted p)") (auto simp: enter_step_def)

lemma enter_accepted:
  assumes "\<not> step_refused name p"
  shows "enter_step name n None (counted p) = (open_block BlockStep (add_step name n (counted p)), None)"
    and "enter_step name n (Some b) (counted p) = (add_step name n (counted p), Some b)"
proof -
  have "reject_step_context name (counted p) = None"
    using reject_iff [of name "counted p"] assms by simp
  then show "enter_step name n None (counted p) = (open_block BlockStep (add_step name n (counted p)), None)"
    and "enter_step name n (Some b) (counted p) = (add_step name n (counted p), Some b)"
    by (simp_all add: enter_step_def)
qed

lemma add_step_fields [simp]:
  "ep_blocks (add_step name n p) = ep_blocks p" "ep_last_closed (add_step name n p) = ep_last_closed p"
  "map es_name (ed_steps (ep_doc (add_step name n p))) = map es_name (ed_steps (ep_doc p)) @ [name]"
  by (simp_all add: add_step_def)

lemma step_block_simulates:
  obtains q where "enter_step name n None (counted p) = (q, None)" and "simulates p (TokStepBlock name) q"
proof (cases "step_refused name p")
  case True
  then obtain q where "enter_step name n None (counted p) = (q, None)" "\<not> error_free q"
    by (rule enter_refused)
  with True that [of q] show ?thesis by (auto simp: simulates_def abs_doc_def)
next
  case False
  with that [OF enter_accepted(1) [OF False]] show ?thesis
    by (simp add: simulates_def abs_doc_def)
qed

lemma step_line_simulates:
  assumes "valid_step_single_body b"
  shows "simulates p (if simple_ok U b then TokStepLine name else TokBad)
    (case enter_step name n (Some b) (counted p) of
       (q, None) \<Rightarrow> q | (q, Some body) \<Rightarrow> parse_statement_content U body n q)"
proof (cases "step_refused name p")
  case True
  then obtain q where "enter_step name n (Some b) (counted p) = (q, None)" "\<not> error_free q"
    by (rule enter_refused)
  with True show ?thesis by (auto simp: simulates_def abs_doc_def)
next
  case False
  let ?q = "add_step name n (counted p)"
  have e: "enter_step name n (Some b) (counted p) = (?q, Some b)"
    by (rule enter_accepted(2) [OF False])
  have "parse_statement_content U b n ?q = parse_simple U b n ?q"
    unfolding single_body_content [OF assms] by (cases "count_statement p") (simp add: add_step_def)
  moreover have "abs_doc (parse_simple U b n ?q) = abs_doc ?q" "same_frame p (parse_simple U b n ?q)"
    using abs_quiet [OF parse_simple_quiet [of U b n ?q]] same_frame_simps(4) [of p name n "counted p"]
    by (simp_all add: same_frame_def)
  ultimately show ?thesis
    using False unfolding e
    by (cases "simple_ok U b") (auto simp: simulates_def parse_simple_errors abs_doc_def add_step_def)
qed

lemma step_simulates:
  "simulates p (step_token U s)
    (case parse_step s n (counted p) of
       (q, None) \<Rightarrow> q | (q, Some body) \<Rightarrow> parse_statement_content U body n q)"
proof -
  obtain m where m: "parse_step s n (counted p) =
     (case step_head s of None \<Rightarrow> (add_error n m (counted p), None)
      | Some (name, body) \<Rightarrow> enter_step name n body (counted p))"
    using step_head_cases by blast
  show ?thesis
  proof (cases "step_head s")
    case None
    then show ?thesis unfolding m by (simp add: step_token_def simulates_def)
  next
    case (Some r)
    obtain name body where r: "r = (name, body)" by (cases r)
    show ?thesis
    proof (cases body)
      case None
      obtain q where "enter_step name n None (counted p) = (q, None)" "simulates p (TokStepBlock name) q"
        by (rule step_block_simulates)
      with None Some r show ?thesis unfolding m by (simp add: step_token_def)
    next
      case (Some b)
      with \<open>step_head s = Some r\<close> r step_line_simulates [OF step_head_body [of s name b], where p = p and U = U and n = n and name = name] show ?thesis
        unfolding m by (simp add: step_token_def)
    qed
  qed
qed

lemma if_simulates:
  "simulates p (if error_free (parse_if s 0 blank_parser) then TokIf else TokBad) (parse_if s n (counted p))"
  using open_if [of s n "counted p"] if_errors [of s n "counted p"]
  by (auto simp: simulates_def abs_doc_def)

lemma each_simulates:
  "simulates p (if error_free (parse_each U s 0 blank_parser) then TokEach else TokBad) (parse_each U s n (counted p))"
  using open_each [of U s n "counted p"] each_errors [of U s n "counted p"]
  by (auto simp: simulates_def abs_doc_def)

lemma else_simulates:
  "simulates p (if trim_space (trim_prefix ''?else'' s) = ''{'' then TokElse else TokBad)
     (parse_else s n (count_statement p))"
  by (simp add: simulates_def parse_else_def abs_doc_def)

lemma close_simulates: "simulates p TokClose (close_block n p)"
  by (cases "ep_blocks p")
    (auto simp: simulates_def abs_doc_def close_block_def Let_def same_frame_def add_error_def
      error_free_def error_diagnostics_def)

lemma content_simple:
  assumes "\<not> has_any_prefix [''?if'', ''?else'', ''? else'', ''else'', ''each'', ''step''] s"
  shows "parse_statement_content U s n p = parse_simple U s n (p\<lparr>ep_last_closed := None\<rparr>)"
  using assms by (simp add: has_any_prefix_def parse_statement_content.simps [of U s] parse_simple_def Let_def)

lemma variable_line_simple:
  assumes "has_any_prefix [''<-'', ''->'', ''=>'', ''$''] s"
  shows "\<not> has_any_prefix [''?if'', ''?else'', ''? else'', ''else'', ''each'', ''step''] s"
proof -
  have "hd s \<in> {CHR ''<'', CHR ''-'', CHR ''='', CHR ''$''}"
    using assms by (auto simp: has_any_prefix_def dest!: has_prefix_hd)
  then have "\<not> has_prefix (CHR ''?'' # q) s" "\<not> has_prefix (CHR ''e'' # q) s" "\<not> has_prefix (CHR ''s'' # q) s" for q
    by (auto intro!: other_hd)
  then show ?thesis by (simp add: has_any_prefix_def)
qed

lemma content_simulates:
  assumes "\<not> has_prefix ''#'' s" and "s \<noteq> ''}''"
  shows "simulates p (token_of U s) (parse_statement_content U s n (count_statement p))"
proof (cases "has_any_prefix [''<-'', ''->'', ''=>'', ''$''] s")
  case True
  with assms simple_simulates [of p U s n] show ?thesis
    by (simp add: content_simple [OF variable_line_simple [OF True]] token_of_def)
next
  case a: False
  then have a': "\<not> has_prefix ''<-'' s" "\<not> has_prefix ''->'' s" "\<not> has_prefix ''=>'' s" "\<not> has_prefix ''$'' s"
    by (simp_all add: has_any_prefix_def)
  note content = parse_statement_content.simps [of U s n "count_statement p"]
  consider (i) "has_prefix ''?if'' s" | (e) "\<not> has_prefix ''?if'' s" "has_prefix ''?else'' s"
    | (b) "\<not> has_prefix ''?if'' s" "\<not> has_prefix ''?else'' s" "has_any_prefix [''? else'', ''else''] s"
    | (c) "\<not> has_any_prefix [''?if'', ''?else'', ''? else'', ''else''] s" "has_prefix ''each'' s"
    | (s) "\<not> has_any_prefix [''?if'', ''?else'', ''? else'', ''else'', ''each''] s" "has_prefix ''step'' s"
    | (o) "\<not> has_any_prefix [''?if'', ''?else'', ''? else'', ''else'', ''each'', ''step''] s"
    by (auto simp: has_any_prefix_def)
  then show ?thesis
  proof cases
    case i
    then have "\<not> has_prefix ''?else'' s" by (auto simp: has_prefix_iff)
    with assms a a' i if_simulates [of p s n] show ?thesis
      by (simp add: content token_of_def Let_def)
  next
    case e
    with assms a a' else_simulates [of p s n] show ?thesis
      by (simp add: content token_of_def Let_def)
  next
    case b
    with assms a a' show ?thesis
      by (simp add: content token_of_def Let_def simulates_def has_any_prefix_def)
  next
    case c
    with assms a a' each_simulates [of p U s n] show ?thesis
      by (simp add: content token_of_def Let_def has_any_prefix_def)
  next
    case s
    with assms a a' step_simulates [of p U s n] show ?thesis
      by (simp add: content token_of_def Let_def has_any_prefix_def)
  next
    case o
    with assms a simple_simulates [of p U s n] show ?thesis
      by (simp add: content_simple [OF o] token_of_def has_any_prefix_def)
  qed
qed

lemma line_simulates:
  assumes "ep_seen_header p" and "\<not> skip_line s"
  shows "simulates p (token_of U s) (parse_line U s n p)"
proof -
  consider "has_prefix ''#'' s" | "\<not> has_prefix ''#'' s" "s = ''}''" | "\<not> has_prefix ''#'' s" "s \<noteq> ''}''"
    by blast
  then show ?thesis
  proof cases
    case 1
    with assms show ?thesis by (simp add: parse_line_def token_of_def simulates_def)
  next
    case 2
    with assms close_simulates [of p n] show ?thesis by (simp add: parse_line_def token_of_def)
  next
    case 3
    with assms content_simulates [OF 3] show ?thesis by (simp add: parse_line_def)
  qed
qed

section \<open>Documents\<close>

definition significant :: "string list \<Rightarrow> string list" where
  "significant ss = filter (\<lambda>s. \<not> skip_line s) ss"

lemma parse_lines_extends:
  "\<exists>ds. ep_diagnostics (parse_lines U n ss p) = ep_diagnostics p @ ds \<and>
     (\<forall>d \<in> set ds. n \<le> dg_line d \<and> dg_line d < n + length ss)"
proof (induction ss arbitrary: n p)
  case (Cons s ss)
  obtain ds where ds: "ep_diagnostics (parse_lines U (n + 1) ss (parse_line U s n p)) =
      ep_diagnostics (parse_line U s n p) @ ds" "\<forall>d \<in> set ds. n + 1 \<le> dg_line d \<and> dg_line d < n + 1 + length ss"
    using Cons by blast
  obtain es where "ep_diagnostics (parse_line U s n p) = ep_diagnostics p @ es" "\<forall>d \<in> set es. dg_line d = n"
    using line_extends [of n p U s] by (auto simp: extends_def)
  with ds show ?case by (auto intro!: exI [of _ "es @ ds"])
qed simp

lemma parse_lines_error: "\<not> error_free p \<Longrightarrow> \<not> error_free (parse_lines U n ss p)"
  using parse_lines_extends [of U n ss p] by (auto simp: error_free_def error_diagnostics_def)

lemma lines_simulate:
  assumes "ep_seen_header p" and "error_free p"
  shows "case doc_run (map (token_of U) (significant ss)) (abs_doc p) of
      None \<Rightarrow> \<not> error_free (parse_lines U n ss p)
    | Some st \<Rightarrow> error_free (parse_lines U n ss p) \<and> abs_doc (parse_lines U n ss p) = st \<and>
        same_frame p (parse_lines U n ss p)"
  using assms
proof (induction ss arbitrary: n p)
  case Nil
  then show ?case by (simp add: significant_def)
next
  case (Cons s ss)
  show ?case
  proof (cases "skip_line s")
    case True
    then have "parse_lines U n (s # ss) p = parse_lines U (n + 1) ss p" "significant (s # ss) = significant ss"
      by (simp_all add: parse_line_def significant_def)
    with Cons.IH [OF Cons.prems, of "n + 1"] show ?thesis by (simp only:)
  next
    case False
    let ?q = "parse_line U s n p"
    have sig: "significant (s # ss) = s # significant ss" using False by (simp add: significant_def)
    have sim: "simulates p (token_of U s) ?q" by (rule line_simulates [OF Cons.prems(1) False])
    show ?thesis
    proof (cases "doc_step (token_of U s) (abs_doc p)")
      case None
      with sim have "\<not> error_free ?q" by (simp add: simulates_def)
      with None show ?thesis by (simp add: sig parse_lines_error)
    next
      case (Some st)
      with sim Cons.prems have q: "error_free ?q" "abs_doc ?q = st" "same_frame p ?q" "ep_seen_header ?q"
        by (simp_all add: simulates_def same_frame_def)
      from Cons.IH [OF q(4,1), of "n + 1"] q Some show ?thesis
        by (auto simp: sig same_frame_def split: option.splits)
    qed
  qed
qed

definition header_accepted :: "string \<Rightarrow> string \<Rightarrow> string \<Rightarrow> bool" where
  "header_accepted kind name line =
     (let fs = Go_Strings.fields line; rest = header_rest line fs in
      header_ok fs \<and>
      (length fs > 2 \<longrightarrow> has_prefix ''- '' rest \<and> trim_space (trim_prefix ''- '' rest) \<noteq> []) \<and>
      (trim_space kind \<noteq> [] \<longrightarrow> trim_prefix ''#'' (fs ! 0) = trim_space kind) \<and>
      (trim_space name \<noteq> [] \<longrightarrow> fs ! 1 = trim_space name))"

definition header_shape :: "string \<Rightarrow> bool" where
  "header_shape line = header_accepted [] [] line"

definition with_header :: "string \<Rightarrow> elyph_parser \<Rightarrow> elyph_parser" where
  "with_header line p =
     p\<lparr>ep_doc := (ep_doc p)\<lparr>ed_kind := trim_prefix ''#'' (Go_Strings.fields line ! 0),
         ed_name := Go_Strings.fields line ! 1\<rparr>, ep_seen_header := True\<rparr>"

lemma parser_header_cases:
  "parser_header s n p = (if header_shape s then with_header s p
     else add_error n (FirstStatement (ep_expected_kind p)) p)"
  by (auto simp: parser_header_def header_shape_def header_accepted_def with_header_def Let_def)

lemma lines_before_header:
  assumes "\<not> ep_seen_header p" and "error_free p"
  shows "case significant ss of
      [] \<Rightarrow> parse_lines U n ss p = p
    | h # body \<Rightarrow>
        if header_shape h
        then \<exists>m rest. parse_lines U n ss p = parse_lines U m rest (with_header h p) \<and> significant rest = body
        else \<not> error_free (parse_lines U n ss p)"
  using assms
proof (induction ss arbitrary: n)
  case Nil
  then show ?case by (simp add: significant_def)
next
  case (Cons s ss)
  show ?case
  proof (cases "skip_line s")
    case True
    then have "parse_lines U n (s # ss) p = parse_lines U (n + 1) ss p" "significant (s # ss) = significant ss"
      by (simp_all add: parse_line_def significant_def)
    with Cons.IH [OF Cons.prems, of "n + 1"] show ?thesis by (simp only:)
  next
    case False
    then have sig: "significant (s # ss) = s # significant ss" by (simp add: significant_def)
    have line: "parse_line U s n p = parser_header s n p" using False Cons.prems by (simp add: parse_line_def)
    show ?thesis
      unfolding sig list.case parse_lines.simps line parser_header_cases
      using parse_lines_error [of "add_error n (FirstStatement (ep_expected_kind p)) p" U "n + 1" ss]
      by auto
  qed
qed

lemma finish_error_free:
  "error_free (finish_parser p) \<longleftrightarrow>
     error_free p \<and> ep_seen_header p \<and> ep_blocks p = [] \<and>
     (ep_expected_kind p \<noteq> [] \<and> ed_kind (ep_doc p) \<noteq> [] \<longrightarrow> ed_kind (ep_doc p) = ep_expected_kind p) \<and>
     (ep_expected_name p \<noteq> [] \<and> ed_name (ep_doc p) \<noteq> [] \<longrightarrow> ed_name (ep_doc p) = ep_expected_name p)"
  by (auto simp: finish_parser_def Let_def add_error_def error_free_def error_diagnostics_def)

lemma finish_doc [simp]: "ep_doc (finish_parser p) = ep_doc p"
  by (simp add: finish_parser_def Let_def add_error_def)

lemma header_nonempty:
  "header_ok fs \<Longrightarrow> trim_prefix ''#'' (fs ! 0) \<noteq> [] \<and> fs ! 1 \<noteq> []"
  by (auto simp: header_ok_def valid_name_def trim_prefix_def has_prefix_def split: list.splits if_splits)

lemma header_accepted_iff:
  "header_accepted kind name h \<longleftrightarrow> header_shape h \<and>
     (trim_space kind \<noteq> [] \<longrightarrow> trim_prefix ''#'' (Go_Strings.fields h ! 0) = trim_space kind) \<and>
     (trim_space name \<noteq> [] \<longrightarrow> Go_Strings.fields h ! 1 = trim_space name)"
  by (auto simp: header_shape_def header_accepted_def Let_def)

lemma header_shape_ok: "header_shape h \<Longrightarrow> header_ok (Go_Strings.fields h)"
  by (simp add: header_shape_def header_accepted_def Let_def)

text \<open>The parser after the last line, for an accepted header.\<close>

lemma document_run:
  assumes h: "significant ss = h # body" and shape: "header_shape h"
    and p_def: "p = parse_lines U 1 ss (new_parser kind name)"
  shows "case doc_run (map (token_of U) body) ([], None, []) of
      None \<Rightarrow> \<not> error_free p
    | Some st \<Rightarrow> error_free p \<and> abs_doc p = st \<and> same_frame (with_header h (new_parser kind name)) p"
proof -
  let ?p0 = "new_parser kind name"
  have fresh: "\<not> ep_seen_header ?p0" "error_free ?p0" by (simp_all add: new_parser_def) (simp add: error_free_def error_diagnostics_def)
  obtain m rest where p: "p = parse_lines U m rest (with_header h ?p0)" and rest: "significant rest = body"
    using lines_before_header [OF fresh, where ss = ss and U = U and n = 1] h shape unfolding p_def by auto
  have "ep_seen_header (with_header h ?p0)" "error_free (with_header h ?p0)"
    using fresh by (simp_all add: with_header_def)
  moreover have "abs_doc (with_header h ?p0) = ([], None, [])"
    by (simp add: abs_doc_def with_header_def new_parser_def empty_document_def)
  ultimately show ?thesis
    using lines_simulate [where p = "with_header h ?p0" and U = U and ss = rest and n = m] rest unfolding p by (simp only:)
qed

end
