(* ===== verification/Elyph_Props.thy ===== *)
theory Elyph_Props
  imports Elyph_Laws
begin

text \<open>
  What the ELyph parser promises: it accepts exactly the documents of the grammar, agrees with
  the quick scan of the header, and reports every diagnostic at a line of the document.
\<close>

definition no_unicode :: unicode_classes where
  "no_unicode = \<lparr>uc_letter = (\<lambda>r. False), uc_digit = (\<lambda>r. False)\<rparr>"

definition sample_document :: string where
  "sample_document = ''#skill t'' @ [NL] @ ''step a: > x''"

lemma validate_ok_iff:
  "(\<exists>doc. snd (validate_kind U raw kind name) = Inr doc) \<longleftrightarrow>
     trim_space (replace_all CRLF [NL] raw) \<noteq> [] \<and>
     error_free (finish_parser (parse_lines U 1 (document_lines raw) (new_parser kind name)))"
  by (auto simp: validate_kind_def parse_document_def Let_def error_free_def error_diagnostics_def)

lemma parser_ok_iff:
  assumes p: "p = parse_lines U 1 ss (new_parser kind name)"
  shows "error_free (finish_parser p) \<longleftrightarrow>
    (\<exists>h body. significant ss = h # body \<and> header_accepted kind name h \<and>
       (\<exists>l ns. doc_run (map (token_of U) body) ([], None, []) = Some ([], l, ns)))"
proof -
  let ?p0 = "new_parser kind name"
  have fresh: "\<not> ep_seen_header ?p0" "error_free ?p0" "ep_expected_kind ?p0 = trim_space kind"
    "ep_expected_name ?p0 = trim_space name"
    by (simp_all add: new_parser_def) (simp add: error_free_def error_diagnostics_def)
  show ?thesis
  proof (cases "significant ss")
    case Nil
    with lines_before_header [OF fresh(1,2), where ss = ss and U = U and n = 1] fresh(1) show ?thesis
      unfolding p by (simp add: finish_error_free)
  next
    case (Cons h body)
    show ?thesis
    proof (cases "header_shape h")
      case False
      with lines_before_header [OF fresh(1,2), where ss = ss and U = U and n = 1] Cons show ?thesis
        unfolding p by (simp add: finish_error_free header_accepted_iff)
    next
      case True
      have fields: "same_frame (with_header h ?p0) p \<Longrightarrow> ep_seen_header p \<and> ep_expected_kind p = trim_space kind \<and>
          ep_expected_name p = trim_space name \<and>
          ed_kind (ep_doc p) = trim_prefix ''#'' (Go_Strings.fields h ! 0) \<and> ed_name (ep_doc p) = Go_Strings.fields h ! 1"
        using fresh by (simp add: same_frame_def with_header_def)
      have "abs_doc p = (ep_blocks p, ep_last_closed p, map es_name (ed_steps (ep_doc p)))" by (simp add: abs_doc_def)
      with document_run [OF Cons True p] fields header_nonempty [OF header_shape_ok [OF True]] True Cons
      show ?thesis
        by (auto simp: finish_error_free header_accepted_iff split: option.splits)
    qed
  qed
qed


text \<open>
  The quick scan agrees with the parser.  Whenever a document is accepted, \<open>ParseHeader\<close>
  succeeds on it with the same kind and name, so skills registered at startup carry the names
  their full validation gives; and the document lists its steps in the order of the text.
\<close>

lemma elyph_quick_header:
  assumes "snd (validate_kind U raw kind name) = Inr doc"
  shows "(\<exists>h. parse_header raw = Inr h \<and> eh_kind h = ed_kind doc \<and> eh_name h = ed_name doc) \<and>
    map es_name (ed_steps doc) = step_names (map (token_of U) (tl (significant (document_lines raw))))"
proof -
  let ?ss = "document_lines raw"
  define p where "p = parse_lines U 1 ?ss (new_parser kind name)"
  have ok: "error_free (finish_parser p)" and doc: "doc = ep_doc p"
    using assms validate_ok_iff [of U raw kind name]
    by (auto simp: p_def validate_kind_def parse_document_def Let_def split: if_splits)
  then obtain h body l ns where h: "significant ?ss = h # body" "header_accepted kind name h"
    and run: "doc_run (map (token_of U) body) ([], None, []) = Some ([], l, ns)"
    using parser_ok_iff [OF p_def] by blast
  have shape: "header_shape h" using h(2) by (simp add: header_accepted_iff)
  have sim: "abs_doc p = ([], l, ns)" "same_frame (with_header h (new_parser kind name)) p"
    using document_run [OF h(1) shape p_def] run by simp_all
  have steps: "map es_name (ed_steps doc) = step_names (map (token_of U) body)"
    using sim(1) run_reading [OF run] by (simp add: abs_doc_def doc)
  have scan: "scan_header ss = header_of_line h" if "significant ss = h # body" for ss
    using that by (induction ss) (auto simp: significant_def split: if_splits)
  have "parse_header raw = header_of_line h" unfolding parse_header_def by (rule scan [OF h(1)])
  moreover have "ed_kind doc = trim_prefix ''#'' (Go_Strings.fields h ! 0)" "ed_name doc = Go_Strings.fields h ! 1"
    using sim(2) by (simp_all add: same_frame_def with_header_def doc)
  ultimately show ?thesis
    using header_shape_ok [OF shape] steps h(1) by (simp add: header_of_line_def Let_def)
qed

lemma elyph_quick_header_witness:
  "\<exists>h. parse_header sample_document = Inr h \<and> eh_kind h = ''skill'' \<and> eh_name h = ''t''"
proof -
  have "snd (validate_kind no_unicode sample_document ''skill'' ''t'') =
      Inr \<lparr>ed_kind = ''skill'', ed_name = ''t'', ed_steps = [\<lparr>es_name = ''a'', es_line = 2\<rparr>]\<rparr>"
    by code_simp
  from elyph_quick_header [OF this] show ?thesis by simp
qed

text \<open>
  Diagnostics point into the document.  Every diagnostic carries the number of a line of
  the document, or zero for the document as a whole; and a document is refused exactly when
  one of its diagnostics is an error, warnings never refusing it.
\<close>

lemma elyph_diagnostics_located:
  "(\<forall>d \<in> set (fst (validate_kind U raw kind name)). dg_line d \<le> length (document_lines raw)) \<and>
   ((\<exists>e. snd (validate_kind U raw kind name) = Inl e) \<longleftrightarrow>
      (\<exists>d \<in> set (fst (validate_kind U raw kind name)). dg_severity d \<noteq> DiagnosticWarning))"
proof -
  let ?p = "parse_lines U 1 (document_lines raw) (new_parser kind name)"
  obtain ds where "ep_diagnostics ?p = ds" "\<forall>d \<in> set ds. dg_line d < 1 + length (document_lines raw)"
    using parse_lines_extends [of U 1 "document_lines raw" "new_parser kind name"] by (auto simp: new_parser_def)
  moreover have "extends 0 ?p (finish_parser ?p)"
    by (auto simp: finish_parser_def Let_def)
  ultimately have "\<forall>d \<in> set (ep_diagnostics (finish_parser ?p)). dg_line d \<le> length (document_lines raw)"
    unfolding extends_def by (metis (no_types, lifting) Un_iff less_Suc_eq_le plus_1_eq_Suc set_append zero_le)
  moreover have "d \<in> set (error_diagnostics ds) \<longleftrightarrow> d \<in> set ds \<and> dg_severity d \<noteq> DiagnosticWarning" for d ds
    by (cases "dg_severity d") (auto simp: error_diagnostics_def)
  then have "error_diagnostics ds \<noteq> [] \<longleftrightarrow> (\<exists>d \<in> set ds. dg_severity d \<noteq> DiagnosticWarning)" for ds
    by (metis last_in_set list.set_cases neq_Nil_conv list.set_intros(1) equals0D set_empty)
  ultimately show ?thesis
    by (simp add: validate_kind_def parse_document_def Let_def error_diagnostics_def)
qed

lemma elyph_diagnostics_located_witness:
  "\<exists>e. snd (validate_kind no_unicode ''x'' ''skill'' []) = Inl e"
  by (rule elyph_diagnostics_located [THEN conjunct2, THEN iffD2]) code_simp

end
