(* ===== verification/Security_Policy.thy ===== *)
theory Security_Policy
  imports Session_Admission Go_Strings
begin

text \<open>
  Risk levels and the permission check of a tool call (\<open>internal/security/security.go\<close>), and what
  the tool runner makes of its answer (\<open>confirm\<close> of \<open>internal/tool/execution/runner.go\<close>).
\<close>

section \<open>Risk levels\<close>

text \<open>A risk level is a string in Go; \<open>RiskOther\<close> stands for the strings that name no level.\<close>

datatype risk_level = RiskSafe | RiskLow | RiskMedium | RiskHigh | RiskCritical | RiskOther string

fun risk_rank :: "risk_level \<Rightarrow> int" where
  "risk_rank RiskSafe = 0"
| "risk_rank RiskLow = 1"
| "risk_rank RiskMedium = 2"
| "risk_rank RiskHigh = 3"
| "risk_rank RiskCritical = 4"
| "risk_rank (RiskOther s) = 3"

definition compare_risk :: "risk_level \<Rightarrow> risk_level \<Rightarrow> int" where
  "compare_risk l r = risk_rank l - risk_rank r"

definition normalize_risk :: "string \<Rightarrow> string" where
  "normalize_risk v = to_lower (trim_space v)"

definition parse_risk :: "string \<Rightarrow> risk_level \<Rightarrow> risk_level" where
  "parse_risk v fallback =
     (let n = normalize_risk v
      in if n = ''safe'' then RiskSafe
         else if n = ''low'' then RiskLow
         else if n = ''medium'' then RiskMedium
         else if n = ''high'' then RiskHigh
         else if n = ''critical'' then RiskCritical
         else fallback)"

section \<open>Actors and permissions\<close>

datatype actor_role = RoleSuperadminActor | RoleUserActor | RoleOtherActor string

record actor =
  actor_ident :: actor_identity
  actor_name :: string
  actor_role :: actor_role
  actor_group_role :: string

record permission =
  pm_user_max_risk :: risk_level
  pm_superadmin_confirm_risk :: risk_level
  pm_superadmins :: "string \<Rightarrow> string set option"

definition new_permission :: "string \<Rightarrow> string \<Rightarrow> (string \<Rightarrow> string list option) \<Rightarrow> permission" where
  "new_permission user_max confirm admins =
     \<lparr>pm_user_max_risk = parse_risk user_max RiskLow,
      pm_superadmin_confirm_risk = parse_risk confirm RiskHigh,
      pm_superadmins = (\<lambda>platform. map_option set (admins platform))\<rparr>"

definition default_permission :: permission where
  "default_permission = new_permission ''low'' ''high'' [''cli'' \<mapsto> [''local'']]"

definition is_superadmin :: "permission \<Rightarrow> string \<Rightarrow> string \<Rightarrow> bool" where
  "is_superadmin p platform i =
     (case pm_superadmins p platform of None \<Rightarrow> False | Some ids \<Rightarrow> i \<in> ids)"

definition resolve_actor :: "permission \<Rightarrow> string \<Rightarrow> string \<Rightarrow> string \<Rightarrow> actor" where
  "resolve_actor p platform i name =
     \<lparr>actor_ident = \<lparr>ac_platform = platform, ac_id = i\<rparr>, actor_name = name,
      actor_role = (if is_superadmin p platform i then RoleSuperadminActor else RoleUserActor),
      actor_group_role = ''unknown''\<rparr>"

definition can_use_tool :: "permission \<Rightarrow> actor \<Rightarrow> risk_level \<Rightarrow> bool \<Rightarrow> bool" where
  "can_use_tool p a risk owner_scoped =
     (if actor_role a = RoleSuperadminActor then True
      else if owner_scoped then True
      else compare_risk risk (pm_user_max_risk p) \<le> 0)"

definition needs_tool_confirmation :: "permission \<Rightarrow> actor \<Rightarrow> risk_level \<Rightarrow> bool" where
  "needs_tool_confirmation p a risk =
     (let threshold = (if actor_role a = RoleSuperadminActor then pm_superadmin_confirm_risk p
                       else RiskHigh)
      in 0 \<le> compare_risk risk threshold)"

datatype permission_reason =
  NoReason | RequiresSuperadmin | RiskAboveLevel | BackgroundShellRejected | BackgroundShellConfirmed

record permission_result =
  pr_allowed :: bool
  pr_needs_confirmation :: bool
  pr_reason :: permission_reason

definition denied_for :: "permission_reason \<Rightarrow> permission_result" where
  "denied_for r = \<lparr>pr_allowed = False, pr_needs_confirmation = False, pr_reason = r\<rparr>"

definition check_tool ::
    "permission \<Rightarrow> actor \<Rightarrow> string \<Rightarrow> risk_level \<Rightarrow> bool \<Rightarrow> bool \<Rightarrow> bool \<Rightarrow> permission_result" where
  "check_tool p a name risk owner_scoped superadmin_only auto_shell =
     (if superadmin_only \<and> actor_role a \<noteq> RoleSuperadminActor then denied_for RequiresSuperadmin
      else if \<not> can_use_tool p a risk owner_scoped then denied_for RiskAboveLevel
      else if name = ''shell'' \<and> auto_shell then
        (if risk = RiskCritical then denied_for BackgroundShellRejected
         else \<lparr>pr_allowed = True, pr_needs_confirmation = False, pr_reason = BackgroundShellConfirmed\<rparr>)
      else \<lparr>pr_allowed = True, pr_needs_confirmation = needs_tool_confirmation p a risk,
            pr_reason = NoReason\<rparr>)"

section \<open>The gate of a tool call\<close>

text \<open>
  What \<open>confirm\<close> does with a call: run it, refuse it with the reason, or ask the user.  A tool of
  an ELwisp client is run without a check; the audit records are output only.
\<close>

datatype tool_source = SourceNative | SourceELwisp

record tool_info =
  ti_name :: string
  ti_owner_scoped :: bool
  ti_superadmin_only :: bool

datatype call_gate = GateRun | GateDenied permission_reason | GateAsk

definition confirm_call ::
    "permission \<Rightarrow> actor \<Rightarrow> tool_source \<Rightarrow> tool_info \<Rightarrow> risk_level \<Rightarrow> bool \<Rightarrow> call_gate" where
  "confirm_call p a source info risk auto_shell =
     (if source = SourceELwisp then GateRun
      else (let r = check_tool p a (ti_name info) risk (ti_owner_scoped info)
                      (ti_superadmin_only info) auto_shell
            in if \<not> pr_allowed r then GateDenied (pr_reason r)
               else if \<not> pr_needs_confirmation r then GateRun
               else GateAsk))"

section \<open>What the check guarantees\<close>

lemmas permission_defs = check_tool_def can_use_tool_def needs_tool_confirmation_def
  denied_for_def compare_risk_def confirm_call_def

lemma risk_rank_bounds [simp]: "0 \<le> risk_rank r" "risk_rank r \<le> 4"
  by (cases r; simp)+

text \<open>Whatever the configured levels are, critical work never runs unasked.\<close>

lemma critical_not_run: "confirm_call p a SourceNative info RiskCritical auto \<noteq> GateRun"
  by (auto simp: permission_defs)

text \<open>Lowering the risk of a call never takes a permission away or adds a question.\<close>

lemma gate_run_mono:
  assumes "confirm_call p a SourceNative info r auto = GateRun" and "risk_rank r' \<le> risk_rank r"
  shows "confirm_call p a SourceNative info r' auto = GateRun"
proof (cases "r' = RiskCritical")
  case True
  then have "r = RiskCritical" using assms(2) by (cases r) auto
  with assms(1) True show ?thesis by simp
next
  case False
  with assms show ?thesis by (auto simp: permission_defs split: if_splits)
qed

lemma user_run_low:
  assumes "confirm_call p a SourceNative info r False = GateRun" "actor_role a \<noteq> RoleSuperadminActor"
  shows "risk_rank r < 3"
  using assms by (auto simp: permission_defs split: if_splits)

end
