(* ===== verification/Go_Paths.thy ===== *)
theory Go_Paths
  imports Go_Strings Elbot_Prelude
begin

text \<open>
  The functions of \<open>path\<close> and \<open>path/filepath\<close> on a Unix system: the element-wise
  normalisation \<open>Clean\<close>, \<open>Join\<close>, \<open>IsAbs\<close>, \<open>IsLocal\<close>, \<open>Abs\<close> and \<open>Rel\<close> of two
  absolute paths, and what a cleaned path says about where the file is: a clean absolute path has
  no dots left, and joining a directory with elements free of parent steps stays below it.
\<close>

section \<open>Elements of a path\<close>

definition slash :: char where "slash = CHR ''/''"

definition path_elems :: "string \<Rightarrow> string list" where
  "path_elems s = filter (\<lambda>e. e \<noteq> []) (split_char slash s)"

definition is_abs :: "string \<Rightarrow> bool" where
  "is_abs s \<longleftrightarrow> has_prefix ''/'' s"

text \<open>
  One element of \<open>Clean\<close>, the output kept in reverse: a dot is dropped, a parent step removes the
  element before it, is dropped at a root, and is kept in front of a relative path.
\<close>

definition clean_step :: "bool \<Rightarrow> string list \<Rightarrow> string \<Rightarrow> string list" where
  "clean_step rooted out e =
     (if e = ''.'' then out
      else if e = ''..'' then
        (if out \<noteq> [] \<and> hd out \<noteq> ''..'' then tl out else if rooted then out else ''..'' # out)
      else e # out)"

definition clean_elems :: "bool \<Rightarrow> string list \<Rightarrow> string list" where
  "clean_elems rooted es = rev (foldl (clean_step rooted) [] es)"

definition render_path :: "bool \<Rightarrow> string list \<Rightarrow> string" where
  "render_path rooted es =
     (if rooted then slash # join_str [slash] es
      else if es = [] then ''.'' else join_str [slash] es)"

definition clean_path :: "string \<Rightarrow> string" where
  "clean_path s = render_path (is_abs s) (clean_elems (is_abs s) (path_elems s))"

definition join_path :: "string \<Rightarrow> string \<Rightarrow> string" where
  "join_path a b =
     (if a \<noteq> [] then clean_path (a @ slash # b) else if b \<noteq> [] then clean_path b else [])"

definition is_local :: "string \<Rightarrow> bool" where
  "is_local s \<longleftrightarrow> \<not> is_abs s \<and> s \<noteq> [] \<and>
     (let p = (if list_ex (\<lambda>e. e = ''.'' \<or> e = ''..'') (path_elems s) then clean_path s else s)
      in p \<noteq> ''..'' \<and> \<not> has_prefix ''../'' p)"

text \<open>\<open>Abs\<close>: the working directory, or the error of reading it, is an argument.\<close>

definition abs_path :: "go_error + string \<Rightarrow> string \<Rightarrow> go_error + string" where
  "abs_path cwd p =
     (if is_abs p then Inr (clean_path p)
      else (case cwd of Inl e \<Rightarrow> Inl e | Inr d \<Rightarrow> Inr (join_path d p)))"

fun drop_common :: "string list \<Rightarrow> string list \<Rightarrow> string list \<times> string list" where
  "drop_common (b # bs) (t # ts) = (if b = t then drop_common bs ts else (b # bs, t # ts))"
| "drop_common bs ts = (bs, ts)"

text \<open>\<open>Rel\<close> for two clean absolute paths, where it cannot fail.\<close>

definition rel_path :: "string \<Rightarrow> string \<Rightarrow> string" where
  "rel_path base targ =
     (if base = targ then ''.''
      else (case drop_common (path_elems base) (path_elems targ) of
              (bs, ts) \<Rightarrow> join_str [slash] (replicate (length bs) ''..'' @ ts)))"

text \<open>\<open>filepath.Ext\<close>: from the last dot of the last element on.\<close>

definition path_ext :: "string \<Rightarrow> string" where
  "path_ext s =
     (let base = last (split_char slash s)
      in if CHR ''.'' \<in> set base then CHR ''.'' # last (split_char (CHR ''.'') base) else [])"

text \<open>A clean absolute path at or below a directory.\<close>

definition below :: "string \<Rightarrow> string \<Rightarrow> bool" where
  "below dir p \<longleftrightarrow> is_abs p \<and> take (length (path_elems dir)) (path_elems p) = path_elems dir \<and>
     list_all (\<lambda>e. e \<noteq> ''.'' \<and> e \<noteq> ''..'') (path_elems p)"

section \<open>Elements and rendering\<close>

definition elem_ok :: "string \<Rightarrow> bool" where
  "elem_ok e \<longleftrightarrow> e \<noteq> [] \<and> slash \<notin> set e"

definition plain_elem :: "string \<Rightarrow> bool" where
  "plain_elem e \<longleftrightarrow> elem_ok e \<and> e \<noteq> ''.'' \<and> e \<noteq> ''..''"

lemma plain_elem_ok: "plain_elem e \<Longrightarrow> elem_ok e"
  by (simp add: plain_elem_def)

lemma path_elems_Nil [simp]: "path_elems [] = []"
  by (simp add: path_elems_def)

lemma path_elems_ok: "e \<in> set (path_elems s) \<Longrightarrow> elem_ok e"
  using split_char_no_sep [of e slash s] by (auto simp: path_elems_def elem_ok_def)

lemma path_elems_append_slash [simp]: "path_elems (a @ slash # b) = path_elems a @ path_elems b"
  by (simp add: path_elems_def split_char_append_sep)

lemma path_elems_slash [simp]: "path_elems (slash # b) = path_elems b"
  using path_elems_append_slash [of "[]" b] by simp

lemma path_elems_join: "(\<forall>e \<in> set es. elem_ok e) \<Longrightarrow> path_elems (join_str [slash] es) = es"
proof (cases "es = []")
  case False
  assume ok: "\<forall>e \<in> set es. elem_ok e"
  then have "split_char slash (join_str [slash] es) = es"
    by (intro split_join [OF False]) (auto simp: elem_ok_def)
  with ok show ?thesis by (simp add: path_elems_def elem_ok_def)
qed simp

lemma path_elems_dot [simp]: "path_elems ''.'' = [''.'']"
  by (simp add: path_elems_def slash_def)

lemma path_elems_single: "elem_ok e \<Longrightarrow> path_elems e = [e]"
  by (simp add: path_elems_def elem_ok_def split_char_no_occ)

lemma is_abs_slash [simp]: "is_abs (slash # s)"
  by (simp add: is_abs_def slash_def)

lemma is_abs_Nil [simp]: "\<not> is_abs []"
  by (simp add: is_abs_def)

lemma is_abs_append: "a \<noteq> [] \<Longrightarrow> is_abs (a @ b) \<longleftrightarrow> is_abs a"
  by (cases a) (auto simp: is_abs_def)

lemma is_abs_join: "(\<forall>e \<in> set es. elem_ok e) \<Longrightarrow> \<not> is_abs (join_str [slash] es)"
proof (cases es)
  case (Cons e fs)
  assume "\<forall>e \<in> set es. elem_ok e"
  with Cons have e: "elem_ok e" by simp
  then obtain c cs where "e = c # cs" "c \<noteq> slash"
    by (cases e) (auto simp: elem_ok_def)
  then have "\<not> is_abs (e @ t)" for t by (auto simp: is_abs_def slash_def)
  from this [of "[]"] this Cons show ?thesis by (cases fs) simp_all
qed simp

lemma is_abs_render: "(\<forall>e \<in> set es. elem_ok e) \<Longrightarrow> is_abs (render_path r es) = r"
  by (auto simp: render_path_def is_abs_join) (auto simp: is_abs_def)

lemma path_elems_render:
  "(\<forall>e \<in> set es. elem_ok e) \<Longrightarrow> r \<or> es \<noteq> [] \<Longrightarrow> path_elems (render_path r es) = es"
  by (auto simp: render_path_def path_elems_join)

section \<open>Cleaning\<close>

lemma clean_step_simps [simp]:
  "clean_step r out ''.'' = out"
  "clean_step True [] ''..'' = []"
  "clean_step False [] ''..'' = [''..'']"
  "x \<noteq> ''..'' \<Longrightarrow> clean_step r (x # out) ''..'' = out"
  "e \<noteq> ''.'' \<Longrightarrow> e \<noteq> ''..'' \<Longrightarrow> clean_step r out e = e # out"
  by (simp_all add: clean_step_def)

lemma clean_step_ok:
  "(\<forall>e \<in> set out. elem_ok e) \<Longrightarrow> elem_ok e \<Longrightarrow> \<forall>e \<in> set (clean_step r out e). elem_ok e"
  by (cases out) (auto simp: clean_step_def elem_ok_def slash_def)

lemma foldl_clean_ok:
  "(\<forall>e \<in> set out. elem_ok e) \<Longrightarrow> (\<forall>e \<in> set es. elem_ok e) \<Longrightarrow>
   \<forall>e \<in> set (foldl (clean_step r) out es). elem_ok e"
proof (induction es arbitrary: out)
  case (Cons e es)
  have "\<forall>x \<in> set (clean_step r out e). elem_ok x"
    by (rule clean_step_ok) (use Cons.prems in auto)
  with Cons show ?case by simp
qed simp

lemma clean_elems_ok: "(\<forall>e \<in> set es. elem_ok e) \<Longrightarrow> \<forall>e \<in> set (clean_elems r es). elem_ok e"
  using foldl_clean_ok [of "[]" es r] by (simp add: clean_elems_def)

lemma foldl_clean_rooted_plain:
  "(\<forall>e \<in> set out. plain_elem e) \<Longrightarrow> (\<forall>e \<in> set es. elem_ok e) \<Longrightarrow>
   \<forall>e \<in> set (foldl (clean_step True) out es). plain_elem e"
proof (induction es arbitrary: out)
  case (Cons e es)
  have "\<forall>x \<in> set (clean_step True out e). plain_elem x"
    using Cons.prems by (cases out) (auto simp: clean_step_def plain_elem_def)
  with Cons show ?case by simp
qed simp

lemma clean_elems_rooted_plain:
  "(\<forall>e \<in> set es. elem_ok e) \<Longrightarrow> \<forall>e \<in> set (clean_elems True es). plain_elem e"
  using foldl_clean_rooted_plain [of "[]" es] by (simp add: clean_elems_def)

lemma foldl_clean_plain: "(\<forall>e \<in> set es. plain_elem e) \<Longrightarrow> foldl (clean_step r) out es = rev es @ out"
  by (induction es arbitrary: out) (auto simp: clean_step_def plain_elem_def)

lemma clean_elems_plain: "(\<forall>e \<in> set es. plain_elem e) \<Longrightarrow> clean_elems r es = es"
  by (simp add: clean_elems_def foldl_clean_plain)

lemma clean_path_abs [simp]: "is_abs (clean_path s) = is_abs s"
  unfolding clean_path_def by (rule is_abs_render) (rule clean_elems_ok, simp add: path_elems_ok)

lemma path_elems_clean_abs:
  "is_abs s \<Longrightarrow> path_elems (clean_path s) = clean_elems True (path_elems s)"
  unfolding clean_path_def
  by (simp, rule path_elems_render, rule clean_elems_ok) (simp_all add: path_elems_ok)

lemma clean_path_plain: "is_abs s \<Longrightarrow> e \<in> set (path_elems (clean_path s)) \<Longrightarrow> plain_elem e"
  using clean_elems_rooted_plain [of "path_elems s"] by (simp add: path_elems_clean_abs path_elems_ok)

lemma clean_path_idem_abs:
  assumes "is_abs s"
  shows "clean_path (clean_path s) = clean_path s"
proof -
  have plain: "\<forall>e \<in> set (clean_elems True (path_elems s)). plain_elem e"
    by (rule clean_elems_rooted_plain) (simp add: path_elems_ok)
  have "clean_path (clean_path s) = render_path True (clean_elems True (path_elems (clean_path s)))"
    using assms by (simp add: clean_path_def [of "clean_path s"])
  also have "\<dots> = render_path True (clean_elems True (path_elems s))"
    by (simp add: path_elems_clean_abs [OF assms] clean_elems_plain [OF plain])
  finally show ?thesis using assms by (simp add: clean_path_def [of s])
qed

section \<open>Joining below a directory\<close>

text \<open>
  How far a list of elements climbs: the smallest number of elements that must already be there
  for the list to stay below them.
\<close>

fun climbs_from :: "nat \<Rightarrow> string list \<Rightarrow> bool" where
  "climbs_from n [] = False"
| "climbs_from n (e # es) =
     (if e = ''.'' then climbs_from n es
      else if e = ''..'' then (case n of 0 \<Rightarrow> True | Suc m \<Rightarrow> climbs_from m es)
      else climbs_from (Suc n) es)"

text \<open>A path that leaves the directory it is taken from: absolute, or climbing above its start.\<close>

definition escapes :: "string \<Rightarrow> bool" where
  "escapes p \<longleftrightarrow> is_abs p \<or> climbs_from 0 (path_elems p)"

lemma foldl_clean_below:
  assumes "\<not> climbs_from (length out) es" and "\<forall>e \<in> set (out @ base). plain_elem e"
    and "\<forall>e \<in> set es. elem_ok e"
  shows "\<exists>out'. foldl (clean_step True) (out @ base) es = out' @ base \<and>
    foldl (clean_step False) out es = out' \<and> (\<forall>e \<in> set out'. plain_elem e)"
  using assms
proof (induction es arbitrary: out)
  case (Cons e es)
  consider (dot) "e = ''.''" | (up) "e = ''..''" | (name) "e \<noteq> ''.''" "e \<noteq> ''..''" by blast
  then show ?case
  proof cases
    case dot
    with Cons show ?thesis by simp
  next
    case up
    with Cons.prems(1) obtain x out1 where out: "out = x # out1" by (cases out) auto
    then have "plain_elem x" using Cons.prems(2) by simp
    with up out Cons.prems Cons.IH [of out1] show ?thesis
      by (simp add: plain_elem_def)
  next
    case name
    with Cons.prems Cons.IH [of "e # out"] show ?thesis
      by (simp add: plain_elem_def)
  qed
qed simp

lemma clean_elems_below:
  assumes "\<not> climbs_from 0 es" "\<forall>e \<in> set base. plain_elem e" "\<forall>e \<in> set es. elem_ok e"
  shows "clean_elems True (base @ es) = base @ clean_elems False es"
    and "\<forall>e \<in> set (clean_elems False es). plain_elem e"
proof -
  obtain out where out: "foldl (clean_step True) (rev base) es = out @ rev base"
      "foldl (clean_step False) [] es = out" "\<forall>e \<in> set out. plain_elem e"
    using foldl_clean_below [of "[]" es "rev base"] assms by auto
  then show "clean_elems True (base @ es) = base @ clean_elems False es"
    using assms(2) by (simp add: clean_elems_def foldl_clean_plain)
  show "\<forall>e \<in> set (clean_elems False es). plain_elem e"
    using out by (simp add: clean_elems_def)
qed

text \<open>A relative path that climbs keeps its parent steps when cleaned.\<close>

lemma foldl_clean_up:
  "last out = ''..'' \<Longrightarrow> out \<noteq> [] \<Longrightarrow>
   foldl (clean_step False) out es \<noteq> [] \<and> last (foldl (clean_step False) out es) = ''..''"
proof (induction es arbitrary: out)
  case (Cons e es)
  have "clean_step False out e \<noteq> [] \<and> last (clean_step False out e) = ''..''"
    using Cons.prems by (cases out) (auto simp: clean_step_def split: if_splits)
  with Cons.IH show ?case by simp
qed simp

lemma foldl_clean_climbs:
  assumes "climbs_from (length out) es" and "\<forall>e \<in> set out. plain_elem e"
    and "\<forall>e \<in> set es. elem_ok e"
  shows "foldl (clean_step False) out es \<noteq> [] \<and> last (foldl (clean_step False) out es) = ''..''"
  using assms
proof (induction es arbitrary: out)
  case (Cons e es)
  consider (dot) "e = ''.''" | (up) "e = ''..''" | (name) "e \<noteq> ''.''" "e \<noteq> ''..''" by blast
  then show ?case
  proof cases
    case dot
    with Cons show ?thesis by simp
  next
    case up
    show ?thesis
    proof (cases out)
      case Nil
      with up foldl_clean_up [of "[''..'']" es] show ?thesis by simp
    next
      case out: (Cons x out1)
      then have "x \<noteq> ''..''" using Cons.prems(2) by (simp add: plain_elem_def)
      with up out Cons.prems Cons.IH [of out1] show ?thesis by simp
    qed
  next
    case name
    with Cons.prems Cons.IH [of "e # out"] show ?thesis
      by (simp add: plain_elem_def)
  qed
qed simp

lemma clean_elems_climbs:
  assumes "climbs_from 0 es" and "\<forall>e \<in> set es. elem_ok e"
  shows "\<exists>fs. clean_elems False es = ''..'' # fs"
proof -
  have "foldl (clean_step False) [] es \<noteq> [] \<and> last (foldl (clean_step False) [] es) = ''..''"
    using foldl_clean_climbs [of "[]" es] assms by simp
  then obtain gs where "foldl (clean_step False) [] es = gs @ [''..'']"
    by (metis append_butlast_last_id)
  then show ?thesis by (simp add: clean_elems_def)
qed

lemma join_path_below:
  assumes "is_abs dir" "\<not> climbs_from 0 (path_elems p)"
  shows "path_elems (join_path dir p) =
      path_elems (clean_path dir) @ clean_elems False (path_elems p)"
    and "below (clean_path dir) (join_path dir p)"
proof -
  have dir: "dir \<noteq> []" using assms(1) by auto
  then have abs: "is_abs (dir @ slash # p)" using assms(1) by (simp add: is_abs_append)
  have ok: "\<forall>e \<in> set (path_elems s). elem_ok e" for s by (simp add: path_elems_ok)
  have base: "\<forall>e \<in> set (clean_elems True (path_elems dir)). plain_elem e"
    by (rule clean_elems_rooted_plain) (rule ok)
  have "clean_elems True (path_elems dir @ path_elems p) =
      clean_elems True (clean_elems True (path_elems dir) @ path_elems p)"
    using base by (simp add: clean_elems_def [of True "_ @ _"] foldl_clean_plain)
      (simp add: clean_elems_def)
  also have "\<dots> = clean_elems True (path_elems dir) @ clean_elems False (path_elems p)"
    by (rule clean_elems_below [OF assms(2) base ok])
  finally show eq: "path_elems (join_path dir p) =
      path_elems (clean_path dir) @ clean_elems False (path_elems p)"
    by (simp add: join_path_def dir path_elems_clean_abs [OF abs] path_elems_clean_abs [OF assms(1)])
  have "\<forall>e \<in> set (clean_elems False (path_elems p)). plain_elem e"
    by (rule clean_elems_below [OF assms(2) base ok])
  with base have "list_all (\<lambda>e. e \<noteq> ''.'' \<and> e \<noteq> ''..'') (path_elems (join_path dir p))"
    unfolding eq path_elems_clean_abs [OF assms(1)] by (auto simp: list_all_iff plain_elem_def)
  moreover have "is_abs (join_path dir p)" using abs dir by (simp add: join_path_def)
  ultimately show "below (clean_path dir) (join_path dir p)"
    by (simp add: below_def eq)
qed

end
