(* ===== verification/Shell_Risk.thy ===== *)
theory Shell_Risk
  imports Security_Policy Go_Paths
begin

text \<open>
  The risk of a shell command (\<open>internal/tool/builtin/shell_risk.go\<close>) and the additional path
  rules of a restricted call (\<open>shell_sandbox.go\<close>).  The parser and the tree walk belong to the
  package \<open>mvdan.cc/sh\<close>: a parsed command is the list of the nodes in the order in which the walk
  visits them, with the node and word forms the code tells apart; every other form is
  \<open>OtherNode\<close> or \<open>OtherPart\<close>.  A reason is a constructor for its message, with the words that
  the message quotes.
\<close>

section \<open>Parsed commands\<close>

datatype word_part = Lit string | SglQuoted string | DblQuoted "word_part list" | OtherPart

type_synonym shell_word = "word_part list option"

datatype shell_node = CallExpr "shell_word list" | Redirect string shell_word | CmdSubst | OtherNode

fun quoted_literal :: "word_part list \<Rightarrow> string option" where
  "quoted_literal [] = Some []"
| "quoted_literal (Lit v # ps) = map_option (append v) (quoted_literal ps)"
| "quoted_literal (p # ps) = None"

fun part_literal :: "word_part \<Rightarrow> string option" where
  "part_literal (Lit v) = Some v"
| "part_literal (SglQuoted v) = Some v"
| "part_literal (DblQuoted ps) = quoted_literal ps"
| "part_literal OtherPart = None"

fun parts_literal :: "word_part list \<Rightarrow> string option" where
  "parts_literal [] = Some []"
| "parts_literal (p # ps) =
     (case part_literal p of None \<Rightarrow> None | Some v \<Rightarrow> map_option (append v) (parts_literal ps))"

definition literal_word :: "shell_word \<Rightarrow> string option" where
  "literal_word w = (case w of None \<Rightarrow> None | Some ps \<Rightarrow> if ps = [] then None else parts_literal ps)"

definition literal_args :: "shell_word list \<Rightarrow> string list" where
  "literal_args ws = List.map_filter literal_word ws"

text \<open>The name of a call, when it is literal and not empty.\<close>

definition literal_name :: "shell_word \<Rightarrow> string option" where
  "literal_name w = (case literal_word w of None \<Rightarrow> None | Some n \<Rightarrow> if n = [] then None else Some n)"

definition forward_slashes :: "string \<Rightarrow> string" where
  "forward_slashes s = replace_all [CHR 0x5C] ''/'' s"

definition command_base :: "string \<Rightarrow> string" where
  "command_base name =
     trim_suffix ''.exe'' (last (split_char slash (forward_slashes (to_lower (trim_space name)))))"

definition trim_quotes :: "string \<Rightarrow> string" where
  "trim_quotes s =
     (let q = (\<lambda>c. c = CHR 0x27 \<or> c = CHR 0x22) in rev (dropWhile q (rev (dropWhile q s))))"

section \<open>Tests on arguments\<close>

definition has_arg :: "string list \<Rightarrow> string \<Rightarrow> bool" where
  "has_arg args target = list_ex (\<lambda>a. a = target \<or> contains_str a target) args"

definition has_recursive :: "string list \<Rightarrow> bool" where
  "has_recursive args = list_ex (\<lambda>a. a = ''-r'' \<or> a = ''-R'' \<or> a = ''--recursive'' \<or>
     contains_str a ''r'' \<and> has_prefix ''-'' a) args"

definition has_recursive_force :: "string list \<Rightarrow> bool" where
  "has_recursive_force args \<longleftrightarrow>
     list_ex (\<lambda>a. has_prefix ''-'' a \<and>
       (contains_str a ''r'' \<or> contains_str a ''R'' \<or> a = ''--recursive'')) args \<and>
     list_ex (\<lambda>a. has_prefix ''-'' a \<and> (contains_str a ''f'' \<or> a = ''--force'')) args"

definition system_paths :: "string list" where
  "system_paths = [''/'', ''/bin'', ''/boot'', ''/dev'', ''/etc'', ''/home'', ''/lib'', ''/lib64'',
     ''/proc'', ''/root'', ''/sbin'', ''/sys'', ''/usr'', ''/var'', ''c:/'', ''c:/windows'',
     ''c:/program files'', ''c:/users'']"

definition touches_system_path :: "string list \<Rightarrow> bool" where
  "touches_system_path args = list_ex (\<lambda>a.
     let p = to_lower (trim_quotes (forward_slashes a))
     in p \<in> set system_paths \<or> has_prefix ''/etc/'' p \<or> has_prefix ''/usr/'' p \<or>
        has_prefix ''c:/windows/'' p) args"

definition is_downloader :: "string \<Rightarrow> bool" where
  "is_downloader n \<longleftrightarrow> n = ''curl'' \<or> n = ''wget''"

definition interpreters :: "string list" where
  "interpreters = [''sh'', ''bash'', ''zsh'', ''fish'', ''python'', ''python3'', ''node'', ''perl'',
     ''ruby'', ''powershell'', ''pwsh'']"

definition is_interpreter :: "string \<Rightarrow> bool" where
  "is_interpreter n \<longleftrightarrow> n \<in> set interpreters"

section \<open>The classifier\<close>

datatype path_violation = HomePath | NetworkPath | AbsolutePath | EscapingPath

datatype risk_reason =
    NothingFound
  | HasCmdSubst
  | DynamicName
  | DeletesForced string
  | Deletes string
  | Privileged string
  | DiskCommand string
  | PermissionsWide string
  | Permissions string
  | Downloads string
  | Interprets string
  | SedInPlace
  | Overwrites string
  | GitDiscards string
  | GitChanges string
  | GoRuns string
  | GoInstalls string
  | Installs string string
  | RunsScript string string
  | WritesRedirect string
  | PipesDownload string string
  | PipesInterpreter string
  | SandboxDynamicName
  | SandboxCd
  | SandboxDynamicArg string
  | SandboxDynamicTarget
  | SandboxArg string path_violation
  | SandboxTarget path_violation
  | PowerShellUnparsed
  | ParseFailed string
  | SandboxUnparsed string

record classifier =
  cl_level :: risk_level
  cl_reasons :: "risk_reason list"
  cl_pipeline :: "string list"

record risk_assessment =
  as_level :: risk_level
  as_reasons :: "risk_reason list"

definition add_reason :: "risk_reason \<Rightarrow> risk_reason list \<Rightarrow> risk_reason list" where
  "add_reason r rs = (if r \<in> set rs then rs else rs @ [r])"

definition raise_risk :: "risk_level \<Rightarrow> risk_reason \<Rightarrow> classifier \<Rightarrow> classifier" where
  "raise_risk level reason c =
     c\<lparr>cl_level := (if 0 < compare_risk level (cl_level c) then level else cl_level c),
       cl_reasons := add_reason reason (cl_reasons c)\<rparr>"

definition classify_git :: "string list \<Rightarrow> classifier \<Rightarrow> classifier" where
  "classify_git args c = (case args of [] \<Rightarrow> c | sub # rest \<Rightarrow>
     if sub \<in> set [''status'', ''diff'', ''log'', ''show'', ''branch''] then c
     else if sub \<in> set [''reset'', ''clean'', ''checkout'', ''switch'', ''restore'', ''commit'',
         ''push'', ''add'', ''merge'', ''rebase'', ''cherry-pick'', ''stash''] then
       (if sub = ''reset'' \<and> has_arg rest ''--hard'' \<or> sub = ''clean''
        then raise_risk RiskHigh (GitDiscards sub) c
        else raise_risk RiskHigh (GitChanges sub) c)
     else c)"

definition classify_build :: "string \<Rightarrow> string list \<Rightarrow> classifier \<Rightarrow> classifier" where
  "classify_build name args c = (case args of [] \<Rightarrow> c | sub # rest \<Rightarrow>
     if name = ''go'' then
       (if sub \<in> set [''test'', ''build'', ''run''] then raise_risk RiskMedium (GoRuns sub) c
        else if sub \<in> set [''install'', ''get''] then raise_risk RiskHigh (GoInstalls sub) c
        else c)
     else if name \<in> set [''npm'', ''pnpm'', ''yarn'', ''pip'', ''pip3'', ''cargo''] then
       (if sub \<in> set [''install'', ''add'', ''remove'', ''update'']
        then raise_risk RiskHigh (Installs name sub) c
        else if sub \<in> set [''test'', ''run'', ''build'']
        then raise_risk RiskMedium (RunsScript name sub) c
        else c)
     else c)"

definition classify_named :: "string \<Rightarrow> string list \<Rightarrow> classifier \<Rightarrow> classifier" where
  "classify_named name args c =
     (if name \<in> set [''rm'', ''rmdir'', ''del'', ''erase'', ''rd''] then
        (if has_recursive_force args \<or> touches_system_path args
         then raise_risk RiskCritical (DeletesForced name) c
         else raise_risk RiskHigh (Deletes name) c)
      else if name \<in> set [''sudo'', ''su'', ''doas'', ''runas''] then
        raise_risk RiskCritical (Privileged name) c
      else if name \<in> set [''mkfs'', ''fdisk'', ''parted'', ''diskpart'', ''format'', ''mount'',
          ''umount'', ''dd''] then
        raise_risk RiskCritical (DiskCommand name) c
      else if name \<in> set [''chmod'', ''chown'', ''icacls'', ''takeown''] then
        (if has_recursive args \<or> touches_system_path args
         then raise_risk RiskCritical (PermissionsWide name) c
         else raise_risk RiskHigh (Permissions name) c)
      else if name \<in> set [''curl'', ''wget''] then raise_risk RiskMedium (Downloads name) c
      else if name = ''git'' then classify_git args c
      else if name \<in> set interpreters then raise_risk RiskMedium (Interprets name) c
      else if name = ''sed'' then
        (if has_arg args ''-i'' then raise_risk RiskHigh SedInPlace c else c)
      else if name \<in> set [''mv'', ''move'', ''cp'', ''copy'', ''install'', ''tee''] then
        raise_risk RiskHigh (Overwrites name) c
      else if name \<in> set [''npm'', ''pnpm'', ''yarn'', ''pip'', ''pip3'', ''go'', ''cargo''] then
        classify_build name args c
      else c)"

definition classify_call :: "shell_word list \<Rightarrow> classifier \<Rightarrow> classifier" where
  "classify_call words c = (case words of [] \<Rightarrow> c | w # ws \<Rightarrow>
     (case literal_name w of
        None \<Rightarrow> raise_risk RiskHigh DynamicName c
      | Some n \<Rightarrow> classify_named (command_base n) (literal_args ws)
          (c\<lparr>cl_pipeline := cl_pipeline c @ [command_base n]\<rparr>)))"

definition write_redirect :: "string \<Rightarrow> bool" where
  "write_redirect op \<longleftrightarrow> contains_str op ''>'' \<or> contains_str op ''<>''"

definition classify_redirect :: "string \<Rightarrow> classifier \<Rightarrow> classifier" where
  "classify_redirect op c =
     (if write_redirect op then raise_risk RiskHigh (WritesRedirect op) c else c)"

fun classify_pairs :: "string list \<Rightarrow> classifier \<Rightarrow> classifier" where
  "classify_pairs (l # r # ns) c =
     classify_pairs (r # ns)
       (if is_downloader l \<and> is_interpreter r then raise_risk RiskCritical (PipesDownload l r) c
        else if is_interpreter r then raise_risk RiskHigh (PipesInterpreter r) c
        else c)"
| "classify_pairs ns c = c"

fun classify_node :: "classifier \<Rightarrow> shell_node \<Rightarrow> classifier" where
  "classify_node c (CallExpr ws) = classify_call ws c"
| "classify_node c (Redirect op w) = classify_redirect op c"
| "classify_node c CmdSubst = raise_risk RiskHigh HasCmdSubst c"
| "classify_node c OtherNode = c"

definition new_classifier :: classifier where
  "new_classifier = \<lparr>cl_level = RiskLow, cl_reasons = [], cl_pipeline = []\<rparr>"

definition classified :: "shell_node list \<Rightarrow> classifier" where
  "classified ns =
     (let c = foldl classify_node new_classifier ns in classify_pairs (cl_pipeline c) c)"

definition classify_shell_command :: "shell_node list \<Rightarrow> risk_assessment" where
  "classify_shell_command ns =
     (let c = classified ns
      in \<lparr>as_level = cl_level c,
          as_reasons = (if cl_reasons c = [] then [NothingFound] else cl_reasons c)\<rparr>)"

section \<open>Restricted calls\<close>

text \<open>The pattern \<open>^[A-Za-z]:/\<close>.\<close>

definition windows_abs :: "string \<Rightarrow> bool" where
  "windows_abs p = (case p of
     d # c # s # _ \<Rightarrow> (65 \<le> (of_char d :: nat) \<and> (of_char d :: nat) \<le> 90 \<or>
         97 \<le> (of_char d :: nat) \<and> (of_char d :: nat) \<le> 122) \<and> c = CHR '':'' \<and> s = slash
   | _ \<Rightarrow> False)"

definition sandbox_path_violation :: "string \<Rightarrow> path_violation option" where
  "sandbox_path_violation v =
     (let p = forward_slashes (trim_quotes (trim_space v))
      in if p = [] \<or> has_prefix ''-'' p then None
         else if has_prefix ''~'' p then Some HomePath
         else if has_prefix ''//'' p then Some NetworkPath
         else if has_prefix ''/'' p \<or> windows_abs p then Some AbsolutePath
         else (let c = clean_path p
               in if c = ''..'' \<or> has_prefix ''../'' c then Some EscapingPath else None))"

definition sandbox_path_commands :: "string list" where
  "sandbox_path_commands = [''cat'', ''head'', ''tail'', ''less'', ''more'', ''ls'', ''touch'',
     ''mkdir'', ''rm'', ''rmdir'', ''cp'', ''mv'', ''tee'', ''find'', ''grep'', ''sed'']"

definition check_target :: "shell_word \<Rightarrow> risk_reason list \<Rightarrow> risk_reason list" where
  "check_target w vs = (case literal_word w of
     None \<Rightarrow> add_reason SandboxDynamicTarget vs
   | Some v \<Rightarrow> (case sandbox_path_violation v of
       None \<Rightarrow> vs | Some r \<Rightarrow> add_reason (SandboxTarget r) vs))"

definition check_redirect :: "string \<Rightarrow> shell_word \<Rightarrow> risk_reason list \<Rightarrow> risk_reason list" where
  "check_redirect op w vs =
     (if w = None then vs else if \<not> write_redirect op then vs else check_target w vs)"

definition check_argument :: "string \<Rightarrow> risk_reason list \<Rightarrow> shell_word \<Rightarrow> risk_reason list" where
  "check_argument name vs w = (case literal_word w of
     None \<Rightarrow> add_reason (SandboxDynamicArg name) vs
   | Some a \<Rightarrow> if a = [] \<or> has_prefix ''-'' a then vs
       else (case sandbox_path_violation a of
         None \<Rightarrow> vs | Some r \<Rightarrow> add_reason (SandboxArg name r) vs))"

definition check_call :: "shell_word list \<Rightarrow> risk_reason list \<Rightarrow> risk_reason list" where
  "check_call words vs = (case words of [] \<Rightarrow> vs | w # ws \<Rightarrow>
     (case literal_name w of
        None \<Rightarrow> add_reason SandboxDynamicName vs
      | Some n \<Rightarrow> let name = command_base n
          in if name = ''cd'' then add_reason SandboxCd vs
             else if name \<notin> set sandbox_path_commands then vs
             else foldl (check_argument name) vs ws))"

fun check_node :: "risk_reason list \<Rightarrow> shell_node \<Rightarrow> risk_reason list" where
  "check_node vs (Redirect op w) = check_redirect op w vs"
| "check_node vs (CallExpr ws) = check_call ws vs"
| "check_node vs n = vs"

definition validate_sandbox_command :: "shell_node list \<Rightarrow> risk_reason list" where
  "validate_sandbox_command ns = foldl check_node [] ns"

definition append_unique_reasons :: "risk_reason list \<Rightarrow> risk_reason list \<Rightarrow> risk_reason list" where
  "append_unique_reasons base extra = foldl (\<lambda>rs r. add_reason r rs) base extra"

definition apply_sandbox_risk :: "shell_node list \<Rightarrow> risk_assessment \<Rightarrow> risk_assessment" where
  "apply_sandbox_risk ns a =
     (let vs = validate_sandbox_command ns
      in if vs = [] then a
         else \<lparr>as_level = (if 0 < compare_risk RiskCritical (as_level a) then RiskCritical
                           else as_level a),
               as_reasons = append_unique_reasons (as_reasons a) vs\<rparr>)"

end
