(* ===== verification/Workspace_Paths.thy ===== *)
theory Workspace_Paths
  imports Go_Paths
begin

text \<open>
  The working directory of a call and the resolution of paths in it (\<open>internal/workspace\<close>:
  \<open>workspace.go\<close>, \<open>resolve.go\<close>, \<open>sandbox.go\<close>), on a Unix host.  What the code asks the operating
  system is a record of answers: the process directory, the home directory and \<open>Stat\<close>.
\<close>

section \<open>Host, scope and results\<close>

datatype stat_result = StatDir | StatRegular | StatSpecial | StatMissing | StatFailed string

record host =
  host_cwd :: "go_error + string"
  host_home :: "go_error + string"
  host_stat :: "string \<Rightarrow> stat_result"

record path_scope =
  scope_dir :: string
  scope_restricted :: bool

record path_options =
  po_allow_create :: bool
  po_allow_directory :: bool
  po_require_regular :: bool

record resolved_path =
  rs_path :: string
  rs_base :: string
  rs_was_abs :: bool

datatype workspace_error =
    PathRequired
  | WorkspacePathRequired
  | RestrictedHome
  | RestrictedAbsolute
  | RestrictedParent
  | RestrictedNotLocal
  | RestrictedUnconfigured
  | HomeUnresolved go_error
  | HomeUnconfigured
  | CwdUnresolved go_error
  | StatMissingError
  | StatOtherError string
  | PathIsDirectory
  | PathNotRegular
  | WorkspaceNotDirectory string
  | StoreLoadFailed go_error
  | StoreClearFailed go_error
  | CallCancelled go_error

definition abs_of :: "host \<Rightarrow> string \<Rightarrow> workspace_error + string" where
  "abs_of h p = (case abs_path (host_cwd h) p of Inl e \<Rightarrow> Inl (CwdUnresolved e) | Inr q \<Rightarrow> Inr q)"

section \<open>Restricted paths\<close>

definition normalize_restricted_path :: "string \<Rightarrow> workspace_error + string" where
  "normalize_restricted_path raw =
     (let raw = trim_space raw
      in if raw = [] then Inl PathRequired
         else if has_prefix ''~'' raw then Inl RestrictedHome
         else (let s = replace_all [CHR 0x5C] ''/'' raw
               in if has_prefix ''/'' s \<or> contains_str s '':'' then Inl RestrictedAbsolute
                  else if ''..'' \<in> set (split_char slash s) then Inl RestrictedParent
                  else if \<not> is_local s then Inl RestrictedNotLocal
                  else Inr (clean_path s)))"

definition resolve_sandbox_relative_path :: "host \<Rightarrow> path_scope \<Rightarrow> string \<Rightarrow> workspace_error + string" where
  "resolve_sandbox_relative_path h scope raw =
     (case normalize_restricted_path raw of
        Inl e \<Rightarrow> Inl e
      | Inr p \<Rightarrow>
          (let root = trim_space (scope_dir scope)
           in if root = [] then Inl RestrictedUnconfigured
              else (case abs_of h root of Inl e \<Rightarrow> Inl e | Inr r \<Rightarrow> Inr (join_path r p))))"

definition sandbox_dir :: "host \<Rightarrow> string \<Rightarrow> string \<Rightarrow> workspace_error + string" where
  "sandbox_dir h root subdir =
     resolve_sandbox_relative_path h \<lparr>scope_dir = root, scope_restricted = True\<rparr> subdir"

section \<open>Paths in the working directory\<close>

definition is_home_path :: "string \<Rightarrow> string \<Rightarrow> bool" where
  "is_home_path v prefix \<longleftrightarrow>
     v = prefix \<or> has_prefix (prefix @ ''/'') v \<or> has_prefix (prefix @ [CHR 0x5C]) v"

definition expand_from_home :: "host \<Rightarrow> string \<Rightarrow> string \<Rightarrow> workspace_error + string" where
  "expand_from_home h prefix path =
     (case host_home h of
        Inl e \<Rightarrow> Inl (HomeUnresolved e)
      | Inr home \<Rightarrow>
          if trim_space home = [] then Inl HomeUnconfigured
          else if path = prefix then Inr home
          else Inr (join_path home (drop (length prefix + 1) path)))"

definition expand_workspace_path :: "host \<Rightarrow> string \<Rightarrow> workspace_error + string" where
  "expand_workspace_path h path =
     (if is_home_path path ''~'' then expand_from_home h ''~'' path
      else if is_home_path path ''$HOME'' then expand_from_home h ''$HOME'' path
      else Inr path)"

definition validate_resolved_path :: "host \<Rightarrow> string \<Rightarrow> path_options \<Rightarrow> workspace_error option" where
  "validate_resolved_path h path opts =
     (case host_stat h path of
        StatMissing \<Rightarrow> if po_allow_create opts then None else Some StatMissingError
      | StatFailed m \<Rightarrow> Some (StatOtherError m)
      | st \<Rightarrow>
          if st = StatDir \<and> \<not> po_allow_directory opts then Some PathIsDirectory
          else if po_require_regular opts \<and> st \<noteq> StatRegular then Some PathNotRegular
          else None)"

definition validate_workspace_dir :: "host \<Rightarrow> string \<Rightarrow> workspace_error + string" where
  "validate_workspace_dir h path =
     (let path = trim_space path
      in if path = [] then Inl WorkspacePathRequired
         else (case expand_workspace_path h path of
           Inl e \<Rightarrow> Inl e
         | Inr expanded \<Rightarrow>
             (let p = clean_path expanded
              in if p = [] \<or> p = ''.'' then Inl WorkspacePathRequired
                 else (case abs_of h p of
                   Inl e \<Rightarrow> Inl e
                 | Inr q \<Rightarrow>
                     (case host_stat h q of
                        StatDir \<Rightarrow> Inr q
                      | StatMissing \<Rightarrow> Inl StatMissingError
                      | StatFailed m \<Rightarrow> Inl (StatOtherError m)
                      | _ \<Rightarrow> Inl (WorkspaceNotDirectory q))))))"

text \<open>
  The loop of \<open>CurrentWorkspaceDir\<close> reads the stored directory, and when it is gone from the disk
  clears exactly that entry; if another call has changed the entry meanwhile, it starts over.
  \<open>rounds\<close> lists the store's answers of successive rounds, \<open>None\<close> is a loop that has not
  come to its end within them.  Without a store there is one round with an empty directory.
\<close>

record store_round =
  sr_get :: "go_error + string"
  sr_clear :: "go_error + bool"

fun stored_workspace_dir :: "host \<Rightarrow> store_round list \<Rightarrow> (workspace_error + string) option" where
  "stored_workspace_dir h [] = None"
| "stored_workspace_dir h (r # rounds) =
     (case sr_get r of
        Inl e \<Rightarrow> Some (Inl (StoreLoadFailed e))
      | Inr dir \<Rightarrow>
          if trim_space dir = [] then
            Some (case host_cwd h of Inl e \<Rightarrow> Inl (CwdUnresolved e) | Inr d \<Rightarrow> Inr (clean_path d))
          else (case validate_workspace_dir h dir of
            Inr p \<Rightarrow> Some (Inr p)
          | Inl e \<Rightarrow>
              if e \<noteq> StatMissingError then Some (Inl e)
              else (case host_cwd h of
                Inl e \<Rightarrow> Some (Inl (CwdUnresolved e))
              | Inr d \<Rightarrow>
                  (case sr_clear r of
                     Inl e \<Rightarrow> Some (Inl (StoreClearFailed e))
                   | Inr cleared \<Rightarrow>
                       if cleared then Some (Inr (clean_path d)) else stored_workspace_dir h rounds))))"

definition no_store :: store_round where
  "no_store = \<lparr>sr_get = Inr [], sr_clear = Inr False\<rparr>"

definition current_workspace_dir ::
    "host \<Rightarrow> path_scope option \<Rightarrow> store_round list option \<Rightarrow> (workspace_error + string) option" where
  "current_workspace_dir h scope store =
     (let stored = stored_workspace_dir h (case store of None \<Rightarrow> [no_store] | Some rs \<Rightarrow> rs)
      in case scope of
           None \<Rightarrow> stored
         | Some s \<Rightarrow>
             if trim_space (scope_dir s) \<noteq> [] then Some (abs_of h (trim_space (scope_dir s)))
             else if scope_restricted s then Some (Inl RestrictedUnconfigured)
             else stored)"

definition resolve_restricted :: "host \<Rightarrow> path_scope \<Rightarrow> string \<Rightarrow> path_options \<Rightarrow> workspace_error + resolved_path" where
  "resolve_restricted h s raw opts =
     (case resolve_sandbox_relative_path h s raw of
        Inl e \<Rightarrow> Inl e
      | Inr p \<Rightarrow>
          (case validate_resolved_path h p opts of
             Some e \<Rightarrow> Inl e
           | None \<Rightarrow>
               (case abs_of h (trim_space (scope_dir s)) of
                  Inl e \<Rightarrow> Inl e
                | Inr base \<Rightarrow> Inr \<lparr>rs_path = p, rs_base = base, rs_was_abs = False\<rparr>)))"

definition resolve_unrestricted ::
    "host \<Rightarrow> path_scope option \<Rightarrow> store_round list option \<Rightarrow> string \<Rightarrow> path_options \<Rightarrow>
     (workspace_error + resolved_path) option" where
  "resolve_unrestricted h scope store raw opts =
     (let raw = trim_space raw
      in if raw = [] then Some (Inl PathRequired)
         else (case expand_workspace_path h raw of
           Inl e \<Rightarrow> Some (Inl e)
         | Inr expanded \<Rightarrow>
             (case current_workspace_dir h scope store of
                None \<Rightarrow> None
              | Some (Inl e) \<Rightarrow> Some (Inl e)
              | Some (Inr base) \<Rightarrow>
                  (let p = clean_path (if is_abs expanded then expanded else join_path base expanded)
                   in case validate_resolved_path h p opts of
                        Some e \<Rightarrow> Some (Inl e)
                      | None \<Rightarrow> Some (Inr \<lparr>rs_path = p, rs_base = base,
                                            rs_was_abs = is_abs expanded\<rparr>)))))"

definition resolve_workspace_path ::
    "host \<Rightarrow> go_error option \<Rightarrow> path_scope option \<Rightarrow> store_round list option \<Rightarrow> string \<Rightarrow> path_options \<Rightarrow>
     (workspace_error + resolved_path) option" where
  "resolve_workspace_path h ctx_err scope store raw opts =
     (case ctx_err of
        Some e \<Rightarrow> Some (Inl (CallCancelled e))
      | None \<Rightarrow>
          (case scope of
             Some s \<Rightarrow> if scope_restricted s then Some (resolve_restricted h s raw opts)
                       else resolve_unrestricted h scope store raw opts
           | None \<Rightarrow> resolve_unrestricted h scope store raw opts))"

section \<open>Restricted paths stay below their directory\<close>

text \<open>The host promises a rooted process directory (\<open>os.Getwd\<close>).\<close>

definition rooted_cwd :: "host \<Rightarrow> bool" where
  "rooted_cwd h = (case host_cwd h of Inl e \<Rightarrow> True | Inr d \<Rightarrow> is_abs d)"

lemma no_parent_no_climb: "''..'' \<notin> set es \<Longrightarrow> \<not> climbs_from n es"
  by (induction es arbitrary: n) auto

lemma join_path_abs: "is_abs d \<Longrightarrow> is_abs (join_path d p) \<and> clean_path (join_path d p) = join_path d p"
proof -
  assume d: "is_abs d"
  then have "d \<noteq> []" by auto
  with d show ?thesis by (simp add: join_path_def is_abs_append clean_path_idem_abs)
qed

lemma abs_of_clean:
  "rooted_cwd h \<Longrightarrow> abs_of h p = Inr q \<Longrightarrow> is_abs q \<and> clean_path q = q"
  using join_path_abs
  by (auto simp: abs_of_def abs_path_def rooted_cwd_def clean_path_idem_abs split: if_splits sum.splits)

lemma normalize_restricted_plain:
  assumes "normalize_restricted_path raw = Inr p"
  shows "\<not> climbs_from 0 (path_elems p)" "\<not> is_abs p"
proof -
  define s where "s = replace_all [CHR 0x5C] ''/'' (trim_space raw)"
  from assms have p: "p = clean_path s" and rel: "\<not> is_abs s"
      and up: "''..'' \<notin> set (split_char slash s)"
    by (auto simp: normalize_restricted_path_def Let_def s_def is_abs_def split: if_splits)
  have ok: "\<forall>e \<in> set (path_elems s). elem_ok e" by (simp add: path_elems_ok)
  have "''..'' \<notin> set (path_elems s)" using up by (auto simp: path_elems_def)
  then have "\<not> climbs_from 0 (path_elems s)" by (rule no_parent_no_climb)
  from clean_elems_below(2) [OF this _ ok, of "[]"]
  have plain: "\<forall>e \<in> set (clean_elems False (path_elems s)). plain_elem e" by simp
  show "\<not> is_abs p" using rel by (simp add: p)
  show "\<not> climbs_from 0 (path_elems p)"
  proof (cases "clean_elems False (path_elems s) = []")
    case True
    then show ?thesis using rel by (simp add: p clean_path_def render_path_def)
  next
    case False
    then have "path_elems p = clean_elems False (path_elems s)"
      using rel plain by (simp add: p clean_path_def path_elems_render plain_elem_ok)
    with plain show ?thesis by (auto intro!: no_parent_no_climb simp: plain_elem_def)
  qed
qed

lemma resolve_sandbox_below:
  assumes "rooted_cwd h" "resolve_sandbox_relative_path h s raw = Inr p"
  shows "\<exists>base. abs_of h (trim_space (scope_dir s)) = Inr base \<and> below base p"
proof -
  from assms(2) obtain q base where q: "normalize_restricted_path raw = Inr q"
      and base: "abs_of h (trim_space (scope_dir s)) = Inr base" and p: "p = join_path base q"
    by (auto simp: resolve_sandbox_relative_path_def Let_def split: sum.splits if_splits)
  have "below (clean_path base) (join_path base q)"
    using abs_of_clean [OF assms(1) base] normalize_restricted_plain(1) [OF q]
    by (intro join_path_below(2)) auto
  with base p abs_of_clean [OF assms(1) base] show ?thesis by auto
qed

end
