(* ===== verification/Shell_Tool.thy ===== *)
theory Shell_Tool
  imports Shell_Risk Workspace_Paths
begin

text \<open>
  The shell tool up to the start of the process (\<open>internal/tool/builtin\<close>: \<open>file_guard.go\<close>,
  \<open>shell_warnings.go\<close>, \<open>shell.go\<close>): guarded files, the advice for a command, the preparation of a
  call with its risk, and the bounded buffer that collects the output.  \<open>strings.EqualFold\<close> on
  arbitrary paths depends on the Unicode tables and is an argument, \<open>eqf\<close>.
\<close>

section \<open>Guarded files\<close>

datatype notice =
    WarnUseReadFile
  | WarnUseEditFile
  | WarnUseWorkspace
  | WarnUseReadElSkill
  | WarnUseModifyElSkill
  | WarnUseReadMemory
  | WarnUseModifyMemory
  | WarnUseReadLongMemory
  | WarnUseModifyLongMemory
  | NoticeText string

fun trim_notice :: "notice \<Rightarrow> notice" where
  "trim_notice (NoticeText s) = NoticeText (trim_space s)"
| "trim_notice n = n"

definition notice_blank :: "notice \<Rightarrow> bool" where
  "notice_blank n \<longleftrightarrow> trim_notice n = NoticeText []"

record file_guard_rule =
  gr_root :: string
  gr_exact :: string
  gr_read_warnings :: "notice list"
  gr_write_error :: notice
  gr_match :: "(string \<Rightarrow> string \<Rightarrow> bool) option"

type_synonym file_guard = "file_guard_rule list"

definition add_rule :: "file_guard \<Rightarrow> file_guard_rule \<Rightarrow> file_guard" where
  "add_rule g r = (if trim_space (gr_root r) = [] \<and> trim_space (gr_exact r) = [] then g else g @ [r])"

definition new_file_guard :: "file_guard_rule list \<Rightarrow> file_guard" where
  "new_file_guard rules = foldl add_rule [] rules"

definition abs_clean :: "go_error + string \<Rightarrow> string \<Rightarrow> string option" where
  "abs_clean cwd p =
     (let p = trim_space p
      in if p = [] then None
         else (case abs_path cwd p of Inl e \<Rightarrow> None | Inr q \<Rightarrow> Some (clean_path q)))"

definition same_path :: "(string \<Rightarrow> string \<Rightarrow> bool) \<Rightarrow> string \<Rightarrow> string \<Rightarrow> bool" where
  "same_path eqf a b \<longleftrightarrow> a = b \<or> eqf a b"

definition rule_matches ::
    "(string \<Rightarrow> string \<Rightarrow> bool) \<Rightarrow> go_error + string \<Rightarrow> file_guard_rule \<Rightarrow> string \<Rightarrow> bool" where
  "rule_matches eqf cwd r p = (case abs_clean cwd p of None \<Rightarrow> False | Some path \<Rightarrow>
     if trim_space (gr_exact r) \<noteq> [] then
       (case abs_clean cwd (trim_space (gr_exact r)) of
          None \<Rightarrow> False | Some exact \<Rightarrow> same_path eqf path exact)
     else if trim_space (gr_root r) = [] then False
     else (case abs_clean cwd (trim_space (gr_root r)) of
       None \<Rightarrow> False
     | Some root \<Rightarrow>
         (let rel = rel_path root path
          in if rel = ''.'' \<or> has_prefix ''..'' rel \<or> is_abs rel then False
             else (case gr_match r of None \<Rightarrow> True | Some m \<Rightarrow> m path rel))))"

definition read_warnings ::
    "(string \<Rightarrow> string \<Rightarrow> bool) \<Rightarrow> go_error + string \<Rightarrow> file_guard \<Rightarrow> string \<Rightarrow> notice list" where
  "read_warnings eqf cwd g p = concat (map gr_read_warnings (filter (\<lambda>r. rule_matches eqf cwd r p) g))"

fun check_write ::
    "(string \<Rightarrow> string \<Rightarrow> bool) \<Rightarrow> go_error + string \<Rightarrow> file_guard \<Rightarrow> string \<Rightarrow> notice option" where
  "check_write eqf cwd [] p = None"
| "check_write eqf cwd (r # g) p =
     (if \<not> rule_matches eqf cwd r p \<or> notice_blank (gr_write_error r) then check_write eqf cwd g p
      else Some (trim_notice (gr_write_error r)))"

definition skill_file_name :: string where "skill_file_name = ''SKILL.elyph''"

definition el_skill_match :: "string \<Rightarrow> string \<Rightarrow> bool" where
  "el_skill_match path rel = (case split_char slash rel of
     [d, n, f] \<Rightarrow> d = ''go'' \<and> trim_space n \<noteq> [] \<and> (f = skill_file_name \<or> f = ''main.go'')
   | _ \<Rightarrow> False)"

definition el_skill_guard_rule :: "string \<Rightarrow> file_guard_rule" where
  "el_skill_guard_rule root = \<lparr>gr_root = root, gr_exact = [], gr_read_warnings = [WarnUseReadElSkill],
     gr_write_error = WarnUseModifyElSkill, gr_match = Some el_skill_match\<rparr>"

definition resident_memory_guard_rule :: "string \<Rightarrow> file_guard_rule" where
  "resident_memory_guard_rule path = \<lparr>gr_root = [], gr_exact = path,
     gr_read_warnings = [WarnUseReadMemory], gr_write_error = WarnUseModifyMemory, gr_match = None\<rparr>"

definition long_memory_match :: "string \<Rightarrow> string \<Rightarrow> bool" where
  "long_memory_match path rel = equal_fold_ascii (path_ext rel) ''.md''"

definition long_memory_guard_rule :: "string \<Rightarrow> file_guard_rule" where
  "long_memory_guard_rule root = \<lparr>gr_root = join_path root ''memories'', gr_exact = [],
     gr_read_warnings = [WarnUseReadLongMemory], gr_write_error = WarnUseModifyLongMemory,
     gr_match = Some long_memory_match\<rparr>"

section \<open>Advice for a command\<close>

definition msys_path_to_windows :: "string \<Rightarrow> string option" where
  "msys_path_to_windows p = (case p of
     a # d # b # rest \<Rightarrow>
       if a \<noteq> slash \<or> b \<noteq> slash then None
       else if 97 \<le> (of_char d :: nat) \<and> (of_char d :: nat) \<le> 122 \<or>
               65 \<le> (of_char d :: nat) \<and> (of_char d :: nat) \<le> 90
       then Some (d # '':/'' @ rest) else None
   | _ \<Rightarrow> None)"

definition resolve_shell_literal_path :: "string \<Rightarrow> string \<Rightarrow> string option" where
  "resolve_shell_literal_path work_dir raw =
     (let raw = trim_space raw
      in if raw = [] \<or> has_prefix ''-'' raw then None
         else if contains_str raw ''://'' then None
         else (let raw = (case msys_path_to_windows raw of None \<Rightarrow> raw | Some w \<Rightarrow> w)
               in if is_abs raw then Some (clean_path raw)
                  else if trim_space work_dir = [] then None
                  else Some (clean_path (join_path work_dir raw))))"

record shell_advice =
  ad_warnings :: "notice list"
  ad_block :: "notice option"

definition note_warning :: "notice \<Rightarrow> shell_advice \<Rightarrow> shell_advice" where
  "note_warning w a =
     (if notice_blank w then a
      else if trim_notice w \<in> set (ad_warnings a) then a
      else a\<lparr>ad_warnings := ad_warnings a @ [trim_notice w]\<rparr>)"

definition add_path_arg_warning :: "string \<Rightarrow> string list \<Rightarrow> shell_advice \<Rightarrow> shell_advice" where
  "add_path_arg_warning wd args a =
     (if list_ex (\<lambda>x. resolve_shell_literal_path wd x \<noteq> None) args
      then note_warning WarnUseWorkspace a else a)"

text \<open>The questions to the guard, as functions of a resolved path.\<close>

record guard_view =
  gv_read :: "string \<Rightarrow> notice list"
  gv_write :: "string \<Rightarrow> notice option"

definition view_guard :: "(string \<Rightarrow> string \<Rightarrow> bool) \<Rightarrow> go_error + string \<Rightarrow> file_guard \<Rightarrow> guard_view" where
  "view_guard eqf cwd g = \<lparr>gv_read = read_warnings eqf cwd g, gv_write = check_write eqf cwd g\<rparr>"

definition add_read_warnings :: "guard_view \<Rightarrow> string \<Rightarrow> string list \<Rightarrow> shell_advice \<Rightarrow> shell_advice" where
  "add_read_warnings g wd args a = foldl (\<lambda>a x. case resolve_shell_literal_path wd x of
       None \<Rightarrow> a | Some p \<Rightarrow> foldl (\<lambda>a w. note_warning w a) a (gv_read g p)) a args"

fun check_write_args :: "guard_view \<Rightarrow> string \<Rightarrow> string list \<Rightarrow> notice option" where
  "check_write_args g wd [] = None"
| "check_write_args g wd (x # xs) =
     (case resolve_shell_literal_path wd x of
        None \<Rightarrow> check_write_args g wd xs
      | Some p \<Rightarrow> (case gv_write g p of None \<Rightarrow> check_write_args g wd xs | Some e \<Rightarrow> Some e))"

definition advise_write :: "guard_view \<Rightarrow> string \<Rightarrow> string list \<Rightarrow> shell_advice \<Rightarrow> shell_advice" where
  "advise_write g wd args a = (case check_write_args g wd args of
     Some e \<Rightarrow> a\<lparr>ad_block := Some e\<rparr>
   | None \<Rightarrow> add_path_arg_warning wd args (note_warning WarnUseEditFile a))"

definition inspect_shell_call :: "guard_view \<Rightarrow> string \<Rightarrow> shell_word list \<Rightarrow> shell_advice \<Rightarrow> shell_advice" where
  "inspect_shell_call g wd words a = (case words of [] \<Rightarrow> a | w # ws \<Rightarrow>
     (case literal_word w of None \<Rightarrow> a | Some n \<Rightarrow>
       let name = command_base n; args = literal_args ws
       in if name \<in> set [''cat'', ''less'', ''more'', ''head'', ''tail'', ''grep'', ''rg''] then
            add_read_warnings g wd args (add_path_arg_warning wd args (note_warning WarnUseReadFile a))
          else if name = ''sed'' then
            (if has_arg args ''-i'' then advise_write g wd args a else a)
          else if name = ''perl'' then
            (if has_arg args ''-pi'' \<or> has_arg args ''-pI'' then advise_write g wd args a else a)
          else if name = ''tee'' then advise_write g wd args a
          else a))"

definition inspect_shell_redirect ::
    "guard_view \<Rightarrow> string \<Rightarrow> string \<Rightarrow> shell_word \<Rightarrow> shell_advice \<Rightarrow> shell_advice" where
  "inspect_shell_redirect g wd op w a =
     (if \<not> write_redirect op then a
      else (case literal_word w of
        None \<Rightarrow> note_warning WarnUseEditFile a
      | Some v \<Rightarrow> (case resolve_shell_literal_path wd v of
          None \<Rightarrow> note_warning WarnUseEditFile a
        | Some p \<Rightarrow> (let a1 = note_warning WarnUseWorkspace a
            in case gv_write g p of
                 Some e \<Rightarrow> a1\<lparr>ad_block := Some e\<rparr>
               | None \<Rightarrow> note_warning WarnUseEditFile a1))))"

definition inspect_node :: "guard_view \<Rightarrow> string \<Rightarrow> shell_advice \<Rightarrow> shell_node \<Rightarrow> shell_advice" where
  "inspect_node g wd a n =
     (if ad_block a \<noteq> None then a
      else (case n of
        CallExpr ws \<Rightarrow> inspect_shell_call g wd ws a
      | Redirect op w \<Rightarrow> inspect_shell_redirect g wd op w a
      | _ \<Rightarrow> a))"

definition analyze_shell_advice :: "guard_view \<Rightarrow> string \<Rightarrow> shell_node list \<Rightarrow> shell_advice" where
  "analyze_shell_advice g wd ns = foldl (inspect_node g wd) \<lparr>ad_warnings = [], ad_block = None\<rparr> ns"

section \<open>Preparing a call\<close>

fun changes_directory :: "shell_node \<Rightarrow> string option" where
  "changes_directory (CallExpr (w # ws)) = (case literal_word w of
     None \<Rightarrow> None
   | Some n \<Rightarrow> if command_base n \<in> set [''cd'', ''chdir'', ''pushd'', ''popd'', ''set-location'', ''sl'']
       then Some (command_base n) else None)"
| "changes_directory n = None"

fun reject_directory_change :: "shell_node list \<Rightarrow> string option" where
  "reject_directory_change [] = None"
| "reject_directory_change (n # ns) =
     (case changes_directory n of
        Some b \<Rightarrow> if b \<noteq> [] then Some b else reject_directory_change ns
      | None \<Rightarrow> reject_directory_change ns)"

datatype shell_error =
  CommandRequired | DirectoryChange string | WorkDirFailed workspace_error | WriteBlocked notice

record prepared_shell =
  ps_assessment :: risk_assessment
  ps_warnings :: "notice list"
  ps_work_dir :: string

definition restricted_scope :: "path_scope option \<Rightarrow> bool" where
  "restricted_scope scope = (case scope of None \<Rightarrow> False | Some s \<Rightarrow> scope_restricted s)"

text \<open>
  \<open>PrepareCall\<close> after the arguments are decoded.  \<open>parsed\<close> is the parser's answer (unused in
  a PowerShell environment); \<open>None\<close> is a working directory whose lookup has not ended.
\<close>

definition shell_assessment :: "bool \<Rightarrow> string + shell_node list \<Rightarrow> bool \<Rightarrow> risk_assessment" where
  "shell_assessment power_shell parsed restricted =
     (if power_shell then \<lparr>as_level = RiskHigh, as_reasons = [PowerShellUnparsed]\<rparr>
      else (case parsed of
        Inl m \<Rightarrow>
          if restricted
          then \<lparr>as_level = RiskCritical, as_reasons = [ParseFailed m, SandboxUnparsed m]\<rparr>
          else \<lparr>as_level = RiskHigh, as_reasons = [ParseFailed m]\<rparr>
      | Inr ns \<Rightarrow>
          if restricted then apply_sandbox_risk ns (classify_shell_command ns)
          else classify_shell_command ns))"

definition prepare_shell ::
    "(string \<Rightarrow> string \<Rightarrow> bool) \<Rightarrow> host \<Rightarrow> file_guard \<Rightarrow> path_scope option \<Rightarrow> store_round list option \<Rightarrow>
     bool \<Rightarrow> string \<Rightarrow> string + shell_node list \<Rightarrow> (shell_error + prepared_shell) option" where
  "prepare_shell eqf h g scope store power_shell cmd parsed =
     (if trim_space cmd = [] then Some (Inl CommandRequired)
      else (case (if power_shell then None
                  else case parsed of Inl m \<Rightarrow> None | Inr ns \<Rightarrow> reject_directory_change ns) of
        Some d \<Rightarrow> Some (Inl (DirectoryChange d))
      | None \<Rightarrow> (case current_workspace_dir h scope store of
          None \<Rightarrow> None
        | Some (Inl e) \<Rightarrow> Some (Inl (WorkDirFailed e))
        | Some (Inr wd) \<Rightarrow>
            (let advice = (if power_shell then \<lparr>ad_warnings = [], ad_block = None\<rparr>
               else case parsed of
                 Inl m \<Rightarrow> \<lparr>ad_warnings = [], ad_block = None\<rparr>
               | Inr ns \<Rightarrow> analyze_shell_advice (view_guard eqf (host_cwd h) g) wd ns)
             in case ad_block advice of
                  Some e \<Rightarrow> Some (Inl (WriteBlocked e))
                | None \<Rightarrow> Some (Inr \<lparr>ps_assessment =
                      shell_assessment power_shell parsed (restricted_scope scope),
                    ps_warnings = ad_warnings advice, ps_work_dir = wd\<rparr>)))))"

section \<open>Collecting output\<close>

definition max_shell_output :: nat where "max_shell_output = 256 * 1024"

record output_buffer =
  ob_data :: string
  ob_truncated :: bool

definition empty_buffer :: output_buffer where
  "empty_buffer = \<lparr>ob_data = [], ob_truncated = False\<rparr>"

text \<open>The write reports every byte as written, so the process is never blocked.\<close>

definition buffer_write :: "output_buffer \<Rightarrow> string \<Rightarrow> output_buffer \<times> nat" where
  "buffer_write b p =
     (let keep = min (length p) (max_shell_output - length (ob_data b))
      in (\<lparr>ob_data = ob_data b @ take keep p, ob_truncated = (ob_truncated b \<or> keep < length p)\<rparr>,
          length p))"

definition buffer_string :: "output_buffer \<Rightarrow> string" where
  "buffer_string b = ob_data b @
     (if ob_truncated b
      then [CHR 0x0A] @ ''... output too long; truncated to first '' @
        nat_str (max_shell_output div 1024) @ '' KiB ...'' @ [CHR 0x0A]
      else [])"

definition format_shell_content :: "string \<Rightarrow> string \<Rightarrow> int \<Rightarrow> string" where
  "format_shell_content out err code = join_str [CHR 0x0A]
     ((if out \<noteq> [] then [out] else []) @
      (if err \<noteq> [] then [''stderr:'' @ [CHR 0x0A] @ err] else []) @
      (if code \<noteq> 0 then [''exit_code: '' @ int_str code] else []))"

end
