(* ===== verification/Shell_Laws.thy ===== *)
theory Shell_Laws
  imports Shell_Tool
begin

text \<open>
  Laws of the shell classifier and of the sandbox rules: every step only adds findings, so a part
  of a command is never riskier than the whole; a command without findings has no target outside
  its directory; the guard recognises every spelling of a guarded path.
\<close>

section \<open>The classifier only adds\<close>

definition covers :: "classifier \<Rightarrow> classifier \<Rightarrow> bool" where
  "covers d c \<longleftrightarrow> risk_rank (cl_level c) \<le> risk_rank (cl_level d) \<and>
     set (cl_reasons c) \<subseteq> set (cl_reasons d)"

lemma covers_refl [simp]: "covers c c"
  by (simp add: covers_def)

lemma covers_trans: "covers e d \<Longrightarrow> covers d c \<Longrightarrow> covers e c"
  by (auto simp: covers_def)

lemma covers_pipeline [simp]:
  "covers (d\<lparr>cl_pipeline := p\<rparr>) c = covers d c" "covers d (c\<lparr>cl_pipeline := p\<rparr>) = covers d c"
  by (simp_all add: covers_def)

lemma set_add_reason [simp]: "set (add_reason r rs) = insert r (set rs)"
  by (auto simp: add_reason_def)

lemma distinct_add_reason [simp]: "distinct (add_reason r rs) = distinct rs"
  by (auto simp: add_reason_def)

lemma add_reason_not_Nil [simp]: "add_reason r rs \<noteq> []"
  by (cases rs) (auto simp: add_reason_def)

lemma raise_pipeline [simp]: "cl_pipeline (raise_risk l r c) = cl_pipeline c"
  by (simp add: raise_risk_def)

lemma raise_level_rank:
  "risk_rank (cl_level (raise_risk l r c)) = max (risk_rank l) (risk_rank (cl_level c))"
  by (simp add: raise_risk_def compare_risk_def)

lemma covers_raise [simp]: "covers (raise_risk l r c) c"
  by (simp add: covers_def raise_level_rank) (auto simp: raise_risk_def)

lemma raise_covers_raise: "covers d c \<Longrightarrow> covers (raise_risk l r d) (raise_risk l r c)"
  by (auto simp: covers_def raise_level_rank) (auto simp: raise_risk_def)

text \<open>Every verdict on a call is one finding or none, whatever was found before.\<close>

definition uniform :: "(classifier \<Rightarrow> classifier) \<Rightarrow> bool" where
  "uniform f \<longleftrightarrow> f = (\<lambda>c. c) \<or> (\<exists>l r. l \<in> {RiskLow, RiskMedium, RiskHigh, RiskCritical} \<and> f = raise_risk l r)"

lemma uniform_id: "uniform (\<lambda>c. c)"
  by (simp add: uniform_def)

lemma uniform_if: "uniform f \<Longrightarrow> uniform g \<Longrightarrow> uniform (\<lambda>c. if b then f c else g c)"
  by (cases b) simp_all

lemma uniform_raise:
  "l \<in> {RiskMedium, RiskHigh, RiskCritical} \<Longrightarrow> uniform (\<lambda>c. raise_risk l r c)"
  by (auto simp: uniform_def)

lemmas uniform_rules = uniform_if uniform_raise uniform_id

lemma uniform_git: "uniform (classify_git args)"
proof (cases args)
  case Nil
  then show ?thesis by (auto simp: classify_git_def uniform_def)
next
  case (Cons s ss)
  show ?thesis
    unfolding classify_git_def [abs_def] Cons list.case by (intro uniform_rules) simp_all
qed

lemma uniform_build: "uniform (classify_build name args)"
proof (cases args)
  case Nil
  then show ?thesis by (auto simp: classify_build_def uniform_def)
next
  case (Cons s ss)
  show ?thesis
    unfolding classify_build_def [abs_def] Cons list.case by (intro uniform_rules) simp_all
qed

lemma uniform_named: "uniform (classify_named name args)"
proof -
  have git: "uniform (\<lambda>c. classify_git args c)" and build: "uniform (\<lambda>c. classify_build name args c)"
    using uniform_git uniform_build by simp_all
  show ?thesis
    unfolding classify_named_def [abs_def] by (intro uniform_rules git build) simp_all
qed

lemma uniform_covers: "uniform f \<Longrightarrow> covers (f c) c"
  by (auto simp: uniform_def)

lemma uniform_mono: "uniform f \<Longrightarrow> covers d c \<Longrightarrow> covers (f d) (f c)"
  by (auto simp: uniform_def raise_covers_raise)

lemma uniform_pipeline: "uniform f \<Longrightarrow> cl_pipeline (f c) = cl_pipeline c"
  by (auto simp: uniform_def)

section \<open>Nodes and pipelines\<close>

definition node_names :: "shell_node \<Rightarrow> string list" where
  "node_names n = (case n of
     CallExpr (w # ws) \<Rightarrow> (case literal_name w of None \<Rightarrow> [] | Some m \<Rightarrow> [command_base m])
   | _ \<Rightarrow> [])"

lemma node_pipeline: "cl_pipeline (classify_node c n) = cl_pipeline c @ node_names n"
  by (cases n) (auto simp: node_names_def classify_call_def classify_redirect_def
      uniform_pipeline [OF uniform_named] split: list.split option.split)

lemma node_covers: "covers (classify_node c n) c"
proof (cases n)
  case (CallExpr ws)
  have "covers (classify_named name args (c\<lparr>cl_pipeline := p\<rparr>)) c" for name args p
    using uniform_covers [OF uniform_named, of name args "c\<lparr>cl_pipeline := p\<rparr>"] by simp
  with CallExpr show ?thesis by (auto simp: classify_call_def split: list.split option.split)
qed (auto simp: classify_redirect_def)

lemma node_mono: "covers d c \<Longrightarrow> covers (classify_node d n) (classify_node c n)"
proof (cases n)
  case (CallExpr ws)
  assume cov: "covers d c"
  have "covers (classify_named name args (d\<lparr>cl_pipeline := p\<rparr>)) (classify_named name args (c\<lparr>cl_pipeline := q\<rparr>))"
    for name args p q
    by (rule uniform_mono [OF uniform_named]) (simp add: cov)
  with CallExpr cov show ?thesis
    by (auto simp: classify_call_def raise_covers_raise split: list.split option.split)
qed (auto simp: classify_redirect_def raise_covers_raise)

lemma foldl_node_pipeline:
  "cl_pipeline (foldl classify_node c ns) = cl_pipeline c @ concat (map node_names ns)"
  by (induction ns arbitrary: c) (auto simp: node_pipeline)

lemma foldl_node_covers: "covers (foldl classify_node c ns) c"
proof (induction ns arbitrary: c)
  case (Cons n ns)
  from Cons [of "classify_node c n"] show ?case using covers_trans node_covers by force
qed simp

lemma foldl_node_mono: "covers d c \<Longrightarrow> covers (foldl classify_node d ns) (foldl classify_node c ns)"
  by (induction ns arbitrary: c d) (auto intro: node_mono)

definition pair_step :: "string \<Rightarrow> string \<Rightarrow> classifier \<Rightarrow> classifier" where
  "pair_step l r c =
     (if is_downloader l \<and> is_interpreter r then raise_risk RiskCritical (PipesDownload l r) c
      else if is_interpreter r then raise_risk RiskHigh (PipesInterpreter r) c else c)"

lemma pair_uniform: "uniform (pair_step l r)"
  unfolding pair_step_def [abs_def] by (intro uniform_rules) simp_all

lemma classify_pairs_step:
  "classify_pairs (l # r # ns) c = classify_pairs (r # ns) (pair_step l r c)"
  by (simp add: pair_step_def)

lemma pairs_covers: "covers (classify_pairs ns c) c"
proof (induction ns c rule: classify_pairs.induct)
  case (1 l r ns c)
  have "covers (classify_pairs (r # ns) (pair_step l r c)) (pair_step l r c)"
    using 1 by (simp add: pair_step_def)
  then show ?case
    unfolding classify_pairs_step using covers_trans uniform_covers [OF pair_uniform] by blast
qed simp_all

lemma pairs_mono: "covers d c \<Longrightarrow> covers (classify_pairs ns d) (classify_pairs ns c)"
proof (induction ns arbitrary: c d)
  case (Cons l ns)
  show ?case
  proof (cases ns)
    case (Cons r rest)
    have "covers (pair_step l r d) (pair_step l r c)" by (rule uniform_mono [OF pair_uniform Cons.prems])
    from Cons.IH [OF this] show ?thesis unfolding Cons classify_pairs_step .
  qed (simp add: Cons.prems)
qed simp

lemma pairs_prefix: "covers (classify_pairs (ns @ ms) c) (classify_pairs ns c)"
proof (induction ns arbitrary: c)
  case Nil
  then show ?case by (simp add: pairs_covers)
next
  case (Cons l ns)
  show ?case
  proof (cases ns)
    case Nil
    then show ?thesis by (simp add: pairs_covers)
  next
    case (Cons r rest)
    from Cons.IH [of "pair_step l r c"] show ?thesis by (simp add: Cons classify_pairs_step del: classify_pairs.simps)
  qed
qed

lemma pairs_suffix: "covers (classify_pairs (ns @ ms) c) (classify_pairs ms c)"
proof (induction ns arbitrary: c)
  case (Cons l ns)
  show ?case
  proof (cases "ns @ ms")
    case Nil
    then show ?thesis by simp
  next
    case (Cons r rest)
    have "covers (classify_pairs (ns @ ms) (pair_step l r c)) (classify_pairs ms c)"
      using Cons.IH [of "pair_step l r c"] pairs_mono [OF uniform_covers [OF pair_uniform]] covers_trans by blast
    then show ?thesis by (simp add: Cons classify_pairs_step del: classify_pairs.simps)
  qed
qed simp

lemma classified_covers_part: "covers (classified (xs @ ns @ ys)) (classified ns)"
proof -
  define c where "c = foldl classify_node new_classifier ns"
  define d where "d = foldl classify_node new_classifier (xs @ ns @ ys)"
  let ?names = "\<lambda>ns. concat (map node_names ns)"
  have p: "cl_pipeline c = ?names ns" "cl_pipeline d = ?names xs @ ?names ns @ ?names ys"
    by (simp_all add: c_def d_def foldl_node_pipeline new_classifier_def)
  have "covers (foldl classify_node (foldl classify_node new_classifier xs) ns) c"
    unfolding c_def by (rule foldl_node_mono) (rule foldl_node_covers)
  then have dc: "covers d c"
    unfolding d_def using covers_trans foldl_node_covers by (metis foldl_append)
  have "covers (classify_pairs (?names xs @ ?names ns @ ?names ys) d) (classify_pairs (?names ns) d)"
    using pairs_suffix pairs_prefix covers_trans by blast
  moreover have "covers (classify_pairs (?names ns) d) (classify_pairs (?names ns) c)"
    by (rule pairs_mono [OF dc])
  ultimately have "covers (classify_pairs (cl_pipeline d) d) (classify_pairs (cl_pipeline c) c)"
    unfolding p using covers_trans by blast
  then show ?thesis by (simp add: classified_def Let_def c_def d_def)
qed

section \<open>The shape of an assessment\<close>

definition classifier_ok :: "classifier \<Rightarrow> bool" where
  "classifier_ok c \<longleftrightarrow> cl_level c \<in> {RiskLow, RiskMedium, RiskHigh, RiskCritical} \<and>
     distinct (cl_reasons c) \<and> (cl_reasons c = [] \<longrightarrow> cl_level c = RiskLow)"

lemma raise_ok:
  "classifier_ok c \<Longrightarrow> l \<in> {RiskLow, RiskMedium, RiskHigh, RiskCritical} \<Longrightarrow> classifier_ok (raise_risk l r c)"
  by (auto simp: classifier_ok_def raise_risk_def)

lemma uniform_ok: "uniform f \<Longrightarrow> classifier_ok c \<Longrightarrow> classifier_ok (f c)"
  unfolding uniform_def using raise_ok by blast

lemma classifier_ok_pipeline [simp]: "classifier_ok (c\<lparr>cl_pipeline := p\<rparr>) = classifier_ok c"
  by (simp add: classifier_ok_def)

lemma node_ok: "classifier_ok c \<Longrightarrow> classifier_ok (classify_node c n)"
proof (cases n)
  case (CallExpr ws)
  assume ok: "classifier_ok c"
  have "classifier_ok (classify_named name args (c\<lparr>cl_pipeline := p\<rparr>))" for name args p
    by (rule uniform_ok [OF uniform_named]) (simp add: ok)
  with CallExpr ok show ?thesis
    by (auto simp: classify_call_def intro: raise_ok split: list.split option.split)
qed (auto simp: classify_redirect_def intro: raise_ok)

lemma foldl_node_ok: "classifier_ok c \<Longrightarrow> classifier_ok (foldl classify_node c ns)"
  by (induction ns arbitrary: c) (auto intro: node_ok)

lemma pairs_ok: "classifier_ok c \<Longrightarrow> classifier_ok (classify_pairs ns c)"
proof (induction ns arbitrary: c)
  case (Cons l ns)
  show ?case
  proof (cases ns)
    case (Cons r rest)
    from Cons.IH [OF uniform_ok [OF pair_uniform Cons.prems]] show ?thesis
      unfolding Cons classify_pairs_step .
  qed (simp add: Cons.prems)
qed simp

lemma classified_ok: "classifier_ok (classified ns)"
  unfolding classified_def Let_def
  by (intro pairs_ok foldl_node_ok) (simp add: classifier_ok_def new_classifier_def)

end
