(* ===== verification/Shell_Sandbox_Laws.thy ===== *)
theory Shell_Sandbox_Laws
  imports Shell_Laws
begin

text \<open>
  Laws of the path rules of a restricted call: trimming a path word cannot hide an escape, so a
  command without findings has every checked target below its directory; and of guarded files: a
  guard recognises a path by its elements, whatever the spelling.
\<close>

section \<open>Trimming and climbing\<close>

definition pad :: "string \<Rightarrow> bool" where
  "pad l \<longleftrightarrow> slash \<notin> set l \<and> CHR ''.'' \<notin> set l"

lemma pad_Nil [simp]: "pad []"
  by (simp add: pad_def)

lemma pad_append [simp]: "pad (a @ b) \<longleftrightarrow> pad a \<and> pad b"
  by (auto simp: pad_def)

lemma space_chars:
  "ascii_space c \<Longrightarrow> pad [c]"
  "space2 a b \<Longrightarrow> pad [a, b]"
  "space3 a b c \<Longrightarrow> pad [a, b, c]"
  by (auto simp: pad_def slash_def ascii_space_def space2_def space3_def)

lemma pad_Cons: "pad (c # l) \<longleftrightarrow> pad [c] \<and> pad l"
  by (auto simp: pad_def)

lemma lead_space_pad: "pad (take (lead_space s) s)"
  by (cases s rule: lead_space.cases) (auto dest: space_chars)

lemma tail_space_pad: "pad (take (tail_space s) s)"
proof (cases s rule: tail_space.cases)
  case (3 a b)
  then show ?thesis using space_chars(1) [of a] space_chars(2) [of b a] by (simp add: pad_Cons [of _ "[_]"])
next
  case (4 a b c t)
  then show ?thesis
    using space_chars(1) [of a] space_chars(2) [of b a] space_chars(3) [of c b a]
    by (simp add: pad_Cons [of _ "_ # _"])
qed (auto dest: space_chars)

lemma trim_left_pad: "\<exists>l. s = l @ trim_left s \<and> pad l"
proof (induction s rule: trim_left.induct)
  case (1 s)
  show ?case
  proof (cases "lead_space s = 0")
    case False
    with 1 obtain l where l: "drop (lead_space s) s = l @ trim_left (drop (lead_space s) s)" "pad l" by blast
    have "s = take (lead_space s) s @ drop (lead_space s) s" by simp
    also have "\<dots> = (take (lead_space s) s @ l) @ trim_left (drop (lead_space s) s)"
      using l(1) by simp
    also have "trim_left (drop (lead_space s) s) = trim_left s"
      using False by (simp add: trim_left.simps [of s])
    finally show ?thesis using l(2) lead_space_pad [of s] by (metis pad_append)
  qed (simp add: trim_left_id)
qed

lemma trim_rev_pad: "\<exists>l. s = l @ trim_rev s \<and> pad l"
proof (induction s rule: trim_rev.induct)
  case (1 s)
  show ?case
  proof (cases "tail_space s = 0")
    case False
    with 1 obtain l where l: "drop (tail_space s) s = l @ trim_rev (drop (tail_space s) s)" "pad l" by blast
    have "s = take (tail_space s) s @ drop (tail_space s) s" by simp
    also have "\<dots> = (take (tail_space s) s @ l) @ trim_rev (drop (tail_space s) s)"
      using l(1) by simp
    also have "trim_rev (drop (tail_space s) s) = trim_rev s"
      using False by (simp add: trim_rev.simps [of s])
    finally show ?thesis using l(2) tail_space_pad [of s] by (metis pad_append)
  qed (simp add: trim_rev_id)
qed

lemma pad_rev [simp]: "pad (rev l) = pad l"
  by (simp add: pad_def)

lemma trim_space_pad: "\<exists>l r. s = l @ trim_space s @ r \<and> pad l \<and> pad r"
proof -
  obtain l where l: "s = l @ trim_left s" "pad l" using trim_left_pad by blast
  obtain r where r: "rev (trim_left s) = r @ trim_rev (rev (trim_left s))" "pad r"
    using trim_rev_pad by blast
  then have "trim_left s = rev (r @ trim_rev (rev (trim_left s)))" by (metis rev_rev_ident)
  then have "trim_left s = trim_space s @ rev r" by (simp add: trim_space_def trim_right_def)
  with l r show ?thesis by (metis append_assoc pad_rev)
qed

lemma takeWhile_quote_pad: "pad (takeWhile (\<lambda>c. c = CHR 0x27 \<or> c = CHR 0x22) s)"
  by (auto simp: pad_def slash_def dest: set_takeWhileD)

lemma trim_quotes_pad: "\<exists>l r. s = l @ trim_quotes s @ r \<and> pad l \<and> pad r"
proof -
  let ?q = "\<lambda>c. c = CHR 0x27 \<or> c = CHR 0x22"
  define t where "t = dropWhile ?q s"
  have "t = rev (takeWhile ?q (rev t) @ dropWhile ?q (rev t))" by simp
  also have "\<dots> = rev (dropWhile ?q (rev t)) @ rev (takeWhile ?q (rev t))" by (rule rev_append)
  also have "rev (dropWhile ?q (rev t)) = trim_quotes s" by (simp add: trim_quotes_def t_def Let_def)
  finally have "t = trim_quotes s @ rev (takeWhile ?q (rev t))" .
  moreover have "s = takeWhile ?q s @ t" by (simp add: t_def)
  ultimately have "s = takeWhile ?q s @ trim_quotes s @ rev (takeWhile ?q (rev t))" by simp
  moreover have "pad (rev (takeWhile ?q (rev t)))" by (simp add: takeWhile_quote_pad)
  ultimately show ?thesis using takeWhile_quote_pad by blast
qed

text \<open>Padding in front turns the first element into a name, padding behind the last one.\<close>

lemma climbs_Suc: "climbs_from (Suc n) es \<Longrightarrow> climbs_from n es"
  by (induction es arbitrary: n) (auto split: if_splits nat.splits)

lemma path_elems_head:
  "slash \<notin> set l \<Longrightarrow> l \<noteq> [] \<Longrightarrow>
   (path_elems p = [] \<and> path_elems (l @ p) = [l]) \<or> is_abs p \<and> path_elems (l @ p) = l # path_elems p \<or>
   (\<exists>e es. path_elems p = e # es \<and> path_elems (l @ p) = (l @ e) # es)"
proof (induction l rule: rev_induct)
  case (snoc c l)
  have *: "split_char slash (l @ w) = (l @ hd (split_char slash w)) # tl (split_char slash w)"
    if "slash \<notin> set l" for l w
    using that by (induction l) (auto split: list.split)
  obtain e es where e: "split_char slash p = e # es" by (cases "split_char slash p") auto
  have eq: "path_elems ((l @ [c]) @ p) = ((l @ [c]) @ e) # filter (\<lambda>e. e \<noteq> []) es"
    using snoc.prems * [of "l @ [c]" p] e by (simp add: path_elems_def)
  show ?case
  proof (cases "e = []")
    case False
    then have "path_elems p = e # filter (\<lambda>e. e \<noteq> []) es" by (simp add: path_elems_def e)
    with eq show ?thesis by blast
  next
    case True
    have "p = [] \<or> is_abs p"
      using e True by (cases p) (auto simp: is_abs_def slash_def split: if_splits list.splits)
    moreover have "path_elems p = filter (\<lambda>e. e \<noteq> []) es" by (simp add: path_elems_def e True)
    ultimately show ?thesis using eq True by auto
  qed
qed simp

lemma climbs_pad_front:
  assumes "pad l" "\<not> is_abs p" "\<not> climbs_from 0 (path_elems p)"
  shows "\<not> is_abs (l @ p) \<and> \<not> climbs_from 0 (path_elems (l @ p))"
proof (cases "l = []")
  case False
  then obtain c cs where l: "l = c # cs" by (cases l) auto
  with assms(1) have c: "c \<noteq> slash" "c \<noteq> CHR ''.''" by (auto simp: pad_def)
  then have abs: "\<not> is_abs (l @ p)" by (simp add: l is_abs_def slash_def)
  have name: "climbs_from n ((l @ e) # es) = climbs_from (Suc n) es" for n e es
    using c by (simp add: l)
  from path_elems_head [of l p] False assms(1,2)
  consider "path_elems (l @ p) = [l @ []]"
    | e es where "path_elems p = e # es" "path_elems (l @ p) = (l @ e) # es"
    by (auto simp: pad_def)
  then have "\<not> climbs_from 0 (path_elems (l @ p))"
  proof cases
    case 1
    then show ?thesis by (simp only: name) simp
  next
    case 2
    then have "\<not> climbs_from (Suc 0) es"
      using assms(3) climbs_Suc by (auto split: if_splits)
    with 2 show ?thesis by (simp only: name) simp
  qed
  with abs show ?thesis by blast
qed (use assms in simp)

lemma climbs_append: "climbs_from n (es @ fs) \<Longrightarrow> \<not> climbs_from n es \<Longrightarrow> \<exists>m. climbs_from m fs"
  by (induction es arbitrary: n) (auto split: if_splits nat.splits)

lemma climbs_prefix: "climbs_from n es \<Longrightarrow> climbs_from n (es @ fs)"
  by (induction es arbitrary: n) (auto split: if_splits nat.splits)

lemma path_elems_tail:
  "slash \<notin> set r \<Longrightarrow> r \<noteq> [] \<Longrightarrow>
   \<exists>es e. path_elems (p @ r) = es @ [e @ r] \<and> (path_elems p = es \<or> path_elems p = es @ [e])"
proof (cases "slash \<in> set p")
  case False
  assume r: "slash \<notin> set r" "r \<noteq> []"
  then have "path_elems (p @ r) = [] @ [p @ r]"
    using False by (simp add: path_elems_def split_char_no_occ)
  moreover have "path_elems p = [] \<or> path_elems p = [] @ [p]"
    using False by (simp add: path_elems_def split_char_no_occ)
  ultimately show ?thesis by blast
next
  case True
  assume r: "slash \<notin> set r" "r \<noteq> []"
  from True obtain a b where p: "p = a @ slash # b" "slash \<notin> set b" by (metis split_list_last)
  then have "path_elems (p @ r) = path_elems a @ [b @ r]"
    using r path_elems_append_slash [of a "b @ r"]
    by (simp add: path_elems_def [of "b @ r"] split_char_no_occ)
  moreover have "path_elems p = path_elems a \<or> path_elems p = path_elems a @ [b]"
    using p by (simp add: path_elems_def [of b] split_char_no_occ)
  ultimately show ?thesis by blast
qed

lemma climbs_pad_back:
  assumes "pad r" "\<not> is_abs p" "\<not> climbs_from 0 (path_elems p)"
  shows "\<not> is_abs (p @ r) \<and> \<not> climbs_from 0 (path_elems (p @ r))"
proof (cases "r = []")
  case False
  then obtain cs c where r: "r = cs @ [c]" by (cases r rule: rev_cases) auto
  with assms(1) have c: "c \<noteq> slash" "c \<noteq> CHR ''.''" by (auto simp: pad_def)
  from False assms(1) obtain d ds where "r = d # ds" "d \<noteq> slash" by (cases r) (auto simp: pad_def)
  then have abs: "\<not> is_abs (p @ r)" using assms(2) by (cases p) (auto simp: is_abs_def slash_def)
  obtain es e where e: "path_elems (p @ r) = es @ [e @ r]" "path_elems p = es \<or> path_elems p = es @ [e]"
    using path_elems_tail [of r p] False assms(1) by (auto simp: pad_def)
  have no: "\<not> climbs_from 0 es" using e(2) assms(3) climbs_prefix by metis
  have "last (e @ r) = c" by (simp add: r)
  then have "e @ r \<noteq> ''.''" "e @ r \<noteq> ''..''" using c(2) by (metis last.simps list.distinct(1))+
  then have "\<not> climbs_from m [e @ r]" for m by simp
  then have "\<not> climbs_from 0 (path_elems (p @ r))" unfolding e(1) using no climbs_append by blast
  with abs show ?thesis by blast
qed (use assms in simp)

lemma escapes_pad: "pad l \<Longrightarrow> pad r \<Longrightarrow> escapes (l @ p @ r) \<Longrightarrow> escapes p"
  using climbs_pad_front [of l "p @ r"] climbs_pad_back [of r p] unfolding escapes_def by blast

section \<open>A path word without a violation\<close>

lemma replace_from_none: "c \<notin> set s \<Longrightarrow> replace_from 0 [c] t s = s"
  by (induction s) (auto simp: has_prefix_def)

lemma forward_slashes_id: "CHR 0x5C \<notin> set s \<Longrightarrow> forward_slashes s = s"
  by (simp add: forward_slashes_def replace_all_def replace_from_none)

text \<open>A cleaned relative path starts with a parent step exactly if the path climbs.\<close>

lemma clean_path_climbs:
  assumes "\<not> is_abs p" "climbs_from 0 (path_elems p)"
  shows "clean_path p = ''..'' \<or> has_prefix ''../'' (clean_path p)"
proof -
  obtain fs where fs: "clean_elems False (path_elems p) = ''..'' # fs"
    using clean_elems_climbs [OF assms(2)] by (auto simp: path_elems_ok)
  with assms(1) show ?thesis
    by (cases fs) (auto simp: clean_path_def render_path_def slash_def)
qed

lemma no_violation_no_escape:
  assumes "sandbox_path_violation v = None" "CHR 0x5C \<notin> set v"
    and "\<not> has_prefix ''-'' (trim_quotes (trim_space v))"
  shows "\<not> escapes v"
proof
  assume esc: "escapes v"
  define p where "p = trim_quotes (trim_space v)"
  obtain l r where lr: "v = l @ trim_space v @ r" "pad l" "pad r" using trim_space_pad by blast
  obtain l' r' where lr': "trim_space v = l' @ p @ r'" "pad l'" "pad r'"
    using trim_quotes_pad p_def by blast
  have v: "v = (l @ l') @ p @ r' @ r" using lr(1) lr'(1) by simp
  then have "CHR 0x5C \<notin> set p" using assms(2) by auto
  then have fs: "forward_slashes p = p" by (rule forward_slashes_id)
  have "escapes p" using esc lr lr' v by (metis escapes_pad pad_append)
  moreover have "p \<noteq> []" using \<open>escapes p\<close> by (auto simp: escapes_def)
  moreover have "\<not> has_prefix ''-'' p" using assms(3) by (simp add: p_def)
  ultimately show False
    using assms(1) clean_path_climbs [of p] fs
    by (auto simp: sandbox_path_violation_def Let_def p_def [symmetric] escapes_def is_abs_def split: if_splits)
qed

section \<open>A command without violations\<close>

text \<open>The words that the sandbox rules treat as paths.\<close>

definition node_path_words :: "shell_node \<Rightarrow> shell_word list" where
  "node_path_words n = (case n of
     Redirect op w \<Rightarrow> if write_redirect op \<and> w \<noteq> None then [w] else []
   | CallExpr (c # ws) \<Rightarrow> (case literal_name c of
       None \<Rightarrow> []
     | Some m \<Rightarrow> if command_base m \<in> set sandbox_path_commands
         then filter (\<lambda>w. case literal_word w of None \<Rightarrow> True | Some v \<Rightarrow> v \<noteq> [] \<and> \<not> has_prefix ''-'' v) ws
         else [])
   | _ \<Rightarrow> [])"

definition path_words :: "shell_node list \<Rightarrow> shell_word list" where
  "path_words ns = concat (map node_path_words ns)"

lemma check_argument_mono: "set vs \<subseteq> set (check_argument name vs w)"
  by (auto simp: check_argument_def split: option.split)

lemma foldl_argument_mono: "set vs \<subseteq> set (foldl (check_argument name) vs ws)"
proof (induction ws arbitrary: vs)
  case (Cons w ws)
  from Cons [of "check_argument name vs w"] show ?case using check_argument_mono by fastforce
qed simp

lemma check_node_mono: "set vs \<subseteq> set (check_node vs n)"
  using foldl_argument_mono
  by (cases n) (auto simp: check_redirect_def check_target_def check_call_def Let_def
      split: option.split list.split)

lemma foldl_check_mono: "set vs \<subseteq> set (foldl check_node vs ns)"
proof (induction ns arbitrary: vs)
  case (Cons n ns)
  from Cons [of "check_node vs n"] show ?case using check_node_mono by fastforce
qed simp

lemma foldl_check_Nil:
  "foldl check_node vs ns = [] \<Longrightarrow> n \<in> set ns \<Longrightarrow> check_node [] n = []"
proof (induction ns arbitrary: vs)
  case (Cons m ns)
  have "check_node vs m = []" using foldl_check_mono [of "check_node vs m" ns] Cons.prems(1) by simp
  moreover from this have "vs = []" using check_node_mono [of vs m] by simp
  ultimately show ?case using Cons by auto
qed simp

lemma foldl_argument_Nil:
  "foldl (check_argument name) vs ws = [] \<Longrightarrow> w \<in> set ws \<Longrightarrow> check_argument name [] w = []"
proof (induction ws arbitrary: vs)
  case (Cons m ws)
  have "check_argument name vs m = []"
    using foldl_argument_mono [of "check_argument name vs m" name ws] Cons.prems(1) by simp
  moreover from this have "vs = []" using check_argument_mono [of vs name m] by simp
  ultimately show ?case using Cons by auto
qed simp

lemma add_reason_neq [simp]: "(add_reason r vs = []) = False" "([] = add_reason r vs) = False"
  by (simp, metis add_reason_not_Nil)

lemma node_path_word_ok:
  assumes "check_node [] n = []" "w \<in> set (node_path_words n)"
  shows "\<exists>v. literal_word w = Some v \<and> sandbox_path_violation v = None"
proof (cases n)
  case (Redirect op w')
  with assms show ?thesis
    by (auto simp: node_path_words_def check_redirect_def check_target_def split: if_splits option.splits)
next
  case (CallExpr ws)
  then obtain c cs where cs: "ws = c # cs" using assms(2) by (cases ws) (auto simp: node_path_words_def)
  with CallExpr obtain m where m: "literal_name c = Some m"
    using assms(2) by (cases "literal_name c") (auto simp: node_path_words_def)
  note ws = cs m
  have base: "command_base m \<in> set sandbox_path_commands" and w: "w \<in> set cs"
      and lit: "case literal_word w of None \<Rightarrow> True | Some v \<Rightarrow> v \<noteq> [] \<and> \<not> has_prefix ''-'' v"
    using assms(2) by (simp_all add: CallExpr ws node_path_words_def split: if_splits)
  have "command_base m \<noteq> ''cd''" using base by (auto simp: sandbox_path_commands_def)
  then have "foldl (check_argument (command_base m)) [] cs = []"
    using assms(1) ws base by (simp add: CallExpr check_call_def)
  from foldl_argument_Nil [OF this w] lit show ?thesis
    by (auto simp: check_argument_def split: option.splits if_splits)
qed (use assms in \<open>simp_all add: node_path_words_def\<close>)

lemma path_words_ok:
  assumes "validate_sandbox_command ns = []" "w \<in> set (path_words ns)"
  shows "\<exists>v. literal_word w = Some v \<and> sandbox_path_violation v = None"
  using assms foldl_check_Nil node_path_word_ok
  unfolding validate_sandbox_command_def path_words_def by fastforce

lemma sandbox_not_critical:
  assumes "as_level (apply_sandbox_risk ns a) \<noteq> RiskCritical"
  shows "validate_sandbox_command ns = []"
proof (rule ccontr)
  assume "validate_sandbox_command ns \<noteq> []"
  then have lvl: "as_level (apply_sandbox_risk ns a) =
      (if 0 < compare_risk RiskCritical (as_level a) then RiskCritical else as_level a)"
    by (simp add: apply_sandbox_risk_def)
  then show False using assms by (cases "as_level a") (auto simp: compare_risk_def)
qed

section \<open>Guarded files\<close>

lemma drop_common_prefix: "drop_common bs (bs @ ts) = ([], ts)"
  by (induction bs) (cases ts; simp)+

lemma rel_path_below:
  "path_elems p = path_elems root @ ts \<Longrightarrow> ts \<noteq> [] \<Longrightarrow> rel_path root p = join_str [slash] ts"
  by (auto simp: rel_path_def drop_common_prefix)

text \<open>A rule for the skills below a root matches the files of a skill, by their elements.\<close>

lemma el_skill_rule_matches:
  assumes "abs_clean cwd root = Some r" "abs_clean cwd p = Some q"
    and "path_elems q = path_elems r @ [''go'', n, f]" "trim_space n \<noteq> []"
    and "f = skill_file_name \<or> f = ''main.go''"
  shows "rule_matches eqf cwd (el_skill_guard_rule root) p"
proof -
  have "elem_ok n" using path_elems_ok [of n q] assms(3) by simp
  then have "slash \<notin> set n" by (simp add: elem_ok_def)
  have rel: "rel_path r q = join_str [slash] [''go'', n, f]" by (rule rel_path_below [OF assms(3)]) simp
  have "\<forall>w \<in> set [''go'', n, f]. slash \<notin> set w"
    using assms(5) \<open>slash \<notin> set n\<close> by (auto simp: skill_file_name_def slash_def)
  then have split: "split_char slash (rel_path r q) = [''go'', n, f]"
    unfolding rel by (intro split_join) simp_all
  have "trim_space root \<noteq> []" using assms(1) by (auto simp: abs_clean_def Let_def split: if_splits)
  moreover have "abs_clean cwd (trim_space root) = Some r" using assms(1) by (simp add: abs_clean_def)
  moreover have "el_skill_match q (rel_path r q)" using split assms(4,5) by (simp add: el_skill_match_def)
  moreover have "rel_path r q \<noteq> ''.''" "\<not> has_prefix ''..'' (rel_path r q)" "\<not> is_abs (rel_path r q)"
    by (simp_all add: rel has_prefix_def is_abs_def)
  ultimately show ?thesis
    using assms(2) by (simp add: rule_matches_def el_skill_guard_rule_def Let_def)
qed

lemma check_write_hit:
  "r \<in> set g \<Longrightarrow> rule_matches eqf cwd r p \<Longrightarrow> \<not> notice_blank (gr_write_error r) \<Longrightarrow>
   check_write eqf cwd g p \<noteq> None"
  by (induction g) auto

text \<open>The literal words that a command writes to, as far as the advice looks.\<close>

definition node_written :: "shell_node \<Rightarrow> string list" where
  "node_written n = (case n of
     Redirect op w \<Rightarrow> if write_redirect op then (case literal_word w of None \<Rightarrow> [] | Some v \<Rightarrow> [v]) else []
   | CallExpr (c # ws) \<Rightarrow> (case literal_word c of
       None \<Rightarrow> []
     | Some m \<Rightarrow> (let name = command_base m; args = literal_args ws
         in if name = ''tee'' \<or> name = ''sed'' \<and> has_arg args ''-i'' \<or>
               name = ''perl'' \<and> (has_arg args ''-pi'' \<or> has_arg args ''-pI'')
            then args else []))
   | _ \<Rightarrow> [])"

lemma check_write_args_hit:
  "x \<in> set xs \<Longrightarrow> resolve_shell_literal_path wd x = Some p \<Longrightarrow> gv_write g p \<noteq> None \<Longrightarrow>
   check_write_args g wd xs \<noteq> None"
  by (induction xs) (auto split: option.split)

lemma advise_write_blocks:
  "x \<in> set xs \<Longrightarrow> resolve_shell_literal_path wd x = Some p \<Longrightarrow> gv_write g p \<noteq> None \<Longrightarrow>
   ad_block (advise_write g wd xs a) \<noteq> None"
  using check_write_args_hit [of x xs wd p g] by (auto simp: advise_write_def split: option.split)

lemma inspect_node_blocks:
  assumes "x \<in> set (node_written n)" "resolve_shell_literal_path wd x = Some p" "gv_write g p \<noteq> None"
  shows "ad_block (inspect_node g wd a n) \<noteq> None"
proof (cases n)
  case (Redirect op w)
  have op: "write_redirect op"
    using assms(1) by (cases "write_redirect op") (simp_all add: Redirect node_written_def)
  then have w: "literal_word w = Some x"
    using assms(1) by (cases "literal_word w") (simp_all add: Redirect node_written_def)
  obtain e where "gv_write g p = Some e" using assms(3) by blast
  with op w assms(2) show ?thesis
    by (auto simp: Redirect inspect_node_def inspect_shell_redirect_def Let_def)
next
  case (CallExpr ws)
  then obtain c cs where cs: "ws = c # cs" using assms(1) by (cases ws) (auto simp: node_written_def)
  with CallExpr obtain m where m: "literal_word c = Some m"
    using assms(1) by (cases "literal_word c") (auto simp: node_written_def)
  note ws = cs m
  have wr: "command_base m = ''tee'' \<or> command_base m = ''sed'' \<and> has_arg (literal_args cs) ''-i'' \<or>
        command_base m = ''perl'' \<and> (has_arg (literal_args cs) ''-pi'' \<or> has_arg (literal_args cs) ''-pI'')"
    and x: "x \<in> set (literal_args cs)"
    using assms(1) by (simp_all add: CallExpr ws node_written_def Let_def split: if_splits)
  have "ad_block (inspect_shell_call g wd ws a) \<noteq> None"
    using wr advise_write_blocks [OF x assms(2,3), of a] by (auto simp: ws inspect_shell_call_def Let_def)
  then show ?thesis by (auto simp: CallExpr inspect_node_def)
qed (use assms in \<open>simp_all add: node_written_def\<close>)

lemma foldl_inspect_blocked: "ad_block a \<noteq> None \<Longrightarrow> foldl (inspect_node g wd) a ns = a"
  by (induction ns) (auto simp: inspect_node_def)

lemma analyze_blocks:
  assumes "n \<in> set ns" "x \<in> set (node_written n)" "resolve_shell_literal_path wd x = Some p"
    "gv_write g p \<noteq> None"
  shows "ad_block (analyze_shell_advice g wd ns) \<noteq> None"
proof -
  have "ad_block (foldl (inspect_node g wd) a ns) \<noteq> None" for a
    using assms(1)
  proof (induction ns arbitrary: a)
    case (Cons m ns)
    show ?case
    proof (cases "n = m")
      case True
      from inspect_node_blocks [OF assms(2,3,4)] foldl_inspect_blocked show ?thesis
        by (simp add: True)
    qed (use Cons in auto)
  qed simp
  then show ?thesis by (simp add: analyze_shell_advice_def)
qed

section \<open>The output buffer\<close>

definition buffer_of :: "string \<Rightarrow> output_buffer" where
  "buffer_of s = \<lparr>ob_data = take max_shell_output s, ob_truncated = (max_shell_output < length s)\<rparr>"

lemma buffer_write_of: "fst (buffer_write (buffer_of s) p) = buffer_of (s @ p)"
  by (auto simp: buffer_write_def buffer_of_def min_def)

lemma buffer_writes_of: "foldl (\<lambda>b p. fst (buffer_write b p)) (buffer_of s) ps = buffer_of (s @ concat ps)"
  by (induction ps arbitrary: s) (simp_all add: buffer_write_of)

end
