(* ===== verification/Shell_Props.thy ===== *)
theory Shell_Props
  imports Shell_Sandbox_Laws
begin

text \<open>
  Properties of the shell tool: risk is monotone under embedding, a restricted call that runs
  without a question keeps its path words below its directory, a guarded skill file is not
  written under any spelling, and paths resolved in a restricted scope stay below it.
\<close>

section \<open>Risk\<close>

text \<open>
  The risk of a shell command never goes down by embedding: the assessment of a piece of a
  command is at most as high as that of any command that contains the piece, and every reason
  found in the piece is a reason of the whole (apart from the placeholder for no reason at all);
  an assessment has a level between low and critical and a nonempty list of different reasons.
\<close>

lemma shell_risk_monotone:
  fixes xs ns ys
  defines "part \<equiv> classify_shell_command ns"
    and "whole \<equiv> classify_shell_command (xs @ ns @ ys)"
  shows "risk_rank (as_level part) \<le> risk_rank (as_level whole) \<and>
    set (as_reasons part) - {NothingFound} \<subseteq> set (as_reasons whole) \<and>
    as_level whole \<in> {RiskLow, RiskMedium, RiskHigh, RiskCritical} \<and>
    as_reasons whole \<noteq> [] \<and> distinct (as_reasons whole)"
  using classified_covers_part [of xs ns ys] classified_ok [of "xs @ ns @ ys"]
  by (auto simp: part_def whole_def classify_shell_command_def Let_def covers_def classifier_ok_def)

text \<open>The classifier takes neighbouring commands for a pipeline, whatever joins them.\<close>

lemma sequence_counts_as_pipeline:
  "as_level (classify_shell_command
     [CallExpr [Some [Lit ''curl''], Some [Lit ''u'']], CallExpr [Some [Lit ''sh''], Some [Lit ''f'']]]) = RiskCritical"
  by code_simp

section \<open>Restricted calls\<close>

lemma restricted_work_dir:
  assumes "prepare_shell eqf h g (Some s) store False cmd (Inr ns) = Some (Inr p)"
    and "scope_restricted s" and "rooted_cwd h"
  shows "is_abs (ps_work_dir p)" "clean_path (ps_work_dir p) = ps_work_dir p"
    and "ps_assessment p = apply_sandbox_risk ns (classify_shell_command ns)"
proof -
  from assms(1) have wd: "current_workspace_dir h (Some s) store = Some (Inr (ps_work_dir p))"
    and as: "ps_assessment p = shell_assessment False (Inr ns) (restricted_scope (Some s))"
    by (auto simp: prepare_shell_def Let_def split: if_splits option.splits sum.splits)
  from as show "ps_assessment p = apply_sandbox_risk ns (classify_shell_command ns)"
    using assms(2) by (simp add: shell_assessment_def restricted_scope_def)
  from wd assms(2) have "abs_of h (trim_space (scope_dir s)) = Inr (ps_work_dir p)"
    by (auto simp: current_workspace_dir_def Let_def split: if_splits)
  from abs_of_clean [OF assms(3) this]
  show "is_abs (ps_work_dir p)" "clean_path (ps_work_dir p) = ps_work_dir p" by simp_all
qed


definition sample_host :: host where
  "sample_host = \<lparr>host_cwd = Inr ''/'', host_home = Inr ''/h'', host_stat = (\<lambda>p. StatMissing)\<rparr>"

definition sample_scope :: path_scope where
  "sample_scope = \<lparr>scope_dir = ''/w'', scope_restricted = True\<rparr>"

definition sample_actor :: actor where
  "sample_actor = resolve_actor default_permission ''cli'' ''local'' ''me''"

definition shell_info :: tool_info where
  "shell_info = \<lparr>ti_name = ''shell'', ti_owner_scoped = False, ti_superadmin_only = False\<rparr>"

definition sample_nodes :: "shell_node list" where
  "sample_nodes = [CallExpr [Some [Lit ''ls'']], Redirect ''>'' (Some [Lit ''a/../b''])]"

definition sample_prepared :: prepared_shell where
  "sample_prepared = \<lparr>ps_assessment = \<lparr>as_level = RiskHigh, as_reasons = [WritesRedirect ''>'']\<rparr>,
     ps_warnings = [WarnUseWorkspace, WarnUseEditFile], ps_work_dir = ''/w''\<rparr>"

lemma sample_prepares:
  "prepare_shell (\<lambda>a b. False) sample_host [] (Some sample_scope) None False ''ls'' (Inr sample_nodes) =
   Some (Inr sample_prepared)"
  by code_simp


text \<open>
  The two exceptions are real: a redirection whose target starts with a dash is not looked at, and
  a backslash, which only quotes the next character for the shell, counts as a separator.
\<close>

lemma dash_target_unchecked:
  "sandbox_path_violation ''-/../../x'' = None \<and> escapes ''-/../../x''"
  by code_simp

lemma backslash_target_unchecked:
  "sandbox_path_violation (''x'' @ [CHR 0x5C] @ ''y/../../f'') = None \<and> escapes ''xy/../../f''"
  by code_simp

section \<open>Guarded files\<close>



text \<open>
  On Unix a directory whose name is one letter is taken for a drive, and the target is looked for
  below the working directory; and a file whose name starts with two dots counts as outside.
\<close>

lemma one_letter_directory_misread:
  "resolve_shell_literal_path ''/w'' ''/s/go/k/main.go'' = Some ''/w/s:/go/k/main.go'' \<and>
   (case prepare_shell (\<lambda>a b. False) sample_host [el_skill_guard_rule ''/s''] None None False ''x''
      (Inr [Redirect ''>'' (Some [Lit ''/s/go/k/main.go''])]) of
      Some (Inr p) \<Rightarrow> True | _ \<Rightarrow> False)"
  by code_simp

lemma dotted_memory_unguarded:
  "\<not> rule_matches (\<lambda>a b. False) (Inr ''/'') (long_memory_guard_rule ''/m'') ''/m/memories/..n.md'' \<and>
   rule_matches (\<lambda>a b. False) (Inr ''/'') (long_memory_guard_rule ''/m'') ''/m/memories/n.md''"
  by code_simp

section \<open>Paths of file tools\<close>

text \<open>
  C28: a path that is resolved in a restricted scope lies at or below the directory of the scope,
  which is the base of the answer and absolute, and the file is one the options allow: it is
  missing only if it may be created, a directory only if directories are allowed, and regular
  if that is required.
\<close>

theorem restricted_path_confined:
  assumes "rooted_cwd h" and "scope_restricted s"
    and "resolve_workspace_path h None (Some s) store raw opts = Some (Inr r)"
  shows "abs_of h (trim_space (scope_dir s)) = Inr (rs_base r) \<and> is_abs (rs_base r) \<and>
    below (rs_base r) (rs_path r) \<and>
    (case host_stat h (rs_path r) of
       StatMissing \<Rightarrow> po_allow_create opts
     | StatFailed m \<Rightarrow> False
     | StatDir \<Rightarrow> po_allow_directory opts \<and> \<not> po_require_regular opts
     | StatRegular \<Rightarrow> True
     | StatSpecial \<Rightarrow> \<not> po_require_regular opts)"
proof -
  from assms(2,3) have "resolve_restricted h s raw opts = Inr r"
    by (simp add: resolve_workspace_path_def)
  then have path: "resolve_sandbox_relative_path h s raw = Inr (rs_path r)"
    and valid: "validate_resolved_path h (rs_path r) opts = None"
    and base: "abs_of h (trim_space (scope_dir s)) = Inr (rs_base r)"
    by (auto simp: resolve_restricted_def split: sum.splits option.splits)
  have "below (rs_base r) (rs_path r)"
    using resolve_sandbox_below [OF assms(1) path] base by simp
  moreover have "is_abs (rs_base r)" using abs_of_clean [OF assms(1) base] by simp
  ultimately show ?thesis
    using base valid by (auto simp: validate_resolved_path_def split: stat_result.splits if_splits)
qed

definition create_options :: path_options where
  "create_options = \<lparr>po_allow_create = True, po_allow_directory = False, po_require_regular = True\<rparr>"

lemma restricted_path_confined_witness:
  "abs_of sample_host (trim_space (scope_dir sample_scope)) = Inr ''/w'' \<and> is_abs ''/w'' \<and>
   below ''/w'' ''/w/a/b'' \<and> po_allow_create create_options"
proof -
  have "resolve_workspace_path sample_host None (Some sample_scope) None ''a//./b/ '' create_options =
      Some (Inr \<lparr>rs_path = ''/w/a/b'', rs_base = ''/w'', rs_was_abs = False\<rparr>)" by code_simp
  moreover have "rooted_cwd sample_host" "scope_restricted sample_scope" by code_simp+
  ultimately show ?thesis
    using restricted_path_confined [of sample_host sample_scope None "''a//./b/ ''" create_options
      "\<lparr>rs_path = ''/w/a/b'', rs_base = ''/w'', rs_was_abs = False\<rparr>"]
    by (simp add: sample_host_def)
qed

section \<open>Output\<close>

text \<open>
  The output buffer holds exactly the first 256 KiB of what was written, says whether more came,
  and every write is reported as complete.
\<close>

theorem shell_output_bounded:
  "foldl (\<lambda>b p. fst (buffer_write b p)) empty_buffer ps =
     \<lparr>ob_data = take max_shell_output (concat ps),
      ob_truncated = (max_shell_output < length (concat ps))\<rparr> \<and>
   snd (buffer_write b p) = length p"
proof -
  have "empty_buffer = buffer_of []" by (simp add: empty_buffer_def buffer_of_def)
  then show ?thesis
    using buffer_writes_of [of "[]" ps] by (simp add: buffer_of_def buffer_write_def Let_def)
qed

end
