(* ===== verification/Llm_Retry.thy ===== *)
theory Llm_Retry
  imports Elbot_Prelude "HOL-Library.Word"
begin

text \<open>
  Failures of model calls and their retries (\<open>internal/llm/error.go\<close>, \<open>internal/llm/retry.go\<close>):
  the classification of provider, transport and stream errors, and the loop that repeats a call
  within its budget.  A delay is a 64-bit \<open>time.Duration\<close>.  What a call and the context answer in
  each attempt is an argument.
\<close>

section \<open>Errors\<close>

text \<open>
  An error is a chain: leaves of the standard library, DNS errors, layers that implement
  \<open>net.Error\<close> (with the answer of \<open>Timeout\<close>), wrapped texts, and the classified \<open>CallError\<close>.
\<close>

datatype error_kind =
    ErrorUnknown | ErrorCanceled | ErrorTimeout | ErrorDisconnected | ErrorRateLimited
  | ErrorTemporaryFailure | ErrorRequestRejected | ErrorPreviousResponseUnavailable | ErrorStreamFailure

datatype errno =
  ECONNRESET | ECONNABORTED | ECONNREFUSED | EPIPE | ENETUNREACH | EHOSTUNREACH | ETIMEDOUT | EAGAIN | EOTHER nat

datatype llm_error =
    ContextCanceled
  | ContextDeadline
  | IoEOF
  | IoUnexpectedEOF
  | SysErrno errno
  | OtherError string
  | DnsError bool bool "llm_error option"
  | NetLayer bool llm_error
  | WrapError string llm_error
  | CallError error_kind bool llm_error

fun errno_timeout :: "errno \<Rightarrow> bool" where
  "errno_timeout ETIMEDOUT = True"
| "errno_timeout EAGAIN = True"
| "errno_timeout e = False"

text \<open>The chain of an error, outermost first (\<open>errors.Unwrap\<close>).\<close>

fun error_chain :: "llm_error \<Rightarrow> llm_error list" where
  "error_chain (DnsError t p e) = DnsError t p e # (case e of None \<Rightarrow> [] | Some f \<Rightarrow> error_chain f)"
| "error_chain (NetLayer t e) = NetLayer t e # error_chain e"
| "error_chain (WrapError m e) = WrapError m e # error_chain e"
| "error_chain (CallError k r e) = CallError k r e # error_chain e"
| "error_chain e = [e]"

definition llm_error_is :: "llm_error \<Rightarrow> llm_error \<Rightarrow> bool" where
  "llm_error_is e target = (target \<in> set (error_chain e))"

fun net_timeout_of :: "llm_error \<Rightarrow> bool option" where
  "net_timeout_of ContextDeadline = Some True"
| "net_timeout_of (SysErrno n) = Some (errno_timeout n)"
| "net_timeout_of (DnsError t p e) = Some t"
| "net_timeout_of (NetLayer t e) = Some t"
| "net_timeout_of e = None"

fun dns_temporary_of :: "llm_error \<Rightarrow> bool option" where
  "dns_temporary_of (DnsError t p e) = Some p"
| "dns_temporary_of e = None"

fun call_error_of :: "llm_error \<Rightarrow> llm_error option" where
  "call_error_of (CallError k r e) = Some (CallError k r e)"
| "call_error_of e = None"

text \<open>\<open>errors.As\<close>: the first layer of the chain that fits.\<close>

definition error_as :: "(llm_error \<Rightarrow> 'a option) \<Rightarrow> llm_error \<Rightarrow> 'a option" where
  "error_as f e = (case List.map_filter f (error_chain e) of [] \<Rightarrow> None | x # xs \<Rightarrow> Some x)"

section \<open>Classification\<close>

definition map_stream_error :: "llm_error \<Rightarrow> llm_error" where
  "map_stream_error cause = (case error_as call_error_of cause of
     Some failure \<Rightarrow> failure
   | None \<Rightarrow>
       if llm_error_is cause ContextCanceled then CallError ErrorCanceled False cause
       else CallError ErrorStreamFailure True cause)"

definition client_status :: "int \<Rightarrow> bool" where
  "client_status status \<longleftrightarrow> status = 0 \<or> status = 400 \<or> status = 404"

definition kind_of_code :: "int \<Rightarrow> string \<Rightarrow> string \<Rightarrow> error_kind" where
  "kind_of_code status param v =
     (if v \<in> set [''previous_response_not_found'', ''previous_response_id_not_found'',
          ''invalid_previous_response_id''] then
        (if client_status status \<and> (param = [] \<or> param = ''previous_response_id'')
         then ErrorPreviousResponseUnavailable else ErrorUnknown)
      else if v \<in> set [''response_not_found'', ''not_found''] then
        (if client_status status \<and> param = ''previous_response_id''
         then ErrorPreviousResponseUnavailable else ErrorUnknown)
      else if v \<in> set [''request_timeout'', ''timeout_error''] then ErrorTimeout
      else if v \<in> set [''rate_limit_exceeded'', ''rate_limit_error''] then ErrorRateLimited
      else if v \<in> set [''server_error'', ''internal_server_error'', ''service_unavailable'',
          ''overloaded_error''] then ErrorTemporaryFailure
      else if v \<in> set [''invalid_request_error'', ''invalid_api_key'', ''authentication_error'',
          ''permission_error'', ''permission_denied'', ''insufficient_quota'',
          ''billing_hard_limit_reached''] then ErrorRequestRejected
      else ErrorUnknown)"

fun first_known :: "(string \<Rightarrow> error_kind) \<Rightarrow> string list \<Rightarrow> error_kind" where
  "first_known f [] = ErrorUnknown"
| "first_known f (v # vs) = (if f v \<noteq> ErrorUnknown then f v else first_known f vs)"

definition kind_of_status :: "int \<Rightarrow> error_kind" where
  "kind_of_status status =
     (if status = 408 then ErrorTimeout
      else if status = 429 then ErrorRateLimited
      else if status = 409 \<or> status = 425 \<or> 500 \<le> status \<and> status < 600 then ErrorTemporaryFailure
      else if 400 \<le> status \<and> status < 500 then ErrorRequestRejected
      else ErrorUnknown)"

definition map_provider_error :: "int \<Rightarrow> string \<Rightarrow> string \<Rightarrow> string \<Rightarrow> llm_error \<Rightarrow> llm_error" where
  "map_provider_error status code error_type param cause =
     (let known = first_known (kind_of_code status param) [code, error_type];
          kind = (if known = ErrorUnknown then kind_of_status status else known)
      in CallError kind (kind = ErrorTimeout \<or> kind = ErrorDisconnected \<or> kind = ErrorRateLimited \<or>
           kind = ErrorTemporaryFailure) cause)"

definition disconnect_errors :: "llm_error list" where
  "disconnect_errors = [IoEOF, IoUnexpectedEOF, SysErrno ECONNRESET, SysErrno ECONNABORTED,
     SysErrno ECONNREFUSED, SysErrno EPIPE, SysErrno ENETUNREACH, SysErrno EHOSTUNREACH]"

definition map_transport_error :: "llm_error \<Rightarrow> llm_error" where
  "map_transport_error cause =
     (let kind = (if llm_error_is cause ContextCanceled then ErrorCanceled
            else if error_as net_timeout_of cause = Some True then ErrorTimeout
            else if error_as dns_temporary_of cause = Some True then ErrorTemporaryFailure
            else if list_ex (llm_error_is cause) disconnect_errors then ErrorDisconnected
            else ErrorUnknown)
      in CallError kind (kind = ErrorTimeout \<or> kind = ErrorDisconnected \<or> kind = ErrorTemporaryFailure) cause)"

section \<open>The retry loop\<close>

record retry_options =
  ry_max :: int
  ry_initial :: "64 word"
  ry_notify :: bool

record retry_event =
  re_attempt :: int
  re_max :: int
  re_delay :: "64 word"
  re_err :: llm_error
  re_kind :: error_kind

text \<open>
  The answers of one attempt: the context before the call, the call, the context after a failure,
  and what ends the wait, the timer (\<open>None\<close>) or the context.
\<close>

record 'r attempt =
  at_before :: "llm_error option"
  at_result :: 'r
  at_error :: "llm_error option"
  at_after :: "llm_error option"
  at_wait :: "llm_error option"

record 'r retry_run =
  rr_result :: 'r
  rr_error :: "llm_error option"
  rr_calls :: nat
  rr_waits :: "64 word list"
  rr_events :: "retry_event list"

definition retryable_error :: "llm_error \<Rightarrow> error_kind option" where
  "retryable_error e = (case error_as call_error_of e of
     Some (CallError k True c) \<Rightarrow> Some k | _ \<Rightarrow> None)"

text \<open>\<open>delay <= time.Duration(1<<63-1)/2\<close>, then \<open>delay *= 2\<close>.\<close>

definition next_delay :: "64 word \<Rightarrow> 64 word" where
  "next_delay d = (if sint d \<le> 4611686018427387903 then d * 2 else d)"

definition publish_retry :: "retry_options \<Rightarrow> int \<Rightarrow> 64 word \<Rightarrow> llm_error \<Rightarrow> error_kind \<Rightarrow> 'r retry_run \<Rightarrow> 'r retry_run" where
  "publish_retry opts n delay e k r =
     (if ry_notify opts
      then r\<lparr>rr_events := rr_events r @ [\<lparr>re_attempt = n + 1, re_max = ry_max opts, re_delay = delay,
             re_err = e, re_kind = k\<rparr>]\<rparr>
      else r)"

function retry_loop :: "retry_options \<Rightarrow> (nat \<Rightarrow> 'r attempt) \<Rightarrow> nat \<Rightarrow> 64 word \<Rightarrow> 'r retry_run \<Rightarrow> 'r retry_run" where
  "retry_loop opts env n delay r =
     (if ry_max opts < int n then r
      else (case at_before (env n) of
        Some e \<Rightarrow> r\<lparr>rr_error := Some e\<rparr>
      | None \<Rightarrow>
          (let r1 = r\<lparr>rr_result := at_result (env n), rr_error := at_error (env n), rr_calls := rr_calls r + 1\<rparr>
           in case at_error (env n) of
                None \<Rightarrow> r1
              | Some e \<Rightarrow>
                  (case at_after (env n) of
                     Some c \<Rightarrow> r1\<lparr>rr_error := Some c\<rparr>
                   | None \<Rightarrow>
                       (case retryable_error e of
                          None \<Rightarrow> r1
                        | Some k \<Rightarrow>
                            if int n = ry_max opts then r1
                            else (let r2 = publish_retry opts (int n) delay e k r1;
                                      r3 = r2\<lparr>rr_waits := rr_waits r2 @ [delay]\<rparr>
                                  in case at_wait (env n) of
                                       Some c \<Rightarrow> r3\<lparr>rr_error := Some c\<rparr>
                                     | None \<Rightarrow> retry_loop opts env (n + 1) (next_delay delay) r3))))))"
  by pat_completeness auto
termination
  by (relation "measure (\<lambda>(opts, env, n, delay, r). nat (ry_max opts + 1 - int n))") auto

declare retry_loop.simps [simp del]

definition retry :: "retry_options \<Rightarrow> (nat \<Rightarrow> 'r attempt) \<Rightarrow> 'r \<Rightarrow> 'r retry_run" where
  "retry opts env zero = retry_loop opts env 0 (ry_initial opts)
     \<lparr>rr_result = zero, rr_error = None, rr_calls = 0, rr_waits = [], rr_events = []\<rparr>"

section \<open>Which failures are retried\<close>

definition retry_kinds :: "error_kind set" where
  "retry_kinds = {ErrorTimeout, ErrorDisconnected, ErrorRateLimited, ErrorTemporaryFailure}"

lemma retryable_CallError [simp]: "retryable_error (CallError k r c) = (if r then Some k else None)"
  by (simp add: retryable_error_def error_as_def List.map_filter_def)

lemma provider_retry_kinds:
  "retryable_error (map_provider_error s c t p e) = Some k \<Longrightarrow> k \<in> retry_kinds"
  by (auto simp: map_provider_error_def Let_def retry_kinds_def split: if_splits)

lemma transport_retry_kinds:
  "retryable_error (map_transport_error e) = Some k \<Longrightarrow> k \<in> retry_kinds - {ErrorRateLimited}"
  by (auto simp: map_transport_error_def Let_def retry_kinds_def split: if_splits)

lemma cancel_not_retried:
  "llm_error_is e ContextCanceled \<Longrightarrow> retryable_error (map_transport_error e) = None"
  "llm_error_is e ContextCanceled \<Longrightarrow> error_as call_error_of e = None \<Longrightarrow>
   retryable_error (map_stream_error e) = None"
  by (simp_all add: map_transport_error_def map_stream_error_def)

text \<open>A classification made at the source is kept by the stream.\<close>

lemma stream_keeps_classification:
  "map_stream_error (WrapError m (CallError k r c)) = CallError k r c"
  by (simp add: map_stream_error_def error_as_def List.map_filter_def)

lemma map_filter_subset: "set (List.map_filter f xs) \<subseteq> {y. \<exists>x. f x = Some y}"
  by (auto simp: List.map_filter_def)

section \<open>Delays\<close>

lemma sint_double:
  assumes "0 < sint (d :: 64 word)" "sint d \<le> 4611686018427387903"
  shows "sint (d * 2) = sint d * 2"
proof -
  have "sint (d * 2) = signed_take_bit 63 (sint d * 2)"
    by (simp add: sint_word_ariths)
  also have "\<dots> = sint d * 2"
    using assms by (intro signed_take_bit_int_eq_self) simp_all
  finally show ?thesis .
qed

lemma next_delay_sint:
  "0 < sint d \<Longrightarrow> sint (next_delay d) = (if sint d \<le> 4611686018427387903 then sint d * 2 else sint d)"
  by (simp add: next_delay_def sint_double)

lemma delay_power_pos: "0 < sint d \<Longrightarrow> 0 < sint ((next_delay ^^ k) d)"
  by (induction k) (simp_all add: next_delay_sint)

text \<open>The k-th delay is the k-fold doubling, or saturated above a quarter of the range.\<close>

lemma delay_power:
  assumes "0 < sint d"
  shows "sint ((next_delay ^^ k) d) = sint d * 2 ^ k \<or>
    4611686018427387903 < sint ((next_delay ^^ k) d) \<and> sint ((next_delay ^^ k) d) \<le> sint d * 2 ^ k"
proof (induction k)
  case (Suc k)
  have pos: "0 < sint ((next_delay ^^ k) d)" by (rule delay_power_pos [OF assms])
  have le: "sint ((next_delay ^^ k) d) \<le> sint d * 2 ^ k" using Suc by auto
  have "sint d * 2 ^ k \<le> sint d * 2 ^ Suc k" using assms by simp
  with le have le': "sint ((next_delay ^^ k) d) \<le> sint d * 2 ^ Suc k" by linarith
  show ?case
  proof (cases "sint ((next_delay ^^ k) d) \<le> 4611686018427387903")
    case True
    with Suc have "sint ((next_delay ^^ k) d) = sint d * 2 ^ k" by auto
    with True pos show ?thesis by (simp add: next_delay_sint)
  next
    case False
    with pos le' show ?thesis by (simp add: next_delay_sint)
  qed
qed simp

section \<open>What a run has done\<close>

text \<open>
  The invariant of the loop before attempt \<open>n\<close>: every call so far failed with a retryable error,
  and the delays are the iterates of the first one.
\<close>

definition retry_inv :: "retry_options \<Rightarrow> (nat \<Rightarrow> 'r attempt) \<Rightarrow> nat \<Rightarrow> 64 word \<Rightarrow> 'r retry_run \<Rightarrow> bool" where
  "retry_inv opts env n delay r \<longleftrightarrow>
     rr_calls r = n \<and> delay = (next_delay ^^ n) (ry_initial opts) \<and>
     rr_waits r = map (\<lambda>k. (next_delay ^^ k) (ry_initial opts)) [0..<n] \<and>
     map re_delay (rr_events r) = (if ry_notify opts then rr_waits r else []) \<and>
     (\<forall>i < n. \<exists>e k. at_error (env i) = Some e \<and> retryable_error e = Some k)"

definition run_ok :: "retry_options \<Rightarrow> (nat \<Rightarrow> 'r attempt) \<Rightarrow> 'r retry_run \<Rightarrow> bool" where
  "run_ok opts env r \<longleftrightarrow>
     int (rr_calls r) \<le> ry_max opts + 1 \<and> int (length (rr_waits r)) \<le> ry_max opts \<and>
     length (rr_waits r) \<le> rr_calls r \<and> rr_calls r \<le> length (rr_waits r) + 1 \<and>
     rr_waits r = map (\<lambda>k. (next_delay ^^ k) (ry_initial opts)) [0..<length (rr_waits r)] \<and>
     map re_delay (rr_events r) = (if ry_notify opts then rr_waits r else []) \<and>
     (\<forall>i < length (rr_waits r). \<exists>e k. at_error (env i) = Some e \<and> retryable_error e = Some k)"

lemma publish_simps [simp]:
  "rr_calls (publish_retry opts n d e k r) = rr_calls r"
  "rr_waits (publish_retry opts n d e k r) = rr_waits r"
  "rr_result (publish_retry opts n d e k r) = rr_result r"
  "map re_delay (rr_events (publish_retry opts n d e k r)) =
     map re_delay (rr_events r) @ (if ry_notify opts then [d] else [])"
  by (simp_all add: publish_retry_def)

text \<open>How a run ends, as a function of the last attempt.\<close>

definition run_end :: "retry_options \<Rightarrow> (nat \<Rightarrow> 'r attempt) \<Rightarrow> 'r retry_run \<Rightarrow> bool" where
  "run_end opts env r \<longleftrightarrow>
     (case rr_error r of
        None \<Rightarrow> 0 < rr_calls r \<and> at_error (env (rr_calls r - 1)) = None
      | Some e \<Rightarrow>
          at_before (env (rr_calls r)) = Some e \<or>
          0 < rr_calls r \<and>
            (at_after (env (rr_calls r - 1)) = Some e \<or> at_wait (env (rr_calls r - 1)) = Some e \<or>
             at_error (env (rr_calls r - 1)) = Some e \<and>
               (retryable_error e = None \<or> int (rr_calls r) = ry_max opts + 1))) \<and>
     (0 < rr_calls r \<longrightarrow> rr_result r = at_result (env (rr_calls r - 1)))"

definition called :: "'r attempt \<Rightarrow> 'r retry_run \<Rightarrow> 'r retry_run" where
  "called a r = r\<lparr>rr_result := at_result a, rr_error := at_error a, rr_calls := rr_calls r + 1\<rparr>"

definition waited :: "retry_options \<Rightarrow> int \<Rightarrow> 64 word \<Rightarrow> llm_error \<Rightarrow> error_kind \<Rightarrow> 'r retry_run \<Rightarrow> 'r retry_run" where
  "waited opts n d e k r = (let r2 = publish_retry opts n d e k r in r2\<lparr>rr_waits := rr_waits r2 @ [d]\<rparr>)"

text \<open>The ways an attempt within the budget can go.\<close>

lemma retry_loop_cases [consumes 1, case_names cancelled success cancelled_call final cancelled_wait again]:
  assumes "int n \<le> ry_max opts"
  obtains
    (cancelled) c where "at_before (env n) = Some c" "retry_loop opts env n d r = r\<lparr>rr_error := Some c\<rparr>"
  | (success) "at_error (env n) = None" "retry_loop opts env n d r = called (env n) r"
  | (cancelled_call) e c where "at_error (env n) = Some e" "at_after (env n) = Some c"
      "retry_loop opts env n d r = (called (env n) r)\<lparr>rr_error := Some c\<rparr>"
  | (final) e where "at_error (env n) = Some e" "retryable_error e = None \<or> int n = ry_max opts"
      "retry_loop opts env n d r = called (env n) r"
  | (cancelled_wait) e k c where "at_error (env n) = Some e" "retryable_error e = Some k" "int n < ry_max opts"
      "at_wait (env n) = Some c"
      "retry_loop opts env n d r = (waited opts (int n) d e k (called (env n) r))\<lparr>rr_error := Some c\<rparr>"
  | (again) e k where "at_error (env n) = Some e" "retryable_error e = Some k" "int n < ry_max opts"
      "retry_loop opts env n d r =
       retry_loop opts env (n + 1) (next_delay d) (waited opts (int n) d e k (called (env n) r))"
proof -
  have step: "retry_loop opts env n d r = (case at_before (env n) of
        Some e \<Rightarrow> r\<lparr>rr_error := Some e\<rparr>
      | None \<Rightarrow> (case at_error (env n) of
          None \<Rightarrow> called (env n) r
        | Some e \<Rightarrow> (case at_after (env n) of
            Some c \<Rightarrow> (called (env n) r)\<lparr>rr_error := Some c\<rparr>
          | None \<Rightarrow> (case retryable_error e of
              None \<Rightarrow> called (env n) r
            | Some k \<Rightarrow> if int n = ry_max opts then called (env n) r
                else (let r3 = waited opts (int n) d e k (called (env n) r)
                      in case at_wait (env n) of
                           Some c \<Rightarrow> r3\<lparr>rr_error := Some c\<rparr>
                         | None \<Rightarrow> retry_loop opts env (n + 1) (next_delay d) r3)))))"
    unfolding retry_loop.simps [of opts env n d r] called_def waited_def Let_def using assms by simp
  show thesis
  proof (cases "at_before (env n)")
    case (Some c)
    with step cancelled show ?thesis by simp
  next
    case before: None
    show ?thesis
    proof (cases "at_error (env n)")
      case None
      with before step success show ?thesis by simp
    next
      case err: (Some e)
      consider c where "at_after (env n) = Some c"
        | "at_after (env n) = None" "retryable_error e = None \<or> int n = ry_max opts"
        | k where "at_after (env n) = None" "retryable_error e = Some k" "int n < ry_max opts"
        using assms by fastforce
      then show ?thesis
      proof cases
        case 1
        with before err step cancelled_call show ?thesis by simp
      next
        case 2
        with before err step final show ?thesis by (auto split: option.splits)
      next
        case 3
        with before err step cancelled_wait again show ?thesis
          by (cases "at_wait (env n)") (simp_all add: Let_def)
      qed
    qed
  qed
qed

lemma called_simps [simp]:
  "rr_result (called a r) = at_result a" "rr_error (called a r) = at_error a"
  "rr_calls (called a r) = rr_calls r + 1" "rr_waits (called a r) = rr_waits r"
  "rr_events (called a r) = rr_events r"
  by (simp_all add: called_def)

lemma waited_simps [simp]:
  "rr_result (waited opts n d e k r) = rr_result r" "rr_calls (waited opts n d e k r) = rr_calls r"
  "rr_waits (waited opts n d e k r) = rr_waits r @ [d]"
  "map re_delay (rr_events (waited opts n d e k r)) =
     map re_delay (rr_events r) @ (if ry_notify opts then [d] else [])"
  by (simp_all add: waited_def Let_def)

lemma retry_inv_step:
  "retry_inv opts env n d r \<Longrightarrow> at_error (env n) = Some e \<Longrightarrow> retryable_error e = Some k \<Longrightarrow>
   retry_inv opts env (n + 1) (next_delay d) (waited opts m d e k (called (env n) r))"
  by (auto simp: retry_inv_def less_Suc_eq)

lemma retry_loop_ok:
  assumes "retry_inv opts env n d r" "int n \<le> ry_max opts"
    and "0 < n \<longrightarrow> rr_result r = at_result (env (n - 1))"
  shows "run_ok opts env (retry_loop opts env n d r) \<and> run_end opts env (retry_loop opts env n d r)"
  using assms
proof (induction "nat (ry_max opts - int n)" arbitrary: n d r)
  case (0 n d r)
  then have n: "int n = ry_max opts" by simp
  note inv = "0.prems"(1) [unfolded retry_inv_def]
  show ?case
    by (rule retry_loop_cases [OF "0.prems"(2), of env d r])
      (use inv n "0.prems"(3) in \<open>auto simp: run_ok_def run_end_def\<close>)
next
  case (Suc i n d r)
  note inv = "Suc.prems"(1) [unfolded retry_inv_def]
  have lt: "int n < ry_max opts" using Suc.hyps(2) by simp
  from Suc.prems(2) show ?case
  proof (cases rule: retry_loop_cases [where env = env and d = d and r = r])
    case (again e k)
    have "i = nat (ry_max opts - int (n + 1))" using Suc.hyps(2) by simp
    from Suc.hyps(1) [OF this retry_inv_step [OF Suc.prems(1) again(1,2)]] again(3)
    show ?thesis unfolding again(4) by simp
  next
    case (cancelled_wait e k c)
    from retry_inv_step [OF Suc.prems(1) cancelled_wait(1,2), unfolded retry_inv_def, of "int n"] lt
    show ?thesis unfolding cancelled_wait(5) using cancelled_wait(4) by (auto simp: run_ok_def run_end_def)
  qed (use inv lt Suc.prems(3) in \<open>auto simp: run_ok_def run_end_def\<close>)
qed

section \<open>The budget\<close>

text \<open>
  C29: a retried call is made at most once more than the number of retries, and waits between
  two calls only: the waits are the iterated doubling of the first delay, each positive and the
  exact power of two times the first one until they saturate above a quarter of the range of
  a 64-bit duration, never wrapping round; a wait follows only a failure marked as retryable.  The
  run returns the result of its last call: without error exactly if that call succeeded, and
  otherwise with an error of the context or the failure of the last call, which is then final or
  has used up the budget.
\<close>

theorem retry_within_budget:
  fixes opts env zero
  assumes "0 \<le> ry_max opts" and "0 < sint (ry_initial opts)"
  defines "run \<equiv> retry opts env zero"
  shows "run_ok opts env run \<and> run_end opts env run \<and>
    list_all (\<lambda>d. 0 < sint d) (rr_waits run) \<and>
    (k < length (rr_waits run) \<longrightarrow>
       sint (rr_waits run ! k) = sint (ry_initial opts) * 2 ^ k \<or>
       4611686018427387903 < sint (rr_waits run ! k) \<and>
         sint (rr_waits run ! k) \<le> sint (ry_initial opts) * 2 ^ k)"
proof -
  have ok: "run_ok opts env run" and ends: "run_end opts env run"
    using retry_loop_ok [of opts env 0 "ry_initial opts"
        "\<lparr>rr_result = zero, rr_error = None, rr_calls = 0, rr_waits = [], rr_events = []\<rparr>"] assms(1)
    by (simp_all add: run_def retry_def retry_inv_def)
  define n where "n = length (rr_waits run)"
  from ok have waits: "rr_waits run = map (\<lambda>k. (next_delay ^^ k) (ry_initial opts)) [0..<n]"
    by (simp add: run_ok_def n_def)
  have "list_all (\<lambda>d. 0 < sint d) (rr_waits run)"
    unfolding waits using delay_power_pos [OF assms(2)] by (simp add: list_all_iff)
  moreover have "rr_waits run ! k = (next_delay ^^ k) (ry_initial opts)" if "k < n"
    using that by (simp add: waits)
  ultimately show ?thesis using ok ends delay_power [OF assms(2), of k] by (simp add: n_def)
qed

definition sample_attempts :: "nat \<Rightarrow> nat attempt" where
  "sample_attempts n = \<lparr>at_before = None, at_result = n,
     at_error = (if n < 2 then Some (map_provider_error 503 [] [] [] (OtherError ''busy'')) else None),
     at_after = None, at_wait = None\<rparr>"

definition sample_retry_options :: retry_options where
  "sample_retry_options = \<lparr>ry_max = 3, ry_initial = 5, ry_notify = True\<rparr>"

lemma sample_run:
  "retry sample_retry_options sample_attempts 7 = \<lparr>rr_result = 2, rr_error = None, rr_calls = 3,
     rr_waits = [5, 10], rr_events = [
       \<lparr>re_attempt = 1, re_max = 3, re_delay = 5, re_err = map_provider_error 503 [] [] [] (OtherError ''busy''),
        re_kind = ErrorTemporaryFailure\<rparr>,
       \<lparr>re_attempt = 2, re_max = 3, re_delay = 10, re_err = map_provider_error 503 [] [] [] (OtherError ''busy''),
        re_kind = ErrorTemporaryFailure\<rparr>]\<rparr>"
  by code_simp

lemma retry_within_budget_witness:
  "run_ok sample_retry_options sample_attempts (retry sample_retry_options sample_attempts 7) \<and>
   run_end sample_retry_options sample_attempts (retry sample_retry_options sample_attempts 7) \<and>
   list_all (\<lambda>d. 0 < sint d) [5, 10 :: 64 word] \<and> sint (10 :: 64 word) = 5 * 2"
  using retry_within_budget [of sample_retry_options sample_attempts 7 1]
  by (simp add: sample_run) (simp add: sample_retry_options_def)

text \<open>
  A negative number of retries, which the options exclude, makes no call and reports success.
\<close>

lemma negative_budget_no_call:
  "ry_max opts < 0 \<Longrightarrow> rr_calls (retry opts env zero) = 0 \<and> rr_error (retry opts env zero) = None"
  by (simp add: retry_def retry_loop.simps)

end
