(* ===== verification/Resident_Memory.thy ===== *)
theory Resident_Memory
  imports Session_Admission Go_Strings
begin

text \<open>
  The resident memory store (\<open>internal/memory/resident/store.go\<close>): a TOML file of memories by
  platform and user, with a cache keyed by the state of the file, size limits in words, and the
  migration of the older format.  Every operation runs under the store's mutex, so it is one step
  on the store and the disk.  What each call of the operating system answers is an argument
  (\<open>io\<close>), the TOML package and the Unicode tables are the functions of a \<open>codec\<close>.
\<close>

section \<open>Data\<close>

record memory_limits =
  lim_core :: int
  lim_normal :: int

record resident_memory =
  me_core :: string
  me_normal :: string
  me_created :: string
  me_updated :: string

type_synonym memory_table = "(string \<times> resident_memory) list"
type_synonym toml_file = "(string \<times> memory_table) list"

text \<open>The older format: one list of records with a combined actor identifier.\<close>

record old_memory =
  old_platform :: string
  old_actor :: string
  old_core :: string
  old_normal :: string
  old_created :: string
  old_updated :: string

datatype memory_error =
    MemoryNotFound
  | MemoryPathRequired
  | NormalContentRequired
  | PartTooLong string int int
  | AmbiguousOwner string string
  | UnrecoverableOwner string
  | IncompleteOwner actor_identity
  | DuplicateOwner actor_identity
  | MemoryCancelled go_error
  | MemoryIo go_error

record codec =
  co_marshal :: "string \<Rightarrow> memory_table \<Rightarrow> go_error + string"
  co_decode :: "string \<Rightarrow> toml_file option"
  co_decode_old :: "string \<Rightarrow> go_error + old_memory list"
  co_word_rune :: "nat \<Rightarrow> bool"

definition not_found_memory :: resident_memory where
  "not_found_memory = \<lparr>me_core = [], me_normal = [], me_created = [], me_updated = []\<rparr>"

section \<open>Counting words\<close>

definition is_cjk :: "nat \<Rightarrow> bool" where
  "is_cjk rune \<longleftrightarrow> (let r = int rune in
     0x3400 \<le> r \<and> r \<le> 0x4DBF \<or> 0x4E00 \<le> r \<and> r \<le> 0x9FFF \<or> 0xF900 \<le> r \<and> r \<le> 0xFAFF \<or>
     0x3040 \<le> r \<and> r \<le> 0x30FF \<or> 0xAC00 \<le> r \<and> r \<le> 0xD7AF)"

fun count_runes :: "(nat \<Rightarrow> bool) \<Rightarrow> bool \<Rightarrow> nat list \<Rightarrow> int" where
  "count_runes word in_word [] = 0"
| "count_runes word in_word (r # rs) =
     (if is_cjk r then 1 + count_runes word False rs
      else if word r then (if in_word then 0 else 1) + count_runes word True rs
      else count_runes word False rs)"

definition count_units :: "codec \<Rightarrow> string \<Rightarrow> int" where
  "count_units co s = count_runes (co_word_rune co) False (runes s)"

definition validate_part :: "codec \<Rightarrow> string \<Rightarrow> int \<Rightarrow> string \<Rightarrow> memory_error option" where
  "validate_part co content limit part =
     (if limit < count_units co content then Some (PartTooLong part (count_units co content) limit)
      else None)"

definition default_core_units :: int where "default_core_units = 200"
definition default_normal_units :: int where "default_normal_units = 300"

definition normalize_limits :: "memory_limits \<Rightarrow> memory_limits" where
  "normalize_limits l =
     \<lparr>lim_core = (if lim_core l \<le> 0 then default_core_units else lim_core l),
      lim_normal = (if lim_normal l \<le> 0 then default_normal_units else lim_normal l)\<rparr>"

section \<open>Store, disk and answers of the system\<close>

record file_state =
  fs_exists :: bool
  fs_size :: nat
  fs_mod_time :: int

record memory_store =
  st_path :: string
  st_limits :: memory_limits
  st_cache :: "(toml_file \<times> file_state) option"

record memory_disk =
  dk_file :: "(string \<times> int) option"
  dk_backup :: "string option"

text \<open>\<open>io_mtime\<close> is the modification time that a file written during the step gets.\<close>

record io =
  io_stat :: "go_error option"
  io_read :: "go_error option"
  io_backup_open :: "go_error option"
  io_backup_write :: "go_error option"
  io_mkdir :: "go_error option"
  io_temp :: "go_error option"
  io_write :: "go_error option"
  io_sync :: "go_error option"
  io_close :: "go_error option"
  io_rename :: "go_error option"
  io_restat :: "go_error option"
  io_mtime :: int
  io_now :: string

definition new_store :: "string \<Rightarrow> memory_limits \<Rightarrow> memory_store" where
  "new_store path limits = \<lparr>st_path = path, st_limits = normalize_limits limits, st_cache = None\<rparr>"

definition current_file_state :: "memory_disk \<Rightarrow> file_state" where
  "current_file_state d = (case dk_file d of
     None \<Rightarrow> \<lparr>fs_exists = False, fs_size = 0, fs_mod_time = 0\<rparr>
   | Some (b, t) \<Rightarrow> \<lparr>fs_exists = True, fs_size = length b, fs_mod_time = t\<rparr>)"

definition same_file_state :: "file_state \<Rightarrow> file_state \<Rightarrow> bool" where
  "same_file_state a b \<longleftrightarrow> fs_exists a = fs_exists b \<and> fs_size a = fs_size b \<and> fs_mod_time a = fs_mod_time b"

section \<open>Entries\<close>

definition table_of :: "toml_file \<Rightarrow> string \<Rightarrow> memory_table" where
  "table_of f p = (case map_of f p of None \<Rightarrow> [] | Some t \<Rightarrow> t)"

definition entry_of :: "toml_file \<Rightarrow> actor_identity \<Rightarrow> resident_memory option" where
  "entry_of f a = map_of (table_of f (ac_platform a)) (ac_id a)"

section \<open>Saving\<close>

text \<open>The bytes of a file: the tables in the order of their platforms, each without its first line.\<close>

fun render_tables :: "codec \<Rightarrow> toml_file \<Rightarrow> string \<Rightarrow> go_error + string" where
  "render_tables co [] data = Inr data"
| "render_tables co ((p, t) # f) data =
     (case co_marshal co p t of
        Inl e \<Rightarrow> Inl e
      | Inr chunk \<Rightarrow>
          (let rest = fst (snd (cut_str [CHR 0x0A] chunk))
           in if rest = [] then render_tables co f data
              else render_tables co f (data @ (if data \<noteq> [] then [CHR 0x0A] else []) @ rest)))"

definition sorted_tables :: "toml_file \<Rightarrow> toml_file" where
  "sorted_tables f = stable_sort (\<lambda>a b. bytes_less (fst a) (fst b)) f"

definition first_failure :: "go_error option list \<Rightarrow> go_error option" where
  "first_failure es = (case List.map_filter (\<lambda>e. e) es of [] \<Rightarrow> None | e # r \<Rightarrow> Some e)"

definition save_locked ::
    "codec \<Rightarrow> io \<Rightarrow> toml_file \<Rightarrow> memory_store \<times> memory_disk \<Rightarrow>
     memory_error option \<times> (memory_store \<times> memory_disk)" where
  "save_locked co i f w = (case w of (s, d) \<Rightarrow>
     (case render_tables co (sorted_tables f) [] of
        Inl e \<Rightarrow> (Some (MemoryIo e), w)
      | Inr data \<Rightarrow>
          (case first_failure [io_mkdir i, io_temp i, io_write i, io_sync i, io_close i, io_rename i] of
             Some e \<Rightarrow> (Some (MemoryIo e), w)
           | None \<Rightarrow>
               (let d1 = d\<lparr>dk_file := Some (data, io_mtime i)\<rparr>
                in case io_restat i of
                     Some e \<Rightarrow> (Some (MemoryIo e), (s, d1))
                   | None \<Rightarrow> (None, (s\<lparr>st_cache := Some (f, current_file_state d1)\<rparr>, d1))))))"

section \<open>Loading and migration\<close>

definition old_owner :: "old_memory \<Rightarrow> memory_error + actor_identity" where
  "old_owner m = (case cut_str '':'' (old_actor m) of (p, i, found) \<Rightarrow>
     if \<not> found \<or> p \<noteq> old_platform m \<and> \<not> (p = ''hook'' \<and> old_platform m = [])
     then Inl (AmbiguousOwner (old_platform m) (old_actor m))
     else if p = ''hook'' \<or> p = ''elnis'' then Inl (UnrecoverableOwner (old_actor m))
     else if p = [] \<or> i = [] then Inl (IncompleteOwner \<lparr>ac_platform = p, ac_id = i\<rparr>)
     else Inr \<lparr>ac_platform = p, ac_id = i\<rparr>)"

definition put_entry :: "actor_identity \<Rightarrow> resident_memory \<Rightarrow> toml_file \<Rightarrow> toml_file" where
  "put_entry a m f =
     AList.update (ac_platform a) (AList.update (ac_id a) m (table_of f (ac_platform a))) f"

fun migrate_from :: "toml_file \<Rightarrow> old_memory list \<Rightarrow> memory_error + toml_file" where
  "migrate_from f [] = Inr f"
| "migrate_from f (m # ms) = (case old_owner m of
     Inl e \<Rightarrow> Inl e
   | Inr a \<Rightarrow>
       if entry_of f a \<noteq> None then Inl (DuplicateOwner a)
       else migrate_from (put_entry a \<lparr>me_core = old_core m, me_normal = old_normal m,
              me_created = old_created m, me_updated = old_updated m\<rparr> f) ms)"

definition migrate_resident_memory :: "codec \<Rightarrow> string \<Rightarrow> memory_error + toml_file" where
  "migrate_resident_memory co data = (case co_decode_old co data of
     Inl e \<Rightarrow> Inl (MemoryIo e) | Inr ms \<Rightarrow> migrate_from [] ms)"

text \<open>
  A file in no known current format is migrated: the old bytes go to a backup, which must not
  exist yet, before the new file replaces them.
\<close>

definition migrate_locked ::
    "codec \<Rightarrow> io \<Rightarrow> string \<Rightarrow> memory_store \<times> memory_disk \<Rightarrow>
     (memory_error + toml_file) \<times> (memory_store \<times> memory_disk)" where
  "migrate_locked co i data w = (case w of (s, d) \<Rightarrow>
     (case migrate_resident_memory co data of
        Inl e \<Rightarrow> (Inl e, w)
      | Inr f \<Rightarrow>
          if dk_backup d \<noteq> None then (Inl (MemoryIo (ErrOther ''backup exists'')), w)
          else (case io_backup_open i of
            Some e \<Rightarrow> (Inl (MemoryIo e), w)
          | None \<Rightarrow>
              (case io_backup_write i of
                 Some e \<Rightarrow> (Inl (MemoryIo e), w)
               | None \<Rightarrow>
                   (case save_locked co i f (s, d\<lparr>dk_backup := Some data\<rparr>) of
                      (Some e, w1) \<Rightarrow> (Inl e, w1)
                    | (None, w1) \<Rightarrow> (Inr f, w1))))))"

definition load_locked ::
    "codec \<Rightarrow> io \<Rightarrow> memory_store \<times> memory_disk \<Rightarrow>
     (memory_error + toml_file) \<times> (memory_store \<times> memory_disk)" where
  "load_locked co i w = (case w of (s, d) \<Rightarrow>
     if trim_space (st_path s) = [] then (Inl MemoryPathRequired, w)
     else (case io_stat i of
       Some e \<Rightarrow> (Inl (MemoryIo e), w)
     | None \<Rightarrow>
         (let state = current_file_state d;
              fill = (\<lambda>f. (Inr f, (s\<lparr>st_cache := Some (f, state)\<rparr>, d)));
              fresh = (case dk_file d of
                None \<Rightarrow> fill []
              | Some (data, t) \<Rightarrow>
                  (case io_read i of
                     Some e \<Rightarrow> (Inl (MemoryIo e), w)
                   | None \<Rightarrow>
                       (case co_decode co data of
                          Some f \<Rightarrow> fill f
                        | None \<Rightarrow> migrate_locked co i data w)))
          in case st_cache s of
               None \<Rightarrow> fresh
             | Some (f, cached) \<Rightarrow> if same_file_state cached state then (Inr f, w) else fresh)))"

section \<open>Operations\<close>

definition read_memory ::
    "codec \<Rightarrow> io \<Rightarrow> go_error option \<Rightarrow> actor_identity \<Rightarrow> memory_store \<times> memory_disk \<Rightarrow>
     (memory_error + string \<times> string) \<times> (memory_store \<times> memory_disk)" where
  "read_memory co i ctx a w = (case ctx of
     Some e \<Rightarrow> (Inl (MemoryCancelled e), w)
   | None \<Rightarrow> (case load_locked co i w of
       (Inl e, w1) \<Rightarrow> (Inl e, w1)
     | (Inr f, w1) \<Rightarrow> (case entry_of f a of
         None \<Rightarrow> (Inl MemoryNotFound, w1)
       | Some m \<Rightarrow> (Inr (trim_space (me_core m), trim_space (me_normal m)), w1))))"

definition memory_blank :: "resident_memory \<Rightarrow> bool" where
  "memory_blank m \<longleftrightarrow> me_core m = [] \<and> me_normal m = []"

definition store_entry :: "actor_identity \<Rightarrow> resident_memory \<Rightarrow> toml_file \<Rightarrow> toml_file" where
  "store_entry a m f =
     (let t = (if memory_blank m then AList.delete (ac_id a) (table_of f (ac_platform a))
               else AList.update (ac_id a) m (table_of f (ac_platform a)))
      in if t = [] then AList.delete (ac_platform a) f else AList.update (ac_platform a) t f)"

text \<open>The entry that an update produces, or nothing to do.\<close>

definition stamped :: "string \<Rightarrow> resident_memory option \<Rightarrow> resident_memory \<Rightarrow> resident_memory option" where
  "stamped now before m =
     (if memory_blank m then (if before = None then None else Some m)
      else (let m1 = (if me_created m = [] then m\<lparr>me_created := now\<rparr> else m)
            in if Some m1 = before then None else Some (m1\<lparr>me_updated := now\<rparr>)))"

definition update_memory ::
    "codec \<Rightarrow> io \<Rightarrow> io \<Rightarrow> go_error option \<Rightarrow> actor_identity \<Rightarrow>
     (resident_memory \<Rightarrow> memory_error + resident_memory) \<Rightarrow> memory_store \<times> memory_disk \<Rightarrow>
     memory_error option \<times> (memory_store \<times> memory_disk)" where
  "update_memory co i j ctx a upd w = (case ctx of
     Some e \<Rightarrow> (Some (MemoryCancelled e), w)
   | None \<Rightarrow> (case load_locked co i w of
       (Inl e, w1) \<Rightarrow> (Some e, w1)
     | (Inr f, w1) \<Rightarrow>
         (let before = entry_of f a;
              m = (case before of None \<Rightarrow> not_found_memory | Some b \<Rightarrow> b)
          in case upd (m\<lparr>me_core := trim_space (me_core m), me_normal := trim_space (me_normal m)\<rparr>) of
               Inl e \<Rightarrow> (Some e, w1)
             | Inr m1 \<Rightarrow>
                 (case stamped (io_now j) before m1 of
                    None \<Rightarrow> (None, w1)
                  | Some m2 \<Rightarrow> save_locked co j (store_entry a m2 f) w1))))"

definition set_core :: "codec \<Rightarrow> memory_limits \<Rightarrow> string \<Rightarrow> resident_memory \<Rightarrow> memory_error + resident_memory" where
  "set_core co l content m =
     (case validate_part co (trim_space content) (lim_core l) ''core'' of
        Some e \<Rightarrow> Inl e | None \<Rightarrow> Inr (m\<lparr>me_core := trim_space content\<rparr>))"

definition set_normal :: "codec \<Rightarrow> memory_limits \<Rightarrow> string \<Rightarrow> resident_memory \<Rightarrow> memory_error + resident_memory" where
  "set_normal co l content m =
     (case validate_part co (trim_space content) (lim_normal l) ''normal'' of
        Some e \<Rightarrow> Inl e | None \<Rightarrow> Inr (m\<lparr>me_normal := trim_space content\<rparr>))"

definition extend_normal :: "codec \<Rightarrow> memory_limits \<Rightarrow> string \<Rightarrow> resident_memory \<Rightarrow> memory_error + resident_memory" where
  "extend_normal co l content m =
     (let n = (if me_normal m = [] then content else me_normal m @ '' '' @ content)
      in case validate_part co n (lim_normal l) ''normal'' of
           Some e \<Rightarrow> Inl e | None \<Rightarrow> Inr (m\<lparr>me_normal := n\<rparr>))"

text \<open>An update loads with the answers \<open>i\<close> and saves with the answers \<open>j\<close>.\<close>

datatype memory_op = WriteCore string | WriteNormal string | AppendNormal string | DeleteNormal

fun op_update :: "codec \<Rightarrow> memory_limits \<Rightarrow> memory_op \<Rightarrow> resident_memory \<Rightarrow> memory_error + resident_memory" where
  "op_update co l (WriteCore c) = set_core co l c"
| "op_update co l (WriteNormal c) = set_normal co l c"
| "op_update co l (AppendNormal c) = extend_normal co l (trim_space c)"
| "op_update co l DeleteNormal = set_normal co l []"

definition run_memory_op ::
    "codec \<Rightarrow> io \<Rightarrow> io \<Rightarrow> go_error option \<Rightarrow> actor_identity \<Rightarrow> memory_op \<Rightarrow> memory_store \<times> memory_disk \<Rightarrow>
     memory_error option \<times> (memory_store \<times> memory_disk)" where
  "run_memory_op co i j ctx a op w =
     (if (case op of AppendNormal c \<Rightarrow> trim_space c = [] | _ \<Rightarrow> False)
      then (Some NormalContentRequired, w)
      else update_memory co i j ctx a (op_update co (st_limits (fst w)) op) w)"

definition memory_text :: "string \<Rightarrow> string \<Rightarrow> string" where
  "memory_text core normal =
     join_str '' '' (filter (\<lambda>p. p \<noteq> []) (map trim_space [core, normal]))"

definition memory_empty :: "string \<Rightarrow> string \<Rightarrow> bool" where
  "memory_empty core normal \<longleftrightarrow> trim_space core = [] \<and> trim_space normal = []"

end
