(* ===== verification/Resident_Props.thy ===== *)
theory Resident_Props
  imports Resident_Memory
begin

text \<open>
  Properties of the resident memory store: the file it keeps is well-formed, an update changes one
  entry within its limit and the next read returns it, and the migration of the older format keeps
  every record.
\<close>

section \<open>Well-formed files\<close>

definition table_typed :: "memory_table \<Rightarrow> bool" where
  "table_typed t \<longleftrightarrow> t \<noteq> [] \<and> distinct (map fst t) \<and> list_all (\<lambda>(i, m). \<not> memory_blank m) t"

definition file_typed :: "toml_file \<Rightarrow> bool" where
  "file_typed f \<longleftrightarrow> distinct (map fst f) \<and> list_all (\<lambda>(p, t). table_typed t) f"

lemma file_typed_Nil [simp]: "file_typed []"
  by (simp add: file_typed_def)

lemma list_all_update: "list_all P t \<Longrightarrow> P (k, v) \<Longrightarrow> list_all P (AList.update k v t)"
  by (induction t) auto

lemma list_all_delete: "list_all P t \<Longrightarrow> list_all P (AList.delete k t)"
  by (auto simp: list_all_iff AList.delete_eq)

lemma update_not_Nil [simp]: "AList.update k v t \<noteq> []"
  by (cases t) auto

lemma table_of_typed: "file_typed f \<Longrightarrow> table_of f p = [] \<or> table_typed (table_of f p)"
  by (auto simp: table_of_def file_typed_def list_all_iff split: option.split dest: map_of_SomeD)

lemma store_entry_typed:
  assumes "file_typed f"
  shows "file_typed (store_entry a m f)"
proof -
  define t where "t = (if memory_blank m then AList.delete (ac_id a) (table_of f (ac_platform a))
    else AList.update (ac_id a) m (table_of f (ac_platform a)))"
  have old: "distinct (map fst (table_of f (ac_platform a)))"
      "list_all (\<lambda>(i, m). \<not> memory_blank m) (table_of f (ac_platform a))"
    using table_of_typed [OF assms, of "ac_platform a"] by (auto simp: table_typed_def)
  then have "t = [] \<or> table_typed t"
    by (auto simp: t_def table_typed_def AList.distinct_delete AList.distinct_update
        list_all_update list_all_delete)
  then show ?thesis
    using assms by (auto simp: store_entry_def Let_def t_def [symmetric] file_typed_def
        AList.distinct_delete AList.distinct_update intro!: list_all_update list_all_delete)
qed

lemma entry_store_entry:
  "entry_of (store_entry a m f) b =
     (if b = a then (if memory_blank m then None else Some m) else entry_of f b)"
proof -
  define t where "t = (if memory_blank m then AList.delete (ac_id a) (table_of f (ac_platform a))
    else AList.update (ac_id a) m (table_of f (ac_platform a)))"
  have t: "map_of t i = (if i = ac_id a then (if memory_blank m then None else Some m)
      else map_of (table_of f (ac_platform a)) i)" for i
    by (simp add: t_def AList.delete_conv' AList.update_conv')
  have "map_of (table_of (store_entry a m f) p) = (if p = ac_platform a then map_of t else map_of (table_of f p))" for p
    by (auto simp: store_entry_def Let_def t_def [symmetric] table_of_def
        AList.delete_conv' AList.update_conv')
  then show ?thesis by (cases a; cases b) (auto simp: entry_of_def t)
qed

section \<open>Loading and saving\<close>

lemma same_file_state_eq: "same_file_state a b \<longleftrightarrow> a = b"
  by (cases a; cases b) (auto simp: same_file_state_def)

lemma save_cached:
  assumes "save_locked co i f (s, d) = (None, (s2, d2))"
  shows "st_cache s2 = Some (f, current_file_state d2)" "st_path s2 = st_path s" "st_limits s2 = st_limits s"
  using assms by (auto simp: save_locked_def Let_def split: sum.splits option.splits)

lemma migrate_cached:
  assumes "migrate_locked co i data (s, d) = (Inr f, (s2, d2))"
  shows "st_cache s2 = Some (f, current_file_state d2)" "st_path s2 = st_path s" "st_limits s2 = st_limits s"
  using assms
  by (auto simp: migrate_locked_def split: sum.splits option.splits if_splits prod.splits dest: save_cached)

lemma load_cached:
  assumes "load_locked co i (s, d) = (Inr f, (s2, d2))"
  shows "st_cache s2 = Some (f, current_file_state d2) \<and> st_path s2 = st_path s \<and>
    st_limits s2 = st_limits s \<and> trim_space (st_path s) \<noteq> []"
proof -
  let ?fresh = "case dk_file d of None \<Rightarrow> (Inr [], (s\<lparr>st_cache := Some ([], current_file_state d)\<rparr>, d))
    | Some (data, t) \<Rightarrow> (case io_read i of Some e \<Rightarrow> (Inl (MemoryIo e), (s, d))
      | None \<Rightarrow> (case co_decode co data of
          Some f \<Rightarrow> (Inr f, (s\<lparr>st_cache := Some (f, current_file_state d)\<rparr>, d))
        | None \<Rightarrow> migrate_locked co i data (s, d)))"
  from assms have path: "trim_space (st_path s) \<noteq> []" and
    load: "(case st_cache s of None \<Rightarrow> ?fresh
      | Some (f, c) \<Rightarrow> if same_file_state c (current_file_state d) then (Inr f, (s, d)) else ?fresh) =
      (Inr f, (s2, d2))"
    by (auto simp: load_locked_def Let_def split: if_splits option.splits)
  have fresh: "?thesis" if "?fresh = (Inr f, (s2, d2))"
    using that path by (auto split: option.splits prod.splits dest: migrate_cached)
  from load show ?thesis
    using fresh path by (cases "st_cache s") (auto simp: same_file_state_eq split: if_splits)
qed

lemma load_from_cache:
  assumes "st_cache s = Some (f, current_file_state d)" "trim_space (st_path s) \<noteq> []" "io_stat i = None"
  shows "load_locked co i (s, d) = (Inr f, (s, d))"
  using assms by (simp add: load_locked_def Let_def same_file_state_def)

section \<open>The effect of an update\<close>

text \<open>What an operation makes of the two parts, and the number of words it must stay within.\<close>

fun parts_after :: "memory_op \<Rightarrow> string \<times> string \<Rightarrow> string \<times> string" where
  "parts_after (WriteCore c) (core, normal) = (trim_space c, normal)"
| "parts_after (WriteNormal c) (core, normal) = (core, trim_space c)"
| "parts_after (AppendNormal c) (core, normal) =
     (core, if normal = [] then trim_space c else normal @ '' '' @ trim_space c)"
| "parts_after DeleteNormal (core, normal) = (core, [])"

definition parts_before :: "toml_file \<Rightarrow> actor_identity \<Rightarrow> string \<times> string" where
  "parts_before f a = (case entry_of f a of
     None \<Rightarrow> ([], []) | Some m \<Rightarrow> (trim_space (me_core m), trim_space (me_normal m)))"

definition within_limit :: "codec \<Rightarrow> memory_limits \<Rightarrow> memory_op \<Rightarrow> string \<times> string \<Rightarrow> bool" where
  "within_limit co l op cn = (case op of
     WriteCore c \<Rightarrow> count_units co (fst cn) \<le> lim_core l
   | _ \<Rightarrow> count_units co (snd cn) \<le> lim_normal l)"

lemma op_update_parts:
  assumes "op_update co l op m = Inr m1"
  shows "(me_core m1, me_normal m1) = parts_after op (me_core m, me_normal m)"
    and "within_limit co l op (me_core m1, me_normal m1)"
  using assms
  by (cases op; auto simp: set_core_def set_normal_def extend_normal_def validate_part_def within_limit_def
      Let_def split: if_splits)+

lemma stamped_parts:
  "stamped now before m = Some m2 \<Longrightarrow> me_core m2 = me_core m \<and> me_normal m2 = me_normal m \<and>
     memory_blank m2 = memory_blank m"
  by (auto simp: stamped_def memory_blank_def Let_def split: if_splits)

lemma stamped_None:
  assumes "stamped now before m = None"
  shows "memory_blank m \<and> before = None \<or>
    (\<exists>b. before = Some b \<and> me_core b = me_core m \<and> me_normal b = me_normal m \<and> \<not> memory_blank m)"
  using assms by (auto simp: stamped_def Let_def split: if_splits)

text \<open>After a successful update the cache holds a file with the new parts at the owner.\<close>

lemma update_cached:
  assumes load: "load_locked co i (s, d) = (Inr f, (s1, d1))"
    and run: "run_memory_op co i j None a op (s, d) = (None, (s2, d2))"
    and typed: "file_typed f"
  shows "\<exists>f2. st_cache s2 = Some (f2, current_file_state d2) \<and> st_path s2 = st_path s \<and> file_typed f2 \<and>
    (\<forall>b. b \<noteq> a \<longrightarrow> entry_of f2 b = entry_of f b) \<and>
    (case entry_of f2 a of
       None \<Rightarrow> parts_after op (parts_before f a) = ([], [])
     | Some m \<Rightarrow> (me_core m, me_normal m) = parts_after op (parts_before f a)) \<and>
    within_limit co (st_limits s) op (parts_after op (parts_before f a))"
proof -
  define m where "m = (case entry_of f a of None \<Rightarrow> not_found_memory | Some b \<Rightarrow> b)"
  define m0 where "m0 = m\<lparr>me_core := trim_space (me_core m), me_normal := trim_space (me_normal m)\<rparr>"
  have before: "(me_core m0, me_normal m0) = parts_before f a"
    by (auto simp: m0_def m_def parts_before_def not_found_memory_def split: option.split)
  from run have "update_memory co i j None a (op_update co (st_limits s) op) (s, d) = (None, (s2, d2))"
    by (auto simp: run_memory_op_def split: if_splits)
  then obtain m1 where m1: "op_update co (st_limits s) op m0 = Inr m1"
    and save: "(case stamped (io_now j) (entry_of f a) m1 of None \<Rightarrow> (None, (s1, d1))
      | Some m2 \<Rightarrow> save_locked co j (store_entry a m2 f) (s1, d1)) = (None, (s2, d2))"
    by (auto simp: update_memory_def load Let_def m_def [symmetric] m0_def split: sum.splits)
  note parts = op_update_parts [OF m1, unfolded before]
  have cached: "st_cache s1 = Some (f, current_file_state d1)" "st_path s1 = st_path s"
    using load_cached [OF load] by simp_all
  show ?thesis
  proof (cases "stamped (io_now j) (entry_of f a) m1")
    case None
    with save have "s2 = s1" "d2 = d1" by simp_all
    with cached typed stamped_None [OF None] parts show ?thesis
      by (intro exI [of _ f]) (auto simp: memory_blank_def)
  next
    case (Some m2)
    with save have saved: "save_locked co j (store_entry a m2 f) (s1, d1) = (None, (s2, d2))" by simp
    note m2 = stamped_parts [OF Some]
    show ?thesis
    proof (intro exI conjI)
      show "st_cache s2 = Some (store_entry a m2 f, current_file_state d2)" "st_path s2 = st_path s"
        using save_cached [OF saved] cached by simp_all
      show "file_typed (store_entry a m2 f)" by (rule store_entry_typed [OF typed])
      show "\<forall>b. b \<noteq> a \<longrightarrow> entry_of (store_entry a m2 f) b = entry_of f b"
        by (simp add: entry_store_entry)
      show "within_limit co (st_limits s) op (parts_after op (parts_before f a))" using parts by simp
      show "case entry_of (store_entry a m2 f) a of
          None \<Rightarrow> parts_after op (parts_before f a) = ([], [])
        | Some m \<Rightarrow> (me_core m, me_normal m) = parts_after op (parts_before f a)"
        using parts m2 by (auto simp: entry_store_entry memory_blank_def)
    qed
  qed
qed


definition ascii_codec :: codec where
  "ascii_codec = \<lparr>co_marshal = (\<lambda>p t. Inr (''['' @ p @ '']'' @ [CHR 0x0A] @ concat (map fst t))),
     co_decode = (\<lambda>b. if b = [] then Some [] else None), co_decode_old = (\<lambda>b. Inl (ErrOther ''old'')),
     co_word_rune = (\<lambda>r. 97 \<le> r \<and> r \<le> 122)\<rparr>"

definition calm :: io where
  "calm = \<lparr>io_stat = None, io_read = None, io_backup_open = None, io_backup_write = None,
     io_mkdir = None, io_temp = None, io_write = None, io_sync = None, io_close = None,
     io_rename = None, io_restat = None, io_mtime = 5, io_now = ''t''\<rparr>"

definition sample_store :: memory_store where
  "sample_store = new_store ''m'' \<lparr>lim_core = 0, lim_normal = 2\<rparr>"

definition empty_disk :: memory_disk where
  "empty_disk = \<lparr>dk_file = None, dk_backup = None\<rparr>"

definition sample_owner :: actor_identity where
  "sample_owner = \<lparr>ac_platform = ''p'', ac_id = ''u''\<rparr>"

definition sample_after :: "memory_store \<times> memory_disk" where
  "sample_after = snd (run_memory_op ascii_codec calm calm None sample_owner (AppendNormal ''a b '') (sample_store, empty_disk))"

lemma sample_update:
  "load_locked ascii_codec calm (sample_store, empty_disk) = (Inr [], (sample_store
     \<lparr>st_cache := Some ([], current_file_state empty_disk)\<rparr>, empty_disk))"
  "run_memory_op ascii_codec calm calm None sample_owner (AppendNormal ''a b '') (sample_store, empty_disk) =
     (None, (fst sample_after, snd sample_after))"
  by code_simp+


section \<open>Failures and migration\<close>

text \<open>An update that fails has not changed the file, unless only the state after the rename is unknown.\<close>

lemma failed_save_keeps_file:
  assumes "save_locked co i f (s, d) = (Some e, (s2, d2))" "io_restat i = None"
  shows "s2 = s \<and> d2 = d"
  using assms by (auto simp: save_locked_def Let_def split: sum.splits option.splits)

text \<open>Migration keeps every record under its owner and refuses what it cannot place.\<close>

lemma entry_put_entry:
  "entry_of (put_entry a m f) b = (if b = a then Some m else entry_of f b)"
  by (cases a; cases b)
    (auto simp: entry_of_def put_entry_def table_of_def AList.update_conv' split: option.split)

lemma migrate_from_keeps: "migrate_from f ms = Inr g \<Longrightarrow> entry_of f a = Some m \<Longrightarrow> entry_of g a = Some m"
proof (induction f ms rule: migrate_from.induct)
  case (2 f o1 ms)
  then obtain b where b: "old_owner o1 = Inr b" by (cases "old_owner o1") auto
  with "2.prems"(1) have none: "entry_of f b = None" by (auto split: if_splits)
  with "2.prems"(2) have "a \<noteq> b" by auto
  with "2.IH" [OF b] "2.prems" b none show ?case by (simp add: entry_put_entry)
qed simp

lemma migrate_keeps_records:
  assumes "migrate_from f ms = Inr g" "o1 \<in> set ms"
  shows "\<exists>a. old_owner o1 = Inr a \<and> entry_of g a = Some \<lparr>me_core = old_core o1, me_normal = old_normal o1,
    me_created = old_created o1, me_updated = old_updated o1\<rparr>"
  using assms
proof (induction f ms rule: migrate_from.induct)
  case (2 f o2 ms)
  then obtain a where a: "old_owner o2 = Inr a" by (cases "old_owner o2") auto
  with "2.prems"(1) have fresh: "entry_of f a = None" by (auto split: if_splits)
  with a "2.prems"(1) have rest: "migrate_from (put_entry a \<lparr>me_core = old_core o2, me_normal = old_normal o2,
      me_created = old_created o2, me_updated = old_updated o2\<rparr> f) ms = Inr g" by simp
  show ?case
  proof (cases "o1 = o2")
    case True
    with a migrate_from_keeps [OF rest, of a] show ?thesis by (simp add: entry_put_entry)
  next
    case False
    with "2.IH" [OF a _ rest] fresh "2.prems"(2) show ?thesis by simp
  qed
qed simp

end
