(* ===== verification/Delivery_Output.thy ===== *)
theory Delivery_Output
  imports Go_Strings Elbot_Prelude
begin

text \<open>
  Outputs on their way to a platform (\<open>internal/delivery/delivery.go\<close>): kinds, sources and
  targets, the checks a batch passes before it is sent, the common target of a batch, and the
  texts that stand for outputs a platform cannot show.  \<open>url.Parse\<close> is the argument \<open>parse_url\<close>,
  which gives scheme and host; the sender of the platform is an argument too.
\<close>

section \<open>Data\<close>

datatype out_kind = OutText | OutEmoticon | OutImage | OutFile | OutRecord | OutAt | OutReply | OutOther string

definition kind_of :: "string \<Rightarrow> out_kind" where
  "kind_of s = (if s = ''text'' then OutText else if s = ''emoticon'' then OutEmoticon
     else if s = ''image'' then OutImage else if s = ''file'' then OutFile
     else if s = ''record'' then OutRecord else if s = ''at'' then OutAt
     else if s = ''reply'' then OutReply else OutOther s)"

record out_target =
  tg_platform :: string
  tg_chat_type :: string
  tg_chat :: string
  tg_superadmins :: bool

definition empty_target :: out_target where
  "empty_target = \<lparr>tg_platform = [], tg_chat_type = [], tg_chat = [], tg_superadmins = False\<rparr>"

record out_source =
  os_url :: string
  os_path :: string
  os_media :: string
  os_mime :: string
  os_data :: string

definition no_source :: out_source where
  "no_source = \<lparr>os_url = [], os_path = [], os_media = [], os_mime = [], os_data = []\<rparr>"

record delivery_info =
  di_timing :: string
  di_point :: string
  di_name :: string
  di_mode :: string

record delivery_output =
  ou_kind :: out_kind
  ou_text :: string
  ou_name :: string
  ou_emoticon :: string
  ou_reply :: string
  ou_source :: out_source
  ou_target :: out_target
  ou_delivery :: delivery_info

definition blank_output :: "out_kind \<Rightarrow> delivery_output" where
  "blank_output k = \<lparr>ou_kind = k, ou_text = [], ou_name = [], ou_emoticon = [], ou_reply = [],
     ou_source = no_source, ou_target = empty_target,
     ou_delivery = \<lparr>di_timing = [], di_point = [], di_name = [], di_mode = []\<rparr>\<rparr>"

definition text_output :: "string \<Rightarrow> delivery_output" where
  "text_output t = (blank_output OutText)\<lparr>ou_text := t\<rparr>"

definition emoticon_output :: "string \<Rightarrow> string \<Rightarrow> delivery_output" where
  "emoticon_output i n = (blank_output OutEmoticon)\<lparr>ou_emoticon := trim_space i, ou_name := trim_space n\<rparr>"

definition at_output :: "string \<Rightarrow> delivery_output" where
  "at_output u = (blank_output OutAt)\<lparr>ou_name := trim_space u\<rparr>"

definition reply_output :: "string \<Rightarrow> string \<Rightarrow> delivery_output" where
  "reply_output i t = (blank_output OutReply)\<lparr>ou_text := t, ou_reply := trim_space i\<rparr>"

section \<open>Timing\<close>

definition with_timing :: "delivery_output \<Rightarrow> string \<Rightarrow> delivery_output" where
  "with_timing out timing = out\<lparr>ou_delivery := (ou_delivery out)\<lparr>di_timing := trim_space timing\<rparr>\<rparr>"

definition delivery_timing :: "delivery_output \<Rightarrow> string" where
  "delivery_timing out =
     (let t = trim_space (di_timing (ou_delivery out)) in if t = [] then ''immediate'' else t)"

definition timing_ok :: "string \<Rightarrow> bool" where
  "timing_ok t \<longleftrightarrow> trim_space t \<in> {[], ''immediate'', ''after_assistant''}"

definition split_by_timing :: "delivery_output list \<Rightarrow> delivery_output list \<times> delivery_output list" where
  "split_by_timing outs =
     (filter (\<lambda>x. delivery_timing x \<noteq> ''after_assistant'') outs,
      filter (\<lambda>x. delivery_timing x = ''after_assistant'') outs)"

section \<open>Checks before sending\<close>

datatype output_fault =
  BadTiming | TextWithSource | SourceCount | PathIsUri | BadUrl | EmoticonWithSource | NoEmoticonId
  | NoEmoticonName | NoUser | NoMessageId | UnsupportedKind

definition http_url :: "(string \<Rightarrow> (string \<times> string) option) \<Rightarrow> string \<Rightarrow> bool" where
  "http_url parse_url v = (case parse_url v of
     None \<Rightarrow> False
   | Some (scheme, host) \<Rightarrow> (scheme = ''http'' \<or> scheme = ''https'') \<and> host \<noteq> [])"

definition source_count :: "out_source \<Rightarrow> nat" where
  "source_count s = (if trim_space (os_path s) \<noteq> [] then 1 else 0) + (if trim_space (os_media s) \<noteq> [] then 1 else 0)
     + (if trim_space (os_url s) \<noteq> [] then 1 else 0) + (if os_data s \<noteq> [] then 1 else 0)"

definition media_fault :: "(string \<Rightarrow> (string \<times> string) option) \<Rightarrow> out_source \<Rightarrow> output_fault option" where
  "media_fault parse_url s =
     (if source_count s \<noteq> 1 then Some SourceCount
      else if contains_str (trim_space (os_path s)) ''://'' then Some PathIsUri
      else if trim_space (os_url s) \<noteq> [] \<and> \<not> http_url parse_url (trim_space (os_url s)) then Some BadUrl
      else None)"

definition output_fault_of :: "(string \<Rightarrow> (string \<times> string) option) \<Rightarrow> delivery_output \<Rightarrow> output_fault option" where
  "output_fault_of parse_url out =
     (if \<not> timing_ok (delivery_timing out) then Some BadTiming
      else (case ou_kind out of
        OutText \<Rightarrow> if source_count (ou_source out) \<noteq> 0 then Some TextWithSource else None
      | OutImage \<Rightarrow> media_fault parse_url (ou_source out)
      | OutFile \<Rightarrow> media_fault parse_url (ou_source out)
      | OutRecord \<Rightarrow> media_fault parse_url (ou_source out)
      | OutEmoticon \<Rightarrow>
          if source_count (ou_source out) \<noteq> 0 then Some EmoticonWithSource
          else if trim_space (ou_emoticon out) = [] then Some NoEmoticonId
          else if trim_space (ou_name out) = [] then Some NoEmoticonName else None
      | OutAt \<Rightarrow> if trim_space (ou_name out) = [] then Some NoUser else None
      | OutReply \<Rightarrow> if trim_space (ou_reply out) = [] then Some NoMessageId else None
      | OutOther k \<Rightarrow> Some UnsupportedKind))"

fun validate_from :: "(string \<Rightarrow> (string \<times> string) option) \<Rightarrow> nat \<Rightarrow> delivery_output list \<Rightarrow> (nat \<times> output_fault) option" where
  "validate_from parse_url i [] = None"
| "validate_from parse_url i (out # outs) = (case output_fault_of parse_url out of
     Some f \<Rightarrow> Some (i, f)
   | None \<Rightarrow> validate_from parse_url (Suc i) outs)"

definition validate_outputs :: "(string \<Rightarrow> (string \<times> string) option) \<Rightarrow> delivery_output list \<Rightarrow> (nat \<times> output_fault) option" where
  "validate_outputs parse_url outs = validate_from parse_url 0 outs"

text \<open>\<open>None\<close> is the error that the outputs name different targets.\<close>

fun target_from :: "out_target \<Rightarrow> delivery_output list \<Rightarrow> out_target option" where
  "target_from target [] = Some target"
| "target_from target (out # outs) =
     (if ou_target out = empty_target then target_from target outs
      else if target = empty_target then target_from (ou_target out) outs
      else if target \<noteq> ou_target out then None
      else target_from target outs)"

definition outputs_target :: "delivery_output list \<Rightarrow> out_target option" where
  "outputs_target outs = target_from empty_target outs"

section \<open>Sending\<close>

fun first_nonblank :: "string list \<Rightarrow> string" where
  "first_nonblank [] = []"
| "first_nonblank (v # vs) = (if trim_space v \<noteq> [] then v else first_nonblank vs)"

datatype send_error = SendContext go_error | SendInvalid nat output_fault | SendFailed string go_error

definition source_error :: "delivery_output \<Rightarrow> go_error \<Rightarrow> send_error" where
  "source_error out e =
     SendFailed (trim_space (first_nonblank [di_name (ou_delivery out), di_point (ou_delivery out)])) e"

text \<open>The receipt of the platform is kept when sending fails; \<open>None\<close> is the empty receipt.\<close>

definition send_to ::
    "(string \<Rightarrow> (string \<times> string) option) \<Rightarrow> (out_target \<Rightarrow> delivery_output list \<Rightarrow> 'r \<times> go_error option)
     \<Rightarrow> go_error option \<Rightarrow> out_target \<Rightarrow> delivery_output list \<Rightarrow> 'r option \<times> send_error option" where
  "send_to parse_url sender ctx_err target outs = (case ctx_err of
     Some e \<Rightarrow> (None, Some (SendContext e))
   | None \<Rightarrow>
       if outs = [] then (None, None)
       else (case validate_outputs parse_url outs of
         Some (i, f) \<Rightarrow> (None, Some (SendInvalid i f))
       | None \<Rightarrow>
           (case sender target outs of
              (r, None) \<Rightarrow> (Some r, None)
            | (r, Some e) \<Rightarrow> (Some r, Some (source_error (hd outs) e)))))"

section \<open>Texts instead of outputs\<close>

text \<open>The labels are UTF-8: emoticon, quoted message, image, file, voice.\<close>

definition label_emoticon :: string where
  "label_emoticon = ''['' @ [CHR 0xE8, CHR 0xA1, CHR 0xA8, CHR 0xE6, CHR 0x83, CHR 0x85] @ '': ''"

definition label_quote :: string where
  "label_quote = ''['' @ [CHR 0xE5, CHR 0xBC, CHR 0x95, CHR 0xE7, CHR 0x94, CHR 0xA8,
     CHR 0xE6, CHR 0xB6, CHR 0x88, CHR 0xE6, CHR 0x81, CHR 0xAF] @ '' ''"

definition label_image :: string where
  "label_image = [CHR 0xE5, CHR 0x9B, CHR 0xBE, CHR 0xE7, CHR 0x89, CHR 0x87]"

definition label_file :: string where
  "label_file = [CHR 0xE6, CHR 0x96, CHR 0x87, CHR 0xE4, CHR 0xBB, CHR 0xB6]"

definition label_voice :: string where
  "label_voice = [CHR 0xE8, CHR 0xAF, CHR 0xAD, CHR 0xE9, CHR 0x9F, CHR 0xB3]"

definition media_label :: "string \<Rightarrow> delivery_output \<Rightarrow> string" where
  "media_label label out =
     (let name = first_nonblank [ou_name out, os_url (ou_source out), os_path (ou_source out), ou_text out]
      in ''['' @ (if name \<noteq> [] then label @ '': '' @ name else label) @ '']'')"

definition fallback_text :: "delivery_output \<Rightarrow> string" where
  "fallback_text out = (case ou_kind out of
     OutText \<Rightarrow> ou_text out
   | OutEmoticon \<Rightarrow> label_emoticon @ trim_space (ou_name out) @ '']''
   | OutAt \<Rightarrow>
       (let name = trim_space (first_nonblank [ou_name out, ou_text out])
        in if name = [] then [] else CHR 0x40 # name)
   | OutReply \<Rightarrow>
       (let i = trim_space (ou_reply out)
        in if i = [] then ou_text out else label_quote @ i @ '']'' @ CHR 0x0A # ou_text out)
   | OutImage \<Rightarrow> media_label label_image out
   | OutFile \<Rightarrow> media_label label_file out
   | OutRecord \<Rightarrow> media_label label_voice out
   | OutOther k \<Rightarrow> first_nonblank [ou_text out, ou_name out])"

definition fallback_output :: "delivery_output list \<Rightarrow> delivery_output" where
  "fallback_output outs = text_output (join_str [CHR 0x0A]
     (filter (\<lambda>t. t \<noteq> []) (map (\<lambda>x. trim_space (fallback_text x)) outs)))"

section \<open>Lemmas\<close>

lemma validate_from_None:
  "validate_from parse_url i outs = None \<longleftrightarrow> (\<forall>out \<in> set outs. output_fault_of parse_url out = None)"
  by (induction outs arbitrary: i) (auto split: option.splits)

lemma validate_from_Some:
  "validate_from parse_url i outs = Some (j, f) \<Longrightarrow>
     i \<le> j \<and> j < i + length outs \<and> output_fault_of parse_url (outs ! (j - i)) = Some f \<and>
     (\<forall>k < j - i. output_fault_of parse_url (outs ! k) = None)"
proof (induction outs arbitrary: i)
  case (Cons out outs)
  show ?case
  proof (cases "output_fault_of parse_url out")
    case None
    with Cons.prems have v: "validate_from parse_url (Suc i) outs = Some (j, f)" by simp
    note IH = Cons.IH [OF v]
    have "output_fault_of parse_url ((out # outs) ! k) = None" if "k < j - i" for k
      using IH None that by (cases k) auto
    with IH show ?thesis by (auto simp: nth_Cons' diff_Suc_eq_diff_pred [symmetric] Suc_le_eq)
  qed (use Cons.prems in auto)
qed simp

lemma target_from_same:
  "(\<forall>out \<in> set outs. ou_target out = t) \<Longrightarrow> target_from t outs = Some t"
  by (induction outs) auto

lemma outputs_target_same:
  assumes "\<forall>out \<in> set outs. ou_target out = t" "outs \<noteq> []"
  shows "outputs_target outs = Some t"
proof (cases outs)
  case (Cons out rest)
  then show ?thesis
    using assms target_from_same [of rest t] target_from_same [of rest empty_target]
    by (cases "t = empty_target") (auto simp: outputs_target_def)
qed (use assms in simp)

lemma trim_immediate [simp]: "trim_space ''immediate'' = ''immediate''"
  by code_simp

lemma timing_ok_timing:
  "timing_ok t \<Longrightarrow> timing_ok (delivery_timing (with_timing out t))"
  by (auto simp: timing_ok_def delivery_timing_def with_timing_def Let_def)

end
