(* ===== verification/Hook_Output.thy ===== *)
theory Hook_Output
  imports Delivery_Output Go_Paths
begin

text \<open>
  Building outputs from what a plugin or a rule describes
  (\<open>internal/hook/share/output/output.go\<close>, \<open>message.go\<close>): which fields a kind accepts, where its
  media comes from, and the timing and target of the group.  \<open>base64.StdEncoding\<close> is written out;
  \<open>url.Parse\<close> is the argument \<open>parse_url\<close>.
\<close>

section \<open>Base64 and media identifiers\<close>

definition b64_value :: "char \<Rightarrow> nat option" where
  "b64_value c = (let n = (of_char c :: nat) in
     if 65 \<le> n \<and> n \<le> 90 then Some (n - 65)
     else if 97 \<le> n \<and> n \<le> 122 then Some (n - 71)
     else if 48 \<le> n \<and> n \<le> 57 then Some (n + 4)
     else if n = 43 then Some 62 else if n = 47 then Some 63 else None)"

definition b64_bytes :: "nat \<Rightarrow> nat \<Rightarrow> nat \<Rightarrow> nat \<Rightarrow> string" where
  "b64_bytes a b c d =
     [char_of (a * 4 + b div 16), char_of (b mod 16 * 16 + c div 4), char_of (c mod 4 * 64 + d)]"

text \<open>Groups of four, the last one possibly padded; line ends are skipped before.\<close>

fun b64_groups :: "string \<Rightarrow> string option" where
  "b64_groups [] = Some []"
| "b64_groups [c1, c2, c3, c4] =
     (case (b64_value c1, b64_value c2) of
        (Some a, Some b) \<Rightarrow>
          if c3 = CHR ''='' then (if c4 = CHR ''='' then Some (take 1 (b64_bytes a b 0 0)) else None)
          else (case b64_value c3 of
              None \<Rightarrow> None
            | Some c \<Rightarrow>
                if c4 = CHR ''='' then Some (take 2 (b64_bytes a b c 0))
                else map_option (b64_bytes a b c) (b64_value c4))
      | _ \<Rightarrow> None)"
| "b64_groups (c1 # c2 # c3 # c4 # c5 # rest) =
     (case (b64_value c1, b64_value c2, b64_value c3, b64_value c4) of
        (Some a, Some b, Some c, Some d) \<Rightarrow> map_option (\<lambda>r. b64_bytes a b c d @ r) (b64_groups (c5 # rest))
      | _ \<Rightarrow> None)"
| "b64_groups _ = None"

definition b64_decode :: "string \<Rightarrow> string option" where
  "b64_decode s = b64_groups (filter (\<lambda>c. c \<noteq> CHR 0x0A \<and> c \<noteq> CHR 0x0D) s)"

definition b64_decoded_len :: "string \<Rightarrow> nat" where
  "b64_decoded_len s = length s div 4 * 3"

definition max_base64_bytes :: nat where "max_base64_bytes = 10 * 1024 * 1024"

definition hex_digit :: "char \<Rightarrow> bool" where
  "hex_digit c = (let n = (of_char c :: nat) in 48 \<le> n \<and> n \<le> 57 \<or> 97 \<le> n \<and> n \<le> 102)"

definition valid_media_id :: "string \<Rightarrow> bool" where
  "valid_media_id i \<longleftrightarrow> has_prefix ''media:'' i \<and> length i = length ''media:'' + 64 \<and>
     list_all hex_digit (drop (length ''media:'') i)"

section \<open>Outputs\<close>

record segment_spec =
  sp_kind :: string
  sp_text :: string
  sp_url :: string
  sp_path :: string
  sp_base64 :: string
  sp_name :: string
  sp_mime :: string
  sp_user :: string
  sp_message :: string
  sp_emoticon :: string

datatype build_error =
  FieldUnsupported string | IdRequired out_kind | UnsupportedOutput string | NotOneSource
  | InvalidMediaId | SourceIsUri | SourceUrlInvalid | Base64TooLarge | Base64Invalid
  | UnsupportedTiming | SegmentType string | SegmentFields | MimeNotImage | MimeMismatch

text \<open>\<open>trimSegment\<close> trims every field but the user.\<close>

definition trim_segment :: "segment_spec \<Rightarrow> segment_spec" where
  "trim_segment s = \<lparr>sp_kind = trim_space (sp_kind s), sp_text = trim_space (sp_text s),
     sp_url = trim_space (sp_url s), sp_path = trim_space (sp_path s), sp_base64 = trim_space (sp_base64 s),
     sp_name = trim_space (sp_name s), sp_mime = trim_space (sp_mime s), sp_user = sp_user s,
     sp_message = trim_space (sp_message s), sp_emoticon = trim_space (sp_emoticon s)\<rparr>"

fun reject_fields :: "(string \<times> string) list \<Rightarrow> build_error option" where
  "reject_fields [] = None"
| "reject_fields ((name, value) # fs) = (if value \<noteq> [] then Some (FieldUnsupported name) else reject_fields fs)"

fun media_reference :: "string list \<Rightarrow> string option" where
  "media_reference [] = None"
| "media_reference (v # vs) = (if has_prefix ''media:'' (to_lower v) then Some v else media_reference vs)"

definition join_base :: "string \<Rightarrow> string \<Rightarrow> string" where
  "join_base base p = (if \<not> is_abs p \<and> base \<noteq> [] then join_path base p else p)"

definition decode_source :: "string \<Rightarrow> build_error + string" where
  "decode_source s =
     (if max_base64_bytes < b64_decoded_len s then Inl Base64TooLarge
      else (case b64_decode s of None \<Rightarrow> Inl Base64Invalid | Some d \<Rightarrow> Inr d))"

definition build_media_source ::
    "(string \<Rightarrow> (string \<times> string) option) \<Rightarrow> segment_spec \<Rightarrow> string \<Rightarrow> build_error + out_source" where
  "build_media_source parse_url s base =
     (if length (filter (\<lambda>v. v \<noteq> []) [sp_path s, sp_url s, sp_base64 s]) \<noteq> 1 then Inl NotOneSource
      else let src = no_source\<lparr>os_mime := sp_mime s\<rparr>
        in (case media_reference [sp_path s, sp_url s, sp_base64 s] of
          Some v \<Rightarrow> if valid_media_id v then Inr (src\<lparr>os_media := v\<rparr>) else Inl InvalidMediaId
        | None \<Rightarrow>
            if sp_path s \<noteq> [] then
              (if contains_str (sp_path s) ''://'' then Inl SourceIsUri
               else Inr (src\<lparr>os_path :=
                 (if \<not> is_abs (sp_path s) \<and> trim_space base \<noteq> [] then join_path base (sp_path s) else sp_path s)\<rparr>))
            else if sp_url s \<noteq> [] then
              (if http_url parse_url (sp_url s) then Inr (src\<lparr>os_url := sp_url s\<rparr>) else Inl SourceUrlInvalid)
            else (case decode_source (sp_base64 s) of
                    Inl e \<Rightarrow> Inl e | Inr d \<Rightarrow> Inr (src\<lparr>os_data := d\<rparr>))))"

definition media_output ::
    "(string \<Rightarrow> (string \<times> string) option) \<Rightarrow> out_kind \<Rightarrow> segment_spec \<Rightarrow> string \<Rightarrow> build_error + delivery_output" where
  "media_output parse_url k s base =
     (case reject_fields [(''user_id'', sp_user s), (''message_id'', sp_message s), (''emoticon_id'', sp_emoticon s)] of
        Some e \<Rightarrow> Inl e
      | None \<Rightarrow> (case build_media_source parse_url s base of
            Inl e \<Rightarrow> Inl e
          | Inr src \<Rightarrow> Inr ((blank_output k)\<lparr>ou_text := sp_text s, ou_name := sp_name s, ou_source := src\<rparr>)))"

definition required_id :: "build_error option \<Rightarrow> out_kind \<Rightarrow> string \<Rightarrow> delivery_output \<Rightarrow> build_error + delivery_output" where
  "required_id rejected k i out = (case rejected of
     Some e \<Rightarrow> Inl e
   | None \<Rightarrow> if i = [] then Inl (IdRequired k) else Inr out)"

definition media_fields :: "segment_spec \<Rightarrow> (string \<times> string) list" where
  "media_fields s = [(''url'', sp_url s), (''path'', sp_path s), (''base64'', sp_base64 s)]"

definition kind_output ::
    "(string \<Rightarrow> (string \<times> string) option) \<Rightarrow> segment_spec \<Rightarrow> string \<Rightarrow> build_error + delivery_output" where
  "kind_output parse_url s base = (case kind_of (if sp_kind s = [] then ''text'' else sp_kind s) of
     OutText \<Rightarrow>
       (case reject_fields (media_fields s @ [(''name'', sp_name s), (''mime_type'', sp_mime s),
            (''user_id'', sp_user s), (''message_id'', sp_message s), (''emoticon_id'', sp_emoticon s)]) of
          Some e \<Rightarrow> Inl e | None \<Rightarrow> Inr (text_output (sp_text s)))
   | OutEmoticon \<Rightarrow>
       required_id (reject_fields (media_fields s @ [(''mime_type'', sp_mime s), (''user_id'', sp_user s),
            (''message_id'', sp_message s)])) OutEmoticon (sp_emoticon s)
         (emoticon_output (sp_emoticon s) (sp_name s))
   | OutAt \<Rightarrow>
       required_id (reject_fields ((''text'', sp_text s) # media_fields s @ [(''name'', sp_name s),
            (''mime_type'', sp_mime s), (''message_id'', sp_message s), (''emoticon_id'', sp_emoticon s)]))
         OutAt (sp_user s) (at_output (sp_user s))
   | OutReply \<Rightarrow>
       required_id (reject_fields (media_fields s @ [(''name'', sp_name s), (''mime_type'', sp_mime s),
            (''user_id'', sp_user s), (''emoticon_id'', sp_emoticon s)])) OutReply (sp_message s)
         (reply_output (sp_message s) (sp_text s))
   | OutOther k \<Rightarrow> Inl (UnsupportedOutput (sp_kind s))
   | k \<Rightarrow> media_output parse_url k s base)"

definition build_segment ::
    "(string \<Rightarrow> (string \<times> string) option) \<Rightarrow> segment_spec \<Rightarrow> string \<Rightarrow> out_target \<Rightarrow> string
     \<Rightarrow> build_error + delivery_output" where
  "build_segment parse_url spec base target timing = (case kind_output parse_url (trim_segment spec) base of
     Inl e \<Rightarrow> Inl e
   | Inr out \<Rightarrow> Inr (with_timing (out\<lparr>ou_target := target\<rparr>) timing))"

record output_group =
  og_outputs :: "segment_spec list"
  og_target :: out_target
  og_timing :: string

fun build_segments ::
    "(string \<Rightarrow> (string \<times> string) option) \<Rightarrow> nat \<Rightarrow> string \<Rightarrow> out_target \<Rightarrow> string \<Rightarrow> segment_spec list
     \<Rightarrow> (nat \<times> build_error) + delivery_output list" where
  "build_segments parse_url i base target timing [] = Inr []"
| "build_segments parse_url i base target timing (s # ss) = (case build_segment parse_url s base target timing of
     Inl e \<Rightarrow> Inl (i, e)
   | Inr out \<Rightarrow> (case build_segments parse_url (Suc i) base target timing ss of
       Inl e \<Rightarrow> Inl e | Inr outs \<Rightarrow> Inr (out # outs)))"

text \<open>The index of an error of the whole group is that of no output.\<close>

definition group_timing :: "output_group \<Rightarrow> string \<Rightarrow> string" where
  "group_timing g default_timing =
     (let t = trim_space (og_timing g) in if t = [] then trim_space default_timing else t)"

definition group_target :: "output_group \<Rightarrow> out_target \<Rightarrow> out_target" where
  "group_target g default_target = (if og_target g = empty_target then default_target else og_target g)"

definition build_group ::
    "(string \<Rightarrow> (string \<times> string) option) \<Rightarrow> output_group \<Rightarrow> string \<Rightarrow> out_target \<Rightarrow> string
     \<Rightarrow> (nat \<times> build_error) + delivery_output list" where
  "build_group parse_url g base default_target default_timing =
     (if \<not> timing_ok (group_timing g default_timing) then Inl (length (og_outputs g), UnsupportedTiming)
      else build_segments parse_url 0 base (group_target g default_target) (group_timing g default_timing) (og_outputs g))"

section \<open>Message segments of plugins\<close>

record message_spec =
  ms_type :: string
  ms_text :: string
  ms_url :: string
  ms_path :: string
  ms_base64 :: string
  ms_name :: string
  ms_mime :: string

definition decode_image_data_url :: "string \<Rightarrow> build_error + (string \<times> string)" where
  "decode_image_data_url v =
     (let (header, encoded, found) = cut_str '','' v; low = to_lower header
      in if \<not> found \<or> \<not> has_prefix ''data:image/'' low \<or> \<not> has_suffix '';base64'' low then Inl Base64Invalid
         else (case decode_source encoded of
           Inl e \<Rightarrow> Inl e
         | Inr d \<Rightarrow> Inr (drop 5 (take (length header - length '';base64'') header), d)))"

text \<open>\<open>normal_url\<close> stands for \<open>u.String\<close> with the scheme in lower case.\<close>

definition image_url_source ::
    "(string \<Rightarrow> (string \<times> string) option) \<Rightarrow> (string \<Rightarrow> string) \<Rightarrow> message_spec \<Rightarrow> build_error + out_source" where
  "image_url_source parse_url normal_url s =
     (let src = no_source\<lparr>os_mime := ms_mime s\<rparr> in
      case parse_url (ms_url s) of
        None \<Rightarrow> Inl SourceUrlInvalid
      | Some (scheme, host) \<Rightarrow>
          if to_lower scheme = ''data'' then
            (case decode_image_data_url (ms_url s) of
               Inl e \<Rightarrow> Inl e
             | Inr (mime, d) \<Rightarrow>
                 if ms_mime s \<noteq> [] \<and> \<not> equal_fold_ascii (ms_mime s) mime then Inl MimeMismatch
                 else Inr (src\<lparr>os_mime := mime, os_data := d\<rparr>))
          else if to_lower scheme \<in> {''http'', ''https''} then
            (if host = [] then Inl SourceUrlInvalid else Inr (src\<lparr>os_url := normal_url (ms_url s)\<rparr>))
          else Inl SourceUrlInvalid)"

definition message_image_source ::
    "(string \<Rightarrow> (string \<times> string) option) \<Rightarrow> (string \<Rightarrow> string) \<Rightarrow> message_spec \<Rightarrow> string \<Rightarrow> build_error + out_source" where
  "message_image_source parse_url normal_url s base =
     (if length (filter (\<lambda>v. v \<noteq> []) [ms_url s, ms_path s, ms_base64 s]) \<noteq> 1 then Inl NotOneSource
      else let src = no_source\<lparr>os_mime := ms_mime s\<rparr>
        in (case media_reference [ms_url s, ms_path s, ms_base64 s] of
          Some v \<Rightarrow> if valid_media_id v then Inr (src\<lparr>os_media := v\<rparr>) else Inl InvalidMediaId
        | None \<Rightarrow>
            if ms_mime s \<noteq> [] \<and> \<not> has_prefix ''image/'' (to_lower (ms_mime s)) then Inl MimeNotImage
            else if ms_url s \<noteq> [] then image_url_source parse_url normal_url s
            else if ms_path s \<noteq> [] then
              (if contains_str (ms_path s) ''://'' then Inl SourceIsUri
               else Inr (src\<lparr>os_path := join_base base (ms_path s)\<rparr>))
            else (case decode_source (ms_base64 s) of
                    Inl e \<Rightarrow> Inl e | Inr d \<Rightarrow> Inr (src\<lparr>os_data := d\<rparr>))))"

definition trim_message_spec :: "message_spec \<Rightarrow> message_spec" where
  "trim_message_spec s = s\<lparr>ms_type := trim_space (ms_type s), ms_url := trim_space (ms_url s),
     ms_path := trim_space (ms_path s), ms_base64 := trim_space (ms_base64 s),
     ms_name := trim_space (ms_name s), ms_mime := trim_space (ms_mime s)\<rparr>"

definition build_message_segment ::
    "(string \<Rightarrow> (string \<times> string) option) \<Rightarrow> (string \<Rightarrow> string) \<Rightarrow> message_spec \<Rightarrow> string \<Rightarrow> build_error + delivery_output" where
  "build_message_segment parse_url normal_url spec base =
     (let s = trim_message_spec spec in
      if ms_type s = ''text'' then
        (if ms_url s \<noteq> [] \<or> ms_path s \<noteq> [] \<or> ms_base64 s \<noteq> [] \<or> ms_name s \<noteq> [] \<or> ms_mime s \<noteq> []
         then Inl SegmentFields else Inr (text_output (ms_text s)))
      else if ms_type s = ''image'' then
        (case message_image_source parse_url normal_url s base of
           Inl e \<Rightarrow> Inl e
         | Inr src \<Rightarrow> Inr ((blank_output OutImage)\<lparr>ou_text := ms_text s, ou_name := ms_name s, ou_source := src\<rparr>))
      else Inl (SegmentType (ms_type s)))"

fun build_message_segments ::
    "(string \<Rightarrow> (string \<times> string) option) \<Rightarrow> (string \<Rightarrow> string) \<Rightarrow> nat \<Rightarrow> message_spec list \<Rightarrow> string
     \<Rightarrow> (nat \<times> build_error) + delivery_output list" where
  "build_message_segments parse_url normal_url i [] base = Inr []"
| "build_message_segments parse_url normal_url i (s # ss) base =
     (case build_message_segment parse_url normal_url s base of
        Inl e \<Rightarrow> Inl (i, e)
      | Inr out \<Rightarrow> (case build_message_segments parse_url normal_url (Suc i) ss base of
          Inl e \<Rightarrow> Inl e | Inr outs \<Rightarrow> Inr (out # outs)))"

end
