(* ===== verification/Hook_Output_Props.thy ===== *)
theory Hook_Output_Props
  imports Hook_Output
begin

text \<open>What the builder of outputs accepts is what the sender accepts.\<close>

section \<open>Trimmed strings and cleaned paths\<close>

definition solid :: "char \<Rightarrow> bool" where
  "solid c \<longleftrightarrow> 32 < (of_char c :: nat) \<and> (of_char c :: nat) < 128"

lemma solid_spaces:
  assumes "solid c"
  shows "\<not> ascii_space c" "\<not> space2 c x" "\<not> space3 c x y"
  using assms by (auto simp: solid_def ascii_space_def space2_def space3_def)

lemma lead_space_solid: "solid c \<Longrightarrow> lead_space (c # s) = 0"
  by (cases "c # s" rule: lead_space.cases) (auto simp: solid_spaces)

lemma tail_space_solid: "solid c \<Longrightarrow> tail_space (t @ [c]) \<le> length t"
  by (cases "t @ [c]" rule: tail_space.cases)
    (auto simp: solid_spaces append_eq_Cons_conv Cons_eq_append_conv)

lemma trim_rev_solid:
  assumes "solid c"
  shows "\<exists>t'. trim_rev (t @ [c]) = t' @ [c]"
proof (induction t rule: length_induct)
  case (1 t)
  show ?case
  proof (cases "tail_space (t @ [c]) = 0")
    case True
    then show ?thesis by (auto simp: trim_rev.simps [of "t @ [c]"])
  next
    case False
    let ?t = "drop (tail_space (t @ [c])) t"
    have le: "tail_space (t @ [c]) \<le> length t" by (rule tail_space_solid [OF assms])
    with False have "length ?t < length t" by simp
    with 1 obtain t' where "trim_rev (?t @ [c]) = t' @ [c]" by blast
    then show ?thesis using False le by (auto simp: trim_rev.simps [of "t @ [c]"])
  qed
qed

lemma trim_space_solid [simp]:
  assumes "solid c"
  shows "trim_space (c # s) \<noteq> []"
proof -
  have "trim_left (c # s) = c # s" by (rule trim_left_id [OF lead_space_solid [OF assms]])
  moreover obtain t where "trim_rev (rev s @ [c]) = t @ [c]" using trim_rev_solid [OF assms] by blast
  ultimately show ?thesis by (simp add: trim_space_def trim_right_def)
qed

lemma solid_chars [simp]: "solid slash" "solid CHR ''m''"
  by (simp_all add: solid_def slash_def)

lemma contains_str_append: "contains_str s p \<Longrightarrow> \<exists>a r. s = a @ p @ r"
proof -
  assume "contains_str s p"
  then obtain i where "index_of p s = Some i" by (auto simp: contains_str_def)
  from index_of_Some [OF this] have "take (length p) (drop i s) = p" by (simp add: has_prefix_def)
  then have "s = take i s @ p @ drop (length p) (drop i s)" by (metis append_take_drop_id)
  then show ?thesis by blast
qed

text \<open>A cleaned absolute path has no empty element, hence no \<open>://\<close>.\<close>

lemma clean_abs_no_scheme:
  assumes "is_abs s"
  shows "clean_path s \<noteq> a @ ''://'' @ r"
proof
  assume scheme: "clean_path s = a @ ''://'' @ r"
  let ?es = "clean_elems True (path_elems s)"
  have ok: "\<forall>e \<in> set ?es. elem_ok e" using clean_elems_ok path_elems_ok by blast
  have eq: "clean_path s = slash # join_str [slash] ?es" using assms by (simp add: clean_path_def render_path_def)
  have "clean_path s = (a @ '':'') @ slash # slash # r" using scheme by (simp add: slash_def)
  then have "split_char slash (clean_path s) = split_char slash (a @ '':'') @ [] # split_char slash r"
    using split_char_append_sep [of slash "a @ '':''" "slash # r"] by simp
  moreover obtain w ws where "split_char slash (a @ '':'') = w # ws"
    using split_char_nonempty by (metis neq_Nil_conv)
  ultimately have parts: "split_char slash (clean_path s) = w # ws @ [] # split_char slash r" by simp
  show False
  proof (cases "?es = []")
    case True
    moreover have "split_char slash r \<noteq> []" by simp
    ultimately show False using parts eq by (cases ws) (auto dest: sym)
  next
    case False
    have "split_char slash (clean_path s) = [] # split_char slash (join_str [slash] ?es)" unfolding eq by simp
    also have "split_char slash (join_str [slash] ?es) = ?es"
      using ok False by (intro split_join) (auto simp: elem_ok_def)
    finally have "?es = ws @ [] # split_char slash r" using parts by simp
    then have "[] \<in> set ?es" by (metis in_set_conv_decomp)
    with ok show False by (auto simp: elem_ok_def)
  qed
qed

lemma clean_abs_trim:
  assumes "is_abs s"
  shows "trim_space (clean_path s) \<noteq> []" "\<not> contains_str (trim_space (clean_path s)) ''://''"
proof -
  have head: "clean_path s = slash # join_str [slash] (clean_elems True (path_elems s))"
    using assms by (simp add: clean_path_def render_path_def)
  then show "trim_space (clean_path s) \<noteq> []" by simp
  have "trim_left (clean_path s) = clean_path s" unfolding head by (rule trim_left_id) (simp add: lead_space_solid)
  then obtain n where n: "trim_space (clean_path s) = take n (clean_path s)"
    using trim_right_prefix by (auto simp: trim_space_def)
  show "\<not> contains_str (trim_space (clean_path s)) ''://''"
  proof
    assume "contains_str (trim_space (clean_path s)) ''://''"
    then obtain a r where "take n (clean_path s) = a @ ''://'' @ r" using contains_str_append n by metis
    then have "clean_path s = a @ ''://'' @ r @ drop n (clean_path s)" by (metis append.assoc append_take_drop_id)
    with clean_abs_no_scheme [OF assms] show False by blast
  qed
qed

section \<open>Media\<close>

lemma b64_groups_nonempty: "b64_groups s = Some d \<Longrightarrow> s \<noteq> [] \<Longrightarrow> d \<noteq> []"
  by (cases s rule: b64_groups.cases) (auto simp: b64_bytes_def split: option.splits if_splits)

lemma b64_decode_nonempty:
  assumes "b64_decode s = Some d" "trim_space s = s" "s \<noteq> []"
  shows "d \<noteq> []"
proof -
  obtain c cs where s: "s = c # cs" using assms(3) by (cases s) auto
  have "lead_space s = 0" using trim_space_lead [of s] assms(2) by simp
  then have "\<not> ascii_space c" by (cases s rule: lead_space.cases) (auto simp: s split: if_splits)
  then have "c \<noteq> CHR 0x0A" "c \<noteq> CHR 0x0D" by (auto simp: ascii_space_def)
  then have "filter (\<lambda>c. c \<noteq> CHR 0x0A \<and> c \<noteq> CHR 0x0D) s \<noteq> []" by (simp add: s)
  with b64_groups_nonempty assms(1) show ?thesis by (auto simp: b64_decode_def)
qed

lemma media_reference_mem: "media_reference vs = Some v \<Longrightarrow> v \<in> set vs"
  by (induction vs) (auto split: if_splits)

lemma valid_media_id_trim: "valid_media_id v \<Longrightarrow> trim_space v \<noteq> []"
  by (auto simp: valid_media_id_def has_prefix_iff)

lemma media_source_ok:
  assumes src: "build_media_source parse_url (trim_segment spec) base = Inr src"
    and base: "base = [] \<or> is_abs base"
  shows "media_fault parse_url src = None"
proof -
  let ?s = "trim_segment spec"
  have trims: "trim_space (sp_path ?s) = sp_path ?s" "trim_space (sp_url ?s) = sp_url ?s"
    "trim_space (sp_base64 ?s) = sp_base64 ?s"
    by (simp_all add: trim_segment_def)
  have one: "length (filter (\<lambda>v. v \<noteq> []) [sp_path ?s, sp_url ?s, sp_base64 ?s]) = 1"
    using src by (simp add: build_media_source_def split: if_splits)
  show ?thesis
  proof (cases "media_reference [sp_path ?s, sp_url ?s, sp_base64 ?s]")
    case (Some v)
    then have "valid_media_id v" "src = no_source\<lparr>os_mime := sp_mime ?s, os_media := v\<rparr>"
      using src one by (auto simp: build_media_source_def Let_def split: if_splits)
    then show ?thesis
      using valid_media_id_trim [of v] by (simp add: media_fault_def source_count_def no_source_def contains_str_def)
  next
    case None
    show ?thesis
    proof (cases "sp_path ?s = []")
      case False
      let ?p = "if \<not> is_abs (sp_path ?s) \<and> trim_space base \<noteq> [] then join_path base (sp_path ?s) else sp_path ?s"
      have p: "\<not> contains_str (sp_path ?s) ''://''" "src = no_source\<lparr>os_mime := sp_mime ?s, os_path := ?p\<rparr>"
        using src one None False by (auto simp: build_media_source_def Let_def split: if_splits)
      have "trim_space ?p \<noteq> [] \<and> \<not> contains_str (trim_space ?p) ''://''"
      proof (cases "\<not> is_abs (sp_path ?s) \<and> trim_space base \<noteq> []")
        case False
        have "trim_space ?p = sp_path ?s" using trims by (simp add: if_not_P [OF False])
        with p(1) \<open>sp_path ?s \<noteq> []\<close> show ?thesis by simp
      next
        case True
        then have "base \<noteq> []" by auto
        with base have abs: "is_abs (base @ slash # sp_path ?s)" by (simp add: is_abs_append)
        have join: "?p = clean_path (base @ slash # sp_path ?s)"
          using True \<open>base \<noteq> []\<close> by (simp add: join_path_def)
        show ?thesis unfolding join using clean_abs_trim [OF abs] by simp
      qed
      then show ?thesis
        by (simp add: p(2) media_fault_def source_count_def no_source_def)
    next
      case True
      show ?thesis
      proof (cases "sp_url ?s = []")
        case False
        then have "http_url parse_url (sp_url ?s)" "src = no_source\<lparr>os_mime := sp_mime ?s, os_url := sp_url ?s\<rparr>"
          using src one None True by (auto simp: build_media_source_def Let_def split: if_splits)
        then show ?thesis using False trims
          by (simp add: media_fault_def source_count_def no_source_def contains_str_def)
      next
        case url: True
        then obtain d where d: "b64_decode (sp_base64 ?s) = Some d" "src = no_source\<lparr>os_mime := sp_mime ?s, os_data := d\<rparr>"
          using src one None True
          by (auto simp: build_media_source_def Let_def decode_source_def split: if_splits option.splits)
        have "sp_base64 ?s \<noteq> []" using one True url by auto
        with b64_decode_nonempty [OF d(1)] trims(3) d(2) show ?thesis
          by (simp add: media_fault_def source_count_def no_source_def contains_str_def)
      qed
    qed
  qed
qed

section \<open>Built outputs\<close>

text \<open>Two gaps are left to the describer: an emoticon needs a name, a mention a user that is not blank.\<close>

definition named_spec :: "segment_spec \<Rightarrow> bool" where
  "named_spec s \<longleftrightarrow> (kind_of (trim_space (sp_kind s)) = OutEmoticon \<longrightarrow> trim_space (sp_name s) \<noteq> []) \<and>
     (kind_of (trim_space (sp_kind s)) = OutAt \<longrightarrow> trim_space (sp_user s) \<noteq> [])"

lemma with_timing_fields [simp]:
  "ou_kind (with_timing out t) = ou_kind out" "ou_source (with_timing out t) = ou_source out"
  "ou_emoticon (with_timing out t) = ou_emoticon out" "ou_name (with_timing out t) = ou_name out"
  "ou_reply (with_timing out t) = ou_reply out" "ou_target (with_timing out t) = ou_target out"
  by (simp_all add: with_timing_def)

text \<open>What an output of each kind needs.\<close>

definition deliverable_as :: "(string \<Rightarrow> (string \<times> string) option) \<Rightarrow> delivery_output \<Rightarrow> bool" where
  "deliverable_as parse_url out = (case ou_kind out of
     OutText \<Rightarrow> source_count (ou_source out) = 0
   | OutEmoticon \<Rightarrow> source_count (ou_source out) = 0 \<and> trim_space (ou_emoticon out) \<noteq> [] \<and> trim_space (ou_name out) \<noteq> []
   | OutAt \<Rightarrow> trim_space (ou_name out) \<noteq> []
   | OutReply \<Rightarrow> trim_space (ou_reply out) \<noteq> []
   | OutOther k \<Rightarrow> False
   | k \<Rightarrow> media_fault parse_url (ou_source out) = None)"

lemma fault_of_timed:
  assumes "timing_ok timing" "deliverable_as parse_url out"
  shows "output_fault_of parse_url (with_timing (out\<lparr>ou_target := target\<rparr>) timing) = None"
proof -
  have "timing_ok (delivery_timing (with_timing (out\<lparr>ou_target := target\<rparr>) timing))"
    by (rule timing_ok_timing [OF assms(1)])
  then show ?thesis using assms(2) by (auto simp: output_fault_of_def deliverable_as_def split: out_kind.splits)
qed

lemma source_count_blank [simp]: "source_count no_source = 0"
  by (simp add: source_count_def no_source_def)

lemma trim_segment_fields:
  "sp_name (trim_segment s) = trim_space (sp_name s)" "sp_user (trim_segment s) = sp_user s"
  "sp_emoticon (trim_segment s) = trim_space (sp_emoticon s)" "sp_message (trim_segment s) = trim_space (sp_message s)"
  "sp_kind (trim_segment s) = trim_space (sp_kind s)"
  by (simp_all add: trim_segment_def)

lemma kind_output_deliverable:
  assumes out: "kind_output parse_url (trim_segment spec) base = Inr out"
    and base: "base = [] \<or> is_abs base" and named: "named_spec spec"
  shows "deliverable_as parse_url out"
proof -
  have media: "ou_kind o1 = k \<and> media_fault parse_url (ou_source o1) = None"
    if "media_output parse_url k (trim_segment spec) base = Inr o1" for k o1
    using that media_source_ok [OF _ base, of parse_url spec]
    by (auto simp: media_output_def blank_output_def split: option.splits sum.splits)
  have plain: "kind_of ''text'' = OutText" by (simp add: kind_of_def)
  show ?thesis
  proof (cases "kind_of (if sp_kind (trim_segment spec) = [] then ''text'' else sp_kind (trim_segment spec))")
    case OutText
    then show ?thesis using out by (auto simp: deliverable_as_def kind_output_def text_output_def blank_output_def split: option.splits)
  next
    case OutEmoticon
    then show ?thesis
      using out named plain
      by (auto simp: deliverable_as_def kind_output_def required_id_def emoticon_output_def blank_output_def trim_segment_fields
          named_spec_def split: option.splits if_splits)
  next
    case OutImage
    then show ?thesis using out media [of OutImage out] by (simp add: deliverable_as_def kind_output_def)
  next
    case OutFile
    then show ?thesis using out media [of OutFile out] by (simp add: deliverable_as_def kind_output_def)
  next
    case OutRecord
    then show ?thesis using out media [of OutRecord out] by (simp add: deliverable_as_def kind_output_def)
  next
    case OutAt
    then show ?thesis
      using out named plain
      by (auto simp: deliverable_as_def kind_output_def required_id_def at_output_def blank_output_def trim_segment_fields
          named_spec_def split: option.splits if_splits)
  next
    case OutReply
    then show ?thesis
      using out by (auto simp: deliverable_as_def kind_output_def required_id_def reply_output_def blank_output_def trim_segment_fields
          split: option.splits if_splits)
  next
    case (OutOther k)
    then show ?thesis using out by (simp add: kind_output_def)
  qed
qed

lemma build_segments_all:
  assumes "build_segments parse_url i base target timing ss = Inr outs"
  shows "length outs = length ss \<and> (\<forall>out \<in> set outs. \<exists>s \<in> set ss. build_segment parse_url s base target timing = Inr out)"
  using assms by (induction ss arbitrary: i outs) (fastforce split: sum.splits)+

text \<open>
  What the builder accepts the sender accepts.  If a group of outputs is built, with every
  emoticon named and every mention not blank, then every output passes the checks before sending,
  and the group has the one target it was given, so that it can be sent as one batch.
\<close>
lemma built_outputs_deliverable:
  assumes built: "build_group parse_url g base default_target default_timing = Inr outs"
    and base: "base = [] \<or> is_abs base" and named: "\<forall>s \<in> set (og_outputs g). named_spec s"
  shows "validate_outputs parse_url outs = None \<and> length outs = length (og_outputs g) \<and>
    (outs \<noteq> [] \<longrightarrow> outputs_target outs = Some (group_target g default_target))"
proof -
  let ?timing = "group_timing g default_timing" and ?target = "group_target g default_target"
  have timing: "timing_ok ?timing" and segs: "build_segments parse_url 0 base ?target ?timing (og_outputs g) = Inr outs"
    using built by (auto simp: build_group_def split: if_splits)
  have "output_fault_of parse_url out = None \<and> ou_target out = ?target" if mem: "out \<in> set outs" for out
  proof -
    from build_segments_all [OF segs] mem obtain s where s: "s \<in> set (og_outputs g)"
      "build_segment parse_url s base ?target ?timing = Inr out" by blast
    then obtain o1 where o1: "kind_output parse_url (trim_segment s) base = Inr o1"
      "out = with_timing (o1\<lparr>ou_target := ?target\<rparr>) ?timing"
      by (auto simp: build_segment_def split: sum.splits)
    note K = kind_output_deliverable [OF o1(1) base]
    have "named_spec s" using named s(1) by blast
    from K [OF this] fault_of_timed [OF timing] show ?thesis by (simp add: o1(2))
  qed
  then show ?thesis
    using build_segments_all [OF segs] outputs_target_same [of outs ?target]
    by (simp add: validate_outputs_def validate_from_None)
qed

definition plain_spec :: "string \<Rightarrow> segment_spec" where
  "plain_spec k = \<lparr>sp_kind = k, sp_text = [], sp_url = [], sp_path = [], sp_base64 = [], sp_name = [],
     sp_mime = [], sp_user = [], sp_message = [], sp_emoticon = []\<rparr>"

lemma built_outputs_deliverable_witness:
  "\<exists>outs. build_group (\<lambda>_. None)
      \<lparr>og_outputs = [(plain_spec ''image'')\<lparr>sp_path := ''../a''\<rparr>], og_target = empty_target, og_timing = []\<rparr> ''/d'' empty_target [] = Inr outs \<and>
    validate_outputs (\<lambda>_. None) outs = None \<and> length outs = 1"
proof -
  let ?g = "\<lparr>og_outputs = [(plain_spec ''image'')\<lparr>sp_path := ''../a''\<rparr>], og_target = empty_target, og_timing = []\<rparr>"
  have "\<exists>outs. build_group (\<lambda>_. None) ?g ''/d'' empty_target [] = Inr outs"
  proof -
    have "(case build_group (\<lambda>_. None) ?g ''/d'' empty_target [] of Inr outs \<Rightarrow> True | Inl e \<Rightarrow> False)" by code_simp
    then show ?thesis by (auto split: sum.splits)
  qed
  then obtain outs where outs: "build_group (\<lambda>_. None) ?g ''/d'' empty_target [] = Inr outs" by blast
  have "is_abs ''/d''" by code_simp
  moreover have "\<forall>s \<in> set (og_outputs ?g). named_spec s" by code_simp
  ultimately show ?thesis
    using built_outputs_deliverable [OF outs] outs by auto
qed

text \<open>An emoticon without a name is accepted when it is built and refused when it is sent.\<close>

lemma emoticon_without_name_undeliverable:
  "(case build_group (\<lambda>_. None) \<lparr>og_outputs = [(plain_spec ''emoticon'')\<lparr>sp_emoticon := ''14''\<rparr>],
        og_target = empty_target, og_timing = []\<rparr> [] empty_target [] of
      Inl e \<Rightarrow> False
    | Inr outs \<Rightarrow> validate_outputs (\<lambda>_. None) outs = Some (0, NoEmoticonName))"
  by code_simp

end
