(* ===== verification/Llm_Content.thy ===== *)
theory Llm_Content
  imports Llm_Segments Delivery_Output
begin

text \<open>
  Readable text of message segments (\<open>internal/llm/segment.go\<close>): text with a label for every image
  and file, and regular-expression replacement of the text.  \<open>url.Parse\<close> is the argument
  \<open>parse_url\<close> (scheme and host); the regular expressions are a record of the four functions of
  \<open>regexp\<close> that the program calls.  The labels are UTF-8.
\<close>

section \<open>Labels\<close>

definition label_named :: string where
  "label_named = [CHR 0xE5, CHR 0x90, CHR 0x8D, CHR 0xE7, CHR 0xA7, CHR 0xB0, CHR 0xEF, CHR 0xBC, CHR 0x9A]"

definition label_media_id :: string where
  "label_media_id = [CHR 0xE5, CHR 0xAA, CHR 0x92, CHR 0xE4, CHR 0xBD, CHR 0x93] @ '' ID'' @ [CHR 0xEF, CHR 0xBC, CHR
     0x9A]"

definition label_reference :: string where
  "label_reference = [CHR 0xE5, CHR 0xBC, CHR 0x95, CHR 0xE7, CHR 0x94, CHR 0xA8] @ '' URL'' @ [CHR 0xEF, CHR 0xBC, CHR
     0x9A]"

definition label_embedded :: string where
  "label_embedded = [CHR 0xE5, CHR 0x86, CHR 0x85, CHR 0xE5, CHR 0xB5, CHR 0x8C, CHR 0xE5, CHR 0x9B, CHR 0xBE, CHR 0xE7,
     CHR 0x89, CHR 0x87, CHR 0xEF, CHR 0xBC, CHR 0x8C, CHR 0xE6, CHR 0x97, CHR 0xA0, CHR 0xE5, CHR 0x8F,
     CHR 0xAF, CHR 0xE5, CHR 0xA4, CHR 0x8D, CHR 0xE7, CHR 0x94, CHR 0xA8] @ '' URL''"

definition label_no_url :: string where
  "label_no_url = [CHR 0xE6, CHR 0x97, CHR 0xA0, CHR 0xE5, CHR 0x8F, CHR 0xAF, CHR 0xE5, CHR 0xA4, CHR 0x8D, CHR 0xE7,
     CHR 0x94, CHR 0xA8] @ '' URL''"

definition label_separator :: string where
  "label_separator = [CHR 0xEF, CHR 0xBC, CHR 0x9B]"

section \<open>Images and files\<close>

text \<open>\<open>strings.EqualFold\<close> with http and https: the letter s also equals U+017F, which no scheme has.\<close>

definition reusable_image_url :: "(string \<Rightarrow> (string \<times> string) option) \<Rightarrow> string \<Rightarrow> string option" where
  "reusable_image_url parse_url v = (let u = trim_space v in
     case parse_url u of
       None \<Rightarrow> None
     | Some (scheme, host) \<Rightarrow>
         if host = [] \<or> \<not> equal_fold_ascii scheme ''http'' \<and> \<not> equal_fold_ascii scheme ''https'' then None
         else Some u)"

definition is_data_url :: "string \<Rightarrow> bool" where
  "is_data_url v \<longleftrightarrow> has_prefix ''data:'' (to_lower (trim_space v))"

definition image_reference_text :: "(string \<Rightarrow> (string \<times> string) option) \<Rightarrow> message_segment \<Rightarrow> nat \<Rightarrow> string" where
  "image_reference_text parse_url s i =
     (if seg_type s \<noteq> SegmentImage \<or> i < 1 \<or> trim_space (seg_url s) = [] \<and> seg_media s = [] then []
      else let name = trim_space (seg_name s);
        place = (if seg_media s \<noteq> [] then label_media_id @ seg_media s
          else (case reusable_image_url parse_url (seg_url s) of
            Some u \<Rightarrow> label_reference @ u
          | None \<Rightarrow> if is_data_url (seg_url s) then label_embedded else label_no_url))
      in ''['' @ join_str label_separator ([label_image @ '' '' @ nat_str i] @
           (if name \<noteq> [] then [label_named @ name] else []) @ [place]) @ '']'')"

definition display_segment_url :: "string \<Rightarrow> string" where
  "display_segment_url v = (if is_data_url v then [] else v)"

definition write_segment_text :: "string \<Rightarrow> string \<Rightarrow> string" where
  "write_segment_text out v = (if v = [] then out else if out \<noteq> [] then out @ '' '' @ v else out @ v)"

definition write_segment_label :: "string \<Rightarrow> string \<Rightarrow> string list \<Rightarrow> string" where
  "write_segment_label out kind vs =
     out @ (if out \<noteq> [] then '' '' else []) @ ''['' @ kind @
     (let v = first_non_empty vs in if v \<noteq> [] then '': '' @ v else []) @ '']''"

fun raw_content_from :: "(string \<Rightarrow> (string \<times> string) option) \<Rightarrow> string \<Rightarrow> nat \<Rightarrow> message_segment list \<Rightarrow> string" where
  "raw_content_from parse_url out images [] = out"
| "raw_content_from parse_url out images (s # ss) = (case seg_type s of
     SegmentText \<Rightarrow> raw_content_from parse_url (out @ seg_text s) images ss
   | SegmentImage \<Rightarrow>
       if trim_space (seg_url s) \<noteq> [] \<or> seg_media s \<noteq> [] then
         raw_content_from parse_url (write_segment_text out (image_reference_text parse_url s (Suc images))) (Suc images) ss
       else raw_content_from parse_url
         (write_segment_label out label_image [[], seg_name s, seg_text s, seg_mime s]) images ss
   | SegmentFile \<Rightarrow> raw_content_from parse_url
       (write_segment_label out label_file
         [if seg_media s \<noteq> [] then seg_media s else display_segment_url (seg_url s), seg_name s, seg_text s, seg_mime s]) images ss
   | SegmentOther k \<Rightarrow> raw_content_from parse_url out images ss)"

definition segments_raw_content_text :: "(string \<Rightarrow> (string \<times> string) option) \<Rightarrow> message_segment list \<Rightarrow> string" where
  "segments_raw_content_text parse_url ss = raw_content_from parse_url [] 0 ss"

definition segments_content_text :: "(string \<Rightarrow> (string \<times> string) option) \<Rightarrow> message_segment list \<Rightarrow> string" where
  "segments_content_text parse_url ss = trim_space (segments_raw_content_text parse_url ss)"

section \<open>Regular expressions\<close>

text \<open>
  \<open>rx_valid\<close> is \<open>Compile\<close> without error, \<open>rx_find\<close> is \<open>FindStringSubmatchIndex\<close> with \<open>None\<close> for
  no match, \<open>rx_names\<close> \<open>SubexpNames\<close> and \<open>rx_replace\<close> \<open>ReplaceAllString\<close> (text, replacement).
\<close>

record regex_engine =
  rx_valid :: "string \<Rightarrow> bool"
  rx_find :: "string \<Rightarrow> string \<Rightarrow> int list option"
  rx_names :: "string \<Rightarrow> string list"
  rx_replace :: "string \<Rightarrow> string \<Rightarrow> string \<Rightarrow> string"

text \<open>A match is a list of pairs of offsets, the first that of the whole match, a pair of -1 for a group that took no part.\<close>

definition offsets_ok :: "string \<Rightarrow> int list \<Rightarrow> bool" where
  "offsets_ok v is \<longleftrightarrow> 2 \<le> length is \<and> even (length is) \<and> 0 \<le> is ! 0 \<and> 0 \<le> is ! 1 \<and>
     list_all (\<lambda>i. is ! (2 * i) < 0 \<or> is ! (2 * i + 1) < 0 \<or>
       is ! (2 * i) \<le> is ! (2 * i + 1) \<and> is ! (2 * i + 1) \<le> int (length v)) [0..<length is div 2]"

definition engine_ok :: "regex_engine \<Rightarrow> bool" where
  "engine_ok E \<longleftrightarrow> (\<forall>p v is. rx_valid E p \<longrightarrow> rx_find E p v = Some is \<longrightarrow> offsets_ok v is)"

definition replace_first :: "regex_engine \<Rightarrow> string \<Rightarrow> string \<Rightarrow> string \<Rightarrow> string option" where
  "replace_first E pat repl t = (case rx_find E pat t of
     Some (a # b # rest) \<Rightarrow>
       Some (take (nat a) t @ rx_replace E pat (drop (nat a) (take (nat b) t)) repl @ drop (nat b) t)
   | _ \<Rightarrow> None)"

fun replace_first_segment :: "regex_engine \<Rightarrow> string \<Rightarrow> string \<Rightarrow> message_segment list \<Rightarrow> message_segment list" where
  "replace_first_segment E pat repl [] = []"
| "replace_first_segment E pat repl (s # ss) =
     (if \<not> is_text s then s # replace_first_segment E pat repl ss
      else (case replace_first E pat repl (seg_text s) of
          None \<Rightarrow> s # replace_first_segment E pat repl ss
        | Some t \<Rightarrow> s\<lparr>seg_text := t\<rparr> # ss))"

definition replace_segment_text :: "regex_engine \<Rightarrow> message_segment list \<Rightarrow> string \<Rightarrow> string \<Rightarrow> bool \<Rightarrow> message_segment list" where
  "replace_segment_text E segs pat repl everywhere =
     (if everywhere then map (\<lambda>s. if is_text s then s\<lparr>seg_text := rx_replace E pat (seg_text s) repl\<rparr> else s) segs
      else replace_first_segment E pat repl segs)"

section \<open>Lemmas\<close>

lemma replace_first_segment_keeps:
  "filter (\<lambda>s. \<not> is_text s) (replace_first_segment E pat repl segs) = filter (\<lambda>s. \<not> is_text s) segs"
  by (induction segs) (auto split: option.split)

lemma replace_segment_text_keeps:
  "filter (\<lambda>s. \<not> is_text s) (replace_segment_text E segs pat repl everywhere) = filter (\<lambda>s. \<not> is_text s) segs"
proof -
  have "filter (\<lambda>s. \<not> is_text s) (map (\<lambda>s. if is_text s then s\<lparr>seg_text := f (seg_text s)\<rparr> else s) segs) =
      filter (\<lambda>s. \<not> is_text s) segs" for f
    by (induction segs) auto
  from this [of "\<lambda>t. rx_replace E pat t repl"] show ?thesis
    by (simp add: replace_segment_text_def replace_first_segment_keeps)
qed

end
