(* ===== verification/Hook_Event.thy ===== *)
theory Hook_Event
  imports Llm_Content Hook_Output "HOL-Library.AList"
begin

text \<open>
  Hook events and the stateless part of their matching (\<open>internal/hook/share/event.go\<close>,
  \<open>match.go\<close>): the fields a rule may read, conditions and their captures, and the policy that
  blocks a plugin for a platform, a group or a user.  Fields of the event that no rule reads
  (times, identifiers, raw messages, usage) are left out; \<open>ev_match\<close> is the entry \<open>match\<close> of the
  metadata, the only one this code uses.
\<close>

section \<open>Events\<close>

datatype hook_point =
  PlatformConnected | PlatformMessageReceived | AgentInputPrepared | LlmTurnPrepared | LlmRequestPrepared
  | LlmResponseReceived | ToolCallPrepared | ToolCallCompleted | AgentOutputPrepared
  | AgentTurnOutputPrepared | PlatformMessageSent | ErrorOccurred

definition point_of :: "string \<Rightarrow> hook_point option" where
  "point_of s = map_of
     [(''platform.connected'', PlatformConnected), (''platform.message.received'', PlatformMessageReceived),
      (''agent.input.prepared'', AgentInputPrepared), (''llm.turn.prepared'', LlmTurnPrepared),
      (''llm.request.prepared'', LlmRequestPrepared), (''llm.response.received'', LlmResponseReceived),
      (''tool.call.prepared'', ToolCallPrepared), (''tool.call.completed'', ToolCallCompleted),
      (''agent.output.prepared'', AgentOutputPrepared), (''agent.turn.output.prepared'', AgentTurnOutputPrepared),
      (''platform.message.sent'', PlatformMessageSent), (''error.occurred'', ErrorOccurred)] s"

record hook_control =
  hc_consume :: bool
  hc_stop :: bool

record chat_context =
  ch_platform :: string
  ch_type :: string
  ch_id :: string
  ch_name :: string
  ch_message :: string
  ch_reply_to :: string

record actor_context =
  ac_platform :: string
  ac_role :: string
  ac_group_role :: string
  ac_id :: string
  ac_nickname :: string
  ac_card :: string
  ac_name :: string

record session_context =
  ss_id :: string
  ss_mode :: string
  ss_title :: string
  ss_status :: string

record request_context =
  rqc_id :: string
  rqc_kind :: string
  rqc_session :: string
  rqc_phase :: string

record reply_payload =
  rp_id :: string
  rp_sender :: string
  rp_text :: string
  rp_display :: string

record message_payload =
  mp_id :: string
  mp_role :: string
  mp_platform_text :: string
  mp_intent :: string
  mp_reply :: "reply_payload option"
  mp_segments :: "message_segment list"

record tool_call =
  tc_id :: string
  tc_name :: string
  tc_arguments :: string

record llm_payload =
  lp_provider :: string
  lp_model :: string
  lp_source :: string
  lp_text :: string
  lp_calls :: "tool_call list"

record tool_payload =
  tp_id :: string
  tp_name :: string
  tp_arguments :: string
  tp_risk :: string
  tp_result :: string

record regex_match =
  rm_field :: string
  rm_pattern :: string
  rm_text :: string
  rm_groups :: "string list"
  rm_named :: "(string \<times> string) list"
  rm_start :: int
  rm_end :: int

record hook_event =
  ev_point :: hook_point
  ev_match :: "regex_match list"
  ev_control :: hook_control
  ev_chat :: chat_context
  ev_actor :: actor_context
  ev_session :: session_context
  ev_request :: request_context
  ev_message :: message_payload
  ev_llm :: llm_payload
  ev_tool :: tool_payload
  ev_outputs :: "delivery_output list"
  ev_error :: "string option"
  ev_error_info :: "string option"

text \<open>\<open>PrepareEvent\<close> without the clock.  Event values are copied here, as \<open>SnapshotCalls\<close> does.\<close>

definition prepare_event :: "hook_event \<Rightarrow> hook_event" where
  "prepare_event e = (case (ev_error_info e, ev_error e) of
     (None, Some m) \<Rightarrow> e\<lparr>ev_error_info := Some m\<rparr> | _ \<Rightarrow> e)"

definition event_error_message :: "hook_event \<Rightarrow> string" where
  "event_error_message e = (case ev_error_info e of
     Some m \<Rightarrow> m | None \<Rightarrow> (case ev_error e of Some m \<Rightarrow> m | None \<Rightarrow> []))"

definition message_intent_text :: "hook_event \<Rightarrow> string" where
  "message_intent_text e =
     (if trim_space (mp_intent (ev_message e)) \<noteq> [] then trim_space (mp_intent (ev_message e))
      else segments_text_only (mp_segments (ev_message e)))"

definition reply_field :: "(reply_payload \<Rightarrow> string) \<Rightarrow> hook_event \<Rightarrow> string" where
  "reply_field f e = (case mp_reply (ev_message e) of None \<Rightarrow> [] | Some r \<Rightarrow> f r)"

section \<open>Fields\<close>

text \<open>\<open>templateFields\<close> with the value \<open>FieldValue\<close> gives each of them.\<close>

definition field_table :: "(string \<Rightarrow> (string \<times> string) option) \<Rightarrow> (string \<times> (hook_event \<Rightarrow> string)) list" where
  "field_table parse_url =
    [(''chat.platform'', \<lambda>e. ch_platform (ev_chat e)),
     (''chat.chat_type'', \<lambda>e. ch_type (ev_chat e)),
     (''chat.name'', \<lambda>e. ch_name (ev_chat e)),
     (''chat.id'', \<lambda>e. ch_id (ev_chat e)),
     (''chat.message_id'', \<lambda>e. ch_message (ev_chat e)),
     (''chat.reply_to_message_id'', \<lambda>e. ch_reply_to (ev_chat e)),
     (''actor.platform'', \<lambda>e. ac_platform (ev_actor e)),
     (''actor.id'', \<lambda>e. ac_id (ev_actor e)),
     (''actor.role'', \<lambda>e. ac_role (ev_actor e)),
     (''actor.group_role'', \<lambda>e. ac_group_role (ev_actor e)),
     (''actor.name'', \<lambda>e. ac_name (ev_actor e)),
     (''actor.nickname'', \<lambda>e. ac_nickname (ev_actor e)),
     (''actor.group_card'', \<lambda>e. ac_card (ev_actor e)),
     (''session.id'', \<lambda>e. ss_id (ev_session e)),
     (''session.mode'', \<lambda>e. ss_mode (ev_session e)),
     (''session.title'', \<lambda>e. ss_title (ev_session e)),
     (''session.status'', \<lambda>e. ss_status (ev_session e)),
     (''request.id'', \<lambda>e. rqc_id (ev_request e)),
     (''request.kind'', \<lambda>e. rqc_kind (ev_request e)),
     (''request.session_id'', \<lambda>e. rqc_session (ev_request e)),
     (''request.phase'', \<lambda>e. rqc_phase (ev_request e)),
     (''message.id'', \<lambda>e. mp_id (ev_message e)),
     (''message.text'', \<lambda>e. segments_text_only (mp_segments (ev_message e))),
     (''message.display_text'', \<lambda>e. segments_content_text parse_url (mp_segments (ev_message e))),
     (''message.platform_text'', \<lambda>e. mp_platform_text (ev_message e)),
     (''message.intent_text'', \<lambda>e. message_intent_text e),
     (''message.role'', \<lambda>e. mp_role (ev_message e)),
     (''message.reply.message_id'', \<lambda>e. reply_field rp_id e),
     (''message.reply.sender_id'', \<lambda>e. reply_field rp_sender e),
     (''message.reply.text'', \<lambda>e. reply_field rp_text e),
     (''message.reply.display_text'', \<lambda>e. reply_field rp_display e),
     (''llm.text'', \<lambda>e. lp_text (ev_llm e)),
     (''llm.source_text'', \<lambda>e. lp_source (ev_llm e)),
     (''llm.latest_user_text'', \<lambda>e. segments_text_only (mp_segments (ev_message e))),
     (''llm.latest_user_display_text'', \<lambda>e. segments_content_text parse_url (mp_segments (ev_message e))),
     (''llm.provider'', \<lambda>e. lp_provider (ev_llm e)),
     (''llm.model'', \<lambda>e. lp_model (ev_llm e)),
     (''tool.name'', \<lambda>e. tp_name (ev_tool e)),
     (''tool.arguments'', \<lambda>e. tp_arguments (ev_tool e)),
     (''tool.result'', \<lambda>e. tp_result (ev_tool e)),
     (''tool.risk'', \<lambda>e. tp_risk (ev_tool e)),
     (''error.message'', \<lambda>e. event_error_message e)]"

definition template_fields :: "string list" where
  "template_fields = map fst (field_table (\<lambda>_. None))"

definition known_field :: "string \<Rightarrow> bool" where
  "known_field f \<longleftrightarrow> trim_space f \<in> set template_fields"

definition field_value :: "(string \<Rightarrow> (string \<times> string) option) \<Rightarrow> hook_event \<Rightarrow> string \<Rightarrow> string" where
  "field_value parse_url e f = (case map_of (field_table parse_url) (trim_space f) of None \<Rightarrow> [] | Some g \<Rightarrow> g e)"

definition template_values :: "(string \<Rightarrow> (string \<times> string) option) \<Rightarrow> hook_event \<Rightarrow> (string \<times> string) list" where
  "template_values parse_url e = map (\<lambda>f. (''{{'' @ f @ ''}}'', field_value parse_url e f)) template_fields"

section \<open>Conditions\<close>

record hook_condition =
  hk_field :: string
  hk_op :: string
  hk_value :: string

datatype match_op = MatchAlways | MatchExists | MatchContains | MatchFull | MatchPrefix | MatchSuffix | MatchRegex

definition match_op_of :: "string \<Rightarrow> match_op option" where
  "match_op_of s = map_of [(''always'', MatchAlways), (''exists'', MatchExists), (''contains'', MatchContains),
     (''fullmatch'', MatchFull), (''startswith'', MatchPrefix), (''endswith'', MatchSuffix), (''regex'', MatchRegex)] s"

definition needs_match_value :: "match_op \<Rightarrow> bool" where
  "needs_match_value p \<longleftrightarrow> p \<in> {MatchContains, MatchFull, MatchPrefix, MatchSuffix, MatchRegex}"

datatype condition_error =
  OpRequired | OpUnknown string | AlwaysWithField | FieldUnknown string | ValueRequired | RegexInvalid

definition validate_condition :: "regex_engine \<Rightarrow> hook_condition \<Rightarrow> condition_error option" where
  "validate_condition E c = (let op = trim_space (hk_op c) in
     if op = [] then Some OpRequired
     else (case match_op_of op of
       None \<Rightarrow> Some (OpUnknown op)
     | Some p \<Rightarrow>
         if p = MatchAlways then
           (if trim_space (hk_field c) \<noteq> [] \<or> trim_space (hk_value c) \<noteq> [] then Some AlwaysWithField else None)
         else if \<not> known_field (hk_field c) then Some (FieldUnknown (hk_field c))
         else if needs_match_value p \<and> hk_value c = [] then Some ValueRequired
         else if p = MatchRegex \<and> \<not> rx_valid E (hk_value c) then Some RegexInvalid
         else None))"

datatype match_fault = NoCondition | ConditionInvalid nat condition_error

fun validate_conditions :: "regex_engine \<Rightarrow> nat \<Rightarrow> hook_condition list \<Rightarrow> match_fault option" where
  "validate_conditions E i [] = None"
| "validate_conditions E i (c # cs) = (case validate_condition E c of
     Some e \<Rightarrow> Some (ConditionInvalid i e) | None \<Rightarrow> validate_conditions E (Suc i) cs)"

definition validate_match :: "regex_engine \<Rightarrow> hook_condition list \<Rightarrow> match_fault option" where
  "validate_match E cs = (if cs = [] then Some NoCondition else validate_conditions E 1 cs)"

text \<open>\<open>None\<close> is a panic: \<open>MustCompile\<close> of an invalid pattern, or offsets out of range.\<close>

definition group_text :: "string \<Rightarrow> int \<Rightarrow> int \<Rightarrow> string option" where
  "group_text v a b =
     (if 0 \<le> a \<and> 0 \<le> b then
        (if a \<le> b \<and> b \<le> int (length v) then Some (drop (nat a) (take (nat b) v)) else None)
      else Some [])"

fun group_texts :: "string \<Rightarrow> int list \<Rightarrow> string list option" where
  "group_texts v (a # b # is) = (case group_text v a b of
     None \<Rightarrow> None | Some g \<Rightarrow> map_option (\<lambda>gs. g # gs) (group_texts v is))"
| "group_texts v [] = Some []"
| "group_texts v [a] = None"

definition named_groups :: "string list \<Rightarrow> string list \<Rightarrow> (string \<times> string) list" where
  "named_groups names gs =
     foldl (\<lambda>m (n, g). if trim_space n \<noteq> [] then AList.update n g m else m) [] (zip names gs)"

definition regex_match_context :: "regex_engine \<Rightarrow> string \<Rightarrow> string \<Rightarrow> string \<Rightarrow> regex_match option option" where
  "regex_match_context E f pat v =
     (if \<not> rx_valid E pat then None
      else (case rx_find E pat v of
        None \<Rightarrow> Some None
      | Some is \<Rightarrow>
          (case group_texts v is of
             Some (g # gs) \<Rightarrow> Some (Some \<lparr>rm_field = f, rm_pattern = pat, rm_text = g, rm_groups = g # gs,
               rm_named = named_groups (rx_names E pat) (g # gs), rm_start = is ! 0, rm_end = is ! 1\<rparr>)
           | _ \<Rightarrow> None)))"

definition match_condition ::
    "regex_engine \<Rightarrow> (string \<Rightarrow> (string \<times> string) option) \<Rightarrow> hook_event \<Rightarrow> hook_condition
     \<Rightarrow> (bool \<times> regex_match option) option" where
  "match_condition E parse_url e c = (let v = field_value parse_url e (hk_field c) in
     case match_op_of (trim_space (hk_op c)) of
       None \<Rightarrow> Some (False, None)
     | Some MatchAlways \<Rightarrow> Some (True, None)
     | Some MatchExists \<Rightarrow> Some (v \<noteq> [], None)
     | Some MatchContains \<Rightarrow> Some (contains_str v (hk_value c), None)
     | Some MatchFull \<Rightarrow> Some (v = hk_value c, None)
     | Some MatchPrefix \<Rightarrow> Some (has_prefix (hk_value c) v, None)
     | Some MatchSuffix \<Rightarrow> Some (has_suffix (hk_value c) v, None)
     | Some MatchRegex \<Rightarrow> map_option (\<lambda>m. (m \<noteq> None, m)) (regex_match_context E (hk_field c) (hk_value c) v))"

text \<open>\<open>MatchEvent\<close>: \<open>None\<close> is a panic, \<open>Some None\<close> no match.\<close>

fun match_event ::
    "regex_engine \<Rightarrow> (string \<Rightarrow> (string \<times> string) option) \<Rightarrow> hook_event \<Rightarrow> hook_condition list
     \<Rightarrow> regex_match list option option" where
  "match_event E parse_url e [] = Some (Some [])"
| "match_event E parse_url e (c # cs) = (case match_condition E parse_url e c of
     None \<Rightarrow> None
   | Some (ok, capture) \<Rightarrow>
       if \<not> ok then Some None
       else map_option (map_option (\<lambda>ms. (case capture of None \<Rightarrow> ms | Some m \<Rightarrow> m # ms))) (match_event E parse_url e cs))"

section \<open>Blocking\<close>

record block_policy =
  bp_platforms :: "string list"
  bp_groups :: "(string \<times> string) list"
  bp_users :: "(string \<times> string) list"

datatype block_error = EmptyPlatform string | EmptyId string string

fun trim_platforms :: "string list \<Rightarrow> block_error + string list" where
  "trim_platforms [] = Inr []"
| "trim_platforms (p # ps) =
     (if trim_space p = [] then Inl (EmptyPlatform ''blocked_platform'')
      else (case trim_platforms ps of Inl e \<Rightarrow> Inl e | Inr qs \<Rightarrow> Inr (trim_space p # qs)))"

fun trim_ids :: "string \<Rightarrow> string \<Rightarrow> string list \<Rightarrow> block_error + (string \<times> string) list" where
  "trim_ids name p [] = Inr []"
| "trim_ids name p (i # is) =
     (if trim_space i = [] then Inl (EmptyId name p)
      else (case trim_ids name p is of Inl e \<Rightarrow> Inl e | Inr js \<Rightarrow> Inr ((p, trim_space i) # js)))"

fun trim_table :: "string \<Rightarrow> (string \<times> string list) list \<Rightarrow> block_error + (string \<times> string) list" where
  "trim_table name [] = Inr []"
| "trim_table name ((p, is) # rest) =
     (if trim_space p = [] then Inl (EmptyPlatform name)
      else (case trim_ids name (trim_space p) is of
        Inl e \<Rightarrow> Inl e
      | Inr js \<Rightarrow> (case trim_table name rest of Inl e \<Rightarrow> Inl e | Inr ks \<Rightarrow> Inr (js @ ks))))"

text \<open>The two tables are maps of the configuration, here lists in any order of iteration.\<close>

definition new_block_policy ::
    "string list \<Rightarrow> (string \<times> string list) list \<Rightarrow> (string \<times> string list) list \<Rightarrow> block_error + block_policy" where
  "new_block_policy platforms groups users = (case trim_platforms platforms of
     Inl e \<Rightarrow> Inl e
   | Inr ps \<Rightarrow> (case trim_table ''blocked_group'' groups of
       Inl e \<Rightarrow> Inl e
     | Inr gs \<Rightarrow> (case trim_table ''blocked_id'' users of
         Inl e \<Rightarrow> Inl e
       | Inr us \<Rightarrow> Inr \<lparr>bp_platforms = ps, bp_groups = gs, bp_users = us\<rparr>)))"

definition blocks_event :: "block_policy \<Rightarrow> hook_event \<Rightarrow> bool" where
  "blocks_event b e \<longleftrightarrow> ch_platform (ev_chat e) \<in> set (bp_platforms b) \<or>
     ch_type (ev_chat e) = ''group'' \<and> (ch_platform (ev_chat e), ch_id (ev_chat e)) \<in> set (bp_groups b) \<or>
     (ac_platform (ev_actor e), ac_id (ev_actor e)) \<in> set (bp_users b)"

section \<open>Lemmas\<close>

lemma validate_conditions_None:
  "validate_conditions E i cs = None \<longleftrightarrow> (\<forall>c \<in> set cs. validate_condition E c = None)"
  by (induction cs arbitrary: i) (auto split: option.splits)

lemma group_texts_ok:
  assumes "even (length is)" "\<And>i. i < length is div 2 \<Longrightarrow> is ! (2 * i) < 0 \<or> is ! (2 * i + 1) < 0 \<or>
      is ! (2 * i) \<le> is ! (2 * i + 1) \<and> is ! (2 * i + 1) \<le> int (length v)"
  shows "\<exists>gs. group_texts v is = Some gs \<and> length gs = length is div 2"
  using assms
proof (induction v "is" rule: group_texts.induct)
  case (1 v a b "is")
  have "is ! (2 * i) < 0 \<or> is ! (2 * i + 1) < 0 \<or>
      is ! (2 * i) \<le> is ! (2 * i + 1) \<and> is ! (2 * i + 1) \<le> int (length v)" if "i < length is div 2" for i
    using "1.prems"(2) [of "Suc i"] that by simp
  moreover have "\<exists>g. group_text v a b = Some g" using "1.prems"(2) [of 0] by (auto simp: group_text_def)
  then obtain g where g: "group_text v a b = Some g" by blast
  ultimately obtain gs where "group_texts v is = Some gs \<and> length gs = length is div 2"
    using "1.IH" [OF g] "1.prems"(1) by auto
  with g show ?case by simp
qed auto

lemma regex_match_total:
  assumes "engine_ok E" "rx_valid E pat"
  shows "regex_match_context E f pat v \<noteq> None"
proof (cases "rx_find E pat v")
  case None
  with assms(2) show ?thesis by (simp add: regex_match_context_def)
next
  case (Some ls)
  with assms have ok: "offsets_ok v ls" by (auto simp: engine_ok_def)
  obtain gs where gs: "group_texts v ls = Some gs" "length gs = length ls div 2"
    using group_texts_ok [of ls v] ok by (auto simp: offsets_ok_def list_all_iff)
  moreover have "gs \<noteq> []" using gs(2) ok by (auto simp: offsets_ok_def)
  ultimately show ?thesis using assms(2) Some by (cases gs) (simp_all add: regex_match_context_def)
qed

lemma match_condition_total:
  assumes "engine_ok E" "validate_condition E c = None"
  shows "match_condition E parse_url e c \<noteq> None"
proof -
  obtain p where p: "match_op_of (trim_space (hk_op c)) = Some p"
    using assms(2) by (auto simp: validate_condition_def Let_def split: if_splits option.splits)
  have "rx_valid E (hk_value c)" if "p = MatchRegex"
    using assms(2) p that by (auto simp: validate_condition_def Let_def split: if_splits)
  then show ?thesis
    using p regex_match_total [OF assms(1)] by (cases p) (auto simp: match_condition_def Let_def)
qed

text \<open>Validated conditions are matched without a panic.\<close>

lemma match_event_total:
  assumes "engine_ok E" "\<forall>c \<in> set cs. validate_condition E c = None"
  shows "match_event E parse_url e cs \<noteq> None"
  using assms(2)
proof (induction cs)
  case (Cons c cs)
  then obtain r where "match_condition E parse_url e c = Some r"
    using match_condition_total [OF assms(1), of c] by fastforce
  with Cons show ?case by (cases r) simp
qed simp

end
