(* ===== verification/Hook_Rules.thy ===== *)
theory Hook_Rules
  imports Hook_Event "HOL-Library.Word"
begin

text \<open>
  Rules of hooks (\<open>internal/hook/rules/rule.go\<close>, \<open>action.go\<close>, the results of \<open>exec.go\<close>): a rule
  edits the text its hook point allows, prepares outputs, calls tools and processes, and decides
  whether the event is consumed.  Everything outside (processes, tools, workers, media import) is
  a record of functions; each gets the number of the action, so that equal calls may have
  different answers.  The order in which Go walks a map is such a function too.
\<close>

section \<open>Data\<close>

record rule_source =
  rs_plugin :: string
  rs_base :: string
  rs_strict :: string
  rs_original :: string
  rs_final :: string
  rs_runtime :: string
  rs_block :: block_policy

record rule_action =
  ra_name :: string
  ra_type :: string
  ra_field :: string
  ra_text :: string
  ra_pattern :: string
  ra_replace :: string
  ra_spec :: segment_spec
  ra_timing :: string
  ra_tool :: string
  ra_arguments :: string
  ra_all :: bool
  ra_command :: "string list"
  ra_cwd :: string
  ra_timeout :: int
  ra_target :: out_target
  ra_outputs :: "segment_spec list"
  ra_source :: rule_source

text \<open>\<open>rl_inline\<close> holds the fields of an action written in the rule itself.\<close>

record hook_rule =
  rl_name :: string
  rl_on :: string
  rl_priority :: int
  rl_enabled :: "bool option"
  rl_wakeup :: string
  rl_if :: string
  rl_op :: string
  rl_value :: string
  rl_always :: bool
  rl_match :: "hook_condition list"
  rl_roles :: "string list"
  rl_actor_roles :: "string list"
  rl_group_roles :: "string list"
  rl_inline :: rule_action
  rl_actions :: "rule_action list"
  rl_consume :: bool
  rl_stop :: bool
  rl_source :: rule_source

record action_result =
  ar_result :: string
  ar_error :: string
  ar_matched :: "bool option"
  ar_pass :: "bool option"

definition no_result :: action_result where
  "no_result = \<lparr>ar_result = [], ar_error = [], ar_matched = None, ar_pass = None\<rparr>"

type_synonym action_state = "(string \<times> action_result) list"

datatype rule_error =
  FieldNotEditable string hook_point | BadPattern | MixedOutputs | OutputsInvalid nat build_error
  | UnknownAction string | CommandMissing | ToolMissing | ReadOnlyCalls | BadStatus string
  | CwdAbsolute | CwdEscapes | HostFailed go_error

text \<open>What a process answers: outputs, a new message, and how the rule goes on.\<close>

record exec_payload =
  xp_status :: string
  xp_group :: output_group
  xp_pass :: "bool option"
  xp_text :: "string option"
  xp_segments :: "message_spec list option"
  xp_result :: string
  xp_error :: string
  xp_matched :: "bool option"
  xp_consume :: bool
  xp_stop :: bool

record hook_host =
  hh_regex :: regex_engine
  hh_url :: "string \<Rightarrow> (string \<times> string) option"
  hh_order :: "nat \<Rightarrow> string \<Rightarrow> (string \<times> string) list \<Rightarrow> (string \<times> string) list"
  hh_process :: "nat \<Rightarrow> string list \<Rightarrow> string \<Rightarrow> hook_event \<Rightarrow> go_error + (exec_payload option \<times> go_error option)"
  hh_segments :: "nat \<Rightarrow> message_spec list \<Rightarrow> string \<Rightarrow> go_error + message_segment list"
  hh_tool :: "nat \<Rightarrow> string \<Rightarrow> string \<Rightarrow> go_error + string"
  hh_worker :: "string \<Rightarrow> hook_event \<Rightarrow> hook_control \<Rightarrow> hook_event \<times> go_error option"
  hh_config_dir :: string

section \<open>Templates\<close>

definition add_pair :: "string \<times> string \<Rightarrow> (string \<times> string) list \<Rightarrow> (string \<times> string) list" where
  "add_pair p m = AList.update (fst p) (snd p) m"

definition match_pairs :: "nat \<Rightarrow> regex_match \<Rightarrow> (string \<times> string) list" where
  "match_pairs i m = (let prefix = ''{{match.regex.'' @ nat_str i in
     [(prefix @ ''.text}}'', rm_text m), (prefix @ ''.field}}'', rm_field m), (prefix @ ''.pattern}}'', rm_pattern m)] @
     map (\<lambda>(g, t). (prefix @ ''.group.'' @ nat_str g @ ''}}'', t)) (enumerate 0 (rm_groups m)) @
     map (\<lambda>(n, t). (prefix @ ''.'' @ n @ ''}}'', t)) (rm_named m))"

definition state_pairs :: "action_state \<Rightarrow> (string \<times> string) list" where
  "state_pairs st = concat (map (\<lambda>(n, r).
     [(''{{actions.'' @ n @ ''.result}}'', ar_result r), (''{{actions.'' @ n @ ''.error}}'', ar_error r)]) st)"

definition replacements :: "hook_host \<Rightarrow> hook_event \<Rightarrow> action_state \<Rightarrow> (string \<times> string) list" where
  "replacements H e st = fold add_pair
     (template_values (hh_url H) e @ concat (map (\<lambda>(i, m). match_pairs i m) (enumerate 0 (ev_match e))) @ state_pairs st) []"

definition render_text :: "hook_host \<Rightarrow> nat \<Rightarrow> hook_event \<Rightarrow> action_state \<Rightarrow> string \<Rightarrow> string" where
  "render_text H i e st t =
     (if \<not> contains_str t ''{{'' then t
      else foldl (\<lambda>s (old, new). replace_all old new s) t (hh_order H i t (replacements H e st)))"

section \<open>Editing text\<close>

definition field_editable :: "hook_event \<Rightarrow> string \<Rightarrow> bool" where
  "field_editable e f = (case ev_point e of
     PlatformMessageReceived \<Rightarrow> f = ''message.text''
   | AgentInputPrepared \<Rightarrow> f = ''message.text''
   | LlmTurnPrepared \<Rightarrow> f = ''llm.latest_user_text''
   | LlmRequestPrepared \<Rightarrow> f = ''llm.latest_user_text''
   | LlmResponseReceived \<Rightarrow> f = ''llm.text''
   | ToolCallPrepared \<Rightarrow> f = ''tool.arguments''
   | ToolCallCompleted \<Rightarrow> f = ''tool.result''
   | AgentOutputPrepared \<Rightarrow> f = ''message.text'' \<and> mp_role (ev_message e) = ''assistant''
   | AgentTurnOutputPrepared \<Rightarrow> f = ''message.text'' \<and> mp_role (ev_message e) = ''assistant''
   | PlatformMessageSent \<Rightarrow> f = ''message.text'' \<and> mp_role (ev_message e) = ''assistant''
   | _ \<Rightarrow> False)"

definition tool_result_segments :: "hook_event \<Rightarrow> message_segment list" where
  "tool_result_segments e =
     (if mp_segments (ev_message e) \<noteq> [] then mp_segments (ev_message e) else text_segments (tp_result (ev_tool e)))"

definition set_segments :: "message_segment list \<Rightarrow> hook_event \<Rightarrow> hook_event" where
  "set_segments ss e = e\<lparr>ev_message := (ev_message e)\<lparr>mp_segments := ss\<rparr>\<rparr>"

definition set_llm_text :: "string \<Rightarrow> hook_event \<Rightarrow> hook_event" where
  "set_llm_text t e = e\<lparr>ev_llm := (ev_llm e)\<lparr>lp_text := t\<rparr>\<rparr>"

definition set_arguments :: "string \<Rightarrow> hook_event \<Rightarrow> hook_event" where
  "set_arguments t e = e\<lparr>ev_tool := (ev_tool e)\<lparr>tp_arguments := t\<rparr>\<rparr>"

definition set_tool_result :: "string \<Rightarrow> hook_event \<Rightarrow> hook_event" where
  "set_tool_result t e = e\<lparr>ev_tool := (ev_tool e)\<lparr>tp_result := t\<rparr>\<rparr>"

text \<open>One edit as a function on segments and one on plain text.\<close>

definition edit_field ::
    "(message_segment list \<Rightarrow> message_segment list) \<Rightarrow> (string \<Rightarrow> string) \<Rightarrow> string \<Rightarrow> hook_event \<Rightarrow> hook_event" where
  "edit_field on_segments on_text f e =
     (if f = ''message.text'' \<or> f = ''llm.latest_user_text'' then set_segments (on_segments (mp_segments (ev_message e))) e
      else if f = ''llm.text'' then set_llm_text (on_text (lp_text (ev_llm e))) e
      else if f = ''tool.arguments'' then set_arguments (on_text (tp_arguments (ev_tool e))) e
      else if f = ''tool.result'' then
        (let ss = on_segments (tool_result_segments e) in set_tool_result (segments_text_only ss) (set_segments ss e))
      else e)"

definition prepend_text_field :: "string \<Rightarrow> string \<Rightarrow> hook_event \<Rightarrow> hook_event" where
  "prepend_text_field f v = edit_field (\<lambda>ss. prepend_segment_text ss v) (\<lambda>t. v @ t) f"

definition append_text_field :: "string \<Rightarrow> string \<Rightarrow> hook_event \<Rightarrow> hook_event" where
  "append_text_field f v = edit_field (\<lambda>ss. append_segment_text ss v) (\<lambda>t. t @ v) f"

definition replace_string :: "regex_engine \<Rightarrow> string \<Rightarrow> string \<Rightarrow> bool \<Rightarrow> string \<Rightarrow> string" where
  "replace_string E pat repl everywhere t =
     (if everywhere then rx_replace E pat t repl
      else (case replace_first E pat repl t of None \<Rightarrow> t | Some u \<Rightarrow> u))"

definition replace_text_field :: "regex_engine \<Rightarrow> string \<Rightarrow> string \<Rightarrow> bool \<Rightarrow> string \<Rightarrow> hook_event \<Rightarrow> hook_event" where
  "replace_text_field E pat repl everywhere f =
     edit_field (\<lambda>ss. replace_segment_text E ss pat repl everywhere) (replace_string E pat repl everywhere) f"

fun first_set :: "string list \<Rightarrow> string" where
  "first_set [] = []"
| "first_set (v # vs) = (if v \<noteq> [] then v else first_set vs)"

definition apply_text_action ::
    "hook_host \<Rightarrow> nat \<Rightarrow> hook_event \<Rightarrow> rule_action \<Rightarrow> action_state \<Rightarrow> rule_error + hook_event" where
  "apply_text_action H i e a st =
     (let f = trim_space (ra_field a); type = trim_space (ra_type a); show = render_text H i e st in
      if \<not> field_editable e f then Inl (FieldNotEditable f (ev_point e))
      else if type = ''prepend'' then Inr (prepend_text_field f (show (ra_text a)) e)
      else if type = ''append'' then Inr (append_text_field f (show (ra_text a)) e)
      else if type = ''replace'' then
        (if rx_valid (hh_regex H) (show (ra_pattern a))
         then Inr (replace_text_field (hh_regex H) (show (ra_pattern a)) (show (ra_replace a)) (ra_all a) f e)
         else Inl BadPattern)
      else if type = ''delete'' then
        (let pat = show (first_set [ra_pattern a, ra_text a]) in
         if rx_valid (hh_regex H) pat then Inr (replace_text_field (hh_regex H) pat [] True f e) else Inl BadPattern)
      else Inl (UnknownAction type))"

definition set_text_field :: "hook_event \<Rightarrow> string \<Rightarrow> string \<Rightarrow> rule_error + hook_event" where
  "set_text_field e field v = (let f = trim_space field in
     if \<not> field_editable e f then Inl (FieldNotEditable f (ev_point e))
     else if f = ''message.text'' \<or> f = ''llm.latest_user_text''
       then Inr (set_segments (set_segment_text (mp_segments (ev_message e)) v) e)
     else if f = ''llm.text'' then Inr (set_llm_text v e)
     else if f = ''tool.arguments'' then Inr (set_arguments v e)
     else if f = ''tool.result'' then
       Inr (set_segments (set_segment_text (tool_result_segments (set_tool_result v e)) v) (set_tool_result v e))
     else Inr e)"

text \<open>
  Running a rule (\<open>runAction\<close>, \<open>makeOutputs\<close>, \<open>runExec\<close>, \<open>v2EventResult\<close>, \<open>callTool\<close>, \<open>runRule\<close> of
  \<open>internal/hook/rules\<close>): actions one after the other, each seeing the results of the earlier ones.
\<close>

section \<open>Outputs\<close>

definition render_target :: "hook_host \<Rightarrow> nat \<Rightarrow> hook_event \<Rightarrow> action_state \<Rightarrow> rule_action \<Rightarrow> out_target" where
  "render_target H i e st a = \<lparr>tg_platform = render_text H i e st (tg_platform (ra_target a)),
     tg_chat_type = tg_chat_type (ra_target a), tg_chat = render_text H i e st (tg_chat (ra_target a)),
     tg_superadmins = tg_superadmins (ra_target a)\<rparr>"

definition render_spec :: "(string \<Rightarrow> string) \<Rightarrow> segment_spec \<Rightarrow> segment_spec" where
  "render_spec show s = \<lparr>sp_kind = show (sp_kind s), sp_text = show (sp_text s), sp_url = show (sp_url s),
     sp_path = show (sp_path s), sp_base64 = show (sp_base64 s), sp_name = show (sp_name s),
     sp_mime = show (sp_mime s), sp_user = show (sp_user s), sp_message = show (sp_message s),
     sp_emoticon = show (sp_emoticon s)\<rparr>"

definition empty_spec :: segment_spec where
  "empty_spec = \<lparr>sp_kind = [], sp_text = [], sp_url = [], sp_path = [], sp_base64 = [], sp_name = [],
     sp_mime = [], sp_user = [], sp_message = [], sp_emoticon = []\<rparr>"

definition source_base :: "rule_action \<Rightarrow> string" where
  "source_base a = trim_space (rs_base (ra_source a))"

text \<open>\<open>quick\<close> has the fields of the action itself; its text is that of the action.\<close>

definition make_outputs ::
    "hook_host \<Rightarrow> nat \<Rightarrow> hook_event \<Rightarrow> rule_action \<Rightarrow> action_state \<Rightarrow> rule_error + delivery_output list" where
  "make_outputs H i e a st =
     (let rendered = render_target H i e st a;
          target = (if trim_space (tg_platform rendered) = [] \<and> ev_point e = PlatformConnected
                    then rendered\<lparr>tg_platform := ch_platform (ev_chat e)\<rparr> else rendered);
          quick = (ra_spec a)\<lparr>sp_text := ra_text a\<rparr>;
          specs = (if ra_outputs a = [] then [quick] else ra_outputs a)
      in if ra_outputs a \<noteq> [] \<and> quick \<noteq> empty_spec then Inl MixedOutputs
         else (case build_group (hh_url H)
             \<lparr>og_outputs = map (render_spec (render_text H i e st)) specs, og_target = target,
              og_timing = render_text H i e st (ra_timing a)\<rparr> (source_base a) empty_target [] of
           Inl (n, err) \<Rightarrow> Inl (OutputsInvalid n err)
         | Inr outs \<Rightarrow> Inr outs))"

section \<open>Processes\<close>

text \<open>\<open>filepath.Rel\<close>; \<open>None\<close> is its error.\<close>

definition go_rel :: "string \<Rightarrow> string \<Rightarrow> string option" where
  "go_rel base targ = (let b = clean_path base; t = clean_path targ in
     if b = t then Some ''.''
     else if is_abs b \<noteq> is_abs t then None
     else (case drop_common (if b = ''.'' then [] else path_elems b) (path_elems t) of
       (bs, ts) \<Rightarrow> if bs \<noteq> [] \<and> hd bs = ''..'' then None
                   else Some (join_str [slash] (replicate (length bs) ''..'' @ ts))))"

definition path_within :: "string \<Rightarrow> string \<Rightarrow> bool" where
  "path_within base p = (case go_rel base p of
     None \<Rightarrow> False
   | Some rel \<Rightarrow> rel = ''.'' \<or> rel \<noteq> ''..'' \<and> \<not> has_prefix ''../'' rel)"

definition exec_cwd :: "hook_host \<Rightarrow> nat \<Rightarrow> hook_event \<Rightarrow> action_state \<Rightarrow> rule_action \<Rightarrow> rule_error + string" where
  "exec_cwd H i e st a =
     (let base = (if source_base a = [] then trim_space (hh_config_dir H) else source_base a);
          cwd = trim_space (render_text H i e st (ra_cwd a)); strict = trim_space (rs_strict (ra_source a))
      in if cwd = [] then Inr base
         else if strict \<noteq> [] then
           (if is_abs cwd then Inl CwdAbsolute
            else let joined = join_path base (clean_path cwd)
              in if path_within strict joined then Inr joined else Inl CwdEscapes)
         else if is_abs cwd \<or> base = [] then Inr cwd
         else Inr (join_path base cwd))"

text \<open>\<open>time.Duration(seconds) * time.Second\<close>, in 64 bits.\<close>

definition timeout_duration :: "64 word \<Rightarrow> 64 word" where
  "timeout_duration seconds = seconds * 1000000000"

definition payload_outputs ::
    "hook_host \<Rightarrow> nat \<Rightarrow> hook_event \<Rightarrow> rule_action \<Rightarrow> action_state \<Rightarrow> output_group \<Rightarrow> rule_error + delivery_output list" where
  "payload_outputs H i e a st g =
     (if og_outputs g = [] then Inr []
      else (case build_group (hh_url H) g (source_base a) (render_target H i e st a) (render_text H i e st (ra_timing a)) of
        Inl (n, err) \<Rightarrow> Inl (OutputsInvalid n err) | Inr outs \<Rightarrow> Inr outs))"

definition payload_message ::
    "hook_host \<Rightarrow> nat \<Rightarrow> rule_action \<Rightarrow> exec_payload \<Rightarrow> hook_event \<Rightarrow> rule_error + hook_event" where
  "payload_message H i a p e = (case xp_segments p of
     Some specs \<Rightarrow> (case hh_segments H i specs (source_base a) of
         Inl err \<Rightarrow> Inl (HostFailed err)
       | Inr ss \<Rightarrow> (let e1 = set_segments ss e
           in Inr (if ev_point e = ToolCallCompleted then set_tool_result (segments_text_only ss) e1 else e1)))
   | None \<Rightarrow> (case xp_text p of
       Some t \<Rightarrow> set_text_field e (if trim_space (ra_field a) = [] then ''message.text'' else trim_space (ra_field a)) t
     | None \<Rightarrow> Inr e))"

definition payload_result :: "exec_payload \<Rightarrow> action_result" where
  "payload_result p = \<lparr>ar_result = xp_result p, ar_error = xp_error p, ar_matched = xp_matched p, ar_pass = xp_pass p\<rparr>"

definition event_result ::
    "hook_host \<Rightarrow> nat \<Rightarrow> hook_event \<Rightarrow> rule_action \<Rightarrow> action_state \<Rightarrow> exec_payload option
     \<Rightarrow> rule_error + hook_event \<times> action_result" where
  "event_result H i e a st payload = (case payload of
     None \<Rightarrow> Inr (e, no_result)
   | Some p \<Rightarrow>
       if trim_space (xp_status p) \<noteq> [] \<and> trim_space (xp_status p) \<noteq> ''completed'' then Inl (BadStatus (trim_space (xp_status p)))
       else (case payload_outputs H i e a st (xp_group p) of
         Inl err \<Rightarrow> Inl err
       | Inr outs \<Rightarrow> (case payload_message H i a p (e\<lparr>ev_outputs := ev_outputs e @ outs\<rparr>) of
           Inl err \<Rightarrow> Inl err
         | Inr e1 \<Rightarrow> Inr (e1\<lparr>ev_control := \<lparr>hc_consume = hc_consume (ev_control e1) \<or> xp_consume p,
                                         hc_stop = hc_stop (ev_control e1) \<or> xp_stop p\<rparr>\<rparr>, payload_result p))))"

text \<open>
  \<open>None\<close> is the panic on an action without command.  An error keeps the event; a process that
  ends with an error after its result loses the result, and the pipeline restores the event.
\<close>

definition run_exec ::
    "hook_host \<Rightarrow> nat \<Rightarrow> hook_event \<Rightarrow> rule_action \<Rightarrow> action_state \<Rightarrow> (rule_error + hook_event \<times> action_result) option" where
  "run_exec H i e a st =
     (let argv = map (render_text H i e st) (ra_command a)
      in if argv = [] then None
         else if trim_space (hd argv) = [] then Some (Inl CommandMissing)
         else (case exec_cwd H i e st a of
           Inl err \<Rightarrow> Some (Inl err)
         | Inr cwd \<Rightarrow> (case hh_process H i argv cwd e of
             Inl err \<Rightarrow> Some (Inl (HostFailed err))
           | Inr (payload, wait_err) \<Rightarrow> (case event_result H i e a st payload of
               Inl err \<Rightarrow> Some (Inl err)
             | Inr r \<Rightarrow> Some (case wait_err of None \<Rightarrow> Inr r | Some err \<Rightarrow> Inl (HostFailed err))))))"

definition call_tool ::
    "hook_host \<Rightarrow> nat \<Rightarrow> hook_event \<Rightarrow> rule_action \<Rightarrow> action_state \<Rightarrow> rule_error + action_result" where
  "call_tool H i e a st =
     (if trim_space (ra_tool a) = [] then Inl ToolMissing
      else (case hh_tool H i (trim_space (ra_tool a)) (render_text H i e st (ra_arguments a)) of
        Inl err \<Rightarrow> Inl (HostFailed err)
      | Inr t \<Rightarrow> Inr (no_result\<lparr>ar_result := t\<rparr>)))"

section \<open>Actions and rules\<close>

definition run_action ::
    "hook_host \<Rightarrow> nat \<Rightarrow> hook_event \<Rightarrow> rule_action \<Rightarrow> action_state
     \<Rightarrow> (rule_error + hook_event \<times> action_result \<times> action_state) option" where
  "run_action H i e a st = (let type = trim_space (ra_type a) in
     if type \<in> {''prepend'', ''append'', ''replace'', ''delete''} then
       Some (case apply_text_action H i e a st of Inl err \<Rightarrow> Inl err | Inr e1 \<Rightarrow> Inr (e1, no_result, st))
     else if type = ''send'' then
       Some (case make_outputs H i e a st of
           Inl err \<Rightarrow> Inl err | Inr outs \<Rightarrow> Inr (e\<lparr>ev_outputs := ev_outputs e @ outs\<rparr>, no_result, st))
     else if type = ''exec'' then
       map_option (\<lambda>r. case r of
           Inl err \<Rightarrow> Inl err
         | Inr (e1, res) \<Rightarrow> Inr (e1, res, AList.update (first_set [trim_space (ra_name a), ''exec'']) res st)) (run_exec H i e a st)
     else if type = ''tool'' then
       Some (case call_tool H i e a st of
           Inl err \<Rightarrow> Inl err
         | Inr res \<Rightarrow> Inr (e, res, AList.update (first_set [trim_space (ra_name a), trim_space (ra_tool a)]) res st))
     else Some (Inl (UnknownAction (ra_type a))))"

definition calls_kept :: "hook_event \<Rightarrow> hook_event \<Rightarrow> bool" where
  "calls_kept before now \<longleftrightarrow> lp_calls (ev_llm before) = lp_calls (ev_llm now) \<and>
     tp_id (ev_tool before) = tp_id (ev_tool now) \<and> tp_name (ev_tool before) = tp_name (ev_tool now) \<and>
     tp_arguments (ev_tool before) = tp_arguments (ev_tool now)"

text \<open>The loop of \<open>runRule\<close>: \<open>Inr None\<close> is a rule whose action said that it does not match.\<close>

fun run_actions ::
    "hook_host \<Rightarrow> bool \<Rightarrow> hook_event \<Rightarrow> nat \<Rightarrow> rule_action list \<Rightarrow> hook_event \<Rightarrow> action_state \<Rightarrow> bool option
     \<Rightarrow> ((nat \<times> rule_error) + (hook_event \<times> bool option) option) option" where
  "run_actions H read_only before i [] e st pass = Some (Inr (Some (e, pass)))"
| "run_actions H read_only before i (a # as) e st pass = (case run_action H i e a st of
     None \<Rightarrow> None
   | Some (Inl err) \<Rightarrow> Some (Inl (Suc i, err))
   | Some (Inr (e1, res, st1)) \<Rightarrow>
       if read_only \<and> \<not> calls_kept before e1 then Some (Inl (Suc i, ReadOnlyCalls))
       else if ar_matched res = Some False then Some (Inr None)
       else run_actions H read_only before (Suc i) as e1 st1 (if ar_pass res \<noteq> None then ar_pass res else pass))"

definition match_roles :: "hook_rule \<Rightarrow> hook_event \<Rightarrow> bool" where
  "match_roles r e \<longleftrightarrow>
     (rl_roles r = [] \<or> ac_role (ev_actor e) \<in> set (rl_roles r) \<or> ac_group_role (ev_actor e) \<in> set (rl_roles r)) \<and>
     (rl_actor_roles r = [] \<or> ac_role (ev_actor e) \<in> set (rl_actor_roles r)) \<and>
     (rl_group_roles r = [] \<or> ac_group_role (ev_actor e) \<in> set (rl_group_roles r))"

definition rule_control :: "hook_rule \<Rightarrow> hook_event \<Rightarrow> bool option \<Rightarrow> hook_event \<Rightarrow> hook_control" where
  "rule_control r before pass e = (case pass of
     Some True \<Rightarrow> ev_control before
   | Some False \<Rightarrow> \<lparr>hc_consume = True, hc_stop = True\<rparr>
   | None \<Rightarrow> \<lparr>hc_consume = hc_consume (ev_control e) \<or> rl_consume r, hc_stop = hc_stop (ev_control e) \<or> rl_stop r\<rparr>)"

text \<open>An error is returned with the rule that failed; the event of the error is not used by any caller.\<close>

datatype hook_failure = RuleFailed string nat rule_error | HandlerFailed go_error

definition run_rule ::
    "hook_host \<Rightarrow> hook_rule \<Rightarrow> hook_event \<Rightarrow> bool \<Rightarrow> (hook_failure + hook_event) option" where
  "run_rule H r e read_only =
     (if \<not> match_roles r e then Some (Inr e)
      else if rs_runtime (rl_source r) \<noteq> [] then
        (case hh_worker H (rs_runtime (rl_source r)) e \<lparr>hc_consume = rl_consume r, hc_stop = rl_stop r\<rparr> of
           (e1, None) \<Rightarrow> Some (Inr e1)
         | (e1, Some err) \<Rightarrow> Some (Inl (HandlerFailed err)))
      else (case run_actions H read_only e 0 (rl_actions r) e [] None of
          None \<Rightarrow> None
        | Some (Inl (i, err)) \<Rightarrow> Some (Inl (RuleFailed (rl_name r) i err))
        | Some (Inr None) \<Rightarrow> Some (Inr e)
        | Some (Inr (Some (e1, pass))) \<Rightarrow> Some (Inr (e1\<lparr>ev_control := rule_control r e pass e1\<rparr>))))"

end
