(* ===== verification/Hook_Config.thy ===== *)
theory Hook_Config
  imports Hook_Rules
begin

text \<open>
  Loading rules (\<open>internal/hook/rules/config.go\<close>, \<open>normalize\<close> and \<open>validateRule\<close> of \<open>rule.go\<close>,
  \<open>hook/share/runtime_config.go\<close>): the short forms of a rule are expanded, rules are checked, plugins
  are read one by one, a broken one is skipped, and every rule gets its final name.  Reading and
  decoding files is an argument.
\<close>

section \<open>One rule\<close>

datatype config_error =
  AlwaysCombined | FlatWithMatch | ActionWithActions | MissingOn | UnknownPoint string | WorkerActions
  | NoActions | MissingMatch | MatchInvalid match_fault | BadRole string | BadActorRole string
  | BadGroupRole string | BadWakeup string | ActionTypeMissing | ActionTiming | ActionCommand
  | NegativeTimeout | RuleInvalid nat config_error | BlockInvalid block_error | PluginNameMissing
  | PathNotRelative string | PathEscapes string | RuntimeInvalid string | ReadFailed go_error
  | DuplicateWorker string

definition rule_conditions :: "hook_rule \<Rightarrow> config_error + hook_condition list" where
  "rule_conditions r =
     (let flat = trim_space (rl_if r) \<noteq> [] \<or> trim_space (rl_op r) \<noteq> [] \<or> rl_value r \<noteq> []
      in if rl_always r then
           (if flat \<or> rl_match r \<noteq> [] then Inl AlwaysCombined
            else Inr [\<lparr>hk_field = [], hk_op = ''always'', hk_value = []\<rparr>])
         else if flat \<and> rl_match r \<noteq> [] then Inl FlatWithMatch
         else if flat then Inr [\<lparr>hk_field = rl_if r, hk_op = rl_op r, hk_value = rl_value r\<rparr>]
         else Inr (rl_match r))"

definition normalize_rule :: "hook_rule \<Rightarrow> config_error + hook_rule" where
  "normalize_rule r = (case rule_conditions r of
     Inl err \<Rightarrow> Inl err
   | Inr cs \<Rightarrow> (let r1 = r\<lparr>rl_match := cs\<rparr> in
       if trim_space (ra_type (rl_inline r)) = [] then Inr r1
       else if rl_actions r \<noteq> [] then Inl ActionWithActions
       else Inr (r1\<lparr>rl_actions := [rl_inline r]\<rparr>)))"

definition rule_enabled :: "hook_rule \<Rightarrow> bool" where
  "rule_enabled r \<longleftrightarrow> rl_enabled r \<noteq> Some False"

fun trim_roles :: "string list \<Rightarrow> (string \<Rightarrow> config_error) \<Rightarrow> string list \<Rightarrow> config_error + string list" where
  "trim_roles known err [] = Inr []"
| "trim_roles known err (r # rs) =
     (if trim_space r \<in> set known then
        (case trim_roles known err rs of Inl e \<Rightarrow> Inl e | Inr qs \<Rightarrow> Inr (trim_space r # qs))
      else Inl (err (trim_space r)))"

definition actor_role_names :: "string list" where "actor_role_names = [''superadmin'', ''user'']"
definition group_role_names :: "string list" where "group_role_names = [''owner'', ''admin'', ''member'', ''unknown'']"

definition normalize_roles :: "hook_rule \<Rightarrow> config_error + hook_rule" where
  "normalize_roles r = (case trim_roles (actor_role_names @ group_role_names) BadRole (rl_roles r) of
     Inl e \<Rightarrow> Inl e
   | Inr rs \<Rightarrow> (case trim_roles actor_role_names BadActorRole (rl_actor_roles r) of
       Inl e \<Rightarrow> Inl e
     | Inr as \<Rightarrow> (case trim_roles group_role_names BadGroupRole (rl_group_roles r) of
         Inl e \<Rightarrow> Inl e
       | Inr gs \<Rightarrow> Inr (r\<lparr>rl_roles := rs, rl_actor_roles := as, rl_group_roles := gs\<rparr>))))"

definition validate_exec_action :: "rule_action \<Rightarrow> config_error option" where
  "validate_exec_action a =
     (if ra_command a = [] \<or> trim_space (hd (ra_command a)) = [] then Some ActionCommand
      else if ra_timeout a < 0 then Some NegativeTimeout else None)"

fun validate_actions :: "rule_action list \<Rightarrow> config_error option" where
  "validate_actions [] = None"
| "validate_actions (a # as) =
     (if trim_space (ra_type a) = [] then Some ActionTypeMissing
      else if \<not> timing_ok (ra_timing a) then Some ActionTiming
      else if trim_space (ra_type a) = ''exec'' \<and> validate_exec_action a \<noteq> None then validate_exec_action a
      else validate_actions as)"

definition validate_rule :: "regex_engine \<Rightarrow> hook_rule \<Rightarrow> config_error + hook_rule" where
  "validate_rule E r =
     (if trim_space (rl_on r) = [] then Inl MissingOn
      else if point_of (rl_on r) = None then Inl (UnknownPoint (rl_on r))
      else if rs_runtime (rl_source r) \<noteq> [] \<and> rl_actions r \<noteq> [] then Inl WorkerActions
      else if rs_runtime (rl_source r) = [] \<and> rl_actions r = [] then Inl NoActions
      else if rl_match r = [] then Inl MissingMatch
      else (case validate_match E (rl_match r) of
        Some e \<Rightarrow> Inl (MatchInvalid e)
      | None \<Rightarrow> (case normalize_roles r of
          Inl e \<Rightarrow> Inl e
        | Inr r1 \<Rightarrow>
            if rl_wakeup r \<notin> {[], ''required'', ''any'', ''forbidden''} then Inl (BadWakeup (rl_wakeup r))
            else (case validate_actions (rl_actions r) of Some e \<Rightarrow> Inl e | None \<Rightarrow> Inr r1))))"

section \<open>All rules of a file\<close>

definition named_rule :: "nat \<Rightarrow> hook_rule \<Rightarrow> hook_rule" where
  "named_rule i r = (let original = (if trim_space (rl_name r) = [] then ''rule.'' @ nat_str i else trim_space (rl_name r))
     in r\<lparr>rl_name := (if trim_space (rl_name r) = [] then original else rl_name r),
          rl_source := (rl_source r)\<lparr>rs_original := original\<rparr>\<rparr>)"

fun normalize_rules :: "nat \<Rightarrow> hook_rule list \<Rightarrow> config_error + hook_rule list" where
  "normalize_rules i [] = Inr []"
| "normalize_rules i (r # rs) = (case normalize_rule r of
     Inl e \<Rightarrow> Inl (RuleInvalid i e)
   | Inr r1 \<Rightarrow> (case normalize_rules (Suc i) rs of Inl e \<Rightarrow> Inl e | Inr qs \<Rightarrow> Inr (named_rule i r1 # qs)))"

fun validate_rules :: "regex_engine \<Rightarrow> nat \<Rightarrow> hook_rule list \<Rightarrow> config_error + hook_rule list" where
  "validate_rules E i [] = Inr []"
| "validate_rules E i (r # rs) = (case validate_rule E r of
     Inl e \<Rightarrow> Inl (RuleInvalid i e)
   | Inr r1 \<Rightarrow> (case validate_rules E (Suc i) rs of Inl e \<Rightarrow> Inl e | Inr qs \<Rightarrow> Inr (r1 # qs)))"

definition checked_rules :: "regex_engine \<Rightarrow> hook_rule list \<Rightarrow> config_error + hook_rule list" where
  "checked_rules E rs = (case normalize_rules 1 rs of Inl e \<Rightarrow> Inl e | Inr qs \<Rightarrow> validate_rules E 1 qs)"

section \<open>Plugins\<close>

record plugin_ref =
  pr_name :: string
  pr_enabled :: "bool option"
  pr_path :: string

definition plugin_enabled :: "plugin_ref \<Rightarrow> bool" where
  "plugin_enabled p \<longleftrightarrow> pr_enabled p \<noteq> Some False"

definition safe_relative_path :: "string \<Rightarrow> string \<Rightarrow> config_error + string" where
  "safe_relative_path base rel = (let c = clean_path rel in
     if is_abs rel then Inl (PathNotRelative rel)
     else if c = ''.'' \<or> has_prefix ''../'' c \<or> c = ''..'' then Inl (PathEscapes rel)
     else Inr (join_path base c))"

definition plugin_config_path :: "string \<Rightarrow> plugin_ref \<Rightarrow> config_error + string" where
  "plugin_config_path dir p = (let name = trim_space (pr_name p); rel = trim_space (pr_path p) in
     if name = [] then Inl PluginNameMissing
     else safe_relative_path dir (if rel = [] then join_path name ''hook.toml'' else rel))"

text \<open>\<open>filepath.Dir\<close>.\<close>

definition path_dir :: "string \<Rightarrow> string" where
  "path_dir p = (let ws = split_char slash p in
     clean_path (if length ws = 1 then [] else join_str [slash] (butlast ws) @ [slash]))"

subsection \<open>Workers\<close>

record runtime_config =
  rc_id :: string
  rc_mode :: string
  rc_command :: "string list"
  rc_cwd :: string
  rc_startup :: "64 word"
  rc_shutdown :: "64 word"
  rc_event :: "64 word"
  rc_max_wait :: "64 word"
  rc_strategy :: string
  rc_initial_delay :: "64 word"
  rc_max_delay :: "64 word"
  rc_allow :: "string list"
  rc_background :: "string list"
  rc_dir :: string

definition is_worker :: "runtime_config \<Rightarrow> bool" where
  "is_worker c \<longleftrightarrow> rc_mode c \<noteq> [] \<and> rc_mode c \<noteq> ''once''"

definition valid_plugin_id :: "string \<Rightarrow> bool" where
  "valid_plugin_id i \<longleftrightarrow> i \<noteq> [] \<and> list_all (\<lambda>c. let n = (of_char c :: nat) in
     97 \<le> n \<and> n \<le> 122 \<or> 48 \<le> n \<and> n \<le> 57 \<or> n = 45 \<or> n = 95) i"

definition runtime_seconds :: "runtime_config \<Rightarrow> 64 word list" where
  "runtime_seconds c = [rc_startup c, rc_shutdown c, rc_event c, rc_max_wait c, rc_initial_delay c, rc_max_delay c]"

text \<open>The message of the first check that fails; the quotient is the largest number of seconds of a \<open>Duration\<close>.\<close>

definition validate_runtime :: "runtime_config \<Rightarrow> string option" where
  "validate_runtime c =
     (if \<not> is_worker c then None
      else if rc_mode c \<noteq> ''persistent'' \<and> rc_mode c \<noteq> ''transient'' then Some ''mode''
      else if trim_space (rc_id c) = [] then Some ''hook id is required''
      else if \<not> valid_plugin_id (rc_id c) then Some ''hook id''
      else if rc_command c = [] \<or> trim_space (hd (rc_command c)) = [] then Some ''command''
      else if trim_space (rc_cwd c) = [] then Some ''cwd''
      else if list_ex (\<lambda>s. sint s \<le> 0) [rc_startup c, rc_shutdown c, rc_event c, rc_max_wait c] then Some ''seconds''
      else if trim_space (rc_strategy c) \<notin> {''never'', ''on_failure'', ''always''} then Some ''restart.strategy''
      else if sint (rc_initial_delay c) \<le> 0 \<or> sint (rc_max_delay c) \<le> 0 \<or> sint (rc_max_delay c) < sint (rc_initial_delay c)
        then Some ''restart delays''
      else if trim_space (rc_dir c) = [] then Some ''directory''
      else if [] \<in> set (rc_allow c) \<or> \<not> distinct (rc_allow c) then Some ''tools.allow''
      else if \<not> set (rc_background c) \<subseteq> set (rc_allow c) then Some ''tools.background_allow''
      else if list_ex (\<lambda>s. 9223372036854775807 div 1000000000 < sint s) (runtime_seconds c) then Some ''duration''
      else None)"

subsection \<open>Reading\<close>

text \<open>A plugin file as it is decoded; its \<open>.env\<close> is read after it and may fail.\<close>

record plugin_config =
  pc_blocked_platforms :: "string list"
  pc_blocked_groups :: "(string \<times> string list) list"
  pc_blocked_users :: "(string \<times> string list) list"
  pc_runtime :: "runtime_config option"
  pc_rules :: "hook_rule list"
  pc_env :: "go_error option"

definition no_block :: block_policy where
  "no_block = \<lparr>bp_platforms = [], bp_groups = [], bp_users = []\<rparr>"

definition set_source :: "rule_source \<Rightarrow> hook_rule \<Rightarrow> hook_rule" where
  "set_source s r = r\<lparr>rl_source := s\<rparr>"

definition plugin_runtime :: "plugin_ref \<Rightarrow> string \<Rightarrow> runtime_config \<Rightarrow> runtime_config" where
  "plugin_runtime p dir c = c\<lparr>rc_id := trim_space (pr_name p), rc_dir := dir,
     rc_allow := map trim_space (rc_allow c), rc_background := map trim_space (rc_background c)\<rparr>"

definition worker_of :: "plugin_ref \<Rightarrow> string \<Rightarrow> plugin_config \<Rightarrow> config_error + runtime_config option" where
  "worker_of p dir pc = (case pc_runtime pc of
     None \<Rightarrow> Inr None
   | Some c0 \<Rightarrow> (let c = plugin_runtime p dir c0 in
       if \<not> is_worker c then Inr None
       else (case validate_runtime c of Some m \<Rightarrow> Inl (RuntimeInvalid m) | None \<Rightarrow> Inr (Some c))))"

definition load_plugin ::
    "regex_engine \<Rightarrow> (string \<Rightarrow> go_error + plugin_config) \<Rightarrow> string \<Rightarrow> plugin_ref
     \<Rightarrow> config_error + runtime_config option \<times> hook_rule list" where
  "load_plugin E read dir p = (case plugin_config_path dir p of
     Inl e \<Rightarrow> Inl e
   | Inr path \<Rightarrow> (case read path of
       Inl e \<Rightarrow> Inl (ReadFailed e)
     | Inr pc \<Rightarrow> (case pc_env pc of
         Some e \<Rightarrow> Inl (ReadFailed e)
       | None \<Rightarrow> (case new_block_policy (pc_blocked_platforms pc) (pc_blocked_groups pc) (pc_blocked_users pc) of
           Inl e \<Rightarrow> Inl (BlockInvalid e)
         | Inr block \<Rightarrow> (case worker_of p (path_dir path) pc of
             Inl e \<Rightarrow> Inl e
           | Inr worker \<Rightarrow>
               (case checked_rules E (map (set_source \<lparr>rs_plugin = trim_space (pr_name p), rs_base = path_dir path,
                    rs_strict = path_dir path, rs_original = [], rs_final = [],
                    rs_runtime = (case worker of None \<Rightarrow> [] | Some c \<Rightarrow> rc_id c), rs_block = block\<rparr>) (pc_rules pc)) of
                  Inl e \<Rightarrow> Inl e | Inr rs \<Rightarrow> Inr (worker, rs)))))))"

text \<open>Errors of plugins are reported and skip the plugin.\<close>

fun load_plugins ::
    "regex_engine \<Rightarrow> (string \<Rightarrow> go_error + plugin_config) \<Rightarrow> string \<Rightarrow> plugin_ref list
     \<Rightarrow> runtime_config list \<times> hook_rule list \<times> (string \<times> config_error) list" where
  "load_plugins E read dir [] = ([], [], [])"
| "load_plugins E read dir (p # ps) =
     (let (ws, rs, notices) = load_plugins E read dir ps
      in if \<not> plugin_enabled p then (ws, rs, notices)
         else (case load_plugin E read dir p of
             Inl e \<Rightarrow> (ws, rs, (trim_space (pr_name p), e) # notices)
           | Inr (worker, qs) \<Rightarrow> ((case worker of None \<Rightarrow> ws | Some w \<Rightarrow> w # ws), qs @ rs, notices)))"

definition seen_count :: "string \<Rightarrow> (string \<times> nat) list \<Rightarrow> nat" where
  "seen_count n seen = (case map_of seen n of None \<Rightarrow> 0 | Some k \<Rightarrow> k)"

definition final_name :: "(string \<times> nat) list \<Rightarrow> string \<Rightarrow> string" where
  "final_name seen original =
     (if 0 < seen_count original seen then original @ ''.'' @ nat_str (seen_count original seen) else original)"

fun final_names :: "(string \<times> nat) list \<Rightarrow> hook_rule list \<Rightarrow> hook_rule list" where
  "final_names seen [] = []"
| "final_names seen (r # rs) =
     (let original = rs_original (rl_source r);
          src = (rl_source r)\<lparr>rs_final := final_name seen original\<rparr>
      in r\<lparr>rl_source := src, rl_actions := map (\<lambda>a. a\<lparr>ra_source := src\<rparr>) (rl_actions r)\<rparr>
         # final_names (AList.update original (Suc (seen_count original seen)) seen) rs)"

fun first_duplicate :: "string list \<Rightarrow> string list \<Rightarrow> string option" where
  "first_duplicate seen [] = None"
| "first_duplicate seen (i # is) = (if i \<in> set seen then Some i else first_duplicate (i # seen) is)"

text \<open>The root file: rules with the tables of their blocking policy, and the plugins it names.\<close>

record root_rule =
  rr_platforms :: "string list"
  rr_groups :: "(string \<times> string list) list"
  rr_users :: "(string \<times> string list) list"
  rr_rule :: hook_rule

fun root_rules :: "string \<Rightarrow> nat \<Rightarrow> root_rule list \<Rightarrow> config_error + hook_rule list" where
  "root_rules dir i [] = Inr []"
| "root_rules dir i (r # rs) = (case new_block_policy (rr_platforms r) (rr_groups r) (rr_users r) of
     Inl e \<Rightarrow> Inl (RuleInvalid i (BlockInvalid e))
   | Inr block \<Rightarrow> (case root_rules dir (Suc i) rs of
       Inl e \<Rightarrow> Inl e
     | Inr qs \<Rightarrow> Inr (set_source \<lparr>rs_plugin = [], rs_base = dir, rs_strict = [], rs_original = [], rs_final = [],
                              rs_runtime = [], rs_block = block\<rparr> (rr_rule r) # qs)))"

record root_config =
  rt_rules :: "root_rule list"
  rt_plugins :: "plugin_ref list"
  rt_env :: "go_error option"

text \<open>\<open>None\<close> is a root file that does not exist.\<close>

definition load_config ::
    "regex_engine \<Rightarrow> (string \<Rightarrow> go_error + plugin_config) \<Rightarrow> string \<Rightarrow> (go_error + root_config) option
     \<Rightarrow> config_error + runtime_config list \<times> hook_rule list \<times> (string \<times> config_error) list" where
  "load_config E read dir root = (case root of
     None \<Rightarrow> Inr ([], [], [])
   | Some (Inl e) \<Rightarrow> Inl (ReadFailed e)
   | Some (Inr cfg) \<Rightarrow> (case rt_env cfg of
       Some e \<Rightarrow> Inl (ReadFailed e)
     | None \<Rightarrow> (case root_rules dir 1 (rt_rules cfg) of
         Inl e \<Rightarrow> Inl e
       | Inr rs0 \<Rightarrow> (case checked_rules E rs0 of
           Inl e \<Rightarrow> Inl e
         | Inr rs \<Rightarrow> (case load_plugins E read dir (rt_plugins cfg) of
             (ws, qs, notices) \<Rightarrow> (case first_duplicate [] (map rc_id ws) of
                 Some i \<Rightarrow> Inl (DuplicateWorker i)
               | None \<Rightarrow> Inr (ws, final_names [] (rs @ qs), notices)))))))"

text \<open>
  Small events, rules and hosts on which the properties of hooks are evaluated.
\<close>

text \<open>A literal engine, hosts that answer nothing, and small events and rules.\<close>

definition plain_engine :: regex_engine where
  "plain_engine = \<lparr>rx_valid = (\<lambda>p. p \<noteq> []),
     rx_find = (\<lambda>p t. if has_prefix p t then Some [0, int (length p)] else None),
     rx_names = (\<lambda>p. [[]]), rx_replace = (\<lambda>p t r. replace_all p r t)\<rparr>"

definition quiet_host :: hook_host where
  "quiet_host = \<lparr>hh_regex = plain_engine, hh_url = (\<lambda>u. None), hh_order = (\<lambda>i t ps. ps),
     hh_process = (\<lambda>i argv cwd e. Inr (None, None)), hh_segments = (\<lambda>i specs base. Inr []),
     hh_tool = (\<lambda>i n args. Inr []), hh_worker = (\<lambda>w e c. (e, None)), hh_config_dir = ''/c''\<rparr>"

definition blank_event :: "hook_point \<Rightarrow> hook_event" where
  "blank_event p = \<lparr>ev_point = p, ev_match = [], ev_control = \<lparr>hc_consume = False, hc_stop = False\<rparr>,
     ev_chat = \<lparr>ch_platform = [], ch_type = [], ch_id = [], ch_name = [], ch_message = [], ch_reply_to = []\<rparr>,
     ev_actor = \<lparr>ac_platform = [], ac_role = [], ac_group_role = [], ac_id = [], ac_nickname = [], ac_card = [], ac_name = []\<rparr>,
     ev_session = \<lparr>ss_id = [], ss_mode = [], ss_title = [], ss_status = []\<rparr>,
     ev_request = \<lparr>rqc_id = [], rqc_kind = [], rqc_session = [], rqc_phase = []\<rparr>,
     ev_message = \<lparr>mp_id = [], mp_role = [], mp_platform_text = [], mp_intent = [], mp_reply = None, mp_segments = []\<rparr>,
     ev_llm = \<lparr>lp_provider = [], lp_model = [], lp_source = [], lp_text = [], lp_calls = []\<rparr>,
     ev_tool = \<lparr>tp_id = [], tp_name = [], tp_arguments = [], tp_risk = [], tp_result = []\<rparr>,
     ev_outputs = [], ev_error = None, ev_error_info = None\<rparr>"

definition blank_source :: rule_source where
  "blank_source = \<lparr>rs_plugin = [], rs_base = [], rs_strict = [], rs_original = [], rs_final = [], rs_runtime = [],
     rs_block = no_block\<rparr>"

definition blank_action :: "string \<Rightarrow> rule_action" where
  "blank_action ty = \<lparr>ra_name = [], ra_type = ty, ra_field = [], ra_text = [], ra_pattern = [], ra_replace = [],
     ra_spec = empty_spec, ra_timing = [], ra_tool = [], ra_arguments = [], ra_all = False, ra_command = [], ra_cwd = [],
     ra_timeout = 0, ra_target = empty_target, ra_outputs = [], ra_source = blank_source\<rparr>"

definition blank_rule :: "string \<Rightarrow> rule_action list \<Rightarrow> hook_rule" where
  "blank_rule n as = \<lparr>rl_name = n, rl_on = ''llm.response.received'', rl_priority = 0, rl_enabled = None, rl_wakeup = [],
     rl_if = [], rl_op = [], rl_value = [], rl_always = True, rl_match = [], rl_roles = [], rl_actor_roles = [],
     rl_group_roles = [], rl_inline = blank_action [], rl_actions = as, rl_consume = False, rl_stop = True,
     rl_source = blank_source\<rparr>"

definition prepend_rule :: hook_rule where
  "prepend_rule = blank_rule ''p'' [(blank_action ''prepend'')\<lparr>ra_field := ''llm.text'', ra_text := ''a''\<rparr>]"

definition prepended_event :: hook_event where
  "prepended_event = (blank_event LlmResponseReceived)\<lparr>
     ev_llm := \<lparr>lp_provider = [], lp_model = [], lp_source = [], lp_text = ''a'', lp_calls = []\<rparr>,
     ev_control := \<lparr>hc_consume = False, hc_stop = True\<rparr>\<rparr>"

lemma plain_engine_ok: "engine_ok plain_engine"
proof -
  have "length p \<le> length v" if "take (length p) v = p" for p v :: string using that by (metis length_take min.cobounded1)
  then show ?thesis by (auto simp: engine_ok_def plain_engine_def offsets_ok_def has_prefix_def split: if_splits)
qed

lemma prepend_rule_runs:
  "run_rule quiet_host prepend_rule (blank_event LlmResponseReceived) True = Some (Inr prepended_event)"
  by code_simp

definition sample_root :: root_config where
  "sample_root = \<lparr>rt_rules = [\<lparr>rr_platforms = [], rr_groups = [], rr_users = [], rr_rule = prepend_rule\<rparr>],
     rt_plugins = [], rt_env = None\<rparr>"

definition sample_loaded :: "hook_rule list" where
  "sample_loaded = (case load_config plain_engine (\<lambda>p. Inl (ErrOther [])) [] (Some (Inr sample_root)) of
     Inr (ws, rs, ns) \<Rightarrow> rs | Inl e \<Rightarrow> [])"

lemma sample_loads: "load_config plain_engine (\<lambda>p. Inl (ErrOther [])) [] (Some (Inr sample_root)) = Inr ([], sample_loaded, [])
   \<and> length sample_loaded = 1"
  by code_simp

end
