(* ===== verification/Hook_Rule_Edits.thy ===== *)
theory Hook_Rule_Edits
  imports Hook_Config
begin

text \<open>
  What a rule may change of an event, and what loading does and does not check: durations, names
  and the order in which templates are expanded.
\<close>

section \<open>Text edits\<close>

text \<open>An event with other texts, further outputs and another control.\<close>

definition edited ::
    "message_segment list \<Rightarrow> string \<Rightarrow> string \<Rightarrow> string \<Rightarrow> delivery_output list \<Rightarrow> hook_control \<Rightarrow> hook_event \<Rightarrow> hook_event" where
  "edited ss t args res outs c e = e\<lparr>ev_message := (ev_message e)\<lparr>mp_segments := ss\<rparr>,
     ev_llm := (ev_llm e)\<lparr>lp_text := t\<rparr>, ev_tool := (ev_tool e)\<lparr>tp_arguments := args, tp_result := res\<rparr>,
     ev_outputs := ev_outputs e @ outs, ev_control := c\<rparr>"

text \<open>Which of the texts may differ at the hook point of the event.\<close>

definition edits_allowed :: "message_segment list \<Rightarrow> string \<Rightarrow> string \<Rightarrow> string \<Rightarrow> hook_event \<Rightarrow> bool" where
  "edits_allowed ss t args res e \<longleftrightarrow>
     (ss = mp_segments (ev_message e) \<or>
        field_editable e ''message.text'' \<or> field_editable e ''llm.latest_user_text'' \<or> field_editable e ''tool.result'') \<and>
     (t = lp_text (ev_llm e) \<or> field_editable e ''llm.text'') \<and>
     (args = tp_arguments (ev_tool e) \<or> field_editable e ''tool.arguments'') \<and>
     (res = tp_result (ev_tool e) \<or> field_editable e ''tool.result'') \<and>
     filter (\<lambda>s. \<not> is_text s) ss = filter (\<lambda>s. \<not> is_text s) (mp_segments (ev_message e))"

definition only_edited :: "hook_event \<Rightarrow> hook_event \<Rightarrow> bool" where
  "only_edited e e1 \<longleftrightarrow>
     (\<exists>ss t args res outs c. e1 = edited ss t args res outs c e \<and> edits_allowed ss t args res e)"

lemma field_editable_edited [simp]: "field_editable (edited ss t args res outs c e) f = field_editable e f"
  by (cases "ev_point e") (simp_all add: field_editable_def edited_def)

lemma only_editedI:
  assumes "e1 = edited (mp_segments (ev_message e1)) (lp_text (ev_llm e1)) (tp_arguments (ev_tool e1)) (tp_result (ev_tool e1)) outs c e"
    and "edits_allowed (mp_segments (ev_message e1)) (lp_text (ev_llm e1)) (tp_arguments (ev_tool e1)) (tp_result (ev_tool e1)) e"
  shows "only_edited e e1"
  using assms unfolding only_edited_def by blast

lemma edited_edited:
  "edited ss t args res outs c (edited ss1 t1 args1 res1 outs1 c1 e) = edited ss t args res (outs1 @ outs) c e"
  by (simp add: edited_def)

lemma only_edited_refl: "only_edited e e"
  by (rule only_editedI [of _ "[]" "ev_control e"]) (simp_all add: edited_def edits_allowed_def)

lemma only_edited_trans:
  assumes "only_edited e e1" "only_edited e1 e2"
  shows "only_edited e e2"
proof -
  obtain ss1 t1 a1 r1 o1 c1 where e1: "e1 = edited ss1 t1 a1 r1 o1 c1 e" "edits_allowed ss1 t1 a1 r1 e"
    using assms(1) by (auto simp: only_edited_def)
  obtain ss t a r os c where e2: "e2 = edited ss t a r os c e1" "edits_allowed ss t a r e1"
    using assms(2) by (auto simp: only_edited_def)
  have vals: "mp_segments (ev_message e1) = ss1" "lp_text (ev_llm e1) = t1" "tp_arguments (ev_tool e1) = a1"
    "tp_result (ev_tool e1) = r1" "\<And>f. field_editable e1 f = field_editable e f"
    by (simp_all add: e1(1)) (simp_all add: edited_def)
  have "edits_allowed ss t a r e" using e1(2) e2(2) unfolding edits_allowed_def vals by metis
  with e2(1) show ?thesis unfolding e1(1) edited_edited only_edited_def by blast
qed

lemma only_edited_outputs: "only_edited e (e\<lparr>ev_outputs := ev_outputs e @ outs\<rparr>)"
  by (rule only_editedI [of _ outs "ev_control e"]) (simp_all add: edited_def edits_allowed_def)

lemma only_edited_control: "only_edited e (e\<lparr>ev_control := c\<rparr>)"
  by (rule only_editedI [of _ "[]" c]) (simp_all add: edited_def edits_allowed_def)

lemma tool_result_segments_filter:
  "filter (\<lambda>s. \<not> is_text s) (tool_result_segments e) = filter (\<lambda>s. \<not> is_text s) (mp_segments (ev_message e))"
  by (simp add: tool_result_segments_def text_segments_def)

lemma only_edited_field:
  assumes ok: "field_editable e f"
    and keeps: "\<And>ss. filter (\<lambda>s. \<not> is_text s) (on_segments ss) = filter (\<lambda>s. \<not> is_text s) ss"
  shows "only_edited e (edit_field on_segments on_text f e)"
proof (rule only_editedI [of _ "[]" "ev_control e"])
  note parts = edit_field_def set_segments_def set_llm_text_def set_arguments_def set_tool_result_def
  show "edits_allowed (mp_segments (ev_message (edit_field on_segments on_text f e)))
      (lp_text (ev_llm (edit_field on_segments on_text f e))) (tp_arguments (ev_tool (edit_field on_segments on_text f e)))
      (tp_result (ev_tool (edit_field on_segments on_text f e))) e"
    using ok by (auto simp: edits_allowed_def parts Let_def keeps tool_result_segments_filter)
qed (simp add: edit_field_def set_segments_def set_llm_text_def set_arguments_def set_tool_result_def Let_def edited_def)


lemma apply_text_action_edits:
  assumes "apply_text_action H i e a st = Inr e1"
  shows "only_edited e e1"
proof -
  have "field_editable e (trim_space (ra_field a))"
    using assms by (cases "field_editable e (trim_space (ra_field a))") (simp_all add: apply_text_action_def Let_def)
  note edit = only_edited_field [OF this]
  have "only_edited e (prepend_text_field (trim_space (ra_field a)) v e)" for v
    unfolding prepend_text_field_def by (rule edit) (rule filter_prepend_segment_text)
  moreover have "only_edited e (append_text_field (trim_space (ra_field a)) v e)" for v
    unfolding append_text_field_def by (rule edit) (rule filter_append_segment_text)
  moreover have "only_edited e (replace_text_field (hh_regex H) pat repl b (trim_space (ra_field a)) e)" for pat repl b
    unfolding replace_text_field_def by (rule edit) (rule replace_segment_text_keeps)
  ultimately show ?thesis
    using assms by (auto simp: apply_text_action_def Let_def split: if_splits)
qed

lemma run_action_edits:
  assumes run: "run_action H i e a st = Some (Inr (e1, res, st1))" and type: "trim_space (ra_type a) \<noteq> ''exec''"
  shows "only_edited e e1"
proof -
  let ?type = "trim_space (ra_type a)"
  consider (edit) "?type \<in> {''prepend'', ''append'', ''replace'', ''delete''}"
    | (send) "?type \<notin> {''prepend'', ''append'', ''replace'', ''delete''}" "?type = ''send''"
    | (tool) "?type \<notin> {''prepend'', ''append'', ''replace'', ''delete''}" "?type \<noteq> ''send''" "?type = ''tool''"
    | (other) "?type \<notin> {''prepend'', ''append'', ''replace'', ''delete''}" "?type \<noteq> ''send''" "?type \<noteq> ''tool''"
    by blast
  then show ?thesis
  proof cases
    case edit
    with run have "apply_text_action H i e a st = Inr e1"
      by (cases "apply_text_action H i e a st") (simp_all add: run_action_def)
    then show ?thesis by (rule apply_text_action_edits)
  next
    case send
    with run show ?thesis
      by (cases "make_outputs H i e a st") (auto simp: run_action_def only_edited_outputs)
  next
    case tool
    with run show ?thesis
      by (cases "call_tool H i e a st") (auto simp: run_action_def only_edited_refl)
  next
    case other
    with run type show ?thesis unfolding run_action_def Let_def by simp
  qed
qed

lemma run_actions_edits:
  assumes "run_actions H ro before i as e st pass = Some (Inr (Some (e1, p1)))"
    and "list_all (\<lambda>a. trim_space (ra_type a) \<noteq> ''exec'') as"
  shows "only_edited e e1"
  using assms
proof (induction as arbitrary: i e st pass)
  case (Cons a as)
  obtain e2 res st2 where step: "run_action H i e a st = Some (Inr (e2, res, st2))"
    and rest: "run_actions H ro before (Suc i) as e2 st2 (if ar_pass res \<noteq> None then ar_pass res else pass) =
      Some (Inr (Some (e1, p1)))"
    using Cons.prems(1) by (auto split: option.splits sum.splits if_splits)
  have "only_edited e e2" using run_action_edits [OF step] Cons.prems(2) by simp
  moreover have "only_edited e2 e1" using Cons.IH [OF rest] Cons.prems(2) by simp
  ultimately show ?case by (rule only_edited_trans)
qed (simp add: only_edited_refl)

text \<open>
  C36: a rule edits what its hook point allows.  A rule without a process and without a worker leaves
  everything of the event as it was, except the text that its hook point lets it edit, outputs it
  adds behind those of earlier rules, and the control; images, files and other non-text segments
  of the message are kept, in their order, even when the text around them is replaced.
\<close>
theorem rule_edits_confined:
  assumes run: "run_rule H r e read_only = Some (Inr e1)" and rules: "rs_runtime (rl_source r) = []"
    and no_process: "list_all (\<lambda>a. trim_space (ra_type a) \<noteq> ''exec'') (rl_actions r)"
  shows "\<exists>ss t args res outs c. e1 = edited ss t args res outs c e \<and> edits_allowed ss t args res e"
proof (cases "match_roles r e")
  case True
  obtain x where x: "run_actions H read_only e 0 (rl_actions r) e [] None = Some (Inr x)"
    using run rules True by (auto simp: run_rule_def split: option.splits sum.splits)
  show ?thesis
  proof (cases x)
    case (Some y)
    obtain e2 pass where y: "y = (e2, pass)" by fastforce
    have "only_edited e e2" by (rule run_actions_edits [OF x [unfolded Some y] no_process])
    moreover have "e1 = e2\<lparr>ev_control := rule_control r e pass e2\<rparr>"
      using run rules True x Some y by (simp add: run_rule_def)
    ultimately show ?thesis
      using only_edited_trans [OF _ only_edited_control] by (simp add: only_edited_def)
  qed (use run rules True x only_edited_refl in \<open>simp add: run_rule_def only_edited_def\<close>)
qed (use run only_edited_refl in \<open>simp add: run_rule_def only_edited_def\<close>)

theorem rule_edits_confined_witness:
  "\<exists>ss t args res outs c. prepended_event = edited ss t args res outs c (blank_event LlmResponseReceived) \<and>
    edits_allowed ss t args res (blank_event LlmResponseReceived)"
proof (rule rule_edits_confined [OF prepend_rule_runs])
  show "rs_runtime (rl_source prepend_rule) = []" by code_simp
  show "list_all (\<lambda>a. trim_space (ra_type a) \<noteq> ''exec'') (rl_actions prepend_rule)" by code_simp
qed

section \<open>Limits of what is checked\<close>

text \<open>
  The seconds of a worker are bounded, so none of them wraps as a \<open>Duration\<close>; the seconds of a
  process are only checked for a sign, and a large number is a timeout in the past.
\<close>

lemma duration_exact:
  assumes "0 \<le> sint (s :: 64 word)" "sint s \<le> 9223372036854775807 div 1000000000"
  shows "sint (timeout_duration s) = sint s * 1000000000"
proof -
  have "sint (timeout_duration s) = signed_take_bit 63 (sint s * 1000000000)"
    unfolding timeout_duration_def by (simp add: signed_take_bit_eq_if_positive sint_word_ariths)
  also have "... = sint s * 1000000000"
    using assms by (intro signed_take_bit_int_eq_self) auto
  finally show ?thesis .
qed

text \<open>
  the durations of a worker are exact.  Every number of seconds that the checks of a worker
  accept is positive and, turned into nanoseconds in 64 bits, is still that many seconds.
\<close>
lemma worker_durations_exact:
  assumes "is_worker c" "validate_runtime c = None" "s \<in> set (runtime_seconds c)"
  shows "0 < sint s \<and> sint (timeout_duration s) = sint s * 1000000000"
proof -
  have "0 < sint s" "sint s \<le> 9223372036854775807 div 1000000000"
    using assms by (auto simp: validate_runtime_def runtime_seconds_def not_le not_less split: if_splits)
  then show ?thesis using duration_exact [of s] by simp
qed

definition sample_worker :: runtime_config where
  "sample_worker = \<lparr>rc_id = ''a'', rc_mode = ''persistent'', rc_command = [''x''], rc_cwd = ''.'', rc_startup = 1,
     rc_shutdown = 1, rc_event = 1, rc_max_wait = 1, rc_strategy = ''never'', rc_initial_delay = 1, rc_max_delay = 2,
     rc_allow = [], rc_background = [], rc_dir = ''/p''\<rparr>"

lemma worker_durations_exact_witness: "0 < sint (2 :: 64 word) \<and> sint (timeout_duration 2) = sint (2 :: 64 word) * 1000000000"
proof (rule worker_durations_exact)
  show "is_worker sample_worker" "2 \<in> set (runtime_seconds sample_worker)"
    by (simp_all add: is_worker_def runtime_seconds_def sample_worker_def)
  show "validate_runtime sample_worker = None" by code_simp
qed

lemma process_timeout_wraps:
  "validate_exec_action ((blank_action ''exec'')\<lparr>ra_command := [''x''], ra_timeout := 9223372037\<rparr>) = None \<and>
   sint (timeout_duration 9223372037) < 0"
  by (simp add: validate_exec_action_def timeout_duration_def) code_simp

text \<open>Three rules of which the last is named like the second copy of the first.\<close>

lemma final_names_collide:
  "map (\<lambda>r. rs_final (rl_source r)) (final_names [] (map (\<lambda>n. set_source (blank_source\<lparr>rs_original := n\<rparr>) (blank_rule n []))
     [''a'', ''a'', ''a.1''])) = [''a'', ''a.1'', ''a.1'']"
  by code_simp

text \<open>A template in the text of a message is expanded or not, with the order of the map.\<close>

definition nested_event :: hook_event where
  "nested_event = (blank_event LlmResponseReceived)\<lparr>ev_llm := \<lparr>lp_provider = [], lp_model = ''m'', lp_source = [],
     lp_text = ''{{llm.model}}'', lp_calls = []\<rparr>\<rparr>"

lemma template_order_matters:
  "render_text quiet_host 0 nested_event [] ''{{llm.text}}'' \<noteq>
   render_text (quiet_host\<lparr>hh_order := \<lambda>i t ps. rev ps\<rparr>) 0 nested_event [] ''{{llm.text}}''"
  by code_simp

end
