(* ===== verification/Hook_Pipeline.thy ===== *)
theory Hook_Pipeline
  imports Hook_Config Go_Order
begin

text \<open>
  The pipeline of hooks (\<open>internal/hook/pipeline/manager.go\<close>): registrations per hook point, ordered
  by priority and then by the order of registration; running them on an event; replacing them,
  all or those of one plugin; and the active executions that a command can stop.

  A handler is a function of the number of the call, whether the context is over, the event and the
  read-only flag; \<open>None\<close> is a panic, which the pipeline passes on.  Metadata of an event is one map shared by its copies, so that removing the entry
  \<open>match\<close> removes it everywhere: here the entry is a field, cleared in the event that is kept.
\<close>

section \<open>Registrations\<close>

record handler_answer =
  ha_event :: hook_event
  ha_error :: "hook_failure option"
  ha_ended :: bool

type_synonym hook_handler = "nat \<Rightarrow> bool \<Rightarrow> hook_event \<Rightarrow> bool \<Rightarrow> handler_answer option"

record registration =
  rg_priority :: int
  rg_order :: nat
  rg_plugin :: string
  rg_name :: string
  rg_description :: string
  rg_match :: "hook_condition list"
  rg_block :: block_policy
  rg_handler :: hook_handler
  rg_detail :: string
  rg_wakeup :: string

record active_hook =
  ah_name :: string
  ah_plugin :: string

text \<open>\<open>mg_handlers\<close> is the map of the source with the empty list for a missing point.\<close>

record pipeline =
  mg_next :: nat
  mg_active_id :: nat
  mg_handlers :: "hook_point \<Rightarrow> registration list"
  mg_active :: "(string \<times> active_hook) list"

definition new_pipeline :: pipeline where
  "new_pipeline = \<lparr>mg_next = 0, mg_active_id = 0, mg_handlers = (\<lambda>p. []), mg_active = []\<rparr>"

definition registered_before :: "registration \<Rightarrow> registration \<Rightarrow> bool" where
  "registered_before l r =
     (if rg_priority l = rg_priority r then rg_order l < rg_order r else rg_priority l < rg_priority r)"

text \<open>The order of \<open>reg\<close> is set here.\<close>

definition register_hook :: "hook_point \<times> registration \<Rightarrow> pipeline \<Rightarrow> pipeline" where
  "register_hook pr m = (let (p, reg) = pr; n = Suc (mg_next m);
       r = reg\<lparr>rg_order := n, rg_plugin := trim_space (rg_plugin reg), rg_description := trim_space (rg_description reg)\<rparr>
     in m\<lparr>mg_next := n,
          mg_handlers := (mg_handlers m)(p := stable_sort registered_before (mg_handlers m p @ [r]))\<rparr>)"

text \<open>
  \<open>RegisterHooks\<close> of a module: one registration for every enabled rule, 0 as the default priority;
  \<open>shown\<close> gives the description and the detail text of a rule for the listing.
\<close>

definition default_priority :: int where "default_priority = 1000"

definition rule_handler :: "(nat \<Rightarrow> hook_host) \<Rightarrow> (nat \<Rightarrow> bool) \<Rightarrow> hook_rule \<Rightarrow> hook_handler" where
  "rule_handler host over r n ended e read_only = (case run_rule (host n) r e read_only of
     None \<Rightarrow> None
   | Some (Inl f) \<Rightarrow> Some \<lparr>ha_event = e, ha_error = Some f, ha_ended = over n\<rparr>
   | Some (Inr e1) \<Rightarrow> Some \<lparr>ha_event = e1, ha_error = None, ha_ended = over n\<rparr>)"

definition rule_registration :: "(hook_rule \<Rightarrow> hook_handler) \<Rightarrow> (hook_rule \<Rightarrow> string \<times> string) \<Rightarrow> hook_rule \<Rightarrow> registration" where
  "rule_registration handler shown r = \<lparr>
     rg_priority = (if rl_priority r = 0 then default_priority else rl_priority r), rg_order = 0,
     rg_plugin = rs_plugin (rl_source r), rg_name = rs_final (rl_source r), rg_description = fst (shown r),
     rg_match = rl_match r, rg_block = rs_block (rl_source r), rg_handler = handler r, rg_detail = snd (shown r),
     rg_wakeup = rl_wakeup r\<rparr>"

fun register_rules ::
    "(hook_rule \<Rightarrow> hook_handler) \<Rightarrow> (hook_rule \<Rightarrow> string \<times> string) \<Rightarrow> hook_rule list \<Rightarrow> pipeline \<Rightarrow> pipeline" where
  "register_rules handler shown [] m = m"
| "register_rules handler shown (r # rs) m = register_rules handler shown rs
     (case point_of (rl_on r) of
        Some p \<Rightarrow> if rule_enabled r then register_hook (p, rule_registration handler shown r) m else m
      | None \<Rightarrow> m)"

section \<open>Replacing\<close>

definition replace_hooks :: "pipeline \<Rightarrow> pipeline \<Rightarrow> pipeline" where
  "replace_hooks new m = m\<lparr>mg_handlers := mg_handlers new, mg_next := mg_next new\<rparr>"

definition hook_points :: "hook_point list" where
  "hook_points = [PlatformConnected, PlatformMessageReceived, AgentInputPrepared, LlmTurnPrepared, LlmRequestPrepared,
     LlmResponseReceived, ToolCallPrepared, ToolCallCompleted, AgentOutputPrepared, AgentTurnOutputPrepared,
     PlatformMessageSent, ErrorOccurred]"

definition all_registrations :: "pipeline \<Rightarrow> registration list" where
  "all_registrations m = concat (map (mg_handlers m) hook_points)"

text \<open>The least order of each plugin, \<open>None\<close> for a plugin without registrations.\<close>

definition plugin_rank :: "pipeline \<Rightarrow> string \<Rightarrow> nat option" where
  "plugin_rank m i = (case filter (\<lambda>r. rg_plugin r = i) (all_registrations m) of
     [] \<Rightarrow> None | r # rs \<Rightarrow> Some (foldl (\<lambda>n q. if rg_order q < n then rg_order q else n) (rg_order r) rs))"

definition replaced_before :: "(string \<Rightarrow> nat option) \<Rightarrow> registration \<Rightarrow> registration \<Rightarrow> bool" where
  "replaced_before rank l r =
     (if rg_priority l = rg_priority r then
        (if rg_plugin l \<noteq> rg_plugin r then
           (case (rank (rg_plugin l), rank (rg_plugin r)) of
              (Some a, Some b) \<Rightarrow> a < b
            | (Some a, None) \<Rightarrow> True
            | (None, Some b) \<Rightarrow> False
            | (None, None) \<Rightarrow> rg_order l < rg_order r)
         else rg_order l < rg_order r)
      else rg_priority l < rg_priority r)"

text \<open>The loop over the old registrations: those that stay, and the index of the first that goes.\<close>

fun split_kept :: "string \<Rightarrow> registration list \<Rightarrow> registration list \<Rightarrow> nat option \<Rightarrow> registration list \<times> nat" where
  "split_kept i [] kept at = (kept, (case at of None \<Rightarrow> length kept | Some k \<Rightarrow> k))"
| "split_kept i (r # rs) kept at =
     (if rg_plugin r = i then split_kept i rs kept (if at = None then Some (length kept) else at)
      else split_kept i rs (kept @ [r]) at)"

definition spliced :: "string \<Rightarrow> registration list \<Rightarrow> registration list \<Rightarrow> registration list" where
  "spliced i old new = (let (kept, k) = split_kept i old [] None in take k kept @ new @ drop k kept)"

definition replace_plugin :: "string \<Rightarrow> pipeline \<Rightarrow> pipeline \<Rightarrow> pipeline" where
  "replace_plugin plugin new m = (let i = trim_space plugin;
       mixed = (\<lambda>p. spliced i (mg_handlers m p) (filter (\<lambda>r. rg_plugin r = i) (mg_handlers new p)))
     in m\<lparr>mg_next := foldl (\<lambda>n r. max n (rg_order r)) (mg_next m) (concat (map mixed hook_points)),
          mg_handlers := (\<lambda>p. stable_sort (replaced_before (plugin_rank new)) (mixed p))\<rparr>)"

section \<open>Active executions\<close>

definition start_active :: "registration \<Rightarrow> pipeline \<Rightarrow> string \<times> pipeline" where
  "start_active r m = (let n = Suc (mg_active_id m); i = rg_name r @ '':'' @ nat_str n
     in (i, m\<lparr>mg_active_id := n, mg_active := AList.update i \<lparr>ah_name = rg_name r, ah_plugin = rg_plugin r\<rparr> (mg_active m)\<rparr>))"

definition finish_active :: "string \<Rightarrow> pipeline \<Rightarrow> pipeline" where
  "finish_active i m = m\<lparr>mg_active := AList.delete i (mg_active m)\<rparr>"

text \<open>\<open>Stop\<close>: the executions it cancels.\<close>

definition stop_active :: "string \<Rightarrow> pipeline \<Rightarrow> string list" where
  "stop_active target m = (let i = trim_space target in
     if i = [] then []
     else map fst (filter (\<lambda>(k, a). ah_name a = i \<or> ah_plugin a = i) (mg_active m)))"

definition matches_hook :: "string \<Rightarrow> pipeline \<Rightarrow> bool" where
  "matches_hook target m = (let i = trim_space target in
     list_ex (\<lambda>r. rg_name r = i \<or> rg_plugin r \<noteq> [] \<and> rg_plugin r = i) (all_registrations m))"

record hook_info =
  hf_plugin :: string
  hf_name :: string
  hf_description :: string
  hf_point :: hook_point
  hf_priority :: int
  hf_detail :: string
  hf_active :: nat

fun point_name :: "hook_point \<Rightarrow> string" where
  "point_name PlatformConnected = ''platform.connected''"
| "point_name PlatformMessageReceived = ''platform.message.received''"
| "point_name AgentInputPrepared = ''agent.input.prepared''"
| "point_name LlmTurnPrepared = ''llm.turn.prepared''"
| "point_name LlmRequestPrepared = ''llm.request.prepared''"
| "point_name LlmResponseReceived = ''llm.response.received''"
| "point_name ToolCallPrepared = ''tool.call.prepared''"
| "point_name ToolCallCompleted = ''tool.call.completed''"
| "point_name AgentOutputPrepared = ''agent.output.prepared''"
| "point_name AgentTurnOutputPrepared = ''agent.turn.output.prepared''"
| "point_name PlatformMessageSent = ''platform.message.sent''"
| "point_name ErrorOccurred = ''error.occurred''"

definition info_before :: "hook_info \<Rightarrow> hook_info \<Rightarrow> bool" where
  "info_before a b = (if point_name (hf_point a) = point_name (hf_point b) then bytes_less (hf_name a) (hf_name b)
     else bytes_less (point_name (hf_point a)) (point_name (hf_point b)))"

text \<open>\<open>List\<close>, with the points in any order of iteration.\<close>

definition list_hooks :: "hook_point list \<Rightarrow> pipeline \<Rightarrow> hook_info list" where
  "list_hooks points m = stable_sort info_before (concat (map (\<lambda>p. map (\<lambda>r.
     \<lparr>hf_plugin = rg_plugin r, hf_name = rg_name r, hf_description = rg_description r, hf_point = p,
       hf_priority = rg_priority r, hf_detail = rg_detail r,
       hf_active = length (filter (\<lambda>(k, a). ah_name a = rg_name r) (mg_active m))\<rparr>) (mg_handlers m p)) points))"

text \<open>
  Running hooks on an event (\<open>Run\<close>, \<open>Notify\<close>, \<open>invoke\<close>, \<open>notifyError\<close>, \<open>logHook\<close> of
  \<open>internal/hook/pipeline/manager.go\<close>).  The world holds the number of calls so far, whether the
  context of the task is over, and the records written.  The pipeline is the one that a run reads
  at its start; the continuation of the runtime (\<open>route\<close>) is an argument.
\<close>

section \<open>Calls\<close>

record call_options =
  co_woken :: bool
  co_read_only :: bool
  co_observe :: "nat \<Rightarrow> string \<Rightarrow> go_error option"

record hook_log =
  hl_mode :: string
  hl_name :: string
  hl_plugin :: string
  hl_point :: hook_point
  hl_before :: string
  hl_after :: string
  hl_error :: "hook_failure option"

record run_world =
  rw_calls :: nat
  rw_ended :: bool
  rw_log :: "hook_log list"

record pipeline_env =
  pe_regex :: regex_engine
  pe_url :: "string \<Rightarrow> (string \<times> string) option"
  pe_describe :: "hook_failure \<Rightarrow> string"
  pe_route :: "(nat \<Rightarrow> hook_event \<Rightarrow> handler_answer \<times> bool) option"

definition skip_for_wakeup :: "bool \<Rightarrow> registration \<Rightarrow> bool" where
  "skip_for_wakeup woken r =
     (if rg_wakeup r = ''any'' then False else if rg_wakeup r = ''forbidden'' then woken else \<not> woken)"

definition mark_outputs :: "nat \<Rightarrow> registration \<Rightarrow> string \<Rightarrow> hook_event \<Rightarrow> hook_event" where
  "mark_outputs start r mode e = e\<lparr>ev_outputs := take start (ev_outputs e) @
     map (\<lambda>out. out\<lparr>ou_delivery := (let d = ou_delivery out in d\<lparr>
         di_point := (if di_point d = [] then point_name (ev_point e) else di_point d),
         di_name := (if di_name d = [] then rg_name r else di_name d),
         di_mode := (if di_mode d = [] then mode else di_mode d)\<rparr>)\<rparr>) (drop start (ev_outputs e))\<rparr>"

definition event_text :: "pipeline_env \<Rightarrow> hook_event \<Rightarrow> string" where
  "event_text V e =
     (if lp_text (ev_llm e) \<noteq> [] then lp_text (ev_llm e)
      else let t = segments_raw_content_text (pe_url V) (mp_segments (ev_message e)) in
        if t \<noteq> [] then t
        else if tp_result (ev_tool e) \<noteq> [] then tp_result (ev_tool e)
        else tp_arguments (ev_tool e))"

definition log_hook ::
    "pipeline_env \<Rightarrow> string \<Rightarrow> registration \<Rightarrow> hook_event \<Rightarrow> hook_event \<Rightarrow> hook_failure option \<Rightarrow> run_world \<Rightarrow> run_world" where
  "log_hook V mode r before after err w = w\<lparr>rw_log := rw_log w @
     [\<lparr>hl_mode = mode, hl_name = rg_name r, hl_plugin = rg_plugin r, hl_point = ev_point before,
       hl_before = event_text V before, hl_after = event_text V after, hl_error = err\<rparr>]\<rparr>"

text \<open>A failure to register the execution is an error before the handler runs.\<close>

definition invoke_hook ::
    "call_options \<Rightarrow> registration \<Rightarrow> hook_event \<Rightarrow> run_world
     \<Rightarrow> (hook_event \<times> hook_failure option \<times> run_world) option" where
  "invoke_hook opts r e w = (case co_observe opts (rw_calls w) (rg_name r) of
     Some err \<Rightarrow> Some (e, Some (HandlerFailed err), w\<lparr>rw_calls := Suc (rw_calls w)\<rparr>)
   | None \<Rightarrow> map_option (\<lambda>a. (ha_event a, ha_error a,
         w\<lparr>rw_calls := Suc (rw_calls w), rw_ended := rw_ended w \<or> ha_ended a\<rparr>))
       (rg_handler r (rw_calls w) (rw_ended w) e (co_read_only opts)))"

text \<open>The three checks before a handler: \<open>Some None\<close> skips it, \<open>None\<close> is a panic in matching.\<close>

definition admitted ::
    "pipeline_env \<Rightarrow> call_options \<Rightarrow> registration \<Rightarrow> hook_event \<Rightarrow> regex_match list option option" where
  "admitted V opts r e =
     (if blocks_event (rg_block r) e \<or> skip_for_wakeup (co_woken opts) r then Some None
      else match_event (pe_regex V) (pe_url V) e (rg_match r))"

section \<open>Notifications\<close>

text \<open>\<open>report\<close> is what a failure leads to; the event stays as it is.\<close>

fun notify_each ::
    "pipeline_env \<Rightarrow> call_options \<Rightarrow> (hook_failure \<Rightarrow> run_world \<Rightarrow> run_world option) \<Rightarrow> hook_event
     \<Rightarrow> registration list \<Rightarrow> run_world \<Rightarrow> (hook_failure option \<times> run_world) option" where
  "notify_each V opts report e [] w = Some (None, w)"
| "notify_each V opts report e (r # rs) w = (case admitted V opts r e of
     None \<Rightarrow> None
   | Some None \<Rightarrow> notify_each V opts report e rs w
   | Some (Some ms) \<Rightarrow> (case invoke_hook opts r (e\<lparr>ev_match := ms\<rparr>) w of
       None \<Rightarrow> None
     | Some (e1, Some err, w1) \<Rightarrow>
         if rw_ended w1 then Some (Some err, w1)
         else (case report err (log_hook V ''notify'' r e e (Some err) w1) of
           None \<Rightarrow> None | Some w2 \<Rightarrow> notify_each V opts report e rs w2)
     | Some (e1, None, w1) \<Rightarrow>
         (let w2 = log_hook V ''notify'' r e e None w1 in
          if hc_stop (ev_control e1) then Some (None, w2) else notify_each V opts report e rs w2)))"

text \<open>A failure of an error hook is written and goes no further.\<close>

definition notify_error ::
    "pipeline_env \<Rightarrow> pipeline \<Rightarrow> call_options \<Rightarrow> hook_event \<Rightarrow> hook_failure \<Rightarrow> run_world \<Rightarrow> run_world option" where
  "notify_error V m opts e err w =
     (if rw_ended w \<or> ev_point e = ErrorOccurred then Some w
      else map_option snd (notify_each V opts (\<lambda>f w. Some w)
        (prepare_event (e\<lparr>ev_point := ErrorOccurred, ev_error := Some (pe_describe V err), ev_error_info := None\<rparr>))
        (mg_handlers m ErrorOccurred) w))"

definition notify_hooks ::
    "pipeline_env \<Rightarrow> pipeline \<Rightarrow> call_options \<Rightarrow> hook_event \<Rightarrow> run_world \<Rightarrow> (hook_failure option \<times> run_world) option" where
  "notify_hooks V m opts event w = (let e = prepare_event event in
     notify_each V opts (\<lambda>f w. if ev_point e \<noteq> ErrorOccurred then notify_error V m opts e f w else Some w)
       e (mg_handlers m (ev_point e)) w)"

section \<open>Runs\<close>

text \<open>\<open>Inl\<close> is the error of an ended task, with the event before the hook that failed.\<close>

fun run_each ::
    "pipeline_env \<Rightarrow> pipeline \<Rightarrow> call_options \<Rightarrow> registration list \<Rightarrow> hook_event \<Rightarrow> run_world
     \<Rightarrow> ((hook_event \<times> hook_failure) + hook_event) option \<times> run_world" where
  "run_each V m opts [] e w = (Some (Inr e), w)"
| "run_each V m opts (r # rs) e w = (case admitted V opts r e of
     None \<Rightarrow> (None, w)
   | Some None \<Rightarrow> run_each V m opts rs e w
   | Some (Some ms) \<Rightarrow> (case invoke_hook opts r (e\<lparr>ev_match := ms\<rparr>) w of
       None \<Rightarrow> (None, w)
     | Some (e1, Some err, w1) \<Rightarrow>
         if rw_ended w1 then (Some (Inl (e, err)), w1)
         else (case notify_error V m opts e err (log_hook V ''run'' r e e (Some err) w1) of
           None \<Rightarrow> (None, w1) | Some w2 \<Rightarrow> run_each V m opts rs e w2)
     | Some (e1, None, w1) \<Rightarrow>
         (let e2 = prepare_event (mark_outputs (length (ev_outputs e)) r ''run'' (e1\<lparr>ev_match := []\<rparr>));
              w2 = log_hook V ''run'' r e e2 None w1
          in if hc_stop (ev_control e2) then (Some (Inr e2), w2) else run_each V m opts rs e2 w2)))"

definition run_ordinary ::
    "pipeline_env \<Rightarrow> pipeline \<Rightarrow> call_options \<Rightarrow> hook_event \<Rightarrow> run_world
     \<Rightarrow> ((hook_event \<times> hook_failure) + hook_event) option \<times> run_world" where
  "run_ordinary V m opts event w = (let e = prepare_event event in run_each V m opts (mg_handlers m (ev_point e)) e w)"

definition run_hooks ::
    "pipeline_env \<Rightarrow> pipeline \<Rightarrow> call_options \<Rightarrow> hook_event \<Rightarrow> run_world
     \<Rightarrow> ((hook_event \<times> hook_failure) + hook_event) option \<times> run_world" where
  "run_hooks V m opts e w = (case (pe_route V, ev_point e) of
     (Some route, PlatformMessageReceived) \<Rightarrow>
       (case route (rw_calls w) e of (a, routed) \<Rightarrow>
          (let w1 = w\<lparr>rw_calls := Suc (rw_calls w), rw_ended := rw_ended w \<or> ha_ended a\<rparr> in
           case ha_error a of
             Some err \<Rightarrow>
               if rw_ended w1 then (Some (Inl (e, err)), w1)
               else (case notify_error V m opts e err w1 of
                 None \<Rightarrow> (None, w1)
               | Some w2 \<Rightarrow> if routed \<and> hc_stop (ev_control e) then (Some (Inr e), w2) else run_ordinary V m opts e w2)
           | None \<Rightarrow>
               if routed \<and> hc_stop (ev_control (ha_event a)) then (Some (Inr (ha_event a)), w1)
               else run_ordinary V m opts (ha_event a) w1))
   | _ \<Rightarrow> run_ordinary V m opts e w)"

end
