(* ===== verification/Hook_Pipeline_Props.thy ===== *)
theory Hook_Pipeline_Props
  imports Hook_Pipeline "HOL-Library.Product_Lexorder"
begin

text \<open>
  Registration and replacement: the handlers of a point are the registrations for it, ordered by
  priority and among equal priorities as registered; replacing one plugin touches only its
  registrations, and replacing all of them gives what a fresh start would have.
\<close>

section \<open>Sorting\<close>

lemma stable_sort_key:
  assumes "\<And>a b. a \<in> set xs \<Longrightarrow> b \<in> set xs \<Longrightarrow> lt a b \<longleftrightarrow> f a < f b"
  shows "stable_sort lt xs = sort_key f xs"
  using assms
proof (induction xs)
  case (Cons x xs)
  have "insert_by lt x ys = insort_key f x ys" if "set ys \<subseteq> set (x # xs)" for ys
    using that Cons.prems by (induction ys) (auto simp: not_less)
  from this [of "sort_key f xs"] Cons show ?case by auto
qed simp

lemma insort_key_lex:
  "\<forall>y \<in> set ys. g x \<le> g y \<Longrightarrow> insort_key (\<lambda>x. (f x, g x)) x ys = insort_key f x ys"
  for f :: "'a \<Rightarrow> 'b::linorder" and g :: "'a \<Rightarrow> 'c::linorder"
  by (induction ys) auto

text \<open>A list in the order of the second key needs the first only.\<close>

lemma sort_key_lex:
  "sorted (map g xs) \<Longrightarrow> sort_key (\<lambda>x. (f x, g x)) xs = sort_key f xs"
  for f :: "'a \<Rightarrow> 'b::linorder" and g :: "'a \<Rightarrow> 'c::linorder"
  by (induction xs) (simp_all add: insort_key_lex)

lemma sort_key_mset:
  "mset xs = mset ys \<Longrightarrow> inj_on f (set xs) \<Longrightarrow> sort_key f xs = sort_key f ys"
  for f :: "'a \<Rightarrow> 'b::linorder"
  by (rule sort_key_inj_key_eq) simp_all

section \<open>Registering\<close>

abbreviation place_key :: "registration \<Rightarrow> int \<times> nat" where
  "place_key r \<equiv> (rg_priority r, rg_order r)"

lemma registered_before_key: "registered_before l r \<longleftrightarrow> place_key l < place_key r"
  by (auto simp: registered_before_def)

lemma registered_sort: "stable_sort registered_before xs = sort_key place_key xs"
  by (rule stable_sort_key) (rule registered_before_key)

text \<open>The registrations as they are stored, numbered from \<open>n\<close>.\<close>

fun numbered :: "nat \<Rightarrow> (hook_point \<times> registration) list \<Rightarrow> (hook_point \<times> registration) list" where
  "numbered n [] = []"
| "numbered n ((p, r) # prs) = (p, r\<lparr>rg_order := n, rg_plugin := trim_space (rg_plugin r),
     rg_description := trim_space (rg_description r)\<rparr>) # numbered (Suc n) prs"

definition at_point :: "hook_point \<Rightarrow> (hook_point \<times> registration) list \<Rightarrow> registration list" where
  "at_point p prs = map snd (filter (\<lambda>x. fst x = p) prs)"

lemma numbered_append: "numbered n (xs @ ys) = numbered n xs @ numbered (n + length xs) ys"
  by (induction xs arbitrary: n) auto

lemma numbered_orders: "map (rg_order \<circ> snd) (numbered n prs) = [n..<n + length prs]"
  by (induction n prs rule: numbered.induct) (auto simp: upt_rec)

lemma at_point_sorted: "sorted (map rg_order (at_point p (numbered n prs)))"
proof -
  have "sorted (map (rg_order \<circ> snd) (numbered n prs))" by (simp add: numbered_orders)
  then have "sorted (map (rg_order \<circ> snd) (filter (\<lambda>x. fst x = p) (numbered n prs)))" by (rule sorted_filter)
  then show ?thesis by (simp add: at_point_def)
qed

lemma numbered_inj: "inj_on (rg_order \<circ> snd) (set (numbered n prs))"
proof -
  have "distinct (map (rg_order \<circ> snd) (numbered n prs))" by (simp add: numbered_orders)
  then show ?thesis by (simp add: distinct_map)
qed

lemma at_point_inj: "inj_on place_key (set (at_point p (numbered n prs)))"
  using numbered_inj [of n prs] by (fastforce simp: at_point_def inj_on_def)

lemma register_parts:
  "mg_next (register_hook (q, reg) m) = Suc (mg_next m)"
  "mg_handlers (register_hook (q, reg) m) p = (if q = p then sort_key place_key (mg_handlers m p @
     [reg\<lparr>rg_order := Suc (mg_next m), rg_plugin := trim_space (rg_plugin reg),
       rg_description := trim_space (rg_description reg)\<rparr>]) else mg_handlers m p)"
  by (simp_all add: register_hook_def Let_def registered_sort)

lemma register_all:
  "mg_next (fold register_hook prs new_pipeline) = length prs \<and>
   mg_handlers (fold register_hook prs new_pipeline) p = sort_key rg_priority (at_point p (numbered 1 prs))"
proof (induction prs rule: rev_induct)
  case Nil
  then show ?case by (simp add: new_pipeline_def at_point_def)
next
  case (snoc pr prs)
  let ?m = "fold register_hook prs new_pipeline"
  obtain q reg where pr: "pr = (q, reg)" by fastforce
  let ?r = "reg\<lparr>rg_order := Suc (length prs), rg_plugin := trim_space (rg_plugin reg),
    rg_description := trim_space (rg_description reg)\<rparr>"
  have add: "at_point p (numbered 1 (prs @ [pr])) = at_point p (numbered 1 prs) @ (if q = p then [?r] else [])"
    by (simp add: numbered_append pr at_point_def)
  have step: "mg_handlers (register_hook pr ?m) p =
      (if q = p then sort_key place_key (mg_handlers ?m p @ [?r]) else mg_handlers ?m p)"
    using snoc by (simp add: pr register_parts)
  show ?case
  proof (cases "q = p")
    case True
    have "sort_key place_key (mg_handlers ?m p @ [?r]) = sort_key place_key (at_point p (numbered 1 (prs @ [pr])))"
    proof (rule sort_key_mset)
      show m: "mset (mg_handlers ?m p @ [?r]) = mset (at_point p (numbered 1 (prs @ [pr])))"
        using snoc True add by simp
      show "inj_on place_key (set (mg_handlers ?m p @ [?r]))"
        unfolding mset_eq_setD [OF m] by (rule at_point_inj)
    qed
    also have "... = sort_key rg_priority (at_point p (numbered 1 (prs @ [pr])))"
      by (rule sort_key_lex) (rule at_point_sorted)
    finally show ?thesis using snoc step True by (simp add: pr register_parts)
  qed (use snoc step add in \<open>simp add: pr register_parts\<close>)
qed

text \<open>
  hooks run in the order of their priority.  The handlers of a point are exactly the
  registrations for that point, each once, in ascending order of priority; among equal priorities
  they keep the order in which they were registered.
\<close>
lemma hooks_registered:
  "mg_handlers (fold register_hook prs new_pipeline) p = sort_key rg_priority (at_point p (numbered 1 prs))"
  using register_all by blast

section \<open>Replacing one plugin\<close>

lemma split_kept_spec:
  "split_kept i rs kept at = (ks, k) \<Longrightarrow> ks = kept @ filter (\<lambda>r. rg_plugin r \<noteq> i) rs"
proof (induction rs arbitrary: kept at)
  case (Cons r rs)
  then show ?case by (cases "rg_plugin r = i") (force dest: Cons.IH)+
qed simp

lemma mset_spliced: "mset (spliced i old new) = filter_mset (\<lambda>r. rg_plugin r \<noteq> i) (mset old) + mset new"
proof -
  obtain kept k where k: "split_kept i old [] None = (kept, k)" by fastforce
  have "mset (take k kept) + mset (drop k kept) = mset kept"
    by (metis append_take_drop_id mset_append)
  then have "mset (take k kept @ new @ drop k kept) = mset kept + mset new" by simp
  with k split_kept_spec [OF k] show ?thesis by (simp add: spliced_def)
qed

lemma hook_points_all: "p \<in> set hook_points"
  by (cases p) (simp_all add: hook_points_def)

lemma all_registrations_set: "r \<in> set (all_registrations m) \<longleftrightarrow> (\<exists>p. r \<in> set (mg_handlers m p))"
  using hook_points_all by (auto simp: all_registrations_def)

definition mixed_handlers :: "string \<Rightarrow> pipeline \<Rightarrow> pipeline \<Rightarrow> hook_point \<Rightarrow> registration list" where
  "mixed_handlers i new m p = spliced i (mg_handlers m p) (filter (\<lambda>r. rg_plugin r = i) (mg_handlers new p))"

lemma replace_plugin_handlers:
  "mg_handlers (replace_plugin i new m) p =
     stable_sort (replaced_before (plugin_rank new)) (mixed_handlers (trim_space i) new m p)"
  by (simp add: replace_plugin_def Let_def mixed_handlers_def)

lemma mset_replace_plugin:
  "mset (mg_handlers (replace_plugin i new m) p) =
     filter_mset (\<lambda>r. rg_plugin r \<noteq> trim_space i) (mset (mg_handlers m p)) +
     filter_mset (\<lambda>r. rg_plugin r = trim_space i) (mset (mg_handlers new p))"
  by (simp add: replace_plugin_handlers mixed_handlers_def mset_spliced)

subsection \<open>Ranks\<close>

definition unique_orders :: "pipeline \<Rightarrow> bool" where
  "unique_orders m \<longleftrightarrow> inj_on rg_order (set (all_registrations m))"

lemma foldl_least:
  "foldl (\<lambda>n q. if rg_order q < n then rg_order q else n) n rs = k \<Longrightarrow>
   (k = n \<or> (\<exists>q \<in> set rs. rg_order q = k)) \<and> k \<le> n \<and> (\<forall>q \<in> set rs. k \<le> rg_order q)"
proof (induction rs arbitrary: n)
  case (Cons q rs)
  from Cons.IH [OF Cons.prems [simplified foldl.simps]] show ?case by (auto split: if_splits)
qed simp

lemma plugin_rank_Some:
  assumes "plugin_rank m i = Some k"
  shows "(\<exists>r \<in> set (all_registrations m). rg_plugin r = i \<and> rg_order r = k) \<and>
    (\<forall>r \<in> set (all_registrations m). rg_plugin r = i \<longrightarrow> k \<le> rg_order r)"
proof (cases "filter (\<lambda>r. rg_plugin r = i) (all_registrations m)")
  case (Cons r rs)
  then have mem: "q \<in> set (r # rs) \<longleftrightarrow> q \<in> set (all_registrations m) \<and> rg_plugin q = i" for q
    unfolding Cons [symmetric] by auto
  have "foldl (\<lambda>n q. if rg_order q < n then rg_order q else n) (rg_order r) rs = k"
    using assms Cons by (simp add: plugin_rank_def)
  from foldl_least [OF this] mem show ?thesis by (metis list.set_intros(1) list.set_intros(2) set_ConsD)
qed (use assms in \<open>simp add: plugin_rank_def\<close>)

lemma plugin_rank_None: "plugin_rank m i = None \<longleftrightarrow> (\<forall>r \<in> set (all_registrations m). rg_plugin r \<noteq> i)"
  by (auto simp: plugin_rank_def filter_empty_conv split: list.split dest: filter_eq_ConsD)

lemma plugin_rank_inj:
  assumes "unique_orders m" "plugin_rank m i = Some k" "plugin_rank m j = Some k"
  shows "i = j"
  using plugin_rank_Some [OF assms(2)] plugin_rank_Some [OF assms(3)] assms(1)
  by (auto simp: unique_orders_def dest: inj_onD)

text \<open>The comparison of the source is the order of a key: plugins of the new pipeline first.\<close>

definition replaced_key :: "(string \<Rightarrow> nat option) \<Rightarrow> registration \<Rightarrow> int \<times> nat \<times> nat \<times> nat" where
  "replaced_key rank r = (rg_priority r, (if rank (rg_plugin r) = None then 1 else 0),
     (case rank (rg_plugin r) of None \<Rightarrow> 0 | Some k \<Rightarrow> k), rg_order r)"

lemma replaced_before_key:
  assumes "\<And>i j k. rank i = Some k \<Longrightarrow> rank j = Some k \<Longrightarrow> i = j"
  shows "replaced_before rank l r \<longleftrightarrow> replaced_key rank l < replaced_key rank r"
proof -
  have "rank (rg_plugin l) \<noteq> rank (rg_plugin r) \<or> rg_plugin l = rg_plugin r \<or> rank (rg_plugin l) = None"
    using assms [of "rg_plugin l" _ "rg_plugin r"] by (cases "rank (rg_plugin l)"; cases "rank (rg_plugin r)") auto
  then show ?thesis by (auto simp: replaced_before_def replaced_key_def split: option.split)
qed

lemma replace_plugin_sorted:
  "unique_orders new \<Longrightarrow> mg_handlers (replace_plugin i new m) p =
     sort_key (replaced_key (plugin_rank new)) (mixed_handlers (trim_space i) new m p)"
  unfolding replace_plugin_handlers
  by (rule stable_sort_key) (rule replaced_before_key, erule (1) plugin_rank_inj)

text \<open>
  Reloading hooks (\<open>Replace\<close>, \<open>ReplacePlugin\<close>): one plugin at a time, or all of them, which ends in
  the handlers of a fresh start when the rules of every plugin stand together.
\<close>

section \<open>One plugin\<close>

lemma sort_key_cong_set: "(\<And>x. x \<in> set xs \<Longrightarrow> f x = g x) \<Longrightarrow> sort_key f xs = sort_key g xs"
  for f :: "'a \<Rightarrow> 'b::linorder"
proof (induction xs)
  case (Cons x xs)
  have "insort_key f x ys = insort_key g x ys" if "set ys \<subseteq> set (x # xs)" for ys
    using that Cons.prems by (induction ys) auto
  from this [of "sort_key g xs"] Cons show ?case by auto
qed simp

lemma sort_key_strict:
  "(\<And>x y. x \<in> set xs \<Longrightarrow> y \<in> set xs \<Longrightarrow> f x < f y \<longleftrightarrow> g x < g y) \<Longrightarrow> sort_key f xs = sort_key g xs"
  for f :: "'a \<Rightarrow> 'b::linorder" and g :: "'a \<Rightarrow> 'c::linorder"
proof (induction xs)
  case (Cons x xs)
  have "insort_key f x ys = insort_key g x ys" if "set ys \<subseteq> set (x # xs)" for ys
    using that Cons.prems by (induction ys) (auto simp flip: not_less)
  from this [of "sort_key g xs"] Cons show ?case by auto
qed simp

definition in_place :: "pipeline \<Rightarrow> bool" where
  "in_place m \<longleftrightarrow> (\<forall>p. sorted (map place_key (mg_handlers m p)))"

lemma in_place_sort: "in_place m \<Longrightarrow> sort_key place_key (mg_handlers m p) = mg_handlers m p"
  unfolding in_place_def by (rule sort_key_id_if_sorted) blast

text \<open>
  reloading a plugin leaves the others alone.  After the registrations of one plugin are
  replaced, the plugin has exactly the handlers of the new pipeline, in its order, and every other
  plugin has at every point the registrations that it had, each as often as before.
\<close>
lemma replace_plugin_isolated:
  assumes "unique_orders new" "in_place new"
  shows "filter (\<lambda>r. rg_plugin r = trim_space i) (mg_handlers (replace_plugin i new m) p) =
      filter (\<lambda>r. rg_plugin r = trim_space i) (mg_handlers new p) \<and>
    filter_mset (\<lambda>r. rg_plugin r \<noteq> trim_space i) (mset (mg_handlers (replace_plugin i new m) p)) =
      filter_mset (\<lambda>r. rg_plugin r \<noteq> trim_space i) (mset (mg_handlers m p))"
proof
  let ?P = "\<lambda>r. rg_plugin r = trim_space i" and ?mixed = "mixed_handlers (trim_space i) new m p"
  let ?rank = "plugin_rank new"
  have same: "replaced_key ?rank x < replaced_key ?rank y \<longleftrightarrow> place_key x < place_key y"
    if "x \<in> set (filter ?P xs)" "y \<in> set (filter ?P xs)" for x y xs
    using that by (auto simp: replaced_key_def)
  have "mset (filter ?P ?mixed) = mset (filter ?P (mg_handlers new p))"
    by (simp add: mixed_handlers_def mset_spliced filter_filter_mset cong: conj_cong)
  moreover have "inj_on place_key (set (filter ?P ?mixed))"
  proof -
    have "set (filter ?P ?mixed) \<subseteq> set (all_registrations new)"
      using mset_eq_setD [OF calculation] by (auto simp: all_registrations_set)
    with assms(1) show ?thesis by (auto simp: unique_orders_def inj_on_def)
  qed
  ultimately have moved: "sort_key place_key (filter ?P ?mixed) = sort_key place_key (filter ?P (mg_handlers new p))"
    by (rule sort_key_mset)
  have "filter ?P (mg_handlers (replace_plugin i new m) p) = sort_key (replaced_key ?rank) (filter ?P ?mixed)"
    unfolding replace_plugin_sorted [OF assms(1)] by (rule filter_sort)
  also have "... = sort_key place_key (filter ?P ?mixed)" by (rule sort_key_strict) (rule same)
  also have "... = filter ?P (sort_key place_key (mg_handlers new p))" unfolding moved by (rule filter_sort [symmetric])
  finally show "filter ?P (mg_handlers (replace_plugin i new m) p) = filter ?P (mg_handlers new p)"
    by (simp only: in_place_sort [OF assms(2)])
  show "filter_mset (\<lambda>r. \<not> ?P r) (mset (mg_handlers (replace_plugin i new m) p)) = filter_mset (\<lambda>r. \<not> ?P r) (mset (mg_handlers m p))"
    by (simp add: mset_replace_plugin filter_filter_mset)
qed

section \<open>All plugins\<close>

lemma filter_mset_none: "(\<And>x. x \<in># M \<Longrightarrow> \<not> P x) \<Longrightarrow> filter_mset P M = {#}"
  by (induction M) auto

lemma filter_mset_every: "(\<And>x. x \<in># M \<Longrightarrow> P x) \<Longrightarrow> filter_mset P M = M"
  by (induction M) auto

text \<open>The rules of one plugin stand together in the order of registration.\<close>

definition plugins_together :: "pipeline \<Rightarrow> bool" where
  "plugins_together m \<longleftrightarrow> (\<forall>a \<in> set (all_registrations m). \<forall>b \<in> set (all_registrations m). \<forall>c \<in> set (all_registrations m).
     rg_order a < rg_order b \<longrightarrow> rg_order b < rg_order c \<longrightarrow> rg_plugin a = rg_plugin c \<longrightarrow> rg_plugin b = rg_plugin a)"

lemma ranks_in_order:
  assumes together: "plugins_together m" and unique: "unique_orders m"
    and l: "l \<in> set (all_registrations m)" and r: "r \<in> set (all_registrations m)"
  shows "replaced_key (plugin_rank m) l < replaced_key (plugin_rank m) r \<longleftrightarrow> place_key l < place_key r"
proof -
  obtain a b where ab: "plugin_rank m (rg_plugin l) = Some a" "plugin_rank m (rg_plugin r) = Some b"
    using l r plugin_rank_None by (metis not_Some_eq)
  obtain l1 r1 where l1: "l1 \<in> set (all_registrations m)" "rg_plugin l1 = rg_plugin l" "rg_order l1 = a" "a \<le> rg_order l"
    and r1: "r1 \<in> set (all_registrations m)" "rg_plugin r1 = rg_plugin r" "rg_order r1 = b" "b \<le> rg_order r"
    using plugin_rank_Some [OF ab(1)] plugin_rank_Some [OF ab(2)] l r by blast
  have "a < b \<longleftrightarrow> rg_order l < rg_order r" if diff: "rg_plugin l \<noteq> rg_plugin r"
  proof -
    have neq: "rg_order x \<noteq> rg_order y"
      if "x \<in> set (all_registrations m)" "y \<in> set (all_registrations m)" "rg_plugin x \<noteq> rg_plugin y" for x y
      using unique that by (auto simp: unique_orders_def dest: inj_onD)
    have "\<not> (rg_order x < rg_order y \<and> rg_order y < rg_order z)"
      if "x \<in> set (all_registrations m)" "y \<in> set (all_registrations m)" "z \<in> set (all_registrations m)"
        "rg_plugin x = rg_plugin z" "rg_plugin y \<noteq> rg_plugin x" for x y z
      using together that unfolding plugins_together_def by blast
    from this [OF l1(1) r l] this [OF r1(1) l r] this [OF l1(1) r1(1) l] this [OF r1(1) l1(1) r]
    show ?thesis using neq [OF l r] neq [OF l1(1) r] neq [OF r1(1) l] neq [OF l1(1) r1(1)] l1 r1 diff by force
  qed
  moreover have "a = b" if "rg_plugin l = rg_plugin r" using ab that by simp
  ultimately show ?thesis using ab by (cases "rg_plugin l = rg_plugin r") (auto simp: replaced_key_def)
qed

lemma mset_replace_plugins:
  assumes "list_all (\<lambda>i. trim_space i = i) is"
  shows "mset (mg_handlers (fold (\<lambda>i. replace_plugin i new) is m) p) =
     filter_mset (\<lambda>r. rg_plugin r \<notin> set is) (mset (mg_handlers m p)) +
     filter_mset (\<lambda>r. rg_plugin r \<in> set is) (mset (mg_handlers new p))"
  using assms
proof (induction "is" rule: rev_induct)
  case (snoc i "is")
  have disj: "filter_mset (\<lambda>r. rg_plugin r \<noteq> i \<and> rg_plugin r \<in> set is) M + filter_mset (\<lambda>r. rg_plugin r = i) M =
      filter_mset (\<lambda>r. rg_plugin r = i \<or> rg_plugin r \<in> set is) M" for M
    by (induction M) auto
  from snoc show ?case
    by (simp add: mset_replace_plugin filter_filter_mset conj_commute add.assoc disj)
qed simp

text \<open>
  C34: a reload is a fresh start.  When every plugin of the running or the loaded pipeline is
  replaced, one after the other in any order, every point ends with the handlers of the loaded
  pipeline in their order, whatever was registered before, as long as the loaded rules of each
  plugin stand together.
\<close>
theorem reload_is_fresh_start:
  assumes new: "unique_orders new" "in_place new" "plugins_together new"
    and ids: "list_all (\<lambda>i. trim_space i = i) is"
    and all: "list_all (\<lambda>r. rg_plugin r \<in> set is) (all_registrations m @ all_registrations new)"
  shows "mg_handlers (fold (\<lambda>i. replace_plugin i new) is m) p = mg_handlers new p"
proof (cases "is" rule: rev_cases)
  case Nil
  then have "mg_handlers m p = []" "mg_handlers new p = []"
    using all all_registrations_set [of _ m] all_registrations_set [of _ new]
    by (auto simp: list_all_iff) (metis list.set_sel(1))+
  with Nil show ?thesis by simp
next
  case (snoc js i)
  let ?m = "fold (\<lambda>i. replace_plugin i new) js m"
  let ?mixed = "mixed_handlers (trim_space i) new ?m p"
  have named: "rg_plugin r \<in> set is" if "r \<in> set (mg_handlers m p) \<or> r \<in> set (mg_handlers new p)" for r
    using that all unfolding list_all_iff set_append by (metis UnI1 UnI2 all_registrations_set)
  then have "mset (mg_handlers (fold (\<lambda>i. replace_plugin i new) is m) p) = mset (mg_handlers new p)"
    unfolding mset_replace_plugins [OF ids] by (subst filter_mset_none) (auto intro!: filter_mset_every)
  then have mset: "mset ?mixed = mset (mg_handlers new p)"
    by (simp add: snoc replace_plugin_handlers)
  have members: "r \<in> set (all_registrations new)" if "r \<in> set ?mixed" for r
    using that mset_eq_setD [OF mset] all_registrations_set by blast
  have "mg_handlers (fold (\<lambda>i. replace_plugin i new) is m) p = sort_key (replaced_key (plugin_rank new)) ?mixed"
    by (simp add: snoc replace_plugin_sorted [OF new(1)])
  also have "... = sort_key place_key ?mixed"
    by (rule sort_key_strict) (rule ranks_in_order [OF new(3,1) members members])
  also have "... = sort_key place_key (mg_handlers new p)"
    by (rule sort_key_mset [OF mset]) (use new(1) members in \<open>auto simp: unique_orders_def inj_on_def\<close>)
  finally show ?thesis by (simp add: in_place_sort [OF new(2)])
qed

section \<open>Pipelines that are built by registering\<close>

lemma registered_set:
  "r \<in> set (all_registrations (fold register_hook prs new_pipeline)) \<longleftrightarrow> (\<exists>p. (p, r) \<in> set (numbered 1 prs))"
  unfolding all_registrations_set hooks_registered by (force simp: at_point_def)

lemma registered_unique: "unique_orders (fold register_hook prs new_pipeline)"
  unfolding unique_orders_def
proof (rule inj_onI)
  fix r s
  assume "r \<in> set (all_registrations (fold register_hook prs new_pipeline))"
    "s \<in> set (all_registrations (fold register_hook prs new_pipeline))" "rg_order r = rg_order s"
  then obtain p q where "(p, r) \<in> set (numbered 1 prs)" "(q, s) \<in> set (numbered 1 prs)"
    "(rg_order \<circ> snd) (p, r) = (rg_order \<circ> snd) (q, s)"
    unfolding registered_set by auto
  with numbered_inj [of 1 prs] have "(p, r) = (q, s)" unfolding inj_on_def by blast
  then show "r = s" by simp
qed

lemma registered_in_place: "in_place (fold register_hook prs new_pipeline)"
proof -
  have "sorted (map place_key (mg_handlers (fold register_hook prs new_pipeline) p))" for p
    using sorted_sort_key [of place_key "at_point p (numbered 1 prs)"] sort_key_lex [OF at_point_sorted, of rg_priority p 1 prs]
    unfolding hooks_registered by (simp only: )
  then show ?thesis by (simp add: in_place_def)
qed

text \<open>A registration that matches every event.\<close>

definition sample_registration :: "string \<Rightarrow> string \<Rightarrow> int \<Rightarrow> hook_handler \<Rightarrow> registration" where
  "sample_registration plugin n prio h = \<lparr>rg_priority = prio, rg_order = 0, rg_plugin = plugin, rg_name = n,
     rg_description = [], rg_match = [\<lparr>hk_field = [], hk_op = ''always'', hk_value = []\<rparr>], rg_block = no_block,
     rg_handler = h, rg_detail = [], rg_wakeup = ''any''\<rparr>"

definition keep_handler :: hook_handler where
  "keep_handler n ended e read_only = Some \<lparr>ha_event = e, ha_error = None, ha_ended = False\<rparr>"

definition sample_pipeline :: "(string \<times> string) list \<Rightarrow> pipeline" where
  "sample_pipeline rs = fold register_hook
     (map (\<lambda>(plugin, n). (ErrorOccurred, sample_registration plugin n 1 keep_handler)) rs) new_pipeline"

lemma replace_plugin_isolated_witness:
  "filter (\<lambda>r. rg_plugin r = trim_space ''a'') (mg_handlers (replace_plugin ''a'' (sample_pipeline [(''a'', ''y'')])
     (sample_pipeline [(''a'', ''x''), (''b'', ''z'')])) ErrorOccurred) =
   filter (\<lambda>r. rg_plugin r = trim_space ''a'') (mg_handlers (sample_pipeline [(''a'', ''y'')]) ErrorOccurred)"
  unfolding sample_pipeline_def
  by (rule conjunct1 [OF replace_plugin_isolated [OF registered_unique registered_in_place]])

theorem reload_is_fresh_start_witness:
  "mg_handlers (fold (\<lambda>i. replace_plugin i (sample_pipeline [(''a'', ''y''), (''b'', ''z'')])) [''b'', ''a'']
     (sample_pipeline [(''b'', ''x'')])) ErrorOccurred = mg_handlers (sample_pipeline [(''a'', ''y''), (''b'', ''z'')]) ErrorOccurred"
proof (rule reload_is_fresh_start)
  show "unique_orders (sample_pipeline [(''a'', ''y''), (''b'', ''z'')])" "in_place (sample_pipeline [(''a'', ''y''), (''b'', ''z'')])"
    unfolding sample_pipeline_def by (rule registered_unique registered_in_place)+
  show "plugins_together (sample_pipeline [(''a'', ''y''), (''b'', ''z'')])" by code_simp
  show "list_all (\<lambda>i. trim_space i = i) [''b'', ''a'']" by code_simp
  show "list_all (\<lambda>r. rg_plugin r \<in> set [''b'', ''a'']) (all_registrations (sample_pipeline [(''b'', ''x'')]) @
      all_registrations (sample_pipeline [(''a'', ''y''), (''b'', ''z'')]))" by code_simp
qed

text \<open>A plugin named twice around another one: a fresh start interleaves them, a reload does not.\<close>

lemma reload_moves_split_plugin:
  "map rg_name (mg_handlers (sample_pipeline [(''a'', ''x''), (''b'', ''y''), (''a'', ''z'')]) ErrorOccurred) = [''x'', ''y'', ''z''] \<and>
   map rg_name (mg_handlers (fold (\<lambda>i. replace_plugin i (sample_pipeline [(''a'', ''x''), (''b'', ''y''), (''a'', ''z'')]))
     [''a'', ''b''] new_pipeline) ErrorOccurred) = [''x'', ''z'', ''y'']"
  by code_simp

end
