(* ===== verification/Hook_Rule_Props.thy ===== *)
theory Hook_Rule_Props
  imports Hook_Config
begin

text \<open>
  What rules cannot do: leave the directory of their plugin, panic after they were loaded, or change
  calls that are read-only.
\<close>

section \<open>Directories\<close>

lemma drop_common_spec:
  "drop_common bs ts = (bs1, ts1) \<Longrightarrow> \<exists>common. bs = common @ bs1 \<and> ts = common @ ts1"
proof (induction bs ts rule: drop_common.induct)
  case (1 b bs t ts)
  show ?case
  proof (cases "b = t")
    case True
    with 1 obtain common where "bs = common @ bs1 \<and> ts = common @ ts1" by auto
    with True have "b # bs = (b # common) @ bs1 \<and> t # ts = (b # common) @ ts1" by simp
    then show ?thesis by blast
  qed (use 1 in simp)
qed auto

lemma clean_elems_of: "is_abs p \<Longrightarrow> \<forall>e \<in> set (path_elems (clean_path p)). plain_elem e"
  using clean_path_plain by blast

lemma path_within_below:
  assumes within: "path_within base p" and abs: "is_abs base" "is_abs p"
  shows "below (clean_path base) (clean_path p)"
proof -
  have plain: "\<forall>e \<in> set (path_elems (clean_path p)). plain_elem e" by (rule clean_elems_of [OF abs(2)])
  have "\<exists>ts. path_elems (clean_path p) = path_elems (clean_path base) @ ts"
  proof (cases "clean_path base = clean_path p")
    case False
    obtain bs ts where d: "drop_common (path_elems (clean_path base)) (path_elems (clean_path p)) = (bs, ts)"
      by fastforce
    have dot: "clean_path base \<noteq> ''.''" using abs(1) clean_path_abs [of base] by (auto simp: is_abs_def)
    obtain rel where rel: "go_rel base p = Some rel" "rel = ''.'' \<or> rel \<noteq> ''..'' \<and> \<not> has_prefix ''../'' rel"
      using within by (auto simp: path_within_def split: option.splits)
    then have eq: "rel = join_str [slash] (replicate (length bs) ''..'' @ ts)"
      using False abs d dot by (auto simp: go_rel_def Let_def split: if_splits)
    have "bs = []"
    proof (cases bs)
      case (Cons b bs1)
      then show ?thesis
        using rel(2) unfolding eq by (cases "replicate (length bs1) ''..'' @ ts") (simp_all add: slash_def)
    qed
    with drop_common_spec [OF d] show ?thesis by auto
  qed simp
  then show ?thesis
    using plain abs(2) by (auto simp: below_def list_all_iff plain_elem_def)
qed

lemma safe_relative_path_below:
  assumes "safe_relative_path base rel = Inr p" "is_abs base"
  shows "below (clean_path base) p"
proof -
  have rel: "\<not> is_abs rel" "clean_path rel \<noteq> ''..''" "\<not> has_prefix ''../'' (clean_path rel)" "p = join_path base (clean_path rel)"
    using assms(1) by (auto simp: safe_relative_path_def Let_def split: if_splits)
  have ok: "\<forall>e \<in> set (path_elems rel). elem_ok e" using path_elems_ok by blast
  have "\<not> climbs_from 0 (path_elems rel)"
  proof
    assume "climbs_from 0 (path_elems rel)"
    then obtain fs where fs: "clean_elems False (path_elems rel) = ''..'' # fs" using clean_elems_climbs ok by blast
    then have "clean_path rel = join_str [slash] (''..'' # fs)" using rel(1) by (simp add: clean_path_def render_path_def)
    with rel(2,3) show False by (cases fs) (simp_all add: slash_def)
  qed
  note plain = clean_elems_below(2) [OF this, of "[]"]
  have "path_elems (clean_path rel) = clean_elems False (path_elems rel) \<or> clean_path rel = ''.''"
    using clean_elems_ok [OF ok, of False] rel(1)
    by (cases "clean_elems False (path_elems rel) = []") (simp_all add: clean_path_def path_elems_render, simp add: render_path_def)
  moreover have "\<not> climbs_from n es" if "\<forall>e \<in> set es. plain_elem e" for n es
    using that by (induction es arbitrary: n) (auto simp: plain_elem_def)
  ultimately have "\<not> climbs_from 0 (path_elems (clean_path rel))"
    using plain ok by auto
  with join_path_below(2) [OF assms(2)] rel(4) show ?thesis by simp
qed

text \<open>
  C35: a plugin stays in its directory.  The file of a plugin lies below the configuration directory,
  however its path is spelled, and a process that a rule of the plugin starts runs in the plugin's
  directory or below it, whatever text is rendered into its working directory.
\<close>
theorem plugin_confined:
  assumes "is_abs dir" and strict: "rs_strict (ra_source a) = rs_base (ra_source a)"
    and base: "is_abs (trim_space (rs_base (ra_source a)))"
  shows "(plugin_config_path dir p = Inr path \<longrightarrow> below (clean_path dir) path) \<and>
    (exec_cwd H i e st a = Inr cwd \<longrightarrow> below (clean_path (source_base a)) (clean_path cwd))"
proof -
  have "below (clean_path dir) path" if "plugin_config_path dir p = Inr path"
    using that safe_relative_path_below [OF _ assms(1)] by (auto simp: plugin_config_path_def Let_def split: if_splits)
  moreover have "below (clean_path (source_base a)) (clean_path cwd)" if cwd: "exec_cwd H i e st a = Inr cwd"
  proof -
    have src: "source_base a \<noteq> []" "is_abs (source_base a)" "trim_space (rs_strict (ra_source a)) = source_base a"
      using base strict by (auto simp: source_base_def)
    let ?c = "trim_space (render_text H i e st (ra_cwd a))"
    show ?thesis
    proof (cases "?c = []")
      case True
      then have "cwd = source_base a" using cwd src by (simp add: exec_cwd_def)
      then show ?thesis
        using clean_elems_of [OF src(2)] src(2) by (auto simp: below_def list_all_iff plain_elem_def)
    next
      case False
      then have joined: "cwd = join_path (source_base a) (clean_path ?c)" "path_within (source_base a) cwd"
        using cwd src by (auto simp: exec_cwd_def Let_def split: if_splits)
      have "is_abs cwd" using src by (simp add: joined(1) join_path_def is_abs_append)
      with path_within_below [OF joined(2) src(2)] show ?thesis by simp
    qed
  qed
  ultimately show ?thesis by blast
qed

theorem plugin_confined_witness:
  "below (clean_path ''/c'') ''/c/a/hook.toml'' \<and> below (clean_path ''/p'') (clean_path ''/p/w'')"
proof -
  let ?s = "blank_source\<lparr>rs_base := ''/p'', rs_strict := ''/p''\<rparr>"
  let ?a = "(blank_action ''exec'')\<lparr>ra_cwd := ''w'', ra_source := ?s\<rparr>"
  have h: "is_abs ''/c''" "rs_strict (ra_source ?a) = rs_base (ra_source ?a)" "is_abs (trim_space (rs_base (ra_source ?a)))"
    by code_simp+
  have "plugin_config_path ''/c'' \<lparr>pr_name = ''a'', pr_enabled = None, pr_path = []\<rparr> = Inr ''/c/a/hook.toml''"
    "exec_cwd quiet_host 0 (blank_event ErrorOccurred) [] ?a = Inr ''/p/w''" "source_base ?a = ''/p''"
    by code_simp+
  then show ?thesis using plugin_confined [OF h] by metis
qed

section \<open>Loaded rules\<close>

definition rule_ready :: "regex_engine \<Rightarrow> hook_rule \<Rightarrow> bool" where
  "rule_ready E r \<longleftrightarrow> point_of (rl_on r) \<noteq> None \<and> rl_match r \<noteq> [] \<and>
     list_all (\<lambda>c. validate_condition E c = None) (rl_match r) \<and>
     list_all (\<lambda>a. trim_space (ra_type a) = ''exec'' \<longrightarrow> ra_command a \<noteq> []) (rl_actions r)"

lemma validate_actions_ready:
  "validate_actions as = None \<Longrightarrow> list_all (\<lambda>a. trim_space (ra_type a) = ''exec'' \<longrightarrow> ra_command a \<noteq> []) as"
  by (induction as) (auto simp: validate_exec_action_def split: if_splits)

lemma validate_rule_ready:
  assumes "validate_rule E r = Inr r1"
  shows "rule_ready E r1"
proof -
  have "rl_on r1 = rl_on r \<and> rl_match r1 = rl_match r \<and> rl_actions r1 = rl_actions r"
    using assms by (auto simp: validate_rule_def normalize_roles_def split: if_splits option.splits sum.splits)
  moreover have "validate_actions (rl_actions r) = None" "validate_match E (rl_match r) = None"
    "point_of (rl_on r) \<noteq> None" "rl_match r \<noteq> []"
    using assms by (auto simp: validate_rule_def split: if_splits option.splits sum.splits)
  ultimately show ?thesis
    using validate_actions_ready
    by (auto simp: rule_ready_def validate_match_def validate_conditions_None list_all_iff)
qed

lemma validate_rules_ready: "validate_rules E i rs = Inr qs \<Longrightarrow> list_all (rule_ready E) qs"
  by (induction rs arbitrary: i qs) (auto dest: validate_rule_ready split: sum.splits)

lemma checked_rules_ready: "checked_rules E rs = Inr qs \<Longrightarrow> list_all (rule_ready E) qs"
  by (auto simp: checked_rules_def dest: validate_rules_ready split: sum.splits)

lemma load_plugin_ready: "load_plugin E read dir p = Inr (w, qs) \<Longrightarrow> list_all (rule_ready E) qs"
  by (auto simp: load_plugin_def dest: checked_rules_ready split: sum.splits option.splits)

lemma load_plugins_ready: "load_plugins E read dir ps = (ws, rs, ns) \<Longrightarrow> list_all (rule_ready E) rs"
proof (induction ps arbitrary: ws rs ns)
  case (Cons p ps)
  obtain ws1 rs1 ns1 where rest: "load_plugins E read dir ps = (ws1, rs1, ns1)" by (metis prod_cases3)
  note rest_ready = Cons.IH [OF rest]
  show ?case
  proof (cases "plugin_enabled p")
    case True
    show ?thesis
    proof (cases "load_plugin E read dir p")
      case (Inl e)
      then have "rs = rs1" using Cons.prems rest True by simp
      with rest_ready show ?thesis by simp
    next
      case (Inr x)
      obtain w qs where x: "x = (w, qs)" by fastforce
      then have "rs = qs @ rs1" using Cons.prems rest True Inr by simp
      with rest_ready load_plugin_ready [OF Inr [unfolded x]] show ?thesis by simp
    qed
  qed (use Cons.prems rest rest_ready in simp)
qed simp

lemma rule_ready_source:
  "rule_ready E (r\<lparr>rl_source := s, rl_actions := map (\<lambda>a. a\<lparr>ra_source := s\<rparr>) (rl_actions r)\<rparr>) = rule_ready E r"
  by (simp add: rule_ready_def list.pred_map comp_def)

lemma final_names_ready: "list_all (rule_ready E) rs \<Longrightarrow> list_all (rule_ready E) (final_names seen rs)"
  by (induction rs arbitrary: seen) (simp_all only: final_names.simps Let_def rule_ready_source list.pred_inject simp_thms)

lemma load_config_cases:
  assumes "load_config E read dir root = Inr (ws, rs, notices)"
  obtains "rs = []"
  | cfg rs0 xs ys where "root = Some (Inr cfg)" "root_rules dir 1 (rt_rules cfg) = Inr rs0"
      "checked_rules E rs0 = Inr xs" "load_plugins E read dir (rt_plugins cfg) = (ws, ys, notices)"
      "rs = final_names [] (xs @ ys)" "first_duplicate [] (map rc_id ws) = None"
proof (cases root)
  case None
  then show thesis using assms that(1) by (simp add: load_config_def)
next
  case (Some r)
  obtain cfg where r: "r = Inr cfg" using assms Some by (cases r) (simp_all add: load_config_def)
  have env: "rt_env cfg = None" using assms Some r by (cases "rt_env cfg") (simp_all add: load_config_def)
  obtain rs0 where rs0: "root_rules dir 1 (rt_rules cfg) = Inr rs0"
    using assms Some r env by (cases "root_rules dir 1 (rt_rules cfg)") (simp_all add: load_config_def)
  obtain xs where xs: "checked_rules E rs0 = Inr xs"
    using assms Some r env rs0 by (cases "checked_rules E rs0") (simp_all add: load_config_def)
  obtain vs ys ns where ps: "load_plugins E read dir (rt_plugins cfg) = (vs, ys, ns)" by (metis prod_cases3)
  have dup: "first_duplicate [] (map rc_id vs) = None"
    using assms Some r env rs0 xs ps by (cases "first_duplicate [] (map rc_id vs)") (simp_all add: load_config_def)
  have "ws = vs \<and> rs = final_names [] (xs @ ys) \<and> notices = ns"
    using assms Some r env rs0 xs ps dup by (simp add: load_config_def)
  with that(2) Some r rs0 xs ps dup show thesis by blast
qed

lemma load_config_ready:
  assumes "load_config E read dir root = Inr (ws, rs, notices)"
  shows "list_all (rule_ready E) rs"
  using assms
proof (cases rule: load_config_cases)
  case (2 cfg rs0 xs ys)
  then show ?thesis
    using checked_rules_ready [OF 2(3)] load_plugins_ready [OF 2(4)] by (simp add: final_names_ready)
qed simp

lemma run_action_total:
  assumes "trim_space (ra_type a) = ''exec'' \<longrightarrow> ra_command a \<noteq> []"
  shows "run_action H i e a st \<noteq> None"
proof -
  have "run_exec H i e a st \<noteq> None" if "ra_command a \<noteq> []"
    using that by (auto simp: run_exec_def Let_def split: sum.split prod.split)
  with assms show ?thesis by (auto simp: run_action_def Let_def)
qed

lemma run_actions_total:
  "list_all (\<lambda>a. trim_space (ra_type a) = ''exec'' \<longrightarrow> ra_command a \<noteq> []) as \<Longrightarrow>
   run_actions H ro before i as e st pass \<noteq> None"
proof (induction as arbitrary: i e st pass)
  case (Cons a as)
  then obtain r where "run_action H i e a st = Some r" using run_action_total [of a H i e st] by auto
  with Cons show ?case by (cases r) auto
qed simp

text \<open>
  Every rule that loading accepts, from the root file or a plugin,
  has a known hook point and at least one condition; matching it never compiles an invalid pattern
  and never slices out of range, and running it never reads a command that is not there.
\<close>
lemma loaded_rules_never_panic:
  assumes loaded: "load_config E read dir root = Inr (ws, rs, notices)" and r: "r \<in> set rs"
    and engine: "engine_ok E"
  shows "point_of (rl_on r) \<noteq> None \<and> rl_match r \<noteq> [] \<and> match_event E parse_url e (rl_match r) \<noteq> None \<and>
    run_rule H r e read_only \<noteq> None"
proof -
  have ready: "rule_ready E r" using load_config_ready [OF loaded] r by (simp add: list_all_iff)
  then have "match_event E parse_url e (rl_match r) \<noteq> None"
    using match_event_total [OF engine] by (simp add: rule_ready_def list_all_iff)
  moreover obtain x where "run_actions H read_only e 0 (rl_actions r) e [] None = Some x"
    using ready run_actions_total [of "rl_actions r" H read_only e 0 e "[]" None] by (auto simp: rule_ready_def)
  then have "run_rule H r e read_only \<noteq> None"
    by (auto simp: run_rule_def split: prod.split option.split sum.split)
  ultimately show ?thesis using ready by (simp add: rule_ready_def)
qed

section \<open>Read-only calls\<close>

lemma run_actions_calls:
  "run_actions H True before i as e st pass = Some (Inr (Some (e1, p1))) \<Longrightarrow> calls_kept before e \<Longrightarrow> calls_kept before e1"
  by (induction as arbitrary: i e st pass) (auto split: option.splits sum.splits if_splits)

text \<open>
  When calls are read-only for an execution, a rule that succeeds
  leaves the tool calls of the model and the identifier, name and arguments of the current call
  as they were, whatever its actions and processes answered.
\<close>
lemma rule_keeps_calls:
  assumes run: "run_rule H r e True = Some (Inr e1)" and rules: "rs_runtime (rl_source r) = []"
  shows "calls_kept e e1"
proof (cases "match_roles r e")
  case True
  obtain x where x: "run_actions H True e 0 (rl_actions r) e [] None = Some (Inr x)"
    using run rules True by (auto simp: run_rule_def split: option.splits sum.splits)
  show ?thesis
  proof (cases x)
    case (Some y)
    obtain e2 pass where y: "y = (e2, pass)" by fastforce
    have "calls_kept e e2" by (rule run_actions_calls [OF x [unfolded Some y]]) (simp add: calls_kept_def)
    with run rules True x Some y show ?thesis by (auto simp: run_rule_def calls_kept_def)
  qed (use run rules True x in \<open>simp add: run_rule_def calls_kept_def\<close>)
qed (use run in \<open>simp add: run_rule_def calls_kept_def\<close>)

end
