(* ===== verification/Hook_Run_Props.thy ===== *)
theory Hook_Run_Props
  imports Hook_Pipeline Hook_Pipeline_Props Hook_Rule_Props
begin

text \<open>
  Runs of hooks: how many handlers an event can reach, when a run ends with an error, that loaded
  rules never panic, and that a failing hook does not change the result of the others.
\<close>

section \<open>Samples\<close>

definition sample_env :: pipeline_env where
  "sample_env = \<lparr>pe_regex = plain_engine, pe_url = (\<lambda>u. None), pe_describe = (\<lambda>f. ''failed''), pe_route = None\<rparr>"

definition sample_options :: call_options where
  "sample_options = \<lparr>co_woken = True, co_read_only = True, co_observe = (\<lambda>n s. None)\<rparr>"

definition sample_world :: run_world where
  "sample_world = \<lparr>rw_calls = 0, rw_ended = False, rw_log = []\<rparr>"

definition fail_handler :: hook_handler where
  "fail_handler n ended e read_only =
     Some \<lparr>ha_event = e, ha_error = Some (HandlerFailed (ErrOther ''x'')), ha_ended = False\<rparr>"

definition failing_registration :: registration where
  "failing_registration = sample_registration [] ''f'' 1 fail_handler"

section \<open>Bounded work\<close>

lemma invoke_calls: "invoke_hook opts r e w = Some (e1, err, w1) \<Longrightarrow> rw_calls w1 = Suc (rw_calls w)"
  by (auto simp: invoke_hook_def split: option.splits)

lemma log_calls [simp]: "rw_calls (log_hook V mode r b a err w) = rw_calls w" "rw_ended (log_hook V mode r b a err w) = rw_ended w"
  by (simp_all add: log_hook_def)

lemma notify_each_calls:
  assumes "\<And>f v v1. report f v = Some v1 \<Longrightarrow> rw_calls v1 \<le> rw_calls v + k"
  shows "notify_each V opts report e rs w = Some (err, w1) \<Longrightarrow> rw_calls w1 \<le> rw_calls w + length rs * Suc k"
proof (induction rs arbitrary: w)
  case (Cons r rs)
  show ?case
  proof (cases "admitted V opts r e")
    case (Some a)
    show ?thesis
    proof (cases a)
      case None
      with Some Cons.IH [of w] Cons.prems show ?thesis by simp
    next
      case (Some ms)
      obtain e1 fail v where v: "invoke_hook opts r (e\<lparr>ev_match := ms\<rparr>) w = Some (e1, fail, v)"
        using Cons.prems \<open>admitted V opts r e = Some a\<close> Some by (cases "invoke_hook opts r (e\<lparr>ev_match := ms\<rparr>) w") auto
      note step = Cons.prems \<open>admitted V opts r e = Some a\<close> Some v invoke_calls [OF v]
      show ?thesis
      proof (cases fail)
        case None
        with step Cons.IH [of "log_hook V ''notify'' r e e None v"] show ?thesis
          by (auto simp: Let_def split: if_splits)
      next
        case (Some f)
        show ?thesis
        proof (cases "rw_ended v")
          case False
          with step Some obtain u where u: "report f (log_hook V ''notify'' r e e (Some f) v) = Some u"
            "notify_each V opts report e rs u = Some (err, w1)"
            by (auto split: option.splits)
          from assms [OF u(1)] Cons.IH [OF u(2)] step show ?thesis by simp
        qed (use step Some in simp)
      qed
    qed
  qed (use Cons.prems in simp)
qed simp

lemma notify_error_calls:
  assumes "notify_error V m opts e err w = Some w1"
  shows "rw_calls w1 \<le> rw_calls w + length (mg_handlers m ErrorOccurred)"
proof (cases "rw_ended w \<or> ev_point e = ErrorOccurred")
  case False
  then obtain f where "notify_each V opts (\<lambda>f w. Some w)
      (prepare_event (e\<lparr>ev_point := ErrorOccurred, ev_error := Some (pe_describe V err), ev_error_info := None\<rparr>))
      (mg_handlers m ErrorOccurred) w = Some (f, w1)"
    using assms by (auto simp: notify_error_def)
  from notify_each_calls [OF _ this, of 0] show ?thesis by simp
qed (use assms in \<open>simp add: notify_error_def\<close>)

lemma run_each_calls:
  "run_each V m opts rs e w = (Some res, w1) \<Longrightarrow>
   rw_calls w1 \<le> rw_calls w + length rs * Suc (length (mg_handlers m ErrorOccurred))"
proof (induction rs arbitrary: e w)
  case (Cons r rs)
  show ?case
  proof (cases "admitted V opts r e")
    case (Some a)
    show ?thesis
    proof (cases a)
      case None
      with Some Cons.IH [of e w] Cons.prems show ?thesis by simp
    next
      case (Some ms)
      obtain e1 fail v where v: "invoke_hook opts r (e\<lparr>ev_match := ms\<rparr>) w = Some (e1, fail, v)"
        using Cons.prems \<open>admitted V opts r e = Some a\<close> Some by (cases "invoke_hook opts r (e\<lparr>ev_match := ms\<rparr>) w") auto
      note step = Cons.prems \<open>admitted V opts r e = Some a\<close> Some v invoke_calls [OF v]
      show ?thesis
      proof (cases fail)
        case None
        let ?e2 = "prepare_event (mark_outputs (length (ev_outputs e)) r ''run'' (e1\<lparr>ev_match := []\<rparr>))"
        from None step Cons.IH [of ?e2 "log_hook V ''run'' r e ?e2 None v"] show ?thesis
          by (auto simp: Let_def split: if_splits)
      next
        case (Some f)
        show ?thesis
        proof (cases "rw_ended v")
          case False
          with step Some obtain u where u: "notify_error V m opts e f (log_hook V ''run'' r e e (Some f) v) = Some u"
            "run_each V m opts rs e u = (Some res, w1)"
            by (auto split: option.splits)
          from notify_error_calls [OF u(1)] Cons.IH [OF u(2)] step show ?thesis by simp
        qed (use step Some in simp)
      qed
    qed
  qed (use Cons.prems in simp)
qed simp

lemma prepare_point [simp]: "ev_point (prepare_event e) = ev_point e"
  by (simp add: prepare_event_def split: option.split)

text \<open>
  Errors are reported once.  An event reaches every handler of its point at most once, and each
  of their failures every error hook at most once; failures of error hooks are not reported
  again, so that a run makes at most as many calls as there are pairs of them.
\<close>
lemma hook_calls_bounded:
  assumes "run_ordinary V m opts e w = (Some res, w1)"
  shows "rw_calls w1 \<le> rw_calls w + length (mg_handlers m (ev_point e)) * Suc (length (mg_handlers m ErrorOccurred))"
  using run_each_calls assms by (fastforce simp: run_ordinary_def Let_def)

lemma hook_calls_bounded_witness:
  "\<exists>w1 :: run_world. rw_calls w1 = 2 \<and> rw_calls w1 \<le> rw_calls sample_world +
     length (mg_handlers (fold register_hook [(ErrorOccurred, failing_registration), (LlmResponseReceived, failing_registration)] new_pipeline)
       (ev_point (blank_event LlmResponseReceived))) * Suc (length
     (mg_handlers (fold register_hook [(ErrorOccurred, failing_registration), (LlmResponseReceived, failing_registration)] new_pipeline)
       ErrorOccurred))"
proof -
  let ?m = "fold register_hook [(ErrorOccurred, failing_registration), (LlmResponseReceived, failing_registration)] new_pipeline"
  let ?run = "run_ordinary sample_env ?m sample_options (blank_event LlmResponseReceived) sample_world"
  have calls: "rw_calls (snd ?run) = 2" and res: "(case fst ?run of Some r \<Rightarrow> True | None \<Rightarrow> False)" by code_simp+
  obtain r where "?run = (Some r, snd ?run)" using res by (cases "fst ?run") (simp, metis prod.collapse)
  from calls hook_calls_bounded [OF this] show ?thesis by blast
qed

section \<open>Panics\<close>

definition hook_safe :: "regex_engine \<Rightarrow> registration \<Rightarrow> bool" where
  "hook_safe E r \<longleftrightarrow> (\<forall>c \<in> set (rg_match r). validate_condition E c = None) \<and>
     (\<forall>n ended e read_only. rg_handler r n ended e read_only \<noteq> None)"

lemma admitted_safe: "engine_ok (pe_regex V) \<Longrightarrow> hook_safe (pe_regex V) r \<Longrightarrow> admitted V opts r e \<noteq> None"
  using match_event_total by (simp add: admitted_def hook_safe_def)

lemma invoke_safe: "hook_safe E r \<Longrightarrow> invoke_hook opts r e w \<noteq> None"
  by (simp add: invoke_hook_def hook_safe_def split: option.split)

lemma notify_each_safe:
  assumes "engine_ok (pe_regex V)" "\<And>f v. report f v \<noteq> None"
  shows "\<forall>r \<in> set rs. hook_safe (pe_regex V) r \<Longrightarrow> notify_each V opts report e rs w \<noteq> None"
proof (induction rs arbitrary: w)
  case (Cons r rs)
  then have rest: "notify_each V opts report e rs v \<noteq> None" for v by simp
  obtain a where a: "admitted V opts r e = Some a" using admitted_safe [OF assms(1)] Cons.prems by fastforce
  have "invoke_hook opts r e1 w \<noteq> None" for e1 using Cons.prems by (intro invoke_safe [of "pe_regex V"]) simp
  with a rest assms(2) show ?case by (auto simp: Let_def simp del: not_None_eq split: option.split)
qed simp

lemma notify_error_safe:
  "engine_ok (pe_regex V) \<Longrightarrow> \<forall>r \<in> set (mg_handlers m ErrorOccurred). hook_safe (pe_regex V) r \<Longrightarrow>
   notify_error V m opts e err w \<noteq> None"
  unfolding notify_error_def
  by (metis (no_types, lifting) notify_each_safe option.distinct(1) option.map_disc_iff)

lemma run_each_safe:
  assumes "engine_ok (pe_regex V)" "\<forall>r \<in> set (mg_handlers m ErrorOccurred). hook_safe (pe_regex V) r"
  shows "\<forall>r \<in> set rs. hook_safe (pe_regex V) r \<Longrightarrow> fst (run_each V m opts rs e w) \<noteq> None"
proof (induction rs arbitrary: e w)
  case (Cons r rs)
  then have rest: "fst (run_each V m opts rs d v) \<noteq> None" for d v by simp
  obtain a where a: "admitted V opts r e = Some a" using admitted_safe [OF assms(1)] Cons.prems by fastforce
  have "invoke_hook opts r e1 w \<noteq> None" for e1 using Cons.prems by (intro invoke_safe [of "pe_regex V"]) simp
  with a rest notify_error_safe [OF assms] show ?case by (auto simp: Let_def simp del: not_None_eq split: option.split)
qed simp

lemma run_hooks_safe:
  assumes "engine_ok (pe_regex V)" "\<And>p. \<forall>r \<in> set (mg_handlers m p). hook_safe (pe_regex V) r"
  shows "fst (run_hooks V m opts e w) \<noteq> None"
proof -
  have ordinary: "fst (run_ordinary V m opts d v) \<noteq> None" for d v
    using run_each_safe [OF assms(1) assms(2) assms(2)] by (simp add: run_ordinary_def)
  have report: "notify_error V m opts d f v \<noteq> None" for d f v
    by (rule notify_error_safe [OF assms(1) assms(2)])
  show ?thesis
  proof (cases "pe_route V = None \<or> ev_point e \<noteq> PlatformMessageReceived")
    case True
    then have "run_hooks V m opts e w = run_ordinary V m opts e w"
      by (cases "pe_route V"; cases "ev_point e") (simp_all add: run_hooks_def)
    with ordinary show ?thesis by simp
  next
    case False
    then obtain route a routed where route: "pe_route V = Some route" "ev_point e = PlatformMessageReceived"
      "route (rw_calls w) e = (a, routed)" by (cases "pe_route V") (auto, metis prod.exhaust)
    show ?thesis
    proof (cases "ha_error a")
      case None
      with route ordinary show ?thesis by (simp add: run_hooks_def Let_def)
    next
      case (Some err)
      define v where "v = w\<lparr>rw_calls := Suc (rw_calls w), rw_ended := rw_ended w \<or> ha_ended a\<rparr>"
      obtain u where "notify_error V m opts e err v = Some u" using report by fastforce
      with Some route ordinary show ?thesis by (simp add: run_hooks_def Let_def flip: v_def)
    qed
  qed
qed

subsection \<open>Loaded rules\<close>

lemma register_hook_set:
  "set (mg_handlers (register_hook (q, reg) m) p) \<subseteq> set (mg_handlers m p) \<union>
     {reg\<lparr>rg_order := Suc (mg_next m), rg_plugin := trim_space (rg_plugin reg), rg_description := trim_space (rg_description reg)\<rparr>}"
  by (auto simp: register_parts)

lemma register_rules_all:
  assumes "\<And>r n. r \<in> set rs \<Longrightarrow> Q (rule_registration handler shown r\<lparr>rg_order := n, rg_plugin := trim_space (rs_plugin (rl_source r)), rg_description := trim_space (fst (shown r))\<rparr>)"
    and "\<And>p. \<forall>r \<in> set (mg_handlers m p). Q r"
  shows "\<forall>r \<in> set (mg_handlers (register_rules handler shown rs m) p). Q r"
  using assms
proof (induction rs arbitrary: m)
  case (Cons r rs)
  let ?m = "case point_of (rl_on r) of
        Some p \<Rightarrow> if rule_enabled r then register_hook (p, rule_registration handler shown r) m else m
      | None \<Rightarrow> m"
  have new: "Q (rule_registration handler shown r\<lparr>rg_order := n, rg_plugin := trim_space (rs_plugin (rl_source r)), rg_description := trim_space (fst (shown r))\<rparr>)" for n
    using Cons.prems(1) by simp
  have "\<forall>r \<in> set (mg_handlers ?m p). Q r" for p
    using Cons.prems(2) [of p] new by (auto simp: register_parts rule_registration_def split: option.split)
  with Cons.IH [of ?m] Cons.prems(1) show ?case by simp
qed simp

lemma rule_registration_safe:
  assumes "rule_ready E r" "\<And>n. hh_regex (host n) = E"
  shows "hook_safe E (rule_registration (rule_handler host over) shown r\<lparr>rg_order := n, rg_plugin := i, rg_description := d\<rparr>)"
proof -
  have "run_rule (host n) r e read_only \<noteq> None" for n e read_only
  proof -
    obtain x where "run_actions (host n) read_only e 0 (rl_actions r) e [] None = Some x"
      using assms run_actions_total [of "rl_actions r" "host n" read_only e 0 e "[]" None] by (auto simp: rule_ready_def)
    then show ?thesis by (auto simp: run_rule_def split: prod.split option.split sum.split)
  qed
  moreover have "\<forall>c \<in> set (rl_match r). validate_condition E c = None"
    using assms(1) by (simp add: rule_ready_def list_all_iff)
  ultimately show ?thesis
    by (auto simp: hook_safe_def rule_registration_def rule_handler_def split: option.split sum.split)
qed

text \<open>
  C31: a loaded configuration runs without a panic.  The rules that loading accepts, registered in a
  new pipeline, answer every event at every hook point, whatever their processes, tools and
  workers answer, with and without a continuation and also when hooks fail.
\<close>
theorem loaded_pipeline_never_panics:
  assumes loaded: "load_config E read dir root = Inr (ws, rs, notices)" and engine: "engine_ok E"
    and hosts: "\<And>n. hh_regex (host n) = E" and env: "pe_regex V = E"
  shows "fst (run_hooks V (register_rules (rule_handler host over) shown rs new_pipeline) opts e w) \<noteq> None"
proof (rule run_hooks_safe)
  show "engine_ok (pe_regex V)" using engine env by simp
  have "rule_ready E r" if "r \<in> set rs" for r using load_config_ready [OF loaded] that by (simp add: list_all_iff)
  then show "\<forall>r \<in> set (mg_handlers (register_rules (rule_handler host over) shown rs new_pipeline) p). hook_safe (pe_regex V) r" for p
    using rule_registration_safe hosts env by (intro register_rules_all) (simp_all add: new_pipeline_def)
qed

theorem loaded_pipeline_never_panics_witness:
  "fst (run_hooks sample_env (register_rules (rule_handler (\<lambda>n. quiet_host) (\<lambda>n. False)) (\<lambda>r. ([], [])) sample_loaded new_pipeline)
     sample_options (blank_event LlmResponseReceived) sample_world) \<noteq> None"
  by (rule loaded_pipeline_never_panics [OF conjunct1 [OF sample_loads] plain_engine_ok])
    (simp_all add: quiet_host_def sample_env_def)

section \<open>Failures\<close>

text \<open>
  Hooks that do not end the task; among them those whose answer does not depend on the number of
  the call, and those that fail on every event.
\<close>

definition quiet_hook :: "regex_engine \<Rightarrow> registration \<Rightarrow> bool" where
  "quiet_hook E r \<longleftrightarrow> hook_safe E r \<and>
     (\<forall>n ended e read_only a. rg_handler r n ended e read_only = Some a \<longrightarrow> \<not> ha_ended a)"

definition steady_hook :: "registration \<Rightarrow> bool" where
  "steady_hook r \<longleftrightarrow> (\<forall>n n' e read_only. rg_handler r n False e read_only = rg_handler r n' False e read_only)"

definition failing_hook :: "registration \<Rightarrow> bool" where
  "failing_hook r \<longleftrightarrow> (\<forall>n ended e read_only a. rg_handler r n ended e read_only = Some a \<longrightarrow> ha_error a \<noteq> None)"

definition steady_options :: "call_options \<Rightarrow> bool" where
  "steady_options opts \<longleftrightarrow> (\<forall>n n' s. co_observe opts n s = co_observe opts n' s)"

lemma invoke_quiet:
  assumes "quiet_hook E r" "\<not> rw_ended w"
  obtains e1 err v where "invoke_hook opts r e w = Some (e1, err, v)" "\<not> rw_ended v"
proof (cases "co_observe opts (rw_calls w) (rg_name r)")
  case None
  obtain a where "rg_handler r (rw_calls w) (rw_ended w) e (co_read_only opts) = Some a" "\<not> ha_ended a"
    using assms(1) unfolding quiet_hook_def hook_safe_def by (metis not_None_eq)
  with None that assms(2) show thesis by (simp add: invoke_hook_def)
qed (use that assms(2) in \<open>simp add: invoke_hook_def\<close>)

lemma invoke_same:
  assumes "steady_hook r" "steady_options opts" "\<not> rw_ended w" "\<not> rw_ended w'" "invoke_hook opts r e w = Some (e1, err, v)"
  shows "\<exists>v'. invoke_hook opts r e w' = Some (e1, err, v')"
proof -
  have "co_observe opts (rw_calls w) s = co_observe opts (rw_calls w') s" for s
    using assms(2) unfolding steady_options_def by blast
  moreover have "rg_handler r (rw_calls w) False e ro = rg_handler r (rw_calls w') False e ro" for ro
    using assms(1) unfolding steady_hook_def by blast
  ultimately show ?thesis using assms(3-5) by (auto simp: invoke_hook_def split: option.splits)
qed

lemma invoke_failing: "failing_hook r \<Longrightarrow> invoke_hook opts r e w = Some (e1, err, v) \<Longrightarrow> err \<noteq> None"
  by (auto simp: invoke_hook_def failing_hook_def split: option.splits)

lemma notify_each_quiet:
  assumes "\<And>f v v1. report f v = Some v1 \<Longrightarrow> \<not> rw_ended v \<Longrightarrow> \<not> rw_ended v1"
  shows "\<forall>r \<in> set rs. quiet_hook E r \<Longrightarrow> \<not> rw_ended w \<Longrightarrow> notify_each V opts report e rs w = Some (err, w1) \<Longrightarrow> \<not> rw_ended w1"
proof (induction rs arbitrary: w)
  case (Cons r rs)
  obtain a where a: "admitted V opts r e = Some a" using Cons.prems(3) by (cases "admitted V opts r e") simp_all
  show ?case
  proof (cases a)
    case (Some ms)
    obtain e1 fail v where v: "invoke_hook opts r (e\<lparr>ev_match := ms\<rparr>) w = Some (e1, fail, v)" "\<not> rw_ended v"
      using invoke_quiet [of E r w] Cons.prems by (metis list.set_intros(1))
    with Cons a Some assms show ?thesis
      by (cases fail) (fastforce simp: Let_def split: if_splits option.splits)+
  qed (use Cons a in simp)
qed simp

lemma notify_error_quiet:
  assumes "engine_ok (pe_regex V)" "\<forall>r \<in> set (mg_handlers m ErrorOccurred). quiet_hook (pe_regex V) r" "\<not> rw_ended w"
  obtains w1 where "notify_error V m opts e err w = Some w1" "\<not> rw_ended w1"
proof -
  have "notify_error V m opts e err w \<noteq> None"
    by (rule notify_error_safe) (use assms in \<open>auto simp: quiet_hook_def\<close>)
  then obtain w1 where w1: "notify_error V m opts e err w = Some w1" by blast
  have "\<not> rw_ended w1"
  proof (cases "rw_ended w \<or> ev_point e = ErrorOccurred")
    case False
    then obtain f where "notify_each V opts (\<lambda>f w. Some w)
        (prepare_event (e\<lparr>ev_point := ErrorOccurred, ev_error := Some (pe_describe V err), ev_error_info := None\<rparr>))
        (mg_handlers m ErrorOccurred) w = Some (f, w1)"
      using w1 by (auto simp: notify_error_def)
    from notify_each_quiet [OF _ assms(2,3) this] show ?thesis by simp
  qed (use w1 assms(3) in \<open>simp add: notify_error_def\<close>)
  with w1 that show thesis by blast
qed

lemma run_each_same:
  assumes env: "engine_ok (pe_regex V)" "steady_options opts"
    and errors: "\<forall>r \<in> set (mg_handlers m ErrorOccurred). quiet_hook (pe_regex V) r"
      "\<forall>r \<in> set (mg_handlers m' ErrorOccurred). quiet_hook (pe_regex V) r"
  shows "\<forall>r \<in> set rs. quiet_hook (pe_regex V) r \<and> steady_hook r \<Longrightarrow> \<not> rw_ended w \<Longrightarrow> \<not> rw_ended w' \<Longrightarrow>
    fst (run_each V m opts rs e w) = fst (run_each V m' opts rs e w')"
proof (induction rs arbitrary: e w w')
  case (Cons r rs)
  then have rest: "fst (run_each V m opts rs d v) = fst (run_each V m' opts rs d v')" if "\<not> rw_ended v" "\<not> rw_ended v'" for d v v'
    using that Cons.prems(1) by (intro Cons.IH) auto
  have r: "quiet_hook (pe_regex V) r" "steady_hook r" using Cons.prems(1) by simp_all
  obtain a where a: "admitted V opts r e = Some a"
    using admitted_safe [OF env(1), of r opts e] r(1) by (auto simp: quiet_hook_def)
  show ?case
  proof (cases a)
    case (Some ms)
    obtain e1 fail v where v: "invoke_hook opts r (e\<lparr>ev_match := ms\<rparr>) w = Some (e1, fail, v)" "\<not> rw_ended v"
      by (rule invoke_quiet [OF r(1) Cons.prems(2)])
    obtain v' where v': "invoke_hook opts r (e\<lparr>ev_match := ms\<rparr>) w' = Some (e1, fail, v')" "\<not> rw_ended v'"
      using invoke_same [OF r(2) env(2) Cons.prems(2,3) v(1)] invoke_quiet [OF r(1) Cons.prems(3)]
      by (metis option.inject prod.inject)
    show ?thesis
    proof (cases fail)
      case None
      let ?e2 = "prepare_event (mark_outputs (length (ev_outputs e)) r ''run'' (e1\<lparr>ev_match := []\<rparr>))"
      have "fst (run_each V m opts rs ?e2 (log_hook V ''run'' r e ?e2 None v)) =
          fst (run_each V m' opts rs ?e2 (log_hook V ''run'' r e ?e2 None v'))"
        by (rule rest) (simp_all add: v(2) v'(2))
      with a Some v v' None show ?thesis by (simp add: Let_def)
    next
      case f: (Some f)
      obtain u u' where "notify_error V m opts e f (log_hook V ''run'' r e e (Some f) v) = Some u" "\<not> rw_ended u"
        "notify_error V m' opts e f (log_hook V ''run'' r e e (Some f) v') = Some u'" "\<not> rw_ended u'"
        using notify_error_quiet [OF env(1) errors(1)] notify_error_quiet [OF env(1) errors(2)] v(2) v'(2)
        by (metis log_calls(2))
      with a Some v v' f rest [of u u'] show ?thesis by simp
    qed
  qed (use a rest [OF Cons.prems(2,3)] in simp)
qed simp

lemma run_each_drop:
  assumes env: "engine_ok (pe_regex V)" "steady_options opts"
    and errors: "\<forall>q \<in> set (mg_handlers m ErrorOccurred). quiet_hook (pe_regex V) q"
    and r: "quiet_hook (pe_regex V) r" "failing_hook r"
  shows "\<forall>q \<in> set (xs @ ys). quiet_hook (pe_regex V) q \<and> steady_hook q \<Longrightarrow> \<not> rw_ended w \<Longrightarrow>
    fst (run_each V m opts (xs @ r # ys) e w) = fst (run_each V m opts (xs @ ys) e w)"
proof (induction xs arbitrary: e w)
  case Nil
  note same = run_each_same [OF env errors errors Nil(1) [simplified append_Nil]]
  obtain a where a: "admitted V opts r e = Some a"
    using admitted_safe [OF env(1), of r opts e] r(1) by (auto simp: quiet_hook_def)
  show ?case
  proof (cases a)
    case (Some ms)
    obtain e1 fail v where v: "invoke_hook opts r (e\<lparr>ev_match := ms\<rparr>) w = Some (e1, fail, v)" "\<not> rw_ended v"
      by (rule invoke_quiet [OF r(1) Nil(2)])
    then obtain f where f: "fail = Some f" using invoke_failing [OF r(2)] by blast
    obtain u where "notify_error V m opts e f (log_hook V ''run'' r e e (Some f) v) = Some u" "\<not> rw_ended u"
      using notify_error_quiet [OF env(1) errors] v(2) by (metis log_calls(2))
    with a Some v f same [OF _ Nil(2)] show ?thesis by simp
  qed (use a in simp)
next
  case (Cons q xs)
  then have rest: "fst (run_each V m opts (xs @ r # ys) d v) = fst (run_each V m opts (xs @ ys) d v)" if "\<not> rw_ended v" for d v
    using that Cons.prems(1) by (intro Cons.IH) auto
  have q: "quiet_hook (pe_regex V) q" using Cons.prems(1) by simp
  obtain a where a: "admitted V opts q e = Some a"
    using admitted_safe [OF env(1), of q opts e] q by (auto simp: quiet_hook_def)
  show ?case
  proof (cases a)
    case (Some ms)
    obtain e1 fail v where v: "invoke_hook opts q (e\<lparr>ev_match := ms\<rparr>) w = Some (e1, fail, v)" "\<not> rw_ended v"
      by (rule invoke_quiet [OF q Cons.prems(2)])
    show ?thesis
    proof (cases fail)
      case None
      with a Some v rest show ?thesis by (simp add: Let_def)
    next
      case f: (Some f)
      obtain u where "notify_error V m opts e f (log_hook V ''run'' q e e (Some f) v) = Some u" "\<not> rw_ended u"
        using notify_error_quiet [OF env(1) errors] v(2) by (metis log_calls(2))
      with a Some v f rest show ?thesis by simp
    qed
  qed (use a rest Cons.prems in simp)
qed

lemma insort_around:
  "sorted (map f (xs @ x # ys)) \<Longrightarrow>
   \<exists>us vs. insort_key f z (xs @ x # ys) = us @ x # vs \<and> insort_key f z (xs @ ys) = us @ vs"
  for f :: "'a \<Rightarrow> 'b::linorder"
proof (induction xs)
  case Nil
  show ?case
  proof (cases "f z \<le> f x")
    case True
    with Nil have "insort_key f z ys = z # ys" by (cases ys) auto
    with True show ?thesis by (intro exI [of _ "[z]"] exI [of _ ys]) simp
  qed (auto intro: exI [of _ "[]"])
next
  case (Cons u xs)
  then obtain us vs where "insort_key f z (xs @ x # ys) = us @ x # vs" "insort_key f z (xs @ ys) = us @ vs" by auto
  then show ?case
    by (cases "f z \<le> f u") (auto intro: exI [of _ "z # u # xs"] exI [of _ "u # us"])
qed

text \<open>A stable sort puts one more element somewhere and leaves the others in their order.\<close>

lemma sort_key_insert:
  "\<exists>xs ys. sort_key f (zs @ [x]) = xs @ x # ys \<and> sort_key f zs = xs @ ys"
  for f :: "'a \<Rightarrow> 'b::linorder"
proof (induction zs)
  case (Cons z zs)
  then obtain xs ys where split: "sort_key f (zs @ [x]) = xs @ x # ys" "sort_key f zs = xs @ ys" by blast
  have "sorted (map f (xs @ x # ys))" using sorted_sort_key [of f "zs @ [x]"] by (simp only: split)
  from insort_around [OF this, of z] split show ?case by simp
qed (auto intro: exI [of _ "[]"])


lemma sample_hooks_quiet:
  "h = keep_handler \<or> h = fail_handler \<Longrightarrow> quiet_hook plain_engine (sample_registration i n k h)"
proof -
  have "validate_condition plain_engine \<lparr>hk_field = [], hk_op = ''always'', hk_value = []\<rparr> = None" by code_simp
  then show "h = keep_handler \<or> h = fail_handler \<Longrightarrow> quiet_hook plain_engine (sample_registration i n k h)"
    by (auto simp: quiet_hook_def hook_safe_def sample_registration_def keep_handler_def fail_handler_def)
qed


section \<open>Read-only runs\<close>

definition keeps_calls :: "registration \<Rightarrow> bool" where
  "keeps_calls r \<longleftrightarrow> (\<forall>n ended e a. rg_handler r n ended e True = Some a \<longrightarrow> ha_error a = None \<longrightarrow> calls_kept e (ha_event a))"

lemma calls_kept_simps [simp]:
  "calls_kept e e" "calls_kept (e\<lparr>ev_match := ms\<rparr>) d = calls_kept e d" "calls_kept e (d\<lparr>ev_match := ms\<rparr>) = calls_kept e d"
  "calls_kept e (mark_outputs n r mode d) = calls_kept e d" "calls_kept e (prepare_event d) = calls_kept e d"
  "calls_kept (prepare_event e) d = calls_kept e d"
  by (simp_all add: calls_kept_def mark_outputs_def prepare_event_def split: option.split)

lemma calls_kept_trans: "calls_kept e e1 \<Longrightarrow> calls_kept e1 e2 \<Longrightarrow> calls_kept e e2"
  by (simp add: calls_kept_def)

lemma invoke_keeps:
  assumes "keeps_calls r" "co_read_only opts" "invoke_hook opts r e w = Some (e1, None, w1)"
  shows "calls_kept e e1"
  using assms by (auto simp: invoke_hook_def keeps_calls_def split: option.splits)

lemma run_each_keeps:
  assumes "co_read_only opts"
  shows "\<forall>r \<in> set rs. keeps_calls r \<Longrightarrow> run_each V m opts rs e w = (Some res, w1) \<Longrightarrow>
    calls_kept e (case res of Inl (e1, err) \<Rightarrow> e1 | Inr e1 \<Rightarrow> e1)"
proof (induction rs arbitrary: e w)
  case (Cons r rs)
  obtain a where a: "admitted V opts r e = Some a" using Cons.prems(2) by (cases "admitted V opts r e") simp_all
  show ?case
  proof (cases a)
    case (Some ms)
    obtain e1 fail v where v: "invoke_hook opts r (e\<lparr>ev_match := ms\<rparr>) w = Some (e1, fail, v)"
      using Cons.prems(2) a Some by (cases "invoke_hook opts r (e\<lparr>ev_match := ms\<rparr>) w") auto
    show ?thesis
    proof (cases fail)
      case None
      let ?e2 = "prepare_event (mark_outputs (length (ev_outputs e)) r ''run'' (e1\<lparr>ev_match := []\<rparr>))"
      have kept: "calls_kept e ?e2" using invoke_keeps [OF _ assms v [unfolded None]] Cons.prems(1) by simp
      show ?thesis
      proof (cases "hc_stop (ev_control ?e2)")
        case True
        with Cons.prems(2) a Some v None kept show ?thesis by (auto simp: Let_def)
      next
        case False
        then have "run_each V m opts rs ?e2 (log_hook V ''run'' r e ?e2 None v) = (Some res, w1)"
          using Cons.prems(2) a Some v None by (simp add: Let_def)
        from Cons.IH [OF _ this] Cons.prems(1) have "calls_kept ?e2 (case res of Inl (e1, err) \<Rightarrow> e1 | Inr e1 \<Rightarrow> e1)"
          by simp
        with kept show ?thesis by (rule calls_kept_trans)
      qed
    next
      case f: (Some f)
      show ?thesis
      proof (cases "rw_ended v")
        case True
        with Cons.prems(2) a Some v f show ?thesis by auto
      next
        case False
        then obtain u where "run_each V m opts rs e u = (Some res, w1)"
          using Cons.prems(2) a Some v f by (auto split: option.splits)
        from Cons.IH [OF _ this] Cons.prems(1) show ?thesis by simp
      qed
    qed
  qed (use Cons a in simp)
qed auto



section \<open>Ended tasks\<close>

lemma run_each_ended: "run_each V m opts rs e w = (Some (Inl x), w1) \<Longrightarrow> rw_ended w1"
  by (induction rs arbitrary: e w) (auto simp: Let_def split: option.splits if_splits)

lemma run_ordinary_ended: "run_ordinary V m opts e w = (Some (Inl x), w1) \<Longrightarrow> rw_ended w1"
  unfolding run_ordinary_def Let_def by (rule run_each_ended)

text \<open>A run returns an error only when the task was ended; every other failure is reported.\<close>

lemma run_hooks_error_ended:
  assumes "run_hooks V m opts e w = (Some (Inl x), w1)"
  shows "rw_ended w1"
  using assms run_ordinary_ended
  by (auto simp: run_hooks_def Let_def split: option.splits hook_point.splits if_splits prod.splits)

end
