(* ===== verification/File_Service.thy ===== *)
theory File_Service
  imports File_Edit File_Diff
begin

text \<open>
  Files as text (\<open>internal/fileops/encoding.go\<close>, \<open>file.go\<close>, \<open>prepareFileResult\<close> of \<open>preview.go\<close>):
  decoding and encoding with a byte order mark, reading with its limits, and the computation of an
  edit from the bytes of a file to the bytes that will be written.  Encodings other than UTF-8 come
  from a package and SHA-256 from the library: both are functions of a codec.
\<close>

section \<open>Encodings\<close>

record file_codec =
  fc_known :: "string \<Rightarrow> bool"
  fc_decode :: "string \<Rightarrow> string \<Rightarrow> string option"
  fc_encode :: "string \<Rightarrow> string \<Rightarrow> string option"
  fc_revision :: "string \<Rightarrow> string"

datatype file_error =
  FileMissing | FileStat | FileIsDir | FileTooLarge | FileRead | NotUtf8 | UnknownEncoding string | CodecFailed string
  | FileBinary | RevisionMalformed | RevisionMismatch string | RevisionRequired | EditFailed edit_error | NoChanges
  | ResultTooLarge | ChangedAfterPreflight

definition bom_utf8 :: string where "bom_utf8 = [CHR 0xEF, CHR 0xBB, CHR 0xBF]"
definition bom_utf16le :: string where "bom_utf16le = [CHR 0xFF, CHR 0xFE]"
definition bom_utf16be :: string where "bom_utf16be = [CHR 0xFE, CHR 0xFF]"

text \<open>\<open>utf8.Valid\<close>: no rune is an invalid encoding, which decodes with width one.\<close>

fun utf8_valid_from :: "nat \<Rightarrow> string \<Rightarrow> bool" where
  "utf8_valid_from k [] = True"
| "utf8_valid_from (Suc k) (c # s) = utf8_valid_from k s"
| "utf8_valid_from 0 (c # s) = (case decode_rune (c # s) of (r, w) \<Rightarrow>
     \<not> (r = 0xFFFD \<and> w = 1) \<and> utf8_valid_from (w - 1) s)"

definition utf8_valid :: "string \<Rightarrow> bool" where
  "utf8_valid s = utf8_valid_from 0 s"

definition encoding_name :: "string \<Rightarrow> string" where
  "encoding_name s = to_lower (trim_space s)"

definition is_utf8_encoding :: "string \<Rightarrow> bool" where
  "is_utf8_encoding s \<longleftrightarrow> encoding_name s \<in> {''utf-8'', ''utf-8-bom''}"

definition canonical_encoding :: "string \<Rightarrow> string" where
  "canonical_encoding s = (let n = encoding_name s in
     if n \<in> {''gbk'', ''gb2312''} then ''gb18030'' else if n \<in> {''shift_jis'', ''sjis''} then ''shift-jis'' else n)"

definition lookup_encoding :: "file_codec \<Rightarrow> string \<Rightarrow> file_error + string" where
  "lookup_encoding K s = (let n = canonical_encoding s in if fc_known K n then Inr n else Inl (UnknownEncoding n))"

text \<open>The text, the name of the encoding and the byte order mark.\<close>

definition decode_with :: "file_codec \<Rightarrow> string \<Rightarrow> string \<Rightarrow> string \<Rightarrow> file_error + string \<times> string \<times> string" where
  "decode_with K data name bom = (case lookup_encoding K name of
     Inl e \<Rightarrow> Inl e
   | Inr n \<Rightarrow> (case fc_decode K n data of None \<Rightarrow> Inl (CodecFailed name) | Some t \<Rightarrow> Inr (t, name, bom)))"

definition decode_utf8 :: "string \<Rightarrow> string \<Rightarrow> string \<Rightarrow> file_error + string \<times> string \<times> string" where
  "decode_utf8 data name bom =
     (let d = (if has_prefix bom_utf8 data then drop 3 data else data)
      in if utf8_valid d then Inr (d, name, bom) else Inl NotUtf8)"

definition decode_auto :: "file_codec \<Rightarrow> string \<Rightarrow> file_error + string \<times> string \<times> string" where
  "decode_auto K data =
     (if has_prefix bom_utf8 data then Inr (drop 3 data, ''utf-8-bom'', bom_utf8)
      else if has_prefix bom_utf16le data then decode_with K (drop 2 data) ''utf-16le'' bom_utf16le
      else if has_prefix bom_utf16be data then decode_with K (drop 2 data) ''utf-16be'' bom_utf16be
      else if utf8_valid data then Inr (data, ''utf-8'', []) else Inl NotUtf8)"

definition decode_bytes :: "file_codec \<Rightarrow> string \<Rightarrow> string \<Rightarrow> file_error + string \<times> string \<times> string" where
  "decode_bytes K data requested = (let n = encoding_name requested in
     if n = [] \<or> n = ''auto'' then decode_auto K data
     else if n = ''utf-8-bom'' then decode_utf8 data ''utf-8-bom'' bom_utf8
     else if n = ''utf-8'' \<or> n = ''utf8'' then decode_utf8 data ''utf-8'' []
     else decode_with K data n [])"

definition encode_text :: "file_codec \<Rightarrow> string \<Rightarrow> string \<Rightarrow> string \<Rightarrow> file_error + string" where
  "encode_text K t name bom =
     (if name = ''utf-8'' then Inr t
      else if name = ''utf-8-bom'' then Inr (bom @ t)
      else (case lookup_encoding K name of
        Inl e \<Rightarrow> Inl e
      | Inr n \<Rightarrow> (case fc_encode K n t of None \<Rightarrow> Inl (CodecFailed name) | Some d \<Rightarrow> Inr (bom @ d))))"

section \<open>Reading\<close>

record text_file =
  tf_bytes :: string
  tf_text :: string
  tf_encoding :: string
  tf_bom :: string
  tf_ending :: string

text \<open>What is found at a path; a failing system call is an answer of its own.\<close>

datatype path_state = PathMissing | PathDir | PathFile string | PathStatFails | PathReadFails nat

definition max_file_size :: int where "max_file_size = 2 * 1024 * 1024"

definition size_exceeds :: "int \<Rightarrow> nat \<Rightarrow> bool" where
  "size_exceeds limit n \<longleftrightarrow> limit > 0 \<and> int n > limit"

definition text_of_bytes :: "file_codec \<Rightarrow> string \<Rightarrow> string \<Rightarrow> file_error + text_file" where
  "text_of_bytes K data requested = (case decode_bytes K data requested of
     Inl e \<Rightarrow> Inl e
   | Inr (t, name, bom) \<Rightarrow>
       if is_utf8_encoding name \<and> looks_binary_utf8 t then Inl FileBinary
       else Inr \<lparr>tf_bytes = data, tf_text = t, tf_encoding = name, tf_bom = bom, tf_ending = detect_line_ending t\<rparr>)"

definition read_text_file :: "file_codec \<Rightarrow> int \<Rightarrow> path_state \<Rightarrow> string \<Rightarrow> file_error + text_file" where
  "read_text_file K limit p requested = (case p of
     PathMissing \<Rightarrow> Inl FileMissing
   | PathStatFails \<Rightarrow> Inl FileStat
   | PathDir \<Rightarrow> Inl FileIsDir
   | PathReadFails n \<Rightarrow> if size_exceeds limit n then Inl FileTooLarge else Inl FileRead
   | PathFile data \<Rightarrow> if size_exceeds limit (length data) then Inl FileTooLarge else text_of_bytes K data requested)"

definition new_text_file :: "file_codec \<Rightarrow> string \<Rightarrow> file_error + text_file" where
  "new_text_file K requested = (let n = encoding_name requested;
       name = (if n = [] \<or> n = ''auto'' \<or> n = ''utf8'' then ''utf-8'' else n);
       file = \<lparr>tf_bytes = [], tf_text = [], tf_encoding = name, tf_bom = [], tf_ending = [LF]\<rparr> in
     if name = ''utf-8-bom'' then Inr (file\<lparr>tf_bom := bom_utf8\<rparr>)
     else if name \<noteq> ''utf-8'' then (case lookup_encoding K name of Inl e \<Rightarrow> Inl e | Inr k \<Rightarrow> Inr file)
     else Inr file)"

definition read_or_create ::
    "file_codec \<Rightarrow> int \<Rightarrow> path_state \<Rightarrow> string \<Rightarrow> bool \<Rightarrow> bool \<Rightarrow> file_error + text_file \<times> bool" where
  "read_or_create K limit p requested create has_revision = (case read_text_file K limit p requested of
     Inr f \<Rightarrow> Inr (f, False)
   | Inl e \<Rightarrow> if \<not> create \<or> has_revision \<or> e \<noteq> FileMissing then Inl e
       else (case new_text_file K requested of Inl e \<Rightarrow> Inl e | Inr f \<Rightarrow> Inr (f, True)))"

section \<open>Edits of a file\<close>

record edit_options =
  eo_max_input :: int
  eo_max_output :: int
  eo_detailed_diff :: int

record edit_request =
  eq_path :: string
  eq_encoding :: string
  eq_revision :: string
  eq_create :: bool
  eq_context :: int
  eq_edits :: "edit list"
  eq_options :: edit_options

record edit_result =
  er_created :: bool
  er_encoding :: string
  er_before :: string
  er_after :: string
  er_diff :: string
  er_bytes :: string

definition prepare_file_result ::
    "file_codec \<Rightarrow> string \<Rightarrow> text_file \<Rightarrow> bool \<Rightarrow> string \<Rightarrow> int \<Rightarrow> edit_options \<Rightarrow> file_error + edit_result" where
  "prepare_file_result K path f created t context opts =
     (let old = normalize_edit_text (tf_text f); new = normalize_edit_text t in
      if new = old then Inl NoChanges
      else (case encode_text K (restore_line_endings new (tf_ending f)) (tf_encoding f) (tf_bom f) of
        Inl e \<Rightarrow> Inl e
      | Inr data \<Rightarrow>
          if size_exceeds (eo_max_output opts) (length data) then Inl ResultTooLarge
          else Inr \<lparr>er_created = created, er_encoding = tf_encoding f, er_before = fc_revision K (tf_bytes f),
            er_after = fc_revision K data,
            er_diff = edit_diff path old new (int (length (tf_bytes f))) (int (length data))
              (normalize_context_lines context) (eo_detailed_diff opts), er_bytes = data\<rparr>))"

definition revision_bytes :: nat where "revision_bytes = 8"

definition is_hex :: "char \<Rightarrow> bool" where
  "is_hex c = (let n = (of_char c :: nat) in 48 \<le> n \<and> n \<le> 57 \<or> 97 \<le> n \<and> n \<le> 102 \<or> 65 \<le> n \<and> n \<le> 70)"

definition well_formed_revision :: "string \<Rightarrow> bool" where
  "well_formed_revision r \<longleftrightarrow> length r = revision_bytes * 2 \<and> list_all is_hex r"

text \<open>
  \<open>editFileWithResult\<close> up to the write.  A prepared result replaces the calculation when the file
  is still the one it was calculated from.
\<close>

definition compute_edit ::
    "file_codec \<Rightarrow> edit_request \<Rightarrow> edit_result option \<Rightarrow> path_state \<Rightarrow> file_error + text_file \<times> edit_result" where
  "compute_edit K q prepared p =
     (let expected = trim_space (eq_revision q) in
      if prepared = None \<and> expected \<noteq> [] \<and> \<not> well_formed_revision expected then Inl RevisionMalformed
      else (case read_or_create K (eo_max_input (eq_options q)) p (eq_encoding q) (eq_create q) (expected \<noteq> []) of
        Inl e \<Rightarrow> Inl e
      | Inr (f, created) \<Rightarrow>
          (let old = fc_revision K (tf_bytes f) in
           case prepared of
             Some r \<Rightarrow> if er_created r \<noteq> created \<or> er_before r \<noteq> old then Inl ChangedAfterPreflight else Inr (f, r)
           | None \<Rightarrow>
               if expected \<noteq> [] \<and> \<not> equal_fold_ascii expected old then Inl (RevisionMismatch old)
               else if \<not> created \<and> expected = [] \<and> edits_require_revision (eq_edits q) then Inl RevisionRequired
               else (case apply_edits (tf_text f) (eq_edits q) of
                 Inl e \<Rightarrow> Inl (EditFailed e)
               | Inr t \<Rightarrow> (case prepare_file_result K (eq_path q) f created t (eq_context q) (eq_options q) of
                   Inl e \<Rightarrow> Inl e | Inr r \<Rightarrow> Inr (f, r))))))"

end
