(* ===== verification/File_Disk.thy ===== *)
theory File_Disk
  imports File_Service Go_Paths
begin

text \<open>
  The file system as the file operations see it, and their checks of it (\<open>ResolveFileTarget\<close>,
  \<open>checkFileTarget\<close>, \<open>inspectFileState\<close>, \<open>checkFileState\<close>, \<open>readRevisionBytes\<close> of
  \<open>internal/fileops/rollback.go\<close>; \<open>atomic_write.go\<close>).  A name leads to the place of its directory
  entry; an entry is a link, naming the place where following it ends, or a node.  A node carries the
  identity and the times that \<open>os.SameFile\<close> and \<open>ModTime\<close> compare.
\<close>

section \<open>Disk\<close>

record disk_node =
  nd_inode :: nat
  nd_mtime :: nat
  nd_mode :: nat
  nd_regular :: bool
  nd_bytes :: string

record disk =
  dk_cwd :: "go_error + string"
  dk_entry :: "string \<Rightarrow> string option"
  dk_link :: "string \<Rightarrow> string option"
  dk_nodes :: "string \<Rightarrow> disk_node option"

datatype op_error =
  OpNotExist | OpSystem | OpAbs go_error | OpNotRegular | OpChanged | OpExpired | OpNotFound | OpCancelled
  | OpRefused | OpDenied string | OpFile file_error

definition dk_real :: "disk \<Rightarrow> string \<Rightarrow> string option" where
  "dk_real D p = (case dk_entry D p of None \<Rightarrow> None
     | Some e \<Rightarrow> (case dk_link D e of None \<Rightarrow> Some e | Some t \<Rightarrow> Some t))"

text \<open>\<open>os.Stat\<close>, \<open>os.Lstat\<close> (does the name exist) and \<open>EvalSymlinks\<close>.\<close>

definition stat_file :: "disk \<Rightarrow> string \<Rightarrow> op_error + disk_node" where
  "stat_file D p = (case dk_real D p of None \<Rightarrow> Inl OpSystem
     | Some t \<Rightarrow> (case dk_nodes D t of None \<Rightarrow> Inl OpNotExist | Some n \<Rightarrow> Inr n))"

definition lstat_file :: "disk \<Rightarrow> string \<Rightarrow> op_error option" where
  "lstat_file D p = (case dk_entry D p of None \<Rightarrow> Some OpSystem
     | Some e \<Rightarrow> if dk_link D e = None \<and> dk_nodes D e = None then Some OpNotExist else None)"

definition eval_links :: "disk \<Rightarrow> string \<Rightarrow> op_error + string" where
  "eval_links D p = (case dk_real D p of None \<Rightarrow> Inl OpSystem
     | Some t \<Rightarrow> (case dk_nodes D t of None \<Rightarrow> Inl OpNotExist | Some n \<Rightarrow> Inr t))"

definition is_link :: "disk \<Rightarrow> string \<Rightarrow> bool" where
  "is_link D p \<longleftrightarrow> (case dk_entry D p of None \<Rightarrow> False | Some e \<Rightarrow> dk_link D e \<noteq> None)"

definition path_at :: "disk \<Rightarrow> string \<Rightarrow> path_state" where
  "path_at D p = (case stat_file D p of
     Inl OpNotExist \<Rightarrow> PathMissing | Inl _ \<Rightarrow> PathStatFails
   | Inr n \<Rightarrow> if nd_regular n then PathFile (nd_bytes n) else PathDir)"

section \<open>Targets\<close>

text \<open>The loop over the parents of a new file; the directory is its elements, the nearest first.\<close>

fun resolve_parent :: "disk \<Rightarrow> string list \<Rightarrow> string \<Rightarrow> op_error + string" where
  "resolve_parent D [] rest = (case eval_links D (render_path True []) of
     Inr t \<Rightarrow> Inr (join_path t rest) | Inl e \<Rightarrow> Inl e)"
| "resolve_parent D (b # rs) rest = (let parent = render_path True (rev (b # rs)) in
     case eval_links D parent of
       Inr t \<Rightarrow> Inr (join_path t rest)
     | Inl e \<Rightarrow>
         if e \<noteq> OpNotExist \<or> lstat_file D parent = None then Inl e
         else resolve_parent D rs (join_path b rest))"

definition resolve_file_target :: "disk \<Rightarrow> string \<Rightarrow> bool \<Rightarrow> op_error + string" where
  "resolve_file_target D path create = (case abs_path (dk_cwd D) path of
     Inl e \<Rightarrow> Inl (OpAbs e)
   | Inr p \<Rightarrow> (case eval_links D p of
       Inr t \<Rightarrow> (case stat_file D t of
         Inl e \<Rightarrow> Inl e
       | Inr n \<Rightarrow> if nd_regular n then Inr (clean_path t) else Inl OpNotRegular)
     | Inl e \<Rightarrow>
         if \<not> create \<or> e \<noteq> OpNotExist \<or> lstat_file D p = None then Inl e
         else (case rev (path_elems p) of
           [] \<Rightarrow> resolve_parent D [] ''/''
         | b # rs \<Rightarrow> resolve_parent D rs b)))"

definition check_file_target :: "disk \<Rightarrow> string \<Rightarrow> string \<Rightarrow> bool \<Rightarrow> op_error option" where
  "check_file_target D path targ create = (case resolve_file_target D path create of
     Inl e \<Rightarrow> Some e | Inr t \<Rightarrow> if t \<noteq> targ then Some OpChanged else None)"

definition check_rollback_target :: "disk \<Rightarrow> string \<Rightarrow> string \<Rightarrow> op_error option" where
  "check_rollback_target D path targ = (case check_file_target D path targ False of
     Some OpNotExist \<Rightarrow> Some OpNotFound | x \<Rightarrow> x)"

section \<open>State of a file\<close>

definition check_file_state :: "disk \<Rightarrow> string \<Rightarrow> bool \<Rightarrow> disk_node option \<Rightarrow> op_error option" where
  "check_file_state D p created previous =
     (if created then (case lstat_file D p of Some OpNotExist \<Rightarrow> None | Some e \<Rightarrow> Some e | None \<Rightarrow> Some OpChanged)
      else (case stat_file D p of
        Inl e \<Rightarrow> Some e
      | Inr n \<Rightarrow>
          if \<not> nd_regular n then Some OpNotRegular
          else (case previous of
            None \<Rightarrow> Some OpChanged
          | Some m \<Rightarrow>
              if nd_inode m \<noteq> nd_inode n \<or> length (nd_bytes n) \<noteq> length (nd_bytes m) \<or> nd_mode n \<noteq> nd_mode m \<or> nd_mtime n \<noteq> nd_mtime m
              then Some OpChanged else None)))"

definition read_revision_bytes :: "disk \<Rightarrow> string \<Rightarrow> nat \<Rightarrow> op_error + string" where
  "read_revision_bytes D p sz = (case stat_file D p of
     Inl e \<Rightarrow> Inl e
   | Inr n \<Rightarrow> let data = take (sz + 1) (nd_bytes n) in if length data \<noteq> sz then Inl OpChanged else Inr data)"

text \<open>
  \<open>inspectFileState\<close> in its three parts, between which the disk can change: the \<open>Stat\<close>, the read
  and the comparison with the first \<open>Stat\<close>.  The read answers the file it read.
\<close>

definition inspect_stat :: "disk \<Rightarrow> string \<Rightarrow> nat \<Rightarrow> op_error + disk_node" where
  "inspect_stat D p sz = (case stat_file D p of
     Inl e \<Rightarrow> Inl e
   | Inr n \<Rightarrow> if \<not> nd_regular n then Inl OpNotRegular
       else if length (nd_bytes n) \<noteq> sz then Inl OpChanged else Inr n)"

definition inspect_read :: "file_codec \<Rightarrow> disk \<Rightarrow> string \<Rightarrow> string \<Rightarrow> nat \<Rightarrow> op_error + disk_node" where
  "inspect_read K D p revision sz = (case read_revision_bytes D p sz of
     Inl e \<Rightarrow> Inl e | Inr data \<Rightarrow> if fc_revision K data \<noteq> revision then Inl OpChanged else stat_file D p)"

section \<open>Writing\<close>

text \<open>
  The last step of \<open>atomicWriteFile\<close>: the temporary file takes the place of the entry, or a link is
  written through.  The file system chooses identity and time of the new version.
\<close>

definition write_through :: "disk \<Rightarrow> string \<Rightarrow> string \<Rightarrow> nat \<Rightarrow> nat \<times> nat \<Rightarrow> disk option" where
  "write_through D p data mode stamp = (case dk_real D p of
     None \<Rightarrow> None
   | Some t \<Rightarrow> (case dk_nodes D t of
       None \<Rightarrow> Some (D\<lparr>dk_nodes := (dk_nodes D)(t \<mapsto> \<lparr>nd_inode = fst stamp, nd_mtime = snd stamp, nd_mode = mode,
         nd_regular = True, nd_bytes = data\<rparr>)\<rparr>)
     | Some n \<Rightarrow> if \<not> nd_regular n then None
         else Some (D\<lparr>dk_nodes := (dk_nodes D)(t \<mapsto> n\<lparr>nd_mtime := snd stamp, nd_bytes := data\<rparr>)\<rparr>)))"

definition replace_file :: "disk \<Rightarrow> string \<Rightarrow> string \<Rightarrow> nat \<Rightarrow> nat \<times> nat \<Rightarrow> disk option" where
  "replace_file D p data mode stamp = (case dk_entry D p of
     None \<Rightarrow> None
   | Some e \<Rightarrow> Some (D\<lparr>dk_link := (dk_link D)(e := None),
       dk_nodes := (dk_nodes D)(e \<mapsto> \<lparr>nd_inode = fst stamp, nd_mtime = snd stamp, nd_mode = mode,
         nd_regular = True, nd_bytes = data\<rparr>)\<rparr>))"

definition remove_file :: "disk \<Rightarrow> string \<Rightarrow> disk option" where
  "remove_file D p = (case dk_entry D p of
     None \<Rightarrow> None
   | Some e \<Rightarrow> if dk_link D e = None \<and> dk_nodes D e = None then None
       else Some (D\<lparr>dk_link := (dk_link D)(e := None), dk_nodes := (dk_nodes D)(e := None)\<rparr>))"

text \<open>
  Prepared changes of files (\<open>internal/fileops/preview.go\<close>, \<open>atomic_write.go\<close>): a text, an edit or a
  whole file is calculated once, shown, and written later if nothing has changed.  The system calls of
  a commit see the disk at successive moments, which are an argument.
\<close>

section \<open>Errors in sequence\<close>

definition sum_or :: "(op_error \<Rightarrow> 'b) \<Rightarrow> ('a \<Rightarrow> 'b) \<Rightarrow> op_error + 'a \<Rightarrow> 'b" where
  "sum_or f g x = (case x of Inl e \<Rightarrow> f e | Inr a \<Rightarrow> g a)"

fun first_error :: "op_error option list \<Rightarrow> op_error option" where
  "first_error [] = None"
| "first_error (None # es) = first_error es"
| "first_error (Some e # es) = Some e"

section \<open>Preparing\<close>

record prepared_file =
  pf_path :: string
  pf_target :: string
  pf_result :: edit_result

definition no_options :: edit_options where
  "no_options = \<lparr>eo_max_input = 0, eo_max_output = 0, eo_detailed_diff = 0\<rparr>"

definition file_result :: "file_error + 'a \<Rightarrow> op_error + 'a" where
  "file_result x = (case x of Inl e \<Rightarrow> Inl (OpFile e) | Inr a \<Rightarrow> Inr a)"

text \<open>The target is resolved before and checked after the calculation.\<close>

definition with_target ::
    "bool \<Rightarrow> disk \<Rightarrow> string \<Rightarrow> bool \<Rightarrow> (op_error + edit_result) \<Rightarrow> op_error + prepared_file" where
  "with_target ended D path create result =
     (if ended then Inl OpCancelled
      else sum_or Inl (\<lambda>t. sum_or Inl (\<lambda>r. case check_file_target D path t (er_created r) of
            Some e \<Rightarrow> Inl e | None \<Rightarrow> Inr \<lparr>pf_path = path, pf_target = t, pf_result = r\<rparr>) result)
        (resolve_file_target D path create))"

definition prepare_file ::
    "file_codec \<Rightarrow> bool \<Rightarrow> disk \<Rightarrow> string \<Rightarrow> (string \<Rightarrow> op_error + string) \<Rightarrow> op_error + prepared_file" where
  "prepare_file K ended D path transform = with_target ended D path False
     (sum_or Inl (\<lambda>f. sum_or Inl (\<lambda>t. file_result (prepare_file_result K path f False t 3 no_options)) (transform (tf_text f)))
       (file_result (read_text_file K max_file_size (path_at D path) [])))"

definition compute_result :: "file_codec \<Rightarrow> disk \<Rightarrow> string \<Rightarrow> edit_request \<Rightarrow> edit_result option \<Rightarrow> op_error + text_file \<times> edit_result" where
  "compute_result K D path q prepared =
     (case compute_edit K (q\<lparr>eq_path := path\<rparr>) prepared (path_at D path) of Inl e \<Rightarrow> Inl (OpFile e) | Inr x \<Rightarrow> Inr x)"

definition prepare_file_edit ::
    "file_codec \<Rightarrow> bool \<Rightarrow> disk \<Rightarrow> edit_request \<Rightarrow> (string \<Rightarrow> op_error option) option \<Rightarrow> op_error + prepared_file" where
  "prepare_file_edit K ended D q validate =
     (let opts = eq_options q;
          limited = (if eo_max_input opts = 0 then opts\<lparr>eo_max_input := max_file_size\<rparr> else opts)
      in with_target ended D (eq_path q) (eq_create q)
        (sum_or Inl (\<lambda>(f, r). case validate of
            None \<Rightarrow> Inr r
          | Some v \<Rightarrow> sum_or Inl (\<lambda>(t, name, bom). case v t of Some e \<Rightarrow> Inl e | None \<Rightarrow> Inr r)
              (file_result (decode_bytes K (er_bytes r) (er_encoding r))))
          (compute_result K D (eq_path q) (q\<lparr>eq_options := limited\<rparr>) None)))"

definition prepare_file_write :: "file_codec \<Rightarrow> bool \<Rightarrow> disk \<Rightarrow> string \<Rightarrow> string \<Rightarrow> op_error + prepared_file" where
  "prepare_file_write K ended D path content = with_target ended D path True
     (sum_or Inl (\<lambda>(f, created). Inr \<lparr>er_created = created, er_encoding = ''utf-8'', er_before = fc_revision K (tf_bytes f),
          er_after = fc_revision K content,
          er_diff = edit_diff path (tf_text f) content (int (length (tf_bytes f))) (int (length content)) 3 max_file_size,
          er_bytes = content\<rparr>)
       (file_result (read_or_create K max_file_size (path_at D path) [] True False)))"

section \<open>Committing\<close>

text \<open>
  \<open>atomicWriteFile\<close> after its check: over a link the file is written in place, otherwise the temporary
  file takes the place of the entry.
\<close>

definition write_draft :: "disk \<Rightarrow> string \<Rightarrow> string \<Rightarrow> nat \<Rightarrow> bool \<Rightarrow> (nat \<times> nat) option \<Rightarrow> disk option" where
  "write_draft D p data mode link stamp = (case stamp of None \<Rightarrow> None
     | Some s \<Rightarrow> if link then write_through D p data mode s else replace_file D p data mode s)"

text \<open>\<open>inspectFileState\<close> of an existing file, at three moments: the file found and the file read.\<close>

definition inspect_file ::
    "file_codec \<Rightarrow> disk \<Rightarrow> disk \<Rightarrow> disk \<Rightarrow> string \<Rightarrow> string \<Rightarrow> nat \<Rightarrow> op_error + disk_node \<times> disk_node" where
  "inspect_file K D0 D1 D2 path revision sz =
     sum_or Inl (\<lambda>n. sum_or Inl (\<lambda>m. case check_file_state D2 path False (Some n) of Some e \<Rightarrow> Inl e | None \<Rightarrow> Inr (n, m))
        (inspect_read K D1 path revision sz))
       (inspect_stat D0 path sz)"

definition commit_found :: "file_codec \<Rightarrow> (nat \<Rightarrow> disk) \<Rightarrow> bool \<Rightarrow> prepared_file \<Rightarrow> op_error + disk_node option \<times> nat" where
  "commit_found K D system p = (let path = pf_path p; r = pf_result p in
     if er_created r then (case check_file_state (D 1) path True None of
         Some e \<Rightarrow> Inl e | None \<Rightarrow> if system then Inr (None, 420) else Inl OpSystem)
     else sum_or Inl (\<lambda>n. if size_exceeds max_file_size (length (nd_bytes n)) then Inl (OpFile FileTooLarge)
         else sum_or Inl (\<lambda>(m, x). Inr (Some m, nd_mode m))
           (inspect_file K (D 2) (D 3) (D 4) path (er_before r) (length (nd_bytes n))))
       (stat_file (D 1) path))"

definition commit_prepared ::
    "file_codec \<Rightarrow> (nat \<Rightarrow> bool) \<Rightarrow> (nat \<Rightarrow> disk) \<Rightarrow> bool \<Rightarrow> (nat \<times> nat) option \<Rightarrow> prepared_file \<Rightarrow> op_error + disk" where
  "commit_prepared K ended D system stamp p = (let path = pf_path p; r = pf_result p in
     if ended 0 then Inl OpCancelled
     else (case check_file_target (D 0) path (pf_target p) (er_created r) of
       Some e \<Rightarrow> Inl e
     | None \<Rightarrow> sum_or Inl (\<lambda>(seen, mode).
         if \<not> system then Inl OpSystem
         else if ended 1 then Inl OpCancelled
         else (case first_error [check_file_target (D 6) path (pf_target p) (er_created r), check_file_state (D 6) path (er_created r) seen] of
           Some e \<Rightarrow> Inl e
         | None \<Rightarrow> (case write_draft (D 7) path (er_bytes r) mode (is_link (D 5) path) stamp of
             None \<Rightarrow> Inl OpSystem | Some D' \<Rightarrow> Inr D')))
        (commit_found K D system p)))"

end
