(* ===== verification/Rollback_Manager.thy ===== *)
theory Rollback_Manager
  imports File_Disk "HOL-Library.AList"
begin

text \<open>
  The backups of edited files (\<open>RollbackManager\<close> of \<open>internal/fileops/rollback.go\<close>): leases on the
  backups of a session, their table with its limits, and the locks on targets.  Each operation is
  what the code does under the mutex of the manager.

  Scopes and locks are compared by address: they are indices into a heap that only grows.  A binding
  is a number, whether it is valid is code of the session component and an argument.  A backup is
  compared by its number, which is never used twice.  The counter of backups does not wrap
  (\<open>uint64\<close>), times are numbers.
\<close>

section \<open>State\<close>

record rollback_info =
  ri_id :: nat
  ri_path :: string
  ri_target :: string
  ri_created :: bool
  ri_edited :: nat
  ri_before :: string
  ri_after :: string

record rollback_record =
  rr_info :: rollback_info
  rr_scope :: nat
  rr_before :: string
  rr_mode :: nat
  rr_encoding :: string
  rr_after_size :: nat

record rollback_scope =
  sc_binding :: nat
  sc_files :: "(string \<times> rollback_record) list"

record rollback_lock =
  lk_token :: bool
  lk_users :: int

record rollback_manager =
  rk_heap :: "rollback_scope list"
  rk_scopes :: "(nat \<times> nat) list"
  rk_records :: "(nat \<times> rollback_record) list"
  rk_lock_heap :: "rollback_lock list"
  rk_locks :: "(string \<times> nat) list"
  rk_next :: nat
  rk_bytes :: int
  rk_max_bytes :: int
  rk_max_records :: int

abbreviation rr_id :: "rollback_record \<Rightarrow> nat" where "rr_id r \<equiv> ri_id (rr_info r)"
abbreviation rr_target :: "rollback_record \<Rightarrow> string" where "rr_target r \<equiv> ri_target (rr_info r)"

definition rollback_max_bytes :: int where "rollback_max_bytes = 256 * 1024 * 1024"
definition rollback_max_records :: int where "rollback_max_records = 1024"

definition new_rollback_manager :: rollback_manager where
  "new_rollback_manager = \<lparr>rk_heap = [], rk_scopes = [], rk_records = [], rk_lock_heap = [], rk_locks = [], rk_next = 0,
     rk_bytes = 0, rk_max_bytes = rollback_max_bytes, rk_max_records = rollback_max_records\<rparr>"

section \<open>Records and leases\<close>

definition scope_files :: "nat \<Rightarrow> rollback_manager \<Rightarrow> (string \<times> rollback_record) list" where
  "scope_files s m = sc_files (rk_heap m ! s)"

definition set_files :: "nat \<Rightarrow> (string \<times> rollback_record) list \<Rightarrow> rollback_manager \<Rightarrow> rollback_manager" where
  "set_files s fs m = m\<lparr>rk_heap := (rk_heap m)[s := (rk_heap m ! s)\<lparr>sc_files := fs\<rparr>]\<rparr>"

definition remove_record :: "rollback_record \<Rightarrow> rollback_manager \<Rightarrow> rollback_manager" where
  "remove_record r m =
     (set_files (rr_scope r) (AList.delete (rr_target r) (scope_files (rr_scope r) m)) m)
     \<lparr>rk_records := AList.delete (rr_id r) (rk_records m), rk_bytes := rk_bytes m - int (length (rr_before r))\<rparr>"

definition forget_scope :: "nat \<Rightarrow> rollback_manager \<Rightarrow> rollback_manager" where
  "forget_scope b m = (case map_of (rk_scopes m) b of
     None \<Rightarrow> m
   | Some s \<Rightarrow> let n = foldl (\<lambda>m (t, r). remove_record r m) m (scope_files s m)
       in n\<lparr>rk_scopes := AList.delete b (rk_scopes n)\<rparr>)"

text \<open>A lease is the address of its scope.\<close>

definition open_lease :: "(nat \<Rightarrow> bool) \<Rightarrow> nat option \<Rightarrow> rollback_manager \<Rightarrow> rollback_manager \<times> nat option" where
  "open_lease valid binding m = (case binding of
     None \<Rightarrow> (m, None)
   | Some b \<Rightarrow>
       if \<not> valid b then (m, None)
       else let m = foldl (\<lambda>m (old, s). if valid old then m else forget_scope old m) m (rk_scopes m)
         in (case map_of (rk_scopes m) b of
           Some s \<Rightarrow> (m, Some s)
         | None \<Rightarrow> (let s = length (rk_heap m) in
             (m\<lparr>rk_heap := rk_heap m @ [\<lparr>sc_binding = b, sc_files = []\<rparr>], rk_scopes := AList.update b s (rk_scopes m)\<rparr>, Some s))))"

definition lease_valid :: "(nat \<Rightarrow> bool) \<Rightarrow> nat \<Rightarrow> rollback_manager \<Rightarrow> bool" where
  "lease_valid valid s m \<longleftrightarrow>
     (let b = sc_binding (rk_heap m ! s) in valid b \<and> map_of (rk_scopes m) b = Some s)"

definition check_lease :: "(nat \<Rightarrow> bool) \<Rightarrow> bool \<Rightarrow> nat \<Rightarrow> rollback_manager \<Rightarrow> op_error option" where
  "check_lease valid ended s m = (if ended then Some OpCancelled else if lease_valid valid s m then None else Some OpExpired)"

definition list_records :: "(nat \<Rightarrow> bool) \<Rightarrow> nat \<Rightarrow> rollback_manager \<Rightarrow> op_error + rollback_info list" where
  "list_records valid s m =
     (if \<not> lease_valid valid s m then Inl OpExpired
      else Inr (sort_key ri_id (map (rr_info \<circ> snd) (scope_files s m))))"

section \<open>Publishing a backup\<close>

definition over_limit :: "rollback_manager \<Rightarrow> bool" where
  "over_limit m \<longleftrightarrow> rk_bytes m > rk_max_bytes m \<or> int (length (rk_records m)) > rk_max_records m"

definition older :: "rollback_record option \<Rightarrow> rollback_record \<Rightarrow> rollback_record option" where
  "older oldest c = (case oldest of None \<Rightarrow> Some c | Some r \<Rightarrow> if rr_id c < rr_id r then Some c else Some r)"

definition oldest_record :: "rollback_manager \<Rightarrow> rollback_record option" where
  "oldest_record m = foldl older None (map snd (rk_records m))"

text \<open>The loop over the limits; without a record to remove it ends in a nil dereference.\<close>

partial_function (option) evict :: "rollback_manager \<Rightarrow> nat \<Rightarrow> (rollback_manager \<times> nat) option" where
  "evict m n =
     (if \<not> over_limit m then Some (m, n)
      else (case oldest_record m of None \<Rightarrow> None | Some r \<Rightarrow> evict (remove_record r m) (Suc n)))"

declare evict.simps [code]

datatype published = Unrecorded | Published nat bool

definition backup_of ::
    "nat \<Rightarrow> nat \<Rightarrow> string \<Rightarrow> string \<Rightarrow> nat \<Rightarrow> nat \<Rightarrow> text_file \<Rightarrow> edit_result \<Rightarrow> rollback_record" where
  "backup_of i s path targ now mode f r =
     \<lparr>rr_info = \<lparr>ri_id = i, ri_path = path, ri_target = targ, ri_created = er_created r, ri_edited = now,
        ri_before = er_before r, ri_after = er_after r\<rparr>,
      rr_scope = s, rr_before = tf_bytes f, rr_mode = mode, rr_encoding = tf_encoding f, rr_after_size = length (er_bytes r)\<rparr>"

definition insert_record :: "rollback_record \<Rightarrow> rollback_manager \<Rightarrow> rollback_manager" where
  "insert_record r m =
     (set_files (rr_scope r) (AList.update (rr_target r) r (scope_files (rr_scope r) m)) m)
     \<lparr>rk_next := rr_id r, rk_records := AList.update (rr_id r) r (rk_records m), rk_bytes := rk_bytes m + int (length (rr_before r))\<rparr>"

definition drop_previous :: "nat \<Rightarrow> string \<Rightarrow> rollback_manager \<Rightarrow> rollback_manager" where
  "drop_previous s targ m = (case map_of (scope_files s m) targ of None \<Rightarrow> m | Some r \<Rightarrow> remove_record r m)"

definition publish_record ::
    "(nat \<Rightarrow> bool) \<Rightarrow> nat \<Rightarrow> string \<Rightarrow> string \<Rightarrow> nat \<Rightarrow> nat \<Rightarrow> text_file \<Rightarrow> edit_result \<Rightarrow> rollback_manager \<Rightarrow>
       (rollback_manager \<times> published) option" where
  "publish_record valid s path targ now mode f r m =
     (if \<not> lease_valid valid s m then Some (m, Unrecorded)
      else (let m1 = drop_previous s targ m;
                b = backup_of (Suc (rk_next m1)) s path targ now mode f r
            in case evict (insert_record b m1) 0 of
                 None \<Rightarrow> None
               | Some (m2, n) \<Rightarrow> Some (m2, Published n (map_of (rk_records m2) (rr_id b) = Some b))))"

section \<open>Finding a backup\<close>

definition find_record ::
    "(nat \<Rightarrow> bool) \<Rightarrow> nat \<Rightarrow> string \<Rightarrow> string \<Rightarrow> nat \<Rightarrow> rollback_manager \<Rightarrow> op_error + rollback_record" where
  "find_record valid s path targ expected m =
     (if \<not> lease_valid valid s m then Inl OpExpired
      else if list_ex (\<lambda>(t, r). ri_path (rr_info r) = path \<and> rr_target r \<noteq> targ) (scope_files s m) then Inl OpChanged
      else (case map_of (scope_files s m) targ of
        None \<Rightarrow> Inl OpNotFound
      | Some r \<Rightarrow> if expected \<noteq> 0 \<and> rr_id r \<noteq> expected then Inl OpNotFound else Inr r))"

section \<open>Locks on targets\<close>

definition set_lock :: "nat \<Rightarrow> rollback_lock \<Rightarrow> rollback_manager \<Rightarrow> rollback_manager" where
  "set_lock l k m = m\<lparr>rk_lock_heap := (rk_lock_heap m)[l := k]\<rparr>"

definition join_lock :: "string \<Rightarrow> rollback_manager \<Rightarrow> rollback_manager \<times> nat" where
  "join_lock targ m = (case map_of (rk_locks m) targ of
     Some l \<Rightarrow> (let k = rk_lock_heap m ! l in (set_lock l (k\<lparr>lk_users := lk_users k + 1\<rparr>) m, l))
   | None \<Rightarrow> (let l = length (rk_lock_heap m) in
       (m\<lparr>rk_lock_heap := rk_lock_heap m @ [\<lparr>lk_token = False, lk_users = 1\<rparr>], rk_locks := AList.update targ l (rk_locks m)\<rparr>, l)))"

definition take_lock :: "nat \<Rightarrow> rollback_manager \<Rightarrow> rollback_manager option" where
  "take_lock l m = (let k = rk_lock_heap m ! l in if lk_token k then None else Some (set_lock l (k\<lparr>lk_token := True\<rparr>) m))"

definition drop_token :: "nat \<Rightarrow> rollback_manager \<Rightarrow> rollback_manager" where
  "drop_token l m = set_lock l ((rk_lock_heap m ! l)\<lparr>lk_token := False\<rparr>) m"

definition leave_lock :: "string \<Rightarrow> nat \<Rightarrow> rollback_manager \<Rightarrow> rollback_manager" where
  "leave_lock targ l m = (let k = rk_lock_heap m ! l; k' = k\<lparr>lk_users := lk_users k - 1\<rparr>; n = set_lock l k' m in
     if lk_users k' = 0 then n\<lparr>rk_locks := AList.delete targ (rk_locks n)\<rparr> else n)"

end
