(* ===== verification/Rollback_Run.thy ===== *)
theory Rollback_Run
  imports Rollback_Manager File_Disk
begin

text \<open>
  Edits, rollbacks and previews running at the same time (\<open>editFile\<close>, \<open>prepare\<close>, \<open>loadRecord\<close>,
  \<open>Preview\<close> and \<open>rollback\<close> of \<open>internal/fileops/rollback.go\<close>, \<open>Service.PrepareEdit\<close> and
  \<open>PrepareFileEdit\<close>).  A task moves from one system call or critical section to the next; between
  two moves other tasks run, bindings expire, leases are opened and forgotten, and other programs
  change the disk.  The two reads of a check (a target and its state) are one move.  A draft that was inspected keeps the
  file that was found first and, for the properties only, the file whose bytes were read.

  What a move is told from outside is its chance: whether its context has ended, whether the commit
  guard of the caller admits it, whether a preparing system call fails, and the identity and time the
  file system gives to a new version, or the failure of the writing system call.
\<close>

section \<open>State\<close>

datatype file_job =
    EditJob edit_request "edit_result option"
  | PrepareJob edit_request
  | RollbackJob string nat
  | PreviewJob string nat

datatype file_draft = EditDraft text_file edit_result nat bool | RollbackDraft rollback_record bool

datatype file_stage =
    Loading
  | Found rollback_record | Sized rollback_record | Loaded rollback_record string
  | Computed text_file edit_result
  | Drafted file_draft | Stated file_draft disk_node | Reread file_draft disk_node disk_node
  | Inspected file_draft "(disk_node \<times> disk_node) option" | Checked file_draft "(disk_node \<times> disk_node) option"
  | Wrote text_file edit_result nat

datatype file_outcome =
    Failed op_error
  | Edited edit_result "published option"
  | Prepared string edit_result
  | RolledBack string bool string
  | Previewed rollback_info string

datatype job_phase =
    Ready
  | Waiting string nat
  | Working string nat file_stage
  | Releasing string nat file_outcome
  | Leaving string nat file_outcome
  | Ended file_outcome

record file_task =
  ft_job :: file_job
  ft_lease :: "nat option"
  ft_path :: string
  ft_phase :: job_phase

record file_world =
  fw_manager :: rollback_manager
  fw_disk :: disk
  fw_valid :: "nat \<Rightarrow> bool"
  fw_tasks :: "file_task list"
  fw_panic :: bool

record chance =
  ch_ended :: bool
  ch_admitted :: bool
  ch_prepared :: bool
  ch_stamp :: "(nat \<times> nat) option"
  ch_now :: nat

datatype work_result = Next file_stage | Quit op_error | Finish file_outcome

text \<open>The write policy of the caller.\<close>

definition denied :: "(string \<Rightarrow> bool) \<Rightarrow> string \<Rightarrow> op_error option" where
  "denied W p = (if W p then None else Some (OpDenied p))"

definition ended_error :: "chance \<Rightarrow> op_error option" where
  "ended_error ch = (if ch_ended ch then Some OpCancelled else None)"

definition lease_error :: "chance \<Rightarrow> file_world \<Rightarrow> nat option \<Rightarrow> op_error option" where
  "lease_error ch w lease = (case lease of None \<Rightarrow> ended_error ch
     | Some s \<Rightarrow> check_lease (fw_valid w) (ch_ended ch) s (fw_manager w))"

section \<open>Start\<close>

definition job_path :: "file_job \<Rightarrow> string" where
  "job_path j = (case j of EditJob q p \<Rightarrow> eq_path q | PrepareJob q \<Rightarrow> eq_path q | RollbackJob p i \<Rightarrow> p | PreviewJob p i \<Rightarrow> p)"

definition job_create :: "file_job \<Rightarrow> bool" where
  "job_create j = (case j of EditJob q p \<Rightarrow> eq_create q | PrepareJob q \<Rightarrow> eq_create q | _ \<Rightarrow> False)"

definition rolls_back :: "file_job \<Rightarrow> bool" where
  "rolls_back j = (case j of RollbackJob p i \<Rightarrow> True | PreviewJob p i \<Rightarrow> True | _ \<Rightarrow> False)"

text \<open>The absolute path and the target a task locks.\<close>

definition start_task :: "(string \<Rightarrow> bool) \<Rightarrow> chance \<Rightarrow> file_world \<Rightarrow> file_task \<Rightarrow> op_error + string \<times> string" where
  "start_task W ch w t = (case lease_error ch w (ft_lease t) of
     Some e \<Rightarrow> Inl e
   | None \<Rightarrow> (case abs_path (dk_cwd (fw_disk w)) (job_path (ft_job t)) of
       Inl e \<Rightarrow> Inl (OpAbs e)
     | Inr p \<Rightarrow>
         if rolls_back (ft_job t) \<and> \<not> W p then Inl (OpDenied p)
         else (case resolve_file_target (fw_disk w) p (job_create (ft_job t)) of
           Inl e \<Rightarrow> Inl (if rolls_back (ft_job t) \<and> e = OpNotExist then OpNotFound else e)
         | Inr targ \<Rightarrow> Inr (p, targ))))"

section \<open>Reading\<close>

definition next_or_quit :: "op_error option \<Rightarrow> file_stage \<Rightarrow> work_result" where
  "next_or_quit e st = (case e of None \<Rightarrow> Next st | Some e \<Rightarrow> Quit e)"

definition load_backup :: "file_world \<Rightarrow> nat option \<Rightarrow> string \<Rightarrow> string \<Rightarrow> nat \<Rightarrow> work_result" where
  "load_backup w lease path targ expected = (case lease of
     None \<Rightarrow> Quit OpExpired
   | Some s \<Rightarrow> sum_or Quit (\<lambda>r. Next (Found r)) (find_record (fw_valid w) s path targ expected (fw_manager w)))"

definition size_backup :: "(string \<Rightarrow> bool) \<Rightarrow> chance \<Rightarrow> disk \<Rightarrow> string \<Rightarrow> string \<Rightarrow> rollback_record \<Rightarrow> work_result" where
  "size_backup W ch D path targ r = (let rpath = ri_path (rr_info r) in
     case first_error [check_rollback_target D path (rr_target r), check_rollback_target D rpath (rr_target r),
            denied W rpath, denied W (rr_target r), ended_error ch] of
       Some e \<Rightarrow> Quit e
     | None \<Rightarrow> (case stat_file D targ of
         Inl e \<Rightarrow> Quit (if e = OpNotExist then OpNotFound else e)
       | Inr n \<Rightarrow>
           if \<not> nd_regular n then Quit OpNotRegular
           else if length (nd_bytes n) \<noteq> rr_after_size r then Quit OpChanged else Next (Sized r)))"

definition read_backup :: "file_codec \<Rightarrow> disk \<Rightarrow> string \<Rightarrow> rollback_record \<Rightarrow> work_result" where
  "read_backup K D targ r = (case read_revision_bytes D targ (rr_after_size r) of
     Inl e \<Rightarrow> Quit (if e = OpNotExist then OpNotFound else e)
   | Inr data \<Rightarrow> if fc_revision K data \<noteq> ri_after (rr_info r) then Quit OpChanged else Next (Loaded r data))"

definition preview_diff :: "file_codec \<Rightarrow> rollback_record \<Rightarrow> string \<Rightarrow> string" where
  "preview_diff K r current = (let path = ri_path (rr_info r) in
     if int (length current) \<le> max_file_size \<and> int (length (rr_before r)) \<le> max_file_size then
       (case (decode_bytes K current (rr_encoding r), decode_bytes K (rr_before r) (rr_encoding r)) of
          (Inr (new, _), Inr (old, _)) \<Rightarrow>
            edit_diff path (normalize_edit_text new) (normalize_edit_text old) (int (length current)) (int (length (rr_before r))) 3 max_file_size
        | _ \<Rightarrow> omitted_diff path ''file exceeds detailed diff limit'')
     else omitted_diff path ''file exceeds detailed diff limit'')"

text \<open>\<open>Service.PrepareEdit\<close> under the lock: the preview must be of the locked target.\<close>

definition prepare_edit :: "file_codec \<Rightarrow> chance \<Rightarrow> disk \<Rightarrow> string \<Rightarrow> string \<Rightarrow> edit_request \<Rightarrow> work_result" where
  "prepare_edit K ch D path targ q =
     sum_or Quit (\<lambda>p. if pf_target p \<noteq> targ then Quit OpChanged else Finish (Prepared targ (pf_result p)))
       (prepare_file_edit K (ch_ended ch) D (q\<lparr>eq_path := path\<rparr>) None)"

definition draft_edit :: "chance \<Rightarrow> disk \<Rightarrow> string \<Rightarrow> text_file \<Rightarrow> edit_result \<Rightarrow> work_result" where
  "draft_edit ch D path f r =
     (case stat_file D path of
        Inr n \<Rightarrow> if ch_prepared ch then Next (Drafted (EditDraft f r (nd_mode n) (is_link D path))) else Quit OpSystem
      | Inl e \<Rightarrow>
          if \<not> er_created r then Quit e
          else if ch_prepared ch then Next (Drafted (EditDraft f r 420 (is_link D path))) else Quit OpSystem)"

definition draft_rollback :: "chance \<Rightarrow> disk \<Rightarrow> rollback_record \<Rightarrow> work_result" where
  "draft_rollback ch D r =
     (if ri_created (rr_info r) then Next (Drafted (RollbackDraft r False))
      else if ch_prepared ch then Next (Drafted (RollbackDraft r (is_link D (rr_target r)))) else Quit OpSystem)"

section \<open>Before the commit\<close>

text \<open>The file a draft will replace: its name, whether it must be missing, its revision and size.\<close>

definition draft_path :: "string \<Rightarrow> file_draft \<Rightarrow> string" where
  "draft_path path d = (case d of EditDraft f r mode link \<Rightarrow> path | RollbackDraft r link \<Rightarrow> rr_target r)"

definition draft_created :: "file_draft \<Rightarrow> bool" where
  "draft_created d = (case d of EditDraft f r mode link \<Rightarrow> er_created r | RollbackDraft r link \<Rightarrow> False)"

definition draft_revision :: "file_codec \<Rightarrow> file_draft \<Rightarrow> string" where
  "draft_revision K d = (case d of EditDraft f r mode link \<Rightarrow> fc_revision K (tf_bytes f) | RollbackDraft r link \<Rightarrow> ri_after (rr_info r))"

definition draft_size :: "file_draft \<Rightarrow> nat" where
  "draft_size d = (case d of EditDraft f r mode link \<Rightarrow> length (tf_bytes f) | RollbackDraft r link \<Rightarrow> rr_after_size r)"

definition inspect_draft :: "disk \<Rightarrow> string \<Rightarrow> file_draft \<Rightarrow> work_result" where
  "inspect_draft D path d =
     (if draft_created d then next_or_quit (check_file_state D (draft_path path d) True None) (Inspected d None)
      else sum_or Quit (\<lambda>n. Next (Stated d n)) (inspect_stat D (draft_path path d) (draft_size d)))"

definition commit_errors ::
    "(string \<Rightarrow> bool) \<Rightarrow> chance \<Rightarrow> file_world \<Rightarrow> file_task \<Rightarrow> string \<Rightarrow> file_draft \<Rightarrow> (disk_node \<times> disk_node) option \<Rightarrow> op_error option list" where
  "commit_errors W ch w t targ d n = (let D = fw_disk w; path = ft_path t; seen = map_option fst n in
     (if ch_admitted ch then None else Some OpRefused) #
     (case d of
        EditDraft f r mode link \<Rightarrow>
          [case ft_lease t of None \<Rightarrow> None | Some s \<Rightarrow> lease_error ch w (Some s), check_file_target D path targ (er_created r),
           denied W path, denied W targ, check_file_state D path (er_created r) seen, ended_error ch]
      | RollbackDraft r link \<Rightarrow>
          [check_rollback_target D path (rr_target r), check_rollback_target D (ri_path (rr_info r)) (rr_target r),
           denied W path, denied W (ri_path (rr_info r)), denied W (rr_target r), check_file_state D (rr_target r) False seen]))"

definition read_stage :: "file_codec \<Rightarrow> (string \<Rightarrow> bool) \<Rightarrow> chance \<Rightarrow> file_world \<Rightarrow> file_task \<Rightarrow> string \<Rightarrow> file_stage \<Rightarrow> work_result" where
  "read_stage K W ch w t targ st = (let D = fw_disk w; path = ft_path t in case st of
     Loading \<Rightarrow> (case ft_job t of
         EditJob q prepared \<Rightarrow> sum_or Quit (\<lambda>(f, r). Next (Computed f r)) (compute_result K D path q prepared)
       | PrepareJob q \<Rightarrow> prepare_edit K ch D path targ q
       | RollbackJob p i \<Rightarrow> load_backup w (ft_lease t) path targ i
       | PreviewJob p i \<Rightarrow> load_backup w (ft_lease t) path targ i)
   | Found r \<Rightarrow> size_backup W ch D path targ r
   | Sized r \<Rightarrow> read_backup K D targ r
   | Loaded r current \<Rightarrow> (case ft_job t of
         PreviewJob p i \<Rightarrow> Finish (Previewed (rr_info r) (preview_diff K r current))
       | _ \<Rightarrow> draft_rollback ch D r)
   | Computed f r \<Rightarrow> draft_edit ch D path f r
   | Drafted d \<Rightarrow> inspect_draft D path d
   | Stated d n \<Rightarrow> sum_or Quit (\<lambda>m. Next (Reread d n m)) (inspect_read K D (draft_path path d) (draft_revision K d) (draft_size d))
   | Reread d n m \<Rightarrow> next_or_quit (check_file_state D (draft_path path d) False (Some n)) (Inspected d (Some (n, m)))
   | Inspected d n \<Rightarrow> next_or_quit (first_error (commit_errors W ch w t targ d n)) (Checked d n)
   | _ \<Rightarrow> Quit OpSystem)"

section \<open>Commit\<close>

definition commit_edit :: "chance \<Rightarrow> disk \<Rightarrow> string \<Rightarrow> text_file \<Rightarrow> edit_result \<Rightarrow> nat \<Rightarrow> bool \<Rightarrow> disk \<times> work_result" where
  "commit_edit ch D path f r mode link = (case write_draft D path (er_bytes r) mode link (ch_stamp ch) of
     None \<Rightarrow> (D, Quit OpSystem) | Some D' \<Rightarrow> (D', Next (Wrote f r mode)))"

text \<open>The rest of \<open>beforeCommit\<close> takes the mutex, which is held over the write and the removal.\<close>

definition commit_rollback ::
    "chance \<Rightarrow> file_world \<Rightarrow> nat option \<Rightarrow> rollback_record \<Rightarrow> bool \<Rightarrow> file_world \<times> work_result" where
  "commit_rollback ch w lease r link = (let m = fw_manager w; i = rr_info r in
     if (case lease of None \<Rightarrow> True | Some s \<Rightarrow> \<not> lease_valid (fw_valid w) s m) then (w, Quit OpExpired)
     else if map_of (rk_records m) (rr_id r) \<noteq> Some r then (w, Quit OpNotFound)
     else if ch_ended ch then (w, Quit OpCancelled)
     else (case (if ri_created i then (if ch_stamp ch = None then None else remove_file (fw_disk w) (ri_target i))
                 else write_draft (fw_disk w) (ri_target i) (rr_before r) (rr_mode r) link (ch_stamp ch)) of
       None \<Rightarrow> (w, Quit OpSystem)
     | Some D \<Rightarrow> (w\<lparr>fw_disk := D, fw_manager := remove_record r m\<rparr>,
         Finish (RolledBack (ri_path i) (ri_created i) (if ri_created i then [] else ri_before i)))))"

definition publish_edit :: "chance \<Rightarrow> file_world \<Rightarrow> file_task \<Rightarrow> string \<Rightarrow> text_file \<Rightarrow> edit_result \<Rightarrow> nat \<Rightarrow> file_world \<times> work_result" where
  "publish_edit ch w t targ f r mode = (case ft_lease t of
     None \<Rightarrow> (w, Finish (Edited r None))
   | Some s \<Rightarrow> (case publish_record (fw_valid w) s (ft_path t) targ (ch_now ch) mode f r (fw_manager w) of
       None \<Rightarrow> (w\<lparr>fw_panic := True\<rparr>, Quit OpSystem)
     | Some (m, p) \<Rightarrow> (w\<lparr>fw_manager := m\<rparr>, Finish (Edited r (Some p)))))"

definition work_stage ::
    "file_codec \<Rightarrow> (string \<Rightarrow> bool) \<Rightarrow> chance \<Rightarrow> file_world \<Rightarrow> file_task \<Rightarrow> string \<Rightarrow> file_stage \<Rightarrow> file_world \<times> work_result" where
  "work_stage K W ch w t targ st = (case st of
     Checked (EditDraft f r mode link) n \<Rightarrow>
       (case commit_edit ch (fw_disk w) (ft_path t) f r mode link of (D, x) \<Rightarrow> (w\<lparr>fw_disk := D\<rparr>, x))
   | Checked (RollbackDraft r link) n \<Rightarrow> commit_rollback ch w (ft_lease t) r link
   | Wrote f r mode \<Rightarrow> publish_edit ch w t targ f r mode
   | _ \<Rightarrow> (w, read_stage K W ch w t targ st))"

section \<open>Moves\<close>

definition set_phase :: "nat \<Rightarrow> job_phase \<Rightarrow> file_world \<Rightarrow> file_world" where
  "set_phase i ph w = w\<lparr>fw_tasks := (fw_tasks w)[i := (fw_tasks w ! i)\<lparr>ft_phase := ph\<rparr>]\<rparr>"

definition work_phase :: "string \<Rightarrow> nat \<Rightarrow> work_result \<Rightarrow> job_phase" where
  "work_phase targ l x = (case x of Next st \<Rightarrow> Working targ l st
     | Quit e \<Rightarrow> Releasing targ l (Failed e) | Finish out \<Rightarrow> Releasing targ l out)"

definition begin_task :: "(string \<Rightarrow> bool) \<Rightarrow> chance \<Rightarrow> nat \<Rightarrow> file_world \<Rightarrow> file_world" where
  "begin_task W ch i w = (let t = fw_tasks w ! i in case start_task W ch w t of
     Inl e \<Rightarrow> set_phase i (Ended (Failed e)) w
   | Inr (p, targ) \<Rightarrow> (case join_lock targ (fw_manager w) of (m, l) \<Rightarrow>
       w\<lparr>fw_manager := m, fw_tasks := (fw_tasks w)[i := t\<lparr>ft_path := p, ft_phase := Waiting targ l\<rparr>]\<rparr>))"

definition task_move :: "file_codec \<Rightarrow> (string \<Rightarrow> bool) \<Rightarrow> chance \<Rightarrow> nat \<Rightarrow> file_world \<Rightarrow> file_world option" where
  "task_move K W ch i w = (let t = fw_tasks w ! i; m = fw_manager w in case ft_phase t of
     Ready \<Rightarrow> Some (begin_task W ch i w)
   | Waiting targ l \<Rightarrow>
       if ch_ended ch then Some (set_phase i (Ended (Failed OpCancelled)) (w\<lparr>fw_manager := leave_lock targ l m\<rparr>))
       else map_option (\<lambda>m. set_phase i (Working targ l Loading) (w\<lparr>fw_manager := m\<rparr>)) (take_lock l m)
   | Working targ l st \<Rightarrow>
       (case work_stage K W ch w t targ st of (w', x) \<Rightarrow> Some (set_phase i (work_phase targ l x) w'))
   | Releasing targ l out \<Rightarrow> Some (set_phase i (Leaving targ l out) (w\<lparr>fw_manager := drop_token l m\<rparr>))
   | Leaving targ l out \<Rightarrow> Some (set_phase i (Ended out) (w\<lparr>fw_manager := leave_lock targ l m\<rparr>))
   | Ended out \<Rightarrow> None)"

text \<open>
  A step of the system.  A task begins with a lease that was opened, and commits only a preview that
  a task prepared.  The files of a disk are versions: \<open>V\<close> gives the bytes of an identity and time, as
  every change of a file, by whatever program, changes its time.
\<close>

definition disk_versions :: "(nat \<Rightarrow> nat \<Rightarrow> string) \<Rightarrow> disk \<Rightarrow> bool" where
  "disk_versions V D \<longleftrightarrow> (\<forall>p n. dk_nodes D p = Some n \<longrightarrow> nd_bytes n = V (nd_inode n) (nd_mtime n))"

definition known_lease :: "file_world \<Rightarrow> nat option \<Rightarrow> bool" where
  "known_lease w lease = (case lease of None \<Rightarrow> True | Some s \<Rightarrow> s < length (rk_heap (fw_manager w)))"

definition known_result :: "file_world \<Rightarrow> file_job \<Rightarrow> bool" where
  "known_result w j = (case j of EditJob q (Some r) \<Rightarrow> list_ex (\<lambda>t. case ft_phase t of Ended (Prepared targ p) \<Rightarrow> p = r | _ \<Rightarrow> False) (fw_tasks w)
     | _ \<Rightarrow> True)"

inductive file_step :: "file_codec \<Rightarrow> (string \<Rightarrow> bool) \<Rightarrow> (nat \<Rightarrow> nat \<Rightarrow> string) \<Rightarrow> file_world \<Rightarrow> file_world \<Rightarrow> bool" for K W V where
  StepTask: "i < length (fw_tasks w) \<Longrightarrow> task_move K W ch i w = Some w' \<Longrightarrow> disk_versions V (fw_disk w') \<Longrightarrow> file_step K W V w w'"
| StepBegin: "known_lease w lease \<Longrightarrow> known_result w j \<Longrightarrow>
    file_step K W V w (w\<lparr>fw_tasks := fw_tasks w @ [\<lparr>ft_job = j, ft_lease = lease, ft_path = [], ft_phase = Ready\<rparr>]\<rparr>)"
| StepDisk: "disk_versions V D \<Longrightarrow> file_step K W V w (w\<lparr>fw_disk := D\<rparr>)"
| StepValid: "file_step K W V w (w\<lparr>fw_valid := v\<rparr>)"
| StepOpen: "file_step K W V w (w\<lparr>fw_manager := fst (open_lease (fw_valid w) b (fw_manager w))\<rparr>)"
| StepForget: "file_step K W V w (w\<lparr>fw_manager := forget_scope b (fw_manager w)\<rparr>)"

definition start_world :: "rollback_manager \<Rightarrow> disk \<Rightarrow> (nat \<Rightarrow> bool) \<Rightarrow> file_world" where
  "start_world m D v = \<lparr>fw_manager = m, fw_disk = D, fw_valid = v, fw_tasks = [], fw_panic = False\<rparr>"

inductive file_run :: "file_codec \<Rightarrow> (string \<Rightarrow> bool) \<Rightarrow> (nat \<Rightarrow> nat \<Rightarrow> string) \<Rightarrow> file_world \<Rightarrow> bool" for K W V where
  RunStart: "disk_versions V D \<Longrightarrow> file_run K W V (start_world new_rollback_manager D v)"
| RunStep: "file_run K W V w \<Longrightarrow> file_step K W V w w' \<Longrightarrow> file_run K W V w'"

end
