(* ===== verification/Rollback_Laws.thy ===== *)
theory Rollback_Laws
  imports Rollback_Manager "HOL-Library.Multiset"
begin

text \<open>
  The books of the backup manager: its table and the files of its live scopes hold the same records,
  the byte count is their sum and no operation leaves the limits exceeded.
\<close>

section \<open>What each operation touches\<close>

definition scope_binding :: "nat \<Rightarrow> rollback_manager \<Rightarrow> nat" where
  "scope_binding s m = sc_binding (rk_heap m ! s)"

lemma set_files_simps [simp]:
  "rk_scopes (set_files s fs m) = rk_scopes m" "rk_records (set_files s fs m) = rk_records m"
  "rk_next (set_files s fs m) = rk_next m" "rk_bytes (set_files s fs m) = rk_bytes m"
  "rk_max_bytes (set_files s fs m) = rk_max_bytes m" "rk_max_records (set_files s fs m) = rk_max_records m"
  "rk_locks (set_files s fs m) = rk_locks m" "rk_lock_heap (set_files s fs m) = rk_lock_heap m"
  "length (rk_heap (set_files s fs m)) = length (rk_heap m)"
  by (simp_all add: set_files_def)

lemma scope_files_set: "s < length (rk_heap m) \<Longrightarrow> scope_files s' (set_files s fs m) = (if s' = s then fs else scope_files s' m)"
  by (simp add: scope_files_def set_files_def nth_list_update)

lemma scope_binding_set [simp]: "scope_binding s' (set_files s fs m) = scope_binding s' m"
  by (cases "s < length (rk_heap m)") (auto simp: scope_binding_def set_files_def nth_list_update list_update_beyond)

lemma heap_only [simp]:
  "scope_files s (m\<lparr>rk_records := a\<rparr>) = scope_files s m" "scope_files s (m\<lparr>rk_bytes := b\<rparr>) = scope_files s m"
  "scope_files s (m\<lparr>rk_scopes := c\<rparr>) = scope_files s m" "scope_files s (m\<lparr>rk_next := n\<rparr>) = scope_files s m"
  "scope_binding s (m\<lparr>rk_records := a\<rparr>) = scope_binding s m" "scope_binding s (m\<lparr>rk_bytes := b\<rparr>) = scope_binding s m"
  "scope_binding s (m\<lparr>rk_scopes := c\<rparr>) = scope_binding s m" "scope_binding s (m\<lparr>rk_next := n\<rparr>) = scope_binding s m"
  by (simp_all add: scope_files_def scope_binding_def)

lemma remove_record_simps [simp]:
  "rk_scopes (remove_record r m) = rk_scopes m" "rk_records (remove_record r m) = AList.delete (rr_id r) (rk_records m)"
  "rk_next (remove_record r m) = rk_next m" "rk_bytes (remove_record r m) = rk_bytes m - int (length (rr_before r))"
  "rk_max_bytes (remove_record r m) = rk_max_bytes m" "rk_max_records (remove_record r m) = rk_max_records m"
  "rk_locks (remove_record r m) = rk_locks m" "rk_lock_heap (remove_record r m) = rk_lock_heap m"
  "length (rk_heap (remove_record r m)) = length (rk_heap m)" "scope_binding s (remove_record r m) = scope_binding s m"
  by (simp_all add: remove_record_def)

lemma scope_files_remove: "rr_scope r < length (rk_heap m) \<Longrightarrow> scope_files s (remove_record r m) =
    (if s = rr_scope r then AList.delete (rr_target r) (scope_files s m) else scope_files s m)"
  by (simp add: remove_record_def scope_files_set)

lemma insert_record_simps [simp]:
  "rk_scopes (insert_record r m) = rk_scopes m" "rk_records (insert_record r m) = AList.update (rr_id r) r (rk_records m)"
  "rk_next (insert_record r m) = rr_id r" "rk_bytes (insert_record r m) = rk_bytes m + int (length (rr_before r))"
  "rk_max_bytes (insert_record r m) = rk_max_bytes m" "rk_max_records (insert_record r m) = rk_max_records m"
  "rk_locks (insert_record r m) = rk_locks m" "rk_lock_heap (insert_record r m) = rk_lock_heap m"
  "length (rk_heap (insert_record r m)) = length (rk_heap m)" "scope_binding s (insert_record r m) = scope_binding s m"
  by (simp_all add: insert_record_def)

lemma scope_files_insert: "rr_scope r < length (rk_heap m) \<Longrightarrow> scope_files s (insert_record r m) =
    (if s = rr_scope r then AList.update (rr_target r) r (scope_files s m) else scope_files s m)"
  by (simp add: insert_record_def scope_files_set)

section \<open>The books\<close>

definition record_bytes :: "(nat \<times> rollback_record) list \<Rightarrow> int" where
  "record_bytes rs = (\<Sum>(i, r) \<leftarrow> rs. int (length (rr_before r)))"

definition live_scope :: "rollback_manager \<Rightarrow> nat \<Rightarrow> bool" where
  "live_scope m s \<longleftrightarrow> s < length (rk_heap m) \<and> map_of (rk_scopes m) (scope_binding s m) = Some s"

definition filed :: "rollback_manager \<Rightarrow> rollback_record \<Rightarrow> bool" where
  "filed m r \<longleftrightarrow> live_scope m (rr_scope r) \<and> map_of (scope_files (rr_scope r) m) (rr_target r) = Some r \<and> rr_id r \<le> rk_next m"

definition books :: "rollback_manager \<Rightarrow> bool" where
  "books m \<longleftrightarrow> distinct (map fst (rk_records m)) \<and> distinct (map fst (rk_scopes m)) \<and>
     (\<forall>(b, s) \<in> set (rk_scopes m). s < length (rk_heap m) \<and> scope_binding s m = b) \<and>
     (\<forall>(i, r) \<in> set (rk_records m). rr_id r = i \<and> filed m r) \<and>
     (\<forall>s < length (rk_heap m). distinct (map fst (scope_files s m)) \<and>
        (\<forall>(t, r) \<in> set (scope_files s m). rr_target r = t \<and> rr_scope r = s \<and> (rr_id r, r) \<in> set (rk_records m))) \<and>
     rk_bytes m = record_bytes (rk_records m)"

lemma record_bytes_nonneg: "0 \<le> record_bytes rs"
  by (auto simp: record_bytes_def intro!: sum_list_nonneg)

lemma record_bytes_simps [simp]:
  "record_bytes [] = 0" "record_bytes ((i, r) # rs) = int (length (rr_before r)) + record_bytes rs"
  "record_bytes (rs @ qs) = record_bytes rs + record_bytes qs"
  by (simp_all add: record_bytes_def)

lemma delete_absent: "k \<notin> fst ` set xs \<Longrightarrow> AList.delete k xs = xs"
  by (induction xs) auto

lemma update_absent: "k \<notin> fst ` set xs \<Longrightarrow> AList.update k v xs = xs @ [(k, v)]"
  by (induction xs) auto

lemma record_bytes_delete:
  "distinct (map fst rs) \<Longrightarrow> (i, r) \<in> set rs \<Longrightarrow> record_bytes (AList.delete i rs) = record_bytes rs - int (length (rr_before r))"
  by (induction rs) (auto simp: delete_absent image_iff split: prod.splits)

lemma length_delete_key:
  "distinct (map fst xs) \<Longrightarrow> (k, v) \<in> set xs \<Longrightarrow> length xs = Suc (length (AList.delete k xs))"
  by (induction xs) (auto simp: delete_absent image_iff split: prod.splits)

lemma set_delete: "set (AList.delete k xs) = {(i, x) \<in> set xs. i \<noteq> k}"
  by (auto simp: AList.delete_eq)

lemma booksD:
  assumes "books m"
  shows "distinct (map fst (rk_records m))" "distinct (map fst (rk_scopes m))"
    "(b, s) \<in> set (rk_scopes m) \<Longrightarrow> s < length (rk_heap m) \<and> scope_binding s m = b"
    "(i, r) \<in> set (rk_records m) \<Longrightarrow> rr_id r = i \<and> filed m r"
    "s < length (rk_heap m) \<Longrightarrow> distinct (map fst (scope_files s m))"
    "s < length (rk_heap m) \<Longrightarrow> (t, x) \<in> set (scope_files s m) \<Longrightarrow>
      rr_target x = t \<and> rr_scope x = s \<and> (rr_id x, x) \<in> set (rk_records m)"
    "rk_bytes m = record_bytes (rk_records m)"
  using assms by (auto simp: books_def)

lemma booksI:
  assumes "distinct (map fst (rk_records m))" "distinct (map fst (rk_scopes m))"
    "\<And>b s. (b, s) \<in> set (rk_scopes m) \<Longrightarrow> s < length (rk_heap m) \<and> scope_binding s m = b"
    "\<And>i r. (i, r) \<in> set (rk_records m) \<Longrightarrow> rr_id r = i \<and> filed m r"
    "\<And>s. s < length (rk_heap m) \<Longrightarrow> distinct (map fst (scope_files s m))"
    "\<And>s t x. s < length (rk_heap m) \<Longrightarrow> (t, x) \<in> set (scope_files s m) \<Longrightarrow>
      rr_target x = t \<and> rr_scope x = s \<and> (rr_id x, x) \<in> set (rk_records m)"
    "rk_bytes m = record_bytes (rk_records m)"
  shows "books m"
  using assms unfolding books_def by blast

lemma filed_scope: "filed m r \<Longrightarrow> rr_scope r < length (rk_heap m)"
  by (simp add: filed_def live_scope_def)

lemma filed_distinct:
  assumes "books m" "(rr_id r, r) \<in> set (rk_records m)" "(rr_id x, x) \<in> set (rk_records m)" "rr_id x \<noteq> rr_id r"
    and "rr_scope x = rr_scope r"
  shows "rr_target x \<noteq> rr_target r"
proof
  assume "rr_target x = rr_target r"
  moreover have "filed m r" "filed m x" using booksD(4) [OF assms(1)] assms(2,3) by auto
  ultimately have "x = r" using assms(5) by (simp add: filed_def)
  with assms(4) show False by simp
qed

lemma books_remove:
  assumes "books m" and mem: "(rr_id r, r) \<in> set (rk_records m)"
  shows "books (remove_record r m)"
proof -
  note B = booksD [OF assms(1)]
  have f: "filed m r" using B(4) [OF mem] by simp
  note s = filed_scope [OF f]
  let ?n = "remove_record r m"
  have live: "live_scope ?n s \<longleftrightarrow> live_scope m s" for s by (simp add: live_scope_def)
  have keep: "filed ?n x" if x: "(rr_id x, x) \<in> set (rk_records m)" "rr_id x \<noteq> rr_id r" for x
  proof -
    have fx: "filed m x" using B(4) x by blast
    with filed_distinct [OF assms(1) mem x(1,2)] show ?thesis
      by (auto simp: filed_def live scope_files_remove [OF s] AList.delete_conv' live_scope_def)
  qed
  have other: "rr_id x \<noteq> rr_id r" if "s' < length (rk_heap m)" "(t, x) \<in> set (scope_files s' ?n)" for s' t x
  proof
    assume e: "rr_id x = rr_id r"
    have in_m: "(t, x) \<in> set (scope_files s' m)"
      using that(2) by (auto simp: scope_files_remove [OF s] set_delete split: if_splits)
    note x = B(6) [OF that(1) in_m]
    then have "x = r" using e mem B(1) by (metis eq_key_imp_eq_value)
    with that(2) x show False by (auto simp: scope_files_remove [OF s] set_delete)
  qed
  have files: "rr_target x = t \<and> rr_scope x = s' \<and> (rr_id x, x) \<in> set (rk_records ?n)"
    if "s' < length (rk_heap m)" "(t, x) \<in> set (scope_files s' ?n)" for s' t x
  proof -
    have "(t, x) \<in> set (scope_files s' m)"
      using that(2) by (auto simp: scope_files_remove [OF s] set_delete split: if_splits)
    with B(6) [OF that(1)] other [OF that] show ?thesis by (auto simp: set_delete)
  qed
  show ?thesis
  proof (rule booksI)
    show "rr_id x = i \<and> filed ?n x" if "(i, x) \<in> set (rk_records ?n)" for i x
      using that B(4) [of i x] keep [of x] by (auto simp: set_delete)
    show "distinct (map fst (scope_files s' ?n))" if "s' < length (rk_heap ?n)" for s'
      using B(5) [of s'] that by (auto simp: scope_files_remove [OF s] distinct_delete)
    show "(b, s') \<in> set (rk_scopes ?n) \<Longrightarrow> s' < length (rk_heap ?n) \<and> scope_binding s' ?n = b" for b s'
      using B(3) by simp
    show "s' < length (rk_heap ?n) \<Longrightarrow> (t, x) \<in> set (scope_files s' ?n) \<Longrightarrow>
      rr_target x = t \<and> rr_scope x = s' \<and> (rr_id x, x) \<in> set (rk_records ?n)" for s' t x
      using files by simp
  qed (use B(1,2,7) record_bytes_delete [OF B(1) mem] in \<open>simp_all add: distinct_delete\<close>)
qed


section \<open>Forgetting a scope\<close>

abbreviation remove_all :: "rollback_manager \<Rightarrow> (string \<times> rollback_record) list \<Rightarrow> rollback_manager" where
  "remove_all m fs \<equiv> foldl (\<lambda>m (t, r). remove_record r m) m fs"

lemma remove_all_simps [simp]:
  "rk_scopes (remove_all m fs) = rk_scopes m" "rk_next (remove_all m fs) = rk_next m"
  "rk_max_bytes (remove_all m fs) = rk_max_bytes m" "rk_max_records (remove_all m fs) = rk_max_records m"
  "rk_locks (remove_all m fs) = rk_locks m" "rk_lock_heap (remove_all m fs) = rk_lock_heap m"
  "length (rk_heap (remove_all m fs)) = length (rk_heap m)" "scope_binding s (remove_all m fs) = scope_binding s m"
  "rk_records (remove_all m fs) = filter (\<lambda>(i, r). i \<notin> (rr_id \<circ> snd) ` set fs) (rk_records m)"
  by (induction fs arbitrary: m) (auto simp: AList.delete_eq intro!: filter_cong split: prod.splits)

lemma remove_all_books:
  assumes "books m" "s < length (rk_heap m)" "scope_files s m = fs"
  shows "books (remove_all m fs) \<and> scope_files s (remove_all m fs) = [] \<and>
    (\<forall>s'. s' \<noteq> s \<longrightarrow> scope_files s' (remove_all m fs) = scope_files s' m)"
  using assms
proof (induction fs arbitrary: m)
  case (Cons e fs)
  obtain t r where e: "e = (t, r)" by fastforce
  have r: "rr_target r = t" "rr_scope r = s" "(rr_id r, r) \<in> set (rk_records m)"
    using booksD(6) [OF Cons.prems(1,2), of t r] Cons.prems(3) e by auto
  have "t \<notin> fst ` set fs" using booksD(5) [OF Cons.prems(1,2)] Cons.prems(3) e by simp
  then have "scope_files s (remove_record r m) = fs"
    using r Cons.prems(2,3) e by (simp add: scope_files_remove delete_absent)
  with Cons.IH [OF books_remove [OF Cons.prems(1) r(3)]] Cons.prems(2) r e show ?case
    by (simp add: scope_files_remove)
qed simp

lemma forget_none: "map_of (rk_scopes m) b = None \<Longrightarrow> forget_scope b m = m"
  by (simp add: forget_scope_def)

lemma forget_some: "map_of (rk_scopes m) b = Some s \<Longrightarrow>
    forget_scope b m = (remove_all m (scope_files s m))\<lparr>rk_scopes := AList.delete b (rk_scopes m)\<rparr>"
  by (simp add: forget_scope_def)

lemma forget_simps [simp]:
  "rk_scopes (forget_scope b m) = AList.delete b (rk_scopes m) \<and> rk_next (forget_scope b m) = rk_next m \<and>
   rk_max_bytes (forget_scope b m) = rk_max_bytes m \<and> rk_max_records (forget_scope b m) = rk_max_records m \<and>
   rk_locks (forget_scope b m) = rk_locks m \<and> rk_lock_heap (forget_scope b m) = rk_lock_heap m \<and>
   length (rk_heap (forget_scope b m)) = length (rk_heap m) \<and> scope_binding s (forget_scope b m) = scope_binding s m"
proof (cases "map_of (rk_scopes m) b")
  case None
  then have "AList.delete b (rk_scopes m) = rk_scopes m" by (simp add: map_of_eq_None_iff delete_absent)
  then show ?thesis using None by (simp add: forget_none)
next
  case (Some s')
  then show ?thesis by (simp add: forget_some del: remove_all_simps(9))
qed

lemma forget_books:
  assumes "books m" "map_of (rk_scopes m) b = Some s"
  shows "books (forget_scope b m) \<and> scope_files s (forget_scope b m) = [] \<and>
    (\<forall>s'. s' \<noteq> s \<longrightarrow> scope_files s' (forget_scope b m) = scope_files s' m) \<and>
    rk_records (forget_scope b m) = filter (\<lambda>(i, r). rr_scope r \<noteq> s) (rk_records m)"
proof -
  note B = booksD [OF assms(1)]
  have s: "s < length (rk_heap m)" "scope_binding s m = b" using B(3) [OF map_of_SomeD [OF assms(2)]] by auto
  define n where "n = remove_all m (scope_files s m)"
  have n: "books n" "scope_files s n = []" "\<And>s'. s' \<noteq> s \<Longrightarrow> scope_files s' n = scope_files s' m"
    using remove_all_books [OF assms(1) s(1) refl] by (auto simp: n_def)
  note N = booksD [OF n(1)]
  have ids: "i \<in> (rr_id \<circ> snd) ` set (scope_files s m) \<longleftrightarrow> rr_scope r = s" if "(i, r) \<in> set (rk_records m)" for i r
  proof
    assume "i \<in> (rr_id \<circ> snd) ` set (scope_files s m)"
    then obtain t x where "(t, x) \<in> set (scope_files s m)" "rr_id x = i" by auto
    with B(6) [OF s(1), of t x] that B(1) show "rr_scope r = s" by (metis eq_key_imp_eq_value)
  next
    assume "rr_scope r = s"
    then have "map_of (scope_files s m) (rr_target r) = Some r" "rr_id r = i" using B(4) [OF that] by (auto simp: filed_def)
    then show "i \<in> (rr_id \<circ> snd) ` set (scope_files s m)" by (force dest: map_of_SomeD)
  qed
  have recs: "rk_records n = filter (\<lambda>(i, r). rr_scope r \<noteq> s) (rk_records m)"
    unfolding n_def remove_all_simps using ids by (auto intro!: filter_cong)
  have f: "forget_scope b m = n\<lparr>rk_scopes := AList.delete b (rk_scopes n)\<rparr>"
    using assms(2) by (simp add: forget_scope_def n_def)
  have "books (forget_scope b m)"
  proof (rule booksI)
    fix i r assume "(i, r) \<in> set (rk_records (forget_scope b m))"
    then have i: "(i, r) \<in> set (rk_records n)" by (simp add: f)
    with recs have "rr_scope r \<noteq> s" by auto
    moreover have "filed n r" "rr_id r = i" using N(4) [OF i] by auto
    moreover have "scope_binding (rr_scope r) n \<noteq> b"
      using calculation assms(2) by (auto simp: filed_def live_scope_def n_def)
    ultimately show "rr_id r = i \<and> filed (forget_scope b m) r"
      by (simp add: f filed_def live_scope_def AList.delete_conv')
  qed (use N in \<open>auto simp: f distinct_delete set_delete\<close>)
  with n recs show ?thesis by (simp add: f)
qed


section \<open>Leases\<close>

abbreviation reclaim :: "(nat \<Rightarrow> bool) \<Rightarrow> rollback_manager \<Rightarrow> (nat \<times> nat) list \<Rightarrow> rollback_manager" where
  "reclaim valid m scs \<equiv> foldl (\<lambda>m (old, s). if valid old then m else forget_scope old m) m scs"

lemma forget_keeps_books: "books m \<Longrightarrow> books (forget_scope b m)"
  using forget_books by (cases "map_of (rk_scopes m) b") (auto simp: forget_none)

lemma reclaim_frame [simp]:
  "rk_next (reclaim valid m scs) = rk_next m \<and> rk_max_bytes (reclaim valid m scs) = rk_max_bytes m \<and>
   rk_max_records (reclaim valid m scs) = rk_max_records m \<and> rk_locks (reclaim valid m scs) = rk_locks m \<and>
   rk_lock_heap (reclaim valid m scs) = rk_lock_heap m \<and> length (rk_heap (reclaim valid m scs)) = length (rk_heap m) \<and>
   scope_binding s (reclaim valid m scs) = scope_binding s m \<and>
   rk_scopes (reclaim valid m scs) = filter (\<lambda>(b, s). valid b \<or> b \<notin> fst ` set scs) (rk_scopes m)"
  by (induction scs arbitrary: m) (auto simp: AList.delete_eq intro!: filter_cong split: prod.splits)

lemma reclaim_books: "books m \<Longrightarrow> books (reclaim valid m scs)"
  by (induction scs arbitrary: m) (auto simp: forget_keeps_books)

lemma books_new_scope:
  assumes "books m" "map_of (rk_scopes m) b = None"
  shows "books (m\<lparr>rk_heap := rk_heap m @ [\<lparr>sc_binding = b, sc_files = []\<rparr>],
    rk_scopes := AList.update b (length (rk_heap m)) (rk_scopes m)\<rparr>)" (is "books ?n")
proof -
  note B = booksD [OF assms(1)]
  have b: "b \<notin> fst ` set (rk_scopes m)" using assms(2) by (simp add: map_of_eq_None_iff)
  then have sc: "rk_scopes ?n = rk_scopes m @ [(b, length (rk_heap m))]" by (simp add: update_absent)
  have old: "scope_binding s ?n = scope_binding s m" "scope_files s ?n = scope_files s m" if "s < length (rk_heap m)" for s
    using that by (simp_all add: scope_binding_def scope_files_def nth_append)
  have fresh: "scope_files (length (rk_heap m)) ?n = []" "scope_binding (length (rk_heap m)) ?n = b"
    by (simp_all add: scope_binding_def scope_files_def)
  have filed: "filed ?n r" if "filed m r" for r
    using that old [OF filed_scope [OF that]] b
    by (auto simp: filed_def live_scope_def sc map_add_Some_iff simp del: rollback_manager.select_convs(2))
  show ?thesis
  proof (rule booksI)
    show "distinct (map fst (rk_scopes ?n))" unfolding sc using B(2) b by simp
    show "s < length (rk_heap ?n) \<and> scope_binding s ?n = c" if "(c, s) \<in> set (rk_scopes ?n)" for c s
      using that B(3) [of c s] old [of s] fresh unfolding sc by auto
    show "distinct (map fst (scope_files s ?n))" if "s < length (rk_heap ?n)" for s
      using that B(5) [of s] old [of s] fresh by (cases "s = length (rk_heap m)") auto
    show "rr_target x = t \<and> rr_scope x = s \<and> (rr_id x, x) \<in> set (rk_records ?n)"
      if "s < length (rk_heap ?n)" "(t, x) \<in> set (scope_files s ?n)" for s t x
      using that B(6) [of s t x] old [of s] fresh by (cases "s = length (rk_heap m)") auto
    show "rr_id r = i \<and> filed ?n r" if "(i, r) \<in> set (rk_records ?n)" for i r
      using that B(4) [of i r] filed by simp
  qed (use B(1,7) in simp_all)
qed

lemma open_lease_books: "books m \<Longrightarrow> books (fst (open_lease valid binding m))"
  using books_new_scope [OF reclaim_books] reclaim_books
  by (auto simp: open_lease_def Let_def split: option.splits)

section \<open>Publishing\<close>

lemma books_insert:
  assumes "books m" "rr_id r = Suc (rk_next m)" "live_scope m (rr_scope r)" "rr_target r \<notin> fst ` set (scope_files (rr_scope r) m)"
  shows "books (insert_record r m) \<and> rk_records (insert_record r m) = rk_records m @ [(rr_id r, r)]"
proof -
  note B = booksD [OF assms(1)]
  have s: "rr_scope r < length (rk_heap m)" using assms(3) by (simp add: live_scope_def)
  let ?n = "insert_record r m"
  have "i \<le> rk_next m" if "(i, x) \<in> set (rk_records m)" for i x using B(4) [OF that] by (auto simp: filed_def)
  then have new: "rr_id r \<notin> fst ` set (rk_records m)" using assms(2) by fastforce
  then have recs: "rk_records ?n = rk_records m @ [(rr_id r, r)]" by (simp add: update_absent)
  have files: "scope_files s' ?n = (if s' = rr_scope r then scope_files s' m @ [(rr_target r, r)] else scope_files s' m)" for s'
    using assms(4) by (auto simp: scope_files_insert [OF s] update_absent)
  have live: "live_scope ?n s' = live_scope m s'" for s' by (simp add: live_scope_def)
  have "filed ?n x" if "filed m x" for x
    using that assms(2,4) by (auto simp: filed_def live files map_add_Some_iff)
  moreover have "filed ?n r"
    using assms(3,4) by (force simp: filed_def live files map_add_Some_iff dest: map_of_SomeD)
  ultimately have "books ?n"
  proof (intro booksI)
    show "distinct (map fst (rk_records ?n))" unfolding recs using B(1) new by simp
    show "rk_bytes ?n = record_bytes (rk_records ?n)" unfolding recs using B(7) by simp
    show "rr_id x = i \<and> filed ?n x" if "(i, x) \<in> set (rk_records ?n)" for i x
      using that B(4) [of i x] \<open>\<And>x. filed m x \<Longrightarrow> filed ?n x\<close> \<open>filed ?n r\<close> unfolding recs by auto
    show "distinct (map fst (scope_files s' ?n))" if "s' < length (rk_heap ?n)" for s'
      using that B(5) [of s'] assms(4) unfolding files by auto
    show "rr_target x = t \<and> rr_scope x = s' \<and> (rr_id x, x) \<in> set (rk_records ?n)"
      if "s' < length (rk_heap ?n)" "(t, x) \<in> set (scope_files s' ?n)" for s' t x
      using that B(6) [of s' t x] unfolding files recs by (auto split: if_splits)
    show "s' < length (rk_heap ?n) \<and> scope_binding s' ?n = b" if "(b, s') \<in> set (rk_scopes ?n)" for b s'
      using that B(3) [of b s'] by simp
  qed (use B(2) in simp)
  with recs show ?thesis by simp
qed

definition within_limits :: "rollback_manager \<Rightarrow> (nat \<times> rollback_record) list \<Rightarrow> bool" where
  "within_limits m rs \<longleftrightarrow> record_bytes rs \<le> rk_max_bytes m \<and> int (length rs) \<le> rk_max_records m"

definition since :: "nat \<Rightarrow> rollback_manager \<Rightarrow> (nat \<times> rollback_record) list" where
  "since c m = filter (\<lambda>(i, r). c \<le> i) (rk_records m)"

definition sane_limits :: "rollback_manager \<Rightarrow> bool" where
  "sane_limits m \<longleftrightarrow> 0 \<le> rk_max_bytes m \<and> 0 \<le> rk_max_records m"

lemma over_limit_books: "books m \<Longrightarrow> over_limit m \<longleftrightarrow> \<not> within_limits m (rk_records m)"
  by (auto simp: over_limit_def within_limits_def dest: booksD(7))

lemma oldest_fold:
  "\<exists>r. foldl older (Some x) rs = Some r \<and> r \<in> set (x # rs) \<and> (\<forall>y \<in> set (x # rs). rr_id r \<le> rr_id y)"
proof (induction rs arbitrary: x)
  case (Cons c rs)
  have "older (Some x) c = Some (if rr_id c < rr_id x then c else x)" by (simp add: older_def)
  with Cons [of "if rr_id c < rr_id x then c else x"] show ?case by (auto split: if_splits)
qed simp

lemma oldest_record:
  assumes "books m" "rk_records m \<noteq> []"
  shows "\<exists>r. oldest_record m = Some r \<and> (rr_id r, r) \<in> set (rk_records m) \<and> (\<forall>(i, x) \<in> set (rk_records m). rr_id r \<le> i)"
proof -
  obtain i x rs where rs: "rk_records m = (i, x) # rs" using assms(2) by (cases "rk_records m") auto
  note ids = booksD(4) [OF assms(1)]
  obtain r where r: "oldest_record m = Some r" "r \<in> snd ` set (rk_records m)" "\<And>y. y \<in> snd ` set (rk_records m) \<Longrightarrow> rr_id r \<le> rr_id y"
    using oldest_fold [of x "map snd rs"] by (auto simp: oldest_record_def rs older_def)
  with ids show ?thesis by fastforce
qed

text \<open>What the loop over the limits leaves alone.\<close>

definition same_frame :: "rollback_manager \<Rightarrow> rollback_manager \<Rightarrow> bool" where
  "same_frame m n \<longleftrightarrow> rk_scopes n = rk_scopes m \<and> rk_next n = rk_next m \<and> rk_locks n = rk_locks m \<and>
     rk_lock_heap n = rk_lock_heap m \<and> rk_max_bytes n = rk_max_bytes m \<and> rk_max_records n = rk_max_records m \<and>
     length (rk_heap n) = length (rk_heap m) \<and> (\<forall>s. scope_binding s n = scope_binding s m)"

lemma evict_outcome:
  assumes "books m" "sane_limits m"
  shows "\<exists>m' k c. evict m n = Some (m', n + k) \<and> books m' \<and> \<not> over_limit m' \<and> same_frame m m' \<and>
    rk_records m' = since c m \<and> k + length (since c m) = length (rk_records m) \<and>
    (\<forall>d. within_limits m (since d m) \<longrightarrow> set (since d m) \<subseteq> set (since c m))"
  using assms
proof (induction "length (rk_records m)" arbitrary: m n rule: less_induct)
  case less
  show ?case
  proof (cases "over_limit m")
    case False
    then have "evict m n = Some (m, n + 0)" by (simp add: evict.simps)
    moreover have "since 0 m = rk_records m" by (simp add: since_def filter_True)
    moreover have "set (since d m) \<subseteq> set (rk_records m)" for d by (auto simp: since_def)
    ultimately show ?thesis using False less.prems by (intro exI [of _ m] exI [of _ 0] exI [of _ "0::nat"]) (simp add: same_frame_def)
  next
    case True
    then have "rk_records m \<noteq> []" using less.prems
      by (auto simp: over_limit_books within_limits_def sane_limits_def)
    from oldest_record [OF less.prems(1) this] obtain r where r: "oldest_record m = Some r"
      "(rr_id r, r) \<in> set (rk_records m)" "\<And>i x. (i, x) \<in> set (rk_records m) \<Longrightarrow> rr_id r \<le> i" by blast
    let ?n = "remove_record r m"
    have recs: "rk_records ?n = filter (\<lambda>(i, x). i \<noteq> rr_id r) (rk_records m)"
      by (auto simp: AList.delete_eq intro!: filter_cong)
    have len: "length (rk_records m) = Suc (length (rk_records ?n))"
      using length_delete_key [OF booksD(1) [OF less.prems(1)] r(2)] by simp
    have n: "books ?n" "sane_limits ?n" using books_remove [OF less.prems(1) r(2)] less.prems(2) by (auto simp: sane_limits_def)
    from less.hyps [OF _ n, of "Suc n"] len obtain m' k c where ih:
      "evict ?n (Suc n) = Some (m', Suc n + k)" "books m'" "\<not> over_limit m'" "same_frame ?n m'" "rk_records m' = since c ?n"
      "k + length (since c ?n) = length (rk_records ?n)"
      "\<And>d. within_limits ?n (since d ?n) \<Longrightarrow> set (since d ?n) \<subseteq> set (since c ?n)" by auto
    have later: "since d m = since d ?n" if "rr_id r < d" for d
      using that unfolding since_def recs by (auto simp: filter_filter intro!: filter_cong)
    have all: "since d m = rk_records m" if "d \<le> rr_id r" for d
      using that r(3) unfolding since_def by (intro filter_True) force
    let ?c = "max c (Suc (rr_id r))"
    have cut: "since c ?n = since ?c m"
      unfolding since_def recs filter_filter using r(3) by (intro filter_cong) fastforce+
    have "set (since d m) \<subseteq> set (since ?c m)" if "within_limits m (since d m)" for d
    proof -
      have "rr_id r < d" using that all [of d] True over_limit_books [OF less.prems(1)] by (metis not_le)
      with ih(7) [of d] that later cut show ?thesis by (simp add: within_limits_def)
    qed
    moreover have "evict m n = Some (m', n + Suc k)" using True r(1) ih(1) by (subst evict.simps) simp
    moreover have "same_frame m m'" using ih(4) by (simp add: same_frame_def)
    moreover have "rk_records m' = since ?c m" "Suc k + length (since ?c m) = length (rk_records m)" using ih(5,6) cut len by simp_all
    ultimately show ?thesis using ih(2,3) by (intro exI [of _ m'] exI [of _ "Suc k"] exI [of _ ?c]) blast
  qed
qed

lemma drop_previous_books:
  assumes "books m" "s < length (rk_heap m)"
  shows "books (drop_previous s targ m) \<and> targ \<notin> fst ` set (scope_files s (drop_previous s targ m)) \<and> same_frame m (drop_previous s targ m) \<and>
    set (rk_records (drop_previous s targ m)) = {(i, r) \<in> set (rk_records m). \<not> (rr_scope r = s \<and> rr_target r = targ)}"
proof (cases "map_of (scope_files s m) targ")
  case None
  then have d: "drop_previous s targ m = m" by (simp add: drop_previous_def)
  have "\<not> (rr_scope r = s \<and> rr_target r = targ)" if "(i, r) \<in> set (rk_records m)" for i r
    using booksD(4) [OF assms(1) that] None by (auto simp: filed_def)
  then have "{(i, r) \<in> set (rk_records m). \<not> (rr_scope r = s \<and> rr_target r = targ)} = set (rk_records m)" by auto
  with assms None show ?thesis unfolding d by (simp add: same_frame_def map_of_eq_None_iff)
next
  case (Some r)
  then have d: "drop_previous s targ m = remove_record r m" by (simp add: drop_previous_def)
  note r = booksD(6) [OF assms map_of_SomeD [OF Some]]
  have "rr_id r \<noteq> i \<longleftrightarrow> \<not> (rr_scope x = s \<and> rr_target x = targ)" if x: "(i, x) \<in> set (rk_records m)" for i x
  proof
    assume "rr_id r \<noteq> i"
    then show "\<not> (rr_scope x = s \<and> rr_target x = targ)" using booksD(4) [OF assms(1) x] Some by (auto simp: filed_def)
  next
    assume "\<not> (rr_scope x = s \<and> rr_target x = targ)"
    then show "rr_id r \<noteq> i" using r x booksD(1) [OF assms(1)] by (metis eq_key_imp_eq_value)
  qed
  then have "set (rk_records (remove_record r m)) = {(i, r) \<in> set (rk_records m). \<not> (rr_scope r = s \<and> rr_target r = targ)}"
    by (auto simp: set_delete)
  moreover have "targ \<notin> fst ` set (scope_files s (remove_record r m))"
    using r assms(2) by (auto simp: scope_files_remove set_delete)
  ultimately show ?thesis using r books_remove [OF assms(1), of r] unfolding d by (simp add: same_frame_def)
qed

lemma publish_outcome:
  assumes "books m" "sane_limits m" "lease_valid valid s m" "s < length (rk_heap m)"
    and "m1 = drop_previous s targ m" "b = backup_of (Suc (rk_next m)) s path targ now mode f r"
  shows "\<exists>m' k c. publish_record valid s path targ now mode f r m =
      Some (m', Published k (map_of (rk_records m') (rr_id b) = Some b)) \<and> books m' \<and> \<not> over_limit m' \<and>
    same_frame (insert_record b m1) m' \<and> rk_records m' = since c (insert_record b m1) \<and>
    k + length (rk_records m') = length (rk_records (insert_record b m1)) \<and> 
    rk_records (insert_record b m1) = rk_records m1 @ [(rr_id b, b)] \<and> books (insert_record b m1) \<and>
    (\<forall>d. within_limits m (since d (insert_record b m1)) \<longrightarrow> set (since d (insert_record b m1)) \<subseteq> set (rk_records m'))"
proof -
  note d = drop_previous_books [OF assms(1,4), of targ, folded assms(5)]
  have live: "live_scope m1 s" using assms(3,4) d
    by (simp add: lease_valid_def live_scope_def same_frame_def Let_def scope_binding_def)
  have ins: "books (insert_record b m1)" "rk_records (insert_record b m1) = rk_records m1 @ [(rr_id b, b)]"
    using books_insert [of m1 b] d live by (auto simp: assms(6) backup_of_def same_frame_def)
  have lim: "sane_limits (insert_record b m1)" using d assms(2) by (simp add: sane_limits_def same_frame_def)
  have "rk_max_bytes (insert_record b m1) = rk_max_bytes m" "rk_max_records (insert_record b m1) = rk_max_records m"
    using d by (simp_all add: same_frame_def)
  moreover from evict_outcome [OF ins(1) lim, of 0] obtain m' k c where
    "evict (insert_record b m1) 0 = Some (m', k)" "books m'" "\<not> over_limit m'" "same_frame (insert_record b m1) m'"
    "rk_records m' = since c (insert_record b m1)" "k + length (rk_records m') = length (rk_records (insert_record b m1))"
    "\<And>d. within_limits (insert_record b m1) (since d (insert_record b m1)) \<Longrightarrow> set (since d (insert_record b m1)) \<subseteq> set (rk_records m')"
    by auto
  moreover have "rk_next m1 = rk_next m" using d by (simp add: same_frame_def)
  ultimately show ?thesis using assms(3) ins
    by (intro exI [of _ m'] exI [of _ k] exI [of _ c])
      (simp add: publish_record_def Let_def assms(5,6)[symmetric] within_limits_def)
qed

end
