(* ===== verification/Rollback_Run_Laws.thy ===== *)
theory Rollback_Run_Laws
  imports Rollback_Run Rollback_Laws
begin

text \<open>
  The locks on targets: the entry of a target lasts as long as a task waits for it or holds it, its
  users are those tasks, and its token is taken by at most one of them.
\<close>

section \<open>Counting\<close>

definition head_count :: "('a \<Rightarrow> bool) \<Rightarrow> 'a list \<Rightarrow> int" where
  "head_count P xs = (\<Sum>x \<leftarrow> xs. of_bool (P x))"

lemma head_count_simps [simp]:
  "head_count P [] = 0" "head_count P (x # xs) = of_bool (P x) + head_count P xs" "head_count P (xs @ ys) = head_count P xs + head_count P ys"
  by (simp_all add: head_count_def)

lemma head_count_update: "i < length xs \<Longrightarrow> head_count P (xs[i := x]) = head_count P xs - of_bool (P (xs ! i)) + of_bool (P x)"
  by (induction xs arbitrary: i) (auto split: nat.splits)

lemma head_count_nonneg: "0 \<le> head_count P xs"
  by (induction xs) auto

lemma head_count_pos: "i < length xs \<Longrightarrow> P (xs ! i) \<Longrightarrow> 0 < head_count P xs"
  using head_count_update [of i xs P "xs ! i"] head_count_nonneg [of P xs]
proof (induction xs arbitrary: i)
  case (Cons y ys)
  then show ?case using head_count_nonneg [of P ys] by (cases i) auto
qed simp

lemma head_count_two:
  assumes "i < length xs" "j < length xs" "i \<noteq> j" "P (xs ! i)" "P (xs ! j)"
  shows "2 \<le> head_count P xs"
  using assms
proof (induction xs arbitrary: i j)
  case (Cons y ys)
  then show ?case
    using head_count_pos [of "i - 1" ys P] head_count_pos [of "j - 1" ys P] by (cases i; cases j) (auto simp: nth_Cons')
qed simp

lemma head_count_zero: "head_count P xs = 0 \<longleftrightarrow> (\<forall>x \<in> set xs. \<not> P x)"
proof (induction xs)
  case (Cons x xs)
  then show ?case using head_count_nonneg [of P xs] by auto
qed simp

section \<open>Who uses a lock\<close>

definition lock_entry :: "job_phase \<Rightarrow> (string \<times> nat) option" where
  "lock_entry ph = (case ph of Waiting t l \<Rightarrow> Some (t, l) | Working t l st \<Rightarrow> Some (t, l)
     | Releasing t l out \<Rightarrow> Some (t, l) | Leaving t l out \<Rightarrow> Some (t, l) | _ \<Rightarrow> None)"

definition holds_lock :: "job_phase \<Rightarrow> bool" where
  "holds_lock ph = (case ph of Working t l st \<Rightarrow> True | Releasing t l out \<Rightarrow> True | _ \<Rightarrow> False)"

lemma lock_phases [simp]:
  "lock_entry Ready = None" "lock_entry (Waiting t l) = Some (t, l)" "lock_entry (Working t l st) = Some (t, l)"
  "lock_entry (Releasing t l out) = Some (t, l)" "lock_entry (Leaving t l out) = Some (t, l)" "lock_entry (Ended out) = None"
  "\<not> holds_lock Ready" "\<not> holds_lock (Waiting t l)" "holds_lock (Working t l st)" "holds_lock (Releasing t l out)"
  "\<not> holds_lock (Leaving t l out)" "\<not> holds_lock (Ended out)"
  by (simp_all add: lock_entry_def holds_lock_def)

definition uses :: "nat \<Rightarrow> file_task \<Rightarrow> bool" where
  "uses l t \<longleftrightarrow> map_option snd (lock_entry (ft_phase t)) = Some l"

definition holds :: "nat \<Rightarrow> file_task \<Rightarrow> bool" where
  "holds l t \<longleftrightarrow> uses l t \<and> holds_lock (ft_phase t)"

definition locks_ok :: "rollback_manager \<Rightarrow> file_task list \<Rightarrow> bool" where
  "locks_ok m ts \<longleftrightarrow> distinct (map fst (rk_locks m)) \<and> distinct (map snd (rk_locks m)) \<and>
     (\<forall>(targ, l) \<in> set (rk_locks m). l < length (rk_lock_heap m) \<and> 0 < head_count (uses l) ts \<and>
        lk_users (rk_lock_heap m ! l) = head_count (uses l) ts \<and> of_bool (lk_token (rk_lock_heap m ! l)) = head_count (holds l) ts) \<and>
     (\<forall>t \<in> set ts. \<forall>e. lock_entry (ft_phase t) = Some e \<longrightarrow> e \<in> set (rk_locks m))"

lemma locks_okD:
  assumes "locks_ok m ts"
  shows "distinct (map fst (rk_locks m))" "distinct (map snd (rk_locks m))"
    "(targ, l) \<in> set (rk_locks m) \<Longrightarrow> l < length (rk_lock_heap m) \<and> 0 < head_count (uses l) ts \<and>
        lk_users (rk_lock_heap m ! l) = head_count (uses l) ts \<and> of_bool (lk_token (rk_lock_heap m ! l)) = head_count (holds l) ts"
    "t \<in> set ts \<Longrightarrow> lock_entry (ft_phase t) = Some e \<Longrightarrow> e \<in> set (rk_locks m)"
  using assms unfolding locks_ok_def by blast+

lemma locks_okI:
  assumes "distinct (map fst (rk_locks m))" "distinct (map snd (rk_locks m))"
    "\<And>targ l. (targ, l) \<in> set (rk_locks m) \<Longrightarrow> l < length (rk_lock_heap m) \<and> 0 < head_count (uses l) ts \<and>
        lk_users (rk_lock_heap m ! l) = head_count (uses l) ts \<and> of_bool (lk_token (rk_lock_heap m ! l)) = head_count (holds l) ts"
    "\<And>t e. t \<in> set ts \<Longrightarrow> lock_entry (ft_phase t) = Some e \<Longrightarrow> e \<in> set (rk_locks m)"
  shows "locks_ok m ts"
  using assms unfolding locks_ok_def by blast

lemma locks_frame: "rk_locks n = rk_locks m \<Longrightarrow> rk_lock_heap n = rk_lock_heap m \<Longrightarrow> locks_ok n ts \<longleftrightarrow> locks_ok m ts"
  by (simp add: locks_ok_def)

lemma uses_phase [simp]:
  "uses l (t\<lparr>ft_phase := ph\<rparr>) \<longleftrightarrow> map_option snd (lock_entry ph) = Some l"
  "holds l (t\<lparr>ft_phase := ph\<rparr>) \<longleftrightarrow> map_option snd (lock_entry ph) = Some l \<and> holds_lock ph"
  by (simp_all add: uses_def holds_def)

lemma unused_index:
  assumes "locks_ok m ts" "l \<notin> snd ` set (rk_locks m)"
  shows "head_count (uses l) ts = 0" "head_count (holds l) ts = 0"
  using locks_okD(4) [OF assms(1)] assms(2) by (force simp: head_count_zero uses_def holds_def)+

section \<open>The operations on locks\<close>

lemma entries_update:
  assumes "locks_ok m ts" "t \<in> set (ts[i := x])" "lock_entry (ft_phase t) = Some e"
  shows "e \<in> set (rk_locks m) \<or> lock_entry (ft_phase x) = Some e"
  using assms(2,3) locks_okD(4) [OF assms(1)] set_update_subset_insert [of ts i x] by (cases e; cases "t = x") auto

lemma locks_same_entry:
  assumes "locks_ok m ts" "i < length ts" "lock_entry ph = lock_entry (ft_phase (ts ! i))" "holds_lock ph = holds_lock (ft_phase (ts ! i))"
  shows "locks_ok m (ts[i := (ts ! i)\<lparr>ft_phase := ph\<rparr>])"
proof -
  have "head_count (uses l) (ts[i := (ts ! i)\<lparr>ft_phase := ph\<rparr>]) = head_count (uses l) ts"
    "head_count (holds l) (ts[i := (ts ! i)\<lparr>ft_phase := ph\<rparr>]) = head_count (holds l) ts" for l
    using assms(2-4) by (simp_all add: head_count_update) (simp_all add: uses_def holds_def)
  moreover have "e \<in> set (rk_locks m)" if "t \<in> set (ts[i := (ts ! i)\<lparr>ft_phase := ph\<rparr>])" "lock_entry (ft_phase t) = Some e" for t e
    using entries_update [OF assms(1) that] locks_okD(4) [OF assms(1), of "ts ! i"] assms(2,3) by (cases e) auto
  ultimately show ?thesis using locks_okD [OF assms(1)] by (intro locks_okI) auto
qed

lemma join_locks:
  assumes "locks_ok m ts" "i < length ts" "lock_entry (ft_phase (ts ! i)) = None" "join_lock targ m = (n, l)"
  shows "locks_ok n (ts[i := (ts ! i)\<lparr>ft_path := p, ft_phase := Waiting targ l\<rparr>])"
proof -
  note L = locks_okD [OF assms(1)]
  let ?ts = "ts[i := (ts ! i)\<lparr>ft_path := p, ft_phase := Waiting targ l\<rparr>]"
  have none: "\<not> uses l' (ts ! i)" "\<not> holds l' (ts ! i)" for l' using assms(3) by (simp_all add: uses_def holds_def)
  have t: "head_count (uses l') ?ts = head_count (uses l') ts + of_bool (l' = l)" "head_count (holds l') ?ts = head_count (holds l') ts" for l'
    using assms(2) none by (simp_all add: head_count_update)
  have old: "e \<in> set (rk_locks m) \<or> e = (targ, l)" if "t \<in> set ?ts" "lock_entry (ft_phase t) = Some e" for t e
    using entries_update [OF assms(1) that] by auto
  show ?thesis
  proof (cases "map_of (rk_locks m) targ")
    case (Some l')
    then have l: "l = l'" "n = set_lock l ((rk_lock_heap m ! l)\<lparr>lk_users := lk_users (rk_lock_heap m ! l) + 1\<rparr>) m" "(targ, l) \<in> set (rk_locks m)"
      using assms(4) by (auto simp: join_lock_def Let_def dest: map_of_SomeD)
    have n: "rk_locks n = rk_locks m" "length (rk_lock_heap n) = length (rk_lock_heap m)" by (simp_all add: l(2) set_lock_def)
    show ?thesis
    proof (rule locks_okI)
      fix targ' l' assume e: "(targ', l') \<in> set (rk_locks n)"
      note l' = L(3) [OF e [unfolded n(1)]]
      have "rk_lock_heap n ! l' = (if l' = l then (rk_lock_heap m ! l)\<lparr>lk_users := lk_users (rk_lock_heap m ! l) + 1\<rparr> else rk_lock_heap m ! l')"
        using l' by (simp add: l(2) set_lock_def nth_list_update)
      with l' show "l' < length (rk_lock_heap n) \<and> 0 < head_count (uses l') ?ts \<and>
        lk_users (rk_lock_heap n ! l') = head_count (uses l') ?ts \<and> of_bool (lk_token (rk_lock_heap n ! l')) = head_count (holds l') ?ts"
        using head_count_nonneg [of "uses l'" ts] by (auto simp: t n)
    next
      show "\<And>t e. t \<in> set ?ts \<Longrightarrow> lock_entry (ft_phase t) = Some e \<Longrightarrow> e \<in> set (rk_locks n)"
        using old l(3) n(1) by metis
    qed (use L(1,2) n(1) in simp_all)
  next
    case None
    let ?l = "length (rk_lock_heap m)"
    have l: "l = ?l" "n = m\<lparr>rk_lock_heap := rk_lock_heap m @ [\<lparr>lk_token = False, lk_users = 1\<rparr>], rk_locks := AList.update targ ?l (rk_locks m)\<rparr>"
      using None assms(4) by (auto simp: join_lock_def Let_def)
    have "targ \<notin> fst ` set (rk_locks m)" using None by (simp add: map_of_eq_None_iff)
    then have n: "rk_locks n = rk_locks m @ [(targ, l)]" by (simp add: l update_absent)
    have new: "l \<notin> snd ` set (rk_locks m)" using L(3) l(1) by fastforce
    note zero = unused_index [OF assms(1) new]
    show ?thesis
    proof (rule locks_okI)
      fix targ' l' assume e: "(targ', l') \<in> set (rk_locks n)"
      show "l' < length (rk_lock_heap n) \<and> 0 < head_count (uses l') ?ts \<and>
        lk_users (rk_lock_heap n ! l') = head_count (uses l') ?ts \<and> of_bool (lk_token (rk_lock_heap n ! l')) = head_count (holds l') ?ts"
      proof (cases "(targ', l') \<in> set (rk_locks m)")
        case True
        then have "l' \<noteq> l" using new by force
        with L(3) [OF True] show ?thesis by (simp add: t l(2) nth_append)
      next
        case False
        with e n have "l' = l" by simp
        then show ?thesis using zero t [of l] by (simp add: l nth_append)
      qed
    next
      show "\<And>t e. t \<in> set ?ts \<Longrightarrow> lock_entry (ft_phase t) = Some e \<Longrightarrow> e \<in> set (rk_locks n)"
        using old n by (metis Un_iff list.set_intros(1) set_append)
    qed (use L(1,2) n new \<open>targ \<notin> _\<close> in simp_all)
  qed
qed

lemma take_locks:
  assumes "locks_ok m ts" "i < length ts" "ft_phase (ts ! i) = Waiting targ l" "take_lock l m = Some n"
  shows "locks_ok n (ts[i := (ts ! i)\<lparr>ft_phase := Working targ l st\<rparr>])"
proof -
  note L = locks_okD [OF assms(1)]
  let ?ts = "ts[i := (ts ! i)\<lparr>ft_phase := Working targ l st\<rparr>]"
  have e: "(targ, l) \<in> set (rk_locks m)" using L(4) [of "ts ! i"] assms(2,3) by simp
  have n: "rk_locks n = rk_locks m" "length (rk_lock_heap n) = length (rk_lock_heap m)" "\<not> lk_token (rk_lock_heap m ! l)"
    "n = set_lock l ((rk_lock_heap m ! l)\<lparr>lk_token := True\<rparr>) m"
    using assms(4) by (auto simp: take_lock_def Let_def set_lock_def split: if_splits)
  have t: "head_count (uses l') ?ts = head_count (uses l') ts" "head_count (holds l') ?ts = head_count (holds l') ts + of_bool (l' = l)" for l'
    using assms(2,3) by (simp_all add: head_count_update) (simp_all add: uses_def holds_def)
  show ?thesis
  proof (rule locks_okI)
    fix targ' l' assume e: "(targ', l') \<in> set (rk_locks n)"
    note l' = L(3) [OF e [unfolded n(1)]]
    have "rk_lock_heap n ! l' = (if l' = l then (rk_lock_heap m ! l)\<lparr>lk_token := True\<rparr> else rk_lock_heap m ! l')"
      using l' by (simp add: n(4) set_lock_def nth_list_update)
    with l' n(3) show "l' < length (rk_lock_heap n) \<and> 0 < head_count (uses l') ?ts \<and>
        lk_users (rk_lock_heap n ! l') = head_count (uses l') ?ts \<and> of_bool (lk_token (rk_lock_heap n ! l')) = head_count (holds l') ?ts"
      by (auto simp: t n(2))
  next
    show "\<And>t e. t \<in> set ?ts \<Longrightarrow> lock_entry (ft_phase t) = Some e \<Longrightarrow> e \<in> set (rk_locks n)"
      using entries_update [OF assms(1)] e n(1) by fastforce
  qed (use L(1,2) n(1) in simp_all)
qed

lemma drop_locks:
  assumes "locks_ok m ts" "i < length ts" "ft_phase (ts ! i) = Releasing targ l out"
  shows "locks_ok (drop_token l m) (ts[i := (ts ! i)\<lparr>ft_phase := Leaving targ l out\<rparr>])"
proof -
  note L = locks_okD [OF assms(1)]
  let ?n = "drop_token l m"
  let ?ts = "ts[i := (ts ! i)\<lparr>ft_phase := Leaving targ l out\<rparr>]"
  have e: "(targ, l) \<in> set (rk_locks m)" using L(4) [of "ts ! i"] assms(2,3) by simp
  have n: "rk_locks ?n = rk_locks m" "length (rk_lock_heap ?n) = length (rk_lock_heap m)" by (simp_all add: drop_token_def set_lock_def)
  have t: "head_count (uses l') ?ts = head_count (uses l') ts" "head_count (holds l') ?ts = head_count (holds l') ts - of_bool (l' = l)" for l'
    using assms(2,3) by (simp_all add: head_count_update) (simp_all add: uses_def holds_def)
  have one: "head_count (holds l) ts = 1"
    using L(3) [OF e] head_count_pos [OF assms(2), of "holds l"] assms(3) by (auto simp: holds_def uses_def of_bool_def split: if_splits)
  show ?thesis
  proof (rule locks_okI)
    fix targ' l' assume e: "(targ', l') \<in> set (rk_locks ?n)"
    note l' = L(3) [OF e [unfolded n(1)]]
    have "rk_lock_heap ?n ! l' = (if l' = l then (rk_lock_heap m ! l)\<lparr>lk_token := False\<rparr> else rk_lock_heap m ! l')"
      using l' by (simp add: drop_token_def set_lock_def nth_list_update)
    with l' one show "l' < length (rk_lock_heap ?n) \<and> 0 < head_count (uses l') ?ts \<and>
        lk_users (rk_lock_heap ?n ! l') = head_count (uses l') ?ts \<and> of_bool (lk_token (rk_lock_heap ?n ! l')) = head_count (holds l') ?ts"
      by (auto simp: t n)
  next
    show "\<And>t e. t \<in> set ?ts \<Longrightarrow> lock_entry (ft_phase t) = Some e \<Longrightarrow> e \<in> set (rk_locks ?n)"
      using entries_update [OF assms(1)] e n(1) by fastforce
  qed (use L(1,2) n(1) in simp_all)
qed

lemma leave_locks:
  assumes "locks_ok m ts" "i < length ts" "lock_entry (ft_phase (ts ! i)) = Some (targ, l)" "\<not> holds_lock (ft_phase (ts ! i))"
  shows "locks_ok (leave_lock targ l m) (ts[i := (ts ! i)\<lparr>ft_phase := Ended out\<rparr>])"
proof -
  note L = locks_okD [OF assms(1)]
  let ?n = "leave_lock targ l m"
  let ?ts = "ts[i := (ts ! i)\<lparr>ft_phase := Ended out\<rparr>]"
  have e: "(targ, l) \<in> set (rk_locks m)" using L(4) [of "ts ! i"] assms(2,3) by simp
  note l = L(3) [OF e]
  have t: "head_count (uses l') ?ts = head_count (uses l') ts - of_bool (l' = l)" "head_count (holds l') ?ts = head_count (holds l') ts" for l'
    using assms(2-4) by (simp_all add: head_count_update) (simp_all add: uses_def holds_def)
  have heap: "rk_lock_heap ?n ! l' = (if l' = l then (rk_lock_heap m ! l)\<lparr>lk_users := head_count (uses l) ?ts\<rparr> else rk_lock_heap m ! l')"
    "length (rk_lock_heap ?n) = length (rk_lock_heap m)" if "l' < length (rk_lock_heap m)" for l'
    using that l by (simp_all add: leave_lock_def Let_def set_lock_def nth_list_update t)
  have locks: "rk_locks ?n = (if head_count (uses l) ?ts = 0 then AList.delete targ (rk_locks m) else rk_locks m)"
    using l by (simp add: leave_lock_def Let_def set_lock_def t)
  have only: "l' \<noteq> l" if "(targ', l') \<in> set (AList.delete targ (rk_locks m))" for targ' l'
  proof
    assume "l' = l"
    with that have "(targ', l) \<in> set (rk_locks m)" "targ' \<noteq> targ" by (auto simp: set_delete)
    with e L(2) show False by (metis eq_snd_iff inj_on_contraD distinct_map prod.sel(1))
  qed
  show ?thesis
  proof (rule locks_okI)
    show "distinct (map fst (rk_locks ?n))" using L(1) by (simp add: locks distinct_delete)
    show "distinct (map snd (rk_locks ?n))" using L(2) by (simp add: locks AList.delete_eq distinct_filter_map)
    fix targ' l' assume e': "(targ', l') \<in> set (rk_locks ?n)"
    then have in_m: "(targ', l') \<in> set (rk_locks m)" by (auto simp: locks set_delete split: if_splits)
    have pos: "0 < head_count (uses l') ?ts"
    proof (cases "l' = l")
      case True
      then have "head_count (uses l) ?ts \<noteq> 0" using e' only by (auto simp: locks split: if_splits)
      with True show ?thesis using head_count_nonneg [of "uses l" ?ts] by simp
    qed (use L(3) [OF in_m] t in simp)
    with heap [of l'] L(3) [OF in_m] show "l' < length (rk_lock_heap ?n) \<and> 0 < head_count (uses l') ?ts \<and>
        lk_users (rk_lock_heap ?n ! l') = head_count (uses l') ?ts \<and> of_bool (lk_token (rk_lock_heap ?n ! l')) = head_count (holds l') ?ts"
      by (auto simp: t)
  next
    fix x e' assume x: "x \<in> set ?ts" "lock_entry (ft_phase x) = Some e'"
    then have in_m: "e' \<in> set (rk_locks m)" using entries_update [OF assms(1) x] by simp
    have "fst e' \<noteq> targ" if "head_count (uses l) ?ts = 0"
    proof
      assume "fst e' = targ"
      then have "e' = (targ, l)" using in_m e L(1) by (metis eq_key_imp_eq_value prod.collapse)
      with x that show False by (auto simp: head_count_zero uses_def)
    qed
    with in_m show "e' \<in> set (rk_locks ?n)" by (cases e') (auto simp: locks set_delete)
  qed
qed

text \<open>
  Invariants of concurrent file tasks: the books and the locks of the manager in every reachable
  world, and what a draft knows about the file it will replace.
\<close>

section \<open>Manager\<close>

definition manager_ok :: "rollback_manager \<Rightarrow> bool" where
  "manager_ok m \<longleftrightarrow> books m \<and> sane_limits m \<and> \<not> over_limit m"

text \<open>Operations on locks touch nothing else.\<close>

definition lock_only :: "rollback_manager \<Rightarrow> rollback_manager \<Rightarrow> bool" where
  "lock_only m n \<longleftrightarrow> (\<exists>h k. n = m\<lparr>rk_lock_heap := h, rk_locks := k\<rparr>)"

lemma lock_only_ops:
  "lock_only m (fst (join_lock targ m))" "take_lock l m = Some n \<Longrightarrow> lock_only m n"
  "lock_only m (drop_token l m)" "lock_only m (leave_lock targ l m)"
proof -
  have upd: "lock_only m (m\<lparr>rk_lock_heap := h\<rparr>)" for h
    unfolding lock_only_def by (intro exI [of _ h] exI [of _ "rk_locks m"]) simp
  show "lock_only m (drop_token l m)" by (simp add: drop_token_def set_lock_def upd)
  show "take_lock l m = Some n \<Longrightarrow> lock_only m n"
    by (auto simp: take_lock_def Let_def set_lock_def upd split: if_splits)
  show "lock_only m (leave_lock targ l m)"
  proof (cases "lk_users (rk_lock_heap m ! l) = 1")
    case True
    then show ?thesis by (auto simp: leave_lock_def Let_def set_lock_def lock_only_def)
  qed (simp add: leave_lock_def Let_def set_lock_def upd)
  show "lock_only m (fst (join_lock targ m))"
  proof (cases "map_of (rk_locks m) targ")
    case None
    then show ?thesis by (auto simp: join_lock_def Let_def lock_only_def)
  qed (simp add: join_lock_def Let_def set_lock_def upd)
qed

lemma lock_only_frame:
  assumes "lock_only m n"
  shows "rk_heap n = rk_heap m" "rk_scopes n = rk_scopes m" "rk_records n = rk_records m" "rk_next n = rk_next m"
    "rk_bytes n = rk_bytes m" "rk_max_bytes n = rk_max_bytes m" "rk_max_records n = rk_max_records m"
    "scope_files s n = scope_files s m" "scope_binding s n = scope_binding s m"
  using assms by (auto simp: lock_only_def scope_files_def scope_binding_def)

lemma lock_only_ok:
  assumes "lock_only m n"
  shows "manager_ok n \<longleftrightarrow> manager_ok m"
proof -
  note F = lock_only_frame [OF assms]
  have "filed n = filed m" by (rule ext) (simp add: filed_def live_scope_def F)
  then show ?thesis unfolding manager_ok_def books_def sane_limits_def over_limit_def F by simp
qed

lemma manager_remove:
  assumes "manager_ok m" "map_of (rk_records m) (rr_id r) = Some r"
  shows "manager_ok (remove_record r m)"
proof -
  note mem = map_of_SomeD [OF assms(2)]
  have b: "books m" using assms(1) by (simp add: manager_ok_def)
  have "rk_bytes (remove_record r m) \<le> rk_bytes m" "length (rk_records (remove_record r m)) \<le> length (rk_records m)"
    by (simp_all add: length_delete_le)
  with books_remove [OF b mem] assms(1) show ?thesis by (auto simp: manager_ok_def over_limit_def sane_limits_def)
qed

lemma record_bytes_filter: "record_bytes (filter P rs) \<le> record_bytes rs"
  by (induction rs) auto

lemma manager_forget: "manager_ok m \<Longrightarrow> manager_ok (forget_scope b m)"
proof (cases "map_of (rk_scopes m) b")
  case (Some s)
  assume m: "manager_ok m"
  then have b: "books m" by (simp add: manager_ok_def)
  note f = forget_books [OF b Some]
  have "rk_bytes (forget_scope b m) \<le> rk_bytes m"
    using booksD(7) [OF b] booksD(7) [OF conjunct1 [OF f]] f record_bytes_filter by metis
  moreover have "length (rk_records (forget_scope b m)) \<le> length (rk_records m)"
    using f by (metis length_filter_le)
  ultimately have "\<not> over_limit (forget_scope b m)"
    using m unfolding manager_ok_def over_limit_def forget_simps [of b m, THEN conjunct2, THEN conjunct2, THEN conjunct1]
      forget_simps [of b m, THEN conjunct2, THEN conjunct2, THEN conjunct2, THEN conjunct1] by linarith
  then show ?thesis using f m by (simp add: manager_ok_def sane_limits_def)
qed (simp add: forget_none)

lemma manager_reclaim: "manager_ok m \<Longrightarrow> manager_ok (reclaim valid m scs)"
  by (induction scs arbitrary: m) (auto simp: manager_forget)

lemma manager_open: "manager_ok m \<Longrightarrow> manager_ok (fst (open_lease valid binding m))"
proof -
  assume m: "manager_ok m"
  then have "books (fst (open_lease valid binding m))" by (simp add: manager_ok_def open_lease_books)
  moreover note manager_reclaim [OF m, of valid "rk_scopes m"]
  ultimately show ?thesis using m
    by (auto simp: manager_ok_def open_lease_def Let_def over_limit_def sane_limits_def split: option.splits)
qed

lemma manager_publish:
  assumes "manager_ok m" "s < length (rk_heap m)"
  shows "\<exists>n p. publish_record valid s path targ now mode f r m = Some (n, p) \<and> manager_ok n"
proof (cases "lease_valid valid s m")
  case True
  with assms publish_outcome [of m valid s _ targ _ path now mode f r] drop_previous_books [of m s targ] show ?thesis
    by (fastforce simp: manager_ok_def sane_limits_def same_frame_def)
qed (use assms in \<open>simp add: publish_record_def\<close>)

text \<open>Scopes are only added.\<close>

lemma heap_grows:
  "length (rk_heap m) \<le> length (rk_heap (fst (open_lease valid binding m)))"
  "length (rk_heap (forget_scope b m)) = length (rk_heap m)"
  "length (rk_heap (remove_record r m)) = length (rk_heap m)"
  by (auto simp: open_lease_def Let_def split: option.splits)

lemma publish_heap:
  assumes "manager_ok m" "s < length (rk_heap m)" "publish_record valid s path targ now mode f r m = Some (n, p)"
  shows "length (rk_heap n) = length (rk_heap m) \<and> rk_locks n = rk_locks m \<and> rk_lock_heap n = rk_lock_heap m"
proof (cases "lease_valid valid s m")
  case True
  with assms publish_outcome [of m valid s _ targ _ path now mode f r, OF _ _ _ _ refl refl] drop_previous_books [of m s targ]
  show ?thesis by (fastforce simp: manager_ok_def same_frame_def)
qed (use assms in \<open>simp add: publish_record_def\<close>)

section \<open>Moves\<close>

text \<open>The stages that change the world, and the rest.\<close>

lemma work_stage_read:
  "(\<And>d n. st \<noteq> Checked d n) \<Longrightarrow> (\<And>f r mode. st \<noteq> Wrote f r mode) \<Longrightarrow>
    work_stage K W ch w t targ st = (w, read_stage K W ch w t targ st)"
  by (cases st) (auto simp: work_stage_def split: file_draft.splits)

lemma commit_rollback_done:
  assumes "commit_rollback ch w lease r link = (w', x)"
  shows "(w' = w \<and> (\<exists>e. x = Quit e)) \<or>
    (\<exists>s D. lease = Some s \<and> lease_valid (fw_valid w) s (fw_manager w) \<and> map_of (rk_records (fw_manager w)) (rr_id r) = Some r \<and>
      (if ri_created (rr_info r) then remove_file (fw_disk w) (rr_target r) = Some D
       else write_draft (fw_disk w) (rr_target r) (rr_before r) (rr_mode r) link (ch_stamp ch) = Some D) \<and>
      w' = w\<lparr>fw_disk := D, fw_manager := remove_record r (fw_manager w)\<rparr> \<and>
      x = Finish (RolledBack (ri_path (rr_info r)) (ri_created (rr_info r)) (if ri_created (rr_info r) then [] else ri_before (rr_info r))))"
proof (cases lease)
  case None
  then show ?thesis using assms by (auto simp: commit_rollback_def Let_def)
next
  case (Some s)
  let ?out = "if ri_created (rr_info r) then (if ch_stamp ch = None then None else remove_file (fw_disk w) (rr_target r))
    else write_draft (fw_disk w) (rr_target r) (rr_before r) (rr_mode r) link (ch_stamp ch)"
  show ?thesis
  proof (cases "lease_valid (fw_valid w) s (fw_manager w) \<and> map_of (rk_records (fw_manager w)) (rr_id r) = Some r \<and> \<not> ch_ended ch")
    case True
    then have "(w', x) = (case ?out of None \<Rightarrow> (w, Quit OpSystem)
      | Some D \<Rightarrow> (w\<lparr>fw_disk := D, fw_manager := remove_record r (fw_manager w)\<rparr>,
         Finish (RolledBack (ri_path (rr_info r)) (ri_created (rr_info r)) (if ri_created (rr_info r) then [] else ri_before (rr_info r)))))"
      using assms Some by (simp add: commit_rollback_def Let_def)
    then show ?thesis using True Some by (cases ?out) (auto split: if_splits)
  qed (use assms Some in \<open>auto simp: commit_rollback_def Let_def split: if_splits\<close>)
qed

lemma set_phase_simps [simp]:
  "fw_manager (set_phase i ph w) = fw_manager w" "fw_disk (set_phase i ph w) = fw_disk w" "fw_valid (set_phase i ph w) = fw_valid w"
  "fw_panic (set_phase i ph w) = fw_panic w" "fw_tasks (set_phase i ph w) = (fw_tasks w)[i := (fw_tasks w ! i)\<lparr>ft_phase := ph\<rparr>]"
  by (simp_all add: set_phase_def)

lemma work_stage_frame:
  assumes "work_stage K W ch w t targ st = (w', x)"
  shows "fw_tasks w' = fw_tasks w \<and> fw_valid w' = fw_valid w"
proof (cases "\<exists>d n. st = Checked d n")
  case True
  then obtain d n where st: "st = Checked d n" by auto
  show ?thesis
  proof (cases d)
    case (EditDraft f r mode link)
    with assms st show ?thesis by (auto simp: work_stage_def split: prod.splits)
  next
    case (RollbackDraft r link)
    with assms st commit_rollback_done show ?thesis by (fastforce simp: work_stage_def)
  qed
next
  case False
  show ?thesis
  proof (cases "\<exists>f r mode. st = Wrote f r mode")
    case True
    with assms show ?thesis by (auto simp: work_stage_def publish_edit_def split: option.splits)
  next
    case False
    then have "work_stage K W ch w t targ st = (w, read_stage K W ch w t targ st)"
      using \<open>\<nexists>d n. st = Checked d n\<close> by (intro work_stage_read) auto
    with assms show ?thesis by simp
  qed
qed

text \<open>The manager after a stage.\<close>

lemma work_stage_manager:
  assumes "work_stage K W ch w t targ st = (w', x)" "manager_ok (fw_manager w)" "known_lease w (ft_lease t)"
  shows "manager_ok (fw_manager w') \<and> fw_panic w' = fw_panic w \<and> length (rk_heap (fw_manager w')) = length (rk_heap (fw_manager w)) \<and>
    rk_locks (fw_manager w') = rk_locks (fw_manager w) \<and> rk_lock_heap (fw_manager w') = rk_lock_heap (fw_manager w)"
proof (cases "\<exists>d n. st = Checked d n")
  case True
  then obtain d n where st: "st = Checked d n" by auto
  show ?thesis
  proof (cases d)
    case (EditDraft f r mode link)
    with assms st show ?thesis by (auto simp: work_stage_def split: prod.splits)
  next
    case (RollbackDraft r link)
    then have "commit_rollback ch w (ft_lease t) r link = (w', x)" using assms(1) st by (simp add: work_stage_def)
    from commit_rollback_done [OF this] show ?thesis using assms(2) manager_remove by auto
  qed
next
  case False
  show ?thesis
  proof (cases "\<exists>f r mode. st = Wrote f r mode")
    case True
    then obtain f r mode where pub: "publish_edit ch w t targ f r mode = (w', x)" using assms(1) by (auto simp: work_stage_def)
    show ?thesis
    proof (cases "ft_lease t")
      case (Some s)
      then have s: "s < length (rk_heap (fw_manager w))" using assms(3) by (simp add: known_lease_def)
      from manager_publish [OF assms(2) s] obtain n p where n: "manager_ok n"
        "publish_record (fw_valid w) s (ft_path t) targ (ch_now ch) mode f r (fw_manager w) = Some (n, p)" by metis
      with publish_heap [OF assms(2) s n(2)] pub Some show ?thesis by (auto simp: publish_edit_def)
    qed (use pub assms(2) in \<open>simp add: publish_edit_def\<close>)
  next
    case False
    then have "work_stage K W ch w t targ st = (w, read_stage K W ch w t targ st)"
      using \<open>\<nexists>d n. st = Checked d n\<close> by (intro work_stage_read) auto
    with assms show ?thesis by simp
  qed
qed


section \<open>Every reachable world\<close>

definition world_ok :: "file_world \<Rightarrow> bool" where
  "world_ok w \<longleftrightarrow> manager_ok (fw_manager w) \<and> \<not> fw_panic w \<and> locks_ok (fw_manager w) (fw_tasks w) \<and>
     (\<forall>t \<in> set (fw_tasks w). known_lease w (ft_lease t))"

text \<open>What a move does to its task, to the manager and to the heap of scopes.\<close>

lemma world_okI:
  assumes "world_ok w" "i < length (fw_tasks w)" "manager_ok (fw_manager w')" "\<not> fw_panic w'"
    "locks_ok (fw_manager w') (fw_tasks w')" "length (rk_heap (fw_manager w')) = length (rk_heap (fw_manager w))"
    "fw_tasks w' = (fw_tasks w)[i := t]" "ft_lease t = ft_lease (fw_tasks w ! i)"
  shows "world_ok w'"
proof -
  have "known_lease w' (ft_lease x)" if "x \<in> set (fw_tasks w')" for x
  proof -
    from that assms(2,7,8) have "\<exists>y \<in> set (fw_tasks w). ft_lease x = ft_lease y"
      using set_update_subset_insert [of "fw_tasks w" i t] by (metis insertE nth_mem subsetD)
    with assms(1,6) show ?thesis by (auto simp: world_ok_def known_lease_def split: option.splits)
  qed
  with assms show ?thesis by (simp add: world_ok_def)
qed

lemma begin_task_ok:
  assumes "world_ok w" "i < length (fw_tasks w)" "ft_phase (fw_tasks w ! i) = Ready"
  shows "world_ok (begin_task W ch i w)"
proof (cases "start_task W ch w (fw_tasks w ! i)")
  case (Inl e)
  have "locks_ok (fw_manager w) ((fw_tasks w)[i := (fw_tasks w ! i)\<lparr>ft_phase := Ended (Failed e)\<rparr>])"
    using assms by (intro locks_same_entry) (simp_all add: world_ok_def)
  with Inl assms show ?thesis
    by (intro world_okI [OF assms(1,2), where t = "(fw_tasks w ! i)\<lparr>ft_phase := Ended (Failed e)\<rparr>"])
      (simp_all add: begin_task_def world_ok_def)
next
  case (Inr x)
  obtain p targ where x: "x = (p, targ)" by fastforce
  obtain m l where j: "join_lock targ (fw_manager w) = (m, l)" by fastforce
  then have lo: "lock_only (fw_manager w) m" using lock_only_ops(1) [of "fw_manager w" targ] by simp
  have "locks_ok m ((fw_tasks w)[i := (fw_tasks w ! i)\<lparr>ft_path := p, ft_phase := Waiting targ l\<rparr>])"
    using assms j by (intro join_locks) (simp_all add: world_ok_def)
  moreover have "manager_ok m" using assms(1) lock_only_ok [OF lo] by (simp add: world_ok_def)
  ultimately show ?thesis using Inr x j assms(1) lock_only_frame(1) [OF lo]
    by (intro world_okI [OF assms(1,2), where t = "(fw_tasks w ! i)\<lparr>ft_path := p, ft_phase := Waiting targ l\<rparr>"])
      (simp_all add: begin_task_def world_ok_def)
qed

lemma lock_move_ok:
  assumes "world_ok w" "i < length (fw_tasks w)" "lock_only (fw_manager w) m"
    and "locks_ok m ((fw_tasks w)[i := (fw_tasks w ! i)\<lparr>ft_phase := ph\<rparr>])"
  shows "world_ok (set_phase i ph (w\<lparr>fw_manager := m\<rparr>))"
  using assms(1,4) lock_only_ok [OF assms(3)] lock_only_frame(1) [OF assms(3)]
  by (intro world_okI [OF assms(1,2), where t = "(fw_tasks w ! i)\<lparr>ft_phase := ph\<rparr>"]) (simp_all add: world_ok_def)

lemma work_move_ok:
  assumes "world_ok w" "i < length (fw_tasks w)" "ft_phase (fw_tasks w ! i) = Working targ l st"
    and "work_stage K W ch w (fw_tasks w ! i) targ st = (w', x)"
  shows "world_ok (set_phase i (work_phase targ l x) w')"
proof -
  have known: "known_lease w (ft_lease (fw_tasks w ! i))" using assms(1,2) by (simp add: world_ok_def)
  have "manager_ok (fw_manager w)" using assms(1) by (simp add: world_ok_def)
  note M = work_stage_manager [OF assms(4) this known] and F = work_stage_frame [OF assms(4)]
  have "locks_ok (fw_manager w) ((fw_tasks w)[i := (fw_tasks w ! i)\<lparr>ft_phase := work_phase targ l x\<rparr>])"
    using assms(1-3) by (intro locks_same_entry) (simp_all add: world_ok_def work_phase_def split: work_result.splits)
  then have "locks_ok (fw_manager w') ((fw_tasks w)[i := (fw_tasks w ! i)\<lparr>ft_phase := work_phase targ l x\<rparr>])"
    using locks_frame [of "fw_manager w'" "fw_manager w"] M by simp
  with M F assms(1) show ?thesis
    by (intro world_okI [OF assms(1,2), where t = "(fw_tasks w ! i)\<lparr>ft_phase := work_phase targ l x\<rparr>"])
      (simp_all add: world_ok_def)
qed

lemma task_move_ok:
  assumes "world_ok w" "i < length (fw_tasks w)" "task_move K W ch i w = Some w'"
  shows "world_ok w'"
proof (cases "ft_phase (fw_tasks w ! i)")
  case Ready
  then show ?thesis using assms begin_task_ok [OF assms(1,2)] by (auto simp: task_move_def Let_def)
next
  case (Waiting targ l)
  have L: "locks_ok (fw_manager w) (fw_tasks w)" using assms(1) by (simp add: world_ok_def)
  show ?thesis
  proof (cases "ch_ended ch")
    case True
    with Waiting assms L show ?thesis
      using lock_move_ok [OF assms(1,2) lock_only_ops(4) leave_locks [OF L assms(2), of targ l]]
      by (auto simp: task_move_def Let_def)
  next
    case False
    then obtain m where m: "take_lock l (fw_manager w) = Some m" "w' = set_phase i (Working targ l Loading) (w\<lparr>fw_manager := m\<rparr>)"
      using Waiting assms(3) by (auto simp: task_move_def Let_def)
    show ?thesis unfolding m(2)
      by (rule lock_move_ok [OF assms(1,2) lock_only_ops(2) [OF m(1)] take_locks [OF L assms(2) Waiting m(1)]])
  qed
next
  case (Working targ l st)
  then show ?thesis using assms work_move_ok [OF assms(1,2) Working]
    by (auto simp: task_move_def Let_def split: prod.splits)
next
  case (Releasing targ l out)
  have L: "locks_ok (fw_manager w) (fw_tasks w)" using assms(1) by (simp add: world_ok_def)
  show ?thesis using assms(3) Releasing
      lock_move_ok [OF assms(1,2) lock_only_ops(3) drop_locks [OF L assms(2) Releasing]]
    by (auto simp: task_move_def Let_def)
next
  case (Leaving targ l out)
  have L: "locks_ok (fw_manager w) (fw_tasks w)" using assms(1) by (simp add: world_ok_def)
  show ?thesis using assms(3) Leaving
      lock_move_ok [OF assms(1,2) lock_only_ops(4) leave_locks [OF L assms(2), of targ l]]
    by (auto simp: task_move_def Let_def)
qed (use assms in \<open>simp add: task_move_def\<close>)

lemma open_lease_locks:
  "rk_locks (fst (open_lease valid binding m)) = rk_locks m \<and> rk_lock_heap (fst (open_lease valid binding m)) = rk_lock_heap m"
  by (auto simp: open_lease_def Let_def split: option.splits)

lemma known_lease_mono:
  "length (rk_heap (fw_manager w)) \<le> length (rk_heap (fw_manager w')) \<Longrightarrow> known_lease w lease \<Longrightarrow> known_lease w' lease"
  by (auto simp: known_lease_def split: option.splits)

lemma file_step_ok: "file_step K W V w w' \<Longrightarrow> world_ok w \<Longrightarrow> world_ok w'"
proof (induction rule: file_step.induct)
  case (StepTask i ch w w')
  then show ?case using task_move_ok by blast
next
  case (StepBegin w lease j)
  have "locks_ok (fw_manager w) (fw_tasks w @ [\<lparr>ft_job = j, ft_lease = lease, ft_path = [], ft_phase = Ready\<rparr>])"
    using StepBegin(3) by (auto simp: world_ok_def locks_ok_def uses_def holds_def)
  with StepBegin show ?case by (auto simp: world_ok_def intro: known_lease_mono [of w])
next
  case (StepDisk D w)
  then show ?case by (auto simp: world_ok_def intro: known_lease_mono [of w])
next
  case (StepValid w v)
  then show ?case by (auto simp: world_ok_def intro: known_lease_mono [of w])
next
  case (StepOpen w b)
  let ?m = "fst (open_lease (fw_valid w) b (fw_manager w))"
  have "locks_ok ?m (fw_tasks w)" "manager_ok ?m"
    using StepOpen open_lease_locks [of "fw_valid w" b "fw_manager w"] locks_frame [of ?m "fw_manager w"]
      manager_open [of "fw_manager w" "fw_valid w" b] by (simp_all add: world_ok_def)
  with StepOpen known_lease_mono [of w "w\<lparr>fw_manager := ?m\<rparr>"] heap_grows(1) [of "fw_manager w" "fw_valid w" b] show ?case
    by (simp add: world_ok_def)
next
  case (StepForget w b)
  let ?m = "forget_scope b (fw_manager w)"
  have "locks_ok ?m (fw_tasks w)" "manager_ok ?m"
    using StepForget locks_frame [of ?m "fw_manager w"] manager_forget [of "fw_manager w" b] by (simp_all add: world_ok_def)
  with StepForget known_lease_mono [of w "w\<lparr>fw_manager := ?m\<rparr>"] show ?case
    by (simp add: world_ok_def)
qed

lemma start_files_ok: "world_ok (start_world new_rollback_manager D v)"
  by (simp add: world_ok_def start_world_def manager_ok_def new_rollback_manager_def books_def over_limit_def sane_limits_def
      rollback_max_bytes_def rollback_max_records_def locks_ok_def)

lemma file_run_ok: "file_run K W V w \<Longrightarrow> world_ok w"
  by (induction rule: file_run.induct) (auto simp: start_files_ok file_step_ok)

end
