(* ===== verification/File_Service_Props.thy ===== *)
theory File_Service_Props
  imports File_Service File_Edit_Props
begin

text \<open>
  Decoding and encoding are inverse for UTF-8 with and without a byte order mark, and the bytes of an
  edit, read again, are the edited text.
\<close>

lemma bom_lengths [simp]: "length bom_utf8 = 3" "length bom_utf16le = 2" "length bom_utf16be = 2"
  by (simp_all add: bom_utf8_def bom_utf16le_def bom_utf16be_def)

lemma is_utf8_names [simp]: "is_utf8_encoding ''utf-8''" "is_utf8_encoding ''utf-8-bom''"
  by code_simp+

lemma encoding_names [simp]:
  "encoding_name ''utf-8'' = ''utf-8''" "encoding_name ''utf-8-bom'' = ''utf-8-bom''"
  "encoding_name ''auto'' = ''auto''" "encoding_name [] = []"
  by code_simp+

lemma has_prefix_drop: "has_prefix p s \<Longrightarrow> p @ drop (length p) s = s"
  by (metis append_take_drop_id has_prefix_def)

section \<open>Decoding and encoding\<close>

text \<open>What an automatic choice of the encoding decodes, encodes to the same bytes.\<close>

lemma encode_decode_auto:
  assumes "decode_bytes K data requested = Inr (t, name, bom)" "encoding_name requested \<in> {[], ''auto''}"
    and "name \<in> {''utf-8'', ''utf-8-bom''}"
  shows "encode_text K t name bom = Inr data"
proof -
  have auto: "decode_auto K data = Inr (t, name, bom)" using assms(1,2) by (auto simp: decode_bytes_def)
  have named: "decode_with K d n b = Inr (t, name, bom) \<Longrightarrow> name = n" for d n b
    by (auto simp: decode_with_def split: sum.splits option.splits)
  consider "has_prefix bom_utf8 data" "t = drop 3 data" "name = ''utf-8-bom''" "bom = bom_utf8"
    | "t = data" "name = ''utf-8''" "bom = []"
    using auto assms(3) named by (auto simp: decode_auto_def split: if_splits)
  then show ?thesis
    using has_prefix_drop [of bom_utf8 data] by cases (simp_all add: encode_text_def)
qed

lemma decode_encode_utf8:
  assumes "name = ''utf-8'' \<and> bom = [] \<and> \<not> has_prefix bom_utf8 t \<or> name = ''utf-8-bom'' \<and> bom = bom_utf8"
    and "utf8_valid t" "encode_text K t name bom = Inr data"
  shows "decode_bytes K data name = Inr (t, name, bom)"
  using assms by (auto simp: encode_text_def decode_bytes_def decode_utf8_def Let_def)

lemma decoded_bom:
  assumes "decode_bytes K data requested = Inr (t, name, bom)" "name \<in> {''utf-8'', ''utf-8-bom''}"
    and "encoding_name requested \<in> {[], ''auto'', ''utf-8'', ''utf8'', ''utf-8-bom''}"
  shows "name = ''utf-8'' \<and> bom = [] \<or> name = ''utf-8-bom'' \<and> bom = bom_utf8"
proof -
  have named: "decode_with K d n b = Inr (t, name, bom) \<Longrightarrow> name = n" for d n b
    by (auto simp: decode_with_def split: sum.splits option.splits)
  show ?thesis
    using assms named by (auto simp: decode_bytes_def decode_auto_def decode_utf8_def Let_def split: if_splits)
qed

section \<open>Edits\<close>

lemma prepared_result:
  assumes "prepare_file_result K path f c t ctx opts = Inr r"
  shows "encode_text K (restore_line_endings (normalize_edit_text t) (tf_ending f)) (tf_encoding f) (tf_bom f) = Inr (er_bytes r) \<and>
    er_created r = c \<and> er_encoding r = tf_encoding f \<and> er_before r = fc_revision K (tf_bytes f) \<and>
    er_after r = fc_revision K (er_bytes r) \<and> normalize_edit_text t \<noteq> normalize_edit_text (tf_text f) \<and>
    \<not> size_exceeds (eo_max_output opts) (length (er_bytes r))"
proof (cases "normalize_edit_text t = normalize_edit_text (tf_text f)")
  case False
  show ?thesis
  proof (cases "encode_text K (restore_line_endings (normalize_edit_text t) (tf_ending f)) (tf_encoding f) (tf_bom f)")
    case (Inr data)
    with assms False show ?thesis
      by (cases "size_exceeds (eo_max_output opts) (length data)") (auto simp: prepare_file_result_def Let_def)
  qed (use assms False in \<open>simp add: prepare_file_result_def Let_def\<close>)
qed (use assms in \<open>simp add: prepare_file_result_def\<close>)

lemma compute_edit_checked:
  assumes "compute_edit K q None p = Inr (f, r)"
  shows "\<exists>c. read_or_create K (eo_max_input (eq_options q)) p (eq_encoding q) (eq_create q) (trim_space (eq_revision q) \<noteq> []) = Inr (f, c) \<and>
    (\<exists>t. apply_edits (tf_text f) (eq_edits q) = Inr t \<and>
      prepare_file_result K (eq_path q) f c t (eq_context q) (eq_options q) = Inr r)"
proof (cases "read_or_create K (eo_max_input (eq_options q)) p (eq_encoding q) (eq_create q) (trim_space (eq_revision q) \<noteq> [])")
  case (Inl e)
  with assms show ?thesis by (simp add: compute_edit_def Let_def split: if_splits)
next
  case (Inr x)
  obtain g c where x: "x = (g, c)" by fastforce
  show ?thesis
  proof (cases "apply_edits (tf_text g) (eq_edits q)")
    case (Inl e)
    with assms Inr x show ?thesis by (simp add: compute_edit_def Let_def split: if_splits)
  next
    case (Inr t)
    then show ?thesis
      using assms \<open>_ = Inr x\<close> x
      by (cases "prepare_file_result K (eq_path q) g c t (eq_context q) (eq_options q)")
        (simp_all add: compute_edit_def Let_def split: if_splits)
  qed
qed

lemma compute_edit_file:
  assumes "compute_edit K q None p = Inr (f, r)" "apply_edits (tf_text f) (eq_edits q) = Inr t"
  shows "prepare_file_result K (eq_path q) f (er_created r) t (eq_context q) (eq_options q) = Inr r \<and>
    read_or_create K (eo_max_input (eq_options q)) p (eq_encoding q) (eq_create q) (trim_space (eq_revision q) \<noteq> []) = Inr (f, er_created r)"
  using compute_edit_checked [OF assms(1)] assms(2) prepared_result by fastforce

lemma read_file_shape:
  assumes "read_or_create K limit p requested create has = Inr (f, c)"
    and "encoding_name requested \<in> {[], ''auto'', ''utf-8'', ''utf8'', ''utf-8-bom''}"
    and "tf_encoding f \<in> {''utf-8'', ''utf-8-bom''}"
  shows "(tf_encoding f = ''utf-8'' \<and> tf_bom f = [] \<or> tf_encoding f = ''utf-8-bom'' \<and> tf_bom f = bom_utf8) \<and>
    tf_ending f \<in> {[LF], [CR, LF], [CR]}"
proof (cases "read_text_file K limit p requested")
  case (Inl e)
  then have "new_text_file K requested = Inr f"
    using assms(1) by (auto simp: read_or_create_def split: if_splits sum.splits)
  with assms(2) show ?thesis by (auto simp: new_text_file_def Let_def split: if_splits sum.splits)
next
  case (Inr g)
  then have "text_of_bytes K d requested = Inr f" if "p = PathFile d" for d
    using assms(1) that by (auto simp: read_or_create_def read_text_file_def split: if_splits)
  moreover obtain d where "p = PathFile d" using Inr by (cases p) (auto simp: read_text_file_def split: if_splits)
  ultimately obtain t name bom where "decode_bytes K d requested = Inr (t, name, bom)"
    "f = \<lparr>tf_bytes = d, tf_text = t, tf_encoding = name, tf_bom = bom, tf_ending = detect_line_ending t\<rparr>"
    by (auto simp: text_of_bytes_def split: sum.splits if_splits)
  with decoded_bom [of K d requested t name bom] assms(2,3) detect_line_ending_cases [of t] show ?thesis by auto
qed


section \<open>An edit of a small file\<close>

definition demo_codec :: file_codec where
  "demo_codec = \<lparr>fc_known = \<lambda>n. False, fc_decode = \<lambda>n t. None, fc_encode = \<lambda>n t. None, fc_revision = \<lambda>t. t\<rparr>"

definition demo_edit :: edit_request where
  "demo_edit = \<lparr>eq_path = ''/a'', eq_encoding = [], eq_revision = [], eq_create = False, eq_context = 0,
     eq_edits = [sample_edit ''replace_text'' 0 (Some ''b'') ''a'' True],
     eq_options = \<lparr>eo_max_input = 0, eo_max_output = 0, eo_detailed_diff = 1\<rparr>\<rparr>"

definition demo_file :: text_file where
  "demo_file = \<lparr>tf_bytes = ''aa'', tf_text = ''aa'', tf_encoding = ''utf-8'', tf_bom = [], tf_ending = [LF]\<rparr>"

definition demo_result :: edit_result where
  "demo_result = \<lparr>er_created = False, er_encoding = ''utf-8'', er_before = ''aa'', er_after = ''bb'',
     er_diff = edit_diff ''/a'' ''aa'' ''bb'' 2 2 3 1, er_bytes = ''bb''\<rparr>"

lemma demo_applied: "apply_edits ''aa'' (eq_edits demo_edit) = Inr ''bb''"
  by code_simp

lemma demo_valid: "utf8_valid ''aa''"
  by (simp add: utf8_valid_def decode_rune_def)

lemma demo_plain: "has_prefix bom_utf8 ''aa'' = False" "has_prefix bom_utf16le ''aa'' = False" "has_prefix bom_utf16be ''aa'' = False"
  "looks_binary_utf8 ''aa'' = False" "detect_line_ending ''aa'' = [LF]"
  by code_simp+

lemma demo_read: "text_of_bytes demo_codec ''aa'' [] = Inr demo_file"
  using demo_plain demo_valid
  by (simp add: text_of_bytes_def decode_bytes_def decode_auto_def demo_file_def)

lemma demo_normal: "normalize_edit_text ''aa'' = ''aa''" "normalize_edit_text ''bb'' = ''bb''" "restore_line_endings ''bb'' [LF] = ''bb''"
  "normalize_context_lines 0 = 3" "edits_require_revision (eq_edits demo_edit) = False"
  by code_simp+

lemma demo_parts [simp]: "eq_encoding demo_edit = []" "eq_revision demo_edit = []" "eq_create demo_edit = False" "eq_context demo_edit = 0"
  "eq_path demo_edit = ''/a''" "eq_options demo_edit = \<lparr>eo_max_input = 0, eo_max_output = 0, eo_detailed_diff = 1\<rparr>"
  by (simp_all add: demo_edit_def)

lemma demo_computed:
  "compute_edit demo_codec (demo_edit\<lparr>eq_path := ''/a''\<rparr>) None (PathFile ''aa'') = Inr (demo_file, demo_result)"
proof -
  have "read_or_create demo_codec 0 (PathFile ''aa'') [] False False = Inr (demo_file, False)"
    using demo_read by (simp add: read_or_create_def read_text_file_def size_exceeds_def)
  moreover have "prepare_file_result demo_codec ''/a'' demo_file False ''bb'' 0 \<lparr>eo_max_input = 0, eo_max_output = 0, eo_detailed_diff = 1\<rparr> = Inr demo_result"
    using demo_normal by (simp add: prepare_file_result_def Let_def demo_file_def demo_result_def encode_text_def size_exceeds_def demo_codec_def)
  ultimately show ?thesis using demo_applied demo_normal
    by (simp add: compute_edit_def Let_def demo_file_def)
qed

lemma demo_fields [simp]: "er_created demo_result = False" "er_bytes demo_result = ''bb''" "er_before demo_result = ''aa''" "er_after demo_result = ''bb''"
  "tf_bytes demo_file = ''aa''" "tf_encoding demo_file = ''utf-8''" "fc_revision demo_codec d = d"
  by (simp_all add: demo_result_def demo_file_def demo_codec_def)


end
