(* ===== verification/Rollback_Files.thy ===== *)
theory Rollback_Files
  imports Rollback_Run_Laws File_Service_Props
begin

text \<open>
  What a file task knows about the files it handles: the revisions in a result and in a backup are
  those of the bytes, and a draft that was inspected knows the version of the file it will replace.
\<close>

section \<open>Checks of the disk\<close>

definition same_version :: "disk_node \<Rightarrow> disk_node \<Rightarrow> bool" where
  "same_version n m \<longleftrightarrow> nd_inode n = nd_inode m \<and> nd_mtime n = nd_mtime m"

definition version_of :: "(nat \<Rightarrow> nat \<Rightarrow> string) \<Rightarrow> disk_node \<Rightarrow> bool" where
  "version_of V n \<longleftrightarrow> nd_bytes n = V (nd_inode n) (nd_mtime n)"

lemma stat_version: "disk_versions V D \<Longrightarrow> stat_file D p = Inr n \<Longrightarrow> version_of V n"
  by (auto simp: stat_file_def disk_versions_def version_of_def split: option.splits)

lemma same_version_bytes: "version_of V n \<Longrightarrow> version_of V m \<Longrightarrow> same_version n m \<Longrightarrow> nd_bytes n = nd_bytes m"
  by (simp add: version_of_def same_version_def)

lemma read_revision_file:
  "read_revision_bytes D p sz = Inr data \<Longrightarrow> \<exists>n. stat_file D p = Inr n \<and> data = nd_bytes n \<and> length data = sz"
  by (auto simp: read_revision_bytes_def Let_def min_def split: sum.splits if_splits)

lemma inspect_read_file:
  assumes "inspect_read K D p rv sz = Inr m"
  shows "stat_file D p = Inr m \<and> fc_revision K (nd_bytes m) = rv \<and> length (nd_bytes m) = sz"
proof -
  from assms obtain data where "read_revision_bytes D p sz = Inr data" "fc_revision K data = rv" "stat_file D p = Inr m"
    by (auto simp: inspect_read_def split: sum.splits if_splits)
  with read_revision_file [of D p sz data] show ?thesis by auto
qed

lemma inspect_stat_file:
  "inspect_stat D p sz = Inr n \<Longrightarrow> stat_file D p = Inr n \<and> nd_regular n \<and> length (nd_bytes n) = sz"
  by (auto simp: inspect_stat_def split: sum.splits if_splits)

lemma check_state_file:
  "check_file_state D p False (Some m) = None \<Longrightarrow> \<exists>n. stat_file D p = Inr n \<and> nd_regular n \<and> same_version n m \<and>
    length (nd_bytes n) = length (nd_bytes m) \<and> nd_mode n = nd_mode m"
  by (auto simp: check_file_state_def same_version_def split: sum.splits if_splits)

lemma check_state_missing: "check_file_state D p True n = None \<Longrightarrow> lstat_file D p = Some OpNotExist"
  by (auto simp: check_file_state_def split: option.splits op_error.splits)

lemma check_target_file: "check_file_target D p targ create = None \<longleftrightarrow> resolve_file_target D p create = Inr targ"
  by (auto simp: check_file_target_def split: sum.splits if_splits)

lemma check_rollback_file: "check_rollback_target D p targ = None \<longleftrightarrow> resolve_file_target D p False = Inr targ"
  unfolding check_target_file [symmetric] by (auto simp: check_rollback_target_def split: option.splits op_error.splits)

lemma first_error_none: "first_error es = None \<longleftrightarrow> (\<forall>e \<in> set es. e = None)"
  by (induction es rule: first_error.induct) auto

lemma denied_none [simp]: "denied W p = None \<longleftrightarrow> W p"
  by (simp add: denied_def)

section \<open>Results and backups\<close>

definition result_ok :: "file_codec \<Rightarrow> edit_result \<Rightarrow> bool" where
  "result_ok K r \<longleftrightarrow> er_after r = fc_revision K (er_bytes r)"

definition edit_ok :: "file_codec \<Rightarrow> text_file \<Rightarrow> edit_result \<Rightarrow> bool" where
  "edit_ok K f r \<longleftrightarrow> result_ok K r \<and> er_before r = fc_revision K (tf_bytes f)"

definition record_ok :: "file_codec \<Rightarrow> rollback_record \<Rightarrow> bool" where
  "record_ok K r \<longleftrightarrow> ri_before (rr_info r) = fc_revision K (rr_before r) \<and>
     (\<exists>data. length data = rr_after_size r \<and> ri_after (rr_info r) = fc_revision K data)"

definition draft_ok :: "file_codec \<Rightarrow> file_draft \<Rightarrow> bool" where
  "draft_ok K d = (case d of EditDraft f r mode link \<Rightarrow> edit_ok K f r | RollbackDraft r link \<Rightarrow> record_ok K r)"

text \<open>The versions of the file that was found and of the file that was read.\<close>

definition inspected_ok :: "file_codec \<Rightarrow> (nat \<Rightarrow> nat \<Rightarrow> string) \<Rightarrow> file_draft \<Rightarrow> (disk_node \<times> disk_node) option \<Rightarrow> bool" where
  "inspected_ok K V d x = (case x of None \<Rightarrow> draft_created d
     | Some (n, m) \<Rightarrow> \<not> draft_created d \<and> version_of V n \<and> length (nd_bytes n) = draft_size d \<and> version_of V m \<and>
         fc_revision K (nd_bytes m) = draft_revision K d \<and> length (nd_bytes m) = draft_size d)"

definition stage_ok :: "file_codec \<Rightarrow> (nat \<Rightarrow> nat \<Rightarrow> string) \<Rightarrow> file_stage \<Rightarrow> bool" where
  "stage_ok K V st = (case st of
     Loading \<Rightarrow> True | Found r \<Rightarrow> record_ok K r | Sized r \<Rightarrow> record_ok K r | Loaded r current \<Rightarrow> record_ok K r
   | Computed f r \<Rightarrow> edit_ok K f r | Drafted d \<Rightarrow> draft_ok K d
   | Stated d n \<Rightarrow> draft_ok K d \<and> \<not> draft_created d \<and> version_of V n \<and> length (nd_bytes n) = draft_size d
   | Reread d n m \<Rightarrow> draft_ok K d \<and> inspected_ok K V d (Some (n, m))
   | Inspected d x \<Rightarrow> draft_ok K d \<and> inspected_ok K V d x
   | Checked d x \<Rightarrow> draft_ok K d \<and> inspected_ok K V d x
   | Wrote f r mode \<Rightarrow> edit_ok K f r)"

definition outcome_ok :: "file_codec \<Rightarrow> file_outcome \<Rightarrow> bool" where
  "outcome_ok K out = (case out of Prepared targ r \<Rightarrow> result_ok K r | _ \<Rightarrow> True)"

definition phase_ok :: "file_codec \<Rightarrow> (nat \<Rightarrow> nat \<Rightarrow> string) \<Rightarrow> job_phase \<Rightarrow> bool" where
  "phase_ok K V ph = (case ph of Working targ l st \<Rightarrow> stage_ok K V st | Releasing targ l out \<Rightarrow> outcome_ok K out
     | Leaving targ l out \<Rightarrow> outcome_ok K out | Ended out \<Rightarrow> outcome_ok K out | _ \<Rightarrow> True)"

definition work_ok :: "file_codec \<Rightarrow> (nat \<Rightarrow> nat \<Rightarrow> string) \<Rightarrow> work_result \<Rightarrow> bool" where
  "work_ok K V x = (case x of Next st \<Rightarrow> stage_ok K V st | Quit e \<Rightarrow> True | Finish out \<Rightarrow> outcome_ok K out)"

lemma work_ok_simps [simp]:
  "work_ok K V (Quit e)" "work_ok K V (Next st) = stage_ok K V st" "work_ok K V (Finish out) = outcome_ok K out"
  by (simp_all add: work_ok_def)

lemma stage_ok_simps [simp]:
  "stage_ok K V Loading" "stage_ok K V (Found r) = record_ok K r" "stage_ok K V (Sized r) = record_ok K r"
  "stage_ok K V (Loaded r c) = record_ok K r" "stage_ok K V (Computed f q) = edit_ok K f q" "stage_ok K V (Drafted d) = draft_ok K d"
  "stage_ok K V (Inspected d x) \<longleftrightarrow> draft_ok K d \<and> inspected_ok K V d x" "stage_ok K V (Checked d x) \<longleftrightarrow> draft_ok K d \<and> inspected_ok K V d x"
  "stage_ok K V (Reread d n m) \<longleftrightarrow> draft_ok K d \<and> inspected_ok K V d (Some (n, m))" "stage_ok K V (Wrote f q mode) = edit_ok K f q"
  by (simp_all add: stage_ok_def)

lemma outcome_ok_simps [simp]:
  "outcome_ok K (Failed e)" "outcome_ok K (Edited r p)" "outcome_ok K (Prepared t r) = result_ok K r"
  "outcome_ok K (RolledBack a d b)" "outcome_ok K (Previewed i s)"
  by (simp_all add: outcome_ok_def)

lemma phase_ok_simps [simp]:
  "phase_ok K V Ready" "phase_ok K V (Waiting t l)" "phase_ok K V (Working t l st) = stage_ok K V st"
  "phase_ok K V (Releasing t l out) = outcome_ok K out" "phase_ok K V (Leaving t l out) = outcome_ok K out"
  "phase_ok K V (Ended out) = outcome_ok K out"
  by (simp_all add: phase_ok_def)

section \<open>Reading\<close>

lemma compute_prepared:
  "compute_edit K q (Some r0) p = Inr (f, r) \<Longrightarrow> r = r0 \<and> er_before r = fc_revision K (tf_bytes f)"
  by (auto simp: compute_edit_def Let_def split: if_splits sum.splits)

lemma compute_result_ok:
  assumes "compute_result K D path q prepared = Inr (f, r)" "\<And>p. prepared = Some p \<Longrightarrow> result_ok K p"
  shows "edit_ok K f r"
proof -
  have c: "compute_edit K (q\<lparr>eq_path := path\<rparr>) prepared (path_at D path) = Inr (f, r)"
    using assms(1) by (auto simp: compute_result_def split: sum.splits)
  show ?thesis
  proof (cases prepared)
    case None
    then obtain ca t where "prepare_file_result K path f ca t (eq_context q) (eq_options q) = Inr r"
      using compute_edit_checked [OF c [unfolded None]] by auto
    from prepared_result [OF this] show ?thesis by (simp add: edit_ok_def result_ok_def)
  next
    case (Some p)
    with compute_prepared [OF c [unfolded Some]] assms(2) show ?thesis by (auto simp: edit_ok_def)
  qed
qed

lemma prepared_file_ok:
  assumes "prepare_file_edit K ended D q validate = Inr p"
  shows "result_ok K (pf_result p)"
proof -
  from assms obtain q' f where "compute_result K D (eq_path q) q' None = Inr (f, pf_result p)"
    by (fastforce simp: prepare_file_edit_def with_target_def Let_def sum_or_def split: if_splits sum.splits option.splits prod.splits)
  from compute_result_ok [OF this] show ?thesis by (simp add: edit_ok_def)
qed

definition job_ok :: "file_codec \<Rightarrow> file_job \<Rightarrow> bool" where
  "job_ok K j = (case j of EditJob q (Some r) \<Rightarrow> result_ok K r | _ \<Rightarrow> True)"

definition manager_known :: "file_codec \<Rightarrow> rollback_manager \<Rightarrow> bool" where
  "manager_known K m \<longleftrightarrow> (\<forall>(i, r) \<in> set (rk_records m). record_ok K r)"

lemma find_record_known:
  assumes "books m" "s < length (rk_heap m)" "find_record valid s path targ i m = Inr r"
  shows "(rr_id r, r) \<in> set (rk_records m) \<and> rr_target r = targ \<and> rr_scope r = s"
proof -
  have "map_of (scope_files s m) targ = Some r"
    using assms(3) by (auto simp: find_record_def split: if_splits option.splits)
  from booksD(6) [OF assms(1,2) map_of_SomeD [OF this]] show ?thesis by auto
qed

lemma read_stage_ok:
  assumes "stage_ok K V st" "disk_versions V (fw_disk w)" "job_ok K (ft_job t)" "manager_known K (fw_manager w)"
    "books (fw_manager w)" "known_lease w (ft_lease t)"
  shows "work_ok K V (read_stage K W ch w t targ st)"
proof (cases st)
  case Loading
  have load: "work_ok K V (load_backup w (ft_lease t) path targ i)" for path i
    using assms(4-6) find_record_known [OF assms(5)]
    by (cases "ft_lease t") (fastforce simp: load_backup_def sum_or_def known_lease_def manager_known_def split: sum.splits)+
  show ?thesis
  proof (cases "ft_job t")
    case (EditJob q p)
    have "\<And>r. p = Some r \<Longrightarrow> result_ok K r" using assms(3) EditJob by (simp add: job_ok_def)
    from compute_result_ok [OF _ this] show ?thesis
      using Loading EditJob by (auto simp: read_stage_def sum_or_def split: sum.splits)
  next
    case (PrepareJob q)
    have "work_ok K V (prepare_edit K ch (fw_disk w) path targ q)" for path
      using prepared_file_ok by (auto simp: prepare_edit_def sum_or_def split: sum.splits)
    then show ?thesis using Loading PrepareJob by (simp add: read_stage_def Let_def)
  qed (use Loading load in \<open>simp_all add: read_stage_def Let_def\<close>)
next
  case (Found r)
  with assms(1) show ?thesis
    by (auto simp: read_stage_def size_backup_def Let_def split: option.splits sum.splits)
next
  case (Sized r)
  with assms(1) show ?thesis by (auto simp: read_stage_def read_backup_def split: sum.splits)
next
  case (Loaded r c)
  with assms(1) show ?thesis
    by (simp add: read_stage_def Let_def draft_rollback_def draft_ok_def split: file_job.splits)
next
  case (Computed f r)
  with assms(1) show ?thesis by (simp add: read_stage_def Let_def draft_edit_def draft_ok_def split: sum.splits)
next
  case (Drafted d)
  let ?D = "fw_disk w" and ?p = "draft_path (ft_path t) d"
  have x: "read_stage K W ch w t targ st = inspect_draft ?D (ft_path t) d" using Drafted by (simp add: read_stage_def Let_def)
  have d: "draft_ok K d" using assms(1) Drafted by simp
  show ?thesis unfolding x
  proof (cases "draft_created d")
    case True
    with d show "work_ok K V (inspect_draft ?D (ft_path t) d)"
      by (simp add: inspect_draft_def next_or_quit_def inspected_ok_def split: option.splits)
  next
    case False
    show "work_ok K V (inspect_draft ?D (ft_path t) d)"
    proof (cases "inspect_stat ?D ?p (draft_size d)")
      case (Inr n)
      with inspect_stat_file [OF Inr] stat_version [OF assms(2), of ?p n] False d show ?thesis
        by (simp add: inspect_draft_def sum_or_def stage_ok_def)
    qed (use False in \<open>simp add: inspect_draft_def sum_or_def\<close>)
  qed
next
  case (Stated d n)
  let ?p = "draft_path (ft_path t) d"
  show ?thesis
  proof (cases "inspect_read K (fw_disk w) ?p (draft_revision K d) (draft_size d)")
    case (Inr m)
    with inspect_read_file [OF Inr] stat_version [OF assms(2), of ?p m] assms(1) Stated show ?thesis
      by (simp add: read_stage_def Let_def sum_or_def inspected_ok_def stage_ok_def)
  qed (use Stated in \<open>simp add: read_stage_def Let_def sum_or_def\<close>)
next
  case (Reread d n m)
  with assms(1) show ?thesis by (simp add: read_stage_def next_or_quit_def split: option.splits)
next
  case (Inspected d x)
  with assms(1) show ?thesis by (simp add: read_stage_def next_or_quit_def split: option.splits)
qed (simp_all add: read_stage_def)


section \<open>Every reachable world\<close>

definition files_ok :: "file_codec \<Rightarrow> (nat \<Rightarrow> nat \<Rightarrow> string) \<Rightarrow> file_world \<Rightarrow> bool" where
  "files_ok K V w \<longleftrightarrow> disk_versions V (fw_disk w) \<and> manager_known K (fw_manager w) \<and>
     (\<forall>t \<in> set (fw_tasks w). phase_ok K V (ft_phase t) \<and> job_ok K (ft_job t))"

lemma known_subset: "manager_known K m \<Longrightarrow> set (rk_records n) \<subseteq> set (rk_records m) \<Longrightarrow> manager_known K n"
  by (auto simp: manager_known_def)

lemma known_forget: "manager_known K m \<Longrightarrow> manager_known K (forget_scope b m)"
  by (cases "map_of (rk_scopes m) b") (auto simp: forget_none forget_some manager_known_def)

lemma known_open: "manager_known K m \<Longrightarrow> manager_known K (fst (open_lease valid binding m))"
proof -
  assume m: "manager_known K m"
  have "manager_known K (reclaim valid m scs)" for scs
    using m by (induction scs arbitrary: m) (auto simp: known_forget)
  with m show ?thesis by (auto simp: open_lease_def Let_def manager_known_def split: option.splits)
qed

lemma known_publish:
  assumes "manager_known K m" "manager_ok m" "s < length (rk_heap m)" "edit_ok K f r"
    and "publish_record valid s path targ now mode f r m = Some (n, p)"
  shows "manager_known K n"
proof (cases "lease_valid valid s m")
  case True
  define m1 where "m1 = drop_previous s targ m"
  define b where "b = backup_of (Suc (rk_next m)) s path targ now mode f r"
  have m: "books m" "sane_limits m" using assms(2) by (simp_all add: manager_ok_def)
  from publish_outcome [OF m True assms(3) m1_def b_def] obtain n' k c where
    "publish_record valid s path targ now mode f r m = Some (n', k)" "rk_records n' = since c (insert_record b m1)"
    "rk_records (insert_record b m1) = rk_records m1 @ [(rr_id b, b)]" by blast
  with assms(5) have "set (rk_records n) \<subseteq> set (rk_records m1 @ [(rr_id b, b)])" unfolding since_def by auto
  moreover have "manager_known K m1"
    using assms(1) drop_previous_books [OF m(1) assms(3), of targ] by (auto simp: manager_known_def m1_def)
  moreover have "record_ok K b" using assms(4) by (auto simp: b_def backup_of_def record_ok_def edit_ok_def result_ok_def)
  ultimately show ?thesis by (auto simp: manager_known_def)
qed (use assms in \<open>simp add: publish_record_def\<close>)

lemma work_stage_ok:
  assumes "work_stage K W ch w t targ st = (w', x)" "files_ok K V w" "world_ok w" "t \<in> set (fw_tasks w)" "stage_ok K V st"
  shows "manager_known K (fw_manager w') \<and> work_ok K V x"
proof -
  have m: "manager_known K (fw_manager w)" "manager_ok (fw_manager w)" "books (fw_manager w)" "known_lease w (ft_lease t)"
    using assms(2-4) by (auto simp: files_ok_def world_ok_def manager_ok_def)
  consider (edit) f r mode link n where "st = Checked (EditDraft f r mode link) n" | (undo) r link n where "st = Checked (RollbackDraft r link) n"
    | (publish) f r mode where "st = Wrote f r mode" | (read) "work_stage K W ch w t targ st = (w, read_stage K W ch w t targ st)"
    using work_stage_read [of st K W ch w t targ] by (metis file_draft.exhaust)
  then show ?thesis
  proof cases
    case edit
    with assms(1,5) m(1) show ?thesis
      by (auto simp: work_stage_def commit_edit_def draft_ok_def split: option.splits prod.splits)
  next
    case undo
    then have "commit_rollback ch w (ft_lease t) r link = (w', x)" using assms(1) by (simp add: work_stage_def)
    from commit_rollback_done [OF this] m(1) show ?thesis by (auto simp: manager_known_def set_delete)
  next
    case publish
    then have pub: "publish_edit ch w t targ f r mode = (w', x)" using assms(1) by (simp add: work_stage_def)
    show ?thesis
    proof (cases "ft_lease t")
      case (Some s)
      then have s: "s < length (rk_heap (fw_manager w))" using m(4) by (simp add: known_lease_def)
      from manager_publish [OF m(2) s] obtain n p where n:
        "publish_record (fw_valid w) s (ft_path t) targ (ch_now ch) mode f r (fw_manager w) = Some (n, p)" by metis
      with known_publish [OF m(1,2) s _ n] assms(5) publish pub Some show ?thesis by (auto simp: publish_edit_def)
    qed (use pub m(1) in \<open>auto simp: publish_edit_def\<close>)
  next
    case read
    have "job_ok K (ft_job t)" "disk_versions V (fw_disk w)" using assms(2,4) by (auto simp: files_ok_def)
    with read_stage_ok [OF assms(5) _ _ m(1,3,4)] read assms(1) m(1) show ?thesis by simp
  qed
qed

lemma lock_only_known: "lock_only m n \<Longrightarrow> manager_known K n = manager_known K m"
  by (simp add: manager_known_def lock_only_frame)

lemma files_okI:
  assumes "files_ok K V w" "i < length (fw_tasks w)" "disk_versions V (fw_disk w')" "manager_known K (fw_manager w')"
    "fw_tasks w' = (fw_tasks w)[i := t]" "phase_ok K V (ft_phase t)" "ft_job t = ft_job (fw_tasks w ! i)"
  shows "files_ok K V w'"
proof -
  have "phase_ok K V (ft_phase x) \<and> job_ok K (ft_job x)" if "x \<in> set (fw_tasks w')" for x
  proof (cases "x = t")
    case True
    with assms(1,2,6,7) show ?thesis by (simp add: files_ok_def)
  next
    case False
    with that assms(5) set_update_subset_insert [of "fw_tasks w" i t] have "x \<in> set (fw_tasks w)" by auto
    with assms(1) show ?thesis by (simp add: files_ok_def)
  qed
  with assms show ?thesis by (simp add: files_ok_def)
qed

lemma task_move_files:
  assumes "files_ok K V w" "world_ok w" "i < length (fw_tasks w)" "task_move K W ch i w = Some w'" "disk_versions V (fw_disk w')"
  shows "files_ok K V w'"
proof -
  let ?t = "fw_tasks w ! i"
  have known: "manager_known K (fw_manager w)" and ph: "phase_ok K V (ft_phase ?t)" and mem: "?t \<in> set (fw_tasks w)"
    using assms(1,3) by (auto simp: files_ok_def)
  have lock: "files_ok K V (set_phase i ph (w\<lparr>fw_manager := m\<rparr>))" if "lock_only (fw_manager w) m" "phase_ok K V ph" for m ph
    using that known lock_only_known [OF that(1)] assms(1)
    by (intro files_okI [OF assms(1,3), where t = "?t\<lparr>ft_phase := ph\<rparr>"]) (simp_all add: files_ok_def)
  show ?thesis
  proof (cases "ft_phase ?t")
    case Ready
    then have w': "w' = begin_task W ch i w" using assms(4) by (simp add: task_move_def Let_def)
    show ?thesis
    proof (cases "start_task W ch w ?t")
      case (Inl e)
      then show ?thesis using w' known assms(1)
        by (intro files_okI [OF assms(1,3), where t = "?t\<lparr>ft_phase := Ended (Failed e)\<rparr>"]) (simp_all add: begin_task_def files_ok_def)
    next
      case (Inr x)
      obtain p targ where x: "x = (p, targ)" by fastforce
      obtain m l where j: "join_lock targ (fw_manager w) = (m, l)" by fastforce
      have "manager_known K m" using lock_only_known [OF lock_only_ops(1) [of "fw_manager w" targ]] known j by simp
      then show ?thesis using w' Inr x j assms(1)
        by (intro files_okI [OF assms(1,3), where t = "?t\<lparr>ft_path := p, ft_phase := Waiting targ l\<rparr>"])
          (simp_all add: begin_task_def files_ok_def)
    qed
  next
    case (Waiting targ l)
    show ?thesis
    proof (cases "ch_ended ch")
      case True
      then show ?thesis using Waiting assms(4) lock [OF lock_only_ops(4)] by (auto simp: task_move_def Let_def)
    next
      case False
      then obtain m where "take_lock l (fw_manager w) = Some m" "w' = set_phase i (Working targ l Loading) (w\<lparr>fw_manager := m\<rparr>)"
        using Waiting assms(4) by (auto simp: task_move_def Let_def)
      then show ?thesis using lock [OF lock_only_ops(2)] by simp
    qed
  next
    case (Working targ l st)
    obtain w1 x where st: "work_stage K W ch w ?t targ st = (w1, x)" by fastforce
    have "stage_ok K V st" using ph Working by simp
    note S = work_stage_ok [OF st assms(1,2) mem this] and F = work_stage_frame [OF st]
    have w': "w' = set_phase i (work_phase targ l x) w1" using assms(4) Working st by (simp add: task_move_def Let_def)
    have "phase_ok K V (work_phase targ l x)" using S by (auto simp: work_phase_def split: work_result.splits)
    with S F w' assms(5) show ?thesis
      by (intro files_okI [OF assms(1,3), where t = "?t\<lparr>ft_phase := work_phase targ l x\<rparr>"]) simp_all
  next
    case (Releasing targ l out)
    then show ?thesis using assms(4) ph lock [OF lock_only_ops(3)] by (auto simp: task_move_def Let_def)
  next
    case (Leaving targ l out)
    then show ?thesis using assms(4) ph lock [OF lock_only_ops(4)] by (auto simp: task_move_def Let_def)
  qed (use assms(4) in \<open>simp add: task_move_def\<close>)
qed

lemma prepared_phase:
  "(case ph of Ended (Prepared targ p) \<Rightarrow> p = r | _ \<Rightarrow> False) \<longleftrightarrow> (\<exists>targ. ph = Ended (Prepared targ r))"
  by (cases ph) (auto split: file_outcome.splits)

lemma known_job:
  assumes "files_ok K V w" "known_result w j"
  shows "job_ok K j"
proof (cases "\<exists>q r. j = EditJob q (Some r)")
  case True
  then obtain q r where j: "j = EditJob q (Some r)" by auto
  with assms(2) obtain t targ where "t \<in> set (fw_tasks w)" "ft_phase t = Ended (Prepared targ r)"
    by (auto simp: known_result_def list_ex_iff prepared_phase)
  then have "phase_ok K V (Ended (Prepared targ r))" using assms(1) unfolding files_ok_def by metis
  then show ?thesis by (simp add: j job_ok_def)
qed (auto simp: job_ok_def split: file_job.splits option.splits)

lemma file_step_files: "file_step K W V w w' \<Longrightarrow> files_ok K V w \<Longrightarrow> world_ok w \<Longrightarrow> files_ok K V w'"
proof (induction rule: file_step.induct)
  case (StepTask i ch w w')
  then show ?case using task_move_files by blast
next
  case (StepBegin w lease j)
  with known_job show ?case by (auto simp: files_ok_def)
qed (auto simp: files_ok_def known_open known_forget)

lemma file_run_files: "file_run K W V w \<Longrightarrow> files_ok K V w"
proof (induction rule: file_run.induct)
  case (RunStart D v)
  then show ?case by (simp add: files_ok_def start_world_def manager_known_def new_rollback_manager_def)
next
  case (RunStep w w')
  then show ?case using file_step_files file_run_ok by blast
qed

end
