(* ===== verification/Rollback_Demo.thy ===== *)
theory Rollback_Demo
  imports Rollback_Files
begin

text \<open>
  A run for the witnesses: a session edits a file and takes the edit back.  The commands are played by
  the functions of the model, and what they reach is a run.
\<close>

datatype file_command = Move nat chance | Begin file_job "nat option" | Lease "nat option"

definition write_fits :: "(nat \<Rightarrow> nat \<Rightarrow> string) \<Rightarrow> chance \<Rightarrow> file_task \<Rightarrow> bool" where
  "write_fits V ch t = (let fits = (\<lambda>data. case ch_stamp ch of None \<Rightarrow> True | Some s \<Rightarrow> V (fst s) (snd s) = data) in
     case ft_phase t of
       Working targ l (Checked (EditDraft f r mode link) x) \<Rightarrow> \<not> link \<and> fits (er_bytes r)
     | Working targ l (Checked (RollbackDraft r link) x) \<Rightarrow> \<not> link \<and> fits (rr_before r)
     | _ \<Rightarrow> True)"

fun play :: "file_codec \<Rightarrow> (string \<Rightarrow> bool) \<Rightarrow> (nat \<Rightarrow> nat \<Rightarrow> string) \<Rightarrow> file_command list \<Rightarrow> file_world \<Rightarrow> file_world option" where
  "play K W V [] w = Some w"
| "play K W V (Move i ch # cs) w =
     (if i < length (fw_tasks w) \<and> write_fits V ch (fw_tasks w ! i) then
        (case task_move K W ch i w of None \<Rightarrow> None | Some w' \<Rightarrow> play K W V cs w') else None)"
| "play K W V (Begin j lease # cs) w =
     (if known_lease w lease \<and> known_result w j then
        play K W V cs (w\<lparr>fw_tasks := fw_tasks w @ [\<lparr>ft_job = j, ft_lease = lease, ft_path = [], ft_phase = Ready\<rparr>]\<rparr>) else None)"
| "play K W V (Lease b # cs) w = play K W V cs (w\<lparr>fw_manager := fst (open_lease (fw_valid w) b (fw_manager w))\<rparr>)"

lemma replace_versions:
  "replace_file D p data mode s = Some D' \<Longrightarrow> disk_versions V D \<Longrightarrow> V (fst s) (snd s) = data \<Longrightarrow> disk_versions V D'"
  by (auto simp: replace_file_def disk_versions_def split: option.splits if_splits)

lemma remove_versions: "remove_file D p = Some D' \<Longrightarrow> disk_versions V D \<Longrightarrow> disk_versions V D'"
  by (auto simp: remove_file_def disk_versions_def split: option.splits if_splits)

lemma write_versions:
  assumes "write_draft D p data mode False stamp = Some D'" "disk_versions V D"
    and "\<And>s. stamp = Some s \<Longrightarrow> V (fst s) (snd s) = data"
  shows "disk_versions V D'"
  using assms replace_versions by (cases stamp) (auto simp: write_draft_def)

lemma work_stage_versions:
  assumes "work_stage K W ch w t targ st = (w', x)" "ft_phase t = Working targ l st" "write_fits V ch t" "disk_versions V (fw_disk w)"
  shows "disk_versions V (fw_disk w')"
proof -
  consider (edit) f r mode link n where "st = Checked (EditDraft f r mode link) n" | (undo) r link n where "st = Checked (RollbackDraft r link) n"
    | (publish) f r mode where "st = Wrote f r mode" | (read) "work_stage K W ch w t targ st = (w, read_stage K W ch w t targ st)"
    using work_stage_read [of st K W ch w t targ] by (metis file_draft.exhaust)
  then show ?thesis
  proof cases
    case edit
    then have "\<not> link" "\<And>s. ch_stamp ch = Some s \<Longrightarrow> V (fst s) (snd s) = er_bytes r"
      using assms(2,3) by (simp_all add: write_fits_def)
    with write_versions [of "fw_disk w" "ft_path t" "er_bytes r" mode "ch_stamp ch" _ V] edit assms(1,4) show ?thesis
      by (auto simp: work_stage_def commit_edit_def split: option.splits)
  next
    case undo
    then have fits: "\<not> link" "\<And>s. ch_stamp ch = Some s \<Longrightarrow> V (fst s) (snd s) = rr_before r"
      using assms(2,3) by (simp_all add: write_fits_def)
    from undo have "commit_rollback ch w (ft_lease t) r link = (w', x)" using assms(1) by (simp add: work_stage_def)
    from commit_rollback_done [OF this] show ?thesis
      using fits assms(4) write_versions [of "fw_disk w" "rr_target r" "rr_before r" "rr_mode r" "ch_stamp ch" _ V]
        remove_versions [of "fw_disk w" "rr_target r"] by (auto split: if_splits)
  next
    case publish
    with assms(1,4) show ?thesis by (auto simp: work_stage_def publish_edit_def split: option.splits)
  qed (use assms in simp)
qed

lemma move_versions:
  assumes "task_move K W ch i w = Some w'" "write_fits V ch (fw_tasks w ! i)" "disk_versions V (fw_disk w)"
  shows "disk_versions V (fw_disk w')"
proof (cases "ft_phase (fw_tasks w ! i)")
  case (Working targ l st)
  obtain w1 x where st: "work_stage K W ch w (fw_tasks w ! i) targ st = (w1, x)" by fastforce
  then have "w' = set_phase i (work_phase targ l x) w1" using assms(1) Working by (simp add: task_move_def Let_def)
  with work_stage_versions [OF st Working assms(2,3)] show ?thesis by simp
qed (use assms(1,3) in \<open>auto simp: task_move_def begin_task_def Let_def split: if_splits sum.splits prod.splits\<close>)

lemma play_run: "file_run K W V w \<Longrightarrow> play K W V cs w = Some w' \<Longrightarrow> file_run K W V w'"
proof (induction K W V cs w arbitrary: w' rule: play.induct)
  case (2 K W V i ch cs w)
  then obtain w1 where w1: "i < length (fw_tasks w)" "write_fits V ch (fw_tasks w ! i)" "task_move K W ch i w = Some w1" "play K W V cs w1 = Some w'"
    by (auto split: if_splits option.splits)
  have "disk_versions V (fw_disk w1)" using move_versions [OF w1(3,2)] file_run_files [OF 2(2)] by (simp add: files_ok_def)
  then have "file_run K W V w1" using RunStep [OF 2(2) StepTask [OF w1(1,3)]] by simp
  with 2(1) w1 show ?case by auto
next
  case (3 K W V j lease cs w)
  then show ?case using RunStep [OF 3(2) StepBegin] by (auto split: if_splits)
next
  case (4 K W V b cs w)
  then show ?case using RunStep [OF 4(2) StepOpen] by auto
qed simp

definition demo_versions :: "nat \<Rightarrow> nat \<Rightarrow> string" where
  "demo_versions i t = (if t = 1 then ''bb'' else ''aa'')"

definition demo_disk :: disk where
  "demo_disk = \<lparr>dk_cwd = Inr ''/'', dk_entry = Some, dk_link = \<lambda>e. None,
     dk_nodes = \<lambda>p. if p = ''/a'' then Some \<lparr>nd_inode = 0, nd_mtime = 0, nd_mode = 1, nd_regular = True, nd_bytes = ''aa''\<rparr> else None\<rparr>"

definition demo_chance :: "nat \<Rightarrow> chance" where
  "demo_chance t = \<lparr>ch_ended = False, ch_admitted = True, ch_prepared = True, ch_stamp = Some (t, t), ch_now = 0\<rparr>"

definition demo_commands :: "file_command list" where
  "demo_commands = Lease (Some 0) # Begin (EditJob demo_edit None) (Some 0) # replicate 12 (Move 0 (demo_chance 1)) @
     Begin (RollbackJob ''/a'' 0) (Some 0) # replicate 9 (Move 1 (demo_chance 2))"

definition demo_world :: "file_world option" where
  "demo_world = play demo_codec (\<lambda>p. True) demo_versions demo_commands (start_world new_rollback_manager demo_disk (\<lambda>b. True))"

definition stage_of :: "file_world \<Rightarrow> nat \<Rightarrow> file_stage option" where
  "stage_of w i = (case ft_phase (fw_tasks w ! i) of Working targ l st \<Rightarrow> Some st | _ \<Rightarrow> None)"

definition demo_start :: file_world where
  "demo_start = start_world new_rollback_manager demo_disk (\<lambda>b. True)"

lemma demo_paths: "abs_path (Inr ''/'') ''/a'' = Inr ''/a''" "clean_path ''/a'' = ''/a''"
  by code_simp+

lemmas demo_defs = start_task_def lease_error_def check_lease_def ended_error_def job_path_def job_create_def rolls_back_def
  resolve_file_target_def eval_links_def stat_file_def lstat_file_def dk_real_def is_link_def path_at_def
  begin_task_def task_move_def set_phase_def work_phase_def write_fits_def
  work_stage_def read_stage_def compute_result_def draft_edit_def inspect_draft_def draft_path_def draft_created_def draft_revision_def draft_size_def
  inspect_stat_def inspect_read_def read_revision_bytes_def check_file_state_def commit_errors_def check_file_target_def denied_def
  next_or_quit_def sum_or_def commit_edit_def write_draft_def replace_file_def publish_edit_def
  load_backup_def find_record_def size_backup_def check_rollback_target_def read_backup_def draft_rollback_def
  join_lock_def take_lock_def drop_token_def leave_lock_def set_lock_def lease_valid_def open_lease_def scope_files_def
  known_lease_def known_result_def

definition demo_opened :: file_world where
  "demo_opened = demo_start\<lparr>fw_manager := new_rollback_manager\<lparr>rk_heap := [\<lparr>sc_binding = 0, sc_files = []\<rparr>], rk_scopes := [(0, 0)]\<rparr>\<rparr>"

lemma demo_open: "play K W V (Lease (Some 0) # cs) demo_start = play K W V cs demo_opened"
  by (simp add: demo_start_def demo_opened_def start_world_def new_rollback_manager_def open_lease_def)

lemma evict_done: "\<not> over_limit m \<Longrightarrow> evict m n = Some (m, n)"
  by (simp add: evict.simps)

definition demo_node :: disk_node where
  "demo_node = \<lparr>nd_inode = 1, nd_mtime = 1, nd_mode = 1, nd_regular = True, nd_bytes = ''bb''\<rparr>"

definition demo_written :: disk where
  "demo_written = demo_disk\<lparr>dk_nodes := (dk_nodes demo_disk)(''/a'' \<mapsto> demo_node)\<rparr>"

definition demo_backup :: rollback_record where
  "demo_backup = backup_of 1 0 ''/a'' ''/a'' 0 1 demo_file demo_result"

definition demo_manager :: "bool \<Rightarrow> rollback_manager" where
  "demo_manager working = new_rollback_manager\<lparr>rk_heap := [\<lparr>sc_binding = 0, sc_files = [(''/a'', demo_backup)]\<rparr>], rk_scopes := [(0, 0)],
     rk_records := [(1, demo_backup)], rk_next := 1, rk_bytes := 2,
     rk_lock_heap := \<lparr>lk_token = False, lk_users = 0\<rparr> # (if working then [\<lparr>lk_token = True, lk_users = 1\<rparr>] else []),
     rk_locks := (if working then [(''/a'', 1)] else [])\<rparr>"

definition demo_edit_task :: file_task where
  "demo_edit_task = \<lparr>ft_job = EditJob demo_edit None, ft_lease = Some 0, ft_path = ''/a'', ft_phase = Ended (Edited demo_result (Some (Published 0 True)))\<rparr>"

definition demo_edited :: file_world where
  "demo_edited = demo_start\<lparr>fw_disk := demo_written, fw_manager := demo_manager False, fw_tasks := [demo_edit_task]\<rparr>"

definition demo_draft :: file_draft where
  "demo_draft = RollbackDraft demo_backup False"

text \<open>The world in which the rollback stands before its last check, and after it.\<close>

definition demo_taking :: "file_stage \<Rightarrow> file_world" where
  "demo_taking st = demo_edited\<lparr>fw_manager := demo_manager True, fw_tasks := [demo_edit_task,
     \<lparr>ft_job = RollbackJob ''/a'' 0, ft_lease = Some 0, ft_path = ''/a'', ft_phase = Working ''/a'' 1 st\<rparr>]\<rparr>"

lemmas demo_world_defs = demo_opened_def demo_start_def start_world_def new_rollback_manager_def demo_disk_def demo_chance_def
  demo_written_def demo_backup_def backup_of_def demo_manager_def demo_edit_task_def demo_edited_def demo_draft_def demo_node_def demo_taking_def

lemma demo_first:
  "play demo_codec (\<lambda>p. True) demo_versions (Begin (EditJob demo_edit None) (Some 0) # replicate 4 (Move 0 (demo_chance 1)) @
      replicate 8 (Move 0 (demo_chance 1)) @ cs) demo_opened =
    play demo_codec (\<lambda>p. True) demo_versions cs demo_edited"
  apply (simp add: numeral_eq_Suc replicate_Suc demo_world_defs demo_defs Let_def demo_paths demo_computed
      demo_versions_def publish_record_def drop_previous_def insert_record_def set_files_def evict_done over_limit_def
      rollback_max_bytes_def rollback_max_records_def)
  done

lemma demo_second:
  "play demo_codec (\<lambda>p. True) demo_versions (Begin (RollbackJob ''/a'' 0) (Some 0) # replicate 9 (Move 1 (demo_chance 2)) @ cs) demo_edited =
    play demo_codec (\<lambda>p. True) demo_versions cs (demo_taking (Inspected demo_draft (Some (demo_node, demo_node))))"
  apply (simp add: numeral_eq_Suc replicate_Suc demo_world_defs demo_defs Let_def demo_paths)
  done

definition demo_checked :: file_stage where
  "demo_checked = Checked demo_draft (Some (demo_node, demo_node))"

definition demo_inspected :: file_stage where
  "demo_inspected = Inspected demo_draft (Some (demo_node, demo_node))"

lemma demo_check: "task_move demo_codec (\<lambda>p. True) (demo_chance 2) 1 (demo_taking demo_inspected) = Some (demo_taking demo_checked)"
  by (simp add: numeral_eq_Suc demo_world_defs demo_defs Let_def demo_paths demo_checked_def demo_inspected_def)

text \<open>A preview of the same file waits for its lock.\<close>

definition demo_waiting :: file_world where
  "demo_waiting = (demo_taking demo_inspected)\<lparr>
     fw_manager := (demo_manager True)\<lparr>rk_lock_heap := [\<lparr>lk_token = False, lk_users = 0\<rparr>, \<lparr>lk_token = True, lk_users = 2\<rparr>]\<rparr>,
     fw_tasks := fw_tasks (demo_taking demo_inspected) @
       [\<lparr>ft_job = PreviewJob ''/a'' 0, ft_lease = Some 0, ft_path = ''/a'', ft_phase = Waiting ''/a'' 1\<rparr>]\<rparr>"

lemma demo_third:
  "play demo_codec (\<lambda>p. True) demo_versions (Begin (PreviewJob ''/a'' 0) (Some 0) # Move 2 (demo_chance 2) # cs) (demo_taking demo_inspected) =
    play demo_codec (\<lambda>p. True) demo_versions cs demo_waiting"
  by (simp add: numeral_eq_Suc demo_waiting_def demo_world_defs demo_defs Let_def demo_paths demo_inspected_def)

section \<open>The worlds are reached\<close>

lemma demo_start_run: "file_run demo_codec (\<lambda>p. True) demo_versions demo_start"
  unfolding demo_start_def by (rule RunStart) (auto simp: disk_versions_def demo_disk_def demo_versions_def split: if_splits)

lemma demo_edited_run: "file_run demo_codec (\<lambda>p. True) demo_versions demo_edited"
  by (rule play_run [OF demo_start_run trans [OF trans [OF demo_open demo_first] play.simps(1)]])

lemma demo_taking_run: "file_run demo_codec (\<lambda>p. True) demo_versions (demo_taking demo_inspected)"
  unfolding demo_inspected_def by (rule play_run [OF demo_edited_run trans [OF demo_second play.simps(1)]])

lemma demo_checked_run: "file_run demo_codec (\<lambda>p. True) demo_versions (demo_taking demo_checked)"
proof -
  have "play demo_codec (\<lambda>p. True) demo_versions [Move 1 (demo_chance 2)] (demo_taking demo_inspected) = Some (demo_taking demo_checked)"
    using demo_check by (simp add: write_fits_def demo_taking_def demo_inspected_def Let_def)
  then show ?thesis by (rule play_run [OF demo_taking_run])
qed

lemma demo_waiting_run: "file_run demo_codec (\<lambda>p. True) demo_versions demo_waiting"
  by (rule play_run [OF demo_taking_run trans [OF demo_third play.simps(1)]])

end
