(* ===== verification/Rollback_Props.thy ===== *)
theory Rollback_Props
  imports Rollback_Demo
begin

text \<open>
  Properties of backups and concurrent file tasks, over every run of edits, previews, rollbacks,
  expiring bindings and changes by other programs.
\<close>

section \<open>Books\<close>

text \<open>
  C6: the books of the backups balance in every reachable world.  The manager never panics; the byte
  count is the sum over the table, and within the limits; every backup in the table is the backup of
  its target in a live scope, under its number, and every backup of a scope is in the table.
\<close>
theorem backups_balanced:
  assumes run: "file_run K W V w" and m: "m = fw_manager w"
  shows "\<not> fw_panic w \<and> rk_bytes m = (\<Sum>(i, r) \<leftarrow> rk_records m. int (length (rr_before r))) \<and>
    rk_bytes m \<le> rk_max_bytes m \<and> int (length (rk_records m)) \<le> rk_max_records m \<and> distinct (map fst (rk_records m)) \<and>
    (\<forall>(i, r) \<in> set (rk_records m). rr_id r = i \<and> live_scope m (rr_scope r) \<and> map_of (scope_files (rr_scope r) m) (rr_target r) = Some r) \<and>
    (\<forall>s < length (rk_heap m). \<forall>(t, r) \<in> set (scope_files s m). rr_target r = t \<and> rr_scope r = s \<and> (rr_id r, r) \<in> set (rk_records m))"
proof -
  have ok: "books m" "\<not> over_limit m" "\<not> fw_panic w"
    using file_run_ok [OF run] by (auto simp: world_ok_def manager_ok_def m)
  show ?thesis
    using booksD [OF ok(1)] ok(2,3) by (fastforce simp: over_limit_def record_bytes_def filed_def)
qed

theorem backups_balanced_witness:
  "\<not> fw_panic demo_edited \<and> rk_records (fw_manager demo_edited) = [(1, demo_backup)] \<and> rk_bytes (fw_manager demo_edited) = 2 \<and>
    int (length (rk_records (fw_manager demo_edited))) \<le> rk_max_records (fw_manager demo_edited)"
  using backups_balanced [OF demo_edited_run refl]
  by (simp add: demo_edited_def demo_manager_def demo_backup_def backup_of_def)

text \<open>
  C37: backups are given up from the oldest on, and no more than needed.  Publishing the backup of an
  edit replaces the backup its scope had of the target; of all backups the manager then keeps those
  from some number on, and no longer such tail is within the limits.  The new backup is available
  exactly if it is within the limits alone.
\<close>
theorem oldest_backups_evicted:
  assumes run: "file_run K W V w" and m: "m = fw_manager w"
    and lease: "lease_valid valid s m" "s < length (rk_heap m)"
    and b: "b = backup_of (Suc (rk_next m)) s path targ now mode f r"
    and published: "publish_record valid s path targ now mode f r m = Some (n, p)"
  shows "\<exists>c k. rk_records n = since c (insert_record b (drop_previous s targ m)) \<and>
    (\<forall>d. within_limits m (since d (insert_record b (drop_previous s targ m))) \<longrightarrow>
      set (since d (insert_record b (drop_previous s targ m))) \<subseteq> set (rk_records n)) \<and>
    k + length (rk_records n) = length (rk_records (insert_record b (drop_previous s targ m))) \<and>
    p = Published k (int (length (tf_bytes f)) \<le> rk_max_bytes m \<and> 1 \<le> rk_max_records m)"
proof -
  have ok: "books m" "sane_limits m" using file_run_ok [OF run] by (auto simp: world_ok_def manager_ok_def m)
  let ?all = "insert_record b (drop_previous s targ m)"
  from publish_outcome [OF ok lease refl b] published obtain k c where out:
    "p = Published k (map_of (rk_records n) (rr_id b) = Some b)" "books n" "\<not> over_limit n" "rk_records n = since c ?all"
    "k + length (rk_records n) = length (rk_records ?all)" "rk_records ?all = rk_records (drop_previous s targ m) @ [(rr_id b, b)]"
    "books ?all" "same_frame ?all n"
    "\<And>d. within_limits m (since d ?all) \<Longrightarrow> set (since d ?all) \<subseteq> set (rk_records n)" by auto
  note D = drop_previous_books [OF ok(1) lease(2), of targ]
  have lim: "rk_max_bytes n = rk_max_bytes m" "rk_max_records n = rk_max_records m"
    using out(8) D by (simp_all add: same_frame_def)
  have own: "rr_id b = Suc (rk_next m)" "rr_before b = tf_bytes f" by (simp_all add: b backup_of_def)
  have "i < rr_id b" if "(i, x) \<in> set (rk_records (drop_previous s targ m))" for i x
    using D booksD(4) [OF ok(1), of i x] that by (auto simp: filed_def own)
  then have last: "since (rr_id b) ?all = [(rr_id b, b)]"
    unfolding since_def out(6) by (fastforce simp: filter_empty_conv)
  have mem: "map_of (rk_records n) (rr_id b) = Some b \<longleftrightarrow> (rr_id b, b) \<in> set (rk_records n)"
    using booksD(1) [OF out(2)] by (simp add: map_of_eq_Some_iff)
  have "(rr_id b, b) \<in> set (rk_records n) \<longleftrightarrow> int (length (tf_bytes f)) \<le> rk_max_bytes m \<and> 1 \<le> rk_max_records m"
  proof
    assume k: "(rr_id b, b) \<in> set (rk_records n)"
    then have "int (length (rr_before b)) \<le> record_bytes (rk_records n)"
      using record_bytes_delete [OF booksD(1) [OF out(2)] k] record_bytes_nonneg [of "AList.delete (rr_id b) (rk_records n)"] by simp
    moreover have "1 \<le> int (length (rk_records n))" using k by (cases "rk_records n") auto
    ultimately show "int (length (tf_bytes f)) \<le> rk_max_bytes m \<and> 1 \<le> rk_max_records m"
      using out(3) booksD(7) [OF out(2)] lim own by (simp add: over_limit_def)
  next
    assume "int (length (tf_bytes f)) \<le> rk_max_bytes m \<and> 1 \<le> rk_max_records m"
    with out(9) [of "rr_id b"] last own show "(rr_id b, b) \<in> set (rk_records n)" by (simp add: within_limits_def)
  qed
  with out mem show ?thesis by (intro exI [of _ c] exI [of _ k]) simp
qed

theorem oldest_backups_evicted_witness:
  "\<exists>n p k. publish_record (\<lambda>b. True) 0 ''/a'' ''/a'' 0 1 demo_file demo_result (fw_manager demo_edited) = Some (n, p) \<and> p = Published k True"
proof -
  let ?m = "fw_manager demo_edited"
  have m: "manager_ok ?m" using file_run_ok [OF demo_edited_run] by (simp add: world_ok_def)
  have s: "0 < length (rk_heap ?m)" "lease_valid (\<lambda>b. True) 0 ?m"
    by (simp_all add: demo_edited_def demo_manager_def lease_valid_def)
  from manager_publish [OF m s(1)] obtain n p where
    n: "publish_record (\<lambda>b. True) 0 ''/a'' ''/a'' 0 1 demo_file demo_result ?m = Some (n, p)" by metis
  have "int (length (tf_bytes demo_file)) \<le> rk_max_bytes ?m \<and> 1 \<le> rk_max_records ?m"
    by (simp add: demo_edited_def demo_manager_def new_rollback_manager_def rollback_max_bytes_def rollback_max_records_def)
  with oldest_backups_evicted [OF demo_edited_run refl s(2,1) refl n] n show ?thesis by auto
qed

section \<open>Locks\<close>

text \<open>
  C38: a target is worked on by one task at a time.  While a task holds the lock of a target, every
  other task at that target shares the lock, does not hold it, and cannot move on while it waits.
\<close>
theorem file_lock_exclusive:
  assumes run: "file_run K W V w"
    and tasks: "i < length (fw_tasks w)" "j < length (fw_tasks w)" "i \<noteq> j"
    and holder: "lock_entry (ft_phase (fw_tasks w ! i)) = Some (targ, l)" "holds_lock (ft_phase (fw_tasks w ! i))"
    and other: "lock_entry (ft_phase (fw_tasks w ! j)) = Some (targ, l')"
  shows "l' = l \<and> lk_token (rk_lock_heap (fw_manager w) ! l) \<and> \<not> holds_lock (ft_phase (fw_tasks w ! j)) \<and>
    (\<forall>ch. \<not> ch_ended ch \<longrightarrow> (\<exists>targ' k. ft_phase (fw_tasks w ! j) = Waiting targ' k) \<longrightarrow> task_move K W ch j w = None)"
proof -
  have L: "locks_ok (fw_manager w) (fw_tasks w)" using file_run_ok [OF run] by (simp add: world_ok_def)
  have mem: "(targ, l) \<in> set (rk_locks (fw_manager w))" "(targ, l') \<in> set (rk_locks (fw_manager w))"
    using locks_okD(4) [OF L nth_mem [OF tasks(1)]] locks_okD(4) [OF L nth_mem [OF tasks(2)]] holder other by simp_all
  then have same: "l' = l" using locks_okD(1) [OF L] by (metis eq_key_imp_eq_value)
  have one: "holds l (fw_tasks w ! i)" using holder by (simp add: holds_def uses_def)
  have token: "of_bool (lk_token (rk_lock_heap (fw_manager w) ! l)) = head_count (holds l) (fw_tasks w)"
    using locks_okD(3) [OF L mem(1)] by simp
  have "\<not> holds l (fw_tasks w ! j)"
    using head_count_two [where P = "holds l", OF tasks one] token by (auto simp: of_bool_def split: if_splits)
  then have "\<not> holds_lock (ft_phase (fw_tasks w ! j))" using other same by (simp add: holds_def uses_def)
  moreover have "lk_token (rk_lock_heap (fw_manager w) ! l)"
    using token head_count_pos [where P = "holds l", OF tasks(1) one] by (auto simp: of_bool_def split: if_splits)
  ultimately show ?thesis using same other by (auto simp: task_move_def Let_def take_lock_def)
qed

theorem file_lock_exclusive_witness:
  "lk_token (rk_lock_heap (fw_manager demo_waiting) ! 1) \<and> \<not> holds_lock (ft_phase (fw_tasks demo_waiting ! 2)) \<and>
    task_move demo_codec (\<lambda>p. True) (demo_chance 2) 2 demo_waiting = None"
proof -
  have tasks: "1 < length (fw_tasks demo_waiting)" "2 < length (fw_tasks demo_waiting)" "(1::nat) \<noteq> 2"
    by (simp_all add: demo_waiting_def demo_taking_def)
  have p: "ft_phase (fw_tasks demo_waiting ! 1) = Working ''/a'' 1 demo_inspected" "ft_phase (fw_tasks demo_waiting ! 2) = Waiting ''/a'' 1"
    by (simp_all add: demo_waiting_def demo_taking_def)
  have "\<not> ch_ended (demo_chance 2)" by (simp add: demo_chance_def)
  with file_lock_exclusive [OF demo_waiting_run tasks, of "''/a''" 1 1] p show ?thesis by simp
qed

lemma locks_released:
  assumes "file_run K W V w" "\<And>t. t \<in> set (fw_tasks w) \<Longrightarrow> \<exists>out. ft_phase t = Ended out"
  shows "rk_locks (fw_manager w) = []"
proof (rule ccontr)
  assume "rk_locks (fw_manager w) \<noteq> []"
  then obtain targ l where e: "(targ, l) \<in> set (rk_locks (fw_manager w))" by (metis list.set_intros(1) neq_Nil_conv surj_pair)
  have L: "locks_ok (fw_manager w) (fw_tasks w)" using file_run_ok [OF assms(1)] by (simp add: world_ok_def)
  have "head_count (uses l) (fw_tasks w) = 0" using assms(2) by (force simp: head_count_zero uses_def)
  with locks_okD(3) [OF L e] show False by simp
qed

text \<open>The steps a task has left.\<close>

definition stage_rank :: "file_stage \<Rightarrow> nat" where
  "stage_rank st = (case st of Loading \<Rightarrow> 13 | Found r \<Rightarrow> 12 | Sized r \<Rightarrow> 11 | Loaded r c \<Rightarrow> 10 | Computed f r \<Rightarrow> 10 | Drafted d \<Rightarrow> 9
     | Stated d n \<Rightarrow> 8 | Reread d n m \<Rightarrow> 7 | Inspected d x \<Rightarrow> 6 | Checked d x \<Rightarrow> 5 | Wrote f r mode \<Rightarrow> 4)"

definition task_rank :: "job_phase \<Rightarrow> nat" where
  "task_rank ph = (case ph of Ready \<Rightarrow> 15 | Waiting t l \<Rightarrow> 14 | Working t l st \<Rightarrow> stage_rank st
     | Releasing t l out \<Rightarrow> 2 | Leaving t l out \<Rightarrow> 1 | Ended out \<Rightarrow> 0)"

lemma read_stage_rank: "read_stage K W ch w t targ st = Next st' \<Longrightarrow> stage_rank st' < stage_rank st"
  by (cases st)
    (auto simp: read_stage_def Let_def stage_rank_def load_backup_def size_backup_def read_backup_def prepare_edit_def
      draft_edit_def draft_rollback_def inspect_draft_def next_or_quit_def sum_or_def split: file_job.splits sum.splits option.splits if_splits)

lemma work_stage_rank:
  assumes "work_stage K W ch w t targ st = (w', Next st')"
  shows "stage_rank st' < stage_rank st"
proof -
  consider (edit) f r mode link n where "st = Checked (EditDraft f r mode link) n" | (undo) r link n where "st = Checked (RollbackDraft r link) n"
    | (publish) f r mode where "st = Wrote f r mode" | (read) "work_stage K W ch w t targ st = (w, read_stage K W ch w t targ st)"
    using work_stage_read [of st K W ch w t targ] by (metis file_draft.exhaust)
  then show ?thesis
  proof cases
    case edit
    with assms show ?thesis by (auto simp: work_stage_def commit_edit_def stage_rank_def split: option.splits)
  next
    case undo
    then have "commit_rollback ch w (ft_lease t) r link = (w', Next st')" using assms by (simp add: work_stage_def)
    from commit_rollback_done [OF this] show ?thesis by auto
  next
    case publish
    with assms show ?thesis by (auto simp: work_stage_def publish_edit_def split: option.splits)
  next
    case read
    with assms read_stage_rank show ?thesis by auto
  qed
qed

lemma stage_rank_bounds: "4 \<le> stage_rank st" "stage_rank st \<le> 13"
  by (simp_all add: stage_rank_def split: file_stage.splits)

lemma task_move_rank:
  assumes "task_move K W ch i w = Some w'" "i < length (fw_tasks w)"
  shows "\<exists>t. fw_tasks w' = (fw_tasks w)[i := t] \<and> task_rank (ft_phase t) < task_rank (ft_phase (fw_tasks w ! i))"
proof (cases "ft_phase (fw_tasks w ! i)")
  case Ready
  then have w': "w' = begin_task W ch i w" using assms(1) by (simp add: task_move_def Let_def)
  show ?thesis
  proof (cases "start_task W ch w (fw_tasks w ! i)")
    case (Inl e)
    then show ?thesis using w' Ready by (auto simp: begin_task_def task_rank_def)
  next
    case (Inr x)
    then show ?thesis using w' Ready by (auto simp: begin_task_def task_rank_def split: prod.splits)
  qed
next
  case (Waiting targ l)
  with assms(1) show ?thesis using stage_rank_bounds(2) [of Loading]
    by (auto simp: task_move_def Let_def task_rank_def split: if_splits)
next
  case (Working targ l st)
  obtain w1 x where st: "work_stage K W ch w (fw_tasks w ! i) targ st = (w1, x)" by fastforce
  then have w': "w' = set_phase i (work_phase targ l x) w1" using assms(1) Working by (simp add: task_move_def Let_def)
  have "task_rank (work_phase targ l x) < stage_rank st"
    using work_stage_rank [of K W ch w "fw_tasks w ! i" targ st w1] st stage_rank_bounds(1) [of st]
    by (cases x) (auto simp: work_phase_def task_rank_def)
  with w' work_stage_frame [OF st] Working show ?thesis by (auto simp: task_rank_def)
next
  case (Releasing targ l out)
  with assms(1) show ?thesis by (auto simp: task_move_def Let_def task_rank_def)
next
  case (Leaving targ l out)
  with assms(1) show ?thesis by (auto simp: task_move_def Let_def task_rank_def)
qed (use assms in \<open>simp add: task_move_def\<close>)

lemma blocked_task:
  assumes "task_move K W ch i w = None" "i < length (fw_tasks w)"
  shows "(\<exists>out. ft_phase (fw_tasks w ! i) = Ended out) \<or>
    (\<exists>targ l. ft_phase (fw_tasks w ! i) = Waiting targ l \<and> lk_token (rk_lock_heap (fw_manager w) ! l))"
  using assms by (cases "ft_phase (fw_tasks w ! i)")
    (auto simp: task_move_def Let_def take_lock_def split: if_splits prod.splits)

lemma lock_holder_moves: "holds_lock (ft_phase (fw_tasks w ! i)) \<Longrightarrow> task_move K W ch i w \<noteq> None"
  by (cases "ft_phase (fw_tasks w ! i)") (auto simp: task_move_def Let_def split: prod.splits)




section \<open>Commits\<close>

text \<open>
  C5: a commit replaces the file that was inspected, nowhere else.  When an edit or a rollback passes
  its last check, the policy allows each of its names, they still lead to the target, and a file to be
  created is still missing; otherwise the file at that moment is of the version found first, and its
  bytes have the revision and the size the draft was made for, if the file that was read in between was
  that version too.
\<close>
theorem commit_replaces_inspected:
  assumes run: "file_run K W V w" and i: "i < length (fw_tasks w)" and t: "t = fw_tasks w ! i"
    and before: "ft_phase t = Working targ l (Inspected d x)"
    and move: "task_move K W ch i w = Some w'" "ft_phase (fw_tasks w' ! i) = Working targ l (Checked d x)"
  shows "fw_disk w' = fw_disk w \<and> W (draft_path (ft_path t) d) \<and>
    (\<forall>r link. d = RollbackDraft r link \<longrightarrow> W (ft_path t) \<and> resolve_file_target (fw_disk w) (ft_path t) False = Inr (rr_target r) \<and>
      W (ri_path (rr_info r)) \<and> resolve_file_target (fw_disk w) (ri_path (rr_info r)) False = Inr (rr_target r)) \<and>
    (\<forall>f r mode link. d = EditDraft f r mode link \<longrightarrow> W targ \<and> resolve_file_target (fw_disk w) (ft_path t) (er_created r) = Inr targ) \<and>
    (case x of None \<Rightarrow> draft_created d \<and> lstat_file (fw_disk w) (draft_path (ft_path t) d) = Some OpNotExist
     | Some (n, m) \<Rightarrow> (\<exists>now. stat_file (fw_disk w) (draft_path (ft_path t) d) = Inr now \<and> nd_regular now \<and> same_version now n \<and>
         (same_version m n \<longrightarrow> fc_revision K (nd_bytes now) = draft_revision K d \<and> length (nd_bytes now) = draft_size d)))"
proof -
  let ?D = "fw_disk w" and ?p = "draft_path (ft_path t) d"
  have stage: "work_stage K W ch w t targ (Inspected d x) = (w, next_or_quit (first_error (commit_errors W ch w t targ d x)) (Checked d x))"
    by (simp add: work_stage_def read_stage_def Let_def)
  have w': "w' = set_phase i (work_phase targ l (next_or_quit (first_error (commit_errors W ch w t targ d x)) (Checked d x))) w"
    using move(1) before stage by (simp add: task_move_def Let_def t)
  then have none: "first_error (commit_errors W ch w t targ d x) = None"
    using move(2) i by (cases "first_error (commit_errors W ch w t targ d x)") (simp_all add: next_or_quit_def work_phase_def)
  have F: "files_ok K V w" by (rule file_run_files [OF run])
  then have "phase_ok K V (ft_phase t)" and versions: "disk_versions V ?D"
    using i t by (simp_all add: files_ok_def)
  then have ok: "inspected_ok K V d x" using before by simp
  have checks: "check_file_state ?D ?p (draft_created d) (map_option fst x) = None \<and> W ?p \<and>
    (\<forall>r link. d = RollbackDraft r link \<longrightarrow> W (ft_path t) \<and> resolve_file_target ?D (ft_path t) False = Inr (rr_target r) \<and>
      W (ri_path (rr_info r)) \<and> resolve_file_target ?D (ri_path (rr_info r)) False = Inr (rr_target r)) \<and>
    (\<forall>f r mode link. d = EditDraft f r mode link \<longrightarrow> W targ \<and> resolve_file_target ?D (ft_path t) (er_created r) = Inr targ)"
    using none by (cases d)
      (auto simp: first_error_none commit_errors_def Let_def draft_path_def draft_created_def check_target_file check_rollback_file)
  have "case x of None \<Rightarrow> draft_created d \<and> lstat_file ?D ?p = Some OpNotExist
     | Some (n, m) \<Rightarrow> (\<exists>now. stat_file ?D ?p = Inr now \<and> nd_regular now \<and> same_version now n \<and>
         (same_version m n \<longrightarrow> fc_revision K (nd_bytes now) = draft_revision K d \<and> length (nd_bytes now) = draft_size d))"
  proof (cases x)
    case None
    with ok checks check_state_missing show ?thesis by (auto simp: inspected_ok_def)
  next
    case (Some y)
    obtain n m where y: "y = (n, m)" by fastforce
    with ok Some have nm: "\<not> draft_created d" "version_of V m" "fc_revision K (nd_bytes m) = draft_revision K d" "length (nd_bytes m) = draft_size d"
      by (simp_all add: inspected_ok_def)
    then obtain now where now: "stat_file ?D ?p = Inr now" "nd_regular now" "same_version now n"
      using checks Some y check_state_file [of ?D ?p n] by auto
    have "nd_bytes now = nd_bytes m" if "same_version m n"
      using same_version_bytes [OF stat_version [OF versions now(1)] nm(2)] that now(3) by (simp add: same_version_def)
    with Some y now nm show ?thesis by auto
  qed
  with checks w' show ?thesis by simp
qed

theorem commit_replaces_inspected_witness:
  "\<exists>now. stat_file demo_written ''/a'' = Inr now \<and> same_version now demo_node \<and> nd_bytes now = ''bb''"
proof -
  let ?w = "demo_taking demo_inspected" and ?t = "fw_tasks (demo_taking demo_inspected) ! 1"
  have phase: "1 < length (fw_tasks ?w)" "ft_phase ?t = Working ''/a'' 1 (Inspected demo_draft (Some (demo_node, demo_node)))"
    "ft_phase (fw_tasks (demo_taking demo_checked) ! 1) = Working ''/a'' 1 (Checked demo_draft (Some (demo_node, demo_node)))"
    by (simp_all add: demo_taking_def demo_inspected_def demo_checked_def)
  have "fw_disk ?w = demo_written" "draft_path (ft_path ?t) demo_draft = ''/a''" "draft_revision demo_codec demo_draft = ''bb''"
    by (simp_all add: demo_taking_def demo_edited_def demo_draft_def demo_backup_def backup_of_def draft_path_def draft_revision_def)
  with commit_replaces_inspected [OF demo_taking_run phase(1) refl phase(2) demo_check phase(3)] show ?thesis
    by (auto simp: same_version_def)
qed

lemma write_draft_file:
  assumes "write_draft D p data mode link stamp = Some D'"
  shows "(\<exists>n. stat_file D' p = Inr n \<and> nd_bytes n = data \<and> nd_regular n \<and> (\<not> link \<longrightarrow> nd_mode n = mode)) \<and>
    (\<exists>e. \<forall>q. q \<noteq> e \<longrightarrow> dk_nodes D' q = dk_nodes D q)"
proof -
  from assms obtain s where s: "(if link then write_through D p data mode s else replace_file D p data mode s) = Some D'"
    by (auto simp: write_draft_def split: option.splits)
  show ?thesis
  proof (cases link)
    case True
    with s have "write_through D p data mode s = Some D'" by simp
    then obtain t where t: "dk_real D p = Some t" and D': "\<exists>n. D' = D\<lparr>dk_nodes := (dk_nodes D)(t \<mapsto> n)\<rparr> \<and> nd_bytes n = data \<and> nd_regular n"
      by (fastforce simp: write_through_def split: option.splits if_splits)
    then obtain n where n: "D' = D\<lparr>dk_nodes := (dk_nodes D)(t \<mapsto> n)\<rparr>" "nd_bytes n = data" "nd_regular n" by auto
    then have "dk_link D' = dk_link D" "dk_entry D' = dk_entry D" by simp_all
    with t have "dk_real D' p = Some t" by (simp add: dk_real_def cong: option.case_cong)
    with n True show ?thesis by (auto simp: stat_file_def)
  next
    case False
    with s obtain e where e: "dk_entry D p = Some e" "D' = D\<lparr>dk_link := (dk_link D)(e := None),
       dk_nodes := (dk_nodes D)(e \<mapsto> \<lparr>nd_inode = fst s, nd_mtime = snd s, nd_mode = mode, nd_regular = True, nd_bytes = data\<rparr>)\<rparr>"
      by (auto simp: replace_file_def split: option.splits)
    then have "dk_real D' p = Some e" by (simp add: dk_real_def)
    with e show ?thesis by (auto simp: stat_file_def)
  qed
qed

lemma remove_file_gone:
  "remove_file D p = Some D' \<Longrightarrow> lstat_file D' p = Some OpNotExist \<and> (\<exists>e. \<forall>q. q \<noteq> e \<longrightarrow> dk_nodes D' q = dk_nodes D q)"
  by (auto simp: remove_file_def lstat_file_def split: option.splits if_splits)

text \<open>
  C4: a rollback restores the file as it was before the edit.  When a rollback succeeds, its session is
  still valid and the backup was in the table; afterwards the target is gone if the edit had created it,
  and otherwise holds exactly the bytes of the backup, with its mode unless it was written through a
  link, whose revision is the one the result names.  At most one place of the disk changes, and exactly
  this backup is used up.
\<close>
theorem rollback_restores_file:
  assumes run: "file_run K W V w" and i: "i < length (fw_tasks w)"
    and before: "ft_phase (fw_tasks w ! i) = Working targ l (Checked (RollbackDraft r link) x)"
    and move: "task_move K W ch i w = Some w'" "ft_phase (fw_tasks w' ! i) = Releasing targ l (RolledBack path deleted revision)"
  shows "(\<exists>s. ft_lease (fw_tasks w ! i) = Some s \<and> lease_valid (fw_valid w) s (fw_manager w)) \<and>
    map_of (rk_records (fw_manager w)) (rr_id r) = Some r \<and> fw_manager w' = remove_record r (fw_manager w) \<and>
    rk_records (fw_manager w') = AList.delete (rr_id r) (rk_records (fw_manager w)) \<and> manager_ok (fw_manager w') \<and>
    path = ri_path (rr_info r) \<and> deleted = ri_created (rr_info r) \<and>
    (if deleted then lstat_file (fw_disk w') (rr_target r) = Some OpNotExist
     else \<exists>n. stat_file (fw_disk w') (rr_target r) = Inr n \<and> nd_regular n \<and> nd_bytes n = rr_before r \<and>
       (\<not> link \<longrightarrow> nd_mode n = rr_mode r) \<and> fc_revision K (nd_bytes n) = revision) \<and>
    (\<exists>e. \<forall>q. q \<noteq> e \<longrightarrow> dk_nodes (fw_disk w') q = dk_nodes (fw_disk w) q)"
proof -
  let ?t = "fw_tasks w ! i"
  obtain w1 y where c: "commit_rollback ch w (ft_lease ?t) r link = (w1, y)" by fastforce
  have w': "w' = set_phase i (work_phase targ l y) w1"
    using move(1) before c by (simp add: task_move_def work_stage_def Let_def)
  have frame: "fw_tasks w1 = fw_tasks w" using work_stage_frame [of K W ch w ?t targ "Checked (RollbackDraft r link) x" w1 y] c by (simp add: work_stage_def)
  then have y: "y = Finish (RolledBack path deleted revision)"
    using move(2) w' i by (cases y) (auto simp: work_phase_def)
  from commit_rollback_done [OF c] y obtain s D where out: "ft_lease ?t = Some s" "lease_valid (fw_valid w) s (fw_manager w)"
    "map_of (rk_records (fw_manager w)) (rr_id r) = Some r"
    "if ri_created (rr_info r) then remove_file (fw_disk w) (rr_target r) = Some D
     else write_draft (fw_disk w) (rr_target r) (rr_before r) (rr_mode r) link (ch_stamp ch) = Some D"
    "w1 = w\<lparr>fw_disk := D, fw_manager := remove_record r (fw_manager w)\<rparr>"
    "path = ri_path (rr_info r)" "deleted = ri_created (rr_info r)" "revision = (if ri_created (rr_info r) then [] else ri_before (rr_info r))"
    by auto
  have "phase_ok K V (ft_phase ?t)" using file_run_files [OF run] i by (simp add: files_ok_def)
  then have rec: "fc_revision K (rr_before r) = ri_before (rr_info r)" using before by (simp add: draft_ok_def record_ok_def)
  have ok: "manager_ok (remove_record r (fw_manager w))"
    using manager_remove [OF _ out(3)] file_run_ok [OF run] by (simp add: world_ok_def)
  have disk: "(if deleted then lstat_file D (rr_target r) = Some OpNotExist
     else \<exists>n. stat_file D (rr_target r) = Inr n \<and> nd_regular n \<and> nd_bytes n = rr_before r \<and>
       (\<not> link \<longrightarrow> nd_mode n = rr_mode r) \<and> fc_revision K (nd_bytes n) = revision) \<and>
    (\<exists>e. \<forall>q. q \<noteq> e \<longrightarrow> dk_nodes D q = dk_nodes (fw_disk w) q)"
  proof (cases "ri_created (rr_info r)")
    case True
    with out(4,7) remove_file_gone [of "fw_disk w" "rr_target r" D] show ?thesis by simp
  next
    case False
    with out(4,7,8) rec write_draft_file [of "fw_disk w" "rr_target r" "rr_before r" "rr_mode r" link "ch_stamp ch" D]
    show ?thesis by auto
  qed
  then show ?thesis using out(1-3,5-7) ok w' by simp
qed

theorem rollback_restores_file_witness:
  "\<exists>w' n. task_move demo_codec (\<lambda>p. True) (demo_chance 2) 1 (demo_taking demo_checked) = Some w' \<and>
    stat_file (fw_disk w') ''/a'' = Inr n \<and> nd_bytes n = ''aa'' \<and> nd_mode n = 1 \<and> rk_records (fw_manager w') = []"
proof -
  let ?w = "demo_taking demo_checked"
  have phase: "1 < length (fw_tasks ?w)"
    "ft_phase (fw_tasks ?w ! 1) = Working ''/a'' 1 (Checked (RollbackDraft demo_backup False) (Some (demo_node, demo_node)))"
    by (simp_all add: demo_taking_def demo_checked_def demo_draft_def)
  obtain w' where w': "task_move demo_codec (\<lambda>p. True) (demo_chance 2) 1 ?w = Some w'"
    "ft_phase (fw_tasks w' ! 1) = Releasing ''/a'' 1 (RolledBack ''/a'' False ''aa'')"
    by (simp add: numeral_eq_Suc demo_world_defs demo_defs Let_def demo_checked_def commit_rollback_def)
  have "rk_records (fw_manager ?w) = [(1, demo_backup)]" "rr_before demo_backup = ''aa''" "rr_mode demo_backup = 1" "rr_id demo_backup = 1"
    "rr_target demo_backup = ''/a''"
    by (simp_all add: demo_taking_def demo_manager_def demo_backup_def backup_of_def)
  with rollback_restores_file [OF demo_checked_run phase w'] w'(1) show ?thesis by auto
qed

end
