(* ===== verification/File_Access.thy ===== *)
theory File_Access
  imports Rollback_Props Workspace_Paths
begin

text \<open>
  A prepared change is written exactly if the file is still what it was prepared from.
\<close>

lemma prepared_write:
  assumes "prepare_file_write K ended D path content = Inr p"
  shows "\<not> ended \<and> pf_path p = path \<and> resolve_file_target D path (er_created (pf_result p)) = Inr (pf_target p) \<and>
    er_bytes (pf_result p) = content \<and> (\<exists>f. read_or_create K max_file_size (path_at D path) [] True False = Inr (f, er_created (pf_result p)) \<and>
      er_before (pf_result p) = fc_revision K (tf_bytes f))"
  using assms by (fastforce simp: prepare_file_write_def with_target_def sum_or_def file_result_def check_target_file
      split: if_splits sum.splits option.splits prod.splits)

lemma read_existing:
  assumes "read_or_create K limit (path_at D path) requested True False = Inr (f, False)"
  shows "\<exists>n. stat_file D path = Inr n \<and> nd_regular n \<and> tf_bytes f = nd_bytes n \<and> \<not> size_exceeds limit (length (nd_bytes n))"
proof -
  have r: "read_text_file K limit (path_at D path) requested = Inr f"
    using assms by (auto simp: read_or_create_def split: sum.splits if_splits)
  then obtain n where n: "stat_file D path = Inr n" "nd_regular n" "path_at D path = PathFile (nd_bytes n)"
    by (auto simp: path_at_def read_text_file_def split: sum.splits op_error.splits if_splits)
  with r have "text_of_bytes K (nd_bytes n) requested = Inr f" "\<not> size_exceeds limit (length (nd_bytes n))"
    by (auto simp: read_text_file_def split: if_splits)
  moreover from this(1) have "tf_bytes f = nd_bytes n"
    by (auto simp: text_of_bytes_def split: sum.splits if_splits)
  ultimately show ?thesis using n by auto
qed

lemma read_missing:
  assumes "read_or_create K limit (path_at D path) requested True False = Inr (f, True)"
  shows "stat_file D path = Inl OpNotExist"
proof -
  have "read_text_file K limit (path_at D path) requested = Inl FileMissing"
    using assms by (auto simp: read_or_create_def split: sum.splits if_splits)
  then show ?thesis
    by (auto simp: path_at_def read_text_file_def text_of_bytes_def decode_bytes_def decode_auto_def decode_with_def decode_utf8_def lookup_encoding_def Let_def
        split: sum.splits op_error.splits if_splits option.splits)
qed

lemma resolved_missing:
  assumes "stat_file D path = Inl OpNotExist" "resolve_file_target D path True = Inr targ" "abs_path (dk_cwd D) path = Inr path"
  shows "lstat_file D path = Some OpNotExist"
proof -
  obtain t where t: "dk_real D path = Some t" "dk_nodes D t = None"
    using assms(1) by (auto simp: stat_file_def split: option.splits)
  then have "eval_links D path = Inl OpNotExist" by (simp add: eval_links_def)
  with assms(2,3) have "lstat_file D path \<noteq> None" by (auto simp: resolve_file_target_def split: if_splits)
  moreover obtain e where "dk_entry D path = Some e" using t(1) by (auto simp: dk_real_def split: option.splits)
  ultimately show ?thesis by (auto simp: lstat_file_def split: if_splits)
qed

lemma state_unchanged:
  "stat_file D p = Inr n \<Longrightarrow> nd_regular n \<Longrightarrow> check_file_state D p False (Some n) = None"
  by (simp add: check_file_state_def)

lemma inspect_unchanged:
  assumes "stat_file D p = Inr n" "nd_regular n"
  shows "inspect_file K D D D p revision (length (nd_bytes n)) =
    (if fc_revision K (nd_bytes n) = revision then Inr (n, n) else Inl OpChanged)"
  using assms state_unchanged [OF assms]
  by (simp add: inspect_file_def inspect_stat_def inspect_read_def read_revision_bytes_def sum_or_def Let_def)

lemma write_possible:
  assumes "stat_file D p = Inr n \<and> nd_regular n \<or> \<not> is_link D p \<and> dk_entry D p \<noteq> None"
  shows "\<exists>D'. write_draft D p data mode (is_link D p) (Some s) = Some D'"
  using assms
  by (auto simp: write_draft_def write_through_def replace_file_def is_link_def stat_file_def dk_real_def split: option.splits)

text \<open>
  A prepared write is committed if nothing has changed, and refused if the file has.  When a whole
  file is prepared at an absolute path, committing it on the same disk succeeds and the file then holds
  exactly the content; committing it where the existing file has bytes of another revision writes
  nothing.
\<close>
lemma prepared_write_commits:
  assumes prepared: "prepare_file_write K ended D path content = Inr p" and path: "abs_path (dk_cwd D) path = Inr path"
  shows "(\<exists>D' n. commit_prepared K (\<lambda>i. False) (\<lambda>i. D) True (Some stamp) p = Inr D' \<and> stat_file D' path = Inr n \<and> nd_bytes n = content) \<and>
    (\<forall>D2 n. \<not> er_created (pf_result p) \<longrightarrow> stat_file D2 path = Inr n \<longrightarrow> nd_regular n \<longrightarrow>
      fc_revision K (nd_bytes n) \<noteq> er_before (pf_result p) \<longrightarrow> (\<exists>e. commit_prepared K (\<lambda>i. False) (\<lambda>i. D2) True (Some stamp) p = Inl e))"
proof
  note P = prepared_write [OF prepared]
  let ?r = "pf_result p"
  have targ: "check_file_target D path (pf_target p) (er_created ?r) = None" using P by (simp add: check_target_file)
  obtain f where f: "read_or_create K max_file_size (path_at D path) [] True False = Inr (f, er_created ?r)"
    "er_before ?r = fc_revision K (tf_bytes f)" using P by auto
  have "\<exists>D'. commit_prepared K (\<lambda>i. False) (\<lambda>i. D) True (Some stamp) p = Inr D' \<and>
    (\<exists>mode link. write_draft D path content mode link (Some stamp) = Some D')"
  proof (cases "er_created ?r")
    case True
    have l: "lstat_file D path = Some OpNotExist"
      using resolved_missing [OF read_missing _ path] f(1) P True by auto
    then have "\<not> is_link D path" "dk_entry D path \<noteq> None" by (auto simp: lstat_file_def is_link_def split: option.splits if_splits)
    with write_possible [of D path] obtain D' where "write_draft D path content 420 (is_link D path) (Some stamp) = Some D'" by blast
    moreover have "check_file_state D path True None = None" using l by (simp add: check_file_state_def)
    ultimately show ?thesis using True P targ
      by (auto simp: commit_prepared_def commit_found_def Let_def sum_or_def)
  next
    case False
    with read_existing f(1) obtain n where n: "stat_file D path = Inr n" "nd_regular n" "tf_bytes f = nd_bytes n"
      "\<not> size_exceeds max_file_size (length (nd_bytes n))" by metis
    with write_possible [of D path] obtain D' where "write_draft D path content (nd_mode n) (is_link D path) (Some stamp) = Some D'" by blast
    then show ?thesis using False P targ n f(2) state_unchanged [OF n(1,2)] inspect_unchanged [OF n(1,2), of K]
      by (auto simp: commit_prepared_def commit_found_def Let_def sum_or_def)
  qed
  then show "\<exists>D' n. commit_prepared K (\<lambda>i. False) (\<lambda>i. D) True (Some stamp) p = Inr D' \<and> stat_file D' path = Inr n \<and> nd_bytes n = content"
    using write_draft_file by blast
  show "\<forall>D2 n. \<not> er_created ?r \<longrightarrow> stat_file D2 path = Inr n \<longrightarrow> nd_regular n \<longrightarrow>
      fc_revision K (nd_bytes n) \<noteq> er_before ?r \<longrightarrow> (\<exists>e. commit_prepared K (\<lambda>i. False) (\<lambda>i. D2) True (Some stamp) p = Inl e)"
  proof (intro allI impI)
    fix D2 n assume n: "\<not> er_created ?r" "stat_file D2 path = Inr n" "nd_regular n" "fc_revision K (nd_bytes n) \<noteq> er_before ?r"
    have "\<exists>e. commit_found K (\<lambda>i. D2) True p = Inl e"
      using n P inspect_unchanged [OF n(2,3), of K] by (simp add: commit_found_def Let_def sum_or_def)
    then show "\<exists>e. commit_prepared K (\<lambda>i. False) (\<lambda>i. D2) True (Some stamp) p = Inl e"
      by (auto simp: commit_prepared_def Let_def sum_or_def split: option.splits)
  qed
qed

lemma demo_write:
  "prepare_file_write demo_codec False demo_disk ''/a'' ''bb'' = Inr \<lparr>pf_path = ''/a'', pf_target = ''/a'',
     pf_result = demo_result\<lparr>er_diff := edit_diff ''/a'' ''aa'' ''bb'' 2 2 3 max_file_size\<rparr>\<rparr>"
proof -
  have "read_or_create demo_codec max_file_size (PathFile ''aa'') [] True False = Inr (demo_file, False)"
    using demo_read by (simp add: read_or_create_def read_text_file_def size_exceeds_def max_file_size_def)
  then show ?thesis
    by (simp add: prepare_file_write_def with_target_def sum_or_def file_result_def check_file_target_def resolve_file_target_def eval_links_def stat_file_def
        dk_real_def path_at_def demo_disk_def demo_paths demo_result_def demo_codec_def demo_file_def)
qed

lemma prepared_write_commits_witness:
  "\<exists>p D' n. prepare_file_write demo_codec False demo_disk ''/a'' ''bb'' = Inr p \<and>
    commit_prepared demo_codec (\<lambda>i. False) (\<lambda>i. demo_disk) True (Some (1, 1)) p = Inr D' \<and> stat_file D' ''/a'' = Inr n \<and> nd_bytes n = ''bb''"
  using prepared_write_commits [OF demo_write, of "(1, 1)"] demo_write demo_paths(1) by (simp add: demo_disk_def)

text \<open>
  The file service in front of the manager (\<open>internal/fileops/service.go\<close>, \<open>binding.go\<close>,
  \<open>edit_service.go\<close>, \<open>rollback_service.go\<close>, \<open>commit.go\<close>): which lease a call uses, what a call resolves
  and checks before it becomes a task, and what its commit guard checks again.  The resolution of a
  workspace path is an argument, its answers come from \<open>Workspace_Paths\<close>.
\<close>

section \<open>Bindings\<close>

text \<open>
  What the context of a call carries: a binding of this or of another service, with the lease it took,
  and whether the actor is a superadmin.
\<close>

record file_caller =
  cl_own_binding :: "bool option"
  cl_lease :: "nat option"
  cl_superadmin :: bool

datatype access_error = AccessOp op_error | AccessPath workspace_error | AccessRole | AccessMoved

definition edit_session :: "file_caller \<Rightarrow> op_error + nat option" where
  "edit_session c = (case cl_own_binding c of
     None \<Rightarrow> Inr None | Some own \<Rightarrow> if own then Inr (cl_lease c) else Inl OpExpired)"

definition edit_binding :: "(nat \<Rightarrow> bool) \<Rightarrow> bool \<Rightarrow> file_caller \<Rightarrow> rollback_manager \<Rightarrow> op_error + nat option" where
  "edit_binding valid ended c m =
     (if ended then Inl OpCancelled
      else sum_or Inl (\<lambda>lease. case lease of
          None \<Rightarrow> Inr None
        | Some s \<Rightarrow> (case check_lease valid ended s m of Some e \<Rightarrow> Inl e | None \<Rightarrow> Inr (Some s)))
        (edit_session c))"

definition rollback_binding :: "file_caller \<Rightarrow> access_error + nat" where
  "rollback_binding c =
     (if \<not> cl_superadmin c then Inl AccessRole
      else (case cl_own_binding c of
        None \<Rightarrow> Inl (AccessOp OpExpired)
      | Some own \<Rightarrow> (case cl_lease c of
          None \<Rightarrow> Inl (AccessOp OpExpired)
        | Some s \<Rightarrow> if own then Inr s else Inl (AccessOp OpExpired))))"

section \<open>Edits\<close>

text \<open>\<open>editPath\<close>: the resolved path, its target, and the policy on both.\<close>

definition edit_path ::
    "(string \<Rightarrow> bool) \<Rightarrow> disk \<Rightarrow> workspace_error + resolved_path \<Rightarrow> bool \<Rightarrow> access_error + resolved_path \<times> string" where
  "edit_path W D resolved create = (case resolved of
     Inl e \<Rightarrow> Inl (AccessPath e)
   | Inr p \<Rightarrow> (case resolve_file_target D (rs_path p) create of
       Inl e \<Rightarrow> Inl (AccessOp e)
     | Inr targ \<Rightarrow> (case first_error [denied W (rs_path p), denied W targ] of
         Some e \<Rightarrow> Inl (AccessOp e) | None \<Rightarrow> Inr (p, targ))))"

record prepared_edit =
  pe_lease :: "nat option"
  pe_request :: edit_request
  pe_resolved :: resolved_path
  pe_target :: string
  pe_result :: edit_result

text \<open>
  What \<open>edit\<close> decides before the manager takes over: the lease, the path and the target.  A prepared
  edit keeps the lease it was prepared with and refuses another path or target.
\<close>

definition start_edit ::
    "(string \<Rightarrow> bool) \<Rightarrow> (nat \<Rightarrow> bool) \<Rightarrow> bool \<Rightarrow> file_caller \<Rightarrow> rollback_manager \<Rightarrow> disk \<Rightarrow> workspace_error + resolved_path \<Rightarrow>
       edit_request \<Rightarrow> prepared_edit option \<Rightarrow> access_error + file_job \<times> nat option" where
  "start_edit W valid ended c m D resolved q prepared = (case edit_binding valid ended c m of
     Inl e \<Rightarrow> Inl (AccessOp e)
   | Inr lease \<Rightarrow> (case edit_path W D resolved (eq_create q) of
       Inl e \<Rightarrow> Inl e
     | Inr (p, targ) \<Rightarrow> (case prepared of
         None \<Rightarrow> Inr (EditJob (q\<lparr>eq_path := rs_path p\<rparr>) None, lease)
       | Some x \<Rightarrow>
           if rs_path (pe_resolved x) \<noteq> rs_path p \<or> pe_target x \<noteq> targ then Inl AccessMoved
           else Inr (EditJob (q\<lparr>eq_path := rs_path p\<rparr>) (Some (pe_result x)), pe_lease x))))"

definition commit_prepared_edit ::
    "(string \<Rightarrow> bool) \<Rightarrow> (nat \<Rightarrow> bool) \<Rightarrow> bool \<Rightarrow> file_caller \<Rightarrow> rollback_manager \<Rightarrow> disk \<Rightarrow> workspace_error + resolved_path \<Rightarrow>
       prepared_edit \<Rightarrow> access_error + file_job \<times> nat option" where
  "commit_prepared_edit W valid ended c m D resolved x = start_edit W valid ended c m D resolved (pe_request x) (Some x)"

text \<open>The guard of the commit: admission, the end of the context, and both paths once more.\<close>

definition enter_guard :: "bool \<Rightarrow> bool \<Rightarrow> access_error option \<Rightarrow> access_error option" where
  "enter_guard admitted ended moved = (if \<not> admitted then Some (AccessOp OpRefused) else if ended then Some (AccessOp OpCancelled) else moved)"

definition edit_guard ::
    "(string \<Rightarrow> bool) \<Rightarrow> disk \<Rightarrow> workspace_error + resolved_path \<Rightarrow> bool \<Rightarrow> resolved_path \<Rightarrow> string \<Rightarrow> access_error option" where
  "edit_guard W D resolved create p targ = (case edit_path W D resolved create of
     Inl e \<Rightarrow> Some e
   | Inr (latest, current) \<Rightarrow> if rs_path latest \<noteq> rs_path p \<or> current \<noteq> targ then Some AccessMoved else None)"

section \<open>Rollbacks\<close>

record prepared_rollback =
  pr_lease :: nat
  pr_info :: rollback_info

definition start_rollback ::
    "file_caller \<Rightarrow> workspace_error + resolved_path \<Rightarrow> nat \<Rightarrow> prepared_rollback option \<Rightarrow> access_error + file_job \<times> nat option" where
  "start_rollback c resolved expected prepared = (case rollback_binding c of
     Inl e \<Rightarrow> Inl e
   | Inr s \<Rightarrow> (case resolved of
       Inl e \<Rightarrow> Inl (AccessPath e)
     | Inr p \<Rightarrow> (case prepared of
         None \<Rightarrow> Inr (RollbackJob (rs_path p) expected, Some s)
       | Some x \<Rightarrow> if rs_path p \<noteq> ri_path (pr_info x) then Inl AccessMoved
           else Inr (RollbackJob (rs_path p) expected, Some (pr_lease x)))))"

definition commit_prepared_rollback ::
    "file_caller \<Rightarrow> workspace_error + resolved_path \<Rightarrow> prepared_rollback \<Rightarrow> access_error + file_job \<times> nat option" where
  "commit_prepared_rollback c resolved x = start_rollback c resolved (ri_id (pr_info x)) (Some x)"

definition start_preview :: "file_caller \<Rightarrow> workspace_error + resolved_path \<Rightarrow> access_error + file_job \<times> nat option" where
  "start_preview c resolved = (case rollback_binding c of
     Inl e \<Rightarrow> Inl e
   | Inr s \<Rightarrow> (case resolved of Inl e \<Rightarrow> Inl (AccessPath e) | Inr p \<Rightarrow> Inr (PreviewJob (rs_path p) 0, Some s)))"

definition rollback_guard :: "workspace_error + resolved_path \<Rightarrow> string \<Rightarrow> access_error option" where
  "rollback_guard resolved path = (case resolved of
     Inl e \<Rightarrow> Some (AccessPath e) | Inr p \<Rightarrow> if rs_path p \<noteq> path then Some AccessMoved else None)"

definition service_list :: "(nat \<Rightarrow> bool) \<Rightarrow> file_caller \<Rightarrow> rollback_manager \<Rightarrow> access_error + rollback_info list" where
  "service_list valid c m = (case rollback_binding c of
     Inl e \<Rightarrow> Inl e
   | Inr s \<Rightarrow> (case list_records valid s m of Inl e \<Rightarrow> Inl (AccessOp e) | Inr infos \<Rightarrow> Inr infos))"

text \<open>The number of a backup finds the path that the workspace resolves again.\<close>

definition rollback_by_id ::
    "(nat \<Rightarrow> bool) \<Rightarrow> file_caller \<Rightarrow> rollback_manager \<Rightarrow> (string \<Rightarrow> workspace_error + resolved_path) \<Rightarrow> nat \<Rightarrow>
       access_error + file_job \<times> nat option" where
  "rollback_by_id valid c m resolve i = (case service_list valid c m of
     Inl e \<Rightarrow> Inl e
   | Inr infos \<Rightarrow> (case find (\<lambda>x. ri_id x = i) infos of
       None \<Rightarrow> Inl (AccessOp OpNotFound) | Some x \<Rightarrow> start_rollback c (resolve (ri_path x)) i None))"

section \<open>What a call may become\<close>

lemma rollback_caller:
  "rollback_binding c = Inr s \<longleftrightarrow> cl_superadmin c \<and> cl_own_binding c = Some True \<and> cl_lease c = Some s"
  by (auto simp: rollback_binding_def split: option.splits)

lemma edit_caller:
  assumes "edit_binding valid ended c m = Inr lease"
  shows "\<not> ended \<and> (\<forall>s. lease = Some s \<longrightarrow> cl_own_binding c = Some True \<and> cl_lease c = Some s \<and> lease_valid valid s m)"
  using assms by (auto simp: edit_binding_def edit_session_def check_lease_def sum_or_def split: if_splits option.splits)

text \<open>The list of a session names exactly its backups, by number.\<close>

lemma listed_backups:
  assumes "books m" "s < length (rk_heap m)" "list_records valid s m = Inr infos"
  shows "x \<in> set infos \<longleftrightarrow> (\<exists>r. (ri_id x, r) \<in> set (rk_records m) \<and> rr_info r = x \<and> rr_scope r = s)"
proof -
  have set: "set infos = (\<lambda>(t, r). rr_info r) ` set (scope_files s m)"
    using assms(3) by (force simp: list_records_def split: if_splits)
  show ?thesis
  proof
    assume "x \<in> set infos"
    with set obtain t r where "(t, r) \<in> set (scope_files s m)" "x = rr_info r" by auto
    with booksD(6) [OF assms(1,2)] show "\<exists>r. (ri_id x, r) \<in> set (rk_records m) \<and> rr_info r = x \<and> rr_scope r = s" by metis
  next
    assume "\<exists>r. (ri_id x, r) \<in> set (rk_records m) \<and> rr_info r = x \<and> rr_scope r = s"
    then obtain r where r: "(ri_id x, r) \<in> set (rk_records m)" "rr_info r = x" "rr_scope r = s" by auto
    with booksD(4) [OF assms(1) r(1)] have "map_of (scope_files s m) (rr_target r) = Some r" by (simp add: filed_def)
    with set r(2) show "x \<in> set infos" by (force dest: map_of_SomeD)
  qed
qed

end
