(* ===== verification/Spec2Isabelle.thy ===== *)
theory Spec2Isabelle
  imports File_Edit_Props File_Diff_Props Turn_Props Signal_Queue_Props Signal_Emit_Props
    Session_Admission_Props Session_Binding_Props Request_Props Elyph_Props
    Shell_Props Llm_Retry Resident_Props Hook_Output_Props
    Hook_Rule_Edits Hook_Run_Props
    Rollback_Props File_Access
begin

text \<open>
  Verification library for ElBot (Go, \<open>src/internal\<close>): an agent host whose platforms deliver
  messages into sessions; a session runs turns against a language model, the turns use tools on
  files and under the user's confirmation, and internal signals connect the modules.  The library
  models the parts that decide what may happen when: who owns a turn, which session is current,
  in which order work runs, what an edit does to a file, which skill texts are accepted.

  Conventions.  A Go struct is a record, an enumeration or error a datatype, a map an association
  list or a function.  Strings are byte lists.  Go's \<open>int\<close> is \<open>int\<close> or \<open>nat\<close> where its values are
  bounded by the length of a text, a queue or a table, which is far from 64 bits; the version
  counter of bindings, which only counts up, is reduced modulo 2^64 as the code does.  An error
  return is the left of a sum or an option.  An object with a mutex is a state, and every region
  under the mutex one step, so a list of steps is one interleaving of any number of goroutines;
  properties hold for all lists.  Closing a closed channel or slicing out of range is a flag or an
  error value of the model, so its absence is a theorem.  Channels, timers and contexts appear
  as events.  Nothing needs fuel: loops are structural or have a termination
  proof, but for the eviction of backups, a partial function shown to return in every run.

  Theories, in the order of dependence.

  \<open>Elbot_Prelude\<close>: lists, stable sorting, and two interfaces: \<open>guarded_machine\<close> (a machine with
  an invariant, giving it for all reachable states) and \<open>one_way_flag\<close> (a condition that, once
  reached, is never left); every machine below is an interpretation; error values
  and \<open>errors.Is\<close>.  \<open>Go_Order\<close>: the interface \<open>comparison\<close> of three-way comparisons, interpreted
  on integers, strings, lists and admission keys.  \<open>Go_Strings\<close>: the functions of \<open>strings\<close>,
  \<open>strconv\<close> and \<open>utf8\<close> that the code uses.

  \<open>File_Text\<close>, \<open>File_Match\<close>, \<open>File_Edit\<close> (\<open>fileops/text.go\<close>, \<open>match.go\<close>, \<open>edit.go\<close>): line ends,
  ranges, search, and the batch editor: field checks, resolution of an edit to a byte range,
  overlap checks, splicing from the end.  \<open>File_Edit_Laws\<close> and \<open>File_Edit_Props\<close>: a batch never
  slices out of range, equals the left-to-right weaving of its disjoint ranges (the interface
  \<open>edit_resolver\<close>), and each operation does to the lines what its name says.
  \<open>File_Diff\<close>, \<open>File_Diff_Props\<close> (\<open>fileops/diff.go\<close>): the table and walk of the diff refine the
  recursive longest common subsequence, the script is optimal, and its hunks are a patch from
  the old file to the new one.

  \<open>File_Service\<close>, \<open>File_Service_Props\<close> (\<open>fileops/encoding.go\<close>, \<open>file.go\<close>): decoding, limits and the
  calculation of an edit from bytes to bytes; an edit reads back.  \<open>File_Disk\<close>: entries, links and
  versions of files, targets, the checks before a write and prepared changes (\<open>preview.go\<close>,
  \<open>atomic_write.go\<close>).
  \<open>Rollback_Manager\<close>, \<open>Rollback_Run\<close> (\<open>fileops/rollback.go\<close>): leases, backups, limits and target locks, and
  the machine of concurrent edits, previews and rollbacks over a disk that others change too; a file
  version is named by identity and time (the parameter of the run).  \<open>Rollback_Laws\<close>,
  \<open>Rollback_Run_Laws\<close> and \<open>Rollback_Files\<close>: its invariants, from the books and the locks to
  what a task knows of its file; \<open>Rollback_Demo\<close>: a run played by the functions of the model;
  \<open>Rollback_Props\<close>: backups balance and give way from the oldest, a target has one worker, tasks
  finish, a commit replaces the inspected file only, a rollback restores the bytes.
  \<open>File_Access\<close> (\<open>service.go\<close>, \<open>binding.go\<close>, \<open>edit_service.go\<close>, \<open>rollback_service.go\<close>): who may start which task; a
  prepared change is committed if and only if nothing changed.

  \<open>Llm_Segments\<close> (\<open>llm/segment.go\<close>, \<open>message.go\<close>), \<open>Turn_Input\<close> (\<open>turn/lifecycle/pending.go\<close>):
  messages of text and images, merging queued inputs.
  \<open>Turn_Lifecycle\<close> (\<open>turn/lifecycle\<close>, \<open>turn/share\<close>, \<open>turn/confirmation\<close>): the table of turns, its
  phases, and risk confirmations; \<open>Turn_Lifecycle_Laws\<close> has the invariant, one lemma per method;
  \<open>Turn_Props\<close> shows that no channel is closed twice or lost, that stale attempts are powerless,
  that a stopping turn waits for its attempt, and that a risk question is answered once.
  \<open>Turn_Execution\<close> (\<open>turn/execution.go\<close>): an execution finishes once.

  \<open>Signal_Queue\<close> (\<open>signal/queue.go\<close>): lanes, workers, admission, cancellation and shutdown of the
  scheduler; \<open>Signal_Queue_Laws\<close> and \<open>Signal_Queue_Steps\<close> its invariant step by step;
  \<open>Signal_Queue_Props\<close>: bounds, order within a lane, every task finished once, and draining.
  \<open>Signal_Delivery\<close> (\<open>signal/connection.go\<close>, \<open>result.go\<close>): receivers and the collection of results.
  \<open>Signal_Emit\<close> (\<open>signal/signal.go\<close>) composes queue, connections and emissions: a world of signals
  in which emissions, callbacks, forwarding to other signals and closing interleave.
  \<open>Signal_Emit_Laws\<close>, \<open>Signal_Emit_Steps\<close>, \<open>Signal_Emit_Net\<close> and
  \<open>Signal_Emit_World\<close>: its invariant, from the books of one emission to
  the whole world; \<open>Signal_Emit_Props\<close>: closing joins what it promises, every receiver exits once,
  a forwarded callback stays owned.

  \<open>Session_Admission\<close> (\<open>session/binding/coordination.go\<close>, \<open>session/share/session.go\<close>): the ordered
  locks of scopes and sessions; its theorems are exclusion, absence of deadlock for any nesting,
  and an orderly close.  \<open>Session_Binding\<close> (\<open>session/binding/manager.go\<close>, \<open>signals.go\<close>) puts the
  current bindings on top of it, its state contains the admissions: one activation per scope,
  every change announced once, an entered binding cannot be taken away from outside.

  \<open>Request_Manager\<close>, \<open>Request_Props\<close> (\<open>request/manager.go\<close>): registration of running requests and
  cancellation along their contexts.

  \<open>Elyph\<close> (\<open>elyph/parser.go\<close>, \<open>ast.go\<close>): the parser of skill and task texts.  \<open>Elyph_Grammar\<close>: its
  tokens, the grammar as an inductive relation, and a pushdown machine accepting exactly the
  grammar; \<open>Elyph_Laws\<close>: the parser refines the machine; \<open>Elyph_Props\<close>: acceptance is the grammar,
  the quick header scan agrees, diagnostics point into the document.  The Unicode classes
  beyond ASCII are a parameter.

  \<open>Go_Paths\<close>: \<open>path/filepath\<close> on Unix, by the elements of a path, with the law that joining a
  directory and a path that does not climb stays below the directory.
  \<open>Workspace_Paths\<close> (\<open>workspace/workspace.go\<close>, \<open>resolve.go\<close>, \<open>sandbox.go\<close>): the working directory
  of a call and the resolution of paths, over a record of the host's answers.
  \<open>Security_Policy\<close> (\<open>security/security.go\<close>, \<open>confirm\<close> of \<open>tool/execution/runner.go\<close>): roles, risk
  levels, and whether a call runs, is refused or is put to the user.
  \<open>Shell_Risk\<close>, \<open>Shell_Tool\<close> (\<open>tool/builtin/shell*.go\<close>, \<open>file_guard.go\<close>): the risk of a shell command
  as the list of nodes the parser's walk visits, the rules of a restricted call, guarded files, the
  preparation of a call, and its output buffer.  \<open>Shell_Laws\<close> and \<open>Shell_Sandbox_Laws\<close>: every step
  only adds findings, trimming cannot hide an escape.  \<open>Shell_Props\<close>: risk is monotone, a restricted
  command that runs unasked stays below its directory, guarded files are not written, resolved
  paths are confined, output is bounded.

  \<open>Llm_Retry\<close> (\<open>llm/error.go\<close>, \<open>llm/retry.go\<close>): classification of failures, and retries within
  their budget, with delays as signed 64-bit words that double without wrapping.
  \<open>Resident_Memory\<close>, \<open>Resident_Props\<close> (\<open>memory/resident/store.go\<close>): the memory file, its cache, word
  limits and migration; the file stays well-formed, and a read returns what was written.  The
  TOML package and the Unicode tables are functions of a codec, the answers of the system a record.

  \<open>Llm_Content\<close> (\<open>llm/segment.go\<close>): readable text of segments, replacement by regular expressions.
  \<open>Delivery_Output\<close>, \<open>Hook_Output\<close>, \<open>Hook_Output_Props\<close> (\<open>delivery/delivery.go\<close>,
  \<open>hook/share/output\<close>): outputs for platforms, building them from rules and checking them before they
  are sent; what the builder accepts the sender accepts.
  \<open>Hook_Event\<close> (\<open>hook/share/event.go\<close>, \<open>match.go\<close>): events, conditions, captures, blocking.
  \<open>Hook_Rules\<close> (\<open>hook/rules/action.go\<close>, \<open>exec.go\<close>, \<open>rule.go\<close>): the actions of a rule, over a
  host of processes, tools and workers; \<open>Hook_Config\<close> (\<open>config.go\<close>, \<open>hook/share/runtime_config.go\<close>):
  loading root and plugin files, and small inputs.  \<open>Hook_Rule_Props\<close>: plugins stay in
  their directory, loaded rules do not panic; \<open>Hook_Rule_Edits\<close>: a rule edits what its point allows.
  \<open>Hook_Pipeline\<close> (\<open>hook/pipeline/manager.go\<close>): registration, replacement and runs.
  \<open>Hook_Pipeline_Props\<close>: order and reload; \<open>Hook_Run_Props\<close>: failures are isolated
  and reported once, read-only runs keep the calls, loaded pipelines answer every event.  Regular
  expressions and \<open>url.Parse\<close> are functions of which only the offsets of matches are assumed.

  Not modelled: the platforms and their wire protocols, the storage schema and its SQL, the
  providers of language models, the configuration files, terminals and processes, which are
  input and output around the modelled core; and, for later extension, the worker processes
  of hooks, the command router, background tasks, tool loops and session control.  The texts of messages are modelled only where a caller can act on them.
\<close>

end
